(* ===== verification/Prelude.thy ===== *)
theory Prelude
  imports Main "HOL-Library.Word" "HOL-Library.AList" "HOL-Library.Multiset" "HOL-Library.Sublist"
begin

text \<open>
  Shared ground of the development: the model of the Qt value types the sources use
  (\<^verbatim>\<open>QString\<close> as a list of UTF-16 code units, \<^verbatim>\<open>QHash\<close> as an association list with
  one entry per key), the text operations (\<^verbatim>\<open>indexOf\<close>, \<^verbatim>\<open>trimmed\<close>, \<^verbatim>\<open>split\<close>,
  \<^verbatim>\<open>QString::number\<close>), \<^verbatim>\<open>std::stable_sort\<close>, runs of a deterministic machine,
  and the locales through which the components state their contracts: an invariant kept by every
  operation, and a comparator that is a strict weak order.
\<close>

section \<open>Qt value types\<close>

text \<open>
  A \<^verbatim>\<open>QChar\<close> is one UTF-16 code unit and \<^verbatim>\<open>QString::size()\<close> counts code units. Literals
  of the sources are ASCII, so \<open>lit\<close> turns an Isabelle string literal into code units.
\<close>

type_synonym qchar = nat
type_synonym qstring = "qchar list"
type_synonym ('k, 'v) qhash = "('k \<times> 'v) list"

definition lit :: "string \<Rightarrow> qstring" where
  "lit s = map of_char s"

lemma lit_simps [simp]:
  "lit [] = []"
  "lit (c # s) = of_char c # lit s"
  by (simp_all add: lit_def)

subsection \<open>Hash tables\<close>

abbreviation hash_value :: "('k, 'v) qhash \<Rightarrow> 'k \<Rightarrow> 'v \<Rightarrow> 'v" where
  "hash_value h k d \<equiv> (case map_of h k of None \<Rightarrow> d | Some v \<Rightarrow> v)"

definition hash_contains :: "('k, 'v) qhash \<Rightarrow> 'k \<Rightarrow> bool" where
  "hash_contains h k \<longleftrightarrow> k \<in> fst ` set h"

abbreviation hash_ok :: "('k, 'v) qhash \<Rightarrow> bool" where
  "hash_ok h \<equiv> distinct (map fst h)"

lemma hash_contains_simps [simp]:
  "\<not> hash_contains [] k"
  "hash_contains ((j, v) # h) k \<longleftrightarrow> k = j \<or> hash_contains h k"
  by (simp_all add: hash_contains_def)

lemma hash_contains_lookup: "hash_contains h k \<longleftrightarrow> map_of h k \<noteq> None"
  unfolding hash_contains_def by (simp only: map_of_eq_None_iff not_not)

lemma hash_Nil_iff: "h = [] \<longleftrightarrow> (\<forall>k. \<not> hash_contains h k)"
  by (cases h) (auto simp: hash_contains_def)

lemma hash_ok_update [simp]: "hash_ok h \<Longrightarrow> hash_ok (AList.update k v h)"
  by (simp add: distinct_update)

lemma hash_ok_delete [simp]: "hash_ok h \<Longrightarrow> hash_ok (AList.delete k h)"
  by (simp add: distinct_delete)

lemma map_of_update [simp]:
  "map_of (AList.update k v h) k' = (if k' = k then Some v else map_of h k')"
  by (simp add: AList.update_conv)

lemma map_of_delete [simp]:
  "map_of (AList.delete k h) k' = (if k' = k then None else map_of h k')"
  by (simp add: AList.delete_conv)

subsection \<open>Searching and cutting text\<close>

text \<open>\<open>indexOf x s\<close> is \<^verbatim>\<open>s.indexOf(x)\<close>, with \<open>None\<close> for -1.\<close>

fun indexOf :: "'a \<Rightarrow> 'a list \<Rightarrow> nat option" where
  "indexOf x [] = None"
| "indexOf x (y # ys) = (if x = y then Some 0 else map_option Suc (indexOf x ys))"

lemma indexOf_None [simp]: "indexOf x s = None \<longleftrightarrow> x \<notin> set s"
  by (induction s) auto

lemma indexOf_Some:
  "indexOf x s = Some i \<Longrightarrow> i < length s \<and> s ! i = x \<and> x \<notin> set (take i s)"
proof (induction s arbitrary: i)
  case (Cons y ys)
  show ?case
  proof (cases "x = y")
    case False
    with Cons.prems obtain j where "indexOf x ys = Some j" "i = Suc j" by auto
    with Cons.IH [of j] False show ?thesis by simp
  qed (use Cons.prems in simp)
qed simp

lemma indexOf_append: "x \<notin> set xs \<Longrightarrow> indexOf x (xs @ x # ys) = Some (length xs)"
  by (induction xs) auto

lemma indexOf_split:
  assumes "indexOf x s = Some i"
  shows "s = take i s @ x # drop (Suc i) s"
  using indexOf_Some [OF assms] id_take_nth_drop [of i s] by simp

text \<open>\<^verbatim>\<open>QChar::isSpace\<close>: the ASCII controls 9 to 13, NEL and the Unicode separator categories.\<close>

definition isSpace :: "qchar \<Rightarrow> bool" where
  "isSpace c \<longleftrightarrow> c = 32 \<or> (9 \<le> c \<and> c \<le> 13) \<or> c = 133 \<or> c = 160 \<or> c = 5760 \<or>
     (8192 \<le> c \<and> c \<le> 8202) \<or> c = 8232 \<or> c = 8233 \<or> c = 8239 \<or> c = 8287 \<or> c = 12288"

definition trimmed :: "qstring \<Rightarrow> qstring" where
  "trimmed s = rev (dropWhile isSpace (rev (dropWhile isSpace s)))"

lemma trimmed_Nil [simp]: "trimmed [] = []"
  by (simp add: trimmed_def)

lemma trimmed_id:
  "s = [] \<or> (\<not> isSpace (hd s) \<and> \<not> isSpace (last s)) \<Longrightarrow> trimmed s = s"
proof (cases s)
  case (Cons a l)
  assume "s = [] \<or> (\<not> isSpace (hd s) \<and> \<not> isSpace (last s))"
  with Cons have h: "dropWhile isSpace s = s" and l: "\<not> isSpace (last s)" by simp_all
  have "dropWhile isSpace (rev s) = rev s"
    using l by (simp add: dropWhile_eq_self_iff hd_rev)
  with h show ?thesis by (simp add: trimmed_def)
qed simp

lemma trimmed_no_space: "\<forall>c \<in> set s. \<not> isSpace c \<Longrightarrow> trimmed s = s"
  by (rule trimmed_id) (cases s; auto)

lemma set_trimmed: "set (trimmed s) \<subseteq> set s"
  by (auto simp: trimmed_def dest!: set_dropWhileD)

lemma trimmed_ends:
  "trimmed s \<noteq> [] \<Longrightarrow> \<not> isSpace (hd (trimmed s)) \<and> \<not> isSpace (last (trimmed s))"
proof -
  assume ne: "trimmed s \<noteq> []"
  define t where "t = dropWhile isSpace s"
  have tr: "trimmed s = rev (dropWhile isSpace (rev t))"
    by (simp add: trimmed_def t_def)
  from ne have d: "dropWhile isSpace (rev t) \<noteq> []" by (simp add: tr)
  have l: "\<not> isSpace (last (trimmed s))"
    using hd_dropWhile [OF d] by (simp add: tr last_rev)
  from d have tne: "t \<noteq> []" by auto
  then have ht: "\<not> isSpace (hd t)"
    using hd_dropWhile [of isSpace s] by (simp add: t_def)
  obtain u where u: "rev t = u @ dropWhile isSpace (rev t)"
    by (metis takeWhile_dropWhile_id)
  then have "t = trimmed s @ rev u"
    by (metis tr rev_append rev_rev_ident)
  then have "hd t = hd (trimmed s)" using ne by (metis hd_append2)
  with l ht show ?thesis by simp
qed

lemma trimmed_trimmed [simp]: "trimmed (trimmed s) = trimmed s"
  by (rule trimmed_id) (use trimmed_ends in blast)

text \<open>\<open>split_on sep s\<close> is \<^verbatim>\<open>s.split(sep)\<close>: empty parts are kept, and there is always one part.\<close>

fun split_on :: "'a \<Rightarrow> 'a list \<Rightarrow> 'a list list" where
  "split_on sep [] = [[]]"
| "split_on sep (c # s) =
     (if c = sep then [] # split_on sep s
      else (case split_on sep s of [] \<Rightarrow> [[c]] | p # ps \<Rightarrow> (c # p) # ps))"

lemma split_on_not_Nil [simp]: "split_on sep s \<noteq> []"
  by (cases s) (auto split: list.splits)

lemma split_on_no_sep: "p \<in> set (split_on sep s) \<Longrightarrow> sep \<notin> set p"
  by (induction s arbitrary: p) (auto split: list.splits if_splits)

lemma concat_split_on: "set (concat (split_on sep s)) = set s - {sep}"
proof (induction s)
  case (Cons c s)
  obtain p ps where ps: "split_on sep s = p # ps"
    by (cases "split_on sep s") auto
  with Cons show ?case by auto
qed simp

subsection \<open>Numbers as text\<close>

text \<open>The digits of \<^verbatim>\<open>QString::number(n, base)\<close>, most significant first.\<close>

fun digits :: "nat \<Rightarrow> nat \<Rightarrow> nat list" where
  "digits b n = (if b < 2 \<or> n < b then [n] else digits b (n div b) @ [n mod b])"

declare digits.simps [simp del]

lemma digits_bound: "2 \<le> b \<Longrightarrow> d \<in> set (digits b n) \<Longrightarrow> d < b"
proof (induction b n rule: digits.induct)
  case (1 b n)
  then show ?case by (cases "n < b") (auto simp: digits.simps [of b n])
qed

lemma digits_not_Nil [simp]: "digits b n \<noteq> []"
  by (subst digits.simps) simp

lemma digits_value: "2 \<le> b \<Longrightarrow> foldl (\<lambda>v d. v * b + d) 0 (digits b n) = n"
proof (induction b n rule: digits.induct)
  case (1 b n)
  then show ?case by (cases "n < b") (auto simp: digits.simps [of b n])
qed

lemma digits_hd: "2 \<le> b \<Longrightarrow> hd (digits b n) = 0 \<longleftrightarrow> n = 0"
proof (induction b n rule: digits.induct)
  case (1 b n)
  show ?case
  proof (cases "n < b")
    case False
    with 1 have "hd (digits b (n div b)) = 0 \<longleftrightarrow> n div b = 0" by simp
    moreover have "n div b \<noteq> 0" using False "1.prems" by (simp add: div_eq_0_iff)
    ultimately show ?thesis using False "1.prems" by (simp add: digits.simps [of b n])
  qed (simp add: digits.simps [of b n])
qed

lemma digits_length: "2 \<le> b \<Longrightarrow> n < b ^ Suc k \<Longrightarrow> length (digits b n) \<le> Suc k"
proof (induction k arbitrary: n)
  case 0
  then show ?case by (simp add: digits.simps [of b n])
next
  case (Suc k)
  show ?case
  proof (cases "n < b")
    case False
    have "n div b < b ^ Suc k" using Suc.prems by (simp add: less_mult_imp_div_less mult.commute)
    with Suc False show ?thesis by (simp add: digits.simps [of b n])
  qed (simp add: digits.simps [of b n])
qed

definition show_int :: "int \<Rightarrow> string" where
  "show_int n = (if n < 0 then ''-'' else []) @ map (\<lambda>d. char_of (48 + d)) (digits 10 (nat \<bar>n\<bar>))"

section \<open>Stable sorting\<close>

text \<open>
  \<^verbatim>\<open>std::stable_sort\<close> with a comparator: the standard promises a permutation of the range, ordered by
  the comparator, with equivalent elements in their original order. Insertion from the right
  computes it.
\<close>

fun insert_by :: "('a \<Rightarrow> 'a \<Rightarrow> bool) \<Rightarrow> 'a \<Rightarrow> 'a list \<Rightarrow> 'a list" where
  "insert_by lt x [] = [x]"
| "insert_by lt x (y # ys) = (if lt y x then y # insert_by lt x ys else x # y # ys)"

definition stable_sort :: "('a \<Rightarrow> 'a \<Rightarrow> bool) \<Rightarrow> 'a list \<Rightarrow> 'a list" where
  "stable_sort lt xs = foldr (insert_by lt) xs []"

lemma stable_sort_simps [simp]:
  "stable_sort lt [] = []"
  "stable_sort lt (x # xs) = insert_by lt x (stable_sort lt xs)"
  by (simp_all add: stable_sort_def)

lemma mset_insert_by [simp]: "mset (insert_by lt x ys) = add_mset x (mset ys)"
  by (induction ys) auto

lemma mset_stable_sort [simp]: "mset (stable_sort lt xs) = mset xs"
  by (induction xs) auto

lemma set_stable_sort [simp]: "set (stable_sort lt xs) = set xs"
  by (metis mset_stable_sort set_mset_mset)

lemma length_stable_sort [simp]: "length (stable_sort lt xs) = length xs"
  by (metis mset_stable_sort size_mset)

lemma distinct_stable_sort [simp]: "distinct (stable_sort lt xs) = distinct xs"
  using mset_eq_imp_distinct_iff mset_stable_sort by blast

locale strict_weak_order =
  fixes lt :: "'a \<Rightarrow> 'a \<Rightarrow> bool"
  assumes irrefl: "\<not> lt x x"
    and trans: "lt x y \<Longrightarrow> lt y z \<Longrightarrow> lt x z"
    and incomp_trans: "\<not> lt x y \<Longrightarrow> \<not> lt y z \<Longrightarrow> \<not> lt x z"
begin

lemma asym: "lt x y \<Longrightarrow> \<not> lt y x"
  using irrefl trans by blast

lemma sorted_insert_by:
  "sorted_wrt (\<lambda>a b. \<not> lt b a) ys \<Longrightarrow> sorted_wrt (\<lambda>a b. \<not> lt b a) (insert_by lt x ys)"
proof (induction ys)
  case (Cons y ys)
  have set_ins: "set (insert_by lt x ys) = insert x (set ys)"
    by (metis mset_insert_by set_mset_add_mset_insert set_mset_mset)
  show ?case
  proof (cases "lt y x")
    case True
    with Cons show ?thesis by (auto simp: set_ins dest: asym)
  next
    case False
    with Cons.prems have "\<forall>b \<in> set ys. \<not> lt b x"
      using incomp_trans [of _ y x] by simp
    with False Cons.prems show ?thesis by simp
  qed
qed simp

lemma sorted_stable_sort: "sorted_wrt (\<lambda>a b. \<not> lt b a) (stable_sort lt xs)"
  by (induction xs) (auto simp: sorted_insert_by)

definition equiv_to :: "'a \<Rightarrow> 'a \<Rightarrow> bool" where
  "equiv_to k x \<longleftrightarrow> \<not> lt k x \<and> \<not> lt x k"

lemma filter_insert_by:
  "filter (equiv_to k) (insert_by lt x ys) =
     (if equiv_to k x then x # filter (equiv_to k) ys else filter (equiv_to k) ys)"
proof (induction ys)
  case (Cons y ys)
  have "lt y x \<Longrightarrow> equiv_to k x \<Longrightarrow> \<not> equiv_to k y"
    using incomp_trans by (meson equiv_to_def)
  with Cons show ?case by auto
qed simp

lemma stable: "filter (equiv_to k) (stable_sort lt xs) = filter (equiv_to k) xs"
  by (induction xs) (auto simp: filter_insert_by)

end

section \<open>Runs of a deterministic machine\<close>

fun run :: "('s \<Rightarrow> 'e \<Rightarrow> 's) \<Rightarrow> 's \<Rightarrow> 'e list \<Rightarrow> 's" where
  "run step s [] = s"
| "run step s (e # es) = run step (step s e) es"

lemma run_append: "run step s (es @ fs) = run step (run step s es) fs"
  by (induction es arbitrary: s) auto

text \<open>
  The contract every stateful component offers its clients: an invariant that holds at the start and
  that every operation keeps, for operations whose preconditions the callers meet.
\<close>

locale invariant_system =
  fixes init :: 's
    and step :: "'s \<Rightarrow> 'e \<Rightarrow> 's"
    and inv :: "'s \<Rightarrow> bool"
  assumes inv_init: "inv init"
    and inv_step: "inv s \<Longrightarrow> inv (step s e)"
begin

lemma inv_run_from: "inv s \<Longrightarrow> inv (run step s es)"
  by (induction es arbitrary: s) (auto simp: inv_step)

lemma inv_run: "inv (run step init es)"
  by (rule inv_run_from [OF inv_init])

lemma safe_run:
  assumes "\<And>s. inv s \<Longrightarrow> P s"
  shows "P (run step init es)"
  using assms inv_run by blast

end

end
