(* ===== verification/LogBuffer.thy ===== *)
theory LogBuffer
  imports Prelude
begin

text \<open>
  The in-memory user log of \<^verbatim>\<open>src/global/LogBuffer.cpp\<close>: a ring of lines bounded in number and
  bytes, filled by \<open>BufferUserLog\<close> and read by sequence number. The ring mutex makes each operation
  one step, so the model is sequential. Shown: the bounds and the contiguity of sequence numbers are an
  invariant (and so the eviction loop never reads the front of an empty deque), and a reader that asks
  for the lines after a sequence number gets exactly the held lines above it, in order.
\<close>

definition kMaxLines :: nat where "kMaxLines = 5000"
definition kMaxBytes :: nat where "kMaxBytes = 4 * 1024 * 1024"
definition kMaxLineLength :: nat where "kMaxLineLength = 8192"

record BufferedLine =
  seq :: nat
  time :: int
  line_text :: qstring

record BufferedSlice =
  slice_lines :: "BufferedLine list"
  newestSeq :: nat
  oldestSeq :: nat
  slice_more :: bool

record Ring =
  ring_lines :: "BufferedLine list"
  bytes :: nat
  lastSeq :: nat

definition empty_ring :: Ring where
  "empty_ring = \<lparr>ring_lines = [], bytes = 0, lastSeq = 0\<rparr>"

definition textBytes :: "qstring \<Rightarrow> nat" where
  "textBytes t = length t * 2"

definition isHighSurrogate :: "qchar \<Rightarrow> bool" where
  "isHighSurrogate c \<longleftrightarrow> 55296 \<le> c \<and> c \<le> 56319"

definition clipped :: "qstring \<Rightarrow> qstring" where
  "clipped line =
     (if length line \<le> kMaxLineLength then line
      else let keep = kMaxLineLength - 1;
               keep = (if isHighSurrogate (line ! (keep - 1)) then keep - 1 else keep)
           in take keep line @ [8230])"

text \<open>
  The eviction loop of \<open>BufferUserLog\<close>. Reading the front of an empty deque is undefined behaviour:
  that is the result \<open>None\<close>.
\<close>

function evict :: "Ring \<Rightarrow> Ring option" where
  "evict r =
     (if kMaxLines < length (ring_lines r) \<or> kMaxBytes < bytes r then
        (case ring_lines r of
           [] \<Rightarrow> None
         | l # ls \<Rightarrow> evict (r\<lparr>bytes := bytes r - textBytes (line_text l), ring_lines := ls\<rparr>))
      else Some r)"
  by pat_completeness auto
termination
  by (relation "measure (\<lambda>r. length (ring_lines r))") auto

declare evict.simps [simp del]

definition push_line :: "int \<Rightarrow> Ring \<Rightarrow> qstring \<Rightarrow> Ring option" where
  "push_line now r t =
     evict (r\<lparr>bytes := bytes r + textBytes t,
              lastSeq := lastSeq r + 1,
              ring_lines := ring_lines r @ [\<lparr>seq = lastSeq r + 1, time = now, line_text = t\<rparr>]\<rparr>)"

fun push_lines :: "int \<Rightarrow> Ring \<Rightarrow> qstring list \<Rightarrow> Ring option" where
  "push_lines now r [] = Some r"
| "push_lines now r (t # ts) = Option.bind (push_line now r t) (\<lambda>r'. push_lines now r' ts)"

definition chunk_lines :: "qstring \<Rightarrow> qstring list" where
  "chunk_lines chunk =
     map clipped (filter (\<lambda>l. l \<noteq> [])
       (map (\<lambda>l. if l \<noteq> [] \<and> last l = 13 then butlast l else l) (split_on 10 chunk)))"

definition BufferUserLog :: "int \<Rightarrow> qstring \<Rightarrow> Ring \<Rightarrow> Ring option" where
  "BufferUserLog now chunk r =
     (let texts = chunk_lines chunk in if texts = [] then Some r else push_lines now r texts)"

definition slice :: "Ring \<Rightarrow> nat \<Rightarrow> int \<Rightarrow> BufferedSlice" where
  "slice r first limit =
     (let stop = min (length (ring_lines r)) (first + nat (max limit 0)) in
      \<lparr>slice_lines = map (\<lambda>i. ring_lines r ! i) [first..<stop],
       newestSeq = lastSeq r,
       oldestSeq = (if ring_lines r = [] then 0 else seq (hd (ring_lines r))),
       slice_more = (stop < length (ring_lines r))\<rparr>)"

definition BufferedLinesAfter :: "Ring \<Rightarrow> nat \<Rightarrow> int \<Rightarrow> BufferedSlice" where
  "BufferedLinesAfter r after limit =
     (if ring_lines r = [] \<or> lastSeq r \<le> after then slice r (length (ring_lines r)) limit
      else let oldest = seq (hd (ring_lines r)) in
           slice r (if after < oldest then 0 else after - oldest + 1) limit)"

definition BufferedTail :: "Ring \<Rightarrow> int \<Rightarrow> BufferedSlice" where
  "BufferedTail r limit =
     (let count = min (length (ring_lines r)) (nat (max limit 0)) in
      slice r (length (ring_lines r) - count) limit)"

definition BufferedNewestSeq :: "Ring \<Rightarrow> nat" where
  "BufferedNewestSeq r = lastSeq r"

subsection \<open>The ring invariant\<close>

text \<open>What the eviction loop relies on, without the two bounds that it restores.\<close>

definition ring_shape :: "Ring \<Rightarrow> bool" where
  "ring_shape r \<longleftrightarrow>
     bytes r = sum_list (map (textBytes \<circ> line_text) (ring_lines r)) \<and>
     length (ring_lines r) \<le> lastSeq r \<and>
     map seq (ring_lines r) = [lastSeq r - length (ring_lines r) + 1..<lastSeq r + 1]"

definition ring_inv :: "Ring \<Rightarrow> bool" where
  "ring_inv r \<longleftrightarrow> ring_shape r \<and> length (ring_lines r) \<le> kMaxLines \<and> bytes r \<le> kMaxBytes \<and>
     (\<forall>l \<in> set (ring_lines r). line_text l \<noteq> [] \<and> length (line_text l) \<le> kMaxLineLength)"

lemma ring_inv_empty: "ring_inv empty_ring"
  by (simp add: ring_inv_def ring_shape_def empty_ring_def)

lemma length_clipped: "length (clipped t) \<le> kMaxLineLength"
  by (auto simp: clipped_def kMaxLineLength_def Let_def)

lemma clipped_nonempty: "t \<noteq> [] \<Longrightarrow> clipped t \<noteq> []"
  by (auto simp: clipped_def Let_def)

lemma chunk_lines_ok: "t \<in> set (chunk_lines chunk) \<Longrightarrow> t \<noteq> [] \<and> length t \<le> kMaxLineLength"
  by (auto simp: chunk_lines_def length_clipped dest: clipped_nonempty)

lemma ring_shape_pop:
  assumes "ring_shape r" "ring_lines r = l # ls"
  shows "ring_shape (r\<lparr>bytes := bytes r - textBytes (line_text l), ring_lines := ls\<rparr>)"
proof -
  let ?n = "lastSeq r"
  from assms have n: "Suc (length ls) \<le> ?n"
    and m: "seq l # map seq ls = [?n - Suc (length ls) + 1..<?n + 1]"
    by (auto simp: ring_shape_def)
  from n have "[?n - Suc (length ls) + 1..<?n + 1] =
      (?n - Suc (length ls) + 1) # [?n - length ls + 1..<?n + 1]"
    by (subst upt_rec) (simp add: Suc_diff_Suc)
  with m have "map seq ls = [?n - length ls + 1..<?n + 1]" by simp
  with assms n show ?thesis by (simp add: ring_shape_def)
qed

lemma evict_total:
  "ring_shape r \<Longrightarrow> \<exists>r' k. evict r = Some r' \<and> ring_shape r' \<and> lastSeq r' = lastSeq r \<and>
     ring_lines r' = drop k (ring_lines r) \<and>
     length (ring_lines r') \<le> kMaxLines \<and> bytes r' \<le> kMaxBytes"
proof (induction r rule: evict.induct)
  case (1 r)
  show ?case
  proof (cases "kMaxLines < length (ring_lines r) \<or> kMaxBytes < bytes r")
    case False
    with 1 show ?thesis by (intro exI [of _ r] exI [of _ 0]) (simp add: evict.simps [of r])
  next
    case True
    show ?thesis
    proof (cases "ring_lines r")
      case Nil
      with True "1.prems" show ?thesis by (simp add: ring_shape_def)
    next
      case (Cons l ls)
      let ?r = "r\<lparr>bytes := bytes r - textBytes (line_text l), ring_lines := ls\<rparr>"
      from "1.IH" [OF True Cons ring_shape_pop [OF "1.prems" Cons]] obtain r' k
        where "evict ?r = Some r'" "ring_shape r'" "lastSeq r' = lastSeq r"
          "ring_lines r' = drop k ls"
          "length (ring_lines r') \<le> kMaxLines" "bytes r' \<le> kMaxBytes"
        by auto
      with True Cons show ?thesis
        by (intro exI [of _ r'] exI [of _ "Suc k"]) (simp add: evict.simps [of r])
    qed
  qed
qed

lemma ring_shape_push:
  assumes "ring_shape r"
  shows "ring_shape (r\<lparr>bytes := bytes r + textBytes t, lastSeq := lastSeq r + 1,
           ring_lines := ring_lines r @ [\<lparr>seq = lastSeq r + 1, time = now, line_text = t\<rparr>]\<rparr>)"
  using assms by (auto simp: ring_shape_def Suc_diff_le)

lemma push_line_inv:
  assumes "ring_inv r" "t \<noteq> []" "length t \<le> kMaxLineLength"
  shows "\<exists>r'. push_line now r t = Some r' \<and> ring_inv r' \<and> lastSeq r' = lastSeq r + 1"
proof -
  let ?l = "\<lparr>seq = lastSeq r + 1, time = now, line_text = t\<rparr>"
  let ?r = "r\<lparr>bytes := bytes r + textBytes t, lastSeq := lastSeq r + 1,
              ring_lines := ring_lines r @ [?l]\<rparr>"
  from assms(1) have "ring_shape ?r" by (intro ring_shape_push) (simp add: ring_inv_def)
  then obtain r' k where r': "evict ?r = Some r'" "ring_shape r'" "lastSeq r' = lastSeq r + 1"
      "ring_lines r' = drop k (ring_lines r @ [?l])"
      "length (ring_lines r') \<le> kMaxLines" "bytes r' \<le> kMaxBytes"
    using evict_total [of ?r] by auto
  have "set (ring_lines r') \<subseteq> set (ring_lines r) \<union> {?l}"
    using set_drop_subset [of k "ring_lines r @ [?l]"] r'(4) by auto
  with assms r' show ?thesis
    by (intro exI [of _ r']) (auto simp: push_line_def ring_inv_def)
qed

lemma push_lines_inv:
  assumes "ring_inv r" "\<forall>t \<in> set ts. t \<noteq> [] \<and> length t \<le> kMaxLineLength"
  shows "\<exists>r'. push_lines now r ts = Some r' \<and> ring_inv r' \<and> lastSeq r' = lastSeq r + length ts"
  using assms
proof (induction ts arbitrary: r)
  case (Cons t ts)
  from Cons.prems obtain r1
    where r1: "push_line now r t = Some r1" "ring_inv r1" "lastSeq r1 = lastSeq r + 1"
    using push_line_inv [of r t now] by auto
  with Cons.IH [of r1] Cons.prems show ?case by auto
qed simp

text \<open>
  C37. Logging any chunk to a ring that satisfies the invariant succeeds (the eviction loop ends without
  touching the front of an empty deque), and the ring again holds at most 5000 lines and 4 MiB of text,
  all of them non-empty and clipped to 8192 code units, with contiguous sequence numbers ending in the
  newest; the counter advances by exactly the number of non-empty lines of the chunk.
\<close>

theorem BufferUserLog_inv:
  assumes "ring_inv r"
  shows "\<exists>r'. BufferUserLog now chunk r = Some r' \<and> ring_inv r' \<and>
           lastSeq r' = lastSeq r + length (chunk_lines chunk)"
  using push_lines_inv [OF assms, of "chunk_lines chunk" now] chunk_lines_ok assms
  by (fastforce simp: BufferUserLog_def Let_def)

theorem BufferUserLog_inv_witness:
  "\<exists>r'. BufferUserLog 7 (lit ''ab'' @ [13, 10, 10] @ lit ''c'') empty_ring = Some r' \<and>
        ring_inv r' \<and> lastSeq r' = 2"
proof -
  have n: "length (chunk_lines (lit ''ab'' @ [13, 10, 10] @ lit ''c'')) = 2"
    by (simp add: chunk_lines_def)
  have "lastSeq empty_ring = 0" by (simp add: empty_ring_def)
  with BufferUserLog_inv [OF ring_inv_empty, of 7 "lit ''ab'' @ [13, 10, 10] @ lit ''c''"] n
  show ?thesis by simp
qed

subsection \<open>Reading the ring\<close>

lemma map_nth_upt_take: "map ((!) xs) [k..<min (length xs) (k + n)] = take n (drop k xs)"
proof (rule nth_equalityI)
  fix i assume "i < length (map ((!) xs) [k..<min (length xs) (k + n)])"
  then have "i < min (length xs) (k + n) - k" by simp
  then have "k + i < length xs" "i < n" by linarith+
  then show "map ((!) xs) [k..<min (length xs) (k + n)] ! i = take n (drop k xs) ! i"
    by (simp add: nth_upt)
qed auto

lemma slice_lines_eq:
  "slice_lines (slice r first limit) = take (nat (max limit 0)) (drop first (ring_lines r))"
  by (simp add: slice_def Let_def map_nth_upt_take)

lemma slice_more_iff:
  "slice_more (slice r first limit) \<longleftrightarrow> first + nat (max limit 0) < length (ring_lines r)"
  unfolding slice_def Let_def BufferedSlice.simps by linarith

lemma ring_seq_nth:
  assumes "ring_shape r" "i < length (ring_lines r)"
  shows "seq (ring_lines r ! i) = lastSeq r - length (ring_lines r) + 1 + i"
proof -
  have "seq (ring_lines r ! i) = map seq (ring_lines r) ! i" using assms(2) by simp
  also have "\<dots> = [lastSeq r - length (ring_lines r) + 1..<lastSeq r + 1] ! i"
    using assms(1) by (simp only: ring_shape_def)
  also have "\<dots> = lastSeq r - length (ring_lines r) + 1 + i"
    using assms by (intro nth_upt) (simp add: ring_shape_def del: upt_Suc, linarith)
  finally show ?thesis .
qed

lemma filter_above_drop:
  assumes "ring_shape r"
  shows "filter (\<lambda>l. after < seq l) (ring_lines r) =
           drop (after + length (ring_lines r) - lastSeq r) (ring_lines r)"
proof -
  let ?ls = "ring_lines r" and ?k = "after + length (ring_lines r) - lastSeq r"
  have len: "length ?ls \<le> lastSeq r" using assms by (simp add: ring_shape_def)
  have small: "\<not> after < seq l" if "l \<in> set (take ?k ?ls)" for l
    using that ring_seq_nth [OF assms] len by (auto simp: in_set_conv_nth)
  have big: "after < seq l" if "l \<in> set (drop ?k ?ls)" for l
    using that ring_seq_nth [OF assms] len by (auto simp: in_set_conv_nth)
  have "filter (\<lambda>l. after < seq l) (take ?k ?ls @ drop ?k ?ls) = drop ?k ?ls"
    unfolding filter_append using small big by (simp add: filter_empty_conv filter_id_conv)
  then show ?thesis by simp
qed

lemma BufferedLinesAfter_slice:
  assumes "ring_inv r"
  shows "\<exists>first. BufferedLinesAfter r after limit = slice r first limit \<and>
           drop first (ring_lines r) = filter (\<lambda>l. after < seq l) (ring_lines r) \<and>
           first \<le> length (ring_lines r)"
proof -
  let ?ls = "ring_lines r" and ?k = "after + length (ring_lines r) - lastSeq r"
  from assms have sh: "ring_shape r" by (simp add: ring_inv_def)
  then have len: "length ?ls \<le> lastSeq r" by (simp add: ring_shape_def)
  note flt = filter_above_drop [OF sh, of after]
  show ?thesis
  proof (cases "?ls = [] \<or> lastSeq r \<le> after")
    case True
    then show ?thesis using flt
      by (intro exI [of _ "length ?ls"]) (auto simp: BufferedLinesAfter_def)
  next
    case False
    then have "seq (hd ?ls) = lastSeq r - length ?ls + 1"
      using ring_seq_nth [OF sh, of 0] by (simp add: hd_conv_nth)
    with False len have "(if after < seq (hd ?ls) then 0 else after - seq (hd ?ls) + 1) = ?k"
      by auto
    moreover have "?k \<le> length ?ls" using False by auto
    ultimately show ?thesis using flt False
      by (intro exI [of _ ?k]) (simp add: BufferedLinesAfter_def Let_def)
  qed
qed

text \<open>
  Reading after a sequence number returns exactly the held lines with a larger sequence number,
  oldest first and at most \<open>limit\<close> of them (none for a negative limit), and \<open>more\<close> tells whether some
  of them were left out.
\<close>

theorem BufferedLinesAfter_spec:
  assumes "ring_inv r"
  shows "slice_lines (BufferedLinesAfter r after limit) =
           take (nat (max limit 0)) (filter (\<lambda>l. after < seq l) (ring_lines r)) \<and>
         (slice_more (BufferedLinesAfter r after limit) \<longleftrightarrow>
           nat (max limit 0) < length (filter (\<lambda>l. after < seq l) (ring_lines r))) \<and>
         newestSeq (BufferedLinesAfter r after limit) = lastSeq r"
proof -
  obtain first where f: "BufferedLinesAfter r after limit = slice r first limit"
      "drop first (ring_lines r) = filter (\<lambda>l. after < seq l) (ring_lines r)"
      "first \<le> length (ring_lines r)"
    using BufferedLinesAfter_slice [OF assms] by blast
  have "length (filter (\<lambda>l. after < seq l) (ring_lines r)) = length (ring_lines r) - first"
    by (simp add: f(2) [symmetric])
  with f(3) have "slice_more (slice r first limit) \<longleftrightarrow>
      nat (max limit 0) < length (filter (\<lambda>l. after < seq l) (ring_lines r))"
    unfolding slice_more_iff by linarith
  then show ?thesis by (simp add: f slice_lines_eq) (simp add: slice_def Let_def)
qed

lemma BufferedTail_spec:
  "slice_lines (BufferedTail r limit) = drop (length (ring_lines r) - nat (max limit 0)) (ring_lines r) \<and>
   \<not> slice_more (BufferedTail r limit)"
proof -
  define n where "n = nat (max limit 0)"
  have "BufferedTail r limit = slice r (length (ring_lines r) - min (length (ring_lines r)) n) limit"
    by (simp add: BufferedTail_def Let_def n_def)
  then show ?thesis
    unfolding n_def [symmetric] by (auto simp: slice_lines_eq slice_more_iff n_def [symmetric] min_def)
qed

text \<open>An example ring of three lines, for the witnesses.\<close>

definition demo_ring :: Ring where
  "demo_ring = \<lparr>ring_lines = [\<lparr>seq = 4, time = 0, line_text = [97]\<rparr>, \<lparr>seq = 5, time = 0, line_text = [98]\<rparr>,
     \<lparr>seq = 6, time = 1, line_text = [99]\<rparr>], bytes = 6, lastSeq = 6\<rparr>"

lemma demo_ring_inv: "ring_inv demo_ring"
  by (simp add: ring_inv_def ring_shape_def demo_ring_def textBytes_def kMaxLines_def kMaxBytes_def
      kMaxLineLength_def upt_rec)

theorem BufferedLinesAfter_spec_witness:
  "map seq (slice_lines (BufferedLinesAfter demo_ring 4 1)) = [5] \<and> slice_more (BufferedLinesAfter demo_ring 4 1)"
  using BufferedLinesAfter_spec [OF demo_ring_inv, of 4 1] by (simp add: demo_ring_def)

end
