(* ===== verification/Counters.thy ===== *)
theory Counters
  imports Prelude
begin

text \<open>
  A \<^verbatim>\<open>QHash\<close> of counters, bumped when a member of a key appears and dropped, then removed at zero, when
  it goes: the open editors (\<^verbatim>\<open>src/engine/EditLocks.cpp\<close>) and the connections of a peer
  (\<^verbatim>\<open>src/api/remote/Server.cpp\<close>) are counted this way. The abstract state is a multiset.
\<close>

text \<open>\<open>represents counts live\<close>: the counters are the multiplicities of the live members.\<close>

definition represents :: "('k, int) qhash \<Rightarrow> 'k multiset \<Rightarrow> bool" where
  "represents counts live \<longleftrightarrow> hash_ok counts \<and>
     (\<forall>k. map_of counts k = (if k \<in># live then Some (int (count live k)) else None))"

text \<open>
  The contract of such a table over any representation: opening adds a member, closing removes one that
  is live, and the table answers for the members that are live.
\<close>

locale lock_table =
  fixes emp :: 'h
    and open_lock :: "'k \<Rightarrow> 'h \<Rightarrow> 'h"
    and close_lock :: "'k \<Rightarrow> 'h \<Rightarrow> 'h"
    and rep :: "'h \<Rightarrow> 'k multiset \<Rightarrow> bool"
  assumes rep_emp: "rep emp {#}"
    and rep_open: "rep h live \<Longrightarrow> rep (open_lock k h) (add_mset k live)"
    and rep_close: "rep h live \<Longrightarrow> k \<in># live \<Longrightarrow> rep (close_lock k h) (live - {#k#})"
begin

lemma open_close: "rep h live \<Longrightarrow> rep (close_lock k (open_lock k h)) live"
  using rep_close [OF rep_open, of h live k k] by simp

lemma interleaved: "rep h live \<Longrightarrow> j \<in># live \<Longrightarrow> rep (close_lock j (open_lock k h)) (add_mset k (live - {#j#}))"
  using rep_close [OF rep_open, of h live j k] by (cases "j = k") auto

end

lemma represents_lookup:
  "represents counts live \<Longrightarrow> map_of counts k = (if k \<in># live then Some (int (count live k)) else None)"
  by (simp add: represents_def)

lemma represents_contains: "represents counts live \<Longrightarrow> hash_contains counts k \<longleftrightarrow> k \<in># live"
  unfolding hash_contains_lookup by (simp only: represents_lookup) simp

lemma represents_value: "represents counts live \<Longrightarrow> hash_value counts k 0 = int (count live k)"
  by (simp add: represents_lookup count_eq_zero_iff)

lemma represents_bump:
  fixes k :: 'k
  assumes "represents counts live"
  shows "represents (AList.update k (hash_value counts k 0 + 1) counts) (add_mset k live)"
  unfolding represents_value [OF assms] using assms by (auto simp: represents_def)

lemma represents_drop:
  fixes k :: 'k
  assumes "represents counts live" "k \<in># live"
  shows "represents (let n = hash_value counts k 0 - 1; counts = AList.update k n counts
           in if n \<le> 0 then AList.delete k counts else counts) (live - {#k#})"
proof (cases "count live k = 1")
  case True
  then have "k \<notin># live - {#k#}" by (simp add: not_in_iff)
  then show ?thesis
    unfolding represents_value [OF assms(1)] using assms True
    by (auto simp: represents_def Let_def not_in_iff dest: in_diffD)
next
  case False
  with assms(2) have "1 < count live k"
    by (metis One_nat_def Suc_lessI count_greater_zero_iff)
  then have "k \<in># live - {#k#}" "int (count live k) - 1 = int (count (live - {#k#}) k)"
    "0 < int (count live k) - 1"
    by (auto simp: count_greater_zero_iff [symmetric] simp del: count_greater_zero_iff)
  then show ?thesis
    unfolding represents_value [OF assms(1)] using assms(1)
    by (auto simp: represents_def Let_def in_diff_count)
qed

end
