(* ===== verification/EditLocks.thy ===== *)
theory EditLocks
  imports Counters
begin

text \<open>
  The registry of open editors of \<^verbatim>\<open>src/engine/EditLocks.cpp\<close>: a hash of counters keyed by target
  and id, bumped by the constructor of \<^verbatim>\<open>EditLock\<close> and dropped by its destructor. An \<^verbatim>\<open>EditLock\<close>
  cannot be copied, so a destructor always runs for a lock that was constructed: the abstract state is
  the multiset of live locks, and the counters are shown to represent it, whatever the order in which
  editors open and close. The main-thread checks are assertions and are not modelled.
\<close>

datatype EditTarget = Settings | Routes | Group | ProfileTarget

type_synonym lock_key = "EditTarget \<times> int"
type_synonym lock_counts = "(lock_key, int) qhash"

abbreviation editLockKey :: "EditTarget \<Rightarrow> int \<Rightarrow> lock_key" where
  "editLockKey target i \<equiv> (target, i)"

definition EditLock :: "EditTarget \<Rightarrow> int \<Rightarrow> lock_counts \<Rightarrow> lock_counts" where
  "EditLock target i counts =
     (let key = editLockKey target i in AList.update key (hash_value counts key 0 + 1) counts)"

definition EditLock_destroy :: "EditTarget \<Rightarrow> int \<Rightarrow> lock_counts \<Rightarrow> lock_counts" where
  "EditLock_destroy target i counts =
     (let key = editLockKey target i; n = hash_value counts key 0 - 1;
          counts = AList.update key n counts
      in if n \<le> 0 then AList.delete key counts else counts)"

definition IsBeingEdited :: "EditTarget \<Rightarrow> int \<Rightarrow> lock_counts \<Rightarrow> bool" where
  "IsBeingEdited target i counts =
     (if hash_contains counts (editLockKey target (-1)) then True
      else if 0 \<le> i then hash_contains counts (editLockKey target i)
      else list_ex (\<lambda>(key, n). fst key = target) counts)"

definition AnyEditorOpen :: "lock_counts \<Rightarrow> bool" where
  "AnyEditorOpen counts \<longleftrightarrow> counts \<noteq> []"

subsection \<open>The abstract registry\<close>

lemma represents_open:
  "represents counts live \<Longrightarrow> represents (EditLock (fst k) (snd k) counts) (add_mset k live)"
  using represents_bump [of counts live k] by (simp add: EditLock_def)

lemma represents_close:
  "represents counts live \<Longrightarrow> k \<in># live \<Longrightarrow>
     represents (EditLock_destroy (fst k) (snd k) counts) (live - {#k#})"
  using represents_drop [of counts live k] by (simp add: EditLock_destroy_def Let_def)

interpretation edit_locks: lock_table "[]" "\<lambda>k. EditLock (fst k) (snd k)"
  "\<lambda>k. EditLock_destroy (fst k) (snd k)" represents
  by unfold_locales (simp add: represents_def, rule represents_open, assumption,
      rule represents_close, assumption+)

lemma IsBeingEdited_rep:
  assumes "represents counts live"
  shows "IsBeingEdited target i counts \<longleftrightarrow>
           (target, -1) \<in># live \<or> (if 0 \<le> i then (target, i) \<in># live else \<exists>j. (target, j) \<in># live)"
proof -
  note m = represents_contains [OF assms]
  have "list_ex (\<lambda>(key, n). fst key = target) counts \<longleftrightarrow> (\<exists>k. hash_contains counts k \<and> fst k = target)"
    by (force simp: list_ex_iff hash_contains_def)
  with m show ?thesis by (auto simp: IsBeingEdited_def)
qed

subsection \<open>Every history of editors\<close>

datatype lock_event = Opened EditTarget int | Closed EditTarget int

text \<open>
  The objects and the counters side by side. A \<open>Closed\<close> event is the destructor of a live lock; where
  no such object exists there is nothing to destroy.
\<close>

fun lock_step :: "lock_counts \<times> lock_key multiset \<Rightarrow> lock_event \<Rightarrow> lock_counts \<times> lock_key multiset" where
  "lock_step (counts, live) (Opened t i) = (EditLock t i counts, add_mset (t, i) live)"
| "lock_step (counts, live) (Closed t i) =
     (if (t, i) \<in># live then (EditLock_destroy t i counts, live - {#(t, i)#}) else (counts, live))"

lemma lock_step_rep: "case_prod represents s \<Longrightarrow> case_prod represents (lock_step s e)"
  using edit_locks.rep_open edit_locks.rep_close
  by (cases s; cases e) (fastforce split: if_splits)+

interpretation lock_history: invariant_system "([], {#})" lock_step "case_prod represents"
  by unfold_locales (simp add: edit_locks.rep_emp, rule lock_step_rep)

text \<open>
  C38. After any history of editors opening and closing, a target and id are reported as being edited
  exactly when a live editor covers them: one opened on that very id or one opened on every id of the
  target (id -1); asked about every id, any live editor of the target counts.
\<close>

theorem IsBeingEdited_live:
  "let (counts, live) = run lock_step ([], {#}) es in
     IsBeingEdited target i counts =
       ((target, -1) \<in># live \<or> (if 0 \<le> i then (target, i) \<in># live else (\<exists>j. (target, j) \<in># live))) \<and>
     AnyEditorOpen counts = (live \<noteq> {#})"
proof -
  obtain counts live where s: "run lock_step ([], {#}) es = (counts, live)" by fastforce
  with lock_history.inv_run [of es] have rep: "represents counts live" by simp
  have "counts = [] \<longleftrightarrow> (\<forall>k. \<not> hash_contains counts k)"
    by (rule hash_Nil_iff)
  then have "counts = [] \<longleftrightarrow> live = {#}"
    by (simp only: represents_contains [OF rep]) (simp add: multiset_eq_iff not_in_iff)
  with s IsBeingEdited_rep [OF rep] show ?thesis by (simp add: AnyEditorOpen_def)
qed

end
