(* ===== verification/RunningProfiles.thy ===== *)
theory RunningProfiles
  imports Prelude
begin

text \<open>
  What is running, from \<^verbatim>\<open>src/global/RunningProfiles.cpp\<close>: the set of profiles the running config uses,
  the routing profile it was built with, and the thread-local override that \<^verbatim>\<open>ScopedBuildRoute\<close> puts in
  force while a config is built. The settings and the repositories are read through the model's
  arguments: \<open>current_route_id\<close>, the test for an existing routing profile and the route of a group.
\<close>

record running =
  runningProfiles :: "int set"
  runningRoute :: int

record build_thread =
  buildRoute :: int

definition init_running :: running where
  "init_running = \<lparr>runningProfiles = {}, runningRoute = -1\<rparr>"

definition init_build_thread :: build_thread where
  "init_build_thread = \<lparr>buildRoute = -1\<rparr>"

text \<open>\<^verbatim>\<open>SetRunningProfiles\<close> clears the set, then inserts the ids that are not negative.\<close>

definition SetRunningProfiles :: "int list \<Rightarrow> running \<Rightarrow> running" where
  "SetRunningProfiles ids r =
     fold (\<lambda>i r. if i < 0 then r else r\<lparr>runningProfiles := insert i (runningProfiles r)\<rparr>) ids
       (r\<lparr>runningProfiles := {}\<rparr>)"

definition ClearRunningProfiles :: "running \<Rightarrow> running" where
  "ClearRunningProfiles r = r\<lparr>runningProfiles := {}, runningRoute := -1\<rparr>"

definition RunningUsesProfile :: "running \<Rightarrow> int \<Rightarrow> bool" where
  "RunningUsesProfile r profileID =
     (if profileID < 0 then False else profileID \<in> runningProfiles r)"

definition SetRunningRoute :: "int \<Rightarrow> running \<Rightarrow> running" where
  "SetRunningRoute routeId r = r\<lparr>runningRoute := routeId\<rparr>"

definition RunningRouteId :: "running \<Rightarrow> int" where
  "RunningRouteId r = runningRoute r"

definition ResolveRouteId :: "(int \<Rightarrow> bool) \<Rightarrow> int \<Rightarrow> int \<Rightarrow> int" where
  "ResolveRouteId hasRoute current_route_id groupRouteId =
     (if 0 \<le> groupRouteId \<and> hasRoute groupRouteId then groupRouteId else current_route_id)"

text \<open>\<open>groupRoute gid\<close> is the \<^verbatim>\<open>route_id\<close> of the stored group, \<open>None\<close> when there is none.\<close>

definition RouteIdFor :: "(int \<Rightarrow> int option) \<Rightarrow> (int \<Rightarrow> bool) \<Rightarrow> int \<Rightarrow> int \<Rightarrow> int" where
  "RouteIdFor groupRoute hasRoute current_route_id gid =
     (let group = (if 0 \<le> gid then groupRoute gid else None)
      in ResolveRouteId hasRoute current_route_id (case group of Some r \<Rightarrow> r | None \<Rightarrow> -1))"

definition ActiveRouteId :: "build_thread \<Rightarrow> running \<Rightarrow> int \<Rightarrow> int" where
  "ActiveRouteId th r current_route_id =
     (if 0 \<le> buildRoute th then buildRoute th
      else if 0 \<le> runningRoute r then runningRoute r
      else current_route_id)"

text \<open>
  \<^verbatim>\<open>ScopedBuildRoute\<close>: the constructor saves the thread's value in the object, the destructor restores
  it. \<open>with_build_route\<close> is a scope around a computation.
\<close>

definition ScopedBuildRoute :: "int \<Rightarrow> build_thread \<Rightarrow> int \<times> build_thread" where
  "ScopedBuildRoute routeId th = (buildRoute th, th\<lparr>buildRoute := routeId\<rparr>)"

definition ScopedBuildRoute_destroy :: "int \<Rightarrow> build_thread \<Rightarrow> build_thread" where
  "ScopedBuildRoute_destroy previous th = th\<lparr>buildRoute := previous\<rparr>"

lemma runningProfiles_SetRunningProfiles [simp]:
  "runningProfiles (SetRunningProfiles ids r) = {i \<in> set ids. 0 \<le> i}"
proof -
  have "runningProfiles (fold (\<lambda>i r. if i < 0 then r
          else r\<lparr>runningProfiles := insert i (runningProfiles r)\<rparr>) ids q) =
        runningProfiles q \<union> {i \<in> set ids. 0 \<le> i}" for q :: running
    by (induction ids arbitrary: q) auto
  then show ?thesis by (simp add: SetRunningProfiles_def)
qed

lemma runningRoute_SetRunningProfiles [simp]:
  "runningRoute (SetRunningProfiles ids r) = runningRoute r"
proof -
  have "runningRoute (fold (\<lambda>i r. if i < 0 then r
          else r\<lparr>runningProfiles := insert i (runningProfiles r)\<rparr>) ids q) = runningRoute q" for q :: running
    by (induction ids arbitrary: q) auto
  then show ?thesis by (simp add: SetRunningProfiles_def)
qed

subsection \<open>Nested scopes\<close>

text \<open>A body of nested scopes, as the build code nests them.\<close>

datatype build_body = Read | Scope int "build_body list"

fun exec_body :: "running \<Rightarrow> int \<Rightarrow> build_thread \<Rightarrow> build_body \<Rightarrow> build_thread \<times> int list"
  and exec_bodies :: "running \<Rightarrow> int \<Rightarrow> build_thread \<Rightarrow> build_body list \<Rightarrow> build_thread \<times> int list" where
  "exec_body r cur th Read = (th, [ActiveRouteId th r cur])"
| "exec_body r cur th (Scope routeId bs) =
     (let (previous, th1) = ScopedBuildRoute routeId th;
          (th2, out) = exec_bodies r cur th1 bs
      in (ScopedBuildRoute_destroy previous th2, out))"
| "exec_bodies r cur th [] = (th, [])"
| "exec_bodies r cur th (b # bs) =
     (let (th1, out1) = exec_body r cur th b; (th2, out2) = exec_bodies r cur th1 bs
      in (th2, out1 @ out2))"

lemma exec_restores:
  "fst (exec_body r cur th b) = th"
  "fst (exec_bodies r cur th bs) = th"
proof (induction th b and th bs rule: exec_body_exec_bodies.induct)
  case (2 th routeId bs)
  then show ?case
    by (simp add: ScopedBuildRoute_def ScopedBuildRoute_destroy_def split: prod.splits)
qed (auto simp: split: prod.splits)

text \<open>The reads of a scope see its own route until an inner scope hides it.\<close>

fun direct_reads :: "build_body list \<Rightarrow> bool" where
  "direct_reads bs = list_all (\<lambda>b. b = Read) bs"

lemma exec_direct_reads:
  "direct_reads bs \<Longrightarrow> exec_bodies r cur th bs = (th, replicate (length bs) (ActiveRouteId th r cur))"
  by (induction bs) auto

text \<open>
  A scope that builds with a routing profile makes every read inside it answer that profile, and
  leaves the thread as it found it however scopes are nested inside, so that reads after the scope answer
  what they answered before.
\<close>

theorem ScopedBuildRoute_nesting:
  assumes "0 \<le> routeId"
  shows "exec_body r cur th (Scope routeId [Read]) = (th, [routeId]) \<and>
         exec_bodies r cur th [Read, Scope routeId bs, Read] =
           (th, [ActiveRouteId th r cur] @ snd (exec_body r cur th (Scope routeId bs)) @
                [ActiveRouteId th r cur])"
proof -
  have "fst (exec_body r cur th (Scope routeId bs)) = th" by (rule exec_restores)
  then show ?thesis
    using assms by (auto simp: ScopedBuildRoute_def ScopedBuildRoute_destroy_def ActiveRouteId_def
        split: prod.splits)
qed

theorem ScopedBuildRoute_nesting_witness:
  "snd (exec_bodies init_running 7 init_build_thread [Read, Scope 3 [Read, Scope 5 [Read], Read], Read]) =
     [7, 3, 5, 3, 7]"
  using ScopedBuildRoute_nesting [of 3 init_running 7 init_build_thread "[Read, Scope 5 [Read], Read]"]
  by (simp add: init_running_def init_build_thread_def ActiveRouteId_def ScopedBuildRoute_def
      ScopedBuildRoute_destroy_def)

text \<open>
  The profiles reported as in use are exactly the non-negative ids of the last set handed over, and
  none after a clear, which also resets the running route.
\<close>

theorem RunningUsesProfile_set:
  "RunningUsesProfile (SetRunningProfiles ids r) p = (p \<in> set ids \<and> 0 \<le> p) \<and>
   \<not> RunningUsesProfile (ClearRunningProfiles r) p \<and>
   RunningRouteId (ClearRunningProfiles r) = -1 \<and>
   RunningRouteId (SetRunningProfiles ids (SetRunningRoute route r)) = route"
  by (auto simp: RunningUsesProfile_def ClearRunningProfiles_def RunningRouteId_def SetRunningRoute_def)

text \<open>A route that is resolved is the group's own only while it exists, and the global one otherwise.\<close>

lemma RouteIdFor_cases:
  "RouteIdFor groupRoute hasRoute cur gid =
     (if 0 \<le> gid then
        (case groupRoute gid of
           Some rt \<Rightarrow> if 0 \<le> rt \<and> hasRoute rt then rt else cur
         | None \<Rightarrow> cur)
      else cur)"
  by (auto simp: RouteIdFor_def ResolveRouteId_def Let_def split: option.splits)

end
