(* ===== verification/PeriodicRunner.thy ===== *)
theory PeriodicRunner
  imports Prelude
begin

text \<open>
  The scheduler of \<^verbatim>\<open>src/global/PeriodicRunner.cpp\<close>. A task is its interval and its stored last-run
  time; the callbacks \<^verbatim>\<open>intervalMinutes\<close>, \<^verbatim>\<open>lastRun\<close> and \<^verbatim>\<open>setLastRun\<close> may be unset, which the
  optional fields record. A tick walks the tasks in order and returns the log of what it ran.
\<close>

record PeriodicTask =
  task_id :: string
  intervalMinutes :: "int option"
  lastRun :: "int option"
  hasSetLastRun :: bool
  hasRun :: bool

datatype tick_event = Recorded nat int | Shown nat | Ran nat

text \<open>One iteration of the loop: \<open>continue\<close> is an empty log and an unchanged task.\<close>

definition tick_task :: "int \<Rightarrow> nat \<Rightarrow> PeriodicTask \<Rightarrow> PeriodicTask \<times> tick_event list" where
  "tick_task now i t =
     (let minutes = (case intervalMinutes t of Some m \<Rightarrow> m | None \<Rightarrow> 0) in
      if minutes \<le> 0 then (t, [])
      else let lastT = (case lastRun t of Some l \<Rightarrow> l | None \<Rightarrow> 0) in
        if 0 < lastT \<and> now - lastT < minutes * 60 then (t, [])
        else (if hasSetLastRun t then t\<lparr>lastRun := Some now\<rparr> else t,
              (if hasSetLastRun t then [Recorded i now] else []) @
              (if task_id t \<noteq> [] then [Shown i] else []) @
              (if hasRun t then [Ran i] else [])))"

fun tick_from :: "int \<Rightarrow> nat \<Rightarrow> PeriodicTask list \<Rightarrow> PeriodicTask list \<times> tick_event list" where
  "tick_from now i [] = ([], [])"
| "tick_from now i (t # ts) =
     (let (t', ev) = tick_task now i t; (ts', evs) = tick_from now (Suc i) ts
      in (t' # ts', ev @ evs))"

definition tick :: "int \<Rightarrow> PeriodicTask list \<Rightarrow> PeriodicTask list \<times> tick_event list" where
  "tick now ts = tick_from now 0 ts"

definition Add :: "PeriodicTask \<Rightarrow> PeriodicTask list \<Rightarrow> PeriodicTask list" where
  "Add t ts = ts @ [t]"

definition due :: "int \<Rightarrow> PeriodicTask \<Rightarrow> bool" where
  "due now t \<longleftrightarrow> (\<exists>m. intervalMinutes t = Some m \<and> 0 < m \<and>
     (case lastRun t of Some l \<Rightarrow> l \<le> 0 \<or> m * 60 \<le> now - l | None \<Rightarrow> True))"

lemma tick_task_due:
  "tick_task now i t =
     (if due now t
      then (if hasSetLastRun t then t\<lparr>lastRun := Some now\<rparr> else t,
            (if hasSetLastRun t then [Recorded i now] else []) @
            (if task_id t \<noteq> [] then [Shown i] else []) @ (if hasRun t then [Ran i] else []))
      else (t, []))"
  by (auto simp: tick_task_def due_def Let_def split: option.splits)

lemma tick_from_length: "length (fst (tick_from now i ts)) = length ts"
  by (induction ts arbitrary: i) (auto simp: Let_def case_prod_beta)

lemma tick_from_nth:
  "k < length ts \<Longrightarrow> fst (tick_from now i ts) ! k = fst (tick_task now (i + k) (ts ! k))"
proof (induction ts arbitrary: i k)
  case (Cons t ts)
  then show ?case
    by (cases k) (auto simp: Let_def case_prod_beta)
qed simp

lemma tick_from_ran:
  "Ran j \<in> set (snd (tick_from now i ts)) \<longleftrightarrow>
     i \<le> j \<and> j < i + length ts \<and> due now (ts ! (j - i)) \<and> hasRun (ts ! (j - i))"
proof (induction ts arbitrary: i)
  case (Cons t ts)
  have "Ran j \<in> set (snd (tick_task now i t)) \<longleftrightarrow> j = i \<and> due now t \<and> hasRun t"
    by (auto simp: tick_task_due)
  then have step: "Ran j \<in> set (snd (tick_from now i (t # ts))) \<longleftrightarrow>
      (j = i \<and> due now t \<and> hasRun t) \<or> Ran j \<in> set (snd (tick_from now (Suc i) ts))"
    by (auto simp: Let_def case_prod_beta)
  show ?case
  proof (cases "i < j")
    case True
    then obtain d where "j = Suc (i + d)" using less_iff_Suc_add by auto
    then show ?thesis unfolding step using Cons [of "Suc i"] by simp
  next
    case False
    then show ?thesis unfolding step using Cons [of "Suc i"] by auto
  qed
qed simp

lemma due_Some_now: "intervalMinutes t = Some m \<Longrightarrow> 0 < now \<Longrightarrow> now' - now < m * 60 \<Longrightarrow>
  \<not> due now' (t\<lparr>lastRun := Some now\<rparr>)"
  by (simp add: due_def)

text \<open>
  A tick runs exactly the tasks that are due (enabled, and never run or last run at least a whole
  interval ago), and a task whose last-run time is stored cannot run again before a whole interval has
  passed, even though its previous run may still be going on.
\<close>

theorem tick_runs_due:
  assumes "k < length ts" and "hasRun (ts ! k)"
  shows "(Ran k \<in> set (snd (tick now ts)) \<longleftrightarrow> due now (ts ! k)) \<and>
         (hasSetLastRun (ts ! k) \<longrightarrow> 0 < now \<longrightarrow> due now (ts ! k) \<longrightarrow>
            now' - now < the (intervalMinutes (ts ! k)) * 60 \<longrightarrow>
            Ran k \<notin> set (snd (tick now' (fst (tick now ts)))))"
proof -
  have 1: "Ran k \<in> set (snd (tick now ts)) \<longleftrightarrow> due now (ts ! k)"
    using assms by (simp add: tick_def tick_from_ran)
  have 2: "\<not> due now' (fst (tick now ts) ! k)"
    if "hasSetLastRun (ts ! k)" "0 < now" "due now (ts ! k)"
      "now' - now < the (intervalMinutes (ts ! k)) * 60"
    using that assms due_Some_now [of "ts ! k" _ now now']
    by (auto simp: tick_def tick_from_nth tick_task_due due_def)
  show ?thesis
    using 1 2 by (auto simp: tick_def tick_from_ran)
qed

theorem tick_runs_due_witness:
  "Ran 0 \<in> set (snd (tick 1000 [\<lparr>task_id = ''subs'', intervalMinutes = Some 5, lastRun = Some 600,
     hasSetLastRun = True, hasRun = True\<rparr>]))"
  using tick_runs_due [of 0 "[\<lparr>task_id = ''subs'', intervalMinutes = Some 5, lastRun = Some 600,
     hasSetLastRun = True, hasRun = True\<rparr>]" 1000 1001]
  by (simp add: due_def)

end
