(* ===== verification/Json.thy ===== *)
theory Json
  imports Prelude
begin

text \<open>
  The values of \<^verbatim>\<open>QJsonValue\<close> and the conversions the sources use. A number is a whole number, or a
  fraction of which the sources only ever read the integer part. An object keeps one entry per key; the
  keys the sources look up are ASCII literals, so keys are \<open>string\<close>, while string values are Qt strings.
  Text to values and back is \<^verbatim>\<open>QJsonDocument\<close>'s: where a component parses a document, the model starts
  from the parsed value.
\<close>

datatype json =
    JUndefined
  | JNull
  | JBool bool
  | JNumber int
  | JFraction int
  | JString qstring
  | JArray "json list"
  | JObject "(string \<times> json) list"

type_synonym json_object = "(string, json) qhash"

definition is_int32 :: "int \<Rightarrow> bool" where
  "is_int32 n \<longleftrightarrow> - (2 ^ 31) \<le> n \<and> n < 2 ^ 31"

definition is_int64 :: "int \<Rightarrow> bool" where
  "is_int64 n \<longleftrightarrow> - (2 ^ 63) \<le> n \<and> n < 2 ^ 63"

text \<open>\<^verbatim>\<open>QJsonObject::value\<close> answers undefined for a key that is missing.\<close>

definition obj_value :: "json_object \<Rightarrow> string \<Rightarrow> json" where
  "obj_value ob k = (case map_of ob k of Some v \<Rightarrow> v | None \<Rightarrow> JUndefined)"

definition obj_contains :: "json_object \<Rightarrow> string \<Rightarrow> bool" where
  "obj_contains ob k \<longleftrightarrow> map_of ob k \<noteq> None"

definition obj_insert :: "string \<Rightarrow> json \<Rightarrow> json_object \<Rightarrow> json_object" where
  "obj_insert k v ob = AList.update k v ob"

fun toObject :: "json \<Rightarrow> json_object" where
  "toObject (JObject ob) = ob"
| "toObject _ = []"

fun toArray :: "json \<Rightarrow> json list" where
  "toArray (JArray xs) = xs"
| "toArray _ = []"

fun toString :: "qstring \<Rightarrow> json \<Rightarrow> qstring" where
  "toString d (JString s) = s"
| "toString d _ = d"

fun toBool :: "bool \<Rightarrow> json \<Rightarrow> bool" where
  "toBool d (JBool b) = b"
| "toBool d _ = d"

text \<open>\<^verbatim>\<open>toInt\<close>, \<^verbatim>\<open>toInteger\<close>: the default unless the value is a whole number of the width.\<close>

fun toInt :: "int \<Rightarrow> json \<Rightarrow> int" where
  "toInt d (JNumber n) = (if is_int32 n then n else d)"
| "toInt d _ = d"

fun toInteger :: "int \<Rightarrow> json \<Rightarrow> int" where
  "toInteger d (JNumber n) = (if is_int64 n then n else d)"
| "toInteger d _ = d"

text \<open>\<^verbatim>\<open>static_cast<qint64>(v.toDouble())\<close>: the integer part, 0 for what is not a number.\<close>

fun toDoubleInt :: "json \<Rightarrow> int" where
  "toDoubleInt (JNumber n) = n"
| "toDoubleInt (JFraction n) = n"
| "toDoubleInt _ = 0"

fun isObject :: "json \<Rightarrow> bool" where
  "isObject (JObject ob) = True"
| "isObject _ = False"

fun isString :: "json \<Rightarrow> bool" where
  "isString (JString s) = True"
| "isString _ = False"

fun isDouble :: "json \<Rightarrow> bool" where
  "isDouble (JNumber n) = True"
| "isDouble (JFraction n) = True"
| "isDouble _ = False"

lemma obj_value_simps [simp]:
  "obj_value [] k = JUndefined"
  "obj_value ((j, v) # ob) k = (if j = k then v else obj_value ob k)"
  by (simp_all add: obj_value_def)

lemma obj_contains_simps [simp]:
  "\<not> obj_contains [] k"
  "obj_contains ((j, v) # ob) k \<longleftrightarrow> j = k \<or> obj_contains ob k"
  by (simp_all add: obj_contains_def)

lemma obj_value_insert [simp]:
  "obj_value (obj_insert j v ob) k = (if k = j then v else obj_value ob k)"
  by (simp add: obj_value_def obj_insert_def)

lemma obj_insert_not_Nil [simp]: "obj_insert j v ob \<noteq> []"
  by (cases ob) (auto simp: obj_insert_def)

lemma is_int32_0 [simp]: "is_int32 0" "is_int32 (-1)" "is_int64 0"
  by (simp_all add: is_int32_def is_int64_def)

end
