(* ===== verification/ResumeGuard.thy ===== *)
theory ResumeGuard
  imports Json
begin

text \<open>
  The boot-resume crash-loop guard of \<^verbatim>\<open>src/engine/headless/ResumeGuard.cpp\<close>. Its record lives in a
  file across boots: the profile being resumed, the boots in a row it brought down (strikes), whether a
  resume is armed, and the streak of boots that never became stable. Every operation returns the new
  object and what it hands to \<open>save\<close>, \<open>None\<close> when it does not save. The file is what opening, sizing and
  parsing it answered; writing it may fail, and then it keeps its old content.
\<close>

definition kStrikesToSuppress :: int where "kStrikesToSuppress = 3"
definition kUnstableBootsToStayUp :: int where "kUnstableBootsToStayUp = 3"
definition kResumeGuardVersion :: int where "kResumeGuardVersion = 1"
definition kResumeGuardMaxUnstableBoots :: int where "kResumeGuardMaxUnstableBoots = 1000000"
definition CoreGaveUp :: int where "CoreGaveUp = 70"
definition Stuck :: int where "Stuck = 71"

record guard =
  m_profile :: int
  m_strikes :: int
  m_armed :: bool
  m_armedAt :: int
  m_suppressed :: bool
  m_bootOpen :: bool
  m_unstableBoots :: int
  m_previousExit :: json_object
  m_lastExit :: json_object

datatype guard_file = NoFile | CannotOpen | TooLarge | NotJson | Holds json

definition fresh_guard :: guard where
  "fresh_guard = \<lparr>m_profile = -1, m_strikes = 0, m_armed = False, m_armedAt = 0, m_suppressed = False,
     m_bootOpen = False, m_unstableBoots = 0, m_previousExit = [], m_lastExit = []\<rparr>"

definition qBound :: "int \<Rightarrow> int \<Rightarrow> int \<Rightarrow> int" where
  "qBound lo v hi = max lo (min v hi)"

text \<open>The document \<open>save\<close> writes.\<close>

definition guard_json :: "guard \<Rightarrow> json" where
  "guard_json g =
     (let root = [(''version'', JNumber kResumeGuardVersion),
                  (''resume'', JObject [(''profile'', JNumber (m_profile g)),
                                        (''strikes'', JNumber (m_strikes g)),
                                        (''armed'', JBool (m_armed g)),
                                        (''armed_at'', JNumber (m_armedAt g))]),
                  (''boot'', JObject [(''open'', JBool (m_bootOpen g)),
                                      (''unstable'', JNumber (m_unstableBoots g))])]
      in JObject (if m_lastExit g \<noteq> [] then obj_insert ''last_exit'' (JObject (m_lastExit g)) root else root))"

definition load :: "guard_file \<Rightarrow> guard \<times> json option" where
  "load fl =
     (case fl of
        Holds doc \<Rightarrow>
          if \<not> isObject doc then (fresh_guard, None)
          else let root = toObject doc in
            if toInt 0 (obj_value root ''version'') \<noteq> kResumeGuardVersion then (fresh_guard, None)
            else let resume = toObject (obj_value root ''resume'');
                     boot = toObject (obj_value root ''boot'');
                     profile = toInt (-1) (obj_value resume ''profile'');
                     profile = (if profile < 0 then -1 else profile);
                     armed = (0 \<le> profile \<and> toBool False (obj_value resume ''armed''));
                     g = fresh_guard\<lparr>
                       m_profile := profile,
                       m_strikes := qBound 0 (toInt 0 (obj_value resume ''strikes'')) kStrikesToSuppress,
                       m_armed := armed,
                       m_armedAt := (if armed then toInteger 0 (obj_value resume ''armed_at'') else 0),
                       m_bootOpen := toBool False (obj_value boot ''open''),
                       m_unstableBoots :=
                         qBound 0 (toInt 0 (obj_value boot ''unstable'')) kResumeGuardMaxUnstableBoots,
                       m_previousExit := toObject (obj_value root ''last_exit'')\<rparr>
                 in (g, if m_previousExit g \<noteq> [] then Some (guard_json g) else None)
      | _ \<Rightarrow> (fresh_guard, None))"

definition saved :: "guard \<Rightarrow> guard \<times> json option" where
  "saved g = (g, Some (guard_json g))"

definition settlePrevious :: "guard \<Rightarrow> guard \<times> json option" where
  "settlePrevious g =
     (let g = (if m_bootOpen g
               then g\<lparr>m_unstableBoots := min (m_unstableBoots g + 1) kResumeGuardMaxUnstableBoots\<rparr> else g);
          g = g\<lparr>m_bootOpen := True\<rparr>
      in if \<not> m_armed g then saved g
         else saved (g\<lparr>m_strikes := min (m_strikes g + 1) kStrikesToSuppress,
                       m_armed := False, m_armedAt := 0\<rparr>))"

definition unstableBoots :: "guard \<Rightarrow> int" where
  "unstableBoots g = m_unstableBoots g"

definition stayUp :: "guard \<Rightarrow> bool" where
  "stayUp g \<longleftrightarrow> kUnstableBootsToStayUp \<le> unstableBoots g"

definition markStable :: "guard \<Rightarrow> guard \<times> json option" where
  "markStable g =
     (if \<not> m_bootOpen g \<and> m_unstableBoots g = 0 then (g, None)
      else saved (g\<lparr>m_bootOpen := False, m_unstableBoots := 0\<rparr>))"

definition decide :: "int \<Rightarrow> guard \<Rightarrow> int \<times> guard \<times> json option" where
  "decide candidateId g =
     (let g = g\<lparr>m_suppressed := False\<rparr> in
      if candidateId < 0 then (-1, g, None)
      else if candidateId \<noteq> m_profile g then
        let hadRecord = (0 \<le> m_profile g);
            g = g\<lparr>m_profile := candidateId, m_strikes := 0, m_armed := False, m_armedAt := 0\<rparr>
        in (candidateId, g, if hadRecord then Some (guard_json g) else None)
      else if kStrikesToSuppress \<le> m_strikes g then (-1, g\<lparr>m_suppressed := True\<rparr>, None)
      else (candidateId, g, None))"

definition suppressed :: "guard \<Rightarrow> bool" where
  "suppressed g = m_suppressed g"

definition liftSuppression :: "int \<Rightarrow> guard \<Rightarrow> guard \<times> json option" where
  "liftSuppression startedProfileId g =
     (if 0 \<le> startedProfileId \<and> startedProfileId \<noteq> m_profile g then g\<lparr>m_suppressed := False\<rparr> else g, None)"

definition previousExit :: "guard \<Rightarrow> json_object" where
  "previousExit g = m_previousExit g"

definition arm :: "int \<Rightarrow> int \<Rightarrow> guard \<Rightarrow> guard \<times> json option" where
  "arm now profileId g =
     (if profileId < 0 then (g, None)
      else let g = (if profileId \<noteq> m_profile g then g\<lparr>m_profile := profileId, m_strikes := 0\<rparr> else g)
        in saved (g\<lparr>m_armed := True, m_armedAt := now\<rparr>))"

definition disarm :: "guard \<Rightarrow> guard \<times> json option" where
  "disarm g = (if \<not> m_armed g then (g, None) else saved (g\<lparr>m_armed := False, m_armedAt := 0\<rparr>))"

definition strike :: "guard \<Rightarrow> guard \<times> json option" where
  "strike g =
     (if \<not> m_armed g then (g, None)
      else saved (g\<lparr>m_strikes := min (m_strikes g + 1) kStrikesToSuppress, m_armed := False, m_armedAt := 0\<rparr>))"

definition survived :: "int \<Rightarrow> guard \<Rightarrow> guard \<times> json option" where
  "survived profileId g =
     (if profileId < 0 \<or> profileId \<noteq> m_profile g then (g, None)
      else if m_strikes g = 0 \<and> \<not> m_armed g \<and> \<not> m_suppressed g then (g, None)
      else saved (g\<lparr>m_strikes := 0, m_armed := False, m_armedAt := 0, m_suppressed := False\<rparr>))"

definition noteExit :: "int \<Rightarrow> int \<Rightarrow> qstring \<Rightarrow> guard \<Rightarrow> guard \<times> json option" where
  "noteExit now code reason g =
     (let g = g\<lparr>m_lastExit := [(''code'', JNumber code), (''reason'', JString reason), (''at'', JNumber now)]\<rparr>
      in saved (if code \<noteq> CoreGaveUp \<and> code \<noteq> Stuck then g\<lparr>m_armed := False, m_armedAt := 0\<rparr> else g))"

definition armed :: "guard \<Rightarrow> bool" where
  "armed g = m_armed g"

lemmas guard_consts = kStrikesToSuppress_def kUnstableBootsToStayUp_def kResumeGuardVersion_def
  kResumeGuardMaxUnstableBoots_def CoreGaveUp_def Stuck_def

lemmas guard_ops = settlePrevious_def markStable_def decide_def liftSuppression_def arm_def disarm_def
  strike_def survived_def noteExit_def saved_def Let_def

subsection \<open>The invariant of the record\<close>

definition guard_inv :: "guard \<Rightarrow> bool" where
  "guard_inv g \<longleftrightarrow>
     -1 \<le> m_profile g \<and> is_int32 (m_profile g) \<and>
     0 \<le> m_strikes g \<and> m_strikes g \<le> kStrikesToSuppress \<and>
     (m_armed g \<longrightarrow> 0 \<le> m_profile g) \<and> (\<not> m_armed g \<longrightarrow> m_armedAt g = 0) \<and> is_int64 (m_armedAt g) \<and>
     0 \<le> m_unstableBoots g \<and> m_unstableBoots g \<le> kResumeGuardMaxUnstableBoots"

text \<open>The operations a process performs on the object once it is constructed.\<close>

datatype guard_op =
    Settle
  | Stable
  | Decide int
  | Lift int
  | Arm int int
  | Disarm
  | Strike
  | Survived int
  | NoteExit int int qstring

fun valid_op :: "guard_op \<Rightarrow> bool" where
  "valid_op (Decide p) = is_int32 p"
| "valid_op (Arm now p) = (is_int64 now \<and> is_int32 p)"
| "valid_op _ = True"

fun guard_step :: "guard \<Rightarrow> guard_op \<Rightarrow> guard \<times> json option" where
  "guard_step g Settle = settlePrevious g"
| "guard_step g Stable = markStable g"
| "guard_step g (Decide p) = snd (decide p g)"
| "guard_step g (Lift p) = liftSuppression p g"
| "guard_step g (Arm now p) = arm now p g"
| "guard_step g Disarm = disarm g"
| "guard_step g Strike = strike g"
| "guard_step g (Survived p) = survived p g"
| "guard_step g (NoteExit now code reason) = noteExit now code reason g"

lemma toInt_bounds: "d = -1 \<or> d = 0 \<Longrightarrow> is_int32 (toInt d v)"
  by (cases v) auto

lemma toInteger_bounds: "is_int64 (toInteger 0 v)"
  by (cases v) auto

lemma load_inv: "guard_inv (fst (load fl))"
proof (cases fl)
  case (Holds doc)
  then show ?thesis
    using toInt_bounds [of "-1"] toInteger_bounds
    by (auto simp: load_def guard_inv_def fresh_guard_def qBound_def guard_consts Let_def)
qed (auto simp: load_def guard_inv_def fresh_guard_def guard_consts)

lemma guard_step_inv:
  assumes "guard_inv g" "valid_op op"
  shows "guard_inv (fst (guard_step g op))"
  using assms by (cases op) (auto simp: guard_inv_def guard_ops guard_consts)

subsection \<open>What the next boot reads back\<close>

text \<open>The fields of the record that \<open>save\<close> persists.\<close>

definition persistent :: "guard \<Rightarrow> int \<times> int \<times> bool \<times> int \<times> bool \<times> int" where
  "persistent g = (m_profile g, m_strikes g, m_armed g, m_armedAt g, m_bootOpen g, m_unstableBoots g)"

text \<open>
  The record survives a process: loading the document that an object saved gives back its profile,
  strikes, arming with its time, boot flag and unstable streak, and reports the exit noted last as the
  previous one, with no suppression and no noted exit of its own.
\<close>

theorem load_guard_json:
  assumes "guard_inv g"
  shows "persistent (fst (load (Holds (guard_json g)))) = persistent g \<and>
         previousExit (fst (load (Holds (guard_json g)))) = m_lastExit g \<and>
         \<not> suppressed (fst (load (Holds (guard_json g)))) \<and>
         m_lastExit (fst (load (Holds (guard_json g)))) = []"
proof -
  have u: "is_int32 (m_unstableBoots g)" and s: "is_int32 (m_strikes g)" and v: "is_int32 1"
    using assms by (auto simp: guard_inv_def guard_consts is_int32_def)
  then show ?thesis
    using assms by (auto simp: load_def guard_json_def Let_def persistent_def previousExit_def suppressed_def
        fresh_guard_def guard_inv_def qBound_def guard_consts)
qed

theorem load_guard_json_witness:
  "persistent (fst (load (Holds (guard_json (fst (arm 1700000000 4 fresh_guard)))))) =
     (4, 0, True, 1700000000, False, 0)"
proof -
  have inv: "guard_inv (fst (arm 1700000000 4 fresh_guard))"
    by (simp add: guard_inv_def arm_def fresh_guard_def saved_def guard_consts is_int32_def is_int64_def)
  then show ?thesis
    using load_guard_json [OF inv] by (simp add: arm_def persistent_def fresh_guard_def saved_def)
qed

text \<open>A loaded exit is consumed: the boot that reads it rewrites the file without it.\<close>

lemma previousExit_consumed:
  assumes "load fl = (g, Some doc)"
  shows "previousExit (fst (load (Holds doc))) = []"
proof -
  from assms have "doc = guard_json g" "m_lastExit g = []"
    by (auto simp: load_def fresh_guard_def Let_def split: guard_file.splits if_splits)
  moreover have "guard_inv g" using load_inv [of fl] assms by simp
  ultimately show ?thesis using load_guard_json [of g] by simp
qed

subsection \<open>Boots that crash\<close>

text \<open>
  One boot on the file \<open>fl\<close>: the object is loaded, the previous boot settled, the remembered profile
  put to \<open>decide\<close>, the resume armed when it is granted, and then the process dies. Writes succeed. The
  answer of \<open>decide\<close> and the file are what is left.
\<close>

definition write_back :: "json option \<Rightarrow> guard_file \<Rightarrow> guard_file" where
  "write_back w fl = (case w of Some doc \<Rightarrow> Holds doc | None \<Rightarrow> fl)"

definition crash_boot :: "int \<Rightarrow> int \<Rightarrow> guard_file \<Rightarrow> int \<times> guard_file" where
  "crash_boot now candidateId fl =
     (let (g0, w0) = load fl;
          (g1, w1) = settlePrevious g0;
          (answer, g2, w2) = decide candidateId g1;
          (g3, w3) = (if 0 \<le> answer then arm now answer g2 else (g2, None))
      in (answer, write_back w3 (write_back w2 (write_back w1 (write_back w0 fl)))))"

fun crash_boots :: "int list \<Rightarrow> int \<Rightarrow> guard_file \<Rightarrow> int list" where
  "crash_boots [] p fl = []"
| "crash_boots (now # nows) p fl =
     (let (answer, fl') = crash_boot now p fl in answer # crash_boots nows p fl')"

text \<open>A file whose record is about \<open>p\<close>, with \<open>n\<close> strikes to come at the next boot.\<close>

definition struck_file :: "int \<Rightarrow> int \<Rightarrow> guard_file \<Rightarrow> bool" where
  "struck_file p n fl \<longleftrightarrow> (\<exists>g. fl = Holds (guard_json g) \<and> guard_inv g \<and> m_profile g = p \<and>
     min (m_strikes g + (if m_armed g then 1 else 0)) kStrikesToSuppress = n)"

lemma struck_fileI:
  "guard_inv g \<Longrightarrow> m_profile g = p \<Longrightarrow>
     min (m_strikes g + (if m_armed g then 1 else 0)) kStrikesToSuppress = n \<Longrightarrow>
     struck_file p n (Holds (guard_json g))"
  unfolding struck_file_def by blast

lemma settlePrevious_saved: "settlePrevious g = saved (fst (settlePrevious g))"
  by (simp add: settlePrevious_def saved_def Let_def)

lemma load_struck:
  assumes "guard_inv g"
  obtains g' w where "load (Holds (guard_json g)) = (g', w)" "guard_inv g'" "m_profile g' = m_profile g"
    "m_strikes g' = m_strikes g" "m_armed g' = m_armed g"
  using load_guard_json [OF assms] load_inv [of "Holds (guard_json g)"]
  by (cases "load (Holds (guard_json g))") (auto simp: persistent_def)

lemma crash_boot_struck:
  assumes f: "struck_file p n fl" and p: "0 \<le> p" and now: "is_int64 now"
  shows "fst (crash_boot now p fl) = (if n < kStrikesToSuppress then p else -1) \<and>
         struck_file p (min (n + 1) kStrikesToSuppress) (snd (crash_boot now p fl))"
proof -
  obtain g where g: "fl = Holds (guard_json g)" "guard_inv g" "m_profile g = p"
      "min (m_strikes g + (if m_armed g then 1 else 0)) kStrikesToSuppress = n"
    using f by (auto simp: struck_file_def)
  obtain g0 w0 where l: "load fl = (g0, w0)" and g0: "guard_inv g0" "m_profile g0 = p"
      "m_strikes g0 = m_strikes g" "m_armed g0 = m_armed g"
    using load_struck [OF g(2)] g(1,3) by metis
  obtain g1 where s: "settlePrevious g0 = saved g1"
    using settlePrevious_saved by blast
  have i1: "guard_inv g1" using guard_step_inv [OF g0(1), of Settle] s by (simp add: saved_def)
  have g1: "m_profile g1 = p" "m_strikes g1 = n" "\<not> m_armed g1"
    using s g0 g(4) \<open>guard_inv g\<close>
    by (auto simp: settlePrevious_def saved_def Let_def guard_inv_def split: if_splits)
  show ?thesis
  proof (cases "n < kStrikesToSuppress")
    case True
    let ?g2 = "g1\<lparr>m_suppressed := False\<rparr>"
    have d: "decide p g1 = (p, ?g2, None)" using True p g1 by (simp add: decide_def Let_def)
    have i2: "guard_inv ?g2" using i1 by (simp add: guard_inv_def)
    have p32: "is_int32 p" using i1 g1(1) by (simp add: guard_inv_def)
    obtain g3 where a: "arm now p ?g2 = saved g3" and g3: "m_profile g3 = p" "m_strikes g3 = n" "m_armed g3"
      using p g1 by (auto simp: arm_def Let_def)
    have i3: "guard_inv g3" using guard_step_inv [OF i2, of "Arm now p"] a now p32 by (simp add: saved_def)
    have c: "crash_boot now p fl = (p, Holds (guard_json g3))"
      using l s d a p by (simp add: crash_boot_def saved_def write_back_def)
    show ?thesis using True i3 g3 by (simp add: c struck_fileI)
  next
    case False
    let ?g2 = "g1\<lparr>m_suppressed := True\<rparr>"
    have d: "decide p g1 = (-1, ?g2, None)" using False p g1 by (simp add: decide_def Let_def)
    have n: "n = kStrikesToSuppress" using False g(4) by simp
    have c: "crash_boot now p fl = (-1, Holds (guard_json g1))"
      using l s d by (simp add: crash_boot_def saved_def write_back_def)
    show ?thesis using n i1 g1 by (simp add: c struck_fileI)
  qed
qed

lemma crash_boot_fresh:
  assumes "0 \<le> p" "is_int32 p" "is_int64 now"
  shows "fst (crash_boot now p NoFile) = p \<and> struck_file p 1 (snd (crash_boot now p NoFile))"
proof -
  let ?g1 = "fresh_guard\<lparr>m_bootOpen := True\<rparr>"
  let ?g3 = "?g1\<lparr>m_profile := p, m_armed := True, m_armedAt := now\<rparr>"
  have l: "load NoFile = (fresh_guard, None)" by (simp add: load_def)
  have s: "settlePrevious fresh_guard = saved ?g1"
    by (simp add: settlePrevious_def Let_def fresh_guard_def)
  have d: "decide p ?g1 = (p, ?g1\<lparr>m_profile := p\<rparr>, None)"
    using assms by (simp add: decide_def Let_def fresh_guard_def)
  have a: "arm now p (?g1\<lparr>m_profile := p\<rparr>) = saved ?g3"
    using assms by (simp add: arm_def Let_def)
  have c: "crash_boot now p NoFile = (p, Holds (guard_json ?g3))"
    using l s d a assms(1) by (simp add: crash_boot_def saved_def write_back_def)
  have "guard_inv ?g3" using assms by (simp add: guard_inv_def fresh_guard_def guard_consts)
  moreover have "m_profile ?g3 = p"
    "min (m_strikes ?g3 + (if m_armed ?g3 then 1 else 0)) kStrikesToSuppress = 1"
    by (simp_all add: fresh_guard_def guard_consts)
  ultimately show ?thesis unfolding c struck_file_def fst_conv snd_conv by blast
qed

lemma crash_boots_suppressed:
  "struck_file p kStrikesToSuppress fl \<Longrightarrow> 0 \<le> p \<Longrightarrow> \<forall>now \<in> set nows. is_int64 now \<Longrightarrow>
     crash_boots nows p fl = replicate (length nows) (-1)"
proof (induction nows arbitrary: fl)
  case (Cons now nows)
  then show ?case
    using crash_boot_struck [of p kStrikesToSuppress fl now]
    by (auto simp: case_prod_beta Let_def)
qed simp

text \<open>
  C16. The crash loop ends: a profile whose every boot dies while its resume is armed is resumed three
  times, counted from a machine without a record, and from the fourth boot on it is not resumed again,
  however many boots follow.
\<close>

theorem crash_loop_suppressed:
  assumes "0 \<le> p" "is_int32 p" "\<forall>now \<in> set (t1 # t2 # t3 # nows). is_int64 now"
  shows "crash_boots (t1 # t2 # t3 # nows) p NoFile = [p, p, p] @ replicate (length nows) (-1)"
proof -
  obtain f1 where 1: "crash_boot t1 p NoFile = (p, f1)" "struck_file p 1 f1"
    using crash_boot_fresh [of p t1] assms by (cases "crash_boot t1 p NoFile") auto
  obtain f2 where 2: "crash_boot t2 p f1 = (p, f2)" "struck_file p 2 f2"
    using crash_boot_struck [OF 1(2), of t2] assms
    by (cases "crash_boot t2 p f1") (auto simp: guard_consts)
  obtain f3 where 3: "crash_boot t3 p f2 = (p, f3)" "struck_file p kStrikesToSuppress f3"
    using crash_boot_struck [OF 2(2), of t3] assms
    by (cases "crash_boot t3 p f2") (auto simp: guard_consts)
  show ?thesis
    using 1 2 3 crash_boots_suppressed [OF 3(2), of nows] assms by simp
qed

theorem crash_loop_suppressed_witness:
  "crash_boots [10, 20, 30, 40, 50] 4 NoFile = [4, 4, 4, -1, -1]"
  using crash_loop_suppressed [of 4 10 20 30 "[40, 50]"] by (simp add: is_int32_def is_int64_def)

text \<open>
  Surviving clears the count: after a profile ran long enough the guard is disarmed with no strikes,
  its suppression is lifted, and the next decision about it resumes it.
\<close>

theorem survived_resumes:
  assumes "guard_inv g" "m_profile g = p" "0 \<le> p"
  shows "let g' = fst (survived p g) in
           m_strikes g' = 0 \<and> \<not> armed g' \<and> \<not> suppressed g' \<and> fst (decide p g') = p"
  using assms by (auto simp: survived_def saved_def armed_def suppressed_def decide_def guard_consts Let_def)

theorem survived_resumes_witness:
  "fst (decide 4 (fst (survived 4 (fresh_guard\<lparr>m_profile := 4, m_strikes := 3, m_suppressed := True\<rparr>)))) = 4"
proof -
  have "guard_inv (fresh_guard\<lparr>m_profile := 4, m_strikes := 3, m_suppressed := True\<rparr>)"
    by (simp add: guard_inv_def fresh_guard_def guard_consts is_int32_def)
  then show ?thesis
    using survived_resumes [of "fresh_guard\<lparr>m_profile := 4, m_strikes := 3, m_suppressed := True\<rparr>" 4]
    by (simp add: Let_def)
qed

subsection \<open>The record along every history\<close>

definition guard_next :: "guard \<Rightarrow> guard_op \<Rightarrow> guard" where
  "guard_next g op = (if valid_op op then fst (guard_step g op) else g)"

interpretation guard_history: invariant_system "fst (load fl)" guard_next guard_inv for fl
  by unfold_locales (simp_all add: load_inv guard_next_def guard_step_inv)

text \<open>
  Whatever the file holds (missing, unreadable, corrupt, any JSON value) and whatever sequence of
  operations follows, the record stays in range: at most three strikes, armed only for a real profile,
  no arming time while disarmed, a bounded unstable streak.
\<close>

theorem guard_always_inv:
  "guard_inv (run guard_next (fst (load fl)) ops)"
  by (rule guard_history.inv_run)

end
