(* ===== verification/StderrTail.thy ===== *)
theory StderrTail
  imports Prelude
begin

text \<open>
  Why a core failed, read off its stderr (\<^verbatim>\<open>src/engine/supervisor/CoreSupervisor.cpp\<close>, the
  \<^verbatim>\<open>coreSupervisor...\<close> helpers): chunks of bytes are reassembled into lines, and the first panic line,
  else the last line that is no stack trace, is kept as one short line. \<open>utf8\<close> is
  \<^verbatim>\<open>QString::fromUtf8\<close>, a parameter of the definitions that decode.
\<close>

type_synonym qbytes = "nat list"

definition kCoreSupervisorErrorMaxChars :: nat where "kCoreSupervisorErrorMaxChars = 300"
definition kCoreSupervisorStderrLineCap :: nat where "kCoreSupervisorStderrLineCap = 4096"

record StderrTail =
  gen :: nat
  partial :: qbytes
  panic :: qstring
  last_line :: qstring

definition fresh_tail :: "nat \<Rightarrow> StderrTail" where
  "fresh_tail g = \<lparr>gen = g, partial = [], panic = [], last_line = []\<rparr>"

definition startsWith :: "string \<Rightarrow> qstring \<Rightarrow> bool" where
  "startsWith p s = prefix (lit p) s"

definition isPanicLine :: "qstring \<Rightarrow> bool" where
  "isPanicLine line \<longleftrightarrow>
     startsWith ''Core panicked:'' line \<or> startsWith ''panic:'' line \<or> startsWith ''fatal error:'' line"

text \<open>The category \<^verbatim>\<open>Other_Control\<close>: the C0 and C1 controls and DEL.\<close>

definition isControl :: "qchar \<Rightarrow> bool" where
  "isControl c \<longleftrightarrow> c < 32 \<or> (127 \<le> c \<and> c < 160)"

text \<open>\<^verbatim>\<open>QString::simplified\<close>: no space at either end, one U+0020 for every run of spaces inside.\<close>

fun squeeze :: "qstring \<Rightarrow> qstring" where
  "squeeze [] = []"
| "squeeze (c # s) =
     (if isSpace c then (case squeeze s of [] \<Rightarrow> [32] | d # t \<Rightarrow> if d = 32 then d # t else 32 # d # t)
      else c # squeeze s)"

definition simplified :: "qstring \<Rightarrow> qstring" where
  "simplified s = squeeze (trimmed s)"

definition oneLine :: "qstring \<Rightarrow> qstring" where
  "oneLine text =
     (let text = simplified (map (\<lambda>c. if isControl c then 32 else c) text)
      in if kCoreSupervisorErrorMaxChars < length text
         then take (kCoreSupervisorErrorMaxChars - 3) text @ lit ''...''
         else text)"

text \<open>The two regular expressions, matched by hand over the ASCII classes they name.\<close>

definition isDigit :: "qchar \<Rightarrow> bool" where
  "isDigit c \<longleftrightarrow> 48 \<le> c \<and> c \<le> 57"

definition isLower :: "qchar \<Rightarrow> bool" where
  "isLower c \<longleftrightarrow> 97 \<le> c \<and> c \<le> 122"

definition isHexLower :: "qchar \<Rightarrow> bool" where
  "isHexLower c \<longleftrightarrow> isDigit c \<or> (97 \<le> c \<and> c \<le> 102)"

text \<open>PCRE's \<^verbatim>\<open>\s\<close>.\<close>

definition isRegexSpace :: "qchar \<Rightarrow> bool" where
  "isRegexSpace c \<longleftrightarrow> c = 32 \<or> (9 \<le> c \<and> c \<le> 13)"

fun match_pattern :: "string \<Rightarrow> qstring \<Rightarrow> qstring option" where
  "match_pattern [] s = Some s"
| "match_pattern (p # ps) [] = None"
| "match_pattern (p # ps) (c # s) =
     (if (if p = CHR ''d'' then isDigit c else c = of_char p) then match_pattern ps s else None)"

definition goLogStamp :: "qstring \<Rightarrow> qstring option" where
  "goLogStamp s =
     (case match_pattern ''dddd/dd/dd dd:dd:dd'' s of
        None \<Rightarrow> None
      | Some r \<Rightarrow>
          (case match_pattern ''.d'' r of
             Some r2 \<Rightarrow> match_pattern '' '' (dropWhile isDigit r2)
           | None \<Rightarrow> match_pattern '' '' r))"

definition removeStamp :: "qstring \<Rightarrow> qstring" where
  "removeStamp s = (case goLogStamp s of Some r \<Rightarrow> r | None \<Rightarrow> s)"

definition registerDump :: "qstring \<Rightarrow> bool" where
  "registerDump s =
     (let name = takeWhile (\<lambda>c. isLower c \<or> isDigit c) s; r = drop (length name) s;
          gap = takeWhile isRegexSpace r; hex = drop (length gap) r
      in name \<noteq> [] \<and> isLower (hd name) \<and> length name \<le> 8 \<and> gap \<noteq> [] \<and>
         (case match_pattern ''0x'' hex of Some h \<Rightarrow> h \<noteq> [] \<and> list_all isHexLower h | None \<Rightarrow> False))"

definition noteStderrLine :: "(qbytes \<Rightarrow> qstring) \<Rightarrow> qbytes \<Rightarrow> StderrTail \<Rightarrow> StderrTail" where
  "noteStderrLine utf8 line tail =
     (if panic tail \<noteq> [] then tail
      else
        (let line = (if line \<noteq> [] \<and> last line = 13 then butlast line else line)
         in if line = [] \<or> hd line = 32 \<or> hd line = 9 then tail
            else
              (let text = oneLine (removeStamp (utf8 line))
               in if text = [] then tail
                  else if isPanicLine text then tail\<lparr>panic := text\<rparr>
                  else if startsWith ''goroutine '' text \<or> registerDump text then tail
                  else tail\<lparr>last_line := text\<rparr>)))"

text \<open>The loop over the line feeds of the buffer; what follows the last one stays in it.\<close>

fun noteLines :: "(qbytes \<Rightarrow> qstring) \<Rightarrow> qbytes list \<Rightarrow> StderrTail \<Rightarrow> StderrTail" where
  "noteLines utf8 [] tail = tail"
| "noteLines utf8 [rest] tail = tail\<lparr>partial := rest\<rparr>"
| "noteLines utf8 (line # lines) tail = noteLines utf8 lines (noteStderrLine utf8 line tail)"

definition feedStderr :: "(qbytes \<Rightarrow> qstring) \<Rightarrow> nat \<Rightarrow> qbytes \<Rightarrow> StderrTail \<Rightarrow> StderrTail" where
  "feedStderr utf8 g chunk tail =
     (let tail = (if gen tail \<noteq> g then fresh_tail g else tail)
      in if panic tail \<noteq> [] then tail
         else
           (let tail = noteLines utf8 (split_on 10 (partial tail @ chunk)) tail
            in if kCoreSupervisorStderrLineCap < length (partial tail) then tail\<lparr>partial := []\<rparr> else tail))"

definition stderrCause :: "(qbytes \<Rightarrow> qstring) \<Rightarrow> nat \<Rightarrow> StderrTail \<Rightarrow> qstring \<times> StderrTail" where
  "stderrCause utf8 g tail =
     (if gen tail \<noteq> g then ([], tail)
      else
        (let tail = (if partial tail \<noteq> [] then noteStderrLine utf8 (partial tail) (tail\<lparr>partial := []\<rparr>) else tail)
         in (if panic tail = [] then last_line tail else panic tail, tail)))"

section \<open>The kept line is short and clean\<close>

lemma squeeze_props:
  "length (squeeze s) \<le> length s" "c \<in> set (squeeze s) \<Longrightarrow> c = 32 \<or> c \<in> set s"
  by (induction s) (auto split: list.splits if_splits)

definition clean :: "qstring \<Rightarrow> bool" where
  "clean s \<longleftrightarrow> length s \<le> kCoreSupervisorErrorMaxChars \<and> list_all (\<lambda>c. \<not> isControl c) s"

lemma clean_Nil [simp]: "clean []"
  by (simp add: clean_def)

lemma clean_oneLine: "clean (oneLine s)"
proof -
  define t where "t = simplified (map (\<lambda>c. if isControl c then 32 else c) s)"
  have "\<not> isControl c" if "c \<in> set t" for c
  proof -
    have "c = 32 \<or> c \<in> set (trimmed (map (\<lambda>c. if isControl c then 32 else c) s))"
      using that squeeze_props(2) by (simp add: t_def simplified_def)
    then have "c = 32 \<or> c \<in> set (map (\<lambda>c. if isControl c then 32 else c) s)"
      using set_trimmed by blast
    then show ?thesis by (auto simp: isControl_def split: if_splits)
  qed
  then have "\<forall>c \<in> set (take n t). \<not> isControl c" for n by (auto dest: in_set_takeD)
  moreover have "\<forall>c \<in> set (lit ''...''). \<not> isControl c" by (simp add: isControl_def)
  moreover have "oneLine s = (if kCoreSupervisorErrorMaxChars < length t
      then take (kCoreSupervisorErrorMaxChars - 3) t @ lit ''...'' else take (length t) t)"
    by (simp add: oneLine_def t_def Let_def)
  ultimately show ?thesis
    by (cases "kCoreSupervisorErrorMaxChars < length t")
      (auto simp: clean_def list_all_iff kCoreSupervisorErrorMaxChars_def simp del: take_all)
qed

definition tail_ok :: "StderrTail \<Rightarrow> bool" where
  "tail_ok t \<longleftrightarrow> clean (panic t) \<and> clean (last_line t) \<and> (panic t \<noteq> [] \<longrightarrow> isPanicLine (panic t))"

lemma tail_ok_partial [simp]: "tail_ok (t\<lparr>partial := p\<rparr>) = tail_ok t"
  by (simp add: tail_ok_def)

lemma tail_ok_fresh [simp]: "tail_ok (fresh_tail g)"
  by (simp add: tail_ok_def fresh_tail_def)

lemma tail_ok_note: "tail_ok t \<Longrightarrow> tail_ok (noteStderrLine utf8 line t)"
  by (simp add: noteStderrLine_def Let_def) (simp add: tail_ok_def clean_oneLine)

lemma noted_line_fields [simp]:
  "gen (noteStderrLine utf8 line t) = gen t" "partial (noteStderrLine utf8 line t) = partial t"
  by (simp_all add: noteStderrLine_def Let_def)

lemma tail_ok_noteLines: "tail_ok t \<Longrightarrow> tail_ok (noteLines utf8 ls t)"
  by (induction utf8 ls t rule: noteLines.induct) (simp_all add: tail_ok_note)

lemma gen_noteLines [simp]: "gen (noteLines utf8 ls t) = gen t"
  by (induction utf8 ls t rule: noteLines.induct) simp_all

lemma tail_ok_feed: "tail_ok t \<Longrightarrow> tail_ok (feedStderr utf8 g c t)"
  by (simp add: feedStderr_def tail_ok_noteLines Let_def)

lemma tail_ok_feeds: "tail_ok t \<Longrightarrow> tail_ok (fold (feedStderr utf8 g) cs t)"
  by (induction cs arbitrary: t) (simp_all add: tail_ok_feed)

section \<open>Chunks do not matter\<close>

lemma split_on_append_last:
  "split_on x (a @ b) = butlast (split_on x a) @ split_on x (last (split_on x a) @ b)"
proof (induction a)
  case (Cons c a)
  obtain p ps where ps: "split_on x a = p # ps" by (cases "split_on x a") auto
  show ?case
  proof (cases "c = x")
    case False
    show ?thesis
    proof (cases ps)
      case Nil
      then have "split_on x (a @ b) = split_on x (p @ b)" using Cons ps by simp
      with Nil ps False show ?thesis by simp
    next
      case (Cons q qs)
      with \<open>split_on x (a @ b) = _\<close> ps False show ?thesis by simp
    qed
  qed (use Cons ps in simp)
qed simp

lemma noteLines_append:
  "ls \<noteq> [] \<Longrightarrow> noteLines utf8 (ks @ ls) t = noteLines utf8 ls (fold (noteStderrLine utf8) ks t)"
proof (induction ks arbitrary: t)
  case (Cons k ks)
  then show ?case by (cases "ks @ ls") auto
qed simp

lemma noteLines_fold:
  "ls \<noteq> [] \<Longrightarrow> noteLines utf8 ls t = (fold (noteStderrLine utf8) (butlast ls) t)\<lparr>partial := last ls\<rparr>"
  by (induction utf8 ls t rule: noteLines.induct) auto

lemma note_partial:
  "noteStderrLine utf8 line (t\<lparr>partial := p\<rparr>) = (noteStderrLine utf8 line t)\<lparr>partial := p\<rparr>"
  by (simp add: noteStderrLine_def Let_def)

lemma fold_note_partial:
  "fold (noteStderrLine utf8) ls (t\<lparr>partial := p\<rparr>) = (fold (noteStderrLine utf8) ls t)\<lparr>partial := p\<rparr>"
  by (induction ls arbitrary: t) (simp_all add: note_partial)

lemma note_panic: "panic t \<noteq> [] \<Longrightarrow> noteStderrLine utf8 line t = t"
  by (simp add: noteStderrLine_def)

lemma fold_note_panic: "panic t \<noteq> [] \<Longrightarrow> fold (noteStderrLine utf8) ls t = t"
  by (induction ls) (simp_all add: note_panic)

text \<open>What the line reader has found once a text was read, ignoring its buffer.\<close>

definition found :: "StderrTail \<Rightarrow> nat \<times> qstring \<times> qstring" where
  "found t = (gen t, panic t, last_line t)"

lemma found_partial [simp]: "found (t\<lparr>partial := p\<rparr>) = found t"
  by (simp add: found_def)

lemma found_eqI: "found t = found t' \<Longrightarrow> t\<lparr>partial := p\<rparr> = t'\<lparr>partial := p\<rparr>"
  by (cases t; cases t') (simp add: found_def)

lemma gen_fold_note [simp]: "gen (fold (noteStderrLine utf8) ls t) = gen t"
  by (induction ls arbitrary: t) simp_all

text \<open>
  The state after reading a text: the lines it completes were noted, and unless a panic line was found the
  buffer holds the unfinished one.
\<close>

definition after_text :: "(qbytes \<Rightarrow> qstring) \<Rightarrow> nat \<Rightarrow> qbytes \<Rightarrow> StderrTail \<Rightarrow> bool" where
  "after_text utf8 g s t \<longleftrightarrow>
     found t = found (fold (noteStderrLine utf8) (butlast (split_on 10 s)) (fresh_tail g)) \<and>
     (panic t = [] \<longrightarrow> partial t = last (split_on 10 s))"

text \<open>
  What of the output the reader keeps: after each chunk, an unfinished line that has grown beyond the cap is
  taken back.
\<close>

definition drop_overlong :: "qbytes \<Rightarrow> qbytes" where
  "drop_overlong s =
     (let u = last (split_on 10 s)
      in if kCoreSupervisorStderrLineCap < length u then take (length s - length u) s else s)"

definition surviving :: "qbytes list \<Rightarrow> qbytes" where
  "surviving chunks = foldl (\<lambda>s c. drop_overlong (s @ c)) [] chunks"

lemma split_on_single: "split_on x s = [p] \<Longrightarrow> s = p"
proof (induction s arbitrary: p)
  case (Cons c s)
  then show ?case by (cases "split_on x s") (auto split: if_splits)
qed simp

lemma split_on_last_line:
  "\<exists>a. s = a @ last (split_on x s) \<and> split_on x a = butlast (split_on x s) @ [[]]"
proof (induction s)
  case (Cons c s)
  then obtain a where a: "s = a @ last (split_on x s)" "split_on x a = butlast (split_on x s) @ [[]]" by blast
  obtain q qs where q: "split_on x s = q # qs" by (cases "split_on x s") auto
  show ?case
  proof (cases "c = x")
    case True
    then have "c # s = (c # a) @ last (split_on x (c # s)) \<and> split_on x (c # a) = butlast (split_on x (c # s)) @ [[]]"
      using a q by simp
    then show ?thesis by blast
  next
    case c: False
    show ?thesis
    proof (cases qs)
      case Nil
      then have "s = q" using q by (intro split_on_single [of x]) simp
      then have "c # s = [] @ last (split_on x (c # s)) \<and> split_on x [] = butlast (split_on x (c # s)) @ [[]]"
        using q Nil c by simp
      then show ?thesis by blast
    next
      case (Cons r rs)
      then have "c # s = (c # a) @ last (split_on x (c # s)) \<and> split_on x (c # a) = butlast (split_on x (c # s)) @ [[]]"
        using a q c by simp
      then show ?thesis by blast
    qed
  qed
qed simp

lemma split_on_drop_overlong:
  "split_on 10 (drop_overlong s) =
     (if kCoreSupervisorStderrLineCap < length (last (split_on 10 s)) then butlast (split_on 10 s) @ [[]] else split_on 10 s)"
proof -
  obtain a where "s = a @ last (split_on 10 s)" "split_on 10 a = butlast (split_on 10 s) @ [[]]"
    using split_on_last_line [of s 10] by blast
  moreover from this(1) have "take (length s - length (last (split_on 10 s))) s = a"
    by (metis add_diff_cancel_right' append_eq_conv_conj length_append)
  ultimately show ?thesis by (simp add: drop_overlong_def Let_def)
qed

lemma after_text_feed:
  assumes "after_text utf8 g s t"
  shows "after_text utf8 g (drop_overlong (s @ c)) (feedStderr utf8 g c t)"
proof -
  define ls where "ls = split_on 10 s"
  define dn where "dn = fold (noteStderrLine utf8) (butlast ls) (fresh_tail g)"
  have f: "found t = found dn" using assms by (simp add: after_text_def dn_def ls_def)
  then have gt: "gen t = g" "panic t = panic dn"
    by (simp_all add: found_def dn_def fresh_tail_def)
  define ms where "ms = split_on 10 (last ls @ c)"
  have sc: "split_on 10 (s @ c) = butlast ls @ ms"
    unfolding ls_def ms_def by (rule split_on_append_last)
  have ms: "ms \<noteq> []" by (simp add: ms_def)
  define cut where "cut \<longleftrightarrow> kCoreSupervisorStderrLineCap < length (last ms)"
  have kept: "split_on 10 (drop_overlong (s @ c)) = butlast ls @ butlast ms @ [if cut then [] else last ms]"
    using ms by (simp add: split_on_drop_overlong sc cut_def butlast_append)
  have all: "fold (noteStderrLine utf8) (butlast (split_on 10 (drop_overlong (s @ c)))) (fresh_tail g) =
      fold (noteStderrLine utf8) (butlast ms) dn"
    by (simp add: kept butlast_append dn_def)
  show ?thesis
  proof (cases "panic t = []")
    case False
    then have "feedStderr utf8 g c t = t" using gt by (simp add: feedStderr_def)
    moreover have "fold (noteStderrLine utf8) (butlast ms) dn = dn"
      using False gt by (simp add: fold_note_panic)
    ultimately show ?thesis using f False by (simp add: after_text_def all)
  next
    case True
    then have p: "partial t = last ls" using assms by (simp add: after_text_def ls_def)
    define r where "r = noteLines utf8 ms t"
    have r: "r = (fold (noteStderrLine utf8) (butlast ms) t)\<lparr>partial := last ms\<rparr>"
      using ms by (simp add: r_def noteLines_fold)
    have e: "feedStderr utf8 g c t = r\<lparr>partial := (if cut then [] else last ms)\<rparr>"
      using True gt p by (simp add: feedStderr_def Let_def r_def [symmetric] ms_def [symmetric])
         (simp add: r cut_def)
    moreover have "found r = found (fold (noteStderrLine utf8) (butlast ms) dn)"
      using found_eqI [OF f, of "last ms"]
      by (simp add: r) (metis fold_note_partial found_partial)
    ultimately show ?thesis by (simp add: after_text_def all) (simp add: kept)
  qed
qed

lemma after_text_feeds:
  assumes "after_text utf8 g s t"
  shows "after_text utf8 g (foldl (\<lambda>s c. drop_overlong (s @ c)) s cs) (fold (feedStderr utf8 g) cs t)"
  using assms by (induction cs arbitrary: s t) (simp_all add: after_text_feed)

text \<open>Nothing is dropped when no line is longer than the cap.\<close>

lemma split_on_glue:
  "x \<notin> set l \<Longrightarrow> split_on x (l @ b) = (l @ hd (split_on x b)) # tl (split_on x b)"
proof (induction l)
  case Nil
  then show ?case by (cases "split_on x b") auto
qed auto

lemma split_on_prefix_lines:
  assumes "\<forall>l \<in> set (split_on x (a @ b)). length l \<le> n"
  shows "\<forall>l \<in> set (split_on x a). length l \<le> n"
proof -
  define u where "u = last (split_on x a)"
  have "x \<notin> set u" using split_on_no_sep [of u x a] by (simp add: u_def)
  from split_on_glue [OF this, of b] have "split_on x (a @ b) = butlast (split_on x a) @
      (u @ hd (split_on x b)) # tl (split_on x b)"
    by (subst split_on_append_last) (simp add: u_def)
  with assms have "\<forall>l \<in> set (butlast (split_on x a)). length l \<le> n" "length u \<le> n" by auto
  moreover have "split_on x a = butlast (split_on x a) @ [u]" by (simp add: u_def)
  ultimately show ?thesis by (metis UnE empty_iff insert_iff list.set set_append)
qed

lemma surviving_all:
  assumes "\<forall>l \<in> set (split_on 10 (s @ concat cs)). length l \<le> kCoreSupervisorStderrLineCap"
  shows "foldl (\<lambda>s c. drop_overlong (s @ c)) s cs = s @ concat cs"
  using assms
proof (induction cs arbitrary: s)
  case (Cons c cs)
  have "\<forall>l \<in> set (split_on 10 (s @ c)). length l \<le> kCoreSupervisorStderrLineCap"
    using Cons.prems by (intro split_on_prefix_lines [of _ "s @ c" "concat cs"]) simp
  then have "length (last (split_on 10 (s @ c))) \<le> kCoreSupervisorStderrLineCap" by simp
  then have "drop_overlong (s @ c) = s @ c" by (simp add: drop_overlong_def Let_def)
  then show ?case using Cons.IH [of "s @ c"] Cons.prems by simp
qed simp

text \<open>The cause read after a text, in terms of its lines only.\<close>

definition cause_of :: "(qbytes \<Rightarrow> qstring) \<Rightarrow> nat \<Rightarrow> qbytes \<Rightarrow> qstring" where
  "cause_of utf8 g s =
     (let t = fold (noteStderrLine utf8) (split_on 10 s) (fresh_tail g)
      in if panic t = [] then last_line t else panic t)"

lemma note_empty [simp]: "noteStderrLine utf8 [] t = t"
  by (simp add: noteStderrLine_def)

lemma cause_after_text:
  assumes "after_text utf8 g s t"
  shows "fst (stderrCause utf8 g t) = cause_of utf8 g s"
proof -
  define dn where "dn = fold (noteStderrLine utf8) (butlast (split_on 10 s)) (fresh_tail g)"
  define u where "u = last (split_on 10 s)"
  have f: "found t = found dn" and p: "panic t = [] \<longrightarrow> partial t = u"
    using assms by (simp_all add: after_text_def dn_def u_def)
  then have gt: "gen t = g" "panic t = panic dn" "last_line t = last_line dn"
    by (simp_all add: found_def dn_def fresh_tail_def)
  have "split_on 10 s = butlast (split_on 10 s) @ [u]" by (simp add: u_def)
  then have all: "fold (noteStderrLine utf8) (split_on 10 s) (fresh_tail g) = noteStderrLine utf8 u dn"
    by (metis dn_def fold_append fold_simps comp_apply)
  show ?thesis
  proof (cases "panic t = []")
    case False
    then show ?thesis using gt by (simp add: stderrCause_def cause_of_def all note_panic Let_def)
  next
    case True
    then have pu: "partial t = u" using p by simp
    have e: "noteStderrLine utf8 u (t\<lparr>partial := []\<rparr>) = (noteStderrLine utf8 u dn)\<lparr>partial := []\<rparr>"
      using found_eqI [OF f, of "[]"] by (simp add: note_partial)
    show ?thesis
    proof (cases "u = []")
      case True
      then show ?thesis using gt pu by (simp add: stderrCause_def cause_of_def all Let_def)
    next
      case False
      then show ?thesis using gt pu e by (simp add: stderrCause_def cause_of_def all Let_def)
    qed
  qed
qed

lemma after_text_fresh: "after_text utf8 g [] (fresh_tail g)"
  by (simp add: after_text_def fresh_tail_def)

text \<open>
  C25. Reading stderr in pieces: however the output of one core is cut into chunks, the cause reported at its
  exit is the one found in the lines of what survives the cuts, which is the whole output when no line is
  longer than 4096 bytes. (An unfinished line beyond that is dropped at the end of a chunk, so what survives
  of longer lines depends on the cuts.)
\<close>

theorem stderr_chunks:
  "fst (stderrCause utf8 g (fold (feedStderr utf8 g) chunks (fresh_tail g))) = cause_of utf8 g (surviving chunks) \<and>
   ((\<forall>l \<in> set (split_on 10 (concat chunks)). length l \<le> kCoreSupervisorStderrLineCap) \<longrightarrow>
      surviving chunks = concat chunks)"
  using cause_after_text [OF after_text_feeds [OF after_text_fresh, of utf8 g chunks]] surviving_all [of "[]" chunks]
  by (simp add: surviving_def)

theorem stderr_chunks_witness:
  "fst (stderrCause (\<lambda>b. b) 3 (fold (feedStderr (\<lambda>b. b) 3)
     [lit ''pan'', lit ''ic: boom'', [10], lit ''goroutine 1''] (fresh_tail 3))) =
   cause_of (\<lambda>b. b) 3 (lit ''panic: boom'' @ [10] @ lit ''goroutine 1'')"
proof -
  let ?cs = "[lit ''pan'', lit ''ic: boom'', [10], lit ''goroutine 1'']"
  have "\<forall>l \<in> set (split_on 10 (concat ?cs)). length l \<le> kCoreSupervisorStderrLineCap"
    by (simp add: kCoreSupervisorStderrLineCap_def)
  then have "surviving ?cs = concat ?cs" using stderr_chunks [of "\<lambda>b. b" 3 ?cs] by blast
  with stderr_chunks [of "\<lambda>b. b" 3 ?cs] show ?thesis by simp
qed

text \<open>
  Whatever a core prints, in any chunks and with any decoder, the cause kept at its exit is one line of
  at most 300 characters without control characters.
\<close>

theorem stderr_cause_clean:
  "length (fst (stderrCause utf8 g (fold (feedStderr utf8 g) chunks (fresh_tail g0)))) \<le> 300 \<and>
   list_all (\<lambda>c. \<not> isControl c)
     (fst (stderrCause utf8 g (fold (feedStderr utf8 g) chunks (fresh_tail g0))))"
proof -
  have ok: "tail_ok (fold (feedStderr utf8 g) chunks (fresh_tail g0))" by (simp add: tail_ok_feeds)
  define t where "t = fold (feedStderr utf8 g) chunks (fresh_tail g0)"
  have "tail_ok (noteStderrLine utf8 (partial t) (t\<lparr>partial := []\<rparr>))"
    using ok by (intro tail_ok_note) (simp add: t_def)
  with ok have "clean (fst (stderrCause utf8 g t))"
    by (simp add: stderrCause_def Let_def tail_ok_def t_def)
  then show ?thesis by (simp add: clean_def t_def kCoreSupervisorErrorMaxChars_def)
qed

end
