(* ===== verification/KillSwitch.thy ===== *)
theory KillSwitch
  imports Prelude
begin

text \<open>
  The kill switch of \<^verbatim>\<open>src/sys/KillSwitch.cpp\<close>: the state machine that arms, replaces and watches
  the guard processes that block traffic outside the tunnel. All of it runs on the UI thread, so an event
  (a call, a Qt signal of a guard process, a timer) is one step. Guards are objects on a heap, since the
  signal handlers receive them by pointer and compare them with \<^verbatim>\<open>active_\<close> and \<^verbatim>\<open>pending_\<close>. Time,
  process failures and the lines a guard prints arrive with the events. The log output, the stderr relay
  and the Windows-only \<^verbatim>\<open>permitExtraCore\<close> are not modelled; the settings' extra core paths are taken as
  the native, deduplicated list that \<^verbatim>\<open>buildConfig\<close> computes. A JSON document of \<^verbatim>\<open>buildConfig\<close> is
  the record of its members, on which comparing the bytes and comparing the records agree.
\<close>

datatype platform = Windows | Linux | MacOS

datatype ks_state = Disabled | Arming | Armed | Failed

definition kReadyTimeoutMs :: int where "kReadyTimeoutMs = 15000"
definition kRespawnIntervalMs :: int where "kRespawnIntervalMs = 30000"
definition kPrivilege :: string where "kPrivilege = ''privilege''"
definition kUnsupported :: string where "kUnsupported = ''unsupported''"
definition kConfig :: string where "kConfig = ''config''"
definition kTampered :: string where "kTampered = ''tampered''"
definition kInternal :: string where "kInternal = ''internal''"
definition kCrash :: string where "kCrash = ''crash''"
definition kTimeout :: string where "kTimeout = ''timeout''"
definition kOverridden :: string where "kOverridden = ''overridden''"

record settings =
  kill_switch :: bool
  disable_private_range_bypass :: bool
  vpn_tun_ipv4_cidr :: string
  vpn_tun_ipv6_cidr :: string
  vpn_l3_bridge :: bool
  extra_core_paths :: "string list"
  prepare_exit :: bool

record GuardConfig =
  allow_lan :: bool
  tun_name :: string
  tun_cidrs :: "string list"
  extra_paths :: "string list"
  bridge_name :: string
  api_port :: int

datatype proc_state = NotRunning | Starting | Running

record GuardProcess =
  guard_config :: GuardConfig
  keep_states :: bool
  ready_timer :: bool
  ready :: bool
  closing :: bool
  write_open :: bool
  proc :: proc_state
  deleted :: bool

record Waiter =
  context_of :: "nat option"
  idle :: bool
  callback :: nat

record kswitch =
  os :: platform
  ks :: settings
  apiPort :: int
  k_state :: ks_state
  k_identityUnsupported :: bool
  k_identityDetail :: string
  k_overridden :: bool
  k_active :: "nat option"
  k_pending :: "nat option"
  k_failureCode :: string
  k_failureMessage :: string
  k_lastRespawn :: "int option"
  k_waiters :: "Waiter list"
  k_shutdown :: bool
  heap :: "nat \<Rightarrow> GuardProcess"
  next_guard :: nat
  dead_contexts :: "nat set"
  delivered :: "(nat \<times> bool) list"

definition killSwitchIdentityMessage :: "string \<Rightarrow> string" where
  "killSwitchIdentityMessage detail =
     ''the core cannot adopt the kill-switch group 1950896719 here (it needs CAP_SETGID and that GID '' @
     ''mapped in this user namespace); the kill switch keeps blocking traffic, and profiles stay '' @
     ''refused until kill_switch is turned off'' @
     (if detail \<noteq> [] then ''; the core reported: '' @ detail else [])"

definition tunName :: "platform \<Rightarrow> string" where
  "tunName p = (case p of MacOS \<Rightarrow> [] | _ \<Rightarrow> ''throne-tun'')"

definition bridgeName :: "platform \<Rightarrow> settings \<Rightarrow> string" where
  "bridgeName p s = (if p = Linux \<and> vpn_l3_bridge s then ''throne-br'' else [])"

definition buildConfig :: "kswitch \<Rightarrow> GuardConfig" where
  "buildConfig k =
     \<lparr>allow_lan = \<not> disable_private_range_bypass (ks k),
      tun_name = tunName (os k),
      tun_cidrs = [vpn_tun_ipv4_cidr (ks k), vpn_tun_ipv6_cidr (ks k)],
      extra_paths = (if os k = Windows then extra_core_paths (ks k) else []),
      bridge_name = bridgeName (os k) (ks k),
      api_port = apiPort k\<rparr>"

definition allowsStart :: "kswitch \<Rightarrow> bool" where
  "allowsStart k \<longleftrightarrow> k_state k = Disabled \<or> k_state k = Armed"

definition failedForPrivileges :: "kswitch \<Rightarrow> bool" where
  "failedForPrivileges k \<longleftrightarrow> k_state k = Failed \<and> k_failureCode k = kPrivilege"

definition failedPersistently :: "kswitch \<Rightarrow> bool" where
  "failedPersistently k =
     (if k_state k \<noteq> Failed then False
      else k_failureCode k = kPrivilege \<or> k_failureCode k = kUnsupported \<or>
           k_failureCode k = kConfig \<or> k_failureCode k = kOverridden)"

definition failedForIdentity :: "kswitch \<Rightarrow> bool" where
  "failedForIdentity k \<longleftrightarrow> k_state k = Failed \<and> k_failureCode k = kUnsupported \<and>
     k_identityUnsupported k \<and> (k_active k \<noteq> None \<or> k_pending k \<noteq> None)"

definition failureText :: "kswitch \<Rightarrow> string" where
  "failureText k =
     (if k_failureCode k = kOverridden then k_failureMessage k
      else if k_failureCode k = kUnsupported then
        (if k_failureMessage k = [] then ''The kill switch is not supported on this system.''
         else k_failureMessage k)
      else
        (let text =
           (if k_failureCode k = kPrivilege then
              (if os k = Windows then ''The kill switch needs Throne to run as administrator.''
               else ''The kill switch needs the core to have root privileges.'')
            else if k_failureCode k = kTampered then
              ''Another program removed the kill switch rules or disabled the system firewall.''
            else if k_failureCode k = kConfig then ''The kill switch rejected its settings.''
            else ''The kill switch process stopped unexpectedly.'')
         in if k_failureMessage k \<noteq> [] then text @ [CHR 0x0A, CHR 0x0A] @ ''Details: '' @ k_failureMessage k
            else text))"

subsection \<open>Waiters and states\<close>

definition setState :: "ks_state \<Rightarrow> kswitch \<Rightarrow> kswitch" where
  "setState s k =
     (let k = (if s \<noteq> Failed then k\<lparr>k_failureCode := [], k_failureMessage := []\<rparr> else k)
      in k\<lparr>k_state := s\<rparr>)"

definition settle_one :: "Waiter \<Rightarrow> kswitch \<Rightarrow> kswitch" where
  "settle_one w k =
     (if (if idle w then k_pending k \<noteq> None else k_state k = Arming)
      then k\<lparr>k_waiters := k_waiters k @ [w]\<rparr>
      else if (case context_of w of Some c \<Rightarrow> c \<in> dead_contexts k | None \<Rightarrow> False) then k
      else k\<lparr>delivered := delivered k @ [(callback w, k_state k = Armed)]\<rparr>)"

definition settle :: "kswitch \<Rightarrow> kswitch" where
  "settle k = fold settle_one (k_waiters k) (k\<lparr>k_waiters := []\<rparr>)"

definition fail :: "string \<Rightarrow> string \<Rightarrow> kswitch \<Rightarrow> kswitch" where
  "fail code message k =
     settle (setState Failed (k\<lparr>k_failureCode := code, k_failureMessage := message\<rparr>))"

definition failIdentity :: "kswitch \<Rightarrow> kswitch" where
  "failIdentity k =
     (let message = killSwitchIdentityMessage (k_identityDetail k);
          k = (if k_state k \<noteq> Failed \<or> k_failureCode k \<noteq> kUnsupported \<or> k_failureMessage k \<noteq> message
               then setState Failed (k\<lparr>k_failureCode := kUnsupported, k_failureMessage := message\<rparr>) else k)
      in settle k)"

definition whenSettled :: "nat option \<Rightarrow> nat \<Rightarrow> kswitch \<Rightarrow> kswitch" where
  "whenSettled ctx cb k =
     (if k_state k \<noteq> Arming then k\<lparr>delivered := delivered k @ [(cb, k_state k = Armed)]\<rparr>
      else k\<lparr>k_waiters := k_waiters k @ [\<lparr>context_of = ctx, idle = False, callback = cb\<rparr>]\<rparr>)"

text \<open>
  The callback of \<open>whenIdle\<close> ignores its argument; its waiter is bound to the switch itself, which is
  never destroyed.
\<close>

definition whenIdle :: "nat \<Rightarrow> kswitch \<Rightarrow> kswitch" where
  "whenIdle cb k =
     (if k_pending k = None then k\<lparr>delivered := delivered k @ [(cb, k_state k = Armed)]\<rparr>
      else k\<lparr>k_waiters := k_waiters k @ [\<lparr>context_of = None, idle = True, callback = cb\<rparr>]\<rparr>)"

subsection \<open>Guards\<close>

definition update_guard :: "nat \<Rightarrow> (GuardProcess \<Rightarrow> GuardProcess) \<Rightarrow> kswitch \<Rightarrow> kswitch" where
  "update_guard g f k = k\<lparr>heap := (heap k)(g := f (heap k g))\<rparr>"

definition closeGuard :: "nat option \<Rightarrow> kswitch \<Rightarrow> kswitch" where
  "closeGuard guard k =
     (case guard of
        None \<Rightarrow> k
      | Some g \<Rightarrow>
          if closing (heap k g) then k
          else if proc (heap k g) = NotRunning
          then update_guard g (\<lambda>p. p\<lparr>closing := True, ready_timer := False, deleted := True\<rparr>) k
          else update_guard g (\<lambda>p. p\<lparr>closing := True, ready_timer := False, write_open := False\<rparr>) k)"

text \<open>\<^verbatim>\<open>closeGuard(std::exchange(pending_, nullptr))\<close> and the same for \<^verbatim>\<open>active_\<close>.\<close>

definition closePending :: "kswitch \<Rightarrow> kswitch" where
  "closePending k = closeGuard (k_pending k) (k\<lparr>k_pending := None\<rparr>)"

definition closeActive :: "kswitch \<Rightarrow> kswitch" where
  "closeActive k = closeGuard (k_active k) (k\<lparr>k_active := None\<rparr>)"

definition spawn :: "GuardConfig \<Rightarrow> kswitch \<Rightarrow> kswitch" where
  "spawn config k =
     (let k = closePending k; g = next_guard k;
          guard = \<lparr>guard_config = config, keep_states = (k_active k \<noteq> None), ready_timer = True,
                   ready = False, closing = False, write_open = True, proc = Starting, deleted = False\<rparr>;
          k = k\<lparr>next_guard := Suc g, k_pending := Some g, heap := (heap k)(g := guard)\<rparr>
      in if k_active k = None \<and> \<not> k_identityUnsupported k then setState Arming k else k)"

text \<open>The end of \<open>apply\<close>: a guard with this very config, pending or active, is kept.\<close>

definition apply_config :: "GuardConfig \<Rightarrow> kswitch \<Rightarrow> kswitch" where
  "apply_config config k =
     (if (case k_pending k of Some g \<Rightarrow> guard_config (heap k g) = config | None \<Rightarrow> False) then k
      else if (case k_active k of Some g \<Rightarrow> guard_config (heap k g) = config | None \<Rightarrow> False) then
        (if k_pending k \<noteq> None then settle (closePending k) else k)
      else spawn config k)"

definition apply_ks :: "kswitch \<Rightarrow> kswitch" where
  "apply_ks k =
     (if k_shutdown k then k
      else if \<not> kill_switch (ks k) then
        settle (setState Disabled (closeActive (closePending
          (k\<lparr>k_identityUnsupported := False, k_identityDetail := []\<rparr>))))
      else if k_overridden k then
        (let k = closeActive (closePending k);
             message = ''turned off for this run by --no-kill-switch (THRONE_KILL_SWITCH); profiles stay refused '' @
                       ''until kill_switch is turned off''
         in if k_state k = Failed \<and> k_failureCode k = kOverridden \<and> k_failureMessage k = message
            then settle k else fail kOverridden message k)
      else
        (let k = (if k_identityUnsupported k \<and> k_state k = Armed then failIdentity k else k)
         in apply_config (buildConfig k) k))"

definition noteIdentityUnsupported :: "string \<Rightarrow> kswitch \<Rightarrow> kswitch" where
  "noteIdentityUnsupported detail k =
     apply_ks (k\<lparr>k_identityDetail := detail, k_identityUnsupported := True\<rparr>)"

definition setOverride :: "bool \<Rightarrow> kswitch \<Rightarrow> kswitch" where
  "setOverride overridden k = k\<lparr>k_overridden := overridden\<rparr>"

text \<open>
  \<^verbatim>\<open>SetApiPort\<close> stores the port and queues its second half on the UI thread, which runs later and reads
  the state then.
\<close>

definition storeApiPort :: "int \<Rightarrow> kswitch \<Rightarrow> kswitch \<times> bool" where
  "storeApiPort port k = (if apiPort k = port then (k, False) else (k\<lparr>apiPort := port\<rparr>, True))"

definition apiPortChanged :: "kswitch \<Rightarrow> kswitch" where
  "apiPortChanged k =
     (if k_state k \<noteq> Arming \<and> k_state k \<noteq> Armed \<and> k_active k = None \<and> k_pending k = None then k
      else if prepare_exit (ks k) then k
      else apply_ks k)"

definition armFailed :: "string \<Rightarrow> string \<Rightarrow> kswitch \<Rightarrow> kswitch" where
  "armFailed code message k = (if k_active k \<noteq> None then settle k else fail code message k)"

text \<open>Whether \<open>armFailed\<close> starts its retry timer, and what the timer does when it fires.\<close>

definition retriesArming :: "string \<Rightarrow> kswitch \<Rightarrow> bool" where
  "retriesArming code k \<longleftrightarrow>
     k_active k \<noteq> None \<and> code \<noteq> kPrivilege \<and> code \<noteq> kUnsupported \<and> code \<noteq> kConfig"

definition retryTimeout :: "kswitch \<Rightarrow> kswitch" where
  "retryTimeout k =
     (if k_shutdown k \<or> k_pending k \<noteq> None \<or> k_active k = None then k
      else if prepare_exit (ks k) then k
      else apply_ks k)"

definition protectionLost :: "int \<Rightarrow> string \<Rightarrow> string \<Rightarrow> kswitch \<Rightarrow> kswitch" where
  "protectionLost now code message k =
     (if k_shutdown k then k
      else if \<not> kill_switch (ks k) then apply_ks k
      else if k_pending k \<noteq> None then
        settle (if \<not> k_identityUnsupported k then setState Arming k else k)
      else
        (let recoverable = (code \<noteq> kPrivilege \<and> code \<noteq> kUnsupported \<and> code \<noteq> kConfig)
         in if recoverable \<and>
               (case k_lastRespawn k of None \<Rightarrow> True | Some t \<Rightarrow> kRespawnIntervalMs < now - t)
            then spawn (buildConfig k) (k\<lparr>k_lastRespawn := Some now\<rparr>)
            else fail code message k))"

text \<open>What the handlers of a guard do with \<^verbatim>\<open>active_\<close> and \<^verbatim>\<open>pending_\<close> before they close it.\<close>

definition forget :: "nat \<Rightarrow> kswitch \<Rightarrow> kswitch" where
  "forget g k =
     (let k = (if k_active k = Some g then k\<lparr>k_active := None\<rparr> else k)
      in if k_pending k = Some g then k\<lparr>k_pending := None\<rparr> else k)"

definition onReady :: "nat \<Rightarrow> kswitch \<Rightarrow> kswitch" where
  "onReady g k =
     (if k_pending k \<noteq> Some g \<or> ready (heap k g) then k
      else
        (let k = update_guard g (\<lambda>p. p\<lparr>ready := True, ready_timer := False\<rparr>) k;
             previous = k_active k;
             k = closeGuard previous (k\<lparr>k_active := Some g, k_pending := None\<rparr>)
         in if k_identityUnsupported k then failIdentity k else settle (setState Armed k)))"

definition section_first :: "string \<Rightarrow> string" where
  "section_first line = takeWhile (\<lambda>c. c \<noteq> CHR '' '') line"

definition section_rest :: "string \<Rightarrow> string" where
  "section_rest line = drop 1 (dropWhile (\<lambda>c. c \<noteq> CHR '' '') line)"

definition handleLine :: "int \<Rightarrow> nat \<Rightarrow> string \<Rightarrow> kswitch \<Rightarrow> kswitch" where
  "handleLine now g line k =
     (let verb = section_first line; rest = section_rest line
      in if verb = ''WARN'' then k
         else if verb = ''READY'' then onReady g k
         else if verb \<noteq> ''ERROR'' \<and> verb \<noteq> ''FAIL'' then k
         else if closing (heap k g) then k
         else
           (let code = section_first rest; message = section_rest rest;
                wasActive = (k_active k = Some g); wasPending = (k_pending k = Some g);
                k = closeGuard (Some g) (forget g k)
            in if wasActive then protectionLost now code message k
               else if wasPending then armFailed code message k
               else k))"

definition onReadyTimeout :: "nat \<Rightarrow> kswitch \<Rightarrow> kswitch" where
  "onReadyTimeout g k =
     (if k_pending k \<noteq> Some g \<or> ready (heap k g) then k
      else armFailed kTimeout
             (''the kill switch did not respond within '' @ show_int (kReadyTimeoutMs div 1000) @ '' seconds'')
             (closeGuard (Some g) (k\<lparr>k_pending := None\<rparr>)))"

definition onStartFailed :: "nat \<Rightarrow> string \<Rightarrow> string \<Rightarrow> kswitch \<Rightarrow> kswitch" where
  "onStartFailed g program errorString k =
     (let message = ''could not start '' @ program @ '': '' @ errorString;
          wasPending = (\<not> closing (heap k g) \<and> k_pending k = Some g);
          k = (if wasPending then k\<lparr>k_pending := None\<rparr> else k);
          k = update_guard g (\<lambda>p. p\<lparr>ready_timer := False, closing := True, deleted := True,
                                   proc := NotRunning\<rparr>) k
      in if wasPending then armFailed kInternal message k else k)"

definition readOutput :: "int \<Rightarrow> nat \<Rightarrow> string list \<Rightarrow> kswitch \<Rightarrow> kswitch" where
  "readOutput now g lines k = fold (handleLine now g) (filter (\<lambda>l. l \<noteq> []) lines) k"

definition onFinished :: "int \<Rightarrow> nat \<Rightarrow> string list \<Rightarrow> int \<Rightarrow> bool \<Rightarrow> kswitch \<Rightarrow> kswitch" where
  "onFinished now g lines exitCode crashed k =
     (let k = readOutput now g lines (update_guard g (\<lambda>p. p\<lparr>proc := NotRunning\<rparr>) k);
          wasActive = (\<not> closing (heap k g) \<and> k_active k = Some g);
          wasPending = (\<not> closing (heap k g) \<and> k_pending k = Some g);
          k = (if wasActive then k\<lparr>k_active := None\<rparr> else k);
          k = (if wasPending then k\<lparr>k_pending := None\<rparr> else k);
          k = update_guard g (\<lambda>p. p\<lparr>ready_timer := False, closing := True, deleted := True\<rparr>) k
      in if wasActive then
           protectionLost now kCrash
             (if crashed then ''the kill switch process crashed''
              else ''the kill switch process exited with code '' @ show_int exitCode) k
         else if wasPending then
           armFailed kCrash
             (if crashed then ''the kill switch process crashed before it was ready''
              else ''the kill switch process exited with code '' @ show_int exitCode @
                   '' before it was ready'') k
         else k)"

text \<open>
  \<^verbatim>\<open>shutdown\<close> marks every guard as closing and closes its input, then waits; what the guards do then
  arrives as later events.
\<close>

definition shutdown :: "kswitch \<Rightarrow> kswitch" where
  "shutdown k =
     (if k_shutdown k then k
      else k\<lparr>k_shutdown := True, k_waiters := [], k_active := None, k_pending := None,
             heap := (\<lambda>g. if g < next_guard k
                          then (heap k g)\<lparr>closing := True, ready_timer := False,
                                 write_open := (proc (heap k g) = NotRunning \<and> write_open (heap k g))\<rparr>
                          else heap k g)\<rparr>)"

subsection \<open>Events\<close>

text \<open>
  \<open>init_ks\<close> is the switch before its first \<open>apply\<close>, which \<open>boot_ks\<close> runs after \<open>setOverride\<close>, as
  \<^verbatim>\<open>EngineHost\<close> does. A change of the settings is followed by \<open>apply\<close> at once
  (\<^verbatim>\<open>SettingsRegistry\<close>, \<^verbatim>\<open>ConnectionManager::disableKillSwitch\<close>). The value of \<open>heap\<close> outside the
  allocated guards is irrelevant.
\<close>

definition no_guard :: GuardProcess where
  "no_guard = \<lparr>guard_config = \<lparr>allow_lan = False, tun_name = [], tun_cidrs = [], extra_paths = [],
     bridge_name = [], api_port = 0\<rparr>, keep_states = False, ready_timer = False, ready = False,
     closing = False, write_open = False, proc = NotRunning, deleted = False\<rparr>"

definition init_ks :: "platform \<Rightarrow> settings \<Rightarrow> kswitch" where
  "init_ks p s =
     \<lparr>os = p, ks = s, apiPort = 0, k_state = Disabled, k_identityUnsupported = False,
      k_identityDetail = [], k_overridden = False, k_active = None, k_pending = None, k_failureCode = [],
      k_failureMessage = [], k_lastRespawn = None, k_waiters = [], k_shutdown = False,
      heap = (\<lambda>_. no_guard), next_guard = 0, dead_contexts = {}, delivered = []\<rparr>"

definition boot_ks :: "platform \<Rightarrow> settings \<Rightarrow> bool \<Rightarrow> kswitch" where
  "boot_ks p s overridden = apply_ks (setOverride overridden (init_ks p s))"

datatype ks_event =
    SaveSettings settings
  | Apply
  | NoteIdentity string
  | StoreApiPort int
  | ApiPortQueued
  | WhenSettled "nat option" nat
  | WhenIdle nat
  | ContextDestroyed nat
  | Started nat
  | OutputLines int nat "string list"
  | ReadyTimeout nat
  | StartFailed nat string string
  | Finished int nat "string list" int bool
  | RetryTimeout
  | Shutdown

text \<open>
  A signal can only come from a guard that was created, and \<^verbatim>\<open>QProcess\<close> reports a start or a failed
  start while it is starting, output and the end while it runs.
\<close>

definition signals :: "nat \<Rightarrow> proc_state \<Rightarrow> kswitch \<Rightarrow> bool" where
  "signals g p k \<longleftrightarrow> g < next_guard k \<and> proc (heap k g) = p"

fun ks_step :: "kswitch \<Rightarrow> ks_event \<Rightarrow> kswitch" where
  "ks_step k (SaveSettings s) = apply_ks (k\<lparr>ks := s\<rparr>)"
| "ks_step k Apply = apply_ks k"
| "ks_step k (NoteIdentity detail) = noteIdentityUnsupported detail k"
| "ks_step k (StoreApiPort port) = fst (storeApiPort port k)"
| "ks_step k ApiPortQueued = apiPortChanged k"
| "ks_step k (WhenSettled ctx cb) = whenSettled ctx cb k"
| "ks_step k (WhenIdle cb) = whenIdle cb k"
| "ks_step k (ContextDestroyed c) = k\<lparr>dead_contexts := insert c (dead_contexts k)\<rparr>"
| "ks_step k (Started g) =
     (if signals g Starting k then update_guard g (\<lambda>p. p\<lparr>proc := Running\<rparr>) k else k)"
| "ks_step k (OutputLines now g lines) = (if signals g Running k then readOutput now g lines k else k)"
| "ks_step k (ReadyTimeout g) = (if g < next_guard k then onReadyTimeout g k else k)"
| "ks_step k (StartFailed g program e) = (if signals g Starting k then onStartFailed g program e k else k)"
| "ks_step k (Finished now g lines exitCode crashed) =
     (if signals g Running k then onFinished now g lines exitCode crashed k else k)"
| "ks_step k RetryTimeout = retryTimeout k"
| "ks_step k Shutdown = shutdown k"

end
