(* ===== verification/KillSwitchSafety.thy ===== *)
theory KillSwitchSafety
  imports KillSwitch
begin

text \<open>
  The guarantees of the kill switch, over every sequence of calls, guard signals and timers. The
  invariant ties the reported state to the guards: Armed means a ready guard whose input is open is in
  force, Arming means one is on its way, Disabled only while the setting is off. From it: a profile may
  start only unprotected-by-choice or behind a blocking guard, and no waiter is left without an answer.
\<close>

section \<open>The invariant\<close>

definition guards_ok :: "kswitch \<Rightarrow> bool" where
  "guards_ok k \<longleftrightarrow>
     (\<forall>g. k_active k = Some g \<longrightarrow> g < next_guard k \<and> ready (heap k g) \<and> \<not> closing (heap k g) \<and>
            proc (heap k g) \<noteq> Starting) \<and>
     (\<forall>g. k_pending k = Some g \<longrightarrow> g < next_guard k \<and> \<not> ready (heap k g) \<and> \<not> closing (heap k g) \<and>
            ready_timer (heap k g))"

definition state_ok :: "kswitch \<Rightarrow> bool" where
  "state_ok k \<longleftrightarrow>
     (k_state k = Disabled \<longleftrightarrow> \<not> kill_switch (ks k)) \<and>
     (k_state k = Disabled \<longrightarrow> k_active k = None \<and> k_pending k = None \<and> \<not> k_identityUnsupported k) \<and>
     (k_state k = Arming \<longrightarrow> k_active k = None \<and> k_pending k \<noteq> None) \<and>
     (k_state k = Armed \<longrightarrow> k_active k \<noteq> None \<and> \<not> k_identityUnsupported k) \<and>
     (k_state k = Failed \<longrightarrow> k_active k \<noteq> None \<longrightarrow> k_identityUnsupported k)"

definition waiters_ok :: "kswitch \<Rightarrow> bool" where
  "waiters_ok k \<longleftrightarrow> 
     (\<forall>w \<in> set (k_waiters k). (idle w \<longrightarrow> k_pending k \<noteq> None) \<and> (\<not> idle w \<longrightarrow> k_state k = Arming))"

definition ks_inv :: "kswitch \<Rightarrow> bool" where
  "ks_inv k \<longleftrightarrow> (\<not> k_shutdown k \<longrightarrow> guards_ok k \<and> state_ok k \<and> waiters_ok k) \<and>
     (k_shutdown k \<longrightarrow> k_active k = None \<and> k_pending k = None)"

section \<open>What the building blocks do\<close>

text \<open>Settling only answers waiters; afterwards exactly those that still have to wait are left.\<close>

definition keeps_waiting :: "kswitch \<Rightarrow> Waiter \<Rightarrow> bool" where
  "keeps_waiting k w = (if idle w then k_pending k \<noteq> None else k_state k = Arming)"

lemma settle_one_cases:
  "settle_one w k =
     (if keeps_waiting k w then k\<lparr>k_waiters := k_waiters k @ [w]\<rparr>
      else k\<lparr>delivered := delivered (settle_one w k)\<rparr>)"
  by (cases "context_of w") (simp_all add: settle_one_def keeps_waiting_def)

lemma fold_settle:
  "\<exists>d. fold settle_one ws k =
     k\<lparr>k_waiters := k_waiters k @ filter (keeps_waiting k) ws, delivered := d\<rparr>"
proof (induction ws arbitrary: k)
  case Nil
  show ?case by (intro exI [of _ "delivered k"]) simp
next
  case (Cons w ws)
  show ?case
  proof (cases "keeps_waiting k w")
    case True
    define k1 where "k1 = k\<lparr>k_waiters := k_waiters k @ [w]\<rparr>"
    have "keeps_waiting k1 = keeps_waiting k" by (rule ext) (simp add: keeps_waiting_def k1_def)
    moreover have "settle_one w k = k1" using True by (subst settle_one_cases) (simp add: k1_def)
    moreover obtain d where "fold settle_one ws k1 =
        k1\<lparr>k_waiters := k_waiters k1 @ filter (keeps_waiting k1) ws, delivered := d\<rparr>"
      using Cons.IH by blast
    ultimately have "fold settle_one (w # ws) k =
        k1\<lparr>k_waiters := k_waiters k1 @ filter (keeps_waiting k) ws, delivered := d\<rparr>" by simp
    with True show ?thesis by (intro exI [of _ d]) (simp add: k1_def)
  next
    case False
    define k1 where "k1 = k\<lparr>delivered := delivered (settle_one w k)\<rparr>"
    have "keeps_waiting k1 = keeps_waiting k" by (rule ext) (simp add: keeps_waiting_def k1_def)
    moreover have "settle_one w k = k1" using False by (subst settle_one_cases) (simp add: k1_def)
    moreover obtain d where "fold settle_one ws k1 =
        k1\<lparr>k_waiters := k_waiters k1 @ filter (keeps_waiting k1) ws, delivered := d\<rparr>"
      using Cons.IH by blast
    ultimately have "fold settle_one (w # ws) k =
        k1\<lparr>k_waiters := k_waiters k1 @ filter (keeps_waiting k) ws, delivered := d\<rparr>" by simp
    with False show ?thesis by (intro exI [of _ d]) (simp add: k1_def)
  qed
qed

lemma settle_frame:
  "\<exists>d. settle k = k\<lparr>k_waiters := filter (keeps_waiting k) (k_waiters k), delivered := d\<rparr>"
proof -
  have "keeps_waiting (k\<lparr>k_waiters := []\<rparr>) = keeps_waiting k"
    by (rule ext) (simp add: keeps_waiting_def)
  then show ?thesis
    using fold_settle [of "k_waiters k" "k\<lparr>k_waiters := []\<rparr>"] by (auto simp: settle_def)
qed

lemma settle_fields [simp]:
  "k_state (settle k) = k_state k" "k_active (settle k) = k_active k" "k_pending (settle k) = k_pending k"
  "k_identityUnsupported (settle k) = k_identityUnsupported k" "k_identityDetail (settle k) = k_identityDetail k"
  "k_overridden (settle k) = k_overridden k" "k_shutdown (settle k) = k_shutdown k" "ks (settle k) = ks k"
  "heap (settle k) = heap k" "next_guard (settle k) = next_guard k" "apiPort (settle k) = apiPort k"
  "os (settle k) = os k" "k_failureCode (settle k) = k_failureCode k"
  "k_failureMessage (settle k) = k_failureMessage k" "k_lastRespawn (settle k) = k_lastRespawn k"
  "dead_contexts (settle k) = dead_contexts k"
  "k_waiters (settle k) = filter (keeps_waiting k) (k_waiters k)"
  using settle_frame [of k] by auto

lemma waiters_ok_settle [simp]: "waiters_ok (settle k)"
  by (auto simp: waiters_ok_def keeps_waiting_def split: if_splits)

lemma guards_ok_settle [simp]: "guards_ok (settle k) = guards_ok k"
  by (simp add: guards_ok_def)

lemma state_ok_settle [simp]: "state_ok (settle k) = state_ok k"
  by (simp add: state_ok_def)

lemma setState_fields [simp]:
  "k_state (setState s k) = s" "k_active (setState s k) = k_active k" "k_pending (setState s k) = k_pending k"
  "k_identityUnsupported (setState s k) = k_identityUnsupported k"
  "k_identityDetail (setState s k) = k_identityDetail k"
  "k_overridden (setState s k) = k_overridden k" "k_shutdown (setState s k) = k_shutdown k"
  "ks (setState s k) = ks k" "heap (setState s k) = heap k" "next_guard (setState s k) = next_guard k"
  "k_waiters (setState s k) = k_waiters k" "os (setState s k) = os k" "apiPort (setState s k) = apiPort k"
  "delivered (setState s k) = delivered k" "k_lastRespawn (setState s k) = k_lastRespawn k"
  by (simp_all add: setState_def Let_def)

lemma setState_failure [simp]:
  "k_failureCode (setState Failed k) = k_failureCode k" "k_failureMessage (setState Failed k) = k_failureMessage k"
  by (simp_all add: setState_def)

lemma guards_ok_setState [simp]: "guards_ok (setState s k) = guards_ok k"
  by (simp add: guards_ok_def)

lemma update_guard_fields [simp]:
  "k_state (update_guard g f k) = k_state k" "k_active (update_guard g f k) = k_active k"
  "k_pending (update_guard g f k) = k_pending k" "ks (update_guard g f k) = ks k"
  "k_identityUnsupported (update_guard g f k) = k_identityUnsupported k"
  "k_identityDetail (update_guard g f k) = k_identityDetail k"
  "k_overridden (update_guard g f k) = k_overridden k" "k_shutdown (update_guard g f k) = k_shutdown k"
  "next_guard (update_guard g f k) = next_guard k" "k_waiters (update_guard g f k) = k_waiters k"
  "heap (update_guard g f k) = (heap k)(g := f (heap k g))" "os (update_guard g f k) = os k"
  "apiPort (update_guard g f k) = apiPort k" "delivered (update_guard g f k) = delivered k"
  "k_failureCode (update_guard g f k) = k_failureCode k"
  "k_failureMessage (update_guard g f k) = k_failureMessage k"
  "k_lastRespawn (update_guard g f k) = k_lastRespawn k"
  by (simp_all add: update_guard_def)

lemma closeGuard_fields [simp]:
  "k_state (closeGuard x k) = k_state k" "k_active (closeGuard x k) = k_active k"
  "k_pending (closeGuard x k) = k_pending k" "ks (closeGuard x k) = ks k"
  "k_identityUnsupported (closeGuard x k) = k_identityUnsupported k"
  "k_identityDetail (closeGuard x k) = k_identityDetail k"
  "k_overridden (closeGuard x k) = k_overridden k" "k_shutdown (closeGuard x k) = k_shutdown k"
  "next_guard (closeGuard x k) = next_guard k" "k_waiters (closeGuard x k) = k_waiters k"
  "os (closeGuard x k) = os k" "apiPort (closeGuard x k) = apiPort k" "delivered (closeGuard x k) = delivered k"
  "k_failureCode (closeGuard x k) = k_failureCode k" "k_failureMessage (closeGuard x k) = k_failureMessage k"
  "k_lastRespawn (closeGuard x k) = k_lastRespawn k"
  by (simp_all add: closeGuard_def split: option.split)

lemma heap_closeGuard [simp]:
  "closing (heap (closeGuard x k) g) \<longleftrightarrow> closing (heap k g) \<or> x = Some g"
  "ready (heap (closeGuard x k) g) = ready (heap k g)"
  "guard_config (heap (closeGuard x k) g) = guard_config (heap k g)"
  "x \<noteq> Some g \<Longrightarrow> heap (closeGuard x k) g = heap k g"
  "proc (heap (closeGuard x k) g) = proc (heap k g)"
  by (auto simp: closeGuard_def split: option.split)

lemmas close_defs = closePending_def closeActive_def

lemma guards_ok_closeGuard:
  assumes "guards_ok k" "x = None \<or> (k_active k \<noteq> x \<and> k_pending k \<noteq> x)"
  shows "guards_ok (closeGuard x k)"
  using assms by (auto simp: guards_ok_def)

lemma guards_ok_closePending [simp]: "guards_ok k \<Longrightarrow> guards_ok (closePending k)"
  by (auto simp: guards_ok_def close_defs)

lemma guards_ok_closeActive [simp]: "guards_ok k \<Longrightarrow> guards_ok (closeActive k)"
  by (cases "k_active k = k_pending k") (auto simp: guards_ok_def close_defs)

lemma close_fields [simp]:
  "k_pending (closePending k) = None" "k_active (closePending k) = k_active k"
  "k_active (closeActive k) = None" "k_pending (closeActive k) = k_pending k"
  "k_state (closePending k) = k_state k" "k_state (closeActive k) = k_state k"
  "ks (closePending k) = ks k" "ks (closeActive k) = ks k"
  "k_identityUnsupported (closePending k) = k_identityUnsupported k"
  "k_identityUnsupported (closeActive k) = k_identityUnsupported k"
  "k_shutdown (closePending k) = k_shutdown k" "k_shutdown (closeActive k) = k_shutdown k"
  "k_waiters (closePending k) = k_waiters k" "k_waiters (closeActive k) = k_waiters k"
  "k_overridden (closePending k) = k_overridden k" "k_overridden (closeActive k) = k_overridden k"
  "next_guard (closePending k) = next_guard k"
  by (simp_all add: close_defs)

section \<open>Every operation keeps the invariant\<close>

definition live_inv :: "kswitch \<Rightarrow> bool" where
  "live_inv k \<longleftrightarrow> \<not> k_shutdown k \<and> guards_ok k \<and> state_ok k \<and> waiters_ok k"

lemma live_inv_settle: "\<not> k_shutdown k \<Longrightarrow> guards_ok k \<Longrightarrow> state_ok k \<Longrightarrow> live_inv (settle k)"
  by (simp add: live_inv_def)

lemma live_inv_fail:
  assumes "\<not> k_shutdown k" "guards_ok k" "kill_switch (ks k)" "k_active k \<noteq> None \<longrightarrow> k_identityUnsupported k"
  shows "live_inv (fail code message k)"
  using assms unfolding fail_def
  by (intro live_inv_settle) (auto simp: guards_ok_def state_ok_def)

lemma live_inv_failIdentity:
  assumes "\<not> k_shutdown k" "guards_ok k" "kill_switch (ks k)" "k_identityUnsupported k"
  shows "live_inv (failIdentity k)"
  using assms unfolding failIdentity_def Let_def
  by (intro live_inv_settle) (auto simp: guards_ok_def state_ok_def split: ks_state.splits)

text \<open>
  Starting a guard is allowed from any state the switch may be in when it has none pending: with an
  active guard the state keeps telling about that one, without one it becomes Arming, or stays Failed
  under an identity failure.
\<close>

lemma live_inv_spawn:
  assumes "\<not> k_shutdown k" "guards_ok k" "kill_switch (ks k)"
    and "k_active k \<noteq> None \<Longrightarrow> k_state k = (if k_identityUnsupported k then Failed else Armed)"
    and "k_active k = None \<Longrightarrow> k_identityUnsupported k \<Longrightarrow> k_state k = Failed \<or> k_state k = Arming"
    and "\<forall>w \<in> set (k_waiters k). \<not> idle w \<longrightarrow> k_state k = Arming"
  shows "live_inv (spawn config k)"
proof -
  define k1 where "k1 = closePending k"
  have g1: "guards_ok k1" using assms(2) by (simp add: k1_def)
  have "guards_ok (spawn config k)"
    using g1 by (auto simp: spawn_def Let_def guards_ok_def k1_def [symmetric])
  moreover have "state_ok (spawn config k)"
    using assms(1,3,4,5) by (cases "k_active k") (auto simp: spawn_def Let_def state_ok_def)
  moreover have "waiters_ok (spawn config k)"
    using assms(3-6) by (cases "k_active k") (auto simp: spawn_def Let_def waiters_ok_def split: if_splits)
  ultimately show ?thesis using assms(1) by (simp add: live_inv_def spawn_def Let_def)
qed


text \<open>
  What \<open>apply\<close> may find: a state that is right, or right but for an identity failure just noted or for
  the setting just turned on.
\<close>

definition apply_pre :: "kswitch \<Rightarrow> bool" where
  "apply_pre k \<longleftrightarrow>
     \<not> k_shutdown k \<and> guards_ok k \<and> waiters_ok k \<and>
     (kill_switch (ks k) \<longrightarrow>
        (k_state k = Disabled \<longrightarrow> k_active k = None \<and> k_pending k = None \<and> \<not> k_identityUnsupported k) \<and>
        (k_state k = Arming \<longrightarrow> k_active k = None \<and> k_pending k \<noteq> None) \<and>
        (k_state k = Armed \<longrightarrow> k_active k \<noteq> None) \<and>
        (k_state k = Failed \<longrightarrow> k_active k \<noteq> None \<longrightarrow> k_identityUnsupported k))"

lemma apply_off:
  assumes "\<not> k_shutdown k" "guards_ok k" "\<not> kill_switch (ks k)"
  shows "live_inv (apply_ks k)"
proof -
  have "live_inv (settle (setState Disabled (closeActive (closePending
          (k\<lparr>k_identityUnsupported := False, k_identityDetail := []\<rparr>)))))"
    using assms by (intro live_inv_settle) (auto simp: guards_ok_def state_ok_def close_defs)
  then show ?thesis using assms by (simp add: apply_ks_def)
qed

lemma apply_overridden:
  assumes "\<not> k_shutdown k" "guards_ok k" "kill_switch (ks k)" "k_overridden k"
  shows "live_inv (apply_ks k)"
proof -
  let ?k = "closeActive (closePending k)"
  have g: "guards_ok ?k" using assms(2) by simp
  have "live_inv (settle ?k)" if "k_state k = Failed"
    using that g assms by (intro live_inv_settle) (auto simp: state_ok_def)
  moreover have "live_inv (fail c m ?k)" for c m
    using g assms by (intro live_inv_fail) auto
  ultimately show ?thesis using assms by (auto simp: apply_ks_def Let_def)
qed

text \<open>The branch of \<open>apply\<close> that compares configs, after a noted identity failure has been reported.\<close>

lemma apply_replace:
  assumes k: "live_inv k \<or> (apply_pre k \<and> k_state k = Disabled)" "kill_switch (ks k)"
  shows "live_inv (apply_config config k)"
proof (cases "live_inv k")
  case True
  then have l: "\<not> k_shutdown k" "guards_ok k" "state_ok k" "waiters_ok k" by (simp_all add: live_inv_def)
  have s: "live_inv (spawn config k)"
    using l k(2) by (intro live_inv_spawn) (cases "k_state k"; auto simp: state_ok_def waiters_ok_def)+
  have c: "live_inv (settle (closePending k))" if "k_active k \<noteq> None"
    using l that by (intro live_inv_settle) (auto simp: state_ok_def)
  show ?thesis using True s c by (auto simp: apply_config_def split: option.splits)
next
  case False
  with k have d: "apply_pre k" "k_state k = Disabled" "k_active k = None" "k_pending k = None"
      "\<not> k_identityUnsupported k" by (auto simp: apply_pre_def)
  then have "live_inv (spawn config k)"
    using k(2) by (intro live_inv_spawn) (auto simp: apply_pre_def waiters_ok_def split: if_splits)
  with d show ?thesis by (simp add: apply_config_def)
qed

lemma live_inv_apply:
  assumes "apply_pre k"
  shows "live_inv (apply_ks k)"
proof (cases "kill_switch (ks k) \<and> \<not> k_overridden k")
  case False
  with assms apply_off [of k] apply_overridden [of k] show ?thesis by (auto simp: apply_pre_def)
next
  case True
  define k1 where "k1 = (if k_identityUnsupported k \<and> k_state k = Armed then failIdentity k else k)"
  have "live_inv k1 \<or> (apply_pre k1 \<and> k_state k1 = Disabled)"
  proof (cases "k_identityUnsupported k \<and> k_state k = Armed")
    case i: True
    then show ?thesis using assms True live_inv_failIdentity [of k] by (simp add: k1_def apply_pre_def)
  next
    case False
    then show ?thesis using assms True
      by (cases "k_state k") (auto simp: k1_def apply_pre_def live_inv_def state_ok_def)
  qed
  moreover have "kill_switch (ks k1)" using True by (simp add: k1_def failIdentity_def Let_def)
  ultimately have "live_inv (apply_config (buildConfig k1) k1)"
    by (rule apply_replace)
  moreover have "apply_ks k = apply_config (buildConfig k1) k1"
    using True assms by (simp only: apply_ks_def Let_def k1_def apply_pre_def) simp
  ultimately show ?thesis by simp
qed

lemma apply_pre_live: "live_inv k \<Longrightarrow> apply_pre k"
  by (auto simp: live_inv_def apply_pre_def state_ok_def)

lemma live_inv_note: "live_inv k \<Longrightarrow> live_inv (noteIdentityUnsupported detail k)"
  unfolding noteIdentityUnsupported_def
  by (rule live_inv_apply)
     (cases "k_state k"; auto simp: apply_pre_def live_inv_def guards_ok_def state_ok_def waiters_ok_def)

lemma live_inv_settings: "live_inv k \<Longrightarrow> live_inv (apply_ks (k\<lparr>ks := s\<rparr>))"
  by (rule live_inv_apply)
     (cases "k_state k"; auto simp: apply_pre_def live_inv_def guards_ok_def state_ok_def waiters_ok_def)

subsection \<open>The signals of a guard\<close>

text \<open>
  A state in which the handlers may run \<open>armFailed\<close> and \<open>protectionLost\<close>: the guard concerned has been
  forgotten and closed, so the state may still tell about it.
\<close>

definition lost_pending :: "kswitch \<Rightarrow> bool" where
  "lost_pending k \<longleftrightarrow> \<not> k_shutdown k \<and> guards_ok k \<and> kill_switch (ks k) \<and> k_pending k = None \<and>
     (k_active k \<noteq> None \<longrightarrow> k_state k = (if k_identityUnsupported k then Failed else Armed))"

lemma live_inv_armFailed:
  assumes "lost_pending k"
  shows "live_inv (armFailed code message k)"
proof (cases "k_active k")
  case None
  then show ?thesis using assms live_inv_fail [of k] by (simp add: armFailed_def lost_pending_def)
next
  case (Some g)
  then show ?thesis using assms
    by (auto simp: armFailed_def lost_pending_def state_ok_def split: if_splits intro!: live_inv_settle)
qed

definition lost_active :: "kswitch \<Rightarrow> bool" where
  "lost_active k \<longleftrightarrow> \<not> k_shutdown k \<and> guards_ok k \<and> kill_switch (ks k) \<and> k_active k = None \<and>
     k_state k = (if k_identityUnsupported k then Failed else Armed) \<and>
     (\<forall>w \<in> set (k_waiters k). idle w)"

lemma live_inv_protectionLost:
  assumes "lost_active k"
  shows "live_inv (protectionLost now code message k)"
proof (cases "k_pending k = None")
  case True
  have "live_inv (spawn c (k\<lparr>k_lastRespawn := Some now\<rparr>))" for c
    using assms by (intro live_inv_spawn) (auto simp: lost_active_def guards_ok_def)
  moreover have "live_inv (fail c m k)" for c m
    using assms by (intro live_inv_fail) (auto simp: lost_active_def)
  ultimately show ?thesis
    using assms True by (auto simp: protectionLost_def lost_active_def Let_def)
next
  case False
  have "live_inv (settle (if \<not> k_identityUnsupported k then setState Arming k else k))"
    using assms False by (intro live_inv_settle) (auto simp: lost_active_def state_ok_def)
  then show ?thesis using assms False by (simp add: protectionLost_def lost_active_def)
qed

text \<open>Forgetting and closing a guard leaves one of these two situations, or nothing has happened.\<close>

lemma live_facts:
  assumes "live_inv k"
  shows "\<not> k_shutdown k" "guards_ok k" "state_ok k" "waiters_ok k"
    "k_active k = Some g \<Longrightarrow> kill_switch (ks k) \<and> k_pending k \<noteq> Some g \<and>
       k_state k = (if k_identityUnsupported k then Failed else Armed)"
    "k_pending k = Some g \<Longrightarrow> kill_switch (ks k) \<and> k_active k \<noteq> Some g"
  using assms by (cases "k_state k"; auto simp: live_inv_def state_ok_def guards_ok_def)+

lemma closeGuard_update:
  "closeGuard (Some g) k = update_guard g (\<lambda>p. if closing p then p
     else if proc p = NotRunning then p\<lparr>closing := True, ready_timer := False, deleted := True\<rparr>
     else p\<lparr>closing := True, ready_timer := False, write_open := False\<rparr>) k"
  by (simp add: closeGuard_def update_guard_def fun_upd_idem)

lemma forget_active:
  assumes "live_inv k" "k_active k = Some g"
  shows "forget g k = k\<lparr>k_active := None\<rparr>" "lost_active (update_guard g f (k\<lparr>k_active := None\<rparr>))"
proof -
  note f = live_facts [OF assms(1)] and f5 = live_facts(5) [OF assms]
  show "forget g k = k\<lparr>k_active := None\<rparr>" using assms(2) f5 by (simp add: forget_def Let_def)
  show "lost_active (update_guard g f (k\<lparr>k_active := None\<rparr>))"
    using f f5 assms(2) by (auto simp: lost_active_def guards_ok_def waiters_ok_def split: if_splits)
qed

lemma forget_pending:
  assumes "live_inv k" "k_pending k = Some g"
  shows "forget g k = k\<lparr>k_pending := None\<rparr>" "lost_pending (update_guard g f (k\<lparr>k_pending := None\<rparr>))"
proof -
  note f = live_facts [OF assms(1)] and f6 = live_facts(6) [OF assms]
  show "forget g k = k\<lparr>k_pending := None\<rparr>" using assms(2) f6 by (simp add: forget_def Let_def)
  show "lost_pending (update_guard g f (k\<lparr>k_pending := None\<rparr>))"
    using f f6 assms(2) live_facts(5) [OF assms(1)]
    by (auto simp: lost_pending_def guards_ok_def split: if_splits)
qed

lemma live_inv_other_guard:
  assumes "live_inv k" "k_active k \<noteq> Some g" "k_pending k \<noteq> Some g"
  shows "live_inv (update_guard g f k)"
  using assms by (auto simp: live_inv_def guards_ok_def state_ok_def waiters_ok_def)

lemma live_inv_proc: "live_inv k \<Longrightarrow> x \<noteq> Starting \<Longrightarrow> live_inv (update_guard g (\<lambda>p. p\<lparr>proc := x\<rparr>) k)"
  by (auto simp: live_inv_def guards_ok_def state_ok_def waiters_ok_def)

lemma live_inv_onReady:
  assumes "live_inv k" "proc (heap k g) \<noteq> Starting"
  shows "live_inv (onReady g k)"
proof (cases "k_pending k = Some g \<and> \<not> ready (heap k g)")
  case True
  note f = live_facts [OF assms(1)] and f6 = live_facts(6) [OF assms(1), of g]
  define k1 where "k1 = closeGuard (k_active k)
    (update_guard g (\<lambda>p. p\<lparr>ready := True, ready_timer := False\<rparr>) k\<lparr>k_active := Some g, k_pending := None\<rparr>)"
  have g1: "guards_ok k1" using f(2) f6 True assms(2) by (auto simp: k1_def guards_ok_def)
  have k1: "\<not> k_shutdown k1" "kill_switch (ks k1)" "k_active k1 = Some g" "k_pending k1 = None"
      "k_identityUnsupported k1 = k_identityUnsupported k"
    using f(1) f6 True by (simp_all add: k1_def)
  have "live_inv (if k_identityUnsupported k1 then failIdentity k1 else settle (setState Armed k1))"
    using g1 k1 by (auto intro!: live_inv_failIdentity live_inv_settle simp: state_ok_def)
  moreover have "onReady g k = (if k_identityUnsupported k1 then failIdentity k1 else settle (setState Armed k1))"
    using True by (simp only: onReady_def Let_def k1_def) simp
  ultimately show ?thesis by simp
next
  case False
  with assms show ?thesis by (auto simp: onReady_def)
qed

lemma live_inv_handleLine:
  assumes "live_inv k" "proc (heap k g) \<noteq> Starting"
  shows "live_inv (handleLine now g line k)"
proof -
  let ?c = "section_first (section_rest line)" and ?m = "section_rest (section_rest line)"
  let ?k = "closeGuard (Some g) (forget g k)"
  have "live_inv (if k_active k = Some g then protectionLost now ?c ?m ?k
      else if k_pending k = Some g then armFailed ?c ?m ?k else ?k)"
  proof -
    consider "k_active k = Some g" | "k_active k \<noteq> Some g" "k_pending k = Some g"
      | "k_active k \<noteq> Some g" "k_pending k \<noteq> Some g" by blast
    then show ?thesis
    proof cases
      case 1
      then show ?thesis using forget_active [OF assms(1) 1]
        by (simp add: closeGuard_update live_inv_protectionLost)
    next
      case 2
      then show ?thesis using forget_pending [OF assms(1) 2(2)]
        by (simp add: closeGuard_update live_inv_armFailed)
    next
      case 3
      then show ?thesis using live_inv_other_guard [OF assms(1) 3]
        by (simp add: closeGuard_update forget_def Let_def)
    qed
  qed
  then show ?thesis using assms live_inv_onReady [OF assms]
    by (simp add: handleLine_def Let_def)
qed

text \<open>No handler changes what \<^verbatim>\<open>QProcess\<close> knows about the guards that exist.\<close>

definition same_procs :: "kswitch \<Rightarrow> kswitch \<Rightarrow> bool" where
  "same_procs k k' \<longleftrightarrow> next_guard k \<le> next_guard k' \<and> (\<forall>g < next_guard k. proc (heap k' g) = proc (heap k g))"

lemma same_procs_trans: "same_procs k k' \<Longrightarrow> same_procs k' k'' \<Longrightarrow> same_procs k k''"
  by (auto simp: same_procs_def)

lemma same_procs_simps:
  "same_procs k k" "same_procs k (settle k')  = same_procs k k'" "same_procs k (setState s k') = same_procs k k'"
  "same_procs k (closeGuard x k') = same_procs k k'" "same_procs k (closePending k') = same_procs k k'"
  "same_procs k (closeActive k') = same_procs k k'"
  by (simp_all add: same_procs_def close_defs)

lemma same_procs_fail: "same_procs k (fail c m k)" "same_procs k (failIdentity k)"
  by (simp_all add: same_procs_simps fail_def failIdentity_def Let_def) (simp_all add: same_procs_def)

lemma same_procs_spawn: "same_procs k (spawn c k)"
  by (simp add: spawn_def Let_def same_procs_simps) (simp add: same_procs_def close_defs)

lemma same_procs_apply: "same_procs k (apply_ks k)"
proof -
  have c: "same_procs k' (apply_config x k')" for x k'
    by (simp add: apply_config_def same_procs_simps same_procs_spawn)
  have f: "same_procs k (fail c m (closeActive (closePending k)))" for c m
    by (rule same_procs_trans [OF _ same_procs_fail(1)]) (simp add: same_procs_simps)
  have o: "same_procs k (k\<lparr>k_identityUnsupported := False, k_identityDetail := []\<rparr>)"
    by (simp add: same_procs_def)
  show ?thesis
    using c c [THEN same_procs_trans [OF same_procs_fail(2)]] f o
    by (auto simp: apply_ks_def Let_def same_procs_simps)
qed

lemma same_procs_protectionLost: "same_procs k (protectionLost now c m k)"
proof -
  have "same_procs k (spawn x (k\<lparr>k_lastRespawn := Some now\<rparr>))" for x
    using same_procs_spawn [of "k\<lparr>k_lastRespawn := Some now\<rparr>" x] by (simp add: same_procs_def)
  then show ?thesis
    by (simp add: protectionLost_def Let_def same_procs_simps same_procs_apply same_procs_fail)
qed

lemma same_procs_handleLine: "same_procs k (handleLine now g line k)"
proof -
  have f: "same_procs k (closeGuard (Some g) (forget g k))"
    by (simp add: same_procs_simps) (simp add: forget_def Let_def same_procs_def)
  have r: "same_procs k (onReady g k)"
    by (simp add: onReady_def failIdentity_def Let_def same_procs_simps) (simp add: same_procs_def)
  have a: "same_procs k' (armFailed c m k')" for c m k'
    by (simp add: armFailed_def same_procs_simps same_procs_fail)
  note t = same_procs_trans [OF f]
  show ?thesis
    using r f t [OF a] t [OF same_procs_protectionLost] same_procs_simps(1) [of k]
    by (simp only: handleLine_def Let_def split: if_split) blast
qed

lemma live_inv_readOutput:
  assumes "live_inv k" "g < next_guard k" "proc (heap k g) \<noteq> Starting"
  shows "live_inv (readOutput now g lines k)"
proof -
  have "live_inv (fold (handleLine now g) ls k)" for ls
    using assms
  proof (induction ls arbitrary: k)
    case (Cons l ls)
    then show ?case
      using live_inv_handleLine [of k g now l] same_procs_handleLine [of k now g l]
      by (simp add: same_procs_def)
  qed simp
  then show ?thesis by (simp add: readOutput_def)
qed

lemma live_inv_onReadyTimeout:
  assumes "live_inv k"
  shows "live_inv (onReadyTimeout g k)"
  using assms forget_pending(2) [OF assms, of g]
  by (auto simp: onReadyTimeout_def closeGuard_update live_inv_armFailed)

lemma live_inv_onStartFailed:
  assumes "live_inv k" "proc (heap k g) = Starting"
  shows "live_inv (onStartFailed g program e k)"
proof (cases "k_pending k = Some g")
  case True
  then have "\<not> closing (heap k g)" using assms by (auto simp: live_inv_def guards_ok_def)
  with True show ?thesis using forget_pending(2) [OF assms(1) True]
    by (simp add: onStartFailed_def Let_def live_inv_armFailed)
next
  case False
  moreover have "k_active k \<noteq> Some g" using assms by (auto simp: live_inv_def guards_ok_def)
  ultimately show ?thesis using live_inv_other_guard [OF assms(1)]
    by (simp add: onStartFailed_def Let_def)
qed

lemma live_inv_onFinished:
  assumes "live_inv k" "g < next_guard k"
  shows "live_inv (onFinished now g lines exitCode crashed k)"
proof -
  define k1 where "k1 = readOutput now g lines (update_guard g (\<lambda>p. p\<lparr>proc := NotRunning\<rparr>) k)"
  have inv: "live_inv k1"
    unfolding k1_def using assms by (intro live_inv_readOutput live_inv_proc) auto
  consider "k_active k1 = Some g" | "k_active k1 \<noteq> Some g" "k_pending k1 = Some g"
    | "k_active k1 \<noteq> Some g" "k_pending k1 \<noteq> Some g" by blast
  then show ?thesis
  proof cases
    case 1
    then have c: "\<not> closing (heap k1 g)" "k_pending k1 \<noteq> Some g"
      using inv live_facts(5) [OF inv] by (auto simp: live_inv_def guards_ok_def)
    show ?thesis using 1 c forget_active(2) [OF inv 1]
      by (simp add: onFinished_def Let_def k1_def [symmetric] live_inv_protectionLost)
  next
    case 2
    then have c: "\<not> closing (heap k1 g)" using inv by (auto simp: live_inv_def guards_ok_def)
    show ?thesis using 2 c forget_pending(2) [OF inv 2(2)]
      by (simp add: onFinished_def Let_def k1_def [symmetric] live_inv_armFailed)
  next
    case 3
    then show ?thesis using live_inv_other_guard [OF inv]
      by (simp add: onFinished_def Let_def k1_def [symmetric])
  qed
qed

section \<open>Every reachable state\<close>

lemma ks_inv_boot: "ks_inv (boot_ks p s overridden)"
proof -
  have "apply_pre (setOverride overridden (init_ks p s))"
    by (simp add: apply_pre_def setOverride_def init_ks_def guards_ok_def waiters_ok_def)
  then have "live_inv (boot_ks p s overridden)" unfolding boot_ks_def by (rule live_inv_apply)
  then show ?thesis by (simp add: ks_inv_def live_inv_def)
qed

lemma ks_inv_live: "\<not> k_shutdown k \<Longrightarrow> ks_inv k \<longleftrightarrow> live_inv k"
  by (auto simp: ks_inv_def live_inv_def)

lemma live_inv_frame:
  assumes "live_inv k"
    "k_state k' = k_state k" "k_active k' = k_active k" "k_pending k' = k_pending k" "ks k' = ks k"
    "heap k' = heap k" "next_guard k' = next_guard k" "k_shutdown k' = k_shutdown k"
    "k_waiters k' = k_waiters k" "k_overridden k' = k_overridden k"
    "k_identityUnsupported k' = k_identityUnsupported k"
    "k_failureCode k' = k_failureCode k"
  shows "live_inv k'"
  using assms by (simp add: live_inv_def guards_ok_def state_ok_def waiters_ok_def)

lemma live_inv_misc:
  assumes "live_inv k"
  shows "live_inv (fst (storeApiPort port k))" "live_inv (k\<lparr>dead_contexts := d\<rparr>)"
    "live_inv (apiPortChanged k)" "live_inv (retryTimeout k)"
  using live_inv_apply [OF apply_pre_live [OF assms]] assms
  by (simp_all add: storeApiPort_def apiPortChanged_def retryTimeout_def live_inv_frame [OF assms])

lemma live_inv_whenSettled:
  assumes "live_inv k"
  shows "live_inv (whenSettled ctx cb k)"
proof (cases "k_state k = Arming")
  case True
  with assms show ?thesis
    by (simp add: whenSettled_def live_inv_def guards_ok_def state_ok_def waiters_ok_def)
next
  case False
  then show ?thesis by (simp add: whenSettled_def live_inv_frame [OF assms])
qed

lemma live_inv_whenIdle:
  assumes "live_inv k"
  shows "live_inv (whenIdle cb k)"
proof (cases "k_pending k")
  case None
  then show ?thesis by (simp add: whenIdle_def live_inv_frame [OF assms])
next
  case (Some g)
  with assms show ?thesis
    by (auto simp: whenIdle_def live_inv_def guards_ok_def state_ok_def waiters_ok_def)
qed

lemma live_inv_step:
  assumes "live_inv k" "e \<noteq> Shutdown"
  shows "live_inv (ks_step k e)"
proof (cases e)
  case (SaveSettings s)
  then show ?thesis using live_inv_settings [OF assms(1)] by simp
next
  case Apply
  then show ?thesis using live_inv_apply [OF apply_pre_live [OF assms(1)]] by simp
next
  case (NoteIdentity d)
  then show ?thesis using live_inv_note [OF assms(1)] by simp
next
  case (Started g)
  then show ?thesis using assms live_inv_proc [of k Running g] by (simp add: signals_def)
next
  case (OutputLines now g lines)
  then show ?thesis using assms live_inv_readOutput [of k g now lines] by (simp add: signals_def)
next
  case (ReadyTimeout g)
  then show ?thesis using assms live_inv_onReadyTimeout by simp
next
  case (StartFailed g p err)
  then show ?thesis using assms live_inv_onStartFailed [of k g p err] by (simp add: signals_def)
next
  case (Finished now g lines c cr)
  then show ?thesis using assms live_inv_onFinished [of k g now lines c cr] by (simp add: signals_def)
qed (use assms in \<open>simp_all add: live_inv_misc live_inv_whenSettled live_inv_whenIdle\<close>)

text \<open>After \<open>shutdown\<close> nothing becomes active or pending again.\<close>

definition down :: "kswitch \<Rightarrow> bool" where
  "down k \<longleftrightarrow> k_shutdown k \<and> k_active k = None \<and> k_pending k = None"

lemma down_handleLine: "down k \<Longrightarrow> down (handleLine now g line k)"
  by (simp add: down_def handleLine_def onReady_def forget_def Let_def)

lemma down_readOutput: "down k \<Longrightarrow> down (readOutput now g lines k)"
proof -
  have "down k \<Longrightarrow> down (fold (handleLine now g) ls k)" for ls
    by (induction ls arbitrary: k) (auto simp: down_handleLine)
  then show "down k \<Longrightarrow> down (readOutput now g lines k)" by (simp add: readOutput_def)
qed

lemma down_closed_ops:
  assumes "down k"
  shows "apply_ks k = k" "down (fst (storeApiPort port k))" "down (whenSettled ctx cb k)"
    "down (whenIdle cb k)" "down (onReadyTimeout g k)" "down (onStartFailed g p err k)" "shutdown k = k"
  using assms by (simp_all add: down_def apply_ks_def storeApiPort_def whenSettled_def whenIdle_def
      onReadyTimeout_def onStartFailed_def shutdown_def Let_def)

lemma down_frame:
  assumes "down k" "k_shutdown k' = k_shutdown k" "k_active k' = k_active k" "k_pending k' = k_pending k"
  shows "down k'"
  using assms by (simp add: down_def)

lemma down_apply: "down k \<Longrightarrow> down (apply_ks k)"
  by (simp add: down_closed_ops)

lemma down_onFinished:
  assumes "down k"
  shows "down (onFinished now g lines c cr k)"
proof -
  have "down (readOutput now g lines (update_guard g (\<lambda>p. p\<lparr>proc := NotRunning\<rparr>) k))"
    using assms by (intro down_readOutput down_frame [OF assms]) simp_all
  then show ?thesis by (simp add: onFinished_def Let_def down_def)
qed

lemma down_step:
  assumes "down k"
  shows "down (ks_step k e)"
proof (cases e)
  case (SaveSettings s)
  then show ?thesis using down_apply [OF down_frame [OF assms, of "k\<lparr>ks := s\<rparr>"]] by simp
next
  case (NoteIdentity d)
  then show ?thesis
    using down_apply [OF down_frame [OF assms, of "k\<lparr>k_identityDetail := d, k_identityUnsupported := True\<rparr>"]]
    by (simp add: noteIdentityUnsupported_def)
next
  case (ContextDestroyed c)
  then show ?thesis using down_frame [OF assms] by simp
next
  case (Started g)
  then show ?thesis using assms down_frame [OF assms] by simp
next
  case (Finished now g lines c cr)
  then show ?thesis using assms down_onFinished [OF assms] by simp
qed (use assms in \<open>simp_all add: down_closed_ops down_readOutput apiPortChanged_def retryTimeout_def\<close>)

interpretation ks_history: invariant_system "boot_ks p s overridden" ks_step ks_inv for p s overridden
proof unfold_locales
  fix k e assume inv: "ks_inv k"
  show "ks_inv (ks_step k e)"
  proof (cases "k_shutdown k")
    case True
    with inv have "down (ks_step k e)" by (intro down_step) (simp add: down_def ks_inv_def)
    then show ?thesis by (simp add: ks_inv_def down_def)
  next
    case False
    then have l: "live_inv k" using inv by (simp add: ks_inv_live)
    show ?thesis
    proof (cases "e = Shutdown")
      case True
      then show ?thesis using False by (simp add: shutdown_def ks_inv_def)
    next
      case False
      from live_inv_step [OF l False] show ?thesis by (simp add: ks_inv_def live_inv_def)
    qed
  qed
qed (rule ks_inv_boot)

text \<open>The settings of the concrete runs.\<close>

definition sample_settings :: settings where
  "sample_settings =
     \<lparr>kill_switch = True, disable_private_range_bypass = False, vpn_tun_ipv4_cidr = ''172.18.0.1/24'',
      vpn_tun_ipv6_cidr = ''fdfe:dcba:9877::1/96'', vpn_l3_bridge = False, extra_core_paths = [],
      prepare_exit = False\<rparr>"

lemmas ks_eval =
  boot_ks_def setOverride_def init_ks_def apply_ks_def apply_config_def spawn_def closePending_def
  closeActive_def closeGuard_def setState_def signals_def readOutput_def handleLine_def section_first_def
  section_rest_def onReady_def settle_def settle_one_def whenSettled_def update_guard_def Let_def
  sample_settings_def onReadyTimeout_def armFailed_def fail_def buildConfig_def tunName_def bridgeName_def

text \<open>
  C1. A profile may start only when the user turned the kill switch off or while a guard blocks: in every
  state that any sequence of calls, guard signals and timers leads to before the shutdown, \<open>allowsStart\<close>
  holds exactly when the setting is off or the active guard has reported READY, has not been closed and
  the identity failure is not in force.
\<close>

theorem allowsStart_protected:
  fixes p s overridden es
  defines "k \<equiv> run ks_step (boot_ks p s overridden) es"
  assumes "\<not> k_shutdown k"
  shows "allowsStart k \<longleftrightarrow> \<not> kill_switch (ks k) \<or>
           (\<exists>g. k_active k = Some g \<and> ready (heap k g) \<and> \<not> closing (heap k g) \<and> \<not> k_identityUnsupported k)"
proof -
  have "live_inv k" using ks_history.inv_run [of p s overridden es] assms by (simp add: ks_inv_live)
  then show ?thesis
    by (cases "k_state k") (auto simp: live_inv_def guards_ok_def state_ok_def allowsStart_def)
qed

theorem allowsStart_protected_witness:
  "allowsStart (run ks_step (boot_ks Linux sample_settings False) [Started 0, OutputLines 5 0 [''READY'']])"
proof -
  have "\<not> k_shutdown (run ks_step (boot_ks Linux sample_settings False) [Started 0, OutputLines 5 0 [''READY'']])"
    by (simp add: ks_eval)
  from allowsStart_protected [OF this] show ?thesis by (simp add: ks_eval no_guard_def)
qed

text \<open>
  C2. No caller waits for ever: when the switch is not arming, nobody that asked for a settled state is
  still waiting, and when no guard is pending nobody that asked for an idle switch is; while it is arming,
  a guard is pending with its ready timer running.
\<close>

theorem no_stranded_waiter:
  fixes p s overridden es
  defines "k \<equiv> run ks_step (boot_ks p s overridden) es"
  assumes "\<not> k_shutdown k"
  shows "(k_state k \<noteq> Arming \<longrightarrow> (\<forall>w \<in> set (k_waiters k). idle w)) \<and>
         (k_pending k = None \<longrightarrow> k_waiters k = []) \<and>
         (k_state k = Arming \<longrightarrow> (\<exists>g. k_pending k = Some g \<and> ready_timer (heap k g)))"
proof -
  have "live_inv k" using ks_history.inv_run [of p s overridden es] assms by (simp add: ks_inv_live)
  then have w: "waiters_ok k" and g: "guards_ok k" and st: "state_ok k" by (simp_all add: live_inv_def)
  have "k_waiters k = []" if "k_pending k = None"
  proof (cases "k_waiters k")
    case (Cons x xs)
    with w st that show ?thesis by (cases "idle x") (auto simp: waiters_ok_def state_ok_def)
  qed
  with w g st show ?thesis by (auto simp: waiters_ok_def guards_ok_def state_ok_def)
qed

theorem no_stranded_waiter_witness:
  "k_waiters (run ks_step (boot_ks Linux sample_settings False)
     [WhenSettled None 7, Started 0, OutputLines 5 0 [''READY'']]) = []"
proof -
  have "\<not> k_shutdown (run ks_step (boot_ks Linux sample_settings False)
     [WhenSettled None 7, Started 0, OutputLines 5 0 [''READY'']])"
    by (simp add: ks_eval)
  from no_stranded_waiter [OF this] show ?thesis by (simp add: ks_eval)
qed

end
