(* ===== verification/KillSwitchHandover.thy ===== *)
theory KillSwitchHandover
  imports KillSwitchSafety
begin

text \<open>
  What a change of the settings and a guard that never gets ready do to a running kill switch
  (\<^verbatim>\<open>src/sys/KillSwitch.cpp\<close>): a new configuration is armed beside the guard that blocks, which is closed
  only when its successor is ready, and the ready timer ends the wait of every caller.
\<close>

text \<open>Whom a waiter's answer still reaches.\<close>

definition alive_waiter :: "kswitch \<Rightarrow> Waiter \<Rightarrow> bool" where
  "alive_waiter k w = (case context_of w of Some c \<Rightarrow> c \<notin> dead_contexts k | None \<Rightarrow> True)"

lemma alive_waiter_cong: "dead_contexts k = dead_contexts k' \<Longrightarrow> alive_waiter k = alive_waiter k'"
  by (intro ext) (simp add: alive_waiter_def split: option.split)

lemma fold_settle_all:
  assumes "k_state k \<noteq> Arming" "k_pending k = None"
  shows "fold settle_one ws k =
     k\<lparr>delivered := delivered k @ map (\<lambda>w. (callback w, k_state k = Armed)) (filter (alive_waiter k) ws)\<rparr>"
  using assms
proof (induction ws arbitrary: k)
  case (Cons w ws)
  show ?case
  proof (cases "alive_waiter k w")
    case True
    define k1 where "k1 = k\<lparr>delivered := delivered k @ [(callback w, k_state k = Armed)]\<rparr>"
    have 1: "settle_one w k = k1" using True Cons.prems
      by (cases "context_of w") (simp_all add: settle_one_def alive_waiter_def k1_def)
    have 2: "alive_waiter k1 = alive_waiter k"
      by (rule alive_waiter_cong) (simp add: k1_def)
    from Cons.prems have "k_state k1 \<noteq> Arming" "k_pending k1 = None" by (simp_all add: k1_def)
    from Cons.IH [OF this] True show ?thesis unfolding fold_simps comp_def 1 2
      by (simp add: k1_def)
  next
    case False
    then have "settle_one w k = k" using Cons.prems
      by (cases "context_of w") (simp_all add: settle_one_def alive_waiter_def)
    with False Cons show ?thesis by simp
  qed
qed simp

lemma settle_all:
  assumes "k_state k \<noteq> Arming" "k_pending k = None"
  shows "delivered (settle k) =
     delivered k @ map (\<lambda>w. (callback w, k_state k = Armed)) (filter (alive_waiter k) (k_waiters k))"
proof -
  have "alive_waiter (k\<lparr>k_waiters := []\<rparr>) = alive_waiter k"
    by (rule alive_waiter_cong) simp
  then show ?thesis using assms by (simp add: settle_def fold_settle_all)
qed

lemma spawn_facts:
  assumes "k_active k = Some g" "k_pending k \<noteq> Some g" "g < next_guard k"
  shows "k_state (spawn c k) = k_state k" "k_active (spawn c k) = Some g"
    "k_pending (spawn c k) = Some (next_guard k)" "heap (spawn c k) g = heap k g"
    "guard_config (heap (spawn c k) (next_guard k)) = c" "keep_states (heap (spawn c k) (next_guard k))"
    "k_identityUnsupported (spawn c k) = k_identityUnsupported k"
  using assms by (simp_all add: spawn_def Let_def close_defs)

text \<open>Applying settings while a guard blocks: the guard stays, and the wanted configuration is its own or pending.\<close>

lemma apply_config_armed:
  assumes "live_inv k" "k_active k = Some g"
  shows "k_state (apply_config c k) = k_state k \<and> k_active (apply_config c k) = Some g \<and>
         heap (apply_config c k) g = heap k g \<and>
         (case k_pending (apply_config c k) of
            None \<Rightarrow> guard_config (heap k g) = c
          | Some h \<Rightarrow> h \<noteq> g \<and> guard_config (heap (apply_config c k) h) = c)"
proof -
  have f: "k_pending k \<noteq> Some g" "g < next_guard k"
    using assms by (auto simp: live_inv_def guards_ok_def)
  note s = spawn_facts [OF assms(2) f]
  show ?thesis
  proof (cases "k_pending k")
    case None
    then show ?thesis using assms f s by (auto simp: apply_config_def)
  next
    case (Some h)
    then show ?thesis using assms f s by (auto simp: apply_config_def close_defs)
  qed
qed

lemma onReady_takes_over:
  assumes "live_inv k" "k_state k = Armed" "k_active k = Some g" "k_pending k = Some h"
  shows "k_state (onReady h k) = Armed \<and> k_active (onReady h k) = Some h \<and> k_pending (onReady h k) = None \<and>
         closing (heap (onReady h k) g) \<and> ready (heap (onReady h k) h) \<and> \<not> closing (heap (onReady h k) h)"
proof -
  have "g \<noteq> h" "\<not> ready (heap k h)" "\<not> closing (heap k h)" "\<not> k_identityUnsupported k"
    using assms by (auto simp: live_inv_def guards_ok_def state_ok_def)
  then show ?thesis using assms by (simp add: onReady_def Let_def)
qed

text \<open>
  C3. Changing the settings of an armed kill switch leaves no gap: in every reachable armed state, saving
  settings that keep it on leaves the switch armed by the same, untouched guard; either that guard already
  has the new configuration and none is pending, or a different guard with the new configuration is
  pending, and when that one reports READY it becomes the active guard of a still armed switch while the old
  one is closed.
\<close>

theorem replacement_without_gap:
  fixes p s overridden es
  defines "k \<equiv> run ks_step (boot_ks p s overridden) es"
  assumes "\<not> k_shutdown k" "k_state k = Armed" "k_active k = Some g"
    and "kill_switch s'" "\<not> k_overridden k"
  defines "k' \<equiv> ks_step k (SaveSettings s')"
  shows "k_state k' = Armed \<and> k_active k' = Some g \<and> heap k' g = heap k g \<and>
         (case k_pending k' of
            None \<Rightarrow> guard_config (heap k g) = buildConfig (k\<lparr>ks := s'\<rparr>)
          | Some h \<Rightarrow> h \<noteq> g \<and> guard_config (heap k' h) = buildConfig (k\<lparr>ks := s'\<rparr>) \<and>
              k_state (onReady h k') = Armed \<and> k_active (onReady h k') = Some h \<and>
              closing (heap (onReady h k') g) \<and> \<not> closing (heap (onReady h k') h))"
proof -
  have inv: "live_inv k" using ks_history.inv_run [of p s overridden es] assms by (simp add: ks_inv_live)
  have on: "kill_switch (ks k)" "\<not> k_identityUnsupported k" using inv assms
    by (auto simp: live_inv_def state_ok_def)
  define k1 where "k1 = k\<lparr>ks := s'\<rparr>"
  have inv1: "live_inv k1" using inv on assms unfolding k1_def
    by (simp add: live_inv_def guards_ok_def state_ok_def waiters_ok_def)
  have k': "k' = apply_config (buildConfig k1) k1" using assms on
    by (simp add: k'_def apply_ks_def k1_def Let_def)
  have inv': "live_inv k'" unfolding k'_def by (rule live_inv_step) (simp_all add: inv)
  have a: "k_active k1 = Some g" "k_state k1 = Armed" "heap k1 = heap k" using assms by (simp_all add: k1_def)
  note c = apply_config_armed [OF inv1 a(1), of "buildConfig k1", folded k']
  show ?thesis
    using c a onReady_takes_over [OF inv', of g] by (cases "k_pending k'") (simp_all add: k1_def)
qed

definition private_settings :: settings where
  "private_settings = sample_settings\<lparr>disable_private_range_bypass := True\<rparr>"

theorem replacement_without_gap_witness:
  "k_state (ks_step (run ks_step (boot_ks Linux sample_settings False)
      [Started 0, OutputLines 5 0 [''READY'']]) (SaveSettings private_settings)) = Armed"
proof -
  let ?k = "run ks_step (boot_ks Linux sample_settings False) [Started 0, OutputLines 5 0 [''READY'']]"
  have "\<not> k_shutdown ?k" "k_state ?k = Armed" "k_active ?k = Some 0" "\<not> k_overridden ?k"
    by (simp_all add: ks_eval no_guard_def)
  moreover have "kill_switch private_settings" by (simp add: private_settings_def sample_settings_def)
  ultimately show ?thesis using replacement_without_gap [of Linux sample_settings False _ 0 private_settings]
    by blast
qed

text \<open>
  C4. A guard that does not get ready in time ends the wait of every caller, and never weakens what blocks
  already. In every reachable state with a pending guard, the ready timer of that guard closes it, leaves
  nothing pending, and answers every caller that waits and whose context still exists, in the order in which
  they asked, with whether the switch is then armed. If no guard was in force, the switch is then
  \<open>Failed\<close> with the code ``timeout'' (a failure that a respawn may cure); if an older guard was in force (the
  pending one was to replace it), that guard stays in force untouched, and so does the state. A start is
  allowed afterwards exactly when an older guard is in force and the core could adopt its group.
\<close>

theorem ready_timeout_outcome:
  fixes p s overridden es
  defines "k \<equiv> run ks_step (boot_ks p s overridden) es"
  assumes "\<not> k_shutdown k" "k_pending k = Some g"
  defines "k' \<equiv> ks_step k (ReadyTimeout g)"
  shows "k_pending k' = None \<and> closing (heap k' g) \<and> k_waiters k' = [] \<and>
         delivered k' = delivered k @
           map (\<lambda>w. (callback w, k_state k' = Armed)) (filter (alive_waiter k) (k_waiters k)) \<and>
         (case k_active k of
            None \<Rightarrow> k_active k' = None \<and> k_state k' = Failed \<and> k_failureCode k' = kTimeout \<and>
              \<not> failedPersistently k'
          | Some a \<Rightarrow> k_active k' = Some a \<and> heap k' a = heap k a \<and> k_state k' = k_state k) \<and>
         allowsStart k' = (k_active k \<noteq> None \<and> \<not> k_identityUnsupported k)"
proof -
  have inv: "live_inv k" using ks_history.inv_run [of p s overridden es] assms by (simp add: ks_inv_live)
  have f: "\<not> ready (heap k g)" "k_active k \<noteq> Some g" "g < next_guard k"
    using inv assms by (auto simp: live_inv_def guards_ok_def state_ok_def)
  define m where "m = ''the kill switch did not respond within '' @ show_int (kReadyTimeoutMs div 1000) @
      '' seconds''"
  define k0 where "k0 = closeGuard (Some g) (k\<lparr>k_pending := None\<rparr>)"
  have k': "k' = armFailed kTimeout m k0"
    using f assms(2,3) by (simp add: k'_def onReadyTimeout_def k0_def m_def)
  define k1 where "k1 = (if k_active k = None
    then setState Failed (k0\<lparr>k_failureCode := kTimeout, k_failureMessage := m\<rparr>) else k0)"
  have k1': "k' = settle k1" using k' by (simp add: armFailed_def fail_def k1_def k0_def)
  have [simp]: "dead_contexts k1 = dead_contexts k"
    by (simp add: k1_def k0_def setState_def closeGuard_def update_guard_def)
  then have al: "alive_waiter k1 = alive_waiter k" by (intro alive_waiter_cong) simp
  have k1: "k_pending k1 = None" "delivered k1 = delivered k" "k_waiters k1 = k_waiters k"
    "closing (heap k1 g)" "k_active k1 = k_active k" "k_identityUnsupported k1 = k_identityUnsupported k"
    "k_state k1 = (if k_active k = None then Failed else if k_identityUnsupported k then Failed else Armed)"
    "k_active k = None \<Longrightarrow> k_failureCode k1 = kTimeout"
    "\<And>a. k_active k = Some a \<Longrightarrow> heap k1 a = heap k a"
    using live_facts(5) [OF inv] f(2) by (auto simp: k1_def k0_def close_defs)
  have w: "filter (keeps_waiting k1) (k_waiters k) = []" using k1 by (simp add: keeps_waiting_def)
  have st: "k_active k = Some a \<Longrightarrow> k_state k = (if k_identityUnsupported k then Failed else Armed)" for a
    using live_facts(5) [OF inv] by simp
  note codes = failedPersistently_def kTimeout_def kPrivilege_def kUnsupported_def kConfig_def kOverridden_def
  have "k_state k1 \<noteq> Arming" by (simp add: k1)
  from settle_all [OF this k1(1)] show ?thesis using k1 w al st
    by (cases "k_active k") (simp_all add: k1' allowsStart_def codes)
qed

theorem ready_timeout_outcome_witness:
  "delivered (ks_step (run ks_step (boot_ks MacOS sample_settings False) [WhenSettled None 7, Started 0])
     (ReadyTimeout 0)) = [(7, False)]"
proof -
  let ?k = "run ks_step (boot_ks MacOS sample_settings False) [WhenSettled None 7, Started 0]"
  have k: "\<not> k_shutdown ?k" "k_pending ?k = Some 0" "k_active ?k = None"
    "delivered ?k = []" "k_waiters ?k = [\<lparr>context_of = None, idle = False, callback = 7\<rparr>]"
    by (simp_all add: ks_eval no_guard_def)
  from ready_timeout_outcome [OF k(1,2)] k(3-5) show ?thesis by (simp add: alive_waiter_def)
qed

end
