(* ===== verification/CoreSupervisor.thy ===== *)
theory CoreSupervisor
  imports KillSwitchSafety
begin

text \<open>
  The supervisor of the core process (\<^verbatim>\<open>src/engine/supervisor/CoreSupervisor.cpp\<close>) with the process
  it drives (\<^verbatim>\<open>src/sys/Process.cpp\<close>) and the kill switch it consults. The main thread's handlers
  are one step each; what they post to the DS_cores thread is a queue of tasks, run one per step in
  their order; exit reports, connections, probe answers and timers arrive as events, in any order. A
  generation is a natural number (\<^verbatim>\<open>quint64\<close>, one per spawn). Signals and log-worthy effects are
  collected in \<open>outs\<close>; the slots they reach run as later events. Times are monotonic milliseconds.
  A core's name, environment and pid, and the log output, are not modelled: a connection event comes from
  the core's own pid or not.
\<close>

datatype CoreState = NotStarted | Starting | Connected | Backoff | GaveUp | ListenFailed | ShuttingDown

definition kConnectTimeoutMs :: int where "kConnectTimeoutMs = 20000"
definition kStableMs :: int where "kStableMs = 60 * 1000"
definition kBackoffFirstMs :: int where "kBackoffFirstMs = 500"
definition kBackoffCapMs :: int where "kBackoffCapMs = 30000"
definition kGiveUpAfter :: int where "kGiveUpAfter = 5"
definition kProfileCrashWindowMs :: int where "kProfileCrashWindowMs = 10000"
definition kIntentRestartDelayMs :: int where "kIntentRestartDelayMs = 200"
definition kPrivilegeProbeRetries :: int where "kPrivilegeProbeRetries = 2"
definition kCoreIdentityExitCode :: int where "kCoreIdentityExitCode = 86"
definition NoProfileId :: int where "NoProfileId = -1"

lemmas sup_consts = kConnectTimeoutMs_def kStableMs_def kBackoffFirstMs_def kBackoffCapMs_def
  kGiveUpAfter_def kProfileCrashWindowMs_def kIntentRestartDelayMs_def kPrivilegeProbeRetries_def
  kCoreIdentityExitCode_def NoProfileId_def

record CoreProcess =
  started :: bool
  generation :: nat
  failed_to_start :: bool
  guard_identity :: bool

text \<open>The work done on DS_cores before a restart.\<close>

datatype before = Nothing | StopRunningProfile bool bool bool

datatype core_task =
    SpawnCore
  | KillCore
  | ForceKill
  | ResetKill
  | PrivilegeKill
  | TimeoutKill nat
  | RestartCore before

datatype sup_out =
    RpcConnected
  | CoreStarted int
  | CoreGaveUp string
  | ListenError string
  | StateChanged CoreState
  | CoreExited bool
  | ResumeCancelled
  | StoppedProfile bool bool bool
  | KilledCore nat
  | StartedProbe nat int

record supervisor =
  ksw :: kswitch
  gui :: bool
  os_windows :: bool
  started_id :: int
  core_running :: bool
  server :: bool
  process :: "CoreProcess option"
  restart_timer :: "int option"
  connect_timer :: "int option"
  m_state :: CoreState
  expectedExitGen :: nat
  startWhenUp :: int
  probing :: bool
  failures :: int
  startFailures :: int
  lastCoreError :: string
  lastCoreErrorGen :: nat
  handledExitGen :: nat
  acceptedGen :: nat
  connectGen :: nat
  timedOutGen :: nat
  connectedAt :: "int option"
  profileCrashTimer :: "int option"
  lastFailure :: string
  restartCount :: int
  knownAdmin :: bool
  tasks :: "core_task list"
  outs :: "sup_out list"

definition emit :: "sup_out \<Rightarrow> supervisor \<Rightarrow> supervisor" where
  "emit x s = s\<lparr>outs := outs s @ [x]\<rparr>"

definition runOnCores :: "core_task \<Rightarrow> supervisor \<Rightarrow> supervisor" where
  "runOnCores t s = s\<lparr>tasks := tasks s @ [t]\<rparr>"

definition exiting :: "supervisor \<Rightarrow> bool" where
  "exiting s \<longleftrightarrow> m_state s = ShuttingDown \<or> prepare_exit (ks (ksw s))"

definition canStartCore :: "supervisor \<Rightarrow> bool" where
  "canStartCore s \<longleftrightarrow> m_state s \<noteq> ListenFailed \<and> m_state s \<noteq> ShuttingDown"

definition currentGeneration :: "supervisor \<Rightarrow> nat" where
  "currentGeneration s = (case process s of Some p \<Rightarrow> generation p | None \<Rightarrow> 0)"

definition set_state :: "CoreState \<Rightarrow> supervisor \<Rightarrow> supervisor" where
  "set_state st s = (if m_state s \<noteq> st then emit (StateChanged st) (s\<lparr>m_state := st\<rparr>) else s)"

definition scheduleRestart :: "int \<Rightarrow> supervisor \<Rightarrow> supervisor" where
  "scheduleRestart delayMs s = (set_state Backoff s)\<lparr>restart_timer := Some delayMs\<rparr>"

definition postProcessRestart :: "before \<Rightarrow> supervisor \<Rightarrow> supervisor" where
  "postProcessRestart b s =
     runOnCores (RestartCore b)
       (s\<lparr>handledExitGen := max (handledExitGen s) (currentGeneration s), restartCount := restartCount s + 1\<rparr>)"

definition beginRestart :: "supervisor \<Rightarrow> supervisor" where
  "beginRestart s =
     set_state Starting (s\<lparr>probing := False, restart_timer := None, connect_timer := None, failures := 0,
       startFailures := 0, lastFailure := [], lastCoreError := []\<rparr>)"

text \<open>The restart timer fires: it is single-shot.\<close>

definition postRestart :: "supervisor \<Rightarrow> supervisor" where
  "postRestart s =
     (if m_state s \<noteq> Backoff \<or> exiting s then s
      else postProcessRestart Nothing (set_state Starting s))"

definition restartDeadCore :: "int \<Rightarrow> supervisor \<Rightarrow> supervisor" where
  "restartDeadCore profileId s =
     (if (m_state s \<noteq> Backoff \<and> m_state s \<noteq> GaveUp) \<or> exiting s then s
      else postProcessRestart Nothing ((beginRestart s)\<lparr>startWhenUp := profileId\<rparr>))"

subsection \<open>Starting and stopping\<close>

definition listen :: "string option \<Rightarrow> supervisor \<Rightarrow> supervisor \<times> bool" where
  "listen error s =
     (let s = s\<lparr>server := True\<rparr> in
      case error of
        None \<Rightarrow> (s, True)
      | Some e \<Rightarrow>
          (emit (ListenError e) (set_state ListenFailed
             (s\<lparr>lastFailure := ''Throned could not open the local channel the core connects to ('' @ e @
                  ''), so no profile can start.''\<rparr>)), False))"

definition start :: "int \<Rightarrow> supervisor \<Rightarrow> supervisor" where
  "start startWhenUpProfileId s =
     (if m_state s \<noteq> NotStarted \<or> \<not> server s then s
      else
        (let s = (if 0 \<le> startWhenUpProfileId then s\<lparr>startWhenUp := startWhenUpProfileId\<rparr> else s)
         in runOnCores SpawnCore (set_state Starting s)))"

text \<open>\<^verbatim>\<open>shutdown\<close> waits in a nested loop until the task it posts has run; the server is closed then.\<close>

definition shutdown_sup :: "supervisor \<Rightarrow> supervisor" where
  "shutdown_sup s =
     runOnCores KillCore ((set_state ShuttingDown s)\<lparr>probing := False, restart_timer := None, connect_timer := None\<rparr>)"

definition killForExit :: "supervisor \<Rightarrow> supervisor" where
  "killForExit s =
     runOnCores ForceKill ((set_state ShuttingDown s)\<lparr>probing := False, restart_timer := None, connect_timer := None\<rparr>)"

definition resetCore :: "supervisor \<Rightarrow> supervisor \<times> bool" where
  "resetCore s =
     (if \<not> canStartCore s \<or> exiting s then (s, False)
      else
        (let was = m_state s; s = beginRestart s
         in if was = Backoff \<or> was = GaveUp
            then (postProcessRestart (StopRunningProfile True True True)
                    (s\<lparr>startWhenUp := -1, started_id := NoProfileId\<rparr>), True)
            else (runOnCores ResetKill s, True)))"

definition restartNotListening :: "int \<Rightarrow> supervisor \<Rightarrow> supervisor \<times> bool" where
  "restartNotListening profileId s =
     (if \<not> canStartCore s \<or> exiting s then (s, False)
      else (postProcessRestart Nothing ((beginRestart s)\<lparr>startWhenUp := profileId\<rparr>), True))"

definition restartForGuard :: "supervisor \<Rightarrow> supervisor" where
  "restartForGuard s =
     (if \<not> canStartCore s \<or> exiting s then s
      else postProcessRestart (StopRunningProfile True True False) (beginRestart s))"

text \<open>
  \<^verbatim>\<open>killForPrivilegeChange\<close>: for a dead core it queues \<open>restartDeadCore\<close> of the started profile on the
  main thread, which the answer names.
\<close>

definition killForPrivilegeChange :: "supervisor \<Rightarrow> supervisor \<times> int option" where
  "killForPrivilegeChange s =
     (if m_state s = ListenFailed \<or> m_state s = ShuttingDown then (s, None)
      else if m_state s = Backoff \<or> m_state s = GaveUp then (s, Some (started_id s))
      else (runOnCores PrivilegeKill s, None))"

definition setStartWhenUp :: "int \<Rightarrow> supervisor \<Rightarrow> supervisor \<times> bool" where
  "setStartWhenUp profileId s =
     (let haveCore = (process s \<noteq> None)
      in (if haveCore then s\<lparr>startWhenUp := profileId\<rparr> else s, haveCore))"

definition cancelResume :: "supervisor \<Rightarrow> supervisor" where
  "cancelResume s = emit ResumeCancelled (s\<lparr>startWhenUp := -1, started_id := NoProfileId\<rparr>)"

definition awaitingCoreStarted :: "supervisor \<Rightarrow> bool" where
  "awaitingCoreStarted s = probing s"

definition runningWithoutGuardIdentity :: "supervisor \<Rightarrow> bool" where
  "runningWithoutGuardIdentity s =
     (if os_windows s then False
      else if k_identityUnsupported (ksw s) then False
      else case process s of Some p \<Rightarrow> core_running s \<and> \<not> guard_identity p | None \<Rightarrow> False)"

subsection \<open>The core process\<close>

definition Start :: "kswitch \<Rightarrow> CoreProcess \<Rightarrow> CoreProcess" where
  "Start k p =
     (if started p then p
      else p\<lparr>started := True, generation := generation p + 1, failed_to_start := False,
             guard_identity := kill_switch (ks k) \<and> \<not> k_identityUnsupported k\<rparr>)"

definition Restart :: "kswitch \<Rightarrow> CoreProcess \<Rightarrow> CoreProcess" where
  "Restart k p = Start k (p\<lparr>started := False\<rparr>)"

definition new_process :: CoreProcess where
  "new_process = \<lparr>started = False, generation = 0, failed_to_start = False, guard_identity = False\<rparr>"

definition stop_before :: "before \<Rightarrow> supervisor \<Rightarrow> supervisor" where
  "stop_before b s = (case b of Nothing \<Rightarrow> s | StopRunningProfile x y z \<Rightarrow> emit (StoppedProfile x y z) s)"

definition run_core_task :: "core_task \<Rightarrow> supervisor \<Rightarrow> supervisor" where
  "run_core_task t s =
     (case t of
        SpawnCore \<Rightarrow> s\<lparr>process := Some (Start (ksw s) new_process)\<rparr>
      | RestartCore b \<Rightarrow>
          (case process s of
             None \<Rightarrow> s
           | Some p \<Rightarrow>
               if prepare_exit (ks (ksw s)) then s
               else (stop_before b s)\<lparr>process := Some (Restart (ksw s) p)\<rparr>)
      | KillCore \<Rightarrow> (case process s of None \<Rightarrow> s | Some p \<Rightarrow> emit (KilledCore (generation p)) s)
      | ForceKill \<Rightarrow> (case process s of None \<Rightarrow> s | Some p \<Rightarrow> emit (KilledCore (generation p)) s)
      | ResetKill \<Rightarrow>
          (case process s of
             None \<Rightarrow> s
           | Some p \<Rightarrow>
               emit (KilledCore (generation p))
                 ((emit (StoppedProfile True True True) s)
                    \<lparr>started_id := NoProfileId, expectedExitGen := generation p\<rparr>))
      | PrivilegeKill \<Rightarrow>
          (case process s of
             None \<Rightarrow> s
           | Some p \<Rightarrow> emit (KilledCore (generation p)) (s\<lparr>expectedExitGen := generation p\<rparr>))
      | TimeoutKill g \<Rightarrow>
          (case process s of
             None \<Rightarrow> s
           | Some p \<Rightarrow> if generation p = g then emit (KilledCore g) s else s))"

definition run_next_task :: "supervisor \<Rightarrow> supervisor" where
  "run_next_task s =
     (case tasks s of [] \<Rightarrow> s | t # ts \<Rightarrow> run_core_task t (s\<lparr>tasks := ts\<rparr>))"

text \<open>
  The handlers attached to the process run on DS_cores. The change to \<^verbatim>\<open>NotRunning\<close> answers what it posts to
  the main thread: the generation, whether it failed to start, the exit code and the cause. \<open>cause\<close> is what
  the stderr tail found.
\<close>

definition onNotRunning ::
  "bool \<Rightarrow> bool \<Rightarrow> bool \<Rightarrow> int \<Rightarrow> string \<Rightarrow> string \<Rightarrow> supervisor \<Rightarrow>
     supervisor \<times> (nat \<times> bool \<times> int \<times> string) option" where
  "onNotRunning restarting reachedRunning crashed code errorString cause s =
     (case process s of
        None \<Rightarrow> (s, None)
      | Some p \<Rightarrow>
          (let g = generation p; failed = failed_to_start p;
               exitCode = (if failed \<or> crashed then -1 else code);
               s = s\<lparr>core_running := False\<rparr>
           in if prepare_exit (ks (ksw s)) \<or> restarting then (s, None)
              else
                (let s = (if \<not> failed then emit (StoppedProfile True True False) s else s)
                 in if \<not> failed \<and> \<not> reachedRunning then (s, None)
                    else (s, Some (g, failed, exitCode, if failed then errorString else cause)))))"

definition onFailedToStart ::
  "string \<Rightarrow> supervisor \<Rightarrow> supervisor \<times> (nat \<times> bool \<times> int \<times> string) option" where
  "onFailedToStart errorString s =
     (case process s of
        None \<Rightarrow> (s, None)
      | Some p \<Rightarrow> (s\<lparr>process := Some (p\<lparr>failed_to_start := True\<rparr>)\<rparr>, Some (generation p, True, -1, errorString)))"

text \<open>The rate limit on what the core prints: at most one window's overrun of lines is shown per second.\<close>

record LogWindow =
  logWindowStartMs :: int
  logWindowLines :: int

definition kLogWindowMs :: int where "kLogWindowMs = 1000"

definition log_window :: "int \<Rightarrow> int \<Rightarrow> int \<Rightarrow> LogWindow \<Rightarrow> LogWindow \<times> bool" where
  "log_window now newlines max_log_line w =
     (let w = (if kLogWindowMs \<le> now - logWindowStartMs w
               then \<lparr>logWindowStartMs = now, logWindowLines = 0\<rparr> else w);
          linesBefore = logWindowLines w
      in (w\<lparr>logWindowLines := linesBefore + newlines\<rparr>, \<not> max_log_line < linesBefore))"

subsection \<open>Connecting\<close>

definition emitCoreStarted :: "supervisor \<Rightarrow> supervisor" where
  "emitCoreStarted s =
     (let s = s\<lparr>startFailures := 0\<rparr> in emit (CoreStarted (startWhenUp s)) (s\<lparr>startWhenUp := -1\<rparr>))"

definition startPrivilegeProbe :: "nat \<Rightarrow> int \<Rightarrow> supervisor \<Rightarrow> supervisor" where
  "startPrivilegeProbe g attempt s = emit (StartedProbe g attempt) s"

definition setupRpc :: "supervisor \<Rightarrow> supervisor" where
  "setupRpc s = emit RpcConnected s"

definition onNewConnection :: "int \<Rightarrow> bool \<Rightarrow> supervisor \<Rightarrow> supervisor" where
  "onNewConnection now fromCorePid s =
     (let g = currentGeneration s in
      if process s = None \<or> \<not> fromCorePid then s
      else if g \<le> handledExitGen s \<or> g \<le> timedOutGen s then s
      else
        (let s = (setupRpc s)\<lparr>core_running := True\<rparr> in
         if exiting s then s
         else
           (let s = (if acceptedGen s < g then s\<lparr>acceptedGen := g, connectedAt := Some now\<rparr> else s);
                s = set_state Connected (s\<lparr>connect_timer := None\<rparr>)
            in if os_windows s then emitCoreStarted s
               else startPrivilegeProbe (acceptedGen s) 0 (s\<lparr>probing := True\<rparr>))))"

text \<open>The answer also tells whether a retry is scheduled; \<open>connected\<close> is the state of the RPC channel.\<close>

definition onPrivilegeProbed :: "nat \<Rightarrow> bool \<Rightarrow> bool \<Rightarrow> int \<Rightarrow> bool \<Rightarrow> supervisor \<Rightarrow> supervisor \<times> bool" where
  "onPrivilegeProbed g ok privileged attempt connected s =
     (if (attempt = 0 \<and> \<not> probing s) \<or> g \<noteq> acceptedGen s \<or> m_state s \<noteq> Connected \<or> exiting s then (s, False)
      else if \<not> ok \<and> \<not> connected then (s, False)
      else
        (let s = (if ok then s\<lparr>knownAdmin := privileged\<rparr> else s);
             retry = (\<not> ok \<and> attempt < kPrivilegeProbeRetries)
         in if 0 < attempt then (s, retry)
            else (emitCoreStarted (s\<lparr>probing := False\<rparr>), retry)))"

definition probeRetryTimer :: "nat \<Rightarrow> int \<Rightarrow> supervisor \<Rightarrow> supervisor" where
  "probeRetryTimer g attempt s =
     (if g = acceptedGen s \<and> m_state s = Connected \<and> \<not> exiting s
      then startPrivilegeProbe g (attempt + 1) s else s)"

definition onCoreSpawned :: "nat \<Rightarrow> supervisor \<Rightarrow> supervisor" where
  "onCoreSpawned g s =
     (if m_state s \<noteq> Starting \<or> g \<le> acceptedGen s \<or> exiting s then s
      else s\<lparr>connectGen := g, connect_timer := Some kConnectTimeoutMs\<rparr>)"

definition onConnectTimeout :: "supervisor \<Rightarrow> supervisor" where
  "onConnectTimeout s =
     (if m_state s \<noteq> Starting \<or> exiting s then s
      else
        (let g = connectGen s in
         if g \<le> acceptedGen s \<or> g \<noteq> currentGeneration s then s
         else runOnCores (TimeoutKill g) (s\<lparr>timedOutGen := g\<rparr>)))"

subsection \<open>Exits\<close>

definition string_prefix :: "string \<Rightarrow> string \<Rightarrow> bool" where
  "string_prefix p s = prefix p s"

definition isPanicLine :: "string \<Rightarrow> bool" where
  "isPanicLine line \<longleftrightarrow>
     string_prefix ''Core panicked:'' line \<or> string_prefix ''panic:'' line \<or> string_prefix ''fatal error:'' line"

definition noteCoreError :: "nat \<Rightarrow> string \<Rightarrow> supervisor \<Rightarrow> supervisor" where
  "noteCoreError g line s =
     (if g \<le> handledExitGen s \<or> g < lastCoreErrorGen s \<or> expectedExitGen s = g then s
      else s\<lparr>lastCoreErrorGen := g,
             lastCoreError := (if g = timedOutGen s \<and> \<not> isPanicLine line
                               then ''did not connect within '' @ show_int (kConnectTimeoutMs div 1000) @ '' s''
                               else line)\<rparr>)"

text \<open>Whether this exit of a connected core follows the last one within the crash window.\<close>

definition crash_window :: "int \<Rightarrow> supervisor \<Rightarrow> supervisor \<times> bool" where
  "crash_window now s =
     (case profileCrashTimer s of
        None \<Rightarrow> (s\<lparr>profileCrashTimer := Some now\<rparr>, False)
      | Some t \<Rightarrow>
          if now - t < kProfileCrashWindowMs then (s\<lparr>profileCrashTimer := None\<rparr>, True)
          else (s\<lparr>profileCrashTimer := Some now\<rparr>, False))"

definition count_failure :: "int \<Rightarrow> bool \<Rightarrow> supervisor \<Rightarrow> supervisor" where
  "count_failure now wasConnected s =
     (let s = (if wasConnected \<and> (case connectedAt s of Some t \<Rightarrow> kStableMs \<le> now - t | None \<Rightarrow> False)
               then s\<lparr>failures := 0\<rparr> else s);
          s = s\<lparr>failures := failures s + 1\<rparr>
      in if \<not> wasConnected then s\<lparr>startFailures := startFailures s + 1\<rparr> else s)"

definition choose_resume :: "bool \<Rightarrow> bool \<Rightarrow> supervisor \<Rightarrow> supervisor" where
  "choose_resume wasConnected tooFrequent s =
     (if wasConnected \<or> startWhenUp s < 0 then
        if tooFrequent \<and> 0 \<le> started_id s then s\<lparr>startWhenUp := -1, started_id := NoProfileId\<rparr>
        else s\<lparr>startWhenUp := started_id s\<rparr>
      else s)"

definition giveUpReason :: "nat \<Rightarrow> bool \<Rightarrow> supervisor \<Rightarrow> string" where
  "giveUpReason g wasConnected s =
     (if gui s then ''The core keeps exiting, so it is no longer restarted. Use Restart Core to try again.''
      else (if \<not> wasConnected \<and> kGiveUpAfter \<le> startFailures s
            then ''the core exited '' @ show_int (startFailures s) @ '' times without connecting''
            else ''the core kept exiting'') @
           (if lastCoreErrorGen s = g \<and> lastCoreError s \<noteq> [] then ''; last error: '' @ lastCoreError s else []))"

definition backoff_delay :: "int \<Rightarrow> int" where
  "backoff_delay n = min (kBackoffFirstMs * 2 ^ nat (min (n - 1) 6)) kBackoffCapMs"

definition gives_up :: "bool \<Rightarrow> supervisor \<Rightarrow> bool" where
  "gives_up wasConnected s \<longleftrightarrow>
     (kGiveUpAfter \<le> failures s \<and> startWhenUp s < 0) \<or> (\<not> wasConnected \<and> kGiveUpAfter \<le> startFailures s)"

definition unexpected_exit :: "int \<Rightarrow> nat \<Rightarrow> bool \<Rightarrow> supervisor \<Rightarrow> supervisor" where
  "unexpected_exit now g wasConnected s =
     (let s = count_failure now wasConnected s;
          (s, tooFrequent) = (if wasConnected then crash_window now s else (s, False));
          s = emit (CoreExited wasConnected) (choose_resume wasConnected tooFrequent s)
      in if gives_up wasConnected s then
           (let s = s\<lparr>startWhenUp := -1, started_id := NoProfileId\<rparr>;
                s = set_state GaveUp (s\<lparr>lastFailure := giveUpReason g wasConnected s\<rparr>)
            in emit (CoreGaveUp (lastFailure s)) s)
         else scheduleRestart (backoff_delay (failures s)) s)"

definition identity_exit :: "nat \<Rightarrow> supervisor \<Rightarrow> supervisor" where
  "identity_exit g s =
     (let detail = (if lastCoreErrorGen s = g \<and> lastCoreError s \<noteq> [] then lastCoreError s
                    else ''kill switch: cannot adopt the guard group'')
      in scheduleRestart kIntentRestartDelayMs (s\<lparr>ksw := noteIdentityUnsupported detail (ksw s)\<rparr>))"

definition expected_exit :: "bool \<Rightarrow> supervisor \<Rightarrow> supervisor" where
  "expected_exit wasProbing s =
     (let s = s\<lparr>failures := 0, startFailures := 0\<rparr>;
          s = (if \<not> wasProbing \<or> startWhenUp s < 0 then s\<lparr>startWhenUp := started_id s\<rparr> else s)
      in scheduleRestart kIntentRestartDelayMs s)"

definition onCoreExited :: "int \<Rightarrow> nat \<Rightarrow> bool \<Rightarrow> int \<Rightarrow> supervisor \<Rightarrow> supervisor" where
  "onCoreExited now g failedToStart exitCode s =
     (if g \<le> handledExitGen s then s
      else
        (let s = s\<lparr>handledExitGen := g\<rparr>;
             wasProbing = (probing s \<and> g = acceptedGen s);
             s = (if wasProbing then s\<lparr>probing := False\<rparr> else s)
         in if exiting s then s
            else
              (let s = s\<lparr>connect_timer := None\<rparr>
               in if expectedExitGen s = g then expected_exit wasProbing s
                  else
                    (let wasConnected = (\<not> failedToStart \<and> g = acceptedGen s \<and> \<not> wasProbing)
                     in if \<not> wasConnected \<and> exitCode = kCoreIdentityExitCode \<and> \<not> k_identityUnsupported (ksw s)
                        then identity_exit g s
                        else unexpected_exit now g wasConnected s))))"

subsection \<open>Events\<close>

text \<open>
  \<open>Listen\<close> happens once, at the boot (\<^verbatim>\<open>EngineHost\<close>). \<open>PrepareExit\<close> is the exit that begins (\<^verbatim>\<open>prepare_exit\<close>, never taken back); \<open>Switch\<close> is an event of the
  kill switch, whose settings keep that flag. \<open>ProfileStarted\<close> stands for whoever writes the setting
  \<^verbatim>\<open>started_id\<close>.
\<close>

datatype sup_event =
    Listen "string option"
  | Begin int
  | ShutdownSup
  | KillForExit
  | ResetCore
  | RestartNotListening int
  | RestartForGuard
  | KillForPrivilegeChange
  | RestartDeadCore int
  | SetStartWhenUp int
  | CancelResume
  | NewConnection int bool
  | PrivilegeProbed nat bool bool int bool
  | ProbeRetryTimer nat int
  | CoreSpawned nat
  | ConnectTimeout
  | ExitReport int nat bool int string
  | RestartTimer
  | CoreTask
  | CoreNotRunning bool bool bool int string string
  | CoreFailedToStart string
  | PrepareExit
  | Switch ks_event
  | ProfileStarted int

fun keep_prepare_exit :: "kswitch \<Rightarrow> ks_event \<Rightarrow> ks_event" where
  "keep_prepare_exit k (SaveSettings s) = SaveSettings (s\<lparr>prepare_exit := prepare_exit (ks k)\<rparr>)"
| "keep_prepare_exit k e = e"

fun sup_step :: "supervisor \<Rightarrow> sup_event \<Rightarrow> supervisor" where
  "sup_step s (Listen e) = (if server s then s else fst (listen e s))"
| "sup_step s (Begin p) = start p s"
| "sup_step s ShutdownSup = shutdown_sup s"
| "sup_step s KillForExit = killForExit s"
| "sup_step s ResetCore = fst (resetCore s)"
| "sup_step s (RestartNotListening p) = fst (restartNotListening p s)"
| "sup_step s RestartForGuard = restartForGuard s"
| "sup_step s KillForPrivilegeChange = fst (killForPrivilegeChange s)"
| "sup_step s (RestartDeadCore p) = restartDeadCore p s"
| "sup_step s (SetStartWhenUp p) = fst (setStartWhenUp p s)"
| "sup_step s CancelResume = cancelResume s"
| "sup_step s (NewConnection now c) = onNewConnection now c s"
| "sup_step s (PrivilegeProbed g ok p a c) = fst (onPrivilegeProbed g ok p a c s)"
| "sup_step s (ProbeRetryTimer g a) = probeRetryTimer g a s"
| "sup_step s (CoreSpawned g) = onCoreSpawned g s"
| "sup_step s ConnectTimeout = (if connect_timer s = None then s else onConnectTimeout (s\<lparr>connect_timer := None\<rparr>))"
| "sup_step s (ExitReport now g f c l) = onCoreExited now g f c (noteCoreError g l s)"
| "sup_step s RestartTimer = (if restart_timer s = None then s else postRestart (s\<lparr>restart_timer := None\<rparr>))"
| "sup_step s CoreTask = run_next_task s"
| "sup_step s (CoreNotRunning r x c code e l) = fst (onNotRunning r x c code e l s)"
| "sup_step s (CoreFailedToStart e) = fst (onFailedToStart e s)"
| "sup_step s PrepareExit = s\<lparr>ksw := (ksw s)\<lparr>ks := (ks (ksw s))\<lparr>prepare_exit := True\<rparr>\<rparr>\<rparr>"
| "sup_step s (Switch e) = s\<lparr>ksw := ks_step (ksw s) (keep_prepare_exit (ksw s) e)\<rparr>"
| "sup_step s (ProfileStarted p) = s\<lparr>started_id := p\<rparr>"

definition init_sup :: "kswitch \<Rightarrow> bool \<Rightarrow> bool \<Rightarrow> int \<Rightarrow> supervisor" where
  "init_sup k g win sid =
     \<lparr>ksw = k, gui = g, os_windows = win, started_id = sid, core_running = False, server = False,
      process = None, restart_timer = None, connect_timer = None, m_state = NotStarted,
      expectedExitGen = 0, startWhenUp = -1, probing = False, failures = 0, startFailures = 0,
      lastCoreError = [], lastCoreErrorGen = 0, handledExitGen = 0, acceptedGen = 0, connectGen = 0,
      timedOutGen = 0, connectedAt = None, profileCrashTimer = None, lastFailure = [], restartCount = 0,
      knownAdmin = False, tasks = [], outs = []\<rparr>"

end
