(* ===== verification/CoreSupervisorSafety.thy ===== *)
theory CoreSupervisorSafety
  imports CoreSupervisor
begin

text \<open>
  What the supervisor guarantees over every history of events: an exit is counted at most once, a restart
  waits between 0.2 and 30 seconds, an exit of the program stops every restart, and the identity failure of
  the kill switch is handled once.
\<close>

section \<open>Frames\<close>

lemma emit_fields [simp]:
  "ksw (emit x s) = ksw s" "started_id (emit x s) = started_id s" "process (emit x s) = process s"
  "restart_timer (emit x s) = restart_timer s" "connect_timer (emit x s) = connect_timer s"
  "m_state (emit x s) = m_state s" "expectedExitGen (emit x s) = expectedExitGen s"
  "startWhenUp (emit x s) = startWhenUp s" "probing (emit x s) = probing s" "failures (emit x s) = failures s"
  "startFailures (emit x s) = startFailures s" "handledExitGen (emit x s) = handledExitGen s"
  "acceptedGen (emit x s) = acceptedGen s" "timedOutGen (emit x s) = timedOutGen s"
  "tasks (emit x s) = tasks s" "outs (emit x s) = outs s @ [x]" "lastFailure (emit x s) = lastFailure s"
  "os_windows (emit x s) = os_windows s" "server (emit x s) = server s" "connectGen (emit x s) = connectGen s"
  "profileCrashTimer (emit x s) = profileCrashTimer s" "lastCoreErrorGen (emit x s) = lastCoreErrorGen s"
  "connectedAt (emit x s) = connectedAt s" "gui (emit x s) = gui s"
  by (simp_all add: emit_def)

lemma set_state_fields [simp]:
  "ksw (set_state x s) = ksw s" "started_id (set_state x s) = started_id s" "process (set_state x s) = process s"
  "restart_timer (set_state x s) = restart_timer s" "connect_timer (set_state x s) = connect_timer s"
  "m_state (set_state x s) = x" "expectedExitGen (set_state x s) = expectedExitGen s"
  "startWhenUp (set_state x s) = startWhenUp s" "probing (set_state x s) = probing s"
  "failures (set_state x s) = failures s" "startFailures (set_state x s) = startFailures s"
  "handledExitGen (set_state x s) = handledExitGen s" "acceptedGen (set_state x s) = acceptedGen s"
  "timedOutGen (set_state x s) = timedOutGen s" "tasks (set_state x s) = tasks s"
  "lastFailure (set_state x s) = lastFailure s" "os_windows (set_state x s) = os_windows s"
  "server (set_state x s) = server s" "connectGen (set_state x s) = connectGen s"
  "profileCrashTimer (set_state x s) = profileCrashTimer s" "connectedAt (set_state x s) = connectedAt s"
  "lastCoreErrorGen (set_state x s) = lastCoreErrorGen s" "gui (set_state x s) = gui s"
  by (simp_all add: set_state_def)

lemma stop_before_fields [simp]:
  "ksw (stop_before b s) = ksw s" "process (stop_before b s) = process s"
  "restart_timer (stop_before b s) = restart_timer s" "m_state (stop_before b s) = m_state s"
  "handledExitGen (stop_before b s) = handledExitGen s" "tasks (stop_before b s) = tasks s"
  "startWhenUp (stop_before b s) = startWhenUp s" "startFailures (stop_before b s) = startFailures s"
  "failures (stop_before b s) = failures s" "acceptedGen (stop_before b s) = acceptedGen s"
  "expectedExitGen (stop_before b s) = expectedExitGen s" "connect_timer (stop_before b s) = connect_timer s"
  "probing (stop_before b s) = probing s" "started_id (stop_before b s) = started_id s"
  by (cases b; simp add: stop_before_def)+

lemma scheduleRestart_fields [simp]:
  "m_state (scheduleRestart d s) = Backoff" "restart_timer (scheduleRestart d s) = Some d"
  "handledExitGen (scheduleRestart d s) = handledExitGen s" "ksw (scheduleRestart d s) = ksw s"
  "tasks (scheduleRestart d s) = tasks s" "startWhenUp (scheduleRestart d s) = startWhenUp s"
  "failures (scheduleRestart d s) = failures s" "startFailures (scheduleRestart d s) = startFailures s"
  "process (scheduleRestart d s) = process s" "acceptedGen (scheduleRestart d s) = acceptedGen s"
  "expectedExitGen (scheduleRestart d s) = expectedExitGen s" "started_id (scheduleRestart d s) = started_id s"
  "probing (scheduleRestart d s) = probing s" "connect_timer (scheduleRestart d s) = connect_timer s"
  by (simp_all add: scheduleRestart_def)

lemma note_fields [simp]:
  "ksw (noteCoreError g l s) = ksw s" "m_state (noteCoreError g l s) = m_state s"
  "restart_timer (noteCoreError g l s) = restart_timer s" "tasks (noteCoreError g l s) = tasks s"
  "handledExitGen (noteCoreError g l s) = handledExitGen s" "acceptedGen (noteCoreError g l s) = acceptedGen s"
  "probing (noteCoreError g l s) = probing s" "expectedExitGen (noteCoreError g l s) = expectedExitGen s"
  "startWhenUp (noteCoreError g l s) = startWhenUp s" "failures (noteCoreError g l s) = failures s"
  "startFailures (noteCoreError g l s) = startFailures s" "process (noteCoreError g l s) = process s"
  "started_id (noteCoreError g l s) = started_id s" "connectedAt (noteCoreError g l s) = connectedAt s"
  "connect_timer (noteCoreError g l s) = connect_timer s"
  "profileCrashTimer (noteCoreError g l s) = profileCrashTimer s" "outs (noteCoreError g l s) = outs s"
  "exiting (noteCoreError g l s) = exiting s"
  by (simp_all add: noteCoreError_def exiting_def)

lemma count_failure_fields [simp]:
  "ksw (count_failure now c s) = ksw s" "m_state (count_failure now c s) = m_state s"
  "restart_timer (count_failure now c s) = restart_timer s" "tasks (count_failure now c s) = tasks s"
  "handledExitGen (count_failure now c s) = handledExitGen s" "process (count_failure now c s) = process s"
  "startWhenUp (count_failure now c s) = startWhenUp s" "started_id (count_failure now c s) = started_id s"
  "acceptedGen (count_failure now c s) = acceptedGen s" "outs (count_failure now c s) = outs s"
  "startFailures (count_failure now c s) = (if c then startFailures s else startFailures s + 1)"
  "probing (count_failure now c s) = probing s" "profileCrashTimer (count_failure now c s) = profileCrashTimer s"
  by (simp_all add: count_failure_def Let_def)

lemma choose_resume_fields [simp]:
  "ksw (choose_resume c t s) = ksw s" "m_state (choose_resume c t s) = m_state s"
  "restart_timer (choose_resume c t s) = restart_timer s" "tasks (choose_resume c t s) = tasks s"
  "handledExitGen (choose_resume c t s) = handledExitGen s" "failures (choose_resume c t s) = failures s"
  "startFailures (choose_resume c t s) = startFailures s" "process (choose_resume c t s) = process s"
  "acceptedGen (choose_resume c t s) = acceptedGen s" "outs (choose_resume c t s) = outs s"
  "probing (choose_resume c t s) = probing s"
  by (simp_all add: choose_resume_def)

text \<open>What an exit that counts leads to.\<close>

definition counted :: "int \<Rightarrow> bool \<Rightarrow> supervisor \<Rightarrow> supervisor" where
  "counted now wasConnected s =
     (let s = count_failure now wasConnected s;
          (s, tooFrequent) = (if wasConnected then crash_window now s else (s, False))
      in emit (CoreExited wasConnected) (choose_resume wasConnected tooFrequent s))"

lemma crash_window_fields [simp]:
  "ksw (fst (crash_window now s)) = ksw s" "m_state (fst (crash_window now s)) = m_state s"
  "restart_timer (fst (crash_window now s)) = restart_timer s" "tasks (fst (crash_window now s)) = tasks s"
  "handledExitGen (fst (crash_window now s)) = handledExitGen s" "failures (fst (crash_window now s)) = failures s"
  "startFailures (fst (crash_window now s)) = startFailures s" "process (fst (crash_window now s)) = process s"
  "startWhenUp (fst (crash_window now s)) = startWhenUp s" "started_id (fst (crash_window now s)) = started_id s"
  "acceptedGen (fst (crash_window now s)) = acceptedGen s" "outs (fst (crash_window now s)) = outs s"
  "probing (fst (crash_window now s)) = probing s"
  by (simp_all add: crash_window_def split: option.split)

lemma counted_fields [simp]:
  "ksw (counted now c s) = ksw s" "m_state (counted now c s) = m_state s"
  "restart_timer (counted now c s) = restart_timer s" "tasks (counted now c s) = tasks s"
  "handledExitGen (counted now c s) = handledExitGen s" "process (counted now c s) = process s"
  "startFailures (counted now c s) = (if c then startFailures s else startFailures s + 1)"
  "failures (counted now c s) = failures (count_failure now c s)"
  "acceptedGen (counted now c s) = acceptedGen s" "probing (counted now c s) = probing s"
  "outs (counted now c s) = outs s @ [CoreExited c]"
  by (simp_all add: counted_def Let_def split_beta)

lemma unexpected_exit_alt:
  "unexpected_exit now g c s =
     (let s = counted now c s in
      if gives_up c s then
        (let s = s\<lparr>startWhenUp := -1, started_id := NoProfileId\<rparr>;
             s = set_state GaveUp (s\<lparr>lastFailure := giveUpReason g c s\<rparr>)
         in emit (CoreGaveUp (lastFailure s)) s)
      else scheduleRestart (backoff_delay (failures s)) s)"
  by (simp add: unexpected_exit_def counted_def Let_def split_beta)

lemma unexpected_exit_fields [simp]:
  "ksw (unexpected_exit now g c s) = ksw s" "tasks (unexpected_exit now g c s) = tasks s"
  "handledExitGen (unexpected_exit now g c s) = handledExitGen s"
  "process (unexpected_exit now g c s) = process s"
  by (simp_all add: unexpected_exit_alt Let_def)

lemma expected_exit_fields [simp]:
  "ksw (expected_exit w s) = ksw s" "tasks (expected_exit w s) = tasks s"
  "handledExitGen (expected_exit w s) = handledExitGen s" "process (expected_exit w s) = process s"
  "m_state (expected_exit w s) = Backoff" "restart_timer (expected_exit w s) = Some kIntentRestartDelayMs"
  by (simp_all add: expected_exit_def Let_def)

lemma identity_exit_fields [simp]:
  "tasks (identity_exit g s) = tasks s" "handledExitGen (identity_exit g s) = handledExitGen s"
  "process (identity_exit g s) = process s" "m_state (identity_exit g s) = Backoff"
  "restart_timer (identity_exit g s) = Some kIntentRestartDelayMs" "failures (identity_exit g s) = failures s"
  "startFailures (identity_exit g s) = startFailures s"
  by (simp_all add: identity_exit_def Let_def)

section \<open>An exit is counted at most once\<close>

lemma handled_onCoreExited:
  "handledExitGen (onCoreExited now g f c s) = max (handledExitGen s) g"
  by (simp add: onCoreExited_def Let_def max_def)

lemma stale_exit: "g \<le> handledExitGen s \<Longrightarrow> onCoreExited now g f c (noteCoreError g l s) = s"
  by (simp add: onCoreExited_def noteCoreError_def)

lemma handled_task: "handledExitGen (run_core_task t s) = handledExitGen s"
  by (simp add: run_core_task_def split: core_task.split option.split)

lemmas restart_defs = postProcessRestart_def beginRestart_def runOnCores_def Let_def

lemma handled_mono: "handledExitGen s \<le> handledExitGen (sup_step s e)"
proof (cases e)
  case (ExitReport now g f c l)
  then show ?thesis by (simp add: handled_onCoreExited)
next
  case CoreTask
  then show ?thesis by (simp add: run_next_task_def handled_task split: list.split)
next
  case (NewConnection now c)
  then show ?thesis by (simp add: onNewConnection_def setupRpc_def startPrivilegeProbe_def emitCoreStarted_def Let_def)
next
  case (CoreNotRunning r x c code e l)
  then show ?thesis by (simp add: onNotRunning_def Let_def split: option.split)
next
  case (CoreFailedToStart e)
  then show ?thesis by (simp add: onFailedToStart_def split: option.split)
next
  case (Listen err)
  then show ?thesis by (cases err) (simp_all add: listen_def Let_def)
qed (simp_all add: start_def shutdown_sup_def killForExit_def resetCore_def restartNotListening_def
    restartForGuard_def killForPrivilegeChange_def restartDeadCore_def setStartWhenUp_def cancelResume_def
    onPrivilegeProbed_def emitCoreStarted_def probeRetryTimer_def startPrivilegeProbe_def onCoreSpawned_def
    onConnectTimeout_def postRestart_def restart_defs)

lemma handled_mono_run: "handledExitGen s \<le> handledExitGen (run sup_step s es)"
proof (induction es arbitrary: s)
  case (Cons e es)
  from Cons [of "sup_step s e"] handled_mono [of s e] show ?case by simp
qed simp

text \<open>
  C5. An exit is counted at most once: once the exit of a generation was reported, any later report about
  that core or an older one, from whichever handler and after whatever else happened in between, changes
  nothing.
\<close>

theorem exit_counted_once:
  assumes "h \<le> g"
  shows "sup_step (run sup_step (sup_step s (ExitReport now g failed code line)) es)
            (ExitReport now' h failed' code' line') =
         run sup_step (sup_step s (ExitReport now g failed code line)) es"
proof -
  define s1 where "s1 = sup_step s (ExitReport now g failed code line)"
  have "g \<le> handledExitGen s1" by (simp add: s1_def handled_onCoreExited)
  then have "h \<le> handledExitGen (run sup_step s1 es)"
    using assms handled_mono_run [of s1 es] by simp
  then show ?thesis unfolding s1_def [symmetric] by (simp add: stale_exit)
qed

theorem exit_counted_once_witness:
  "sup_step (run sup_step (sup_step (init_sup (boot_ks Linux sample_settings False) False False 4)
      (ExitReport 100 2 False 1 ''panic: x'')) [RestartTimer, CoreTask]) (ExitReport 110 2 True (-1) ''late'') =
   run sup_step (sup_step (init_sup (boot_ks Linux sample_settings False) False False 4)
      (ExitReport 100 2 False 1 ''panic: x'')) [RestartTimer, CoreTask]"
  using exit_counted_once [of 2 2] by blast

section \<open>A dead core comes back\<close>

definition delay_ok :: "int \<Rightarrow> bool" where
  "delay_ok d \<longleftrightarrow> kIntentRestartDelayMs \<le> d \<and> d \<le> kBackoffCapMs"

definition backoff_inv :: "supervisor \<Rightarrow> bool" where
  "backoff_inv s \<longleftrightarrow>
     (\<forall>d. restart_timer s = Some d \<longrightarrow> delay_ok d) \<and>
     (m_state s = Backoff \<longrightarrow> \<not> exiting s \<longrightarrow> restart_timer s \<noteq> None) \<and>
     0 \<le> failures s"

lemma delay_ok_intent [simp]: "delay_ok kIntentRestartDelayMs"
  by (simp add: delay_ok_def sup_consts)

lemma backoff_delay_ok: "1 \<le> n \<Longrightarrow> delay_ok (backoff_delay n)"
proof -
  have "(1::int) \<le> 2 ^ nat (min (n - 1) 6)" by simp
  then show ?thesis by (simp add: delay_ok_def backoff_delay_def sup_consts del: one_le_power)
qed

lemma failures_count: "0 \<le> failures s \<Longrightarrow> 1 \<le> failures (count_failure now c s)"
  by (simp add: count_failure_def Let_def)

lemma backoff_inv_frame:
  assumes "backoff_inv s" "restart_timer s' = restart_timer s" "m_state s' = m_state s" "failures s' = failures s"
    "exiting s' = exiting s"
  shows "backoff_inv s'"
  using assms by (simp add: backoff_inv_def)

lemma backoff_inv_off:
  assumes "m_state s \<noteq> Backoff" "restart_timer s = None \<or> restart_timer s = restart_timer s0" "backoff_inv s0"
    "0 \<le> failures s"
  shows "backoff_inv s"
  using assms by (auto simp: backoff_inv_def)

lemma backoff_inv_schedule: "delay_ok d \<Longrightarrow> 0 \<le> failures s \<Longrightarrow> backoff_inv (scheduleRestart d s)"
  by (simp add: backoff_inv_def)

lemma backoff_inv_unexpected:
  assumes "backoff_inv s"
  shows "backoff_inv (unexpected_exit now g c s)"
proof -
  have f: "1 \<le> failures (count_failure now c s)" using assms by (intro failures_count) (simp add: backoff_inv_def)
  show ?thesis
  proof (cases "gives_up c (counted now c s)")
    case True
    then show ?thesis using f
      by (intro backoff_inv_off [OF _ _ assms]) (simp_all add: unexpected_exit_alt Let_def)
  next
    case False
    then show ?thesis using f backoff_delay_ok
      by (simp add: unexpected_exit_alt Let_def backoff_inv_schedule)
  qed
qed

text \<open>An exit after its bookkeeping.\<close>

definition settled_exit :: "int \<Rightarrow> nat \<Rightarrow> bool \<Rightarrow> int \<Rightarrow> bool \<Rightarrow> supervisor \<Rightarrow> supervisor" where
  "settled_exit now g failedToStart exitCode wasProbing s =
     (if expectedExitGen s = g then expected_exit wasProbing s
      else
        (let wasConnected = (\<not> failedToStart \<and> g = acceptedGen s \<and> \<not> wasProbing)
         in if \<not> wasConnected \<and> exitCode = kCoreIdentityExitCode \<and> \<not> k_identityUnsupported (ksw s)
            then identity_exit g s
            else unexpected_exit now g wasConnected s))"

definition noted_exit :: "nat \<Rightarrow> supervisor \<Rightarrow> supervisor" where
  "noted_exit g s = s\<lparr>handledExitGen := g, probing := (probing s \<and> g \<noteq> acceptedGen s)\<rparr>"

lemma noted_exit_alt:
  "(if probing (s\<lparr>handledExitGen := g\<rparr>) \<and> g = acceptedGen (s\<lparr>handledExitGen := g\<rparr>)
    then s\<lparr>handledExitGen := g, probing := False\<rparr> else s\<lparr>handledExitGen := g\<rparr>) = noted_exit g s"
  by (cases s) (auto simp: noted_exit_def)

lemma handled_update:
  "probing (s\<lparr>handledExitGen := g\<rparr>) = probing s" "acceptedGen (s\<lparr>handledExitGen := g\<rparr>) = acceptedGen s"
  by simp_all

lemma onCoreExited_alt:
  "onCoreExited now g f c s =
     (if g \<le> handledExitGen s then s
      else if exiting (noted_exit g s) then noted_exit g s
      else settled_exit now g f c (probing s \<and> g = acceptedGen s) ((noted_exit g s)\<lparr>connect_timer := None\<rparr>))"
  unfolding onCoreExited_def Let_def noted_exit_alt settled_exit_def by (simp only: handled_update)

lemma noted_exit_fields [simp]:
  "ksw (noted_exit g s) = ksw s" "m_state (noted_exit g s) = m_state s"
  "restart_timer (noted_exit g s) = restart_timer s" "tasks (noted_exit g s) = tasks s"
  "failures (noted_exit g s) = failures s" "startFailures (noted_exit g s) = startFailures s"
  "startWhenUp (noted_exit g s) = startWhenUp s" "started_id (noted_exit g s) = started_id s"
  "acceptedGen (noted_exit g s) = acceptedGen s" "process (noted_exit g s) = process s"
  "expectedExitGen (noted_exit g s) = expectedExitGen s" "handledExitGen (noted_exit g s) = g"
  "outs (noted_exit g s) = outs s" "connectedAt (noted_exit g s) = connectedAt s"
  "exiting (noted_exit g s) = exiting s" "profileCrashTimer (noted_exit g s) = profileCrashTimer s"
  by (simp_all add: noted_exit_def exiting_def)

lemma backoff_inv_settled_exit:
  assumes "backoff_inv s"
  shows "backoff_inv (settled_exit now g f c w s)"
proof -
  have e: "backoff_inv (expected_exit w s)"
    by (simp add: expected_exit_def Let_def backoff_inv_schedule)
  have i: "backoff_inv (identity_exit g s)"
    using assms by (simp add: identity_exit_def Let_def backoff_inv_schedule) (simp add: backoff_inv_def)
  show ?thesis using e i backoff_inv_unexpected [OF assms] by (simp add: settled_exit_def Let_def)
qed

lemma backoff_inv_exit:
  assumes "backoff_inv s"
  shows "backoff_inv (onCoreExited now g f c s)"
proof -
  have "backoff_inv (noted_exit g s)" by (rule backoff_inv_frame [OF assms]) simp_all
  moreover from this have "backoff_inv ((noted_exit g s)\<lparr>connect_timer := None\<rparr>)"
    by (rule backoff_inv_frame) (simp_all add: exiting_def)
  ultimately show ?thesis using assms by (simp add: onCoreExited_alt backoff_inv_settled_exit)
qed

lemma exiting_frame: "m_state s' = m_state s \<Longrightarrow> ksw s' = ksw s \<Longrightarrow> exiting s' = exiting s"
  by (simp add: exiting_def)

lemma exiting_state: "m_state (scheduleRestart d s) = Backoff"
  by simp

lemma prepare_exit_settle [simp]: "ks (settle k) = ks k"
  by simp

text \<open>Only saving settings changes what the kill switch holds of them.\<close>

lemma ks_apply [simp]: "ks (apply_ks k) = ks k"
  by (simp add: apply_ks_def apply_config_def spawn_def fail_def failIdentity_def Let_def split: option.split)

lemma ks_update_more [simp]:
  "ks (onReady g k) = ks k" "ks (forget g k) = ks k" "ks (fail c m k) = ks k" "ks (failIdentity k) = ks k"
  "ks (armFailed c m k) = ks k" "ks (spawn cfg k) = ks k"
  by (simp_all add: onReady_def forget_def fail_def failIdentity_def armFailed_def spawn_def Let_def)

lemma ks_protectionLost [simp]: "ks (protectionLost now c m k) = ks k"
  by (simp add: protectionLost_def Let_def)

lemma ks_handleLine [simp]: "ks (handleLine now g l k) = ks k"
  by (simp add: handleLine_def Let_def)

lemma ks_readOutput [simp]: "ks (readOutput now g ls k) = ks k"
proof -
  have "ks (fold (handleLine now g) xs k) = ks k" for xs
    by (induction xs arbitrary: k) simp_all
  then show ?thesis by (simp add: readOutput_def)
qed

lemma ks_step_settings:
  "ks (ks_step k e) = (case e of SaveSettings s \<Rightarrow> s | _ \<Rightarrow> ks k)"
  by (cases e)
    (simp_all add: noteIdentityUnsupported_def storeApiPort_def apiPortChanged_def whenSettled_def whenIdle_def
      onReadyTimeout_def onStartFailed_def onFinished_def retryTimeout_def shutdown_def Let_def)

lemma prepare_exit_switch [simp]:
  "prepare_exit (ks (ks_step k (keep_prepare_exit k e))) = prepare_exit (ks k)"
  by (cases e) (simp_all add: ks_step_settings del: ks_step.simps)

lemma prepare_exit_note [simp]: "ks (noteIdentityUnsupported d k) = ks k"
  by (simp add: noteIdentityUnsupported_def)

lemma exiting_if: "exiting s \<Longrightarrow> ksw s' = ksw s \<Longrightarrow> m_state s' = m_state s \<Longrightarrow> exiting s'"
  by (simp add: exiting_def)

lemma backoff_inv_begin: "backoff_inv (beginRestart s)"
  by (simp add: backoff_inv_def beginRestart_def)

lemma backoff_inv_post: "backoff_inv (postProcessRestart b s) = backoff_inv s"
  by (simp add: backoff_inv_def postProcessRestart_def runOnCores_def exiting_def)

lemma backoff_inv_startWhenUp [simp]: "backoff_inv (s\<lparr>startWhenUp := p\<rparr>) = backoff_inv s"
  by (simp add: backoff_inv_def exiting_def)

lemma backoff_inv_started_id [simp]: "backoff_inv (s\<lparr>started_id := p\<rparr>) = backoff_inv s"
  by (simp add: backoff_inv_def exiting_def)

lemma backoff_inv_emit [simp]: "backoff_inv (emit x s) = backoff_inv s"
  by (simp add: backoff_inv_def exiting_def)

lemma backoff_inv_run [simp]: "backoff_inv (runOnCores t s) = backoff_inv s"
  by (simp add: backoff_inv_def exiting_def runOnCores_def)

lemma backoff_inv_task: "backoff_inv s \<Longrightarrow> backoff_inv (run_core_task t s)"
  by (erule backoff_inv_frame)
     (simp_all add: run_core_task_def exiting_def split: core_task.split option.split)

lemma backoff_inv_connection:
  assumes "backoff_inv s"
  shows "backoff_inv (onNewConnection now c s)"
proof -
  have c: "backoff_inv (set_state Connected t)" if "restart_timer t = restart_timer s" "failures t = failures s" for t
    using assms that by (auto simp: backoff_inv_def)
  have d: "backoff_inv ((setupRpc s)\<lparr>core_running := True\<rparr>)"
    by (rule backoff_inv_frame [OF assms]) (simp_all add: setupRpc_def exiting_def)
  have p: "backoff_inv (t\<lparr>probing := True\<rparr>) = backoff_inv t" "backoff_inv (t\<lparr>startFailures := 0\<rparr>) = backoff_inv t" for t
    by (simp_all add: backoff_inv_def exiting_def)
  show ?thesis using assms d
    by (simp add: onNewConnection_def Let_def emitCoreStarted_def startPrivilegeProbe_def p c setupRpc_def)
qed

lemma backoff_inv_probe:
  "backoff_inv s \<Longrightarrow> backoff_inv (fst (onPrivilegeProbed g ok p a c s))"
  by (erule backoff_inv_frame)
     (simp_all add: onPrivilegeProbed_def emitCoreStarted_def Let_def exiting_def)

lemma backoff_inv_restartTimer:
  assumes "backoff_inv s"
  shows "backoff_inv (postRestart (s\<lparr>restart_timer := None\<rparr>))"
  using assms by (simp add: postRestart_def backoff_inv_post) (simp add: backoff_inv_def exiting_def)

lemma backoff_inv_step:
  assumes "backoff_inv s"
  shows "backoff_inv (sup_step s e)"
proof (cases e)
  case (Listen err)
  have "0 \<le> failures s" using assms by (simp add: backoff_inv_def)
  then show ?thesis using Listen assms
    by (cases err) (simp_all add: listen_def Let_def backoff_inv_def exiting_def)
next
  case (Begin p)
  then show ?thesis using assms by (simp add: start_def Let_def) (simp add: backoff_inv_def)
next
  case (ExitReport now g f c l)
  have "backoff_inv (noteCoreError g l s)" by (rule backoff_inv_frame [OF assms]) simp_all
  then show ?thesis using ExitReport backoff_inv_exit by simp
next
  case CoreTask
  have "backoff_inv (s\<lparr>tasks := ts\<rparr>)" for ts
    by (rule backoff_inv_frame [OF assms]) (simp_all add: exiting_def)
  then show ?thesis using CoreTask assms backoff_inv_task by (simp add: run_next_task_def split: list.split)
next
  case RestartTimer
  then show ?thesis using assms backoff_inv_restartTimer by simp
next
  case PrepareExit
  then show ?thesis using assms by (simp add: backoff_inv_def exiting_def)
next
  case (Switch x)
  then show ?thesis using assms by (simp add: backoff_inv_def exiting_def)
next
  case (CoreNotRunning r x c code e l)
  then show ?thesis using backoff_inv_frame [OF assms]
    by (simp add: onNotRunning_def Let_def exiting_def split: option.split)
next
  case (CoreFailedToStart e)
  then show ?thesis using backoff_inv_frame [OF assms]
    by (simp add: onFailedToStart_def exiting_def split: option.split)
next
  case (CoreSpawned g)
  then show ?thesis using backoff_inv_frame [OF assms] by (simp add: onCoreSpawned_def exiting_def assms)
next
  case ConnectTimeout
  have "backoff_inv (s\<lparr>connect_timer := None\<rparr>)" "backoff_inv (s\<lparr>connect_timer := None, timedOutGen := g\<rparr>)" for g
    by (rule backoff_inv_frame [OF assms]; simp add: exiting_def)+
  then show ?thesis using ConnectTimeout assms by (simp add: onConnectTimeout_def Let_def)
next
  case ShutdownSup
  then show ?thesis using assms by (simp add: shutdown_sup_def) (simp add: backoff_inv_def)
next
  case KillForExit
  then show ?thesis using assms by (simp add: killForExit_def) (simp add: backoff_inv_def)
qed (use assms in \<open>simp_all add: resetCore_def restartNotListening_def restartForGuard_def backoff_inv_probe
    killForPrivilegeChange_def restartDeadCore_def setStartWhenUp_def cancelResume_def probeRetryTimer_def
    startPrivilegeProbe_def backoff_inv_post backoff_inv_begin backoff_inv_connection Let_def\<close>)

interpretation sup_history: invariant_system "init_sup k g win sid" sup_step backoff_inv for k g win sid
  by unfold_locales (simp_all add: backoff_inv_step, simp add: backoff_inv_def init_sup_def)

text \<open>
  C7. A core that died is brought back: in every reachable state a core in backoff that is not being shut
  down has its restart timer running, and every running restart timer waits at least 0.2 and at most 30
  seconds, however often the core has failed.
\<close>

theorem backoff_timer_armed:
  fixes k gui_app win sid es
  defines "s \<equiv> run sup_step (init_sup k gui_app win sid) es"
  shows "(m_state s = Backoff \<longrightarrow> \<not> exiting s \<longrightarrow> restart_timer s \<noteq> None) \<and>
         (\<forall>d. restart_timer s = Some d \<longrightarrow> 200 \<le> d \<and> d \<le> 30000)"
  using sup_history.inv_run [of k gui_app win sid es]
  by (simp add: s_def backoff_inv_def delay_ok_def sup_consts)

lemmas sup_eval = init_sup_def listen_def start_def run_next_task_def run_core_task_def Start_def Restart_def
  new_process_def runOnCores_def onCoreExited_def noteCoreError_def unexpected_exit_def identity_exit_def
  exiting_def set_state_def emit_def count_failure_def choose_resume_def gives_up_def scheduleRestart_def
  backoff_delay_def sup_consts Let_def ks_eval isPanicLine_def string_prefix_def postRestart_def
  postProcessRestart_def currentGeneration_def stop_before_def

text \<open>The kill switch of the concrete runs, turned off.\<close>

definition no_switch :: kswitch where
  "no_switch = boot_ks Linux (sample_settings\<lparr>kill_switch := False\<rparr>) False"

theorem backoff_timer_armed_witness:
  "restart_timer (run sup_step (init_sup no_switch False False 4)
     [Listen None, Begin 4, CoreTask, ExitReport 100 1 False 1 ''panic: x'']) \<noteq> None"
proof -
  let ?s = "run sup_step (init_sup no_switch False False 4)
     [Listen None, Begin 4, CoreTask, ExitReport 100 1 False 1 ''panic: x'']"
  have "m_state ?s = Backoff" "\<not> exiting ?s" by (simp_all add: no_switch_def sup_eval)
  then show ?thesis using backoff_timer_armed [of no_switch False False 4
      "[Listen None, Begin 4, CoreTask, ExitReport 100 1 False 1 ''panic: x'']"] by blast
qed

section \<open>Shutting down\<close>









lemma server_frames [simp]:
  "server (stop_before b s) = server s" "server (noteCoreError g l s) = server s"
  "server (noted_exit g s) = server s"
  by (cases b) (simp_all add: stop_before_def noteCoreError_def noted_exit_def)














end
