(* ===== verification/CoreSupervisorRecovery.thy ===== *)
theory CoreSupervisorRecovery
  imports CoreSupervisorSafety
begin

text \<open>
  How the supervisor brings a core up and when it stops trying: five cores in a row that never connect,
  the kill switch's identity failure (through the locale \<open>identity_latch\<close>, which the kill switch
  provides), a profile that waits for the core, and a profile that keeps bringing it down.
\<close>

section \<open>Giving up\<close>

text \<open>A core that is coming up after \<open>n\<close> cores in a row that never connected.\<close>

definition coming_up :: "int \<Rightarrow> supervisor \<Rightarrow> bool" where
  "coming_up n s \<longleftrightarrow> m_state s = Starting \<and> \<not> prepare_exit (ks (ksw s)) \<and> tasks s = [] \<and>
     failures s = n \<and> startFailures s = n \<and>
     (\<exists>p. process s = Some p \<and> handledExitGen s < generation p \<and> acceptedGen s < generation p \<and>
          expectedExitGen s < generation p)"

text \<open>That core exits without having connected; then the restart timer fires and the core thread restarts it.\<close>

definition dies :: "int \<times> int \<times> string \<Rightarrow> supervisor \<Rightarrow> supervisor" where
  "dies r s = (case r of (now, code, line) \<Rightarrow>
     sup_step s (ExitReport now (currentGeneration s) False code line))"

definition fail_round :: "int \<times> int \<times> string \<Rightarrow> supervisor \<Rightarrow> supervisor" where
  "fail_round r s = run sup_step (dies r s) [RestartTimer, CoreTask]"

lemma count_failure_unconnected [simp]:
  "failures (count_failure now False s) = failures s + 1"
  by (simp add: count_failure_def)

lemma counted_unconnected [simp]:
  "expectedExitGen (counted now False s) = expectedExitGen s"
  "restartCount (counted now False s) = restartCount s"
  by (simp_all add: counted_def count_failure_def choose_resume_def emit_def Let_def)

lemma noted_more [simp]:
  "restartCount (noteCoreError g l s) = restartCount s" "restartCount (noted_exit g s) = restartCount s"
  "exiting (s\<lparr>connect_timer := None\<rparr>) = exiting s"
  by (simp_all add: noteCoreError_def noted_exit_def exiting_def)

lemma dies_unexpected:
  assumes "coming_up n s" "code \<noteq> kCoreIdentityExitCode"
  shows "dies (now, code, line) s =
    unexpected_exit now (currentGeneration s) False
      ((noted_exit (currentGeneration s) (noteCoreError (currentGeneration s) line s))\<lparr>connect_timer := None\<rparr>)"
proof -
  obtain p where p: "process s = Some p" "handledExitGen s < generation p" "acceptedGen s < generation p"
    "expectedExitGen s < generation p" and e: "\<not> exiting s"
    using assms by (auto simp: coming_up_def exiting_def)
  then show ?thesis using assms(2)
    by (simp add: dies_def onCoreExited_alt settled_exit_def currentGeneration_def)
qed

lemma fail_round_coming_up:
  assumes c: "coming_up n s" and code: "code \<noteq> kCoreIdentityExitCode" and n: "0 \<le> n" "n < 4"
  shows "coming_up (n + 1) (fail_round (now, code, line) s) \<and>
         restart_timer (dies (now, code, line) s) = Some (kBackoffFirstMs * 2 ^ nat n) \<and>
         restartCount (fail_round (now, code, line) s) = restartCount s + 1"
proof -
  obtain p where p: "process s = Some p" "handledExitGen s < generation p" "acceptedGen s < generation p"
    "expectedExitGen s < generation p" using c by (auto simp: coming_up_def)
  define g where "g = generation p"
  define s1 where "s1 = (noted_exit g (noteCoreError g line s))\<lparr>connect_timer := None\<rparr>"
  define s2 where "s2 = counted now False s1"
  have cur: "currentGeneration s = g" by (simp add: currentGeneration_def p g_def)
  have f: "failures s2 = n + 1" "startFailures s2 = n + 1"
    using c by (simp_all add: s2_def s1_def coming_up_def)
  have "dies (now, code, line) s = unexpected_exit now g False s1"
    by (simp add: dies_unexpected [OF c code] cur s1_def)
  moreover have "\<not> gives_up False s2" using f n by (simp add: gives_up_def sup_consts)
  ultimately have d: "dies (now, code, line) s = scheduleRestart (backoff_delay (n + 1)) s2"
    using f by (simp add: unexpected_exit_alt s2_def Let_def)
  have "n = 0 \<or> n = 1 \<or> n = 2 \<or> n = 3" using n by arith
  then have del: "backoff_delay (n + 1) = kBackoffFirstMs * 2 ^ nat n"
    by (elim disjE) (simp_all add: backoff_delay_def sup_consts)
  have s2: "process s2 = Some p" "handledExitGen s2 = g" "acceptedGen s2 = acceptedGen s"
    "expectedExitGen s2 = expectedExitGen s" "tasks s2 = []" "\<not> prepare_exit (ks (ksw s2))"
    "restartCount s2 = restartCount s"
    using c p by (simp_all add: s2_def s1_def coming_up_def)
  have r: "fail_round (now, code, line) s =
      run_next_task (postProcessRestart Nothing (set_state Starting ((scheduleRestart (backoff_delay (n + 1)) s2)
        \<lparr>restart_timer := None\<rparr>)))"
    using s2 by (simp add: fail_round_def d postRestart_def exiting_def)
  have cur2: "currentGeneration (set_state Starting ((scheduleRestart (backoff_delay (n + 1)) s2)
      \<lparr>restart_timer := None\<rparr>)) = g"
    by (simp add: currentGeneration_def s2 g_def)
  have rc: "restartCount (set_state Starting ((scheduleRestart (backoff_delay (n + 1)) s2)
      \<lparr>restart_timer := None\<rparr>)) = restartCount s"
    by (simp add: set_state_def scheduleRestart_def emit_def s2)
  have "coming_up (n + 1) (fail_round (now, code, line) s) \<and>
        restartCount (fail_round (now, code, line) s) = restartCount s + 1"
    using s2 f p cur2 rc
    by (simp add: r postProcessRestart_def run_next_task_def runOnCores_def run_core_task_def stop_before_def
        coming_up_def Restart_def Start_def g_def)
  then show ?thesis by (simp add: d del)
qed

lemma fail_rounds_coming_up:
  assumes "coming_up n s" "0 \<le> n" "n + int (length rs) \<le> 4"
    and "\<forall>r \<in> set rs. fst (snd r) \<noteq> kCoreIdentityExitCode"
  shows "coming_up (n + int (length rs)) (fold fail_round rs s) \<and>
         restartCount (fold fail_round rs s) = restartCount s + int (length rs)"
  using assms
proof (induction rs arbitrary: n s)
  case (Cons r rs)
  obtain now code line where r: "r = (now, code, line)" by (cases r) auto
  from Cons.prems r have "coming_up (n + 1) (fail_round r s)" "restartCount (fail_round r s) = restartCount s + 1"
    using fail_round_coming_up [of n s code now line] by simp_all
  with Cons.IH [of "n + 1" "fail_round r s"] Cons.prems show ?case by (simp add: algebra_simps)
qed simp

lemma fifth_death:
  assumes c: "coming_up 4 s" and code: "code \<noteq> kCoreIdentityExitCode"
  shows "m_state (dies (now, code, line) s) = GaveUp \<and> startWhenUp (dies (now, code, line) s) = -1 \<and>
         started_id (dies (now, code, line) s) = NoProfileId \<and> tasks (dies (now, code, line) s) = [] \<and>
         outs (dies (now, code, line) s) \<noteq> [] \<and>
         last (outs (dies (now, code, line) s)) = CoreGaveUp (lastFailure (dies (now, code, line) s))"
proof -
  define g where "g = currentGeneration s"
  define s2 where "s2 = counted now False ((noted_exit g (noteCoreError g line s))\<lparr>connect_timer := None\<rparr>)"
  have "gives_up False s2" "tasks s2 = []" using c
    by (simp_all add: s2_def gives_up_def sup_consts coming_up_def)
  then show ?thesis
    by (simp add: dies_unexpected [OF c code] g_def [symmetric] unexpected_exit_alt s2_def [symmetric] Let_def)
qed

text \<open>
  C6. A core that never comes up is given up: from the first core of a bring-up on, four cores in a row that
  exit without connecting are each restarted once (after 0.5, 1, 2 and 4 seconds, by
  \<open>fail_round_coming_up\<close>), and the fifth such exit ends in \<open>GaveUp\<close>, with no profile left to resume, no
  restart queued and \<open>coreGaveUp\<close> emitted with the recorded reason.
\<close>

theorem five_failed_starts_give_up:
  assumes "coming_up 0 s" "length rs = 4"
    and "\<forall>r \<in> set rs. fst (snd r) \<noteq> kCoreIdentityExitCode" "code \<noteq> kCoreIdentityExitCode"
  shows "let t = fold fail_round rs s; u = dies (now, code, line) t
         in m_state t = Starting \<and> restartCount t = restartCount s + 4 \<and> m_state u = GaveUp \<and>
            startWhenUp u = -1 \<and> started_id u = NoProfileId \<and> tasks u = [] \<and>
            last (outs u) = CoreGaveUp (lastFailure u)"
proof -
  have "coming_up 4 (fold fail_round rs s) \<and> restartCount (fold fail_round rs s) = restartCount s + 4"
    using fail_rounds_coming_up [of 0 s rs] assms by simp
  moreover from this have "m_state (fold fail_round rs s) = Starting" by (simp add: coming_up_def)
  ultimately show ?thesis using fifth_death [of "fold fail_round rs s" code now line] assms(4)
    by (simp add: Let_def)
qed

theorem five_failed_starts_give_up_witness:
  "m_state (dies (900, 1, ''e'') (fold fail_round (replicate 4 (100, 1, ''e''))
     (run sup_step (init_sup no_switch False False 4) [Listen None, Begin 4, CoreTask]))) = GaveUp"
proof -
  have "coming_up 0 (run sup_step (init_sup no_switch False False 4) [Listen None, Begin 4, CoreTask])"
    by (simp add: coming_up_def no_switch_def sup_eval)
  from five_failed_starts_give_up [OF this, of "replicate 4 (100, 1, ''e'')" 1 900 "''e''"]
  show ?thesis by (simp add: Let_def kCoreIdentityExitCode_def)
qed

section \<open>The identity failure\<close>

text \<open>What the supervisor needs of the kill switch: a failure it reports is remembered while the switch is on.\<close>

locale identity_latch =
  fixes unsupported :: "'k \<Rightarrow> bool" and latch :: "string \<Rightarrow> 'k \<Rightarrow> 'k" and enabled :: "'k \<Rightarrow> bool"
  assumes latches: "enabled k \<Longrightarrow> unsupported (latch d k)"
    and keeps_enabled: "enabled (latch d k) = enabled k"
begin

definition report :: "string \<Rightarrow> 'k \<Rightarrow> 'k" where
  "report d k = (if unsupported k then k else latch d k)"

lemma report_latches: "enabled k \<Longrightarrow> unsupported (report d k) \<and> enabled (report d k)"
  by (simp add: report_def latches keeps_enabled)

lemma reports_once: "enabled k \<Longrightarrow> fold report ds (report d k) = report d k"
proof (induction ds)
  case (Cons e ds)
  then show ?case using report_latches [of k d] by (simp add: report_def)
qed simp

end

lemma apply_keeps_identity:
  assumes "kill_switch (ks k)"
  shows "k_identityUnsupported (apply_ks k) = k_identityUnsupported k"
  using assms
  by (simp add: apply_ks_def apply_config_def spawn_def fail_def failIdentity_def Let_def split: option.split)

interpretation ks_latch: identity_latch k_identityUnsupported noteIdentityUnsupported "\<lambda>k. kill_switch (ks k)"
  by unfold_locales (simp_all add: noteIdentityUnsupported_def apply_keeps_identity)

text \<open>An unexpected exit of a core that never connected.\<close>

definition unconnected_exit :: "nat \<Rightarrow> bool \<Rightarrow> supervisor \<Rightarrow> bool" where
  "unconnected_exit g failedToStart s \<longleftrightarrow>
     \<not> exiting s \<and> handledExitGen s < g \<and> expectedExitGen s \<noteq> g \<and>
     (failedToStart \<or> g \<noteq> acceptedGen s \<or> probing s)"

lemma unconnected_exit_step:
  assumes "unconnected_exit g failed s"
  shows "sup_step s (ExitReport now g failed code line) =
    (let t = (noted_exit g (noteCoreError g line s))\<lparr>connect_timer := None\<rparr>
     in if code = kCoreIdentityExitCode \<and> \<not> k_identityUnsupported (ksw s) then identity_exit g t
        else unexpected_exit now g False t)"
  using assms by (auto simp: unconnected_exit_def onCoreExited_alt settled_exit_def Let_def)

lemma ksw_identity_exit:
  "ksw (identity_exit g s) = noteIdentityUnsupported
     (if lastCoreErrorGen s = g \<and> lastCoreError s \<noteq> [] then lastCoreError s
      else ''kill switch: cannot adopt the guard group'') (ksw s)"
  by (simp add: identity_exit_def Let_def)

text \<open>
  A core that cannot adopt the kill switch's identity costs one restart, not the profile: with the kill
  switch on, its first exit with code 86 is no failure, the switch remembers the failure, the core comes
  back after 0.2 seconds and the process spawned then no longer asks for the identity; a later exit with
  the same code counts as any failed start does.
\<close>

theorem identity_failure_once:
  fixes s t :: supervisor and now :: int and line :: string
  assumes "unconnected_exit g failed s" "kill_switch (ks (ksw s))" "\<not> k_identityUnsupported (ksw s)"
  defines "s' \<equiv> sup_step s (ExitReport now g failed kCoreIdentityExitCode line)"
  shows "k_identityUnsupported (ksw s') \<and> failures s' = failures s \<and> startFailures s' = startFailures s \<and>
         m_state s' = Backoff \<and> restart_timer s' = Some kIntentRestartDelayMs \<and>
         \<not> guard_identity (Restart (ksw s') p) \<and>
         (unconnected_exit h failed' t \<longrightarrow> k_identityUnsupported (ksw t) \<longrightarrow>
            startFailures (counted now' False t) = startFailures t + 1 \<and>
            sup_step t (ExitReport now' h failed' kCoreIdentityExitCode line') =
            unexpected_exit now' h False ((noted_exit h (noteCoreError h line' t))\<lparr>connect_timer := None\<rparr>))"
proof -
  define t1 where "t1 = (noted_exit g (noteCoreError g line s))\<lparr>connect_timer := None\<rparr>"
  have s': "s' = identity_exit g t1"
    unfolding s'_def unconnected_exit_step [OF assms(1)] using assms(3) by (simp add: t1_def Let_def)
  have "k_identityUnsupported (ksw s')"
    unfolding s' ksw_identity_exit using assms(2) by (intro ks_latch.latches) (simp add: t1_def)
  moreover have "failures s' = failures s" "startFailures s' = startFailures s"
    by (simp_all add: s' t1_def)
  ultimately show ?thesis
    by (simp add: s' Restart_def Start_def unconnected_exit_step Let_def del: sup_step.simps)
qed

text \<open>The switch of the concrete run, armed.\<close>

theorem identity_failure_once_witness:
  "failures (sup_step (run sup_step (init_sup (boot_ks Linux sample_settings False) False False 4)
     [Listen None, Begin 4, CoreTask]) (ExitReport 100 1 False 86 ''e'')) = 0"
proof -
  let ?s = "run sup_step (init_sup (boot_ks Linux sample_settings False) False False 4) [Listen None, Begin 4, CoreTask]"
  have "unconnected_exit 1 False ?s" "kill_switch (ks (ksw ?s))" "\<not> k_identityUnsupported (ksw ?s)" "failures ?s = 0"
    by (simp_all add: unconnected_exit_def sup_eval no_guard_def)
  with identity_failure_once [of 1 False ?s 100 "''e''"] show ?thesis
    by (simp add: kCoreIdentityExitCode_def)
qed

section \<open>Profiles that wait for the core\<close>

text \<open>The core connects: at once on Windows, with the answer of the privilege probe elsewhere.\<close>

definition connects :: "int \<Rightarrow> bool \<Rightarrow> supervisor \<Rightarrow> supervisor" where
  "connects now admin s =
     (if os_windows s then sup_step s (NewConnection now True)
      else run sup_step s [NewConnection now True, PrivilegeProbed (currentGeneration s) True admin 0 True])"

text \<open>
  A start that waits for the core is delivered exactly once: when a core that was neither given up nor
  replaced connects, \<open>coreStarted\<close> carries the waiting profile, nothing waits any more, and the count of
  failed starts is cleared.
\<close>

theorem waiting_start_delivered:
  assumes "\<not> exiting s" "process s = Some p" "handledExitGen s < generation p" "timedOutGen s < generation p"
    "acceptedGen s \<le> generation p"
  shows "m_state (connects now admin s) = Connected \<and> startWhenUp (connects now admin s) = -1 \<and>
         startFailures (connects now admin s) = 0 \<and>
         (\<exists>pre. outs (connects now admin s) = outs s @ pre @ [CoreStarted (startWhenUp s)] \<and>
                (\<forall>q. CoreStarted q \<notin> set pre))"
proof -
  define g where "g = generation p"
  define s0 where "s0 = (setupRpc s)\<lparr>core_running := True\<rparr>"
  define s1 where "s1 = set_state Connected (s0\<lparr>acceptedGen := g, connectedAt := (if acceptedGen s < g then Some now
     else connectedAt s), connect_timer := None\<rparr>)"
  have acc: "acceptedGen s < g \<or> acceptedGen s = g" using assms by (auto simp: g_def)
  have ups: "(if acceptedGen s0 < g then s0\<lparr>acceptedGen := g, connectedAt := Some now\<rparr> else s0) =
      s0\<lparr>acceptedGen := g, connectedAt := (if acceptedGen s < g then Some now else connectedAt s)\<rparr>"
    using acc by (cases s) (auto simp: s0_def setupRpc_def emit_def)
  have ex: "\<not> exiting s0" using assms(1) by (simp add: s0_def setupRpc_def exiting_def)
  have n: "onNewConnection now True s =
      (if os_windows s0 then emitCoreStarted s1 else startPrivilegeProbe g 0 (s1\<lparr>probing := True\<rparr>))"
    using assms ex ups
    by (simp add: onNewConnection_def currentGeneration_def g_def [symmetric] Let_def s0_def [symmetric] s1_def)
  define pre where "pre = RpcConnected # (if m_state s = Connected then [] else [StateChanged Connected])"
  have pre: "outs s1 = outs s @ pre" "\<forall>q. CoreStarted q \<notin> set pre"
    by (simp_all add: s1_def s0_def set_state_def setupRpc_def pre_def)
  have f: "os_windows s0 = os_windows s" "startWhenUp s1 = startWhenUp s" "m_state s1 = Connected"
    "acceptedGen s1 = g" "ksw s1 = ksw s"
    by (simp_all add: s0_def s1_def setupRpc_def)
  show ?thesis
  proof (cases "os_windows s")
    case True
    then show ?thesis using n f pre
      by (auto simp: connects_def emitCoreStarted_def Let_def)
  next
    case False
    have "\<not> prepare_exit (ks (ksw s))" using assms(1) by (simp add: exiting_def)
    then have "connects now admin s =
        emitCoreStarted ((startPrivilegeProbe g 0 (s1\<lparr>probing := True\<rparr>))\<lparr>knownAdmin := admin, probing := False\<rparr>)"
      using False n f assms(2)
      by (simp add: connects_def onPrivilegeProbed_def currentGeneration_def g_def [symmetric] exiting_def
          startPrivilegeProbe_def Let_def)
    moreover have "\<forall>q. CoreStarted q \<notin> set (pre @ [StartedProbe g 0])" using pre by simp
    ultimately show ?thesis using f pre
      by (auto simp: emitCoreStarted_def startPrivilegeProbe_def Let_def intro!: exI [of _ "pre @ [StartedProbe g 0]"])
  qed
qed

theorem waiting_start_delivered_witness:
  "m_state (connects 50 True (run sup_step (init_sup no_switch False False 4) [Listen None, Begin 4, CoreTask])) =
     Connected"
proof -
  let ?s = "run sup_step (init_sup no_switch False False 4) [Listen None, Begin 4, CoreTask]"
  have "\<not> exiting ?s" "process ?s = Some \<lparr>started = True, generation = 1, failed_to_start = False, guard_identity = False\<rparr>"
    "handledExitGen ?s = 0" "timedOutGen ?s = 0" "acceptedGen ?s = 0"
    by (simp_all add: no_switch_def sup_eval)
  then show ?thesis using waiting_start_delivered [of ?s "\<lparr>started = True, generation = 1, failed_to_start = False,
      guard_identity = False\<rparr>" 50 True] by simp
qed

text \<open>
  A profile that brings the core down twice within ten seconds is declined for good: when a connected
  core exits unexpectedly less than 10 seconds after the previous such exit, nothing is resumed and the
  started profile is forgotten; otherwise the started profile is the one resumed with the next core, unless
  the supervisor gives up.
\<close>

theorem profile_crash_declined:
  fixes s :: supervisor and now code :: int and line :: string
  assumes "\<not> exiting s" "handledExitGen s < g" "expectedExitGen s \<noteq> g" "g = acceptedGen s" "\<not> probing s"
    "0 \<le> started_id s"
  defines "s' \<equiv> sup_step s (ExitReport now g False code line)"
    and "frequent \<equiv> (case profileCrashTimer s of Some t \<Rightarrow> now - t < kProfileCrashWindowMs | None \<Rightarrow> False)"
  shows "(frequent \<longrightarrow> startWhenUp s' = -1 \<and> started_id s' = NoProfileId) \<and>
         (\<not> frequent \<longrightarrow> startWhenUp s' = started_id s \<and> m_state s' = Backoff)"
proof -
  define t where "t = (noted_exit g (noteCoreError g line s))\<lparr>connect_timer := None\<rparr>"
  have s': "s' = unexpected_exit now g True t"
    using assms(1-5) by (simp add: s'_def onCoreExited_alt settled_exit_def t_def Let_def)
  have t: "started_id t = started_id s" "profileCrashTimer t = profileCrashTimer s" by (simp_all add: t_def)
  show ?thesis
  proof (cases frequent)
    case True
    then have "startWhenUp (counted now True t) = -1" "started_id (counted now True t) = NoProfileId"
      using assms(6) t by (auto simp: counted_def crash_window_def choose_resume_def frequent_def Let_def
          split: option.splits)
    then show ?thesis using True by (simp add: s' unexpected_exit_alt Let_def)
  next
    case False
    then have "startWhenUp (counted now True t) = started_id s"
      using t by (auto simp: counted_def crash_window_def choose_resume_def frequent_def Let_def
          split: option.splits)
    then show ?thesis using False assms(6) by (simp add: s' unexpected_exit_alt gives_up_def Let_def)
  qed
qed

theorem profile_crash_declined_witness:
  "started_id (sup_step (connects 50 True (run sup_step (init_sup no_switch False True 4)
     [Listen None, Begin 4, CoreTask]) \<lparr>profileCrashTimer := Some 10\<rparr>) (ExitReport 100 1 False 2 ''e'')) = NoProfileId"
proof -
  let ?s = "connects 50 True (run sup_step (init_sup no_switch False True 4) [Listen None, Begin 4, CoreTask])
     \<lparr>profileCrashTimer := Some 10\<rparr>"
  have "\<not> exiting ?s" "handledExitGen ?s < 1" "expectedExitGen ?s \<noteq> 1" "1 = acceptedGen ?s" "\<not> probing ?s"
    "0 \<le> started_id ?s" "profileCrashTimer ?s = Some 10"
    by (simp_all add: no_switch_def connects_def onNewConnection_def emitCoreStarted_def setupRpc_def sup_eval)
  with profile_crash_declined [of ?s 1 100 2 "''e''"] show ?thesis by (simp add: kProfileCrashWindowMs_def)
qed

end
