(* ===== verification/AutoSelector.thy ===== *)
theory AutoSelector
  imports Json
begin

text \<open>
  The auto selector profile of \<^verbatim>\<open>include/configs/outbounds/autoselector.h\<close>: its settings, the clamps
  applied before every build, its JSON form, and the usage history kept newest first. Times and counts that
  pass through a \<^verbatim>\<open>double\<close> are exact up to \<open>2 ^ 53\<close>, which the round trips assume.
\<close>

record autoSelector =
  sel_name :: qstring
  gids :: "int list"
  nameFilter :: qstring
  countryFilter :: qstring
  excludeUnavailable :: bool
  poolCap :: int
  buildLimit :: int
  resultValidityMins :: int
  testURL :: qstring
  connectivityURL :: qstring
  intervalSec :: int
  benchIntervalSec :: int
  watchIntervalSec :: int
  activeSize :: int
  sampling :: int
  toleranceMs :: int
  maxRTTms :: int
  expected :: int
  dialRetries :: int
  interruptOnSwitch :: bool
  balance :: bool
  balanceMode :: qstring
  balanceIntervalSec :: int
  pool :: "int list"
  poolRankedAt :: int
  pinnedID :: int
  lastBuilt :: "int list"
  lastBuiltAt :: int
  history :: "json list"

definition new_selector :: autoSelector where
  "new_selector =
     \<lparr>sel_name = [], gids = [], nameFilter = [], countryFilter = [], excludeUnavailable = True,
      poolCap = 1000, buildLimit = 300, resultValidityMins = 1440, testURL = [], connectivityURL = [],
      intervalSec = 300, benchIntervalSec = 600, watchIntervalSec = 15, activeSize = 8, sampling = 10,
      toleranceMs = 300, maxRTTms = 0, expected = 3, dialRetries = 2, interruptOnSwitch = True,
      balance = False, balanceMode = lit ''rotate'', balanceIntervalSec = 30, pool = [], poolRankedAt = 0,
      pinnedID = -1, lastBuilt = [], lastBuiltAt = 0, history = []\<rparr>"

definition kMaxPoolCap :: int where "kMaxPoolCap = 3000"
definition kMaxBuildLimit :: int where "kMaxBuildLimit = 500"
definition kMaxHistoryEntries :: nat where "kMaxHistoryEntries = 2000"

definition Tracks :: "autoSelector \<Rightarrow> int \<Rightarrow> bool" where
  "Tracks s gid \<longleftrightarrow> gid \<in> set (gids s)"

subsection \<open>Normalizing\<close>

definition tracked_gids :: "int list \<Rightarrow> int list" where
  "tracked_gids gs = fold (\<lambda>gid tracked. if 0 \<le> gid \<and> gid \<notin> set tracked then tracked @ [gid] else tracked) gs []"

text \<open>The assignments in the order of the code, each on the values the earlier ones left.\<close>

definition Normalize :: "autoSelector \<Rightarrow> autoSelector" where
  "Normalize s =
     (let cap = min (max (poolCap s) 1) kMaxPoolCap;
          limit = min (min (max (buildLimit s) 1) kMaxBuildLimit) cap;
          validity = max (resultValidityMins s) 0;
          interval = max (intervalSec s) 10;
          bench = max (benchIntervalSec s) interval;
          watch = min (max (watchIntervalSec s) 5) interval;
          active = max (activeSize s) 1;
          expect = max (expected s) 1;
          active = min (max active expect) limit;
          samples = min (max (sampling s) 2) 60;
          tolerance = max (toleranceMs s) 0;
          rtt = max (maxRTTms s) 0;
          expect = min expect limit;
          dials = min (max (dialRetries s) 0) 5;
          balances = max (balanceIntervalSec s) 5;
          mode = (if balanceMode s \<noteq> lit ''connection'' then lit ''rotate'' else balanceMode s)
      in s\<lparr>gids := tracked_gids (gids s), poolCap := cap, buildLimit := limit, resultValidityMins := validity,
           intervalSec := interval, benchIntervalSec := bench, watchIntervalSec := watch,
           activeSize := active, sampling := samples, toleranceMs := tolerance, maxRTTms := rtt,
           expected := expect, dialRetries := dials, balanceIntervalSec := balances, balanceMode := mode\<rparr>)"

subsection \<open>JSON\<close>

definition QListInt2QJsonArray :: "int list \<Rightarrow> json list" where
  "QListInt2QJsonArray xs = map JNumber xs"

definition QJsonArray2QListInt :: "json list \<Rightarrow> int list" where
  "QJsonArray2QListInt xs = map (toInt 0) xs"

definition read_int :: "json_object \<Rightarrow> string \<Rightarrow> int \<Rightarrow> int \<Rightarrow> int" where
  "read_int ob k d old = (if obj_contains ob k then toInt d (obj_value ob k) else old)"

definition read_bool :: "json_object \<Rightarrow> string \<Rightarrow> bool \<Rightarrow> bool \<Rightarrow> bool" where
  "read_bool ob k d old = (if obj_contains ob k then toBool d (obj_value ob k) else old)"

definition read_text :: "json_object \<Rightarrow> string \<Rightarrow> qstring \<Rightarrow> qstring \<Rightarrow> qstring" where
  "read_text ob k d old = (if obj_contains ob k then toString d (obj_value ob k) else old)"

definition read_time :: "json_object \<Rightarrow> string \<Rightarrow> int \<Rightarrow> int" where
  "read_time ob k old = (if obj_contains ob k then toDoubleInt (obj_value ob k) else old)"

definition read_ids :: "json_object \<Rightarrow> string \<Rightarrow> int list \<Rightarrow> int list" where
  "read_ids ob k old = (if obj_contains ob k then QJsonArray2QListInt (toArray (obj_value ob k)) else old)"

text \<open>\<open>None\<close> where the code answers false and leaves the object alone.\<close>

definition ParseFromJson :: "json_object \<Rightarrow> autoSelector \<Rightarrow> autoSelector option" where
  "ParseFromJson ob s =
     (if ob = [] then None
      else Some (Normalize
        \<lparr>sel_name = read_text ob ''name'' [] (sel_name s),
         gids = (if obj_contains ob ''gids'' then QJsonArray2QListInt (toArray (obj_value ob ''gids''))
                 else if 0 \<le> toInt (-1) (obj_value ob ''gid'') then [toInt (-1) (obj_value ob ''gid'')]
                 else gids s),
         nameFilter = read_text ob ''name_filter'' [] (nameFilter s),
         countryFilter = read_text ob ''country_filter'' [] (countryFilter s),
         excludeUnavailable = read_bool ob ''exclude_unavailable'' True (excludeUnavailable s),
         poolCap = read_int ob ''pool_cap'' 3000 (poolCap s),
         buildLimit = read_int ob ''build_limit'' 300 (buildLimit s),
         resultValidityMins = read_int ob ''result_validity_mins'' 60 (resultValidityMins s),
         testURL = read_text ob ''test_url'' [] (testURL s),
         connectivityURL = read_text ob ''connectivity_url'' [] (connectivityURL s),
         intervalSec = read_int ob ''interval_sec'' 60 (intervalSec s),
         benchIntervalSec = read_int ob ''bench_interval_sec'' 600 (benchIntervalSec s),
         watchIntervalSec = read_int ob ''watch_interval_sec'' 15 (watchIntervalSec s),
         activeSize = read_int ob ''active_size'' 10 (activeSize s),
         sampling = read_int ob ''sampling'' 10 (sampling s),
         toleranceMs = read_int ob ''tolerance_ms'' 100 (toleranceMs s),
         maxRTTms = read_int ob ''max_rtt_ms'' 0 (maxRTTms s),
         expected = read_int ob ''expected'' 3 (expected s),
         dialRetries = read_int ob ''dial_retries'' 2 (dialRetries s),
         interruptOnSwitch = read_bool ob ''interrupt_on_switch'' True (interruptOnSwitch s),
         balance = read_bool ob ''balance'' False (balance s),
         balanceMode = read_text ob ''balance_mode'' (lit ''rotate'') (balanceMode s),
         balanceIntervalSec = read_int ob ''balance_interval_sec'' 30 (balanceIntervalSec s),
         pool = read_ids ob ''pool'' (pool s),
         poolRankedAt = read_time ob ''pool_ranked_at'' (poolRankedAt s),
         pinnedID = read_int ob ''pinned_id'' (-1) (pinnedID s),
         lastBuilt = read_ids ob ''last_built'' (lastBuilt s),
         lastBuiltAt = read_time ob ''last_built_at'' (lastBuiltAt s),
         history = (if obj_contains ob ''history'' then toArray (obj_value ob ''history'') else history s)\<rparr>))"

definition ExportToJson :: "autoSelector \<Rightarrow> json_object" where
  "ExportToJson s =
     [(''name'', JString (sel_name s)),
      (''type'', JString (lit ''autoselector'')),
      (''gids'', JArray (QListInt2QJsonArray (gids s))),
      (''gid'', JNumber (case gids s of [] \<Rightarrow> -1 | g # _ \<Rightarrow> g)),
      (''name_filter'', JString (nameFilter s)),
      (''country_filter'', JString (countryFilter s)),
      (''exclude_unavailable'', JBool (excludeUnavailable s)),
      (''pool_cap'', JNumber (poolCap s)),
      (''build_limit'', JNumber (buildLimit s)),
      (''result_validity_mins'', JNumber (resultValidityMins s)),
      (''test_url'', JString (testURL s)),
      (''connectivity_url'', JString (connectivityURL s)),
      (''interval_sec'', JNumber (intervalSec s)),
      (''bench_interval_sec'', JNumber (benchIntervalSec s)),
      (''watch_interval_sec'', JNumber (watchIntervalSec s)),
      (''active_size'', JNumber (activeSize s)),
      (''sampling'', JNumber (sampling s)),
      (''tolerance_ms'', JNumber (toleranceMs s)),
      (''max_rtt_ms'', JNumber (maxRTTms s)),
      (''expected'', JNumber (expected s)),
      (''dial_retries'', JNumber (dialRetries s)),
      (''interrupt_on_switch'', JBool (interruptOnSwitch s)),
      (''balance'', JBool (balance s)),
      (''balance_mode'', JString (balanceMode s)),
      (''balance_interval_sec'', JNumber (balanceIntervalSec s)),
      (''pool'', JArray (QListInt2QJsonArray (pool s))),
      (''pool_ranked_at'', JNumber (poolRankedAt s)),
      (''pinned_id'', JNumber (pinnedID s)),
      (''last_built'', JArray (QListInt2QJsonArray (lastBuilt s))),
      (''last_built_at'', JNumber (lastBuiltAt s)),
      (''history'', JArray (history s))]"

subsection \<open>The history\<close>

record HistoryEntry =
  entry_id :: int
  firstUsed :: int
  lastUsed :: int
  builds :: int
  failures :: int
  entry_name :: qstring

definition no_entry :: HistoryEntry where
  "no_entry = \<lparr>entry_id = -1, firstUsed = 0, lastUsed = 0, builds = 0, failures = 0, entry_name = []\<rparr>"

definition parse_entry :: "json \<Rightarrow> HistoryEntry" where
  "parse_entry v =
     (let ob = toObject v in
      \<lparr>entry_id = toInt (-1) (obj_value ob ''id''),
       firstUsed = toDoubleInt (obj_value ob ''first''),
       lastUsed = toDoubleInt (obj_value ob ''last''),
       builds = toInt 0 (obj_value ob ''builds''),
       failures = toInt 0 (obj_value ob ''fails''),
       entry_name = toString [] (obj_value ob ''name'')\<rparr>)"

definition HistoryEntries :: "autoSelector \<Rightarrow> HistoryEntry list" where
  "HistoryEntries s = filter (\<lambda>e. 0 \<le> entry_id e) (map parse_entry (history s))"

definition entry_json :: "HistoryEntry \<Rightarrow> json" where
  "entry_json e =
     JObject [(''id'', JNumber (entry_id e)), (''first'', JNumber (firstUsed e)), (''last'', JNumber (lastUsed e)),
              (''builds'', JNumber (builds e)), (''fails'', JNumber (failures e)), (''name'', JString (entry_name e))]"

text \<open>One used profile: the map from ids to entries and the order, newest first.\<close>

definition record_one ::
  "(int, qstring) qhash \<Rightarrow> int \<Rightarrow> int \<Rightarrow> (int, HistoryEntry) qhash \<times> int list \<Rightarrow>
     (int, HistoryEntry) qhash \<times> int list" where
  "record_one names now i st =
     (case st of (byID, order) \<Rightarrow>
        (let entry = hash_value byID i no_entry;
             (entry, order) =
               (if entry_id entry < 0 then (entry\<lparr>entry_id := i, firstUsed := now\<rparr>, order)
                else (entry, remove1 i order));
             entry = entry\<lparr>lastUsed := now, builds := builds entry + 1\<rparr>;
             entry = (case map_of names i of Some n \<Rightarrow> entry\<lparr>entry_name := n\<rparr> | None \<Rightarrow> entry)
         in (AList.update i entry byID, i # order)))"

definition RecordHistory :: "int list \<Rightarrow> (int, qstring) qhash \<Rightarrow> int \<Rightarrow> autoSelector \<Rightarrow> autoSelector" where
  "RecordHistory ids names now s =
     (let byID = fold (\<lambda>e h. AList.update (entry_id e) e h) (HistoryEntries s) [];
          order = map entry_id (HistoryEntries s);
          (byID, order) = fold (record_one names now) ids (byID, order);
          dropped = drop kMaxHistoryEntries order;
          order = take kMaxHistoryEntries order;
          byID = fold AList.delete (rev dropped) byID
      in s\<lparr>history := map (\<lambda>i. entry_json (hash_value byID i no_entry)) order\<rparr>)"

fun record_failure :: "int \<Rightarrow> json list \<Rightarrow> json list" where
  "record_failure i [] = []"
| "record_failure i (v # vs) =
     (if toInt (-1) (obj_value (toObject v) ''id'') \<noteq> i then v # record_failure i vs
      else JObject (obj_insert ''fails'' (JNumber (toInt 0 (obj_value (toObject v) ''fails'') + 1)) (toObject v)) # vs)"

definition RecordHistoryFailure :: "int \<Rightarrow> autoSelector \<Rightarrow> autoSelector" where
  "RecordHistoryFailure i s = s\<lparr>history := record_failure i (history s)\<rparr>"

section \<open>Normalizing\<close>

definition normal :: "autoSelector \<Rightarrow> bool" where
  "normal s \<longleftrightarrow>
     distinct (gids s) \<and> (\<forall>g \<in> set (gids s). 0 \<le> g) \<and>
     1 \<le> buildLimit s \<and> buildLimit s \<le> poolCap s \<and> buildLimit s \<le> kMaxBuildLimit \<and> poolCap s \<le> kMaxPoolCap \<and>
     0 \<le> resultValidityMins s \<and>
     10 \<le> intervalSec s \<and> intervalSec s \<le> benchIntervalSec s \<and>
     5 \<le> watchIntervalSec s \<and> watchIntervalSec s \<le> intervalSec s \<and>
     1 \<le> expected s \<and> expected s \<le> activeSize s \<and> activeSize s \<le> buildLimit s \<and>
     2 \<le> sampling s \<and> sampling s \<le> 60 \<and> 0 \<le> toleranceMs s \<and> 0 \<le> maxRTTms s \<and>
     0 \<le> dialRetries s \<and> dialRetries s \<le> 5 \<and> 5 \<le> balanceIntervalSec s \<and>
     (balanceMode s = lit ''connection'' \<or> balanceMode s = lit ''rotate'')"

lemma tracked_fold:
  "distinct t \<and> (\<forall>g \<in> set t. 0 \<le> g) \<Longrightarrow>
     distinct (fold (\<lambda>gid t. if 0 \<le> gid \<and> gid \<notin> set t then t @ [gid] else t) gs t) \<and>
     set (fold (\<lambda>gid t. if 0 \<le> gid \<and> gid \<notin> set t then t @ [gid] else t) gs t) = set t \<union> {g \<in> set gs. 0 \<le> g}"
proof (induction gs arbitrary: t)
  case (Cons g gs)
  then show ?case by (cases "0 \<le> g \<and> g \<notin> set t") auto
qed simp

lemma tracked_props:
  "distinct (tracked_gids gs)" "set (tracked_gids gs) = {g \<in> set gs. 0 \<le> g}"
  using tracked_fold [of "[]" gs] by (simp_all add: tracked_gids_def)

lemma tracked_id_fold:
  "distinct (t @ gs) \<Longrightarrow> \<forall>g \<in> set gs. 0 \<le> g \<Longrightarrow>
     fold (\<lambda>gid t. if 0 \<le> gid \<and> gid \<notin> set t then t @ [gid] else t) gs t = t @ gs"
  by (induction gs arbitrary: t) auto

lemma tracked_id: "distinct gs \<Longrightarrow> \<forall>g \<in> set gs. 0 \<le> g \<Longrightarrow> tracked_gids gs = gs"
  using tracked_id_fold [of "[]" gs] by (simp add: tracked_gids_def)

lemma Normalize_fields:
  "gids (Normalize s) = tracked_gids (gids s)"
  "poolCap (Normalize s) = min (max (poolCap s) 1) kMaxPoolCap"
  "buildLimit (Normalize s) = min (min (max (buildLimit s) 1) kMaxBuildLimit) (poolCap (Normalize s))"
  "resultValidityMins (Normalize s) = max (resultValidityMins s) 0"
  "intervalSec (Normalize s) = max (intervalSec s) 10"
  "benchIntervalSec (Normalize s) = max (benchIntervalSec s) (intervalSec (Normalize s))"
  "watchIntervalSec (Normalize s) = min (max (watchIntervalSec s) 5) (intervalSec (Normalize s))"
  "activeSize (Normalize s) = min (max (max (activeSize s) 1) (max (expected s) 1)) (buildLimit (Normalize s))"
  "expected (Normalize s) = min (max (expected s) 1) (buildLimit (Normalize s))"
  "sampling (Normalize s) = min (max (sampling s) 2) 60"
  "toleranceMs (Normalize s) = max (toleranceMs s) 0" "maxRTTms (Normalize s) = max (maxRTTms s) 0"
  "dialRetries (Normalize s) = min (max (dialRetries s) 0) 5"
  "balanceIntervalSec (Normalize s) = max (balanceIntervalSec s) 5"
  "balanceMode (Normalize s) = (if balanceMode s \<noteq> lit ''connection'' then lit ''rotate'' else balanceMode s)"
  by (simp_all add: Normalize_def Let_def)

lemma normal_limits:
  "1 \<le> buildLimit (Normalize s)" "buildLimit (Normalize s) \<le> poolCap (Normalize s)"
  "buildLimit (Normalize s) \<le> kMaxBuildLimit" "poolCap (Normalize s) \<le> kMaxPoolCap"
  by (simp_all add: Normalize_fields(2,3) kMaxPoolCap_def kMaxBuildLimit_def min_le_iff_disj)

lemma normal_intervals:
  "10 \<le> intervalSec (Normalize s)" "intervalSec (Normalize s) \<le> benchIntervalSec (Normalize s)"
  "5 \<le> watchIntervalSec (Normalize s)" "watchIntervalSec (Normalize s) \<le> intervalSec (Normalize s)"
  by (simp_all add: Normalize_fields(5,6,7))

lemma normal_sizes:
  "1 \<le> expected (Normalize s)" "expected (Normalize s) \<le> activeSize (Normalize s)"
  "activeSize (Normalize s) \<le> buildLimit (Normalize s)"
  using normal_limits(1) [of s] by (simp_all add: Normalize_fields(8,9) min.coboundedI1)

lemma normal_Normalize: "normal (Normalize s)"
  unfolding normal_def using normal_limits [of s] normal_intervals [of s] normal_sizes [of s]
  by (simp add: tracked_props Normalize_fields(1,4,10-15))

lemma Normalize_normal:
  assumes "normal s"
  shows "Normalize s = s"
proof -
  note n = assms [unfolded normal_def]
  have d: "1 \<le> poolCap s" "1 \<le> activeSize s" "expected s \<le> buildLimit s" using n by linarith+
  have t: "tracked_gids (gids s) = gids s" using n by (intro tracked_id) simp_all
  have e: "max (poolCap s) 1 = poolCap s" "min (poolCap s) kMaxPoolCap = poolCap s"
    "max (buildLimit s) 1 = buildLimit s" "min (buildLimit s) kMaxBuildLimit = buildLimit s"
    "min (buildLimit s) (poolCap s) = buildLimit s" "max (resultValidityMins s) 0 = resultValidityMins s"
    "max (intervalSec s) 10 = intervalSec s" "max (benchIntervalSec s) (intervalSec s) = benchIntervalSec s"
    "max (watchIntervalSec s) 5 = watchIntervalSec s"
    "min (watchIntervalSec s) (intervalSec s) = watchIntervalSec s" "max (activeSize s) 1 = activeSize s"
    "max (expected s) 1 = expected s" "max (activeSize s) (expected s) = activeSize s"
    "min (activeSize s) (buildLimit s) = activeSize s" "min (expected s) (buildLimit s) = expected s"
    "max (sampling s) 2 = sampling s" "min (sampling s) 60 = sampling s" "max (toleranceMs s) 0 = toleranceMs s"
    "max (maxRTTms s) 0 = maxRTTms s" "max (dialRetries s) 0 = dialRetries s"
    "min (dialRetries s) 5 = dialRetries s" "max (balanceIntervalSec s) 5 = balanceIntervalSec s"
    using n d by (simp_all only: max_absorb1 min_absorb1)
  have m: "(if balanceMode s \<noteq> lit ''connection'' then lit ''rotate'' else balanceMode s) = balanceMode s"
    using n by metis
  show ?thesis unfolding Normalize_def Let_def e t m by simp
qed

text \<open>
  Whatever a profile carried (hand-edited or old), normalizing it makes every setting fit the others
  (distinct tracked groups; build limit within pool cap; watch interval at most the check interval, which is
  at most the sweep interval; ready count within the closely checked count within the build limit), and
  normalizing again changes nothing.
\<close>

theorem Normalize_settles:
  "normal (Normalize s) \<and> Normalize (Normalize s) = Normalize s"
  using normal_Normalize Normalize_normal by blast

section \<open>The JSON round trip\<close>

text \<open>The widths of the fields of the C++ object.\<close>

definition sized :: "autoSelector \<Rightarrow> bool" where
  "sized s \<longleftrightarrow>
     list_all is_int32 (gids s) \<and> list_all is_int32 (pool s) \<and> list_all is_int32 (lastBuilt s) \<and>
     list_all is_int32 [poolCap s, buildLimit s, resultValidityMins s, intervalSec s, benchIntervalSec s,
       watchIntervalSec s, activeSize s, sampling s, toleranceMs s, maxRTTms s, expected s, dialRetries s,
       balanceIntervalSec s, pinnedID s] \<and>
     \<bar>poolRankedAt s\<bar> \<le> 2 ^ 53 \<and> \<bar>lastBuiltAt s\<bar> \<le> 2 ^ 53"

lemma ids_roundtrip: "list_all is_int32 xs \<Longrightarrow> QJsonArray2QListInt (QListInt2QJsonArray xs) = xs"
  by (induction xs) (auto simp: QJsonArray2QListInt_def QListInt2QJsonArray_def)

lemmas read_defs = read_int_def read_bool_def read_text_def read_time_def read_ids_def

lemma Parse_Export_raw:
  assumes "sized s"
  shows "ParseFromJson (ExportToJson s) t = Some (Normalize s)"
proof -
  have sz: "list_all is_int32 (gids s)" "list_all is_int32 (pool s)" "list_all is_int32 (lastBuilt s)"
    "is_int32 (poolCap s)" "is_int32 (buildLimit s)" "is_int32 (resultValidityMins s)"
    "is_int32 (intervalSec s)" "is_int32 (benchIntervalSec s)" "is_int32 (watchIntervalSec s)"
    "is_int32 (activeSize s)" "is_int32 (sampling s)" "is_int32 (toleranceMs s)" "is_int32 (maxRTTms s)"
    "is_int32 (expected s)" "is_int32 (dialRetries s)" "is_int32 (balanceIntervalSec s)"
    "is_int32 (pinnedID s)"
    using assms by (simp_all add: sized_def)
  show ?thesis unfolding ParseFromJson_def ExportToJson_def
    by (simp add: read_defs sz ids_roundtrip) (cases s; simp)
qed

text \<open>
  A stored auto selector comes back: parsing what was exported gives the normalized selector, whatever
  object it is parsed into, and an exported normalized selector comes back unchanged.
\<close>

theorem ParseFromJson_ExportToJson:
  assumes "sized s"
  shows "ParseFromJson (ExportToJson s) t = Some (Normalize s) \<and>
         (normal s \<longrightarrow> ParseFromJson (ExportToJson s) t = Some s)"
  using Parse_Export_raw [OF assms] Normalize_normal by simp

theorem ParseFromJson_ExportToJson_witness:
  "ParseFromJson (ExportToJson (new_selector\<lparr>gids := [3, 1], pool := [9, 8, 7]\<rparr>)) new_selector =
     Some (new_selector\<lparr>gids := [3, 1], pool := [9, 8, 7]\<rparr>)"
proof -
  have "sized (new_selector\<lparr>gids := [3, 1], pool := [9, 8, 7]\<rparr>)"
    by (simp add: sized_def new_selector_def is_int32_def)
  moreover have "normal (new_selector\<lparr>gids := [3, 1], pool := [9, 8, 7]\<rparr>)"
    by (simp add: normal_def new_selector_def kMaxPoolCap_def kMaxBuildLimit_def)
  ultimately show ?thesis using ParseFromJson_ExportToJson by blast
qed

section \<open>The history\<close>

text \<open>The entry a used profile gets: its old one or a new one, with this use counted.\<close>

definition used :: "(int, qstring) qhash \<Rightarrow> int \<Rightarrow> (int \<Rightarrow> HistoryEntry option) \<Rightarrow> int \<Rightarrow> HistoryEntry" where
  "used names now old i =
     (let e = (case old i of Some e \<Rightarrow> e | None \<Rightarrow> no_entry\<lparr>entry_id := i, firstUsed := now\<rparr>);
          e = e\<lparr>lastUsed := now, builds := builds e + 1\<rparr>
      in case map_of names i of Some n \<Rightarrow> e\<lparr>entry_name := n\<rparr> | None \<Rightarrow> e)"

definition keyed :: "(int, HistoryEntry) qhash \<Rightarrow> bool" where
  "keyed h \<longleftrightarrow> (\<forall>i e. map_of h i = Some e \<longrightarrow> entry_id e = i \<and> 0 \<le> i)"

lemma record_one_spec:
  assumes "case map_of h i of Some e \<Rightarrow> entry_id e = i \<and> 0 \<le> i | None \<Rightarrow> True" "0 \<le> i"
  shows "record_one names now i (h, order) =
    (AList.update i (used names now (map_of h) i) h, i # (if map_of h i = None then order else remove1 i order))"
proof (cases "map_of h i")
  case None
  then show ?thesis by (simp add: record_one_def used_def no_entry_def Let_def)
next
  case (Some e)
  with assms show ?thesis by (simp add: record_one_def used_def Let_def)
qed

lemma remove1_filter: "distinct xs \<Longrightarrow> remove1 x (filter P xs) = filter (\<lambda>y. P y \<and> y \<noteq> x) xs"
  by (simp add: distinct_remove1_removeAll removeAll_filter_not_eq filter_filter)
     (metis (mono_tags, lifting))

lemma record_fold:
  assumes "distinct ids" "\<forall>i \<in> set ids. 0 \<le> i" "keyed h" "distinct order" "set order = dom (map_of h)"
  shows "\<exists>h'. fold (record_one names now) ids (h, order) = (h', rev ids @ filter (\<lambda>i. i \<notin> set ids) order) \<and>
     (\<forall>i. map_of h' i = (if i \<in> set ids then Some (used names now (map_of h) i) else map_of h i))"
  using assms(1,2)
proof (induction ids rule: rev_induct)
  case (snoc i ids)
  then obtain h' where h': "fold (record_one names now) ids (h, order) = (h', rev ids @ filter (\<lambda>i. i \<notin> set ids) order)"
    "\<forall>i. map_of h' i = (if i \<in> set ids then Some (used names now (map_of h) i) else map_of h i)" by auto
  have i: "i \<notin> set ids" "0 \<le> i" using snoc.prems by simp_all
  then have m: "map_of h' i = map_of h i" using h' by simp
  have u: "used names now (map_of h') i = used names now (map_of h) i" by (simp add: used_def m)
  have one: "record_one names now i (h', rev ids @ filter (\<lambda>i. i \<notin> set ids) order) =
      (AList.update i (used names now (map_of h) i) h',
       i # (if map_of h i = None then rev ids @ filter (\<lambda>i. i \<notin> set ids) order
            else remove1 i (rev ids @ filter (\<lambda>i. i \<notin> set ids) order)))"
    using record_one_spec [where h = h' and i = i and names = names and now = now and
        order = "rev ids @ filter (\<lambda>i. i \<notin> set ids) order"] i assms(3) m u
    by (simp add: keyed_def split: option.splits)
  have "map_of h i = None \<Longrightarrow> filter (\<lambda>j. j \<notin> set ids) order = filter (\<lambda>j. j \<notin> set ids \<and> j \<noteq> i) order"
    using assms(5) by (intro filter_cong) (auto simp: domIff)
  moreover have "remove1 i (rev ids @ filter (\<lambda>j. j \<notin> set ids) order) =
      rev ids @ filter (\<lambda>j. j \<notin> set ids \<and> j \<noteq> i) order"
    using i assms(4) by (simp add: remove1_append remove1_filter)
  moreover have "(\<lambda>j. j \<noteq> i \<and> j \<notin> set ids) = (\<lambda>j. j \<notin> set ids \<and> j \<noteq> i)" by auto
  ultimately show ?case using h' one i by (intro exI [of _ "AList.update i (used names now (map_of h) i) h'"]) auto
qed simp

lemma parse_entry_json:
  assumes "is_int32 (entry_id e)" "is_int32 (builds e)" "is_int32 (failures e)"
  shows "parse_entry (entry_json e) = e"
  using assms by (cases e) (simp add: parse_entry_def entry_json_def Let_def)

lemma map_of_entries:
  assumes "distinct (map entry_id es)"
  shows "map_of (fold (\<lambda>e h. AList.update (entry_id e) e h) es h) i =
    (case map_of (map (\<lambda>e. (entry_id e, e)) es) i of Some e \<Rightarrow> Some e | None \<Rightarrow> map_of h i)"
  using assms
proof (induction es arbitrary: h)
  case (Cons e es)
  have "map_of (map (\<lambda>e. (entry_id e, e)) es) (entry_id e) = None"
    using Cons.prems by (simp add: map_of_eq_None_iff image_image)
  with Cons show ?case by (cases "i = entry_id e") (auto split: option.split)
qed (simp split: option.split)

lemma map_of_entries_Some:
  "map_of (map (\<lambda>e. (entry_id e, e)) es) i = Some e \<Longrightarrow> e \<in> set es \<and> entry_id e = i"
  by (induction es) (auto split: if_splits)

lemma map_of_deletes: "map_of (fold AList.delete ks h) i = (if i \<in> set ks then None else map_of h i)"
  by (induction ks arbitrary: h) auto

text \<open>What recording a use leaves: the profiles used now, last one first, then the others in their old order.\<close>

definition recorded ::
  "int list \<Rightarrow> (int, qstring) qhash \<Rightarrow> int \<Rightarrow> HistoryEntry list \<Rightarrow> HistoryEntry list" where
  "recorded ids names now es =
     take kMaxHistoryEntries
       (map (used names now (map_of (map (\<lambda>e. (entry_id e, e)) es))) (rev ids) @
        filter (\<lambda>e. entry_id e \<notin> set ids) es)"

definition countable :: "HistoryEntry \<Rightarrow> bool" where
  "countable e \<longleftrightarrow> is_int32 (entry_id e) \<and> is_int32 (builds e) \<and> is_int32 (builds e + 1) \<and> is_int32 (failures e)"

lemma used_fields:
  assumes "countable e \<or> m i \<noteq> Some e" "\<forall>e. m i = Some e \<longrightarrow> countable e \<and> entry_id e = i" "is_int32 i"
  shows "entry_id (used names now m i) = i" "is_int32 (builds (used names now m i))"
    "is_int32 (failures (used names now m i))"
  using assms by (cases "m i"; cases "map_of names i";
      simp add: used_def countable_def no_entry_def is_int32_def)+

lemma entries_of_jsons:
  assumes "\<forall>e \<in> set es. 0 \<le> entry_id e \<and> is_int32 (entry_id e) \<and> is_int32 (builds e) \<and> is_int32 (failures e)"
  shows "filter (\<lambda>e. 0 \<le> entry_id e) (map parse_entry (map entry_json es)) = es"
  using assms by (induction es) (simp_all add: parse_entry_json)

lemma RecordHistory_entries:
  assumes ids: "distinct ids" "\<forall>i \<in> set ids. 0 \<le> i \<and> is_int32 i"
    and es: "distinct (map entry_id (HistoryEntries s))" "\<forall>e \<in> set (HistoryEntries s). countable e"
  shows "HistoryEntries (RecordHistory ids names now s) = recorded ids names now (HistoryEntries s)"
proof -
  define es where "es = HistoryEntries s"
  define m where "m = map_of (map (\<lambda>e. (entry_id e, e)) es)"
  define h where "h = fold (\<lambda>e h. AList.update (entry_id e) e h) es []"
  have hm: "map_of h = m"
  proof
    show "map_of h i = m i" for i
      using map_of_entries [of es "[]" i] es(1) by (simp add: h_def m_def es_def split: option.split)
  qed
  have m_Some: "e \<in> set es \<and> entry_id e = i" if "m i = Some e" for i e
    using map_of_entries_Some that by (simp add: m_def)
  have m_in: "m (entry_id e) = Some e" if "e \<in> set es" for e
    using that es(1) by (simp add: m_def es_def map_of_eq_Some_iff comp_def image_iff)
  have nonneg: "0 \<le> entry_id e" if "e \<in> set es" for e using that by (auto simp: es_def HistoryEntries_def)
  have keyed: "keyed h" using m_Some nonneg by (auto simp: keyed_def hm)
  have dom: "set (map entry_id es) = dom (map_of h)" using m_Some m_in by (force simp: hm)
  obtain h' where h': "fold (record_one names now) ids (h, map entry_id es) =
      (h', rev ids @ filter (\<lambda>i. i \<notin> set ids) (map entry_id es))"
    "\<forall>i. map_of h' i = (if i \<in> set ids then Some (used names now m i) else m i)"
    using record_fold [OF ids(1) _ keyed _ dom, of names now] ids(2) es(1) by (auto simp: es_def hm)
  define order where "order = rev ids @ filter (\<lambda>i. i \<notin> set ids) (map entry_id es)"
  define kept where "kept = take kMaxHistoryEntries order"
  have dist: "distinct order" using ids(1) es(1) by (auto simp: order_def es_def)
  then have disj: "i \<in> set kept \<Longrightarrow> i \<notin> set (drop kMaxHistoryEntries order)" for i
    by (metis append_take_drop_id distinct_append disjoint_iff kept_def)
  define final where "final = map (\<lambda>i. if i \<in> set ids then used names now m i else the (m i)) order"
  have val: "hash_value (fold AList.delete (rev (drop kMaxHistoryEntries order)) h') i no_entry =
      (if i \<in> set ids then used names now m i else the (m i))" if "i \<in> set kept" for i
  proof -
    have "i \<in> set order" using that by (auto simp: kept_def dest: in_set_takeD)
    then have "i \<notin> set ids \<Longrightarrow> m i \<noteq> None" using m_in by (auto simp: order_def)
    then show ?thesis using h'(2) disj [OF that] by (auto simp: map_of_deletes)
  qed
  have "history (RecordHistory ids names now s) =
      map (\<lambda>i. entry_json (hash_value (fold AList.delete (rev (drop kMaxHistoryEntries order)) h') i no_entry)) kept"
    using h'(1) by (simp add: RecordHistory_def es_def [symmetric] h_def [symmetric] order_def kept_def Let_def)
  also have "\<dots> = map entry_json (take kMaxHistoryEntries final)"
    using val by (simp add: final_def kept_def take_map)
  finally have hist: "history (RecordHistory ids names now s) = map entry_json (take kMaxHistoryEntries final)" .
  have "map (\<lambda>i. if i \<in> set ids then used names now m i else the (m i)) (filter (\<lambda>i. i \<notin> set ids) (map entry_id es)) =
      filter (\<lambda>e. entry_id e \<notin> set ids) es"
    using m_in by (auto simp: filter_map comp_def intro!: map_idI)
  then have fin: "final = map (used names now m) (rev ids) @ filter (\<lambda>e. entry_id e \<notin> set ids) es"
    by (simp add: final_def order_def comp_def)
  have ok: "0 \<le> entry_id e \<and> is_int32 (entry_id e) \<and> is_int32 (builds e) \<and> is_int32 (failures e)"
    if "e \<in> set final" for e
  proof -
    from that consider i where "i \<in> set ids" "e = used names now m i" | "e \<in> set es" by (auto simp: fin)
    then show ?thesis
    proof cases
      case 1
      have "\<forall>e. m i = Some e \<longrightarrow> countable e \<and> entry_id e = i" using m_Some es(2) by (auto simp: es_def)
      with 1 ids(2) used_fields [of "the (m i)" m i names now] show ?thesis by (cases "m i") auto
    next
      case 2
      then show ?thesis using nonneg es(2) by (auto simp: es_def countable_def)
    qed
  qed
  have "HistoryEntries (RecordHistory ids names now s) = take kMaxHistoryEntries final"
    unfolding HistoryEntries_def hist by (rule entries_of_jsons) (auto dest!: in_set_takeD ok)
  then show ?thesis by (simp add: recorded_def fin m_def es_def)
qed

text \<open>
  The usage history is a bounded recency list: recording the profiles of a build puts them first, the
  last one foremost, each with its use counted, its first use kept and its time set to now; the other
  entries follow unchanged in their order, and only what falls beyond 2000 entries is forgotten.
\<close>

theorem RecordHistory_recency:
  assumes "distinct ids" "\<forall>i \<in> set ids. 0 \<le> i \<and> is_int32 i"
    and "distinct (map entry_id (HistoryEntries s))" "\<forall>e \<in> set (HistoryEntries s). countable e"
  shows "HistoryEntries (RecordHistory ids names now s) = recorded ids names now (HistoryEntries s) \<and>
         length (HistoryEntries (RecordHistory ids names now s)) \<le> 2000"
  using RecordHistory_entries [OF assms, of names now] by (simp add: recorded_def kMaxHistoryEntries_def)

theorem RecordHistory_recency_witness:
  "map (\<lambda>e. (entry_id e, builds e)) (HistoryEntries (RecordHistory [7, 5] [] 90
     (new_selector\<lparr>history := [entry_json \<lparr>entry_id = 5, firstUsed = 10, lastUsed = 20, builds = 2, failures = 0,
        entry_name = []\<rparr>]\<rparr>))) = [(5, 3), (7, 1)]"
proof -
  let ?e = "\<lparr>entry_id = 5, firstUsed = 10, lastUsed = 20, builds = 2, failures = 0, entry_name = []\<rparr>"
  have h: "HistoryEntries (new_selector\<lparr>history := [entry_json ?e]\<rparr>) = [?e]"
    by (simp add: HistoryEntries_def parse_entry_json is_int32_def)
  have "distinct [7, 5::int]" "\<forall>i \<in> set [7, 5]. 0 \<le> i \<and> is_int32 i" "countable ?e"
    by (simp_all add: is_int32_def countable_def)
  with RecordHistory_recency [of "[7, 5]" "new_selector\<lparr>history := [entry_json ?e]\<rparr>" "[]" 90] h
  show ?thesis by (simp add: recorded_def used_def kMaxHistoryEntries_def no_entry_def)
qed

end
