(* ===== verification/AutoSelectorPlan.thy ===== *)
theory AutoSelectorPlan
  imports AutoSelector
begin

text \<open>
  Which profiles an auto selector builds, from \<^verbatim>\<open>src/configs/AutoSelectorPlan.cpp\<close>: the members of the
  tracked groups are filtered, ordered (the persisted order first, newcomers by their last test) and cut.
  The repositories, the regular expression engine and \<^verbatim>\<open>QString::toUpper\<close> are the fields of \<open>env\<close>; the
  clock is an argument, one per reading.
\<close>

record custom_outbound =
  custom_type :: string
  config_object :: json_object

record member_outbound =
  DisplayName :: qstring
  IsXray :: bool
  IsXrayFullConfig :: bool
  IsExtraCore :: bool

record Profile =
  type_of :: string
  latency :: int
  latency_at :: int
  test_country :: qstring
  outbound :: "member_outbound option"
  custom :: "custom_outbound option"

record Group =
  group_profiles :: "int list"
  landing_proxy_id :: int
  front_proxy_id :: int

record env =
  GetProfile :: "int \<Rightarrow> Profile option"
  GetGroup :: "int \<Rightarrow> Group option"
  regex :: "qstring \<Rightarrow> (qstring \<Rightarrow> bool) option"
  toUpper :: "qstring \<Rightarrow> qstring"

datatype AutoSelectorSkip = NoSkip | Missing | MetaType | CoreTransitions | ExtraCore | FullConfig | Malformed
  | Tailscale | ManagementEndpoint | NameFilter | CountryFilter | Unavailable | XrayFullChained

definition all_skips :: "AutoSelectorSkip list" where
  "all_skips = [NoSkip, Missing, MetaType, CoreTransitions, ExtraCore, FullConfig, Malformed,
     Tailscale, ManagementEndpoint, NameFilter, CountryFilter, Unavailable, XrayFullChained]"

record AutoSelectorPlan =
  plan_pool :: "int list"
  build :: "int list"
  membersInGroups :: nat
  missingGroups :: nat
  eligible :: nat
  rankedByTest :: nat
  keptUnavailable :: nat
  skipped :: "(AutoSelectorSkip \<times> nat) list"
  truncated :: bool
  poolCapUsed :: int
  buildLimitUsed :: int
  needsRanking :: bool
  plan_error :: string

definition empty_plan :: AutoSelectorPlan where
  "empty_plan = \<lparr>plan_pool = [], build = [], membersInGroups = 0, missingGroups = 0, eligible = 0,
     rankedByTest = 0, keptUnavailable = 0, skipped = [], truncated = False, poolCapUsed = 0,
     buildLimitUsed = 0, needsRanking = False, plan_error = []\<rparr>"

definition skippedCount :: "AutoSelectorPlan \<Rightarrow> nat" where
  "skippedCount p = foldl (\<lambda>total e. total + snd e) 0 (skipped p)"

subsection \<open>Filters\<close>

record MemberFilters =
  name_filter :: "(qstring \<Rightarrow> bool) option"
  countries :: "qstring set"
  excludedCountries :: "qstring set"

definition add_country :: "env \<Rightarrow> qstring \<Rightarrow> MemberFilters \<Rightarrow> MemberFilters" where
  "add_country E item f =
     (let code = trimmed item;
          exclude = (code \<noteq> [] \<and> hd code = 33);
          code = (if exclude then trimmed (tl code) else code)
      in if code = [] then f
         else if exclude then f\<lparr>excludedCountries := insert (toUpper E code) (excludedCountries f)\<rparr>
         else f\<lparr>countries := insert (toUpper E code) (countries f)\<rparr>)"

definition buildFilters :: "env \<Rightarrow> autoSelector \<Rightarrow> MemberFilters" where
  "buildFilters E s =
     fold (add_country E) (filter (\<lambda>i. i \<noteq> []) (split_on 44 (countryFilter s)))
       \<lparr>name_filter = (if trimmed (nameFilter s) \<noteq> [] then regex E (nameFilter s) else None),
        countries = {}, excludedCountries = {}\<rparr>"

definition hasFreshResult :: "Profile option \<Rightarrow> autoSelector \<Rightarrow> int \<Rightarrow> bool" where
  "hasFreshResult member s now =
     (case member of
        None \<Rightarrow> False
      | Some p \<Rightarrow>
          if latency p = 0 then False
          else if resultValidityMins s \<le> 0 then False
          else if latency_at p \<le> 0 then False
          else now - latency_at p \<le> resultValidityMins s * 60)"

definition country_fits :: "env \<Rightarrow> MemberFilters \<Rightarrow> Profile \<Rightarrow> bool" where
  "country_fits E f p =
     (let country = toUpper E (trimmed (test_country p))
      in \<not> (country = [] \<or> country \<in> excludedCountries f \<or> (countries f \<noteq> {} \<and> country \<notin> countries f)))"

definition custom_skip :: "Profile \<Rightarrow> AutoSelectorSkip" where
  "custom_skip p =
     (case custom p of
        None \<Rightarrow> Missing
      | Some c \<Rightarrow>
          if custom_type c \<noteq> ''outbound'' \<and> custom_type c \<noteq> ''xrayoutbound'' \<and>
             custom_type c \<noteq> ''xrayfullconfig'' then FullConfig
          else if config_object c = [] then Malformed else NoSkip)"

definition eligibilityOf :: "env \<Rightarrow> Profile option \<Rightarrow> autoSelector \<Rightarrow> MemberFilters \<Rightarrow> int \<Rightarrow> AutoSelectorSkip" where
  "eligibilityOf E member s f now =
     (case member of
        None \<Rightarrow> Missing
      | Some p \<Rightarrow>
         (case outbound p of
            None \<Rightarrow> Missing
          | Some ob \<Rightarrow>
              if type_of p = ''chain'' \<or> type_of p = ''autoselector'' then MetaType
              else if type_of p = ''tailscale'' then Tailscale
              else if type_of p = ''openvpn'' \<or> type_of p = ''openconnect'' then ManagementEndpoint
              else if IsExtraCore ob then ExtraCore
              else if type_of p = ''custom'' \<and> custom_skip p \<noteq> NoSkip then custom_skip p
              else if (case name_filter f of Some m \<Rightarrow> \<not> m (DisplayName ob) | None \<Rightarrow> False) then NameFilter
              else if (countries f \<noteq> {} \<or> excludedCountries f \<noteq> {}) \<and> \<not> country_fits E f p then CountryFilter
              else if excludeUnavailable s \<and> latency p < 0 \<and> hasFreshResult member s now then Unavailable
              else NoSkip))"

subsection \<open>Chains\<close>

definition hop :: "Profile option \<Rightarrow> int \<times> bool \<Rightarrow> int \<times> bool" where
  "hop h st =
     (case h of
        None \<Rightarrow> st
      | Some p \<Rightarrow>
          (case outbound p of
             None \<Rightarrow> st
           | Some ob \<Rightarrow> (if IsXray ob \<noteq> snd st then fst st + 1 else fst st, IsXray ob)))"

definition coreTransitions :: "Profile option \<Rightarrow> Profile option \<Rightarrow> Profile option \<Rightarrow> int" where
  "coreTransitions landing member front = fst (fold hop [landing, member, front] (0, False))"

definition xrayFullConfigFitsChain :: "Profile option \<Rightarrow> Profile option \<Rightarrow> bool" where
  "xrayFullConfigFitsChain landing front =
     (if front \<noteq> None then False
      else case landing of
        None \<Rightarrow> True
      | Some p \<Rightarrow>
          (case outbound p of
             None \<Rightarrow> True
           | Some ob \<Rightarrow> \<not> IsXray ob \<and> \<not> IsXrayFullConfig ob \<and> \<not> IsExtraCore ob))"

subsection \<open>Ranking\<close>

definition latencyRank :: "int \<Rightarrow> int" where
  "latencyRank l = (if 0 < l then 0 else if l = 0 then 1 else 2)"

definition effectiveLatency :: "Profile option \<Rightarrow> autoSelector \<Rightarrow> int \<Rightarrow> int" where
  "effectiveLatency member s now =
     (case member of Some p \<Rightarrow> if hasFreshResult member s now then latency p else 0 | None \<Rightarrow> 0)"

definition effectiveLatencyOf :: "env \<Rightarrow> int \<Rightarrow> autoSelector \<Rightarrow> int \<Rightarrow> int" where
  "effectiveLatencyOf E i s now = effectiveLatency (GetProfile E i) s now"

definition byLatency :: "int \<Rightarrow> int \<Rightarrow> bool" where
  "byLatency leftLatency rightLatency =
     (let leftRank = latencyRank leftLatency; rightRank = latencyRank rightLatency
      in if leftRank \<noteq> rightRank then leftRank < rightRank
         else if leftRank = 0 then leftLatency < rightLatency
         else False)"

definition sortByLatency :: "env \<Rightarrow> int list \<Rightarrow> autoSelector \<Rightarrow> int \<Rightarrow> int set \<Rightarrow> int list" where
  "sortByLatency E ids s now untrusted =
     (let lat = fold (\<lambda>i h. AList.update i (if i \<in> untrusted then 0 else effectiveLatencyOf E i s now) h) ids []
      in stable_sort (\<lambda>l r. byLatency (hash_value lat l 0) (hash_value lat r 0)) ids)"

subsection \<open>Eligible members\<close>

record scan =
  seen :: "int set"
  members :: "int list"
  unavailable :: "int list"
  skips :: "AutoSelectorSkip \<Rightarrow> nat"
  in_groups :: nat
  by_test :: nat

definition count_skip :: "AutoSelectorSkip \<Rightarrow> scan \<Rightarrow> scan" where
  "count_skip k st = st\<lparr>skips := (skips st)(k := skips st k + 1)\<rparr>"

definition scan_member ::
  "env \<Rightarrow> int \<Rightarrow> autoSelector \<Rightarrow> MemberFilters \<Rightarrow> int \<Rightarrow> Profile option \<Rightarrow> Profile option \<Rightarrow> int \<Rightarrow> scan \<Rightarrow> scan" where
  "scan_member E self s f now landing front i st =
     (if i = self \<or> i \<in> seen st then st
      else
        (let member = GetProfile E i;
             st = st\<lparr>seen := insert i (seen st), in_groups := in_groups st + 1\<rparr>;
             skip = eligibilityOf E member s f now
         in if skip \<noteq> NoSkip \<and> skip \<noteq> Unavailable then count_skip skip st
            else if (case member of Some p \<Rightarrow> (case outbound p of Some ob \<Rightarrow> IsXrayFullConfig ob | None \<Rightarrow> False)
                     | None \<Rightarrow> False) \<and> \<not> xrayFullConfigFitsChain landing front
            then count_skip XrayFullChained st
            else if \<not> (case member of Some p \<Rightarrow> (case outbound p of Some ob \<Rightarrow> IsXrayFullConfig ob | None \<Rightarrow> False)
                     | None \<Rightarrow> False) \<and> 2 < coreTransitions landing member front
            then count_skip CoreTransitions st
            else if skip = Unavailable then st\<lparr>unavailable := unavailable st @ [i]\<rparr>
            else st\<lparr>members := members st @ [i],
                    by_test := by_test st + (if 0 < effectiveLatency member s now then 1 else 0)\<rparr>))"

definition proxy_profile :: "env \<Rightarrow> int \<Rightarrow> Profile option" where
  "proxy_profile E i = (if 0 \<le> i then GetProfile E i else None)"

definition scan_group :: "env \<Rightarrow> int \<Rightarrow> autoSelector \<Rightarrow> MemberFilters \<Rightarrow> int \<Rightarrow> Group \<Rightarrow> scan \<Rightarrow> scan" where
  "scan_group E self s f now g st =
     fold (scan_member E self s f now (proxy_profile E (landing_proxy_id g)) (proxy_profile E (front_proxy_id g)))
       (group_profiles g) st"

definition empty_scan :: scan where
  "empty_scan = \<lparr>seen = {}, members = [], unavailable = [], skips = (\<lambda>_. 0), in_groups = 0, by_test = 0\<rparr>"

definition eligibleMembers :: "env \<Rightarrow> int \<Rightarrow> autoSelector \<Rightarrow> int \<Rightarrow> AutoSelectorPlan \<Rightarrow> int list \<times> AutoSelectorPlan" where
  "eligibleMembers E self s now plan =
     (if gids s = [] then ([], plan\<lparr>plan_error := ''Auto selector tracks no group''\<rparr>)
      else
        (let groups = List.map_filter (GetGroup E) (gids s);
             plan = plan\<lparr>missingGroups := missingGroups plan + length (filter (\<lambda>g. GetGroup E g = None) (gids s))\<rparr>
         in if groups = [] then
              ([], plan\<lparr>plan_error := ''Auto selector points at a group that no longer exists''\<rparr>)
            else
              (let st = fold (scan_group E self s (buildFilters E s) now) groups empty_scan;
                   plan = plan\<lparr>membersInGroups := membersInGroups plan + in_groups st,
                               rankedByTest := rankedByTest plan + by_test st\<rparr>;
                   keep = (members st = [] \<and> unavailable st \<noteq> []);
                   plan = (if keep then plan\<lparr>keptUnavailable := length (unavailable st)\<rparr> else plan);
                   sk = (if keep then skips st
                         else (skips st)(Unavailable := skips st Unavailable + length (unavailable st)));
                   plan = plan\<lparr>skipped := skipped plan @ [(k, sk k). k \<leftarrow> all_skips, 0 < sk k]\<rparr>
               in (if keep then unavailable st else members st, plan))))"

definition keep_persisted :: "int set \<Rightarrow> int list \<Rightarrow> int list" where
  "keep_persisted el persistedPool =
     fold (\<lambda>i ordered. if i \<notin> el \<or> i \<in> set ordered then ordered else ordered @ [i]) persistedPool []"

definition orderMembers :: "env \<Rightarrow> int list \<Rightarrow> int list \<Rightarrow> autoSelector \<Rightarrow> int \<Rightarrow> int list" where
  "orderMembers E ms persistedPool s now =
     (let ordered = keep_persisted (set ms) persistedPool;
          newcomers = filter (\<lambda>i. i \<notin> set ordered) ms
      in ordered @ sortByLatency E newcomers s now {})"

subsection \<open>The plan and its readers\<close>

text \<open>A profile: its id, and its auto selector when it is one. \<open>None\<close> is the null pointer.\<close>

type_synonym entity = "(int \<times> autoSelector option) option"

definition PlanAutoSelector :: "env \<Rightarrow> int \<Rightarrow> int \<Rightarrow> entity \<Rightarrow> AutoSelectorPlan" where
  "PlanAutoSelector E now now' ent =
     (case ent of
        None \<Rightarrow> empty_plan\<lparr>plan_error := ''Null profile passed to PlanAutoSelector''\<rparr>
      | Some (self, None) \<Rightarrow> empty_plan\<lparr>plan_error := ''Profile is not an auto selector, data is corrupted''\<rparr>
      | Some (self, Some sel) \<Rightarrow>
          (let s = Normalize sel;
               plan = empty_plan\<lparr>poolCapUsed := poolCap s, buildLimitUsed := buildLimit s\<rparr>;
               (ms, plan) = eligibleMembers E self s now plan
           in if plan_error plan \<noteq> [] then plan
              else
                (let plan = plan\<lparr>eligible := length ms\<rparr>
                 in if ms = [] then plan\<lparr>plan_error := ''Auto selector has no usable members''\<rparr>
                    else
                      (let ordered = orderMembers E ms (pool s) s now';
                           trunc = (poolCap s < int (length ordered));
                           ordered = (if trunc then take (nat (poolCap s)) ordered else ordered);
                           b = take (min (length ordered) (nat (buildLimit s))) ordered
                       in plan\<lparr>truncated := trunc, plan_pool := ordered, build := b,
                               needsRanking := (buildLimit s < int (length ordered) \<and>
                                  (\<exists>i \<in> set b. effectiveLatencyOf E i s now' = 0))\<rparr>))))"

definition AutoSelectorRankingCandidates :: "env \<Rightarrow> int \<Rightarrow> entity \<Rightarrow> int list" where
  "AutoSelectorRankingCandidates E now ent =
     (case ent of
        Some (self, Some sel) \<Rightarrow> fst (eligibleMembers E self (Normalize sel) now empty_plan)
      | _ \<Rightarrow> [])"

definition AutoSelectorUnmeasuredCandidates :: "env \<Rightarrow> int \<Rightarrow> int \<Rightarrow> entity \<Rightarrow> int list \<Rightarrow> int list \<times> nat" where
  "AutoSelectorUnmeasuredCandidates E now now' ent stale =
     (case ent of
        Some (self, Some sel) \<Rightarrow>
          (let candidates = AutoSelectorRankingCandidates E now ent; s = Normalize sel
           in (filter (\<lambda>i. i \<in> set stale \<or> effectiveLatencyOf E i s now' = 0) candidates,
               length (filter (\<lambda>i. i \<notin> set stale \<and> 0 < effectiveLatencyOf E i s now') candidates)))
      | _ \<Rightarrow> ([], 0))"

definition AutoSelectorMemberWorks :: "int \<Rightarrow> entity \<Rightarrow> Profile option \<Rightarrow> bool" where
  "AutoSelectorMemberWorks now ent member =
     (case ent of Some (self, Some s) \<Rightarrow> 0 < effectiveLatency member s now | _ \<Rightarrow> False)"

definition AutoSelectorStartQuorum :: "entity \<Rightarrow> int" where
  "AutoSelectorStartQuorum ent =
     (case ent of
        Some (self, Some sel) \<Rightarrow>
          (let s = Normalize sel in min (max (expected s) (activeSize s)) (buildLimit s))
      | _ \<Rightarrow> 0)"

definition AutoSelectorBuildChanged :: "env \<Rightarrow> int \<Rightarrow> int \<Rightarrow> int \<Rightarrow> entity \<Rightarrow> bool" where
  "AutoSelectorBuildChanged E now now' now'' ent =
     (case ent of
        Some (self, Some sel) \<Rightarrow>
          (let s = Normalize sel; plan = PlanAutoSelector E now now' ent
           in if plan_error plan \<noteq> [] then False
              else (\<exists>i \<in> set (lastBuilt s). i \<notin> set (build plan)) \<or>
                   (\<exists>i \<in> set (build plan). i \<notin> set (lastBuilt s) \<and> 0 < effectiveLatencyOf E i s now''))
      | _ \<Rightarrow> False)"

text \<open>
  The new pool, and the selector that is saved with it, which is not normalized first (\<^verbatim>\<open>mid\<close> with a
  negative length takes everything).
\<close>

definition RerankAutoSelectorPool ::
  "env \<Rightarrow> int \<Rightarrow> int \<Rightarrow> int \<Rightarrow> entity \<Rightarrow> int list \<Rightarrow> int list \<times> autoSelector option" where
  "RerankAutoSelectorPool E now now' now'' ent untrusted =
     (case ent of
        Some (self, Some s) \<Rightarrow>
          (let ms = fst (eligibleMembers E self s now empty_plan);
               ms = sortByLatency E ms s now' (set untrusted);
               ms = (if poolCap s < int (length ms) \<and> 0 \<le> poolCap s then take (nat (poolCap s)) ms else ms)
           in (ms, Some (s\<lparr>pool := ms, poolRankedAt := now''\<rparr>)))
      | _ \<Rightarrow> ([], None))"

definition AutoSelectorSkipReason :: "AutoSelectorSkip \<Rightarrow> string" where
  "AutoSelectorSkipReason skip =
     (case skip of
        Missing \<Rightarrow> ''missing profile''
      | MetaType \<Rightarrow> ''chain or auto selector''
      | CoreTransitions \<Rightarrow> ''needs too many core switches''
      | ExtraCore \<Rightarrow> ''extra-core profile''
      | FullConfig \<Rightarrow> ''full config profile''
      | Malformed \<Rightarrow> ''config does not parse''
      | Tailscale \<Rightarrow> ''Tailscale profile''
      | ManagementEndpoint \<Rightarrow> ''OpenVPN or OpenConnect profile''
      | NameFilter \<Rightarrow> ''filtered out by name''
      | CountryFilter \<Rightarrow> ''filtered out by country''
      | Unavailable \<Rightarrow> ''last test failed''
      | XrayFullChained \<Rightarrow> ''Xray full config cannot be combined with the group'' @ [CHR 0x27] @ ''s proxies''
      | NoSkip \<Rightarrow> [])"

section \<open>The order\<close>

text \<open>Working members by their latency, then untested ones, then failed ones.\<close>

lemma byLatency_order: "strict_weak_order (\<lambda>l r. byLatency (f l) (f r))" for f :: "'a \<Rightarrow> int"
  by unfold_locales (auto simp: byLatency_def latencyRank_def Let_def split: if_splits)

interpretation latency_order: strict_weak_order "\<lambda>l r. byLatency (f l) (f r)" for f :: "'a \<Rightarrow> int"
  by (rule byLatency_order)

lemma lat_lookup:
  "map_of (fold (\<lambda>i h. AList.update i (g i) h) ids h) i = (if i \<in> set ids then Some (g i) else map_of h i)"
  by (induction ids arbitrary: h) auto

lemma stable_sort_cong:
  assumes "\<And>x y. x \<in> set xs \<Longrightarrow> y \<in> set xs \<Longrightarrow> lt x y = lt' x y"
  shows "stable_sort lt xs = stable_sort lt' xs"
proof -
  have ins: "insert_by lt x ys = insert_by lt' x ys" if "\<forall>y \<in> set ys. lt y x = lt' y x" for x ys
    using that by (induction ys) auto
  show ?thesis using assms
  proof (induction xs)
    case (Cons x xs)
    then have "stable_sort lt xs = stable_sort lt' xs" by simp
    moreover have "\<forall>y \<in> set (stable_sort lt' xs). lt y x = lt' y x" using Cons.prems by simp
    ultimately show ?case using ins by simp
  qed simp
qed

definition sort_key :: "env \<Rightarrow> autoSelector \<Rightarrow> int \<Rightarrow> int set \<Rightarrow> int \<Rightarrow> int" where
  "sort_key E s now untrusted i = (if i \<in> untrusted then 0 else effectiveLatencyOf E i s now)"

lemma sortByLatency_key:
  "sortByLatency E ids s now untrusted =
     stable_sort (\<lambda>l r. byLatency (sort_key E s now untrusted l) (sort_key E s now untrusted r)) ids"
  unfolding sortByLatency_def Let_def
  by (rule stable_sort_cong) (simp add: lat_lookup sort_key_def)

lemma set_sortByLatency [simp]:
  "set (sortByLatency E ids s now u) = set ids" "length (sortByLatency E ids s now u) = length ids"
  "distinct (sortByLatency E ids s now u) = distinct ids"
  by (simp_all add: sortByLatency_key)

text \<open>
  Sorting by latency is a stable sort: the result is a permutation of the members in which nobody is
  preceded by a member that ranks after it, and members that rank alike keep their order; a member whose
  result is not trusted ranks as untested.
\<close>

theorem sortByLatency_stable:
  fixes E s now u ids
  defines "key \<equiv> sort_key E s now u"
  shows "mset (sortByLatency E ids s now u) = mset ids \<and>
         sorted_wrt (\<lambda>a b. \<not> byLatency (key b) (key a)) (sortByLatency E ids s now u) \<and>
         (\<forall>k. filter (\<lambda>i. \<not> byLatency (key k) (key i) \<and> \<not> byLatency (key i) (key k)) (sortByLatency E ids s now u) =
              filter (\<lambda>i. \<not> byLatency (key k) (key i) \<and> \<not> byLatency (key i) (key k)) ids)"
  using latency_order.sorted_stable_sort [of key ids] latency_order.stable [of key _ ids]
  by (simp add: sortByLatency_key key_def latency_order.equiv_to_def [abs_def])

section \<open>The scan\<close>

definition is_full_xray :: "env \<Rightarrow> int \<Rightarrow> bool" where
  "is_full_xray E i = (case GetProfile E i of
     Some p \<Rightarrow> (case outbound p of Some ob \<Rightarrow> IsXrayFullConfig ob | None \<Rightarrow> False) | None \<Rightarrow> False)"

definition fits_chain :: "env \<Rightarrow> Group \<Rightarrow> int \<Rightarrow> bool" where
  "fits_chain E g i =
     (let landing = proxy_profile E (landing_proxy_id g); front = proxy_profile E (front_proxy_id g)
      in if is_full_xray E i then xrayFullConfigFitsChain landing front
         else coreTransitions landing (GetProfile E i) front \<le> 2)"

definition usable :: "env \<Rightarrow> int \<Rightarrow> autoSelector \<Rightarrow> int \<Rightarrow> Group \<Rightarrow> int \<Rightarrow> bool" where
  "usable E self s now g i \<longleftrightarrow> i \<in> set (group_profiles g) \<and> i \<noteq> self \<and> fits_chain E g i \<and>
     eligibilityOf E (GetProfile E i) s (buildFilters E s) now \<in> {NoSkip, Unavailable}"

definition scan_inv :: "env \<Rightarrow> int \<Rightarrow> autoSelector \<Rightarrow> int \<Rightarrow> Group set \<Rightarrow> scan \<Rightarrow> bool" where
  "scan_inv E self s now G st \<longleftrightarrow>
     distinct (members st @ unavailable st) \<and> set (members st @ unavailable st) \<subseteq> seen st \<and>
     (\<forall>i \<in> set (members st @ unavailable st). \<exists>g \<in> G. usable E self s now g i) \<and>
     in_groups st = length (members st) + length (unavailable st) + (\<Sum>k \<leftarrow> all_skips. skips st k) \<and>
     skips st NoSkip = 0 \<and> skips st Unavailable = 0 \<and> by_test st \<le> length (members st)"

lemma sum_count_skip:
  "k \<noteq> NoSkip \<Longrightarrow> (\<Sum>j \<leftarrow> all_skips. skips (count_skip k st) j) = Suc (\<Sum>j \<leftarrow> all_skips. skips st j)"
  by (cases k) (simp_all add: all_skips_def count_skip_def)

lemma scan_inv_skip:
  assumes "scan_inv E self s now G st" "k \<noteq> NoSkip" "k \<noteq> Unavailable"
  shows "scan_inv E self s now G (count_skip k (st\<lparr>seen := insert i (seen st), in_groups := in_groups st + 1\<rparr>))"
  using assms sum_count_skip [of k "st\<lparr>seen := insert i (seen st), in_groups := in_groups st + 1\<rparr>"]
  by (auto simp: scan_inv_def count_skip_def)

lemma scan_member_cases:
  assumes "i \<noteq> self" "i \<notin> seen st"
  shows "scan_member E self s f now (proxy_profile E (landing_proxy_id g)) (proxy_profile E (front_proxy_id g)) i st =
    (let st' = st\<lparr>seen := insert i (seen st), in_groups := in_groups st + 1\<rparr>;
         skip = eligibilityOf E (GetProfile E i) s f now in
     if skip \<noteq> NoSkip \<and> skip \<noteq> Unavailable then count_skip skip st'
     else if \<not> fits_chain E g i then count_skip (if is_full_xray E i then XrayFullChained else CoreTransitions) st'
     else if skip = Unavailable then st'\<lparr>unavailable := unavailable st' @ [i]\<rparr>
     else st'\<lparr>members := members st' @ [i],
              by_test := by_test st' + (if 0 < effectiveLatency (GetProfile E i) s now then 1 else 0)\<rparr>)"
  using assms by (simp add: scan_member_def Let_def fits_chain_def is_full_xray_def [symmetric] not_le)

lemma scan_inv_member:
  assumes inv: "scan_inv E self s now G st" and g: "g \<in> G" and i: "i \<in> set (group_profiles g)"
  shows "scan_inv E self s now G (scan_member E self s (buildFilters E s) now (proxy_profile E (landing_proxy_id g))
           (proxy_profile E (front_proxy_id g)) i st)"
proof (cases "i = self \<or> i \<in> seen st")
  case False
  define st' where "st' = st\<lparr>seen := insert i (seen st), in_groups := in_groups st + 1\<rparr>"
  define skip where "skip = eligibilityOf E (GetProfile E i) s (buildFilters E s) now"
  have n: "i \<notin> set (members st)" "i \<notin> set (unavailable st)" using inv False by (auto simp: scan_inv_def)
  have skips: "k \<noteq> NoSkip \<Longrightarrow> k \<noteq> Unavailable \<Longrightarrow> scan_inv E self s now G (count_skip k st')" for k
    using scan_inv_skip [OF inv] by (simp add: st'_def)
  have u: "skip \<in> {NoSkip, Unavailable} \<Longrightarrow> fits_chain E g i \<Longrightarrow> usable E self s now g i"
    using False i by (simp add: usable_def skip_def)
  have un: "scan_inv E self s now G (st'\<lparr>unavailable := unavailable st' @ [i]\<rparr>)" if "usable E self s now g i"
    using inv n g that by (auto simp: scan_inv_def st'_def)
  have me: "scan_inv E self s now G (st'\<lparr>members := members st' @ [i], by_test := by_test st' + n\<rparr>)"
    if "usable E self s now g i" "n \<le> 1" for n
    using inv n g that by (auto simp: scan_inv_def st'_def)
  have step: "scan_member E self s (buildFilters E s) now (proxy_profile E (landing_proxy_id g))
      (proxy_profile E (front_proxy_id g)) i st =
    (if skip \<noteq> NoSkip \<and> skip \<noteq> Unavailable then count_skip skip st'
     else if \<not> fits_chain E g i then count_skip (if is_full_xray E i then XrayFullChained else CoreTransitions) st'
     else if skip = Unavailable then st'\<lparr>unavailable := unavailable st' @ [i]\<rparr>
     else st'\<lparr>members := members st' @ [i],
              by_test := by_test st' + (if 0 < effectiveLatency (GetProfile E i) s now then 1 else 0)\<rparr>)"
    using scan_member_cases [of i self st] False unfolding Let_def st'_def skip_def by blast
  show ?thesis unfolding step using skips un me u by simp
qed (use inv in \<open>auto simp: scan_member_def\<close>)

lemma scan_inv_group:
  assumes "scan_inv E self s now G st" "g \<in> G"
  shows "scan_inv E self s now G (scan_group E self s (buildFilters E s) now g st)"
proof -
  have "set is \<subseteq> set (group_profiles g) \<Longrightarrow> scan_inv E self s now G (fold (scan_member E self s (buildFilters E s) now
      (proxy_profile E (landing_proxy_id g)) (proxy_profile E (front_proxy_id g))) is st)" for "is"
    using assms(1) by (induction "is" arbitrary: st) (simp_all add: scan_inv_member assms(2))
  then show ?thesis by (simp add: scan_group_def)
qed

lemma scan_inv_groups:
  assumes "set gs \<subseteq> G" "scan_inv E self s now G st"
  shows "scan_inv E self s now G (fold (scan_group E self s (buildFilters E s) now) gs st)"
  using assms by (induction gs arbitrary: st) (simp_all add: scan_inv_group)

lemma scan_inv_empty: "scan_inv E self s now G empty_scan"
  by (simp add: scan_inv_def empty_scan_def all_skips_def)

definition tracked_groups :: "env \<Rightarrow> autoSelector \<Rightarrow> Group set" where
  "tracked_groups E s = {g. \<exists>gid \<in> set (gids s). GetGroup E gid = Some g}"

lemma set_tracked: "set (List.map_filter (GetGroup E) (gids s)) = tracked_groups E s"
  by (force simp: tracked_groups_def List.map_filter_def)

lemma sum_positive: "foldl (\<lambda>t e. t + snd e) n [(k, f k). k \<leftarrow> ks, 0 < f k] = n + (\<Sum>k \<leftarrow> ks. f k)"
  for f :: "'a \<Rightarrow> nat" and n :: nat
  by (induction ks arbitrary: n) auto

text \<open>What \<open>eligibleMembers\<close> answers when it reports no error.\<close>

definition scanned :: "env \<Rightarrow> int \<Rightarrow> autoSelector \<Rightarrow> int \<Rightarrow> scan" where
  "scanned E self s now =
     fold (scan_group E self s (buildFilters E s) now) (List.map_filter (GetGroup E) (gids s)) empty_scan"

definition keeps :: "scan \<Rightarrow> bool" where
  "keeps st \<longleftrightarrow> members st = [] \<and> unavailable st \<noteq> []"

definition final_skips :: "scan \<Rightarrow> AutoSelectorSkip \<Rightarrow> nat" where
  "final_skips st = (if keeps st then skips st
     else (skips st)(Unavailable := skips st Unavailable + length (unavailable st)))"

lemma eligibleMembers_fields:
  assumes "gids s \<noteq> []" "List.map_filter (GetGroup E) (gids s) \<noteq> []"
  shows "fst (eligibleMembers E self s now plan) =
           (let st = scanned E self s now in if keeps st then unavailable st else members st)"
    "membersInGroups (snd (eligibleMembers E self s now plan)) = membersInGroups plan + in_groups (scanned E self s now)"
    "rankedByTest (snd (eligibleMembers E self s now plan)) = rankedByTest plan + by_test (scanned E self s now)"
    "skipped (snd (eligibleMembers E self s now plan)) = skipped plan @
       [(k, final_skips (scanned E self s now) k). k \<leftarrow> all_skips, 0 < final_skips (scanned E self s now) k]"
    "plan_error (snd (eligibleMembers E self s now plan)) = plan_error plan"
  using assms unfolding eligibleMembers_def scanned_def [symmetric] keeps_def [symmetric] final_skips_def Let_def
  by simp_all

lemma eligibleMembers_errors:
  assumes "plan_error (snd (eligibleMembers E self s now plan)) = []"
  shows "gids s \<noteq> []" "List.map_filter (GetGroup E) (gids s) \<noteq> []"
  using assms by (auto simp: eligibleMembers_def Let_def split: if_splits)

lemma eligibleMembers_spec:
  assumes "eligibleMembers E self s now plan0 = (ms, plan)" "plan_error plan = []"
    and "membersInGroups plan0 = 0" "rankedByTest plan0 = 0" "skipped plan0 = []"
  shows "distinct ms" "\<forall>i \<in> set ms. \<exists>g \<in> tracked_groups E s. usable E self s now g i"
    "membersInGroups plan = length ms + skippedCount plan" "rankedByTest plan \<le> length ms"
proof -
  define st where "st = scanned E self s now"
  have inv: "scan_inv E self s now (tracked_groups E s) st"
    unfolding st_def scanned_def by (rule scan_inv_groups) (simp_all add: set_tracked scan_inv_empty)
  have ne: "gids s \<noteq> []" "List.map_filter (GetGroup E) (gids s) \<noteq> []"
    using eligibleMembers_errors [of E self s now plan0] assms(1,2) by simp_all
  note f = eligibleMembers_fields [OF ne, of self now plan0, unfolded assms(1) st_def [symmetric] fst_conv snd_conv assms(3-5)]
  have ms: "ms = (if keeps st then unavailable st else members st)" by (simp add: f(1) Let_def)
  show "distinct ms" "\<forall>i \<in> set ms. \<exists>g \<in> tracked_groups E s. usable E self s now g i"
    using inv by (auto simp: ms scan_inv_def)
  have "skippedCount plan = (\<Sum>k \<leftarrow> all_skips. final_skips st k)"
    by (simp only: skippedCount_def f(4) append_Nil sum_positive add_0)
  moreover have "(\<Sum>k \<leftarrow> all_skips. final_skips st k) + length ms = in_groups st"
    using inv by (cases "keeps st") (auto simp: final_skips_def ms scan_inv_def keeps_def all_skips_def)
  ultimately show "membersInGroups plan = length ms + skippedCount plan" by (simp add: f(2))
  show "rankedByTest plan \<le> length ms" using inv by (auto simp: f(3) ms scan_inv_def keeps_def)
qed

lemma keep_persisted_props:
  "distinct (keep_persisted el p) \<and> set (keep_persisted el p) = set p \<inter> el"
proof -
  have "distinct t \<Longrightarrow> distinct (fold (\<lambda>i t. if i \<notin> el \<or> i \<in> set t then t else t @ [i]) p t) \<and>
      set (fold (\<lambda>i t. if i \<notin> el \<or> i \<in> set t then t else t @ [i]) p t) = set t \<union> (set p \<inter> el)" for t
  proof (induction p arbitrary: t)
    case (Cons i p)
    show ?case
    proof (cases "i \<notin> el \<or> i \<in> set t")
      case True
      with Cons show ?thesis by auto
    next
      case False
      with Cons.IH [of "t @ [i]"] Cons.prems show ?thesis by auto
    qed
  qed simp
  from this [of "[]"] show ?thesis by (simp add: keep_persisted_def)
qed

lemma keep_persisted_id: "distinct p \<Longrightarrow> keep_persisted el p = filter (\<lambda>i. i \<in> el) p"
proof -
  have "distinct (t @ p) \<Longrightarrow> fold (\<lambda>i t. if i \<notin> el \<or> i \<in> set t then t else t @ [i]) p t = t @ filter (\<lambda>i. i \<in> el) p" for t
    by (induction p arbitrary: t) auto
  from this [of "[]"] show "distinct p \<Longrightarrow> ?thesis" by (simp add: keep_persisted_def)
qed

lemma orderMembers_perm:
  assumes "distinct ms"
  shows "distinct (orderMembers E ms p s now) \<and> set (orderMembers E ms p s now) = set ms \<and>
         length (orderMembers E ms p s now) = length ms"
proof -
  have "distinct (orderMembers E ms p s now)" "set (orderMembers E ms p s now) = set ms"
    using assms keep_persisted_props [of "set ms" p] by (auto simp: orderMembers_def Let_def)
  with assms show ?thesis using distinct_card by metis
qed

text \<open>The plan of a profile without an error.\<close>

lemma plan_parts:
  assumes "PlanAutoSelector E now now' (Some (self, Some sel)) = p" "plan_error p = []"
  obtains ms where "distinct ms" "ms \<noteq> []"
    "\<forall>i \<in> set ms. \<exists>g \<in> tracked_groups E (Normalize sel). usable E self (Normalize sel) now g i"
    "membersInGroups p = length ms + skippedCount p" "rankedByTest p \<le> length ms" "eligible p = length ms"
    "plan_pool p = take (nat (poolCap (Normalize sel))) (orderMembers E ms (pool (Normalize sel)) (Normalize sel) now')"
    "build p = take (nat (buildLimit (Normalize sel))) (plan_pool p)"
proof -
  define s where "s = Normalize sel"
  obtain ms plan where el: "eligibleMembers E self s now
      (empty_plan\<lparr>poolCapUsed := poolCap s, buildLimitUsed := buildLimit s\<rparr>) = (ms, plan)" by fastforce
  have ok: "plan_error plan = []" "ms \<noteq> []"
    using assms el by (auto simp: PlanAutoSelector_def s_def [symmetric] Let_def split: if_splits)
  note spec = eligibleMembers_spec [OF el ok(1)]
  have lim: "0 \<le> poolCap s" "0 \<le> buildLimit s" using normal_limits [of sel] by (simp_all add: s_def)
  define ordered where "ordered = orderMembers E ms (pool s) s now'"
  have pool: "plan_pool p = take (nat (poolCap s)) ordered"
    and build: "build p = take (nat (buildLimit s)) (plan_pool p)"
    and rest: "eligible p = length ms" "membersInGroups p = membersInGroups plan" "rankedByTest p = rankedByTest plan"
      "skipped p = skipped plan"
    using assms(1) el ok lim
    by (auto simp: PlanAutoSelector_def s_def [symmetric] ordered_def [symmetric] Let_def take_all_iff min_def)
  show thesis
    by (rule that [of ms])
       (use spec ok rest pool build in \<open>simp_all add: s_def ordered_def skippedCount_def empty_plan_def\<close>)
qed

text \<open>
  C35. A plan that reports no error is usable: the pool holds different profiles, at most the pool cap, and
  the build is its first part, not empty and at most the build limit; every profile in it comes from a
  tracked group that exists, is not the selector itself, passed every filter, and fits the chain its group
  wraps it in (at most two switches between the cores).
\<close>

theorem plan_usable:
  assumes "PlanAutoSelector E now now' (Some (self, Some sel)) = p" "plan_error p = []"
  shows "distinct (plan_pool p) \<and> int (length (plan_pool p)) \<le> poolCap (Normalize sel) \<and>
         build p = take (nat (buildLimit (Normalize sel))) (plan_pool p) \<and> build p \<noteq> [] \<and>
         (\<forall>i \<in> set (plan_pool p). \<exists>g \<in> tracked_groups E (Normalize sel). usable E self (Normalize sel) now g i)"
proof -
  obtain ms where ms: "distinct ms" "ms \<noteq> []"
    "\<forall>i \<in> set ms. \<exists>g \<in> tracked_groups E (Normalize sel). usable E self (Normalize sel) now g i"
    "plan_pool p = take (nat (poolCap (Normalize sel))) (orderMembers E ms (pool (Normalize sel)) (Normalize sel) now')"
    "build p = take (nat (buildLimit (Normalize sel))) (plan_pool p)"
    by (rule plan_parts [OF assms])
  have lim: "1 \<le> poolCap (Normalize sel)" "1 \<le> buildLimit (Normalize sel)"
    using normal_limits [of sel] by linarith+
  have "set (plan_pool p) \<subseteq> set ms" using orderMembers_perm [OF ms(1)] set_take_subset by (fastforce simp: ms(4))
  moreover have "distinct (plan_pool p)" using orderMembers_perm [OF ms(1)] by (simp add: ms(4))
  moreover have "plan_pool p \<noteq> []" "build p \<noteq> []"
    using orderMembers_perm [OF ms(1), of E "pool (Normalize sel)" "Normalize sel" now'] ms(2) lim
    by (auto simp: ms(4,5))
  moreover have "int (length (plan_pool p)) \<le> poolCap (Normalize sel)" using lim by (simp add: ms(4))
  ultimately show ?thesis using ms(3,5) by blast
qed

text \<open>
  Every profile of the tracked groups is accounted for: the profiles counted across the groups are the
  eligible ones and the ones counted under a reason for skipping them, and those ranked by a test are
  eligible ones.
\<close>

theorem plan_accounts:
  assumes "PlanAutoSelector E now now' (Some (self, Some sel)) = p" "plan_error p = []"
  shows "membersInGroups p = eligible p + skippedCount p \<and> rankedByTest p \<le> eligible p"
  by (rule plan_parts [OF assms]) simp

text \<open>
  The order of the pool is kept: the persisted order of the members that are still eligible comes first,
  and the newcomers follow, sorted by latency.
\<close>

theorem order_kept:
  assumes "distinct persisted"
  shows "orderMembers E ms persisted s now =
         filter (\<lambda>i. i \<in> set ms) persisted @
         sortByLatency E (filter (\<lambda>i. i \<notin> set persisted) ms) s now {}"
proof -
  have "filter (\<lambda>i. i \<notin> set (filter (\<lambda>i. i \<in> set ms) persisted)) ms = filter (\<lambda>i. i \<notin> set persisted) ms"
    by (rule filter_cong) auto
  then show ?thesis by (simp add: orderMembers_def keep_persisted_id [OF assms] Let_def del: set_filter)
qed

text \<open>
  A selector may start once its closely checked members work: the quorum of a selector is the
  normalized number of closely checked members, at least one and at most what the config may hold.
\<close>

theorem quorum_is_active_size:
  "AutoSelectorStartQuorum (Some (self, Some sel)) = activeSize (Normalize sel) \<and>
   1 \<le> AutoSelectorStartQuorum (Some (self, Some sel)) \<and>
   AutoSelectorStartQuorum (Some (self, Some sel)) \<le> buildLimit (Normalize sel)"
  using normal_sizes [of sel] by (simp add: AutoSelectorStartQuorum_def Let_def)

section \<open>A concrete plan\<close>

definition plain :: "int \<Rightarrow> int \<Rightarrow> Profile" where
  "plain ms at = \<lparr>type_of = ''vless'', latency = ms, latency_at = at, test_country = [],
     outbound = Some \<lparr>DisplayName = [], IsXray = False, IsXrayFullConfig = False, IsExtraCore = False\<rparr>, custom = None\<rparr>"

definition sample_env :: env where
  "sample_env = \<lparr>
     GetProfile = (\<lambda>i. if i = 1 then Some (plain 90 1000) else if i = 2 then Some (plain 40 1000)
                     else if i = 3 then Some (plain (-1) 1000) else if i = 4 then Some (plain 0 0) else None),
     GetGroup = (\<lambda>g. if g = 5 then Some \<lparr>group_profiles = [1, 2, 3, 4, 9], landing_proxy_id = -1,
                                        front_proxy_id = -1\<rparr> else None),
     regex = (\<lambda>_. None), toUpper = (\<lambda>s. s)\<rparr>"

definition sample_selector :: autoSelector where
  "sample_selector = new_selector\<lparr>gids := [5], poolCap := 3, buildLimit := 2\<rparr>"

lemmas plan_eval = PlanAutoSelector_def eligibleMembers_def scan_group_def scan_member_def eligibilityOf_def
  buildFilters_def hasFreshResult_def sample_env_def sample_selector_def plain_def new_selector_def
  Normalize_def tracked_gids_def kMaxPoolCap_def kMaxBuildLimit_def List.map_filter_def empty_scan_def
  proxy_profile_def coreTransitions_def hop_def count_skip_def effectiveLatency_def effectiveLatencyOf_def
  orderMembers_def keep_persisted_def sortByLatency_def byLatency_def latencyRank_def empty_plan_def
  all_skips_def Let_def

lemma sample_plan:
  "plan_error (PlanAutoSelector sample_env 2000 2000 (Some (9, Some sample_selector))) = []"
  "build (PlanAutoSelector sample_env 2000 2000 (Some (9, Some sample_selector))) = [2, 1]"
  "membersInGroups (PlanAutoSelector sample_env 2000 2000 (Some (9, Some sample_selector))) = 4"
  by (simp_all add: plan_eval)

theorem plan_usable_witness:
  "distinct (plan_pool (PlanAutoSelector sample_env 2000 2000 (Some (9, Some sample_selector))))"
  using plan_usable [OF refl sample_plan(1)] by blast

theorem plan_accounts_witness:
  "eligible (PlanAutoSelector sample_env 2000 2000 (Some (9, Some sample_selector))) +
   skippedCount (PlanAutoSelector sample_env 2000 2000 (Some (9, Some sample_selector))) = 4"
  using plan_accounts [OF refl sample_plan(1)] sample_plan(3) by simp

theorem order_kept_witness:
  "orderMembers sample_env [1, 2, 4] [4] sample_selector 2000 = [4, 2, 1]"
  using order_kept [of "[4]" sample_env "[1, 2, 4]" sample_selector 2000]
  by (simp add: plan_eval)

end
