(* ===== verification/AutoSelectorMonitor.thy ===== *)
theory AutoSelectorMonitor
  imports AutoSelector
begin

text \<open>
  The watcher of the running auto selector, \<^verbatim>\<open>src/stats/autoselector/AutoSelectorMonitor.cpp\<close>: what the
  core reports about the pool is turned into a view, fed back into the profiles' test results, and an
  exhausted pool is reported with a growing pause. Each section that holds the mutex is a step; \<open>poll\<close> runs
  its sections one after the other. Answers of the core and the profile repository are arguments.
\<close>

record AutoSelectorMemberView =
  tag :: qstring
  mv_profileID :: int
  mv_name :: qstring
  rank :: int
  state :: qstring
  selected :: bool
  selectedUDP :: bool
  pinned :: bool
  mv_qualified :: bool
  mv_active :: bool
  averageMs :: int
  deviationMs :: int
  minMs :: int
  maxMs :: int
  samples :: int
  mv_failures :: int
  probes :: int
  dialTotal :: int
  dialFail :: int
  lastOKms :: int
  lastProbeMs :: int
  cooldownUntilMs :: int
  lastError :: qstring

definition isDead :: "AutoSelectorMemberView \<Rightarrow> bool" where
  "isDead m \<longleftrightarrow> state m = lit ''dead''"

definition isUsable :: "AutoSelectorMemberView \<Rightarrow> bool" where
  "isUsable m \<longleftrightarrow> state m = lit ''ok'' \<or> state m = lit ''degraded''"

definition hasProblem :: "AutoSelectorMemberView \<Rightarrow> bool" where
  "hasProblem m \<longleftrightarrow> state m = lit ''dead'' \<or> state m = lit ''cooldown'' \<or> state m = lit ''degraded''"

record AutoSelectorView =
  valid :: bool
  v_groupTag :: qstring
  v_profileID :: int
  phase :: qstring
  selectedTag :: qstring
  selectedName :: qstring
  selectedProfileID :: int
  pinnedTag :: qstring
  pinnedName :: qstring
  v_balance :: bool
  v_balanceMode :: qstring
  suspended :: bool
  suspendedSinceMs :: int
  membersTotal :: int
  membersProbed :: int
  membersAlive :: int
  membersQualified :: int
  membersCooldown :: int
  probesInFlight :: int
  roundsCompleted :: int
  lastRoundMs :: int
  nextRoundMs :: int
  lastSwitchMs :: int
  lastSwitchReason :: qstring
  updatedAtMs :: int
  exhaustedSinceMs :: int
  v_members :: "AutoSelectorMemberView list"

definition empty_view :: AutoSelectorView where
  "empty_view =
     \<lparr>valid = False, v_groupTag = [], v_profileID = -1, phase = [], selectedTag = [], selectedName = [],
      selectedProfileID = -1, pinnedTag = [], pinnedName = [], v_balance = False, v_balanceMode = [],
      suspended = False, suspendedSinceMs = 0, membersTotal = 0, membersProbed = 0, membersAlive = 0,
      membersQualified = 0, membersCooldown = 0, probesInFlight = 0, roundsCompleted = 0, lastRoundMs = 0,
      nextRoundMs = 0, lastSwitchMs = 0, lastSwitchReason = [], updatedAtMs = 0, exhaustedSinceMs = 0,
      v_members = []\<rparr>"

text \<open>Texts of numbers; \<^verbatim>\<open>/\<close> truncates towards zero.\<close>

definition num :: "int \<Rightarrow> qstring" where
  "num n = lit (show_int n)"

definition quot :: "int \<Rightarrow> int \<Rightarrow> int" where
  "quot a b = (if a < 0 then - ((- a) div b) else a div b)"

definition elapsedText :: "int \<Rightarrow> int \<Rightarrow> qstring" where
  "elapsedText now sinceMs =
     (if sinceMs \<le> 0 then lit ''never''
      else
        (let secs = quot (now - sinceMs) 1000
         in if secs < 60 then num secs @ lit ''s ago''
            else if secs < 3600 then num (quot secs 60) @ lit ''m ago''
            else num (quot secs 3600) @ lit ''h ago''))"

definition dash :: qstring where
  "dash = [32, 8212, 32]"

definition summary :: "int \<Rightarrow> AutoSelectorView \<Rightarrow> qstring" where
  "summary now v =
     (if \<not> valid v then []
      else if suspended v then
        lit ''Auto selector paused'' @ dash @ lit ''no network connection ('' @ num (membersTotal v) @ lit '' profiles held)''
      else if phase v = lit ''starting'' \<or> (phase v = lit ''probing'' \<and> membersProbed v = 0) then
        lit ''Auto selector starting'' @ dash @ lit ''checking '' @ num (membersTotal v) @ lit '' profiles''
      else if phase v = lit ''probing'' then
        lit ''Auto selector checking profiles ('' @ num (membersProbed v) @ lit ''/'' @ num (membersTotal v) @
          lit '' measured)''
      else if membersAlive v = 0 then
        lit ''Auto selector'' @ dash @ lit ''no working profile out of '' @ num (membersTotal v) @ lit '', still checking''
      else
        lit ''Auto selector on '' @ (if selectedName v = [] then selectedTag v else selectedName v) @
          lit '' ('' @ num (membersAlive v) @ lit '' of '' @ num (membersTotal v) @ lit '' working)'' @
          (if 0 < lastSwitchMs v then lit '', switched '' @ elapsedText now (lastSwitchMs v) else []))"

fun join_with :: "qstring \<Rightarrow> qstring list \<Rightarrow> qstring" where
  "join_with sep [] = []"
| "join_with sep [p] = p"
| "join_with sep (p # ps) = p @ sep @ join_with sep ps"

definition detail :: "AutoSelectorView \<Rightarrow> qstring" where
  "detail v =
     (if \<not> valid v then []
      else
        (let untested = membersTotal v - membersProbed v;
             parts = (if 0 < membersProbed v then
                        [num (membersAlive v) @ lit '' working''] @
                        (if 0 < membersCooldown v then [num (membersCooldown v) @ lit '' cooling down''] else []) @
                        (if 0 < untested then [num untested @ lit '' not checked yet''] else [])
                      else []) @
                     (if 0 < probesInFlight v then [num (probesInFlight v) @ lit '' being checked''] else []) @
                     (if v_balance v then [lit ''balancing over '' @ num (membersQualified v)] else [])
         in if parts = [] then []
            else num (membersTotal v) @ lit '' profiles: '' @ join_with (lit '', '') parts))"

subsection \<open>The monitor\<close>

definition kPoolExhaustedGraceSecs :: int where "kPoolExhaustedGraceSecs = 20"
definition kRebuildBackoffMinSecs :: int where "kRebuildBackoffMinSecs = 60"
definition kRebuildBackoffMaxSecs :: int where "kRebuildBackoffMaxSecs = 600"

record monitor =
  view :: AutoSelectorView
  tagToProfile :: "(qstring, int) qhash"
  tagToName :: "(qstring, qstring) qhash"
  groupTag :: qstring
  m_profileID :: int
  active :: bool
  exhaustedSince :: int
  lastRebuildRequest :: int
  rebuildBackoffSecs :: int
  lastHealthPersist :: int

definition new_monitor :: monitor where
  "new_monitor = \<lparr>view = empty_view, tagToProfile = [], tagToName = [], groupTag = [], m_profileID = -1,
     active = False, exhaustedSince = 0, lastRebuildRequest = 0, rebuildBackoffSecs = 0, lastHealthPersist = 0\<rparr>"




definition Active :: "monitor \<Rightarrow> bool" where
  "Active m = active m"

definition Snapshot :: "monitor \<Rightarrow> AutoSelectorView" where
  "Snapshot m = view m"

text \<open>The latency a member's report stands for: a measured average, -1 when dead, else inconclusive.\<close>

definition health_latency :: "AutoSelectorMemberView \<Rightarrow> int option" where
  "health_latency m =
     (if isUsable m \<and> 0 < averageMs m then Some (averageMs m)
      else if isDead m then Some (-1)
      else None)"

text \<open>
  One member of \<open>PersistHealth\<close> over the stored latencies (\<open>None\<close> where no such profile exists); \<open>dirty\<close>
  collects the profiles to save.
\<close>

definition persist_member ::
  "AutoSelectorMemberView \<Rightarrow> (int \<Rightarrow> int option) \<times> int list \<Rightarrow> (int \<Rightarrow> int option) \<times> int list" where
  "persist_member m st =
     (case st of (latencies, dirty) \<Rightarrow>
        if mv_profileID m < 0 \<or> probes m = 0 then (latencies, dirty)
        else
          (case health_latency m of
             None \<Rightarrow> (latencies, dirty)
           | Some l \<Rightarrow>
               if latencies (mv_profileID m) = None \<or> latencies (mv_profileID m) = Some l then (latencies, dirty)
               else (latencies(mv_profileID m \<mapsto> l), dirty @ [mv_profileID m])))"

definition PersistHealth ::
  "int \<Rightarrow> monitor \<Rightarrow> (int \<Rightarrow> int option) \<Rightarrow> monitor \<times> (int \<Rightarrow> int option) \<times> int list" where
  "PersistHealth now m latencies =
     (if \<not> active m \<or> \<not> valid (view m) then (m, latencies, [])
      else if suspended (view m) then (m, latencies, [])
      else (m\<lparr>lastHealthPersist := now\<rparr>, fold persist_member (v_members (view m)) (latencies, [])))"


text \<open>The action sent to the core, if any.\<close>

definition RequestRecheck :: "monitor \<Rightarrow> (qstring \<times> string) option" where
  "RequestRecheck m = (if \<not> active m then None else Some (groupTag m, ''recheck''))"

text \<open>
  \<open>answer\<close> is the core's answer to the action (\<open>None\<close> when it cannot be reached, else its error text);
  \<open>pin\<close> gives the pinned member of a stored selector, \<open>None\<close> when there is no such selector. The result is
  the error text and the changed pins.
\<close>

definition RequestSelect ::
  "monitor \<Rightarrow> qstring \<Rightarrow> (qstring \<Rightarrow> qstring \<Rightarrow> qstring option) \<Rightarrow> (int \<Rightarrow> int option) \<Rightarrow>
     qstring \<times> (int \<Rightarrow> int option)" where
  "RequestSelect m member answer pin =
     (if \<not> active m then (lit ''No auto selector is running.'', pin)
      else
        (let memberID = (if member \<noteq> [] then hash_value (tagToProfile m) member (-1) else -1)
         in if member \<noteq> [] \<and> memberID < 0 then (lit ''That profile is not in the running pool.'', pin)
            else
              (case answer (groupTag m) member of
                 None \<Rightarrow> (lit ''Could not reach the core.'', pin)
               | Some e \<Rightarrow>
                   if e \<noteq> [] then (e, pin)
                   else ([], case pin (m_profileID m) of
                               Some p \<Rightarrow> if p \<noteq> memberID then pin(m_profileID m \<mapsto> memberID) else pin
                             | None \<Rightarrow> pin))))"

subsection \<open>Polling\<close>







text \<open>
  The last section of \<open>poll\<close>: the exhaustion machine. The second result is \<^verbatim>\<open>fireExhausted\<close>. The grace
  period is a product of two C++ ints, far inside their range.
\<close>

definition everythingDead :: "AutoSelectorView \<Rightarrow> int \<Rightarrow> bool" where
  "everythingDead next usable \<longleftrightarrow>
     usable = 0 \<and> 0 < membersProbed next \<and> \<not> suspended next \<and> phase next \<noteq> lit ''starting''"

definition commit :: "int \<Rightarrow> AutoSelectorView \<Rightarrow> int \<Rightarrow> monitor \<Rightarrow> monitor \<times> bool" where
  "commit now next usable m =
     (let m = (if \<not> everythingDead next usable then m\<lparr>exhaustedSince := 0\<rparr>
               else if exhaustedSince m = 0 then m\<lparr>exhaustedSince := now\<rparr> else m);
          next = next\<lparr>exhaustedSinceMs := exhaustedSince m\<rparr>;
          fire = (exhaustedSince m \<noteq> 0 \<and> kPoolExhaustedGraceSecs * 1000 \<le> now - exhaustedSince m \<and>
                  (lastRebuildRequest m = 0 \<or> rebuildBackoffSecs m * 1000 \<le> now - lastRebuildRequest m));
          m = (if fire
               then m\<lparr>lastRebuildRequest := now,
                      rebuildBackoffSecs := (if rebuildBackoffSecs m = 0 then kRebuildBackoffMinSecs
                                             else min (rebuildBackoffSecs m * 2) kRebuildBackoffMaxSecs),
                      exhaustedSince := 0\<rparr>
               else m);
          m = (if 0 < usable then m\<lparr>rebuildBackoffSecs := 0\<rparr> else m)
      in (m\<lparr>view := next\<rparr>, fire))"


section \<open>Exhaustion\<close>

text \<open>One poll after the other: the time, the view and the usable members of each.\<close>

type_synonym round = "int \<times> AutoSelectorView \<times> int"

text \<open>The times at which an exhausted pool is reported.\<close>

fun fires :: "round list \<Rightarrow> monitor \<Rightarrow> int list" where
  "fires [] m = []"
| "fires ((now, nx, usable) # rs) m =
     (case commit now nx usable m of (m', fired) \<Rightarrow> (if fired then [now] else []) @ fires rs m')"

lemma commit_fire:
  assumes "snd (commit now nx usable m)"
  shows "everythingDead nx usable" "exhaustedSince m \<noteq> 0" "exhaustedSince m + 20000 \<le> now"
    "lastRebuildRequest m = 0 \<or> lastRebuildRequest m + rebuildBackoffSecs m * 1000 \<le> now"
    "exhaustedSince (fst (commit now nx usable m)) = 0"
    "lastRebuildRequest (fst (commit now nx usable m)) = now"
    "rebuildBackoffSecs (fst (commit now nx usable m)) =
       (if rebuildBackoffSecs m = 0 then 60 else min (rebuildBackoffSecs m * 2) 600)"
  using assms
  by (auto simp: commit_def Let_def everythingDead_def kPoolExhaustedGraceSecs_def kRebuildBackoffMinSecs_def
      kRebuildBackoffMaxSecs_def split: if_splits)

lemma commit_quiet:
  assumes "\<not> snd (commit now nx usable m)"
  shows "exhaustedSince (fst (commit now nx usable m)) \<in> {0, now, exhaustedSince m}"
    "lastRebuildRequest (fst (commit now nx usable m)) = lastRebuildRequest m"
    "rebuildBackoffSecs (fst (commit now nx usable m)) = (if 0 < usable then 0 else rebuildBackoffSecs m)"
  using assms by (auto simp: commit_def Let_def split: if_splits)

lemma fires_grace:
  assumes "sorted (map fst rs)" "\<forall>r \<in> set rs. T \<le> fst r" "exhaustedSince m = 0 \<or> T \<le> exhaustedSince m"
  shows "\<forall>t \<in> set (fires rs m). T + 20000 \<le> t"
  using assms
proof (induction rs arbitrary: m)
  case (Cons r rs)
  obtain now nx usable where r: "r = (now, nx, usable)" by (cases r) auto
  obtain m' fired where c: "commit now nx usable m = (m', fired)" by fastforce
  have T: "T \<le> now" using Cons.prems r by simp
  have "exhaustedSince m' = 0 \<or> T \<le> exhaustedSince m'"
    using commit_fire(5) [of now nx usable m] commit_quiet(1) [of now nx usable m] Cons.prems(3) T
    by (cases fired) (auto simp: c)
  with Cons.IH [of m'] Cons.prems have "\<forall>t \<in> set (fires rs m'). T + 20000 \<le> t" by simp
  moreover have "fired \<Longrightarrow> T + 20000 \<le> now"
    using commit_fire(2,3) [of now nx usable m] Cons.prems(3) by (auto simp: c)
  ultimately show ?case by (auto simp: r c)
qed simp

lemma fires_spaced: "sorted (map fst rs) \<Longrightarrow> sorted_wrt (\<lambda>a b. a + 20000 \<le> b) (fires rs m)"
proof (induction rs arbitrary: m)
  case (Cons r rs)
  obtain now nx usable where r: "r = (now, nx, usable)" by (cases r) auto
  obtain m' fired where c: "commit now nx usable m = (m', fired)" by fastforce
  have "sorted_wrt (\<lambda>a b. a + 20000 \<le> b) (fires rs m')" using Cons by simp
  moreover have "fired \<Longrightarrow> \<forall>t \<in> set (fires rs m'). now + 20000 \<le> t"
    using commit_fire(5) [of now nx usable m] Cons.prems by (intro fires_grace) (auto simp: r c)
  ultimately show ?case by (auto simp: r c)
qed simp

lemma fires_backoff:
  assumes "\<forall>r \<in> set rs. snd (snd r) = 0" "lastRebuildRequest m \<noteq> 0" "60 \<le> rebuildBackoffSecs m"
    "lastRebuildRequest m = L" "\<forall>r \<in> set rs. L \<le> fst r" "sorted (map fst rs)" "\<forall>r \<in> set rs. fst r \<noteq> 0"
  shows "\<forall>t \<in> set (fires rs m). L + 60000 \<le> t"
  using assms
proof (induction rs arbitrary: m L)
  case (Cons r rs)
  obtain now nx where r: "r = (now, nx, 0)" using Cons.prems(1) by (cases r) auto
  obtain m' fired where c: "commit now nx 0 m = (m', fired)" by fastforce
  show ?case
  proof (cases fired)
    case True
    then have now: "L + 60000 \<le> now"
      using commit_fire(4) [of now nx 0 m] Cons.prems by (auto simp: c)
    have "60 \<le> rebuildBackoffSecs m'" "lastRebuildRequest m' = now"
      using True commit_fire(6,7) [of now nx 0 m] Cons.prems(3) by (auto simp: c)
    with Cons.IH [of m' now] Cons.prems r have "\<forall>t \<in> set (fires rs m'). now + 60000 \<le> t" by auto
    with now True show ?thesis by (auto simp: r c)
  next
    case False
    then have "rebuildBackoffSecs m' = rebuildBackoffSecs m" "lastRebuildRequest m' = L"
      using commit_quiet(2,3) [of now nx 0 m] Cons.prems(4) by (simp_all add: c)
    with Cons.IH [of m' L] Cons.prems False show ?thesis by (simp add: r c)
  qed
qed simp

text \<open>
  Reports of an exhausted pool are paced: over any sequence of polls in time order, two reports are at
  least the grace period of 20 seconds apart, and as long as no member becomes usable in between at least
  60 seconds.
\<close>

theorem exhaustion_paced:
  assumes "sorted (map fst rs)" "\<forall>r \<in> set rs. 0 < fst r"
    and "rebuildBackoffSecs m = 0 \<or> 60 \<le> rebuildBackoffSecs m"
  shows "sorted_wrt (\<lambda>a b. a + 20000 \<le> b) (fires rs m) \<and>
         ((\<forall>r \<in> set rs. snd (snd r) = 0) \<longrightarrow> sorted_wrt (\<lambda>a b. a + 60000 \<le> b) (fires rs m))"
proof -
  have "sorted_wrt (\<lambda>a b. a + 60000 \<le> b) (fires rs m)" if "\<forall>r \<in> set rs. snd (snd r) = 0"
    using that assms
  proof (induction rs arbitrary: m)
    case (Cons r rs)
    obtain now nx where r: "r = (now, nx, 0)" using Cons.prems(1) by (cases r) auto
    obtain m' fired where c: "commit now nx 0 m = (m', fired)" by fastforce
    have b: "rebuildBackoffSecs m' = 0 \<or> 60 \<le> rebuildBackoffSecs m'"
      using commit_fire(7) [of now nx 0 m] commit_quiet(3) [of now nx 0 m] Cons.prems(4)
      by (cases fired) (auto simp: c)
    then have "sorted_wrt (\<lambda>a b. a + 60000 \<le> b) (fires rs m')" using Cons by simp
    moreover have "\<forall>t \<in> set (fires rs m'). now + 60000 \<le> t" if fired
    proof (rule fires_backoff)
      show "60 \<le> rebuildBackoffSecs m'" "lastRebuildRequest m' = now" "lastRebuildRequest m' \<noteq> 0"
        using that commit_fire(6,7) [of now nx 0 m] Cons.prems by (auto simp: r c)
    qed (use Cons.prems r in auto)
    ultimately show ?case by (auto simp: r c)
  qed simp
  with fires_spaced [OF assms(1), of m] show ?thesis by blast
qed

definition dead_view :: AutoSelectorView where
  "dead_view = empty_view\<lparr>valid := True, phase := lit ''ready'', membersTotal := 3, membersProbed := 3\<rparr>"

theorem exhaustion_paced_witness:
  "fires [(1000, dead_view, 0), (21000, dead_view, 0), (42000, dead_view, 0), (81000, dead_view, 0)] new_monitor =
     [21000, 81000] \<and> sorted_wrt (\<lambda>a b. a + 60000 \<le> b)
     (fires [(1000, dead_view, 0), (21000, dead_view, 0), (42000, dead_view, 0), (81000, dead_view, 0)] new_monitor)"
proof -
  let ?rs = "[(1000, dead_view, 0), (21000, dead_view, 0), (42000, dead_view, 0), (81000, dead_view, 0)] :: round list"
  have "sorted (map fst ?rs)" "\<forall>r \<in> set ?rs. 0 < fst r" "\<forall>r \<in> set ?rs. snd (snd r) = 0" by simp_all
  with exhaustion_paced [of ?rs new_monitor]
  have "sorted_wrt (\<lambda>a b. a + 60000 \<le> b) (fires ?rs new_monitor)" by (simp add: new_monitor_def)
  moreover have "fires ?rs new_monitor = [21000, 81000]"
    by (simp add: commit_def everythingDead_def dead_view_def new_monitor_def empty_view_def Let_def
        kPoolExhaustedGraceSecs_def kRebuildBackoffMinSecs_def kRebuildBackoffMaxSecs_def)
  ultimately show ?thesis by blast
qed

section \<open>What a poll reports\<close>




subsection \<open>Histories\<close>


















section \<open>Health and pins\<close>

definition health_evidence :: "AutoSelectorMemberView \<Rightarrow> int \<Rightarrow> int \<Rightarrow> bool" where
  "health_evidence e i l \<longleftrightarrow> mv_profileID e = i \<and> 0 \<le> i \<and> probes e \<noteq> 0 \<and>
     ((isUsable e \<and> 0 < averageMs e \<and> l = averageMs e) \<or> (isDead e \<and> l = -1))"

lemma persist_fold:
  assumes "fst (fold persist_member es (lat, d)) i \<noteq> lat i"
  shows "\<exists>e \<in> set es. \<exists>l. fst (fold persist_member es (lat, d)) i = Some l \<and> health_evidence e i l"
  using assms
proof (induction es arbitrary: lat d)
  case (Cons e es)
  obtain lat' d' where p: "persist_member e (lat, d) = (lat', d')" by fastforce
  have one: "lat' i = lat i \<or> (\<exists>l. lat' i = Some l \<and> health_evidence e i l)"
    using p by (auto simp: persist_member_def health_latency_def health_evidence_def split: if_splits option.splits)
  show ?case
  proof (cases "fst (fold persist_member es (lat', d')) i = lat' i")
    case True
    with one Cons.prems p show ?thesis by auto
  next
    case False
    from Cons.IH [OF this] p show ?thesis by auto
  qed
qed simp

text \<open>
  The running core's health report rewrites a test result only on evidence: a stored latency changes
  only while a selector runs and is not suspended, for a stored profile that is a probed member, to the
  positive average of a usable member or to -1 of a dead one; a member in cooldown or untested keeps its
  result.
\<close>

theorem health_needs_evidence:
  assumes "fst (snd (PersistHealth now m latencies)) i \<noteq> latencies i"
  shows "active m \<and> valid (view m) \<and> \<not> suspended (view m) \<and>
         (\<exists>e \<in> set (v_members (view m)). \<exists>l. fst (snd (PersistHealth now m latencies)) i = Some l \<and>
            health_evidence e i l)"
  using assms persist_fold [of "v_members (view m)" latencies "[]" i]
  by (auto simp: PersistHealth_def split: if_splits)

definition sick_member :: AutoSelectorMemberView where
  "sick_member = \<lparr>tag = lit ''a'', mv_profileID = 4, mv_name = [], rank = 0, state = lit ''dead'', selected = False,
     selectedUDP = False, pinned = False, mv_qualified = False, mv_active = False, averageMs = 0, deviationMs = 0,
     minMs = 0, maxMs = 0, samples = 5, mv_failures = 5, probes = 5, dialTotal = 0, dialFail = 0, lastOKms = 0,
     lastProbeMs = 0, cooldownUntilMs = 0, lastError = []\<rparr>"

theorem health_needs_evidence_witness:
  "\<exists>e l. fst (snd (PersistHealth 90 (new_monitor\<lparr>active := True,
      view := dead_view\<lparr>v_members := [sick_member]\<rparr>\<rparr>) [4 \<mapsto> 120])) 4 = Some l \<and> health_evidence e 4 l"
proof -
  have "fst (snd (PersistHealth 90 (new_monitor\<lparr>active := True,
      view := dead_view\<lparr>v_members := [sick_member]\<rparr>\<rparr>) [4 \<mapsto> 120])) 4 \<noteq> [4 \<mapsto> 120] (4::int)"
    by (simp add: PersistHealth_def new_monitor_def dead_view_def empty_view_def sick_member_def
        persist_member_def health_latency_def isUsable_def isDead_def)
  from health_needs_evidence [OF this] show ?thesis by blast
qed

text \<open>
  Picking a member by hand is stored as its profile id: the stored pin changes only when a selector
  runs, the tag is of its pool (or empty, for automatic) and the core accepted it, and then it is that
  member's id (or -1); every refusal is reported and changes nothing.
\<close>

theorem RequestSelect_pins:
  fixes m member answer pin
  defines "r \<equiv> RequestSelect m member answer pin"
    and "memberID \<equiv> (if member \<noteq> [] then hash_value (tagToProfile m) member (-1) else -1)"
  shows "(fst r \<noteq> [] \<longrightarrow> snd r = pin) \<and>
         (fst r = [] \<longrightarrow> active m \<and> (member \<noteq> [] \<longrightarrow> 0 \<le> memberID) \<and> answer (groupTag m) member = Some [] \<and>
            snd r = (if pin (m_profileID m) = None then pin else pin(m_profileID m \<mapsto> memberID)))"
proof -
  have u: "pin (m_profileID m) = Some x \<Longrightarrow> pin(m_profileID m \<mapsto> x) = pin" for x
    by (rule ext) simp
  show ?thesis
    by (auto simp: r_def memberID_def RequestSelect_def Let_def u split: option.splits)
qed

end
