(* ===== verification/IpAddr.thy ===== *)
theory IpAddr
  imports Prelude
begin

text \<open>
  Addresses, networks and ranges of the scanner's IP lists
  (\<^verbatim>\<open>src/scanner/IpListParse.cpp\<close>, the \<^verbatim>\<open>ipListParse...\<close> helpers up to
  \<^verbatim>\<open>ipListParseCoverRange\<close>): reading and printing IPv4 and IPv6, masking a network to its
  prefix, and covering a range with the fewest networks. A \<^verbatim>\<open>quint64\<close> is a \<^typ>\<open>64 word\<close>; the
  \<^verbatim>\<open>quint32\<close> and \<^verbatim>\<open>quint16\<close> accumulators of the readers are natural numbers with the
  wrap-around written out; a reader that returns \<^verbatim>\<open>bool\<close> and an out parameter returns an option.
\<close>

unbundle bit_operations_syntax

section \<open>Data\<close>

record IpListParseAddr =
  v6 :: bool
  hi :: "64 word"
  lo :: "64 word"

definition Bits :: "IpListParseAddr \<Rightarrow> nat" where
  "Bits addr = (if v6 addr then 128 else 32)"

section \<open>Reading\<close>

fun decimal_loop :: "qstring \<Rightarrow> nat \<Rightarrow> nat option" where
  "decimal_loop [] value = Some value"
| "decimal_loop (c # text) value =
     (if c < 48 \<or> 57 < c then None else decimal_loop text ((value * 10 + (c - 48)) mod 2 ^ 32))"

definition Decimal :: "qstring \<Rightarrow> nat \<Rightarrow> nat option" where
  "Decimal text maxDigits =
     (if text = [] \<or> maxDigits < length text then None else decimal_loop text 0)"

definition HexDigit :: "qchar \<Rightarrow> nat option" where
  "HexDigit u =
     (if 48 \<le> u \<and> u \<le> 57 then Some (u - 48)
      else if 97 \<le> u \<and> u \<le> 102 then Some (u - 97 + 10)
      else if 65 \<le> u \<and> u \<le> 70 then Some (u - 65 + 10)
      else None)"

definition Port :: "qstring \<Rightarrow> int option" where
  "Port text =
     (case Decimal text 5 of
        None \<Rightarrow> None
      | Some value \<Rightarrow> if 65535 < value then None else Some (int value))"

text \<open>The loop of \<^verbatim>\<open>ipListParseV4\<close>: each pass takes the text up to the next dot.\<close>

fun v4_loop :: "qstring list \<Rightarrow> nat \<Rightarrow> nat \<Rightarrow> nat option" where
  "v4_loop [] parts value = (if parts \<noteq> 4 then None else Some value)"
| "v4_loop (part # rest) parts value =
     (case Decimal part 3 of
        None \<Rightarrow> None
      | Some octet \<Rightarrow>
          if 255 < octet then None
          else if 1 < length part \<and> hd part = 48 then None
          else if 4 < parts + 1 then None
          else v4_loop rest (parts + 1) (push_bit 8 value mod 2 ^ 32 OR octet))"

definition V4 :: "qstring \<Rightarrow> nat option" where
  "V4 text = v4_loop (split_on 46 text) 0 0"

fun hex_group :: "qstring \<Rightarrow> nat \<Rightarrow> nat option" where
  "hex_group [] value = Some value"
| "hex_group (c # grp) value =
     (case HexDigit c of
        None \<Rightarrow> None
      | Some digit \<Rightarrow> hex_group grp ((push_bit 4 value OR digit) mod 2 ^ 16))"

text \<open>
  The loop of \<^verbatim>\<open>ipListParseV6Part\<close>: the array \<^verbatim>\<open>groups\<close> and its \<^verbatim>\<open>count\<close> are one list, and
  each pass takes the text up to the next colon, the last pass the rest.
\<close>

fun v6_loop :: "qstring list \<Rightarrow> bool \<Rightarrow> nat list \<Rightarrow> nat list option" where
  "v6_loop [] allowV4Tail groups = Some groups"
| "v6_loop (grp # rest) allowV4Tail groups =
     (if rest = [] \<and> allowV4Tail \<and> 46 \<in> set grp then
        (if 6 < length groups then None
         else case V4 grp of
                None \<Rightarrow> None
              | Some v4 \<Rightarrow> Some (groups @ [drop_bit 16 v4 mod 2 ^ 16, v4 AND 0xffff]))
      else if grp = [] \<or> 4 < length grp \<or> 8 \<le> length groups then None
      else case hex_group grp 0 of
             None \<Rightarrow> None
           | Some value \<Rightarrow> v6_loop rest allowV4Tail (groups @ [value]))"

definition V6Part :: "qstring \<Rightarrow> bool \<Rightarrow> nat list option" where
  "V6Part text allowV4Tail =
     (if text = [] then Some [] else v6_loop (split_on 58 text) allowV4Tail [])"

text \<open>\<open>indexOfStr p s\<close> is \<^verbatim>\<open>s.indexOf(p)\<close> for a text \<open>p\<close>.\<close>

fun indexOfStr :: "'a list \<Rightarrow> 'a list \<Rightarrow> nat option" where
  "indexOfStr p [] = (if p = [] then Some 0 else None)"
| "indexOfStr p (x # xs) =
     (if take (length p) (x # xs) = p then Some 0 else map_option Suc (indexOfStr p xs))"

definition pack_groups :: "nat list \<Rightarrow> 64 word" where
  "pack_groups gs = foldl (\<lambda>acc g. push_bit 16 acc OR of_nat g) 0 gs"

definition V6 :: "qstring \<Rightarrow> (64 word \<times> 64 word) option" where
  "V6 text =
     (let parts =
        (case indexOfStr [58, 58] text of
           None \<Rightarrow>
             (case V6Part text True of
                None \<Rightarrow> None
              | Some head \<Rightarrow> if length head \<noteq> 8 then None else Some (head, []))
         | Some gap \<Rightarrow>
             (if indexOfStr [58, 58] (drop (gap + 1) text) \<noteq> None then None
              else case V6Part (take gap text) False of
                     None \<Rightarrow> None
                   | Some head \<Rightarrow>
                       (case V6Part (drop (gap + 2) text) True of
                          None \<Rightarrow> None
                        | Some tail \<Rightarrow>
                            if 7 < length head + length tail then None else Some (head, tail))))
      in case parts of
           None \<Rightarrow> None
         | Some (head, tail) \<Rightarrow>
             (let groups = head @ replicate (8 - length head - length tail) 0 @ tail
              in Some (pack_groups (take 4 groups), pack_groups (take 4 (drop 4 groups)))))"

definition Address :: "qstring \<Rightarrow> IpListParseAddr option" where
  "Address text =
     (if 58 \<in> set text then
        (let text = (case indexOf 37 text of None \<Rightarrow> text | Some zone \<Rightarrow> take zone text)
         in case V6 text of
              None \<Rightarrow> None
            | Some (h, l) \<Rightarrow> Some \<lparr>v6 = True, hi = h, lo = l\<rparr>)
      else
        (case V4 text of
           None \<Rightarrow> None
         | Some v4 \<Rightarrow> Some \<lparr>v6 = False, hi = 0, lo = of_nat v4\<rparr>))"

definition IsMapped :: "IpListParseAddr \<Rightarrow> bool" where
  "IsMapped addr \<longleftrightarrow> v6 addr \<and> hi addr = 0 \<and> drop_bit 32 (lo addr) = 0xffff"

text \<open>The branch both callers of \<^verbatim>\<open>ipListParseIsMapped\<close> take: the embedded IPv4 address.\<close>

definition unmapped :: "IpListParseAddr \<Rightarrow> IpListParseAddr" where
  "unmapped addr = \<lparr>v6 = False, hi = 0, lo = lo addr AND 0xffffffff\<rparr>"

definition Mask :: "IpListParseAddr \<Rightarrow> nat \<Rightarrow> IpListParseAddr" where
  "Mask addr plen =
     (if \<not> v6 addr then addr\<lparr>lo := lo addr AND (push_bit (32 - plen) 0xffffffff AND 0xffffffff)\<rparr>
      else if plen < 64 then
        addr\<lparr>hi := hi addr AND (if plen = 0 then 0 else push_bit (64 - plen) (NOT 0)), lo := 0\<rparr>
      else if plen = 64 then addr\<lparr>lo := 0\<rparr>
      else if plen < 128 then addr\<lparr>lo := lo addr AND push_bit (128 - plen) (NOT 0)\<rparr>
      else addr)"

section \<open>Printing\<close>

definition hexChar :: "nat \<Rightarrow> qchar" where
  "hexChar d = (if d < 10 then 48 + d else 87 + d)"

text \<open>\<^verbatim>\<open>QString::number(n, base)\<close> for an unsigned \<open>n\<close>.\<close>

definition numberBase :: "nat \<Rightarrow> nat \<Rightarrow> qstring" where
  "numberBase base n = map hexChar (digits base n)"

abbreviation numberOf :: "nat \<Rightarrow> qstring" where
  "numberOf \<equiv> numberBase 10"

definition groupsOf :: "IpListParseAddr \<Rightarrow> nat list" where
  "groupsOf addr =
     map (\<lambda>i. unat (take_bit 16 (drop_bit (48 - 16 * i) (hi addr)))) [0..<4] @
     map (\<lambda>i. unat (take_bit 16 (drop_bit (48 - 16 * i) (lo addr)))) [0..<4]"

text \<open>
  The scan for \<^verbatim>\<open>bestStart\<close> and \<^verbatim>\<open>bestLength\<close>; \<^verbatim>\<open>bestStart\<close> is \<open>None\<close> for -1, and the third argument
  is \<open>groups\<close> from index \<open>i\<close> on.
\<close>

function zero_run :: "nat \<Rightarrow> nat option \<times> nat \<Rightarrow> nat list \<Rightarrow> nat option \<times> nat" where
  "zero_run i best [] = best"
| "zero_run i best (g # gs) =
     (if g \<noteq> 0 then zero_run (i + 1) best gs
      else (let n = length (takeWhile (\<lambda>x. x = 0) (g # gs))
            in zero_run (i + n) (if snd best < n then (Some i, n) else best) (drop n (g # gs))))"
  by pat_completeness auto
termination
  by (relation "measure (\<lambda>(i, best, gs). length gs)") auto

text \<open>The printing loop; \<open>i += bestLength - 1\<close> and the loop's own \<open>++i\<close> are both written out.\<close>

function join_groups :: "nat option \<times> nat \<Rightarrow> nat \<Rightarrow> nat list \<Rightarrow> qstring \<Rightarrow> qstring" where
  "join_groups best i [] out = out"
| "join_groups best i (g # gs) out =
     (if fst best = Some i then
        join_groups best (i + (snd best - 1) + 1) (drop (snd best - 1) gs) (out @ [58, 58])
      else
        (let out = (if out \<noteq> [] \<and> last out \<noteq> 58 then out @ [58] else out)
         in join_groups best (i + 1) gs (out @ numberBase 16 g)))"
  by pat_completeness auto
termination
  by (relation "measure (\<lambda>(best, i, gs, out). length gs)") auto

definition Format :: "IpListParseAddr \<Rightarrow> qstring" where
  "Format addr =
     (if \<not> v6 addr then
        (let v = unat (take_bit 32 (lo addr))
         in numberOf (drop_bit 24 v) @ [46] @ numberOf (drop_bit 16 v AND 0xff) @ [46] @
            numberOf (drop_bit 8 v AND 0xff) @ [46] @ numberOf (v AND 0xff))
      else
        (let groups = groupsOf addr
         in join_groups (zero_run 0 (None, 1) groups) 0 groups []))"

definition Cidr :: "IpListParseAddr \<Rightarrow> nat \<Rightarrow> qstring" where
  "Cidr addr plen =
     (let address = Format addr
      in if Bits addr \<le> plen then address else address @ [47] @ numberOf plen)"

section \<open>Networks\<close>

text \<open>
  \<^verbatim>\<open>ipListParseNetwork\<close> in its three stages: the text inside brackets and what follows them, the
  cut at the slash, and the reading of the address and of the prefix length.
\<close>

definition network_brackets :: "qstring \<Rightarrow> (qstring \<times> qstring) option" where
  "network_brackets text =
     (if text \<noteq> [] \<and> hd text = 91 then
        (case indexOf 93 text of
           None \<Rightarrow> None
         | Some close \<Rightarrow>
             (let body = take (close - 1) (drop 1 text); after = drop (close + 1) text
              in if after \<noteq> [] \<and> hd after \<noteq> 47 then None else Some (body, after)))
      else Some (text, []))"

definition network_slash :: "qstring \<Rightarrow> qstring \<Rightarrow> (qstring \<times> qstring option) option" where
  "network_slash body after =
     (case indexOf 47 body of
        Some slash \<Rightarrow>
          if after \<noteq> [] then None else Some (take slash body, Some (drop (slash + 1) body))
      | None \<Rightarrow> Some (body, if after \<noteq> [] then Some (drop 1 after) else None))"

definition network_prefix :: "IpListParseAddr \<Rightarrow> qstring option \<Rightarrow> nat option" where
  "network_prefix addr prefixText =
     (case prefixText of
        None \<Rightarrow> Some (Bits addr)
      | Some t \<Rightarrow>
          (case Decimal t 3 of
             None \<Rightarrow> None
           | Some value \<Rightarrow> if Bits addr < value then None else Some value))"

definition network_mask :: "IpListParseAddr \<Rightarrow> nat \<Rightarrow> (IpListParseAddr \<times> nat) option" where
  "network_mask addr plen =
     (let (addr, plen) =
        (if IsMapped addr \<and> 96 \<le> plen then (unmapped addr, plen - 96) else (addr, plen))
      in if plen = 0 then None else Some (Mask addr plen, plen))"

definition Network :: "qstring \<Rightarrow> (IpListParseAddr \<times> nat) option" where
  "Network text =
     (case network_brackets (trimmed text) of
        None \<Rightarrow> None
      | Some (body, after) \<Rightarrow>
          (case network_slash body after of
             None \<Rightarrow> None
           | Some (body, prefixText) \<Rightarrow>
               (case Address body of
                  None \<Rightarrow> None
                | Some addr \<Rightarrow>
                    (case network_prefix addr prefixText of
                       None \<Rightarrow> None
                     | Some plen \<Rightarrow> network_mask addr plen))))"

definition NormalizeCidr :: "qstring \<Rightarrow> qstring" where
  "NormalizeCidr text =
     (case Network text of None \<Rightarrow> [] | Some (addr, plen) \<Rightarrow> Cidr addr plen)"

end
