(* ===== verification/IpAddrText.thy ===== *)
theory IpAddrText
  imports IpAddr
begin

text \<open>
  Printing and reading of addresses agree: what \<open>Format\<close> prints, \<open>Address\<close> reads back, and the text
  \<open>Network\<close> makes of a network is a normal form. The lemmas go from digits to groups to texts.
\<close>

section \<open>Digits\<close>

lemma push_bit_or_nat:
  assumes "d < 2 ^ k"
  shows "push_bit k v OR d = v * 2 ^ k + (d::nat)"
proof -
  have t: "take_bit k d = d" using assms by (simp add: take_bit_nat_eq_self)
  have "bit d i \<Longrightarrow> i < k" for i by (metis bit_take_bit_iff t)
  then have "push_bit k v AND d = 0" by (intro bit_eqI) (fastforce simp: bit_simps)
  then have "push_bit k v + d = push_bit k v OR d" by (simp add: disjunctive_add_eq_or)
  then show ?thesis by (simp add: push_bit_eq_mult)
qed

lemma foldl_ge: "v \<le> foldl (\<lambda>v d. v * b + d) (v::nat) ds" if "1 \<le> b"
proof (induction ds arbitrary: v)
  case (Cons d ds)
  have "v \<le> v * b + d" using that by (simp add: trans_le_add1)
  also have "\<dots> \<le> foldl (\<lambda>v d. v * b + d) (v * b + d) ds" by (rule Cons)
  finally show ?case by simp
qed simp

lemma foldl_mod:
  assumes "1 \<le> b" "foldl (\<lambda>v d. v * b + d) (v::nat) ds < m"
  shows "foldl (\<lambda>v d. (v * b + d) mod m) v ds = foldl (\<lambda>v d. v * b + d) v ds"
  using assms(2)
proof (induction ds arbitrary: v)
  case (Cons d ds)
  have "v * b + d < m" using Cons.prems foldl_ge [OF assms(1), of "v * b + d" ds] by simp
  with Cons show ?case by simp
qed simp

lemma hexChar_simps [simp]:
  "d < 10 \<Longrightarrow> hexChar d = 48 + d"
  by (simp add: hexChar_def)

lemma HexDigit_hexChar [simp]: "d < 16 \<Longrightarrow> HexDigit (hexChar d) = Some d"
  by (auto simp: HexDigit_def hexChar_def)

lemma set_numberBase:
  assumes "2 \<le> b" "b \<le> 16" "c \<in> set (numberBase b n)"
  shows "\<exists>d < b. c = hexChar d"
  using assms digits_bound [of b _ n] by (auto simp: numberBase_def)

lemma numberBase_char:
  assumes "2 \<le> b" "b \<le> 16" "c \<in> set (numberBase b n)"
  shows "(48 \<le> c \<and> c \<le> 57) \<or> (97 \<le> c \<and> c \<le> 102)"
  using set_numberBase [OF assms] assms(2) by (auto simp: hexChar_def split: if_splits)

lemma numberOf_char: "c \<in> set (numberOf n) \<Longrightarrow> 48 \<le> c \<and> c \<le> 57"
  using set_numberBase [of 10 c n] by auto

lemma numberBase_not_Nil [simp]: "numberBase b n \<noteq> []"
  by (simp add: numberBase_def)

lemma decimal_loop_digits:
  "\<forall>d \<in> set ds. d < 10 \<Longrightarrow>
     decimal_loop (map hexChar ds) v = Some (foldl (\<lambda>v d. (v * 10 + d) mod 2 ^ 32) v ds)"
  by (induction ds arbitrary: v) auto

lemma decimal_loop_numberOf: "n < 2 ^ 32 \<Longrightarrow> decimal_loop (numberOf n) 0 = Some n"
  using digits_bound [of 10 _ n]
  by (simp add: numberBase_def decimal_loop_digits foldl_mod digits_value)

lemma length_numberBase: "2 \<le> b \<Longrightarrow> n < b ^ Suc k \<Longrightarrow> length (numberBase b n) \<le> Suc k"
  by (simp add: numberBase_def digits_length del: power_Suc)

lemma Decimal_numberOf:
  assumes "n < 10 ^ Suc k" "n < 2 ^ 32" "Suc k \<le> m"
  shows "Decimal (numberOf n) m = Some n"
proof -
  have "length (numberOf n) \<le> m"
    using length_numberBase [of 10 n k] assms by linarith
  then show ?thesis by (simp add: Decimal_def decimal_loop_numberOf [OF assms(2)])
qed

lemma Port_numberOf: "n \<le> 65535 \<Longrightarrow> Port (numberOf n) = Some (int n)"
  using Decimal_numberOf [of n 4 5] by (simp add: Port_def)

lemma hex_group_digits:
  "\<forall>d \<in> set ds. d < 16 \<Longrightarrow>
     hex_group (map hexChar ds) v = Some (foldl (\<lambda>v d. (v * 16 + d) mod 2 ^ 16) v ds)"
proof (induction ds arbitrary: v)
  case (Cons d ds)
  have "push_bit 4 v OR d = v * 16 + d" using push_bit_or_nat [of d 4 v] Cons.prems by simp
  with Cons show ?case by simp
qed simp

lemma hex_group_number: "g < 2 ^ 16 \<Longrightarrow> hex_group (numberBase 16 g) 0 = Some g"
  using digits_bound [of 16 _ g]
  by (simp add: numberBase_def hex_group_digits foldl_mod digits_value del: push_bit_or_nat)

lemma length_hex_group: "g < 2 ^ 16 \<Longrightarrow> length (numberBase 16 g) \<le> 4"
  using length_numberBase [of 16 g 3] by simp

lemma leading_zero: "1 < length (numberOf n) \<Longrightarrow> hd (numberOf n) \<noteq> 48"
proof
  assume l: "1 < length (numberOf n)" and h: "hd (numberOf n) = 48"
  have d: "hd (digits 10 n) < 10"
    using digits_bound [of 10 "hd (digits 10 n)" n] hd_in_set [of "digits 10 n"] by simp
  with h have "hd (digits 10 n) = 0" by (simp add: numberBase_def hd_map)
  then have "n = 0" using digits_hd [of 10 n] by simp
  with l show False by (simp add: numberBase_def digits.simps)
qed

section \<open>IPv4\<close>

lemma split_on_no [simp]: "c \<notin> set p \<Longrightarrow> split_on c p = [p]"
  by (induction p) auto

lemma split_on_cons [simp]: "c \<notin> set p \<Longrightarrow> split_on c (p @ c # s) = p # split_on c s"
  by (induction p) auto

lemma numberBase_no_sep:
  "46 \<notin> set (numberOf n)" "58 \<notin> set (numberBase 16 n)" "46 \<notin> set (numberBase 16 n)"
  "37 \<notin> set (numberBase 16 n)" "58 \<notin> set (numberOf n)"
  using numberOf_char [of _ n] numberBase_char [of 16 _ n] by fastforce+

lemma v4_loop_octet:
  assumes "n \<le> 255" "parts < 4"
  shows "v4_loop (numberOf n # rest) parts v = v4_loop rest (parts + 1) (push_bit 8 v mod 2 ^ 32 OR n)"
  using Decimal_numberOf [of n 2 3] assms leading_zero [of n]
  by (cases "1 < length (numberOf n)") simp_all

lemma shift_octet:
  assumes "(v::nat) < 2 ^ k" "k \<le> 24" "n \<le> 255"
  shows "push_bit 8 v mod 2 ^ 32 OR n = v * 256 + n"
proof -
  have "v < 2 ^ 24" using assms(1,2) power_increasing [of k 24 "2::nat"] by simp
  then have "push_bit 8 v mod 2 ^ 32 = push_bit 8 v" by (simp add: push_bit_eq_mult)
  then show ?thesis using push_bit_or_nat [of n 8 v] assms(3) by simp
qed

lemma V4_text:
  assumes "a \<le> 255" "b \<le> 255" "c \<le> 255" "d \<le> 255"
  shows "V4 (numberOf a @ [46] @ numberOf b @ [46] @ numberOf c @ [46] @ numberOf d) =
           Some (((a * 256 + b) * 256 + c) * 256 + d)"
proof -
  have o: "push_bit 8 0 mod 2 ^ 32 OR a = a"
    "push_bit 8 a mod 2 ^ 32 OR b = a * 256 + b"
    "push_bit 8 (a * 256 + b) mod 2 ^ 32 OR c = (a * 256 + b) * 256 + c"
    "push_bit 8 ((a * 256 + b) * 256 + c) mod 2 ^ 32 OR d = ((a * 256 + b) * 256 + c) * 256 + d"
    using shift_octet [of 0 0 a] shift_octet [of a 8 b] shift_octet [of "a * 256 + b" 16 c]
      shift_octet [of "(a * 256 + b) * 256 + c" 24 d] assms by auto
  let ?s = "numberOf a @ [46] @ numberOf b @ [46] @ numberOf c @ [46] @ numberOf d"
  have "V4 ?s = v4_loop [numberOf a, numberOf b, numberOf c, numberOf d] 0 0"
    by (simp add: V4_def numberBase_no_sep)
  also have "\<dots> = v4_loop [] (Suc (Suc (Suc (Suc 0)))) (((a * 256 + b) * 256 + c) * 256 + d)"
    using assms by (simp only: v4_loop_octet o) (simp only: v4_loop_octet o One_nat_def add_Suc_right
        add_0_right less_Suc_eq_le numeral_nat)
  finally show ?thesis by simp
qed

text \<open>The addresses the readers build: an IPv4 address is the low half of \<open>lo\<close>.\<close>

definition addr_ok :: "IpListParseAddr \<Rightarrow> bool" where
  "addr_ok addr \<longleftrightarrow> v6 addr \<or> (hi addr = 0 \<and> take_bit 32 (lo addr) = lo addr)"

lemma Format_v4_chars:
  assumes "\<not> v6 addr" "c \<in> set (Format addr)"
  shows "c = 46 \<or> (48 \<le> c \<and> c \<le> 57)"
  using assms by (auto simp: Format_def Let_def dest: numberOf_char)

lemma and_byte: "x AND 0xff = x mod (256::nat)"
  using take_bit_eq_mask [of 8 x] by (simp add: mask_eq_exp_minus_1 take_bit_eq_mod)

lemma octets_value:
  assumes "v < 2 ^ 32"
  shows "((drop_bit 24 v * 256 + (drop_bit 16 v AND 0xff)) * 256 + (drop_bit 8 v AND 0xff)) * 256 +
           (v AND 0xff) = (v::nat)"
proof -
  have d: "drop_bit 24 v = v div 256 div 256 div 256" "drop_bit 16 v = v div 256 div 256"
    "drop_bit 8 v = v div 256"
    by (simp_all add: drop_bit_eq_div div_mult2_eq [symmetric])
  show ?thesis unfolding and_byte d by (metis div_mult_mod_eq)
qed

lemma Address_Format_v4:
  assumes "\<not> v6 addr" "addr_ok addr"
  shows "Address (Format addr) = Some addr"
proof -
  define v where "v = unat (take_bit 32 (lo addr))"
  have v: "v < 2 ^ 32"
    by (simp add: v_def unsigned_take_bit_eq take_bit_nat_less_exp [of 32, simplified])
  have b: "drop_bit 24 v \<le> 255" "x AND 0xff \<le> 255" for x :: nat
    using v by (simp_all add: drop_bit_eq_div and_byte less_Suc_eq_le [symmetric] less_mult_imp_div_less)
  have "V4 (Format addr) = Some v"
    using V4_text [OF b(1) b(2) b(2) b(2)] octets_value [OF v] assms(1)
    by (simp add: Format_def v_def [symmetric])
  moreover have "58 \<notin> set (Format addr)" using Format_v4_chars [OF assms(1)] by fastforce
  moreover have "of_nat v = lo addr" using assms by (simp add: v_def addr_ok_def)
  ultimately show ?thesis using assms by (simp add: Address_def addr_ok_def)
qed

section \<open>IPv6\<close>

subsection \<open>Groups\<close>

lemma pack_groups_word:
  "foldl (\<lambda>acc g. push_bit 16 acc OR g) 0
     (map (\<lambda>i. take_bit 16 (drop_bit (48 - 16 * i) x)) [0..<4]) = (x :: 64 word)"
proof (rule bit_word_eqI)
  fix n
  assume "n < LENGTH(64)"
  then consider "n < 16" | "16 \<le> n" "n < 32" | "32 \<le> n" "n < 48" | "48 \<le> n" "n < 64" by fastforce
  then show "bit (foldl (\<lambda>acc g. push_bit 16 acc OR g) 0
      (map (\<lambda>i. take_bit 16 (drop_bit (48 - 16 * i) x)) [0..<4])) n = bit x n"
    by cases (auto simp: upt_rec bit_simps not_less)
qed

lemma pack_unat:
  "foldl (\<lambda>acc g. push_bit 16 acc OR of_nat g) (a :: 64 word) (map unat gs) =
     foldl (\<lambda>acc g. push_bit 16 acc OR g) a gs"
  by (induction gs arbitrary: a) simp_all

lemma pack_groups_half:
  "pack_groups (map (\<lambda>i. unat (take_bit 16 (drop_bit (48 - 16 * i) (x :: 64 word)))) [0..<4]) = x"
  using pack_unat [of 0 "map (\<lambda>i. take_bit 16 (drop_bit (48 - 16 * i) x)) [0..<4]"]
  by (simp only: pack_groups_def map_map o_def pack_groups_word)

lemma pack_zeros: "foldl (\<lambda>acc g. push_bit 16 acc OR of_nat g) 0 (replicate n 0) = (0 :: 64 word)"
  by (induction n) simp_all

lemma length_groupsOf [simp]: "length (groupsOf addr) = 8"
  by (simp add: groupsOf_def)

lemma groupsOf_lt: "g \<in> set (groupsOf addr) \<Longrightarrow> g < 2 ^ 16"
  by (auto simp: groupsOf_def unsigned_take_bit_eq intro: take_bit_nat_less_exp [of 16, simplified])

lemma pack_groupsOf:
  "pack_groups (take 4 (groupsOf addr)) = hi addr"
  "pack_groups (take 4 (drop 4 (groupsOf addr))) = lo addr"
  "pack_groups (drop 4 (groupsOf addr)) = lo addr"
  by (simp_all add: groupsOf_def pack_groups_half del: upt_rec_numeral)

subsection \<open>The zero run\<close>

definition run_ok :: "nat list \<Rightarrow> nat option \<times> nat \<Rightarrow> bool" where
  "run_ok groups best \<longleftrightarrow>
     (case best of
        (None, l) \<Rightarrow> l = 1
      | (Some s, l) \<Rightarrow> 2 \<le> l \<and> s + l \<le> length groups \<and> take l (drop s groups) = replicate l 0)"

lemma zero_run_ok:
  "run_ok groups best \<Longrightarrow> gs = drop i groups \<Longrightarrow> run_ok groups (zero_run i best gs)"
proof (induction i best gs rule: zero_run.induct)
  case (2 i best g gs)
  define n where "n = length (takeWhile (\<lambda>x. x = 0) (g # gs))"
  have len: "i + length (g # gs) = length groups"
    using arg_cong [OF "2.prems"(2), of length] by simp
  have step: "gs = drop (i + 1) groups" using "2.prems"(2) by (metis drop_Suc drop_tl list.sel(3) Suc_eq_plus1)
  have more: "drop n (g # gs) = drop (i + n) groups" by (simp only: "2.prems"(2) drop_drop add.commute)
  show ?case
  proof (cases "g = 0")
    case False
    with "2.IH"(1) [OF _ "2.prems"(1) step] show ?thesis by simp
  next
    case True
    have "n \<le> length (g # gs)" unfolding n_def by (rule length_takeWhile_le)
    moreover have "take n (g # gs) = takeWhile (\<lambda>x. x = 0) (g # gs)"
      unfolding n_def by (rule takeWhile_eq_take [symmetric])
    moreover have "takeWhile (\<lambda>x. x = 0) (g # gs) = replicate n 0"
      unfolding n_def by (rule replicate_length_same [symmetric]) (auto dest: set_takeWhileD)
    ultimately have "1 < n \<Longrightarrow> run_ok groups (Some i, n)"
      using len by (simp add: run_ok_def "2.prems"(2) [symmetric])
    moreover have "snd best < n \<Longrightarrow> 1 < n"
      using "2.prems"(1) by (cases best) (auto simp: run_ok_def split: option.splits)
    ultimately have "run_ok groups (if snd best < n then (Some i, n) else best)"
      using "2.prems"(1) by auto
    from "2.IH"(2) [OF _ n_def this more] True
    have "run_ok groups (zero_run (i + n) (if snd best < n then (Some i, n) else best) (drop n (g # gs)))"
      by simp
    moreover have "zero_run i best (g # gs) =
        zero_run (i + n) (if snd best < n then (Some i, n) else best) (drop n (g # gs))"
      using True by (simp add: n_def)
    ultimately show ?thesis by simp
  qed
qed simp

subsection \<open>The text of the groups\<close>

fun colons :: "nat list \<Rightarrow> qstring" where
  "colons [] = []"
| "colons [g] = numberBase 16 g"
| "colons (g # h # gs) = numberBase 16 g @ 58 # colons (h # gs)"

lemma last_number [simp]: "last (numberBase 16 g) \<noteq> 58" "hd (numberBase 16 g) \<noteq> 58"
  by (metis last_in_set hd_in_set numberBase_not_Nil numberBase_no_sep(2))+

lemma colons_Cons: "colons (g # gs) = numberBase 16 g @ (if gs = [] then [] else 58 # colons gs)"
  by (cases gs) simp_all

lemma colons_ends: "gs \<noteq> [] \<Longrightarrow> colons gs \<noteq> [] \<and> hd (colons gs) \<noteq> 58 \<and> last (colons gs) \<noteq> 58"
  by (induction gs rule: colons.induct) auto

lemma colons_snoc: "gs \<noteq> [] \<Longrightarrow> colons (gs @ [g]) = colons gs @ 58 # numberBase 16 g"
  by (induction gs rule: colons.induct) auto

lemma join_groups_plain:
  assumes "\<forall>s. fst best = Some s \<longrightarrow> s < i \<or> i + length gs \<le> s" "out = [] \<or> last out = 58"
  shows "join_groups best i (gs @ rest) (out @ colons hs) =
           join_groups best (i + length gs) rest (out @ colons (hs @ gs))"
  using assms(1)
proof (induction gs arbitrary: i hs)
  case (Cons g gs)
  have ne: "fst best \<noteq> Some i" using Cons.prems by auto
  have "(if out @ colons hs \<noteq> [] \<and> last (out @ colons hs) \<noteq> 58
         then (out @ colons hs) @ [58] else out @ colons hs) @ numberBase 16 g = out @ colons (hs @ [g])"
    using assms(2) colons_ends [of hs] colons_snoc [of hs g] by (cases "hs = []") auto
  with ne have "join_groups best i ((g # gs) @ rest) (out @ colons hs) =
      join_groups best (i + 1) (gs @ rest) (out @ colons (hs @ [g]))"
    by (simp add: Let_def)
  also have "\<dots> = join_groups best (i + 1 + length gs) rest (out @ colons ((hs @ [g]) @ gs))"
    by (rule Cons.IH) (use Cons.prems in auto)
  finally show ?case by simp
qed simp

lemma Format_v6_cases:
  assumes "v6 addr"
  obtains "Format addr = colons (groupsOf addr)"
  | head l tail where "groupsOf addr = head @ replicate l 0 @ tail" "2 \<le> l"
      "Format addr = colons head @ [58, 58] @ colons tail"
proof -
  define gs where "gs = groupsOf addr"
  define best where "best = zero_run 0 (None, 1) gs"
  have fmt: "Format addr = join_groups best 0 gs []"
    using assms by (simp add: Format_def gs_def best_def Let_def)
  have ok: "run_ok gs best" unfolding best_def by (rule zero_run_ok) (simp_all add: run_ok_def)
  show ?thesis
  proof (cases "fst best")
    case None
    then show ?thesis using join_groups_plain [of best 0 gs "[]" "[]" "[]"] that(1) fmt gs_def by simp
  next
    case (Some s)
    then obtain l where best: "best = (Some s, l)" by (cases best) simp
    with ok have l: "2 \<le> l" "s + l \<le> length gs" and z: "take l (drop s gs) = replicate l 0"
      by (simp_all add: run_ok_def)
    define head tail where "head = take s gs" and "tail = drop (s + l) gs"
    have split: "gs = head @ replicate l 0 @ tail"
      using z by (simp add: head_def tail_def) (metis append_take_drop_id drop_drop add.commute)
    have lh: "length head = s" using l by (simp add: head_def)
    obtain k where k: "l = Suc k" using l by (cases l) simp_all
    have "join_groups best 0 gs [] = join_groups best s (replicate l 0 @ tail) (colons head)"
      using join_groups_plain [of best 0 head "[]" "replicate l 0 @ tail" "[]"] lh best split by simp
    also have "\<dots> = join_groups best (s + l) tail (colons head @ [58, 58])"
      using k best by simp
    also have "\<dots> = colons head @ [58, 58] @ colons tail"
      using join_groups_plain [of best "s + l" tail "colons head @ [58, 58]" "[]" "[]"] l best by simp
    finally show ?thesis using that(2) [of head l tail] split l(1) fmt gs_def by simp
  qed
qed

subsection \<open>Reading it back\<close>

lemma split_on_colons: "gs \<noteq> [] \<Longrightarrow> split_on 58 (colons gs) = map (numberBase 16) gs"
  by (induction gs rule: colons.induct) (simp_all add: numberBase_no_sep)

lemma v6_loop_groups:
  assumes "\<forall>g \<in> set gs. g < 2 ^ 16" "length acc + length gs \<le> 8"
  shows "v6_loop (map (numberBase 16) gs) allow acc = Some (acc @ gs)"
  using assms
proof (induction gs arbitrary: acc)
  case (Cons g gs)
  have "v6_loop (map (numberBase 16) (g # gs)) allow acc =
      v6_loop (map (numberBase 16) gs) allow (acc @ [g])"
    using Cons.prems length_hex_group [of g] by (simp add: hex_group_number numberBase_no_sep)
  also have "\<dots> = Some ((acc @ [g]) @ gs)" by (rule Cons.IH) (use Cons.prems in auto)
  finally show ?case by simp
qed simp

lemma V6Part_colons:
  assumes "\<forall>g \<in> set gs. g < 2 ^ 16" "length gs \<le> 8"
  shows "V6Part (colons gs) allow = Some gs"
proof (cases "gs = []")
  case False
  then show ?thesis
    using v6_loop_groups [of gs "[]" allow] assms colons_ends [OF False]
    by (simp add: V6Part_def split_on_colons)
qed (simp add: V6Part_def)

lemma indexOfStr_skip:
  "58 \<notin> set p \<Longrightarrow>
     indexOfStr [58, 58] (p @ s) = map_option ((+) (length p)) (indexOfStr [58, 58 :: nat] s)"
  by (induction p) (auto split: option.splits simp: map_option_case)

lemma indexOfStr_single:
  "s = [] \<or> hd s \<noteq> 58 \<Longrightarrow>
     indexOfStr [58, 58 :: nat] (58 # s) = map_option Suc (indexOfStr [58, 58] s)"
  by (cases s) auto

lemma indexOfStr_colons: "indexOfStr [58, 58] (colons gs) = None"
proof (induction gs rule: colons.induct)
  case (2 g)
  then show ?case using indexOfStr_skip [of "numberBase 16 g" "[]"] by (simp add: numberBase_no_sep)
next
  case (3 g h gs)
  then show ?case
    using colons_ends [of "h # gs"] by (simp add: indexOfStr_skip numberBase_no_sep indexOfStr_single del: indexOfStr.simps(2))
qed simp

lemma indexOfStr_gap: "indexOfStr [58, 58] (colons gs @ 58 # 58 # t) = Some (length (colons gs))"
proof (induction gs rule: colons.induct)
  case (3 g h gs)
  have "hd (colons (h # gs) @ 58 # 58 # t) \<noteq> 58" using colons_ends [of "h # gs"] by simp
  with 3 show ?case
    by (simp add: indexOfStr_skip numberBase_no_sep indexOfStr_single del: indexOfStr.simps(2))
qed (simp_all add: indexOfStr_skip numberBase_no_sep)

lemma V6_Format:
  assumes "v6 addr"
  shows "V6 (Format addr) = Some (hi addr, lo addr)"
proof -
  have lt: "\<forall>g \<in> set (groupsOf addr). g < 2 ^ 16" using groupsOf_lt by blast
  show ?thesis
    using assms
  proof (cases rule: Format_v6_cases)
    case 1
    then show ?thesis
      using V6Part_colons [OF lt, of True] by (simp add: V6_def indexOfStr_colons pack_groupsOf)
  next
    case (2 head l tail)
    have len: "length head + l + length tail = 8" using arg_cong [OF 2(1), of length] by simp
    have "\<forall>g \<in> set head. g < 2 ^ 16" "\<forall>g \<in> set tail. g < 2 ^ 16" using lt 2(1) by auto
    then have "V6Part (colons head) False = Some head" "V6Part (colons tail) True = Some tail"
      using len by (simp_all add: V6Part_colons)
    moreover have "indexOfStr [58, 58] (58 # colons tail) = None"
      using colons_ends [of tail] 
      by (cases "tail = []") (simp_all add: indexOfStr_single indexOfStr_colons del: indexOfStr.simps(2))
    moreover have "8 - length head - length tail = l" using len by simp
    moreover define t where "t = colons head @ 58 # 58 # colons tail"
    moreover have "take (length (colons head)) t = colons head"
      "drop (length (colons head) + 1) t = 58 # colons tail"
      "drop (length (colons head) + 2) t = colons tail"
      "indexOfStr [58, 58] t = Some (length (colons head))"
      by (simp_all add: t_def indexOfStr_gap)
    moreover have "Format addr = t" by (simp add: 2(3) t_def)
    ultimately show ?thesis
      using len 2(2) pack_groupsOf(1,2) [of addr]
      by (simp add: V6_def Let_def 2(1) del: take_append drop_append take_drop indexOfStr.simps(2))
  qed
qed

lemma set_colons: "c \<in> set (colons gs) \<Longrightarrow> c = 58 \<or> (48 \<le> c \<and> c \<le> 57) \<or> (97 \<le> c \<and> c \<le> 102)"
  by (induction gs rule: colons.induct) (auto dest: numberBase_char [rotated 2])

lemma Format_v6_chars:
  assumes "v6 addr"
  shows "58 \<in> set (Format addr)"
    and "c \<in> set (Format addr) \<Longrightarrow> c = 58 \<or> (48 \<le> c \<and> c \<le> 57) \<or> (97 \<le> c \<and> c \<le> 102)"
proof -
  have "58 \<in> set (colons (groupsOf addr))"
    by (cases "groupsOf addr" rule: colons.cases) (use length_groupsOf [of addr] in auto)
  with assms show "58 \<in> set (Format addr)" by (metis Format_v6_cases Un_iff list.set_intros(1) set_append)
  show "c \<in> set (Format addr) \<Longrightarrow> c = 58 \<or> (48 \<le> c \<and> c \<le> 57) \<or> (97 \<le> c \<and> c \<le> 102)"
    using assms by (cases rule: Format_v6_cases) (auto dest: set_colons)
qed

lemma Format_chars:
  "c \<in> set (Format addr) \<Longrightarrow> c = 46 \<or> c = 58 \<or> (48 \<le> c \<and> c \<le> 57) \<or> (97 \<le> c \<and> c \<le> 102)"
  using Format_v4_chars Format_v6_chars(2) by (cases "v6 addr") blast+

lemma Address_Format:
  assumes "addr_ok addr"
  shows "Address (Format addr) = Some addr"
proof (cases "v6 addr")
  case True
  have "37 \<notin> set (Format addr)" using Format_chars by fastforce
  then have "indexOf 37 (Format addr) = None" by (rule indexOf_None [THEN iffD2])
  with True show ?thesis using Format_v6_chars(1) [OF True]
    by (simp add: Address_def V6_Format del: indexOf_None)
qed (simp add: Address_Format_v4 assms)

section \<open>Networks\<close>

text \<open>What \<open>Network\<close> promises: an address the printer can print, masked to a proper prefix length.\<close>

definition net_ok :: "IpListParseAddr \<Rightarrow> nat \<Rightarrow> bool" where
  "net_ok addr plen \<longleftrightarrow>
     addr_ok addr \<and> 1 \<le> plen \<and> plen \<le> Bits addr \<and> Mask addr plen = addr \<and>
     \<not> (IsMapped addr \<and> 96 \<le> plen)"

lemma v4_loop_lt: "v4_loop ps k v = Some n \<Longrightarrow> v < 2 ^ 32 \<Longrightarrow> n < 2 ^ 32"
proof (induction ps arbitrary: k v)
  case (Cons p ps)
  have "take_bit 32 (push_bit 8 v mod 2 ^ 32 OR q) = push_bit 8 v mod 2 ^ 32 OR q"
    if "q \<le> 255" for q :: nat
    using that by (simp add: take_bit_or take_bit_nat_eq_self)
  then have "push_bit 8 v mod 2 ^ 32 OR q < 2 ^ 32" if "q \<le> 255" for q :: nat
    using that by (metis take_bit_nat_less_exp)
  with Cons show ?case by (auto split: option.splits if_splits)
qed (auto split: if_splits)

lemma Address_ok:
  assumes "Address text = Some addr"
  shows "addr_ok addr"
proof (cases "58 \<in> set text")
  case False
  with assms obtain n where "V4 text = Some n" and a: "addr = \<lparr>v6 = False, hi = 0, lo = of_nat n\<rparr>"
    by (auto simp: Address_def split: option.splits)
  then have "n < 2 ^ 32" using v4_loop_lt unfolding V4_def by fastforce
  then have "take_bit 32 (of_nat n :: 64 word) = of_nat n"
    by (simp add: take_bit_of_nat take_bit_nat_eq_self)
  with a show ?thesis by (simp add: addr_ok_def)
qed (use assms in \<open>auto simp: Address_def addr_ok_def Let_def split: option.splits\<close>)

lemma Mask_v6 [simp]: "v6 (Mask addr plen) = v6 addr"
  by (simp add: Mask_def)

lemma Bits_Mask [simp]: "Bits (Mask addr plen) = Bits addr"
  by (simp add: Bits_def)

lemma take_bit_and_left: "take_bit n (a AND b) = take_bit n a AND (b :: 64 word)"
  by (rule bit_word_eqI) (auto simp: bit_simps)

lemma Mask_ok: "addr_ok addr \<Longrightarrow> addr_ok (Mask addr plen)"
  by (auto simp: addr_ok_def Mask_def take_bit_and_left simp del: take_bit_and)

lemma Mask_idem [simp]: "Mask (Mask addr plen) plen = Mask addr plen"
  by (simp add: Mask_def ac_simps)

lemma Mask_not_mapped:
  assumes "plen < 96"
  shows "\<not> IsMapped (Mask addr plen)"
proof
  assume m: "IsMapped (Mask addr plen)"
  then have "bit (drop_bit 32 (lo (Mask addr plen))) 0" by (simp add: IsMapped_def)
  then have "bit (lo (Mask addr plen)) 32" by (simp add: bit_simps)
  moreover have "v6 addr" using m by (simp add: IsMapped_def)
  ultimately show False using assms by (auto simp: Mask_def bit_simps split: if_splits)
qed

lemma unmapped_ok: "addr_ok (unmapped addr)"
  using take_bit_eq_mask [of 32 "lo addr"]
  by (simp add: addr_ok_def unmapped_def mask_eq_exp_minus_1 flip: take_bit_eq_mask)

lemma network_mask_ok:
  assumes "network_mask addr plen = Some (a, p)" "addr_ok addr" "plen \<le> Bits addr"
  shows "net_ok a p"
proof (cases "IsMapped addr \<and> 96 \<le> plen")
  case True
  with assms have "a = Mask (unmapped addr) p" "p = plen - 96" "p \<noteq> 0" "plen \<le> 128"
    by (auto simp: network_mask_def Bits_def IsMapped_def split: if_splits)
  then show ?thesis
    using unmapped_ok Mask_ok by (auto simp: net_ok_def Bits_def IsMapped_def unmapped_def)
next
  case False
  with assms have "a = Mask addr plen" "p = plen" "plen \<noteq> 0"
    by (auto simp: network_mask_def split: if_splits)
  moreover have "\<not> (IsMapped (Mask addr plen) \<and> 96 \<le> plen)"
  proof (cases "plen < 96")
    case wide: False
    have "drop_bit 32 (lo addr AND push_bit (128 - plen) (NOT 0)) = drop_bit 32 (lo addr)"
      using wide by (intro bit_word_eqI) (auto simp: bit_simps dest: bit_imp_le_length)
    then have "IsMapped (Mask addr plen) = IsMapped addr"
      using wide by (auto simp: IsMapped_def Mask_def)
    with False wide show ?thesis by simp
  qed (simp add: Mask_not_mapped)
  ultimately show ?thesis using assms Mask_ok by (simp add: net_ok_def)
qed

lemma network_prefix_le: "network_prefix addr t = Some p \<Longrightarrow> p \<le> Bits addr"
  by (auto simp: network_prefix_def split: option.splits if_splits)

lemma Network_ok:
  assumes "Network text = Some (addr, plen)"
  shows "net_ok addr plen"
proof -
  from assms obtain body t a p where "Address body = Some a" "network_prefix a t = Some p"
    "network_mask a p = Some (addr, plen)"
    by (auto simp: Network_def split: option.splits prod.splits)
  then show ?thesis using network_mask_ok Address_ok network_prefix_le by blast
qed

lemma Format_not_Nil [simp]: "Format addr \<noteq> []"
  using Format_v6_chars(1) [of addr] by (cases "v6 addr") (auto simp: Format_def Let_def)

lemma Format_chars_no [simp]:
  "47 \<notin> set (Format addr)" "91 \<notin> set (Format addr)" "93 \<notin> set (Format addr)"
  "45 \<notin> set (Format addr)" "37 \<notin> set (Format addr)"
  using Format_chars [of _ addr] by fastforce+

lemma Cidr_chars:
  "c \<in> set (Cidr addr plen) \<Longrightarrow>
     c = 46 \<or> c = 47 \<or> c = 58 \<or> (48 \<le> c \<and> c \<le> 57) \<or> (97 \<le> c \<and> c \<le> 102)"
  using Format_chars [of c addr] numberOf_char [of c plen]
  by (auto simp: Cidr_def Let_def split: if_splits)

lemma Cidr_not_Nil [simp]: "Cidr addr plen \<noteq> []"
  by (simp add: Cidr_def Let_def)

lemma Cidr_no_space: "c \<in> set (Cidr addr plen) \<Longrightarrow> \<not> isSpace c"
  using Cidr_chars [of c addr plen] by (auto simp: isSpace_def)

lemma hd_Cidr: "hd (Cidr addr plen) \<noteq> 91"
  using Cidr_chars [of "hd (Cidr addr plen)" addr plen] by auto

lemma network_mask_id: "net_ok addr plen \<Longrightarrow> network_mask addr plen = Some (addr, plen)"
  by (auto simp: net_ok_def network_mask_def)

lemma Network_Cidr:
  assumes "net_ok addr plen"
  shows "Network (Cidr addr plen) = Some (addr, plen)"
proof -
  have ok: "addr_ok addr" and le: "plen \<le> Bits addr" using assms by (simp_all add: net_ok_def)
  have "trimmed (Cidr addr plen) = Cidr addr plen"
    by (rule trimmed_no_space) (simp add: Cidr_no_space)
  moreover have "network_brackets (Cidr addr plen) = Some (Cidr addr plen, [])"
    by (simp add: network_brackets_def hd_Cidr)
  moreover have "\<exists>t. network_slash (Cidr addr plen) [] = Some (Format addr, t) \<and>
      network_prefix addr t = Some plen"
  proof (cases "Bits addr \<le> plen")
    case True
    then have "indexOf 47 (Cidr addr plen) = None" "Cidr addr plen = Format addr"
      by (simp_all add: Cidr_def)
    with True le show ?thesis by (simp add: network_slash_def network_prefix_def del: indexOf_None)
  next
    case False
    then have "Cidr addr plen = Format addr @ 47 # numberOf plen" by (simp add: Cidr_def)
    moreover have "Decimal (numberOf plen) 3 = Some plen"
      using Decimal_numberOf [of plen 2 3] le by (simp add: Bits_def split: if_splits)
    ultimately show ?thesis
      using le by (simp add: network_slash_def network_prefix_def indexOf_append)
  qed
  ultimately show ?thesis
    using Address_Format [OF ok] network_mask_id [OF assms] by (auto simp: Network_def)
qed

lemma NormalizeCidr_normal:
  assumes "net_ok addr plen"
  shows "NormalizeCidr (Cidr addr plen) = Cidr addr plen"
  by (simp add: NormalizeCidr_def Network_Cidr [OF assms])

lemma NormalizeCidr_cases:
  obtains "NormalizeCidr text = []"
  | addr plen where "NormalizeCidr text = Cidr addr plen" "net_ok addr plen"
proof (cases "Network text")
  case (Some ap)
  then obtain addr plen where "Network text = Some (addr, plen)" by (cases ap) simp
  with that(2) [of addr plen] Network_ok show thesis by (simp add: NormalizeCidr_def)
qed (use that(1) in \<open>simp add: NormalizeCidr_def\<close>)

section \<open>Properties\<close>

text \<open>
  Printing and reading an address agree: every address a reader can have built (an IPv4 address
  in the low 32 bits, or any IPv6 address, whatever zero run \<^verbatim>\<open>::\<close> replaces) is read back from
  its printed text as the same address.
\<close>

theorem Address_Format_roundtrip:
  assumes "Address text = Some addr"
  shows "Address (Format addr) = Some addr"
  using assms by (intro Address_Format Address_ok)

theorem Address_Format_roundtrip_witness:
  "Address (Format \<lparr>v6 = True, hi = 0, lo = 1\<rparr>) = Some \<lparr>v6 = True, hi = 0, lo = 1\<rparr>"
proof (rule Address_Format_roundtrip)
  show "Address (lit ''::1'') = Some \<lparr>v6 = True, hi = 0, lo = 1\<rparr>"
    by (simp add: Address_def V6_def V6Part_def HexDigit_def pack_groups_def pack_zeros)
qed

text \<open>
  Normalising a network is idempotent and keeps the network: what \<open>NormalizeCidr\<close> returns
  for a network reads as that very network, masked to its prefix, so normalising it again returns
  the same text; a text that is no network gives the empty text.
\<close>

theorem NormalizeCidr_normal_form:
  "NormalizeCidr (NormalizeCidr s) = NormalizeCidr s \<and>
     (case Network s of
        None \<Rightarrow> NormalizeCidr s = []
      | Some (addr, plen) \<Rightarrow>
          1 \<le> plen \<and> plen \<le> Bits addr \<and> Mask addr plen = addr \<and>
          Network (NormalizeCidr s) = Some (addr, plen))"
proof -
  have "NormalizeCidr [] = []"
    by (simp add: NormalizeCidr_def Network_def network_brackets_def network_slash_def Address_def
        V4_def Decimal_def)
  then have "NormalizeCidr (NormalizeCidr s) = NormalizeCidr s"
    by (cases rule: NormalizeCidr_cases [of s]) (simp_all add: NormalizeCidr_normal)
  moreover have "Network s = Some (addr, plen) \<Longrightarrow>
      1 \<le> plen \<and> plen \<le> Bits addr \<and> Mask addr plen = addr \<and>
      Network (NormalizeCidr s) = Some (addr, plen)" for addr plen
    using Network_ok [of s addr plen]
    by (simp add: NormalizeCidr_def Network_Cidr) (simp add: net_ok_def)
  ultimately show ?thesis
    by (cases "Network s") (auto simp: NormalizeCidr_def)
qed

end
