(* ===== verification/IpRange.thy ===== *)
theory IpRange
  imports IpAddrText
begin

text \<open>
  Ranges of addresses (\<^verbatim>\<open>ipListParseCoverRange\<close> and \<^verbatim>\<open>ipListParseLess\<close> in
  \<^verbatim>\<open>src/scanner/IpListParse.cpp\<close>): a range is covered by the fewest aligned networks. The loop
  runs for every pair of addresses, ordered or not, so it is a total function here: each pass brings
  \<open>first\<close> nearer to \<open>last\<close> modulo \<open>2 ^ 128\<close>. \<open>addr_val\<close> reads the two words as one number.
\<close>

section \<open>Bit counts\<close>

text \<open>\<^verbatim>\<open>std::countr_zero\<close> and \<^verbatim>\<open>std::bit_width\<close> on \<^verbatim>\<open>quint64\<close>.\<close>

fun trailing_zeros :: "nat \<Rightarrow> nat" where
  "trailing_zeros n = (if n = 0 \<or> odd n then 0 else Suc (trailing_zeros (n div 2)))"

fun binary_length :: "nat \<Rightarrow> nat" where
  "binary_length n = (if n = 0 then 0 else Suc (binary_length (n div 2)))"

declare trailing_zeros.simps [simp del] binary_length.simps [simp del]

definition countr_zero :: "64 word \<Rightarrow> nat" where
  "countr_zero x = (if x = 0 then 64 else trailing_zeros (unat x))"

definition bit_width :: "64 word \<Rightarrow> nat" where
  "bit_width x = binary_length (unat x)"

definition Less :: "IpListParseAddr \<Rightarrow> IpListParseAddr \<Rightarrow> bool" where
  "Less a b \<longleftrightarrow> (if hi a \<noteq> hi b then hi a < hi b else lo a < lo b)"

section \<open>The cover loop\<close>

definition cover_align :: "IpListParseAddr \<Rightarrow> nat \<Rightarrow> int" where
  "cover_align first bits =
     min (if lo first \<noteq> 0 then int (countr_zero (lo first))
          else if hi first \<noteq> 0 then 64 + int (countr_zero (hi first)) else 128)
       (int bits)"

definition cover_fit :: "IpListParseAddr \<Rightarrow> IpListParseAddr \<Rightarrow> int" where
  "cover_fit first last' =
     (let diffLo = lo last' - lo first;
          diffHi = hi last' - hi first - (if lo last' < lo first then 1 else 0);
          sizeLo = diffLo + 1;
          sizeHi = diffHi + (if sizeLo = 0 then 1 else 0)
      in if sizeHi \<noteq> 0 then 64 + int (bit_width sizeHi) - 1 else int (bit_width sizeLo) - 1)"

definition cover_end :: "IpListParseAddr \<Rightarrow> int \<Rightarrow> IpListParseAddr" where
  "cover_end first k =
     (if 64 \<le> k then
        (let blockEnd = first\<lparr>lo := NOT 0\<rparr>
         in if 64 < k then blockEnd\<lparr>hi := hi blockEnd OR (push_bit (nat (k - 64)) 1 - 1)\<rparr>
            else blockEnd)
      else if 0 < k then first\<lparr>lo := lo first OR (push_bit (nat k) 1 - 1)\<rparr>
      else first)"

definition cover_next :: "IpListParseAddr \<Rightarrow> IpListParseAddr" where
  "cover_next blockEnd =
     (let l = lo blockEnd + 1
      in blockEnd\<lparr>lo := l, hi := hi blockEnd + (if l = 0 then 1 else 0)\<rparr>)"

section \<open>Arithmetic on 128 bits\<close>

definition addr_val :: "IpListParseAddr \<Rightarrow> int" where
  "addr_val addr = uint (hi addr) * 2 ^ 64 + uint (lo addr)"

text \<open>How far \<open>last\<close> is ahead of \<open>first\<close>, modulo \<open>2 ^ 128\<close>.\<close>

definition cover_dist :: "IpListParseAddr \<Rightarrow> IpListParseAddr \<Rightarrow> int" where
  "cover_dist first last' = (addr_val last' - addr_val first) mod 2 ^ 128"

lemma uint64_bounds: "0 \<le> uint (x :: 64 word)" "uint (x :: 64 word) \<le> 2 ^ 64 - 1"
  using uint_lt2p [of x] by simp_all

lemma addr_val_bounds: "0 \<le> addr_val a" "addr_val a < 2 ^ 128"
proof -
  show "0 \<le> addr_val a" by (simp add: addr_val_def)
  have "uint (hi a) * 2 ^ 64 \<le> (2 ^ 64 - 1) * 2 ^ 64"
    by (rule mult_right_mono [OF uint64_bounds(2)]) simp
  with uint64_bounds(2) [of "lo a"] show "addr_val a < 2 ^ 128" by (simp add: addr_val_def)
qed

lemma addr_val_eq: "addr_val a = addr_val b \<longleftrightarrow> hi a = hi b \<and> lo a = lo b"
proof
  assume e: "addr_val a = addr_val b"
  have "uint (lo c) = addr_val c mod 2 ^ 64" "uint (hi c) = addr_val c div 2 ^ 64" for c
    using uint64_bounds [of "lo c"] by (simp_all add: addr_val_def)
  with e show "hi a = hi b \<and> lo a = lo b" by (simp add: word_uint_eq_iff)
qed (simp add: addr_val_def)

lemma Less_val: "Less a b \<longleftrightarrow> addr_val a < addr_val b"
proof (cases "hi a = hi b")
  case True
  then show ?thesis by (simp add: Less_def addr_val_def word_less_def)
next
  case False
  have "addr_val c < addr_val d" if "hi c < hi d" for c d
  proof -
    have "(uint (hi c) + 1) * 2 ^ 64 \<le> uint (hi d) * 2 ^ 64"
      using that by (intro mult_right_mono) (simp_all add: word_less_def)
    then show ?thesis
      using uint64_bounds [of "lo c"] uint64_bounds [of "lo d"]
      unfolding addr_val_def distrib_right by linarith
  qed
  with False show ?thesis unfolding Less_def by (metis less_asym linorder_less_linear)
qed

lemma trailing_zeros_dvd: "2 ^ trailing_zeros n dvd n"
proof (induction n rule: trailing_zeros.induct)
  case (1 n)
  show ?case
  proof (cases "n = 0 \<or> odd n")
    case False
    then have "2 ^ trailing_zeros (n div 2) dvd n div 2" using 1 by blast
    then have "2 * 2 ^ trailing_zeros (n div 2) dvd 2 * (n div 2)" by (rule mult_dvd_mono [OF dvd_refl])
    with False show ?thesis by (simp add: trailing_zeros.simps [of n])
  qed (auto simp: trailing_zeros.simps [of n])
qed

lemma countr_zero_dvd: "x \<noteq> 0 \<Longrightarrow> 2 ^ countr_zero x dvd uint x"
proof -
  assume "x \<noteq> 0"
  then have "int (2 ^ countr_zero x) dvd int (unat x)"
    using trailing_zeros_dvd [of "unat x"] by (simp only: of_nat_dvd_iff countr_zero_def if_False)
  then show ?thesis by simp
qed

lemma binary_length_bounds: "n \<noteq> 0 \<Longrightarrow>
    0 < binary_length n \<and> 2 ^ (binary_length n - 1) \<le> n \<and> n < 2 ^ binary_length n"
proof (induction n rule: binary_length.induct)
  case (1 n)
  show ?case
  proof (cases "n = 1")
    case True
    then show ?thesis by (simp add: binary_length.simps)
  next
    case False
    with 1 have ih: "0 < binary_length (n div 2)" "2 ^ (binary_length (n div 2) - 1) \<le> n div 2"
      "n div 2 < 2 ^ binary_length (n div 2)" by auto
    then obtain m where m: "binary_length (n div 2) = Suc m" by (cases "binary_length (n div 2)") auto
    then have "2 ^ m \<le> n div 2" "n div 2 < 2 * 2 ^ m" using ih by simp_all
    then have "2 * 2 ^ m \<le> n" "n < 4 * 2 ^ m" by linarith+
    with m "1.prems" show ?thesis by (simp add: binary_length.simps [of n])
  qed
qed

lemma bit_width_bounds: "x \<noteq> 0 \<Longrightarrow>
    0 < bit_width x \<and> 2 ^ (bit_width x - 1) \<le> uint x \<and> uint x < 2 ^ bit_width x"
proof -
  assume "x \<noteq> 0"
  then have b: "0 < bit_width x" "2 ^ (bit_width x - 1) \<le> unat x" "unat x < 2 ^ bit_width x"
    using binary_length_bounds [of "unat x"] by (simp_all add: bit_width_def unat_eq_zero)
  from b(2) have "int (2 ^ (bit_width x - 1)) \<le> int (unat x)" by (simp only: of_nat_le_iff)
  moreover from b(3) have "int (unat x) < int (2 ^ bit_width x)" by (simp only: of_nat_less_iff)
  ultimately show ?thesis using b(1) by simp
qed

lemma bit_width_0 [simp]: "bit_width 0 = 0"
  by (simp add: bit_width_def binary_length.simps)

text \<open>One number over two words: a difference with borrow, a successor with carry.\<close>

lemma glue_mod:
  assumes "0 \<le> y" "y < 2 ^ 64"
  shows "x mod 2 ^ 64 * 2 ^ 64 + y = (x * 2 ^ 64 + y) mod (2 ^ 128 :: int)"
proof -
  have "(x * 2 ^ 64 + y) mod (2 ^ 64 * 2 ^ 64) =
      2 ^ 64 * ((x * 2 ^ 64 + y) div 2 ^ 64 mod 2 ^ 64) + (x * 2 ^ 64 + y) mod 2 ^ 64"
    by (rule zmod_zmult2_eq) simp
  moreover have "(x * 2 ^ 64 + y) div 2 ^ 64 = x" "(x * 2 ^ 64 + y) mod 2 ^ 64 = y"
    using assms by simp_all
  moreover have "(2::int) ^ 64 * 2 ^ 64 = 2 ^ 128" by simp
  ultimately show ?thesis by (metis mult.commute)
qed

definition pair_val :: "64 word \<Rightarrow> 64 word \<Rightarrow> int" where
  "pair_val h l = uint h * 2 ^ 64 + uint l"

lemma pair_diff:
  "pair_val (h1 - h2 - (if l1 < l2 then 1 else 0)) (l1 - l2) = (pair_val h1 l1 - pair_val h2 l2) mod 2 ^ 128"
proof -
  define b :: int where "b = (if l1 < l2 then 1 else 0)"
  have "uint (l1 - l2) = uint l1 - uint l2 + b * 2 ^ 64"
    using uint_sub_if' [of l1 l2] by (simp add: b_def word_less_def not_less)
  moreover have "uint (h1 - h2 - (if l1 < l2 then 1 else 0)) = (uint h1 - uint h2 - b) mod 2 ^ 64"
    by (simp add: b_def uint_word_ariths mod_simps)
  ultimately have "pair_val (h1 - h2 - (if l1 < l2 then 1 else 0)) (l1 - l2) =
      ((uint h1 - uint h2 - b) * 2 ^ 64 + (uint l1 - uint l2 + b * 2 ^ 64)) mod 2 ^ 128"
    using glue_mod [of "uint (l1 - l2)" "uint h1 - uint h2 - b"] uint64_bounds [of "l1 - l2"]
    by (simp add: pair_val_def)
  then show ?thesis by (simp add: pair_val_def algebra_simps)
qed

lemma pair_succ:
  "pair_val (h + (if l + 1 = 0 then 1 else 0)) (l + 1) = (pair_val h l + 1) mod 2 ^ 128"
proof -
  define c :: int where "c = (if l + 1 = 0 then 1 else 0)"
  have "uint (l + 1) = uint l + 1 - c * 2 ^ 64"
  proof (cases "l + 1 = 0")
    case True
    then have "l = - 1" by (metis add_eq_0_iff add.commute)
    then show ?thesis by (simp add: c_def unsigned_minus_1_eq_mask mask_eq_exp_minus_1)
  next
    case False
    then have "uint (l + 1) \<noteq> 0" by (simp add: uint_0_iff)
    with False show ?thesis
      using uint_plus_if' [of l 1] uint64_bounds [of l] uint64_bounds [of "l + 1"]
      by (simp add: c_def split: if_splits)
  qed
  moreover have "uint (h + (if l + 1 = 0 then 1 else 0)) = (uint h + c) mod 2 ^ 64"
    by (simp add: c_def uint_word_ariths)
  ultimately have "pair_val (h + (if l + 1 = 0 then 1 else 0)) (l + 1) =
      ((uint h + c) * 2 ^ 64 + (uint l + 1 - c * 2 ^ 64)) mod 2 ^ 128"
    using glue_mod [of "uint (l + 1)" "uint h + c"] uint64_bounds [of "l + 1"]
    by (simp add: pair_val_def)
  then show ?thesis by (simp add: pair_val_def algebra_simps)
qed

lemma addr_val_pair: "addr_val a = pair_val (hi a) (lo a)"
  by (simp add: addr_val_def pair_val_def)

lemma cover_dist_bounds: "0 \<le> cover_dist first last'" "cover_dist first last' < 2 ^ 128"
  by (simp_all add: cover_dist_def)

lemma cover_next_val: "addr_val (cover_next a) = (addr_val a + 1) mod 2 ^ 128"
  by (simp add: cover_next_def addr_val_pair Let_def pair_succ del: power_numeral)

lemma pair_val_fit:
  assumes "pair_val h l \<noteq> 0"
  defines "fit \<equiv> (if h \<noteq> 0 then 64 + int (bit_width h) - 1 else int (bit_width l) - 1)"
  shows "0 \<le> fit" "fit \<le> 127" "2 ^ nat fit \<le> pair_val h l" "pair_val h l < 2 ^ (nat fit + 1)"
proof -
  have le: "bit_width w \<le> 64" if "w \<noteq> 0" for w
  proof (rule ccontr)
    assume "\<not> bit_width w \<le> 64"
    then have "(2::int) ^ 64 \<le> 2 ^ (bit_width w - 1)" by (intro power_increasing) simp_all
    then show False using bit_width_bounds [OF that] uint64_bounds [of w] by linarith
  qed
  have "0 \<le> fit \<and> fit \<le> 127 \<and> 2 ^ nat fit \<le> pair_val h l \<and> pair_val h l < 2 ^ (nat fit + 1)"
  proof (cases "h = 0")
    case True
    with assms have l: "l \<noteq> 0" by (auto simp: pair_val_def)
    have n1: "nat fit = bit_width l - 1" using True by (simp add: fit_def nat_diff_distrib')
    with bit_width_bounds [OF l] have n: "nat fit = bit_width l - 1" "nat fit + 1 = bit_width l"
      by simp_all
    show ?thesis
      using bit_width_bounds [OF l] le [OF l] True unfolding n by (simp add: fit_def pair_val_def)
  next
    case False
    define c :: int where "c = 2 ^ 64"
    have l: "0 \<le> uint l" "uint l < c" using uint64_bounds [of l] by (simp_all add: c_def)
    have n1: "nat fit = bit_width h - 1 + 64"
      using False bit_width_bounds [OF False] by (simp add: fit_def)
    with bit_width_bounds [OF False]
    have n: "nat fit = bit_width h - 1 + 64" "nat fit + 1 = bit_width h + 64" by simp_all
    have "2 ^ (bit_width h - 1) * c \<le> uint h * c" "(uint h + 1) * c \<le> 2 ^ bit_width h * c"
      using bit_width_bounds [OF False] by (intro mult_right_mono; simp add: c_def)+
    then have "2 ^ (bit_width h - 1) * c \<le> uint h * c + uint l" "uint h * c + uint l < 2 ^ bit_width h * c"
      using l unfolding distrib_right by linarith+
    then have "2 ^ (bit_width h - 1 + 64) \<le> pair_val h l" "pair_val h l < 2 ^ (bit_width h + 64)"
      unfolding pair_val_def power_add c_def by blast+
    then have "2 ^ nat fit \<le> pair_val h l" "pair_val h l < 2 ^ (nat fit + 1)"
      by (simp_all only: n(1)) (simp only: n(2) [unfolded n(1)])
    moreover have "0 \<le> fit" "fit \<le> 127"
      using bit_width_bounds [OF False] le [OF False] False by (simp_all add: fit_def)
    ultimately show ?thesis by blast
  qed
  then show "0 \<le> fit" "fit \<le> 127" "2 ^ nat fit \<le> pair_val h l" "pair_val h l < 2 ^ (nat fit + 1)"
    by blast+
qed

lemma cover_size:
  obtains h l where "cover_fit first last' =
      (if h \<noteq> 0 then 64 + int (bit_width h) - 1 else int (bit_width l) - 1)"
    "pair_val h l = (cover_dist first last' + 1) mod 2 ^ 128"
proof -
  define dl where "dl = lo last' - lo first"
  define dh where "dh = hi last' - hi first - (if lo last' < lo first then 1 else 0)"
  define h where "h = dh + (if dl + 1 = 0 then 1 else 0)"
  have "pair_val dh dl = cover_dist first last'"
    by (simp only: dl_def dh_def pair_diff cover_dist_def addr_val_pair)
  then have "pair_val h (dl + 1) = (cover_dist first last' + 1) mod 2 ^ 128"
    by (simp only: h_def pair_succ)
  moreover have "cover_fit first last' =
      (if h \<noteq> 0 then 64 + int (bit_width h) - 1 else int (bit_width (dl + 1)) - 1)"
    by (simp only: cover_fit_def Let_def h_def dh_def dl_def)
  ultimately show thesis using that by blast
qed

lemma cover_fit_spec:
  assumes "cover_dist first last' + 1 < 2 ^ 128"
  shows "0 \<le> cover_fit first last'" "cover_fit first last' \<le> 127"
    "2 ^ nat (cover_fit first last') \<le> cover_dist first last' + 1"
    "cover_dist first last' + 1 < 2 ^ (nat (cover_fit first last') + 1)"
proof -
  obtain h l where f: "cover_fit first last' =
      (if h \<noteq> 0 then 64 + int (bit_width h) - 1 else int (bit_width l) - 1)"
    and v: "pair_val h l = (cover_dist first last' + 1) mod 2 ^ 128" by (rule cover_size)
  have e: "pair_val h l = cover_dist first last' + 1"
    unfolding v by (rule mod_pos_pos_trivial) (use assms cover_dist_bounds [of first last'] in simp_all)
  then have "pair_val h l \<noteq> 0" using cover_dist_bounds [of first last'] by simp
  from pair_val_fit [OF this] show "0 \<le> cover_fit first last'" "cover_fit first last' \<le> 127"
    "2 ^ nat (cover_fit first last') \<le> cover_dist first last' + 1"
    "cover_dist first last' + 1 < 2 ^ (nat (cover_fit first last') + 1)"
    by (simp_all only: f e [symmetric])
qed

lemma cover_fit_whole: "cover_dist first last' + 1 = 2 ^ 128 \<Longrightarrow> cover_fit first last' = - 1"
proof -
  assume d: "cover_dist first last' + 1 = 2 ^ 128"
  obtain h l where f: "cover_fit first last' =
      (if h \<noteq> 0 then 64 + int (bit_width h) - 1 else int (bit_width l) - 1)"
    and v: "pair_val h l = (cover_dist first last' + 1) mod 2 ^ 128" by (rule cover_size)
  have "pair_val h l = 0" unfolding v d by simp
  then have "uint h = 0"
    using add_nonneg_eq_0_iff [of "uint h * 2 ^ 64" "uint l"] by (simp add: pair_val_def)
  moreover from this \<open>pair_val h l = 0\<close> have "uint l = 0" by (simp add: pair_val_def)
  ultimately show ?thesis by (simp add: f uint_0_iff)
qed

text \<open>The block: \<open>first\<close> is aligned to it, so OR-ing the mask reaches its last address.\<close>

lemma or_mask_val:
  assumes "2 ^ j dvd uint x" "j \<le> 64"
  shows "uint ((x :: 64 word) OR (push_bit j 1 - 1)) = uint x + (2 ^ j - 1)"
proof -
  have "(push_bit j 1 - 1 :: 64 word) = mask j" by (simp add: mask_eq_exp_minus_1 push_bit_eq_mult)
  moreover have "uint (mask j :: 64 word) = mask j" using assms(2) by (simp add: uint_mask_eq min_absorb2)
  ultimately have "uint (x OR (push_bit j 1 - 1)) = uint x OR mask j"
    by (simp only: unsigned_or_eq)
  moreover have "uint x AND mask j = 0"
    using assms(1) by (simp add: take_bit_eq_mask [symmetric] take_bit_eq_mod)
  then have "uint x + mask j = uint x OR mask j" by (rule disjunctive_add_eq_or)
  ultimately show ?thesis by (simp add: mask_eq_exp_minus_1)
qed

lemma addr_val_dvd:
  assumes "2 ^ k dvd addr_val a"
  shows "k \<le> 64 \<Longrightarrow> 2 ^ k dvd uint (lo a)"
    and "64 \<le> k \<Longrightarrow> lo a = 0 \<and> 2 ^ (k - 64) dvd uint (hi a)"
proof -
  assume "k \<le> 64"
  then have "(2::int) ^ k dvd 2 ^ 64" by (rule le_imp_power_dvd)
  then have "2 ^ k dvd uint (hi a) * 2 ^ 64" by (rule dvd_mult)
  with assms show "2 ^ k dvd uint (lo a)" by (simp add: addr_val_def dvd_add_right_iff)
next
  assume k: "64 \<le> k"
  then have "(2::int) ^ 64 dvd 2 ^ k" by (rule le_imp_power_dvd)
  with assms have "2 ^ 64 dvd addr_val a" by (rule dvd_trans [rotated])
  then have "addr_val a mod 2 ^ 64 = 0" by (rule dvd_imp_mod_0)
  then have "uint (lo a) = 0" using uint64_bounds [of "lo a"] by (simp add: addr_val_def)
  then have l: "lo a = 0" by (simp add: uint_0_iff)
  have "2 ^ 64 * 2 ^ (k - 64) = (2::int) ^ k"
    unfolding power_add [symmetric] using k by simp
  moreover have "2 ^ k dvd 2 ^ 64 * uint (hi a)" using assms l by (simp add: addr_val_def mult.commute)
  ultimately have "2 ^ 64 * 2 ^ (k - 64) dvd 2 ^ 64 * uint (hi a)" by metis
  then have "2 ^ (k - 64) dvd uint (hi a)" by (subst (asm) dvd_mult_cancel_left) simp
  with l show "lo a = 0 \<and> 2 ^ (k - 64) dvd uint (hi a)" by simp
qed

lemma cover_end_val:
  assumes "2 ^ nat k dvd addr_val first" "k \<le> 127"
  shows "addr_val (cover_end first k) = addr_val first + (2 ^ nat k - 1)"
proof (cases "64 \<le> k")
  case True
  have p: "(2::int) ^ nat k = 2 ^ nat (k - 64) * 2 ^ 64"
    unfolding power_add [symmetric] using True by (simp add: nat_diff_distrib)
  have l: "lo first = 0" "2 ^ nat (k - 64) dvd uint (hi first)"
    using addr_val_dvd(2) [OF assms(1)] True by (simp_all add: nat_diff_distrib)
  have n: "uint (NOT 0 :: 64 word) = 2 ^ 64 - 1"
    by (simp add: unsigned_minus_1_eq_mask mask_eq_exp_minus_1)
  show ?thesis
  proof (cases "64 < k")
    case True
    then have "uint (hi (cover_end first k)) = uint (hi first) + (2 ^ nat (k - 64) - 1)"
      "uint (lo (cover_end first k)) = 2 ^ 64 - 1"
      using or_mask_val [OF l(2)] assms(2) n by (simp_all add: cover_end_def Let_def)
    then show ?thesis unfolding p addr_val_def l(1) by (simp add: algebra_simps)
  next
    case False
    with True have "k = 64" by simp
    then show ?thesis using l(1) n by (simp add: cover_end_def addr_val_def Let_def)
  qed
next
  case False
  show ?thesis
  proof (cases "0 < k")
    case True
    have "2 ^ nat k dvd uint (lo first)" using addr_val_dvd(1) [OF assms(1)] False by simp
    from or_mask_val [OF this] False True show ?thesis by (simp add: cover_end_def addr_val_def)
  qed (use False in \<open>simp add: cover_end_def\<close>)
qed

lemma cover_align_dvd:
  assumes "k \<le> cover_align first bits"
  shows "2 ^ nat k dvd addr_val first"
proof (cases "lo first = 0")
  case False
  then have "2 ^ nat k dvd (2::int) ^ countr_zero (lo first)"
    using assms by (intro le_imp_power_dvd) (simp add: cover_align_def nat_le_iff)
  moreover have z: "(2::int) ^ countr_zero (lo first) dvd uint (lo first)" using False by (rule countr_zero_dvd)
  moreover have "(2::int) ^ countr_zero (lo first) dvd uint (hi first) * 2 ^ 64"
  proof -
    have "(2::int) ^ countr_zero (lo first) \<le> uint (lo first)"
      using z uint64_bounds(1) [of "lo first"] False
      by (intro zdvd_imp_le) (simp_all add: order_less_le uint_0_iff)
    then have "(2::int) ^ countr_zero (lo first) < 2 ^ 64" using uint64_bounds(2) [of "lo first"] by simp
    then have "countr_zero (lo first) < 64" by (simp add: power_less_imp_less_exp del: power_numeral)
    then show ?thesis by (intro dvd_mult le_imp_power_dvd) simp
  qed
  ultimately show ?thesis unfolding addr_val_def by (meson dvd_add dvd_trans)
next
  case True
  show ?thesis
  proof (cases "hi first = 0")
    case False
    have "2 ^ (64 + countr_zero (hi first)) dvd 2 ^ 64 * uint (hi first)"
      unfolding power_add by (intro mult_dvd_mono dvd_refl countr_zero_dvd False)
    moreover have "2 ^ nat k dvd (2::int) ^ (64 + countr_zero (hi first))"
      using assms True False by (intro le_imp_power_dvd) (simp add: cover_align_def nat_le_iff)
    ultimately show ?thesis
      using True by (simp add: addr_val_def mult.commute dvd_trans)
  qed (use True in \<open>simp add: addr_val_def\<close>)
qed

section \<open>The loop is total\<close>

text \<open>One pass: the block's size exponent \<open>k\<close>, at most the alignment and the room that is left.\<close>

definition cover_exp :: "IpListParseAddr \<Rightarrow> IpListParseAddr \<Rightarrow> nat \<Rightarrow> int" where
  "cover_exp first last' bits = min (cover_align first bits) (cover_fit first last')"

lemma cover_fit_le: "cover_fit first last' \<le> 127"
proof (cases "cover_dist first last' + 1 = 2 ^ 128")
  case False
  then show ?thesis using cover_fit_spec(2) cover_dist_bounds [of first last'] by simp
qed (simp add: cover_fit_whole)

lemma cover_pass:
  fixes first last' :: IpListParseAddr and bits :: nat
  defines "k \<equiv> cover_exp first last' bits"
  defines "blockEnd \<equiv> cover_end first k"
  shows "addr_val blockEnd = addr_val first + (2 ^ nat k - 1)" (is ?v)
    and "\<not> (hi blockEnd = hi last' \<and> lo blockEnd = lo last') \<Longrightarrow>
      2 ^ nat k \<le> cover_dist first last' \<and>
      cover_dist (cover_next blockEnd) last' = cover_dist first last' - 2 ^ nat k"
proof -
  show v: ?v
    unfolding blockEnd_def
    by (rule cover_end_val)
      (use cover_align_dvd [of k first bits] cover_fit_le [of first last'] in \<open>simp_all add: k_def cover_exp_def\<close>)
  assume ne: "\<not> (hi blockEnd = hi last' \<and> lo blockEnd = lo last')"
  define D where "D = cover_dist first last'"
  have D: "0 \<le> D" "D < 2 ^ 128" unfolding D_def by (rule cover_dist_bounds)+
  have le: "2 ^ nat k \<le> D + 1"
  proof (cases "D + 1 = 2 ^ 128")
    case True
    then have "k \<le> - 1" using cover_fit_whole [of first last'] by (simp add: D_def k_def cover_exp_def)
    then show ?thesis using D by simp
  next
    case False
    then have "D + 1 < 2 ^ 128" using D by simp
    then have "2 ^ nat (cover_fit first last') \<le> D + 1" using cover_fit_spec(3) by (simp add: D_def)
    moreover have "(2::int) ^ nat k \<le> 2 ^ nat (cover_fit first last')"
      by (intro power_increasing nat_mono) (simp_all add: k_def cover_exp_def)
    ultimately show ?thesis by linarith
  qed
  have "2 ^ nat k \<noteq> D + 1"
  proof
    assume "2 ^ nat k = D + 1"
    then have e: "addr_val blockEnd = addr_val first + D" using v by simp
    have "addr_val blockEnd mod 2 ^ 128 = addr_val last' mod 2 ^ 128"
      unfolding e D_def cover_dist_def by (simp add: mod_simps)
    then have "addr_val blockEnd = addr_val last'"
      using addr_val_bounds [of blockEnd] addr_val_bounds [of last'] by simp
    with ne show False by (simp add: addr_val_eq)
  qed
  with le have le': "2 ^ nat k \<le> D" by simp
  have "cover_dist (cover_next blockEnd) last' = (addr_val last' - (addr_val first + 2 ^ nat k)) mod 2 ^ 128"
    by (simp add: cover_dist_def cover_next_val v mod_simps)
  also have "\<dots> = (addr_val last' - addr_val first - 2 ^ nat k) mod 2 ^ 128" by (simp add: algebra_simps)
  also have "\<dots> = (D - 2 ^ nat k) mod 2 ^ 128" by (simp add: D_def cover_dist_def mod_simps)
  also have "\<dots> = D - 2 ^ nat k"
    by (rule mod_pos_pos_trivial) (use le' D zero_less_power [of "2::int" "nat k"] in linarith)+
  finally show "2 ^ nat k \<le> cover_dist first last' \<and>
      cover_dist (cover_next blockEnd) last' = cover_dist first last' - 2 ^ nat k"
    using le' by (simp add: D_def)
qed

text \<open>
  The \<^verbatim>\<open>while (true)\<close> of \<^verbatim>\<open>ipListParseCoverRange\<close>, from the block of one pass to the next;
  \<open>cover_fit\<close> is -1 when the modular size of the range wraps to nothing.
\<close>

function cover_loop ::
    "nat \<Rightarrow> IpListParseAddr \<Rightarrow> IpListParseAddr \<Rightarrow> qstring list \<Rightarrow> qstring list" where
  "cover_loop bits first last' out =
     (let align = cover_align first bits;
          k = min align (cover_fit first last');
          out = out @ [Cidr first (nat (int bits - k))];
          blockEnd = cover_end first k
      in if hi blockEnd = hi last' \<and> lo blockEnd = lo last' then out
         else cover_loop bits (cover_next blockEnd) last' out)"
  by pat_completeness auto
termination
proof (relation "measure (\<lambda>(bits, first, last', out). nat (cover_dist first last'))", goal_cases)
  case (2 bits first last' out align k out' e)
  then have "2 ^ nat k \<le> cover_dist first last'"
    "cover_dist (cover_next e) last' = cover_dist first last' - 2 ^ nat k"
    using cover_pass(2) [of first last' bits] by (simp_all add: cover_exp_def)
  moreover have "(0::int) < 2 ^ nat k" by simp
  ultimately have "nat (cover_dist (cover_next e) last') < nat (cover_dist first last')" by linarith
  then show ?case by simp
qed simp

declare cover_loop.simps [simp del]

text \<open>\<open>None\<close> when the cover would be the whole address space.\<close>

definition CoverRange :: "IpListParseAddr \<Rightarrow> IpListParseAddr \<Rightarrow> qstring list option" where
  "CoverRange first last' =
     (let topHi = (if v6 first then NOT 0 else 0);
          topLo = (if v6 first then NOT 0 else 0xffffffff)
      in if hi first = 0 \<and> lo first = 0 \<and> hi last' = topHi \<and> lo last' = topLo then None
         else Some (cover_loop (Bits first) first last' []))"

section \<open>The cover is exact\<close>

lemma addr_ok_val: "\<not> v6 a \<Longrightarrow> addr_ok a \<longleftrightarrow> addr_val a < 2 ^ 32"
proof
  assume "\<not> v6 a" "addr_ok a"
  then have "hi a = 0" "take_bit 32 (lo a) = lo a" by (simp_all add: addr_ok_def)
  then have "uint (lo a) = take_bit 32 (uint (lo a))" by (metis unsigned_take_bit_eq)
  then have "uint (lo a) < 2 ^ 32" by (metis take_bit_int_less_exp)
  with \<open>hi a = 0\<close> show "addr_val a < 2 ^ 32" by (simp add: addr_val_def)
next
  assume a: "\<not> v6 a" "addr_val a < 2 ^ 32"
  have "uint (hi a) \<le> 0"
  proof (rule ccontr)
    assume "\<not> uint (hi a) \<le> 0"
    then have "1 \<le> uint (hi a)" by linarith
    then have "1 * 2 ^ 64 \<le> uint (hi a) * 2 ^ 64" by (intro mult_right_mono) simp_all
    moreover have "(2::int) ^ 32 \<le> 1 * 2 ^ 64" by simp
    ultimately show False using a(2) uint64_bounds(1) [of "lo a"] unfolding addr_val_def by linarith
  qed
  then have h: "hi a = 0" using uint64_bounds(1) [of "hi a"] by (simp add: uint_0_iff [symmetric])
  with a have "uint (lo a) < 2 ^ 32" by (simp add: addr_val_def)
  then have "uint (take_bit 32 (lo a)) = uint (lo a)"
    by (simp add: unsigned_take_bit_eq take_bit_int_eq_self)
  with h show "addr_ok a" by (simp add: addr_ok_def word_uint_eq_iff)
qed

lemma dvd_low_bits: "2 ^ k dvd uint x \<Longrightarrow> bit (x :: 64 word) i \<Longrightarrow> k \<le> i"
proof (rule ccontr)
  assume d: "2 ^ k dvd uint x" and x: "bit x i" and i: "\<not> k \<le> i"
  have "take_bit k (uint x) = 0" using d by (simp add: take_bit_eq_mod)
  then have "\<not> bit (take_bit k (uint x)) i" by simp
  with i x bit_imp_le_length [OF x] show False by (simp add: bit_take_bit_iff bit_uint_iff)
qed

lemma and_high_mask:
  assumes "2 ^ k dvd uint x"
  shows "(x :: 64 word) AND push_bit k (NOT 0) = x"
  by (rule bit_word_eqI) (auto simp: bit_simps dest: dvd_low_bits [OF assms])

lemma Mask_aligned:
  assumes "addr_ok a" "2 ^ k dvd addr_val a" "k < Bits a"
  shows "Mask a (Bits a - k) = a"
proof (cases "v6 a")
  case False
  then have h: "Bits a = 32" "take_bit 32 (lo a) = lo a" and k: "k < 32"
    using assms by (simp_all add: Bits_def addr_ok_def)
  have d: "2 ^ k dvd uint (lo a)" using addr_val_dvd(1) [OF assms(2)] k by simp
  have m: "(0xffffffff :: 64 word) = mask 32" by (simp add: mask_eq_exp_minus_1)
  have b: "bit (lo a) i \<Longrightarrow> k \<le> i \<and> i < 32" for i
    using dvd_low_bits [OF d, of i] h(2) by (metis bit_take_bit_iff)
  have "lo a AND (push_bit k 0xffffffff AND 0xffffffff) = lo a"
    unfolding m by (intro bit_word_eqI) (auto simp: bit_simps intro: less_imp_diff_less dest: b)
  then show ?thesis using False k by (simp add: Mask_def h(1))
next
  case True
  then have bits: "Bits a = 128" and k: "k < 128" using assms by (simp_all add: Bits_def)
  consider "64 < k" | "k = 64" | "k < 64" by linarith
  then show ?thesis
  proof cases
    case 1
    then have "lo a = 0" "hi a AND push_bit (k - 64) (NOT 0) = hi a"
      using addr_val_dvd(2) [OF assms(2)] and_high_mask by auto
    moreover have "128 - k < 64" "64 - (128 - k) = k - 64" "128 - k \<noteq> 0" using 1 k by simp_all
    ultimately show ?thesis using True by (simp add: Mask_def bits)
  next
    case 2
    then show ?thesis using addr_val_dvd(2) [OF assms(2)] True by (simp add: Mask_def bits)
  next
    case 3
    then have "lo a AND push_bit k (NOT 0) = lo a"
      using addr_val_dvd(1) [OF assms(2)] and_high_mask by simp
    then show ?thesis using True 3 by (simp add: Mask_def bits)
  qed
qed

text \<open>The addresses of a network, as numbers in order.\<close>

definition block_addrs :: "IpListParseAddr \<times> nat \<Rightarrow> int list" where
  "block_addrs b = [addr_val (fst b) .. addr_val (fst b) + 2 ^ (Bits (fst b) - snd b) - 1]"

definition block_ok :: "bool \<Rightarrow> IpListParseAddr \<times> nat \<Rightarrow> bool" where
  "block_ok six b \<longleftrightarrow>
     v6 (fst b) = six \<and> addr_ok (fst b) \<and> 1 \<le> snd b \<and> snd b \<le> Bits (fst b) \<and> Mask (fst b) (snd b) = fst b"

lemma upto_join: "i \<le> j \<Longrightarrow> j \<le> k + 1 \<Longrightarrow> [i .. j - 1] @ [j .. k] = [i .. k]"
proof (cases "j \<le> k")
  case False
  assume "i \<le> j" "j \<le> k + 1"
  with False have "k = j - 1" by simp
  then show ?thesis by simp
qed (simp add: upto_split1 [of i j k])

lemma cover_end_v6 [simp]: "v6 (cover_end a k) = v6 a"
  by (simp add: cover_end_def Let_def)

lemma cover_next_v6 [simp]: "v6 (cover_next a) = v6 a"
  by (simp add: cover_next_def Let_def)

lemma cover_dist_le: "addr_val first \<le> addr_val last' \<Longrightarrow> cover_dist first last' = addr_val last' - addr_val first"
  unfolding cover_dist_def
  by (rule mod_pos_pos_trivial) (use addr_val_bounds [of first] addr_val_bounds [of last'] in linarith)+

lemma cover_align_nonneg: "0 \<le> cover_align first bits" "cover_align first bits \<le> int bits"
  by (simp_all add: cover_align_def)

text \<open>The states the loop passes through: \<open>first\<close> up to \<open>last\<close>, in one family, less than everything.\<close>

definition cover_pre :: "nat \<Rightarrow> IpListParseAddr \<Rightarrow> IpListParseAddr \<Rightarrow> bool" where
  "cover_pre bits first last' \<longleftrightarrow>
     addr_ok first \<and> addr_ok last' \<and> v6 first = v6 last' \<and> addr_val first \<le> addr_val last' \<and>
     bits = Bits first \<and> addr_val last' - addr_val first + 1 < 2 ^ bits"

lemma cover_pre_fit:
  assumes pre: "cover_pre bits first last'"
  shows "bits \<le> 128" "cover_dist first last' = addr_val last' - addr_val first"
    "0 \<le> cover_fit first last'" "2 ^ nat (cover_fit first last') \<le> cover_dist first last' + 1"
    "cover_dist first last' + 1 < 2 ^ (nat (cover_fit first last') + 1)"
    "cover_fit first last' < int bits"
proof -
  from pre have le: "addr_val first \<le> addr_val last'" and b: "bits = Bits first"
    and lt: "addr_val last' - addr_val first + 1 < 2 ^ bits"
    unfolding cover_pre_def by blast+
  show b128: "bits \<le> 128" by (simp add: b Bits_def)
  then have pw: "(2::int) ^ bits \<le> 2 ^ 128" by (intro power_increasing) simp_all
  show d: "cover_dist first last' = addr_val last' - addr_val first" by (rule cover_dist_le [OF le])
  from lt pw have "cover_dist first last' + 1 < 2 ^ 128" unfolding d by linarith
  note fit = cover_fit_spec [OF this]
  show "0 \<le> cover_fit first last'" "2 ^ nat (cover_fit first last') \<le> cover_dist first last' + 1"
    "cover_dist first last' + 1 < 2 ^ (nat (cover_fit first last') + 1)" by (fact fit)+
  from fit(3) lt have "(2::int) ^ nat (cover_fit first last') < 2 ^ bits" unfolding d by linarith
  then have "nat (cover_fit first last') < bits" by (rule power_less_imp_less_exp [rotated]) simp
  then show "cover_fit first last' < int bits" using fit(1) by simp
qed

lemma cover_block:
  assumes pre: "cover_pre bits first last'"
  defines "k \<equiv> cover_exp first last' bits"
  shows "0 \<le> k" "k < int bits"
    "block_ok (v6 first) (first, nat (int bits - k))"
    "block_addrs (first, nat (int bits - k)) = [addr_val first .. addr_val first + 2 ^ nat k - 1]"
proof -
  note assms = pre [unfolded cover_pre_def]
  note fit = cover_pre_fit [OF pre]
  show k0: "0 \<le> k" using fit(3) cover_align_nonneg(1) by (simp add: k_def cover_exp_def)
  show kb: "k < int bits" using fit(6) by (simp add: k_def cover_exp_def)
  then have "nat k < bits" using k0 by simp
  have p: "nat (int bits - k) = bits - nat k" using k0 kb by (simp add: nat_diff_distrib)
  have "2 ^ nat k dvd addr_val first"
    by (rule cover_align_dvd [of _ _ bits]) (simp add: k_def cover_exp_def)
  then have "Mask first (bits - nat k) = first"
    using Mask_aligned [of first "nat k"] \<open>nat k < bits\<close> assms by simp
  then show "block_ok (v6 first) (first, nat (int bits - k))"
    unfolding block_ok_def p using assms \<open>nat k < bits\<close> by simp
  show "block_addrs (first, nat (int bits - k)) = [addr_val first .. addr_val first + 2 ^ nat k - 1]"
    unfolding block_addrs_def p using \<open>nat k < bits\<close> by (simp add: assms)
qed

lemma cover_advance:
  assumes pre: "cover_pre bits first last'"
  defines "k \<equiv> cover_exp first last' bits"
  defines "e \<equiv> cover_end first k"
  assumes ne: "\<not> (hi e = hi last' \<and> lo e = lo last')"
  shows "cover_pre bits (cover_next e) last'" "addr_val (cover_next e) = addr_val first + 2 ^ nat k"
    "v6 (cover_next e) = v6 first"
proof -
  note p = pre [unfolded cover_pre_def]
  have step: "2 ^ nat k \<le> addr_val last' - addr_val first"
    using cover_pass(2) [of first last' bits] ne cover_dist_le [of first last'] p
    by (simp add: e_def k_def)
  have ve: "addr_val e = addr_val first + (2 ^ nat k - 1)"
    unfolding e_def k_def by (rule cover_pass(1))
  show vn: "addr_val (cover_next e) = addr_val first + 2 ^ nat k"
    using step addr_val_bounds [of first] addr_val_bounds [of last'] unfolding cover_next_val ve
    by (subst mod_pos_pos_trivial) auto
  show v: "v6 (cover_next e) = v6 first" by (simp add: e_def)
  have "addr_ok (cover_next e)"
    using p vn step v addr_ok_val [of "cover_next e"] addr_ok_val [of last']
    by (cases "v6 first") (auto simp: addr_ok_def)
  moreover have "addr_val last' - addr_val (cover_next e) + 1 < 2 ^ bits"
    using p vn zero_less_power [of "2::int" "nat k"] by linarith
  ultimately show "cover_pre bits (cover_next e) last'"
    using p vn step v by (simp add: cover_pre_def Bits_def)
qed

lemma cover_loop_unfold:
  fixes first last' :: IpListParseAddr and bits :: nat
  defines "k \<equiv> cover_exp first last' bits"
  defines "e \<equiv> cover_end first k"
  shows "cover_loop bits first last' out =
      (if hi e = hi last' \<and> lo e = lo last' then out @ [Cidr first (nat (int bits - k))]
       else cover_loop bits (cover_next e) last' (out @ [Cidr first (nat (int bits - k))]))"
  by (subst cover_loop.simps) (simp only: Let_def e_def k_def cover_exp_def)

lemma cover_loop_exact:
  assumes "cover_pre bits first last'"
  shows "\<exists>blocks. cover_loop bits first last' out = out @ map (\<lambda>(a, p). Cidr a p) blocks \<and>
           (\<forall>b \<in> set blocks. block_ok (v6 first) b) \<and>
           concat (map block_addrs blocks) = [addr_val first .. addr_val last']"
  using assms
proof (induction bits first last' out rule: cover_loop.induct)
  case (1 bits first last' out)
  define k where "k = cover_exp first last' bits"
  define e where "e = cover_end first k"
  define b where "b = (first, nat (int bits - k))"
  have blk: "block_ok (v6 first) b"
    "block_addrs b = [addr_val first .. addr_val first + 2 ^ nat k - 1]"
    using cover_block [OF "1.prems"] unfolding b_def k_def by blast+
  note unf = cover_loop_unfold [of bits first last' out, folded k_def, folded e_def]
  show ?case
  proof (cases "hi e = hi last' \<and> lo e = lo last'")
    case True
    have "addr_val e = addr_val first + (2 ^ nat k - 1)"
      unfolding e_def k_def by (rule cover_pass(1))
    then have "addr_val last' = addr_val first + 2 ^ nat k - 1" using True addr_val_eq [of e last'] by simp
    with True blk show ?thesis by (intro exI [of _ "[b]"]) (simp add: unf b_def)
  next
    case False
    let ?n = "cover_next e"
    note adv = cover_advance [OF "1.prems", folded k_def, folded e_def, OF False]
    from "1.IH" [OF refl refl refl refl, folded cover_exp_def, folded k_def, folded e_def, OF False adv(1)]
    obtain blocks where bl: "cover_loop bits first last' out =
        (out @ [Cidr first (nat (int bits - k))]) @ map (\<lambda>(a, p). Cidr a p) blocks"
      "\<forall>b \<in> set blocks. block_ok (v6 first) b"
      "concat (map block_addrs blocks) = [addr_val ?n .. addr_val last']"
      using False unf adv(3) by auto
    have "[addr_val first .. addr_val ?n - 1] @ [addr_val ?n .. addr_val last'] = [addr_val first .. addr_val last']"
      by (rule upto_join) (use adv(1,2) in \<open>simp_all add: cover_pre_def\<close>)
    then show ?thesis
      using bl blk adv(2) by (intro exI [of _ "b # blocks"]) (simp add: b_def)
  qed
qed

section \<open>The cover is short\<close>

text \<open>
  While the alignment is the tighter bound it grows with every block; once the room left is the
  tighter bound it stays so, and shrinks with every block. \<open>cover_passes\<close> counts what is left.
\<close>

lemma trailing_zeros_max: "n \<noteq> 0 \<Longrightarrow> 2 ^ j dvd n \<Longrightarrow> j \<le> trailing_zeros n"
proof (induction n arbitrary: j rule: trailing_zeros.induct)
  case (1 n)
  show ?case
  proof (cases j)
    case (Suc i)
    then have "2 * 2 ^ i dvd n" using "1.prems" by simp
    then obtain m where m: "n = 2 * (2 ^ i * m)" by (auto simp: dvd_def mult.assoc)
    then have "even n" "2 ^ i dvd n div 2" "n div 2 \<noteq> 0" using "1.prems"(1) by simp_all
    then show ?thesis
      using "1.IH" [of i] "1.prems"(1) Suc by (simp add: trailing_zeros.simps [of n])
  qed simp
qed

lemma countr_zero_max: "x \<noteq> 0 \<Longrightarrow> 2 ^ j dvd uint x \<Longrightarrow> j \<le> countr_zero x"
proof -
  assume x: "x \<noteq> 0" and "2 ^ j dvd uint x"
  then have "int (2 ^ j) dvd int (unat x)" by simp
  then have "2 ^ j dvd unat x" by (simp only: of_nat_dvd_iff)
  with x show ?thesis using trailing_zeros_max [of "unat x" j] by (simp add: countr_zero_def unat_eq_zero)
qed

lemma cover_align_max:
  assumes "2 ^ j dvd addr_val a" "j \<le> bits" "bits \<le> 128"
  shows "int j \<le> cover_align a bits"
proof (cases "lo a = 0")
  case False
  then have "j < 64" using addr_val_dvd(2) [OF assms(1)] by force
  then have "j \<le> countr_zero (lo a)" using addr_val_dvd(1) [OF assms(1)] countr_zero_max [OF False] by simp
  with False assms(2) show ?thesis by (simp add: cover_align_def)
next
  case True
  have "j \<le> 64 + countr_zero (hi a)" if "hi a \<noteq> 0"
  proof (cases "64 \<le> j")
    case j: True
    then have "j - 64 \<le> countr_zero (hi a)"
      using addr_val_dvd(2) [OF assms(1)] countr_zero_max [OF that] by simp
    then show ?thesis by simp
  qed simp
  with True assms(2,3) show ?thesis by (auto simp: cover_align_def)
qed

definition cover_passes :: "IpListParseAddr \<Rightarrow> IpListParseAddr \<Rightarrow> nat \<Rightarrow> int" where
  "cover_passes first last' bits =
     (let align = cover_align first bits; fit = cover_fit first last'
      in if align \<le> fit then (fit - align) + fit + 2 else fit + 1)"

lemma cover_passes_step:
  assumes pre: "cover_pre bits first last'"
  defines "k \<equiv> cover_exp first last' bits"
  assumes val: "addr_val n = addr_val first + 2 ^ nat k" and pre': "cover_pre bits n last'"
  shows "cover_passes n last' bits < cover_passes first last' bits"
proof -
  let ?f = "cover_fit first last'" and ?a = "cover_align first bits"
  let ?f' = "cover_fit n last'" and ?a' = "cover_align n bits"
  note f1 = cover_pre_fit [OF pre] and f2 = cover_pre_fit [OF pre']
  have b128: "bits \<le> 128" by (fact f1(1))
  have D: "cover_dist first last' = addr_val last' - addr_val first"
    "cover_dist n last' = addr_val last' - addr_val first - 2 ^ nat k"
    using f1(2) f2(2) val by simp_all
  have pos: "(0::int) < 2 ^ nat k" by simp
  note f = f1(3,5) f2(3,4)
  have k: "0 \<le> k" "k < int bits" using cover_block(1,2) [OF pre] unfolding k_def by blast+
  have dv: "2 ^ nat k dvd addr_val first"
    by (rule cover_align_dvd [of _ _ bits]) (simp add: k_def cover_exp_def)
  show ?thesis
  proof (cases "?a \<le> ?f")
    case True
    then have ka: "k = ?a" by (simp add: k_def cover_exp_def)
    have "\<not> 2 ^ (nat k + 1) dvd addr_val first"
    proof
      assume "2 ^ (nat k + 1) dvd addr_val first"
      from cover_align_max [OF this _ b128] k ka show False by linarith
    qed
    moreover obtain q where q: "addr_val first = 2 ^ nat k * q" using dv by (rule dvdE)
    ultimately have "odd q" by (auto elim!: evenE)
    then have "even (q + 1)" by simp
    then obtain r where "q + 1 = 2 * r" by (rule evenE)
    moreover have "addr_val n = 2 ^ nat k * (q + 1)" using val q by (simp add: distrib_left)
    ultimately have "addr_val n = 2 ^ (nat k + 1) * r" by simp
    then have "2 ^ (nat k + 1) dvd addr_val n" by simp
    from cover_align_max [OF this _ b128] k ka have a': "?a < ?a'" by linarith
    have "(2::int) ^ nat ?f' < 2 ^ (nat ?f + 1)" using f D pos by linarith
    then have "nat ?f' < nat ?f + 1" by (rule power_less_imp_less_exp [rotated]) simp
    then have "?f' \<le> ?f" using f by linarith
    with a' True f(1) show ?thesis by (simp add: cover_passes_def Let_def)
  next
    case False
    then have kf: "k = ?f" by (simp add: k_def cover_exp_def)
    have "(2::int) ^ (nat ?f + 1) = 2 * 2 ^ nat k" by (simp add: kf)
    then have "(2::int) ^ nat ?f' < 2 ^ nat ?f" using f(2,4) D unfolding kf by linarith
    then have "nat ?f' < nat ?f" by (rule power_less_imp_less_exp [rotated]) simp
    then have f': "?f' < ?f" using f by linarith
    have "2 ^ nat k dvd addr_val n" using dv val by simp
    from cover_align_max [OF this _ b128] k kf have "?f \<le> ?a'" by linarith
    with f' False show ?thesis by (simp add: cover_passes_def Let_def)
  qed
qed

lemma cover_loop_length:
  assumes "cover_pre bits first last'"
  shows "int (length (cover_loop bits first last' out)) \<le> int (length out) + cover_passes first last' bits"
  using assms
proof (induction bits first last' out rule: cover_loop.induct)
  case (1 bits first last' out)
  define k where "k = cover_exp first last' bits"
  define e where "e = cover_end first k"
  note unf = cover_loop_unfold [of bits first last' out, folded k_def, folded e_def]
  show ?case
  proof (cases "hi e = hi last' \<and> lo e = lo last'")
    case True
    have "1 \<le> cover_passes first last' bits"
      using cover_block(1) [OF "1.prems"] by (auto simp: cover_passes_def Let_def cover_exp_def)
    with True show ?thesis by (simp add: unf)
  next
    case False
    note adv = cover_advance [OF "1.prems", folded k_def, folded e_def, OF False]
    have "cover_passes (cover_next e) last' bits < cover_passes first last' bits"
      using cover_passes_step [OF "1.prems"] adv(1,2) unfolding k_def by blast
    with "1.IH" [OF refl refl refl refl, folded cover_exp_def, folded k_def, folded e_def, OF False adv(1)]
    show ?thesis by (simp only: unf False if_False length_append) simp
  qed
qed

lemma cover_passes_le:
  assumes pre: "cover_pre bits first last'"
  shows "cover_passes first last' bits \<le> 2 * int bits"
proof -
  have "cover_passes first last' bits \<le> 2 * cover_fit first last' + 2"
    using cover_pre_fit(3) [OF pre] cover_align_nonneg(1) [of first bits]
    by (simp add: cover_passes_def Let_def)
  then show ?thesis using cover_pre_fit(6) [OF pre] by linarith
qed

section \<open>Properties\<close>

lemma CoverRange_cases:
  assumes "addr_ok first" "addr_ok last'" "v6 first = v6 last'" "\<not> Less last' first"
  shows "CoverRange first last' = None \<and> addr_val first = 0 \<and> addr_val last' = 2 ^ Bits first - 1 \<or>
    CoverRange first last' = Some (cover_loop (Bits first) first last' []) \<and>
    cover_pre (Bits first) first last'"
proof -
  let ?top = "\<lparr>v6 = v6 first, hi = (if v6 first then NOT 0 else 0),
      lo = (if v6 first then NOT 0 else 0xffffffff)\<rparr>"
  have top: "addr_val ?top = 2 ^ Bits first - 1"
    by (simp add: addr_val_def Bits_def unsigned_minus_1_eq_mask mask_eq_exp_minus_1)
  have le: "addr_val first \<le> addr_val last'" using assms(4) by (simp add: Less_val)
  have ub: "addr_val last' < 2 ^ Bits first"
    using addr_val_bounds [of last'] addr_ok_val [of last'] assms(2,3) by (auto simp: Bits_def)
  have whole: "hi first = 0 \<and> lo first = 0 \<longleftrightarrow> addr_val first = 0"
    using addr_val_eq [of first "\<lparr>v6 = True, hi = 0, lo = 0\<rparr>"] by (simp add: addr_val_def)
  have ends: "hi last' = hi ?top \<and> lo last' = lo ?top \<longleftrightarrow> addr_val last' = 2 ^ Bits first - 1"
    using addr_val_eq [of last' ?top] top by simp
  show ?thesis
  proof (cases "addr_val first = 0 \<and> addr_val last' = 2 ^ Bits first - 1")
    case True
    then show ?thesis using whole ends by (simp add: CoverRange_def Let_def)
  next
    case False
    then have "cover_pre (Bits first) first last'"
      using assms le ub addr_val_bounds [of first] by (auto simp: cover_pre_def)
    with False show ?thesis using whole ends by (auto simp: CoverRange_def Let_def)
  qed
qed

text \<open>
  C26. The cover of a range is exact: the networks printed for \<open>first\<close> to \<open>last\<close> are proper networks of
  the same family, each masked to its prefix, and their addresses in order are the addresses of the
  range, each once; only the whole address space is refused.
\<close>

theorem CoverRange_exact:
  assumes "addr_ok first" "addr_ok last'" "v6 first = v6 last'" "\<not> Less last' first"
  shows "case CoverRange first last' of
      None \<Rightarrow> addr_val first = 0 \<and> addr_val last' = 2 ^ Bits first - 1
    | Some cidrs \<Rightarrow>
        \<exists>blocks. cidrs = map (\<lambda>(a, p). Cidr a p) blocks \<and>
          (\<forall>(a, p) \<in> set blocks. v6 a = v6 first \<and> 1 \<le> p \<and> p \<le> Bits a \<and> Mask a p = a) \<and>
          concat (map (\<lambda>(a, p). [addr_val a .. addr_val a + 2 ^ (Bits a - p) - 1]) blocks) =
            [addr_val first .. addr_val last']"
  using CoverRange_cases [OF assms]
proof (elim disjE conjE)
  assume c: "CoverRange first last' = Some (cover_loop (Bits first) first last' [])"
    and pre: "cover_pre (Bits first) first last'"
  obtain blocks where b: "cover_loop (Bits first) first last' [] = map (\<lambda>(a, p). Cidr a p) blocks"
    "\<forall>b \<in> set blocks. block_ok (v6 first) b"
    "concat (map block_addrs blocks) = [addr_val first .. addr_val last']"
    using cover_loop_exact [OF pre, of "[]"] by auto
  moreover have "block_addrs = (\<lambda>(a, p). [addr_val a .. addr_val a + 2 ^ (Bits a - p) - 1])"
    by (simp add: fun_eq_iff block_addrs_def)
  ultimately show ?thesis
    by (simp only: c option.case) (fastforce simp: block_ok_def)
qed simp

text \<open>10.0.0.5 to 10.0.0.6.\<close>

theorem CoverRange_exact_witness:
  "\<exists>blocks. CoverRange \<lparr>v6 = False, hi = 0, lo = 0x0a000005\<rparr> \<lparr>v6 = False, hi = 0, lo = 0x0a000006\<rparr> =
       Some (map (\<lambda>(a, p). Cidr a p) blocks) \<and>
     concat (map (\<lambda>(a, p). [addr_val a .. addr_val a + 2 ^ (Bits a - p) - 1]) blocks) =
       [0x0a000005, 0x0a000006]"
proof -
  define a b where "a = \<lparr>v6 = False, hi = 0, lo = 0x0a000005\<rparr>" and "b = \<lparr>v6 = False, hi = 0, lo = 0x0a000006\<rparr>"
  have "addr_ok a" "addr_ok b" "v6 a = v6 b" "\<not> Less b a"
    by (simp_all add: a_def b_def addr_ok_def Less_def)
  note t = CoverRange_exact [OF this]
  have v: "addr_val a = 0x0a000005" "addr_val b = 0x0a000006" by (simp_all add: a_def b_def addr_val_def)
  have "[0x0a000005 .. 0x0a000006] = [0x0a000005, 0x0a000006 :: int]" by simp
  with t v show ?thesis unfolding a_def [symmetric] b_def [symmetric]
    by (cases "CoverRange a b") auto
qed

text \<open>
  C27. The cover loop ends, and soon: covering a range takes at most two networks for each bit of an
  address, 64 for IPv4 and 256 for IPv6, however many addresses the range has.
\<close>

theorem CoverRange_short:
  assumes "addr_ok first" "addr_ok last'" "v6 first = v6 last'" "\<not> Less last' first"
    and "CoverRange first last' = Some cidrs"
  shows "length cidrs \<le> 2 * Bits first"
proof -
  from CoverRange_cases [OF assms(1-4)] assms(5)
  have c: "cidrs = cover_loop (Bits first) first last' []" and pre: "cover_pre (Bits first) first last'"
    by auto
  have "int (length cidrs) \<le> 2 * int (Bits first)"
    using cover_loop_length [OF pre, of "[]"] cover_passes_le [OF pre] unfolding c by simp
  then show ?thesis by linarith
qed

theorem CoverRange_short_witness:
  "\<exists>cidrs. CoverRange \<lparr>v6 = True, hi = 0, lo = 1\<rparr> \<lparr>v6 = True, hi = NOT 0, lo = 0\<rparr> = Some cidrs \<and>
     length cidrs \<le> 256"
proof -
  define a b where "a = \<lparr>v6 = True, hi = 0, lo = 1\<rparr>" and "b = \<lparr>v6 = True, hi = (NOT 0), lo = 0\<rparr>"
  have p: "addr_ok a" "addr_ok b" "v6 a = v6 b" "\<not> Less b a"
    by (simp_all add: a_def b_def addr_ok_def Less_def)
  have "CoverRange a b \<noteq> None" by (simp add: CoverRange_def a_def b_def Let_def)
  then obtain cidrs where c: "CoverRange a b = Some cidrs" by blast
  from CoverRange_short [OF p c] have "length cidrs \<le> 256" by (simp add: a_def Bits_def)
  with c show ?thesis by (simp add: a_def b_def)
qed

end
