(* ===== verification/IpListParse.thy ===== *)
theory IpListParse
  imports IpRange
begin

text \<open>
  The IP list file (\<^verbatim>\<open>src/scanner/IpListParse.cpp\<close>, from \<^verbatim>\<open>ipListParseRangeEnd\<close> on): tokens,
  lines, tables with a header row, and the entry points \<open>ParseIpListText\<close>, \<open>FormatEntry\<close>,
  \<open>AddressCount\<close> and \<open>EntriesFromCidrs\<close>. \<open>utf8\<close> is \<^verbatim>\<open>QString::fromUtf8\<close>, a parameter. Out
  parameters are results; a reader that fails returns \<open>None\<close>. \<^verbatim>\<open>QSet<QString>\<close> is the list of the
  keys inserted, newest first.
\<close>

section \<open>Data\<close>

definition kIpListParseMaxSamples :: nat where "kIpListParseMaxSamples = 5"
definition kIpListParseSampleChars :: nat where "kIpListParseSampleChars = 64"

datatype IpListParseKind = KindAddress | KindPort | KindOther

record IpListParseToken =
  tk_text :: qstring
  tk_field :: nat
  tk_kind :: IpListParseKind
  tk_cidrs :: "qstring list"
  tk_port :: int
  tk_consumed :: bool

record IpListEntry =
  e_cidr :: qstring
  e_port :: int
  e_latencyMs :: int

record ParseResult =
  entries :: "IpListEntry list"
  rejected :: nat
  duplicates :: nat
  samples :: "qstring list"

section \<open>Tokens\<close>

definition startsWithChar :: "qchar \<Rightarrow> qstring \<Rightarrow> bool" where
  "startsWithChar c s \<longleftrightarrow> s \<noteq> [] \<and> hd s = c"

definition endsWithChar :: "qchar \<Rightarrow> qstring \<Rightarrow> bool" where
  "endsWithChar c s \<longleftrightarrow> s \<noteq> [] \<and> last s = c"

definition RangeEnd :: "qstring \<Rightarrow> IpListParseAddr option" where
  "RangeEnd s =
     (let s = (if startsWithChar 91 s \<and> endsWithChar 93 s then take (length s - 2) (drop 1 s) else s)
      in if 47 \<in> set s then None
         else case Address s of
                None \<Rightarrow> None
              | Some addr \<Rightarrow> Some (if IsMapped addr then unmapped addr else addr))"

text \<open>The port after the right end of a range, and the right end without it.\<close>

definition range_right :: "qstring \<Rightarrow> (qstring \<times> int) option" where
  "range_right right =
     (if startsWithChar 91 right then
        (case indexOf 93 right of
           None \<Rightarrow> None
         | Some close \<Rightarrow>
             (let rest = drop (close + 1) right
              in if rest = [] then Some (take (close + 1) right, -1)
                 else if \<not> startsWithChar 58 rest then None
                 else case Port (drop 1 rest) of
                        None \<Rightarrow> None
                      | Some port \<Rightarrow> Some (take (close + 1) right, port)))
      else if count_list right 58 = 1 then
        (case indexOf 58 right of
           None \<Rightarrow> None
         | Some colon \<Rightarrow>
             (case Port (drop (colon + 1) right) of
                None \<Rightarrow> None
              | Some port \<Rightarrow> Some (take colon right, port)))
      else Some (right, -1))"

text \<open>The last address: the last octet alone for IPv4, or a whole address of the same family.\<close>

definition range_last :: "IpListParseAddr \<Rightarrow> qstring \<Rightarrow> IpListParseAddr option" where
  "range_last first right =
     (case (if \<not> v6 first then Decimal right 3 else None) of
        Some octet \<Rightarrow>
          if 255 < octet \<or> (1 < length right \<and> hd right = 48) then None
          else Some (first\<lparr>lo := (lo first AND NOT 0xff) OR of_nat octet\<rparr>)
      | None \<Rightarrow>
          (case RangeEnd right of
             None \<Rightarrow> None
           | Some addr \<Rightarrow> if v6 addr \<noteq> v6 first then None else Some addr))"

definition RangeToken :: "qstring \<Rightarrow> (qstring list \<times> int) option" where
  "RangeToken token =
     (case indexOf 45 token of
        None \<Rightarrow> None
      | Some dash \<Rightarrow>
          (case range_right (drop (dash + 1) token) of
             None \<Rightarrow> None
           | Some (right, port) \<Rightarrow>
               (case RangeEnd (take dash token) of
                  None \<Rightarrow> None
                | Some first \<Rightarrow>
                    (case range_last first right of
                       None \<Rightarrow> None
                     | Some last' \<Rightarrow>
                         map_option (\<lambda>cidrs. (cidrs, port))
                           (if Less last' first then CoverRange last' first
                            else CoverRange first last')))))"

definition address_port :: "qstring \<Rightarrow> (qstring \<times> int) option" where
  "address_port token =
     (if startsWithChar 91 token then
        (case indexOf 93 token of
           None \<Rightarrow> None
         | Some close \<Rightarrow>
             (let rest = drop (close + 1) token
              in if startsWithChar 58 rest then
                   (case Port (drop 1 rest) of
                      None \<Rightarrow> None
                    | Some port \<Rightarrow> Some (take (close + 1) token, port))
                 else Some (token, -1)))
      else if count_list token 58 = 1 then
        (case indexOf 58 token of
           None \<Rightarrow> None
         | Some colon \<Rightarrow>
             (case Port (drop (colon + 1) token) of
                None \<Rightarrow> None
              | Some port \<Rightarrow> Some (take colon token, port)))
      else Some (token, -1))"

definition AddressToken :: "qstring \<Rightarrow> (qstring list \<times> int) option" where
  "AddressToken token =
     (if token = [] then None
      else if 45 \<in> set token then RangeToken token
      else case address_port token of
             None \<Rightarrow> None
           | Some (network, port) \<Rightarrow>
               (case Network network of
                  None \<Rightarrow> None
                | Some (addr, plen) \<Rightarrow> Some ([Cidr addr plen], port)))"

definition LooksLikeAddress :: "qstring \<Rightarrow> bool" where
  "LooksLikeAddress token \<longleftrightarrow>
     token \<noteq> [] \<and>
     (startsWithChar 91 token \<or> indexOfStr [58, 58] token \<noteq> None \<or> 7 \<le> count_list token 58 \<or>
      (\<not> (count_list token 46 < 2 \<or> hd token < 48 \<or> 57 < hd token) \<and>
       (\<forall>c \<in> set token. (48 \<le> c \<and> c \<le> 57) \<or> c = 46 \<or> c = 47 \<or> c = 58 \<or> c = 45)))"

text \<open>
  Case folding as far as it bears on a comparison with an ASCII text: the Latin capitals, the Kelvin
  sign and the long s fold to ASCII letters, no other code unit does.
\<close>

definition foldCase :: "qchar \<Rightarrow> qchar" where
  "foldCase c = (if 65 \<le> c \<and> c \<le> 90 then c + 32 else if c = 0x212A then 107 else if c = 0x17F then 115 else c)"

definition startsWithCI :: "string \<Rightarrow> qstring \<Rightarrow> bool" where
  "startsWithCI p s \<longleftrightarrow> take (length p) (map foldCase s) = lit p"

definition containsCI :: "string \<Rightarrow> qstring \<Rightarrow> bool" where
  "containsCI p s \<longleftrightarrow> indexOfStr (lit p) (map foldCase s) \<noteq> None"

definition IsColumnName :: "qstring \<Rightarrow> bool" where
  "IsColumnName token \<longleftrightarrow>
     startsWithCI ''ip'' token \<or> startsWithCI ''addr'' token \<or> containsCI ''port'' token \<or>
     list_ex (\<lambda>name. map foldCase token = lit name)
       [''address'', ''host'', ''hostname'', ''cidr'', ''subnet'', ''network'',
        ''prefix'', ''range'', ''endpoint'', ''server'', ''target'']"

definition IsSeparator :: "qchar \<Rightarrow> bool" where
  "IsSeparator c \<longleftrightarrow> c = 44 \<or> c = 59 \<or> c = 9 \<or> c = 124"

definition RangeChar :: "qchar \<Rightarrow> bool" where
  "RangeChar c \<longleftrightarrow> HexDigit c \<noteq> None \<or> c = 46 \<or> c = 58 \<or> c = 91 \<or> c = 93"

section \<open>Lines\<close>

text \<open>The loop of \<^verbatim>\<open>ipListParseJoinRanges\<close>; the second argument is the line from index \<open>i\<close> on.\<close>

function join_ranges :: "qstring \<Rightarrow> qstring \<Rightarrow> qstring" where
  "join_ranges out [] = out"
| "join_ranges out (c # line) =
     (if c = 45 \<or> c = 0x2013 then
        (let kept = rev (dropWhile isSpace (rev out)); after = dropWhile isSpace line
         in if kept \<noteq> [] \<and> after \<noteq> [] \<and> RangeChar (last kept) \<and> RangeChar (hd after)
            then join_ranges (kept @ [45]) after
            else join_ranges (out @ [c]) line)
      else join_ranges (out @ [c]) line)"
  by pat_completeness auto
termination
  by (relation "measure (\<lambda>(out, line). length line)") (auto simp: less_Suc_eq_le length_dropWhile_le)

definition JoinRanges :: "qstring \<Rightarrow> qstring" where
  "JoinRanges line = join_ranges [] line"

definition isQuote :: "qchar \<Rightarrow> bool" where
  "isQuote c \<longleftrightarrow> c = 34 \<or> c = 39"

definition Unquote :: "qstring \<Rightarrow> qstring" where
  "Unquote s =
     trimmed (rev (dropWhile isQuote (rev (dropWhile isQuote (trimmed s)))))"

fun split_at :: "('a \<Rightarrow> bool) \<Rightarrow> 'a list \<Rightarrow> 'a list list" where
  "split_at P [] = [[]]"
| "split_at P (c # s) =
     (if P c then [] # split_at P s
      else (case split_at P s of [] \<Rightarrow> [[c]] | p # ps \<Rightarrow> (c # p) # ps))"

definition Split :: "qstring \<Rightarrow> bool \<Rightarrow> qstring list" where
  "Split s bySeparator =
     (if bySeparator then split_at IsSeparator s else filter (\<lambda>p. p \<noteq> []) (split_at isSpace s))"

definition make_token :: "nat \<Rightarrow> qstring \<Rightarrow> IpListParseToken" where
  "make_token f s =
     (case AddressToken s of
        Some (cidrs, port) \<Rightarrow>
          \<lparr>tk_text = s, tk_field = f, tk_kind = KindAddress, tk_cidrs = cidrs, tk_port = port,
           tk_consumed = False\<rparr>
      | None \<Rightarrow>
          (case Port s of
             Some port \<Rightarrow>
               \<lparr>tk_text = s, tk_field = f, tk_kind = KindPort, tk_cidrs = [], tk_port = port,
                tk_consumed = False\<rparr>
           | None \<Rightarrow>
               \<lparr>tk_text = s, tk_field = f, tk_kind = KindOther, tk_cidrs = [], tk_port = -1,
                tk_consumed = False\<rparr>))"

definition field_tokens :: "nat \<Rightarrow> qstring \<Rightarrow> IpListParseToken list" where
  "field_tokens f fld =
     map (make_token f) (filter (\<lambda>s. s \<noteq> []) (map Unquote (Split fld False)))"

section \<open>The whole file\<close>

text \<open>The variables of \<open>ParseIpListText\<close> that live across lines; \<open>portColumn\<close> is \<open>None\<close> for -1.\<close>

record parse_state =
  result :: ParseResult
  seen :: "qstring list"
  firstContentLine :: bool
  tabularFile :: bool
  portColumn :: "nat option"

definition init_state :: parse_state where
  "init_state =
     \<lparr>result = \<lparr>entries = [], rejected = 0, duplicates = 0, samples = []\<rparr>, seen = [],
      firstContentLine = True, tabularFile = False, portColumn = None\<rparr>"

definition reject :: "parse_state \<Rightarrow> qstring \<Rightarrow> parse_state" where
  "reject st token =
     (let r = result st; r = r\<lparr>rejected := rejected r + 1\<rparr>
      in st\<lparr>result :=
           (if length (samples r) < kIpListParseMaxSamples
            then r\<lparr>samples := samples r @ [take kIpListParseSampleChars token]\<rparr> else r)\<rparr>)"

definition numberInt :: "int \<Rightarrow> qstring" where
  "numberInt n = (if n < 0 then [45] else []) @ numberOf (nat \<bar>n\<bar>)"

definition add_cidr :: "int \<Rightarrow> parse_state \<Rightarrow> qstring \<Rightarrow> parse_state" where
  "add_cidr port st cidr =
     (let key = cidr @ [32] @ numberInt port; r = result st
      in if key \<in> set (seen st) then st\<lparr>result := r\<lparr>duplicates := duplicates r + 1\<rparr>\<rparr>
         else st\<lparr>seen := key # seen st,
                 result := r\<lparr>entries := entries r @ [\<lparr>e_cidr = cidr, e_port = port, e_latencyMs = 0\<rparr>]\<rparr>\<rparr>)"

definition add_cidrs :: "int \<Rightarrow> parse_state \<Rightarrow> qstring list \<Rightarrow> int \<Rightarrow> parse_state" where
  "add_cidrs defaultPort st cidrs port =
     foldl (add_cidr (if port \<le> 0 then defaultPort else port)) st cidrs"

definition column_port :: "parse_state \<Rightarrow> qstring list \<Rightarrow> IpListParseToken \<Rightarrow> int" where
  "column_port st flds token =
     (case portColumn st of
        None \<Rightarrow> tk_port token
      | Some col \<Rightarrow>
          if col < length flds \<and> col \<noteq> tk_field token then
            (case Port (flds ! col) of None \<Rightarrow> tk_port token | Some p \<Rightarrow> p)
          else tk_port token)"

text \<open>The loop over the tokens of a line that has an address.\<close>

function emit :: "int \<Rightarrow> qstring list \<Rightarrow> bool \<Rightarrow> parse_state \<Rightarrow> IpListParseToken list \<Rightarrow> parse_state" where
  "emit defaultPort flds tabular st [] = st"
| "emit defaultPort flds tabular st (token # ts) =
     (if tk_consumed token then emit defaultPort flds tabular st ts
      else case tk_kind token of
        KindAddress \<Rightarrow>
          if tk_port token < 0 \<and> tabularFile st then
            emit defaultPort flds tabular
              (add_cidrs defaultPort st (tk_cidrs token) (column_port st flds token)) ts
          else if tk_port token < 0 \<and> ts \<noteq> [] \<and> tk_kind (hd ts) = KindPort then
            emit defaultPort flds tabular
              (add_cidrs defaultPort st (tk_cidrs token) (tk_port (hd ts)))
              ((hd ts)\<lparr>tk_consumed := True\<rparr> # tl ts)
          else
            emit defaultPort flds tabular
              (add_cidrs defaultPort st (tk_cidrs token) (tk_port token)) ts
      | KindPort \<Rightarrow>
          emit defaultPort flds tabular (if tabular then st else reject st (tk_text token)) ts
      | KindOther \<Rightarrow>
          emit defaultPort flds tabular
            (if \<not> tabular \<or> LooksLikeAddress (tk_text token) then reject st (tk_text token) else st) ts)"
  by pat_completeness auto
termination
  by (relation "measure (\<lambda>(d, flds, tabular, st, ts). length ts)") auto

text \<open>A line: the comment cut off, blank at neither end, ranges joined.\<close>

definition clean_line :: "qstring \<Rightarrow> qstring" where
  "clean_line line =
     (let line = (case indexOf 35 line of None \<Rightarrow> line | Some hash \<Rightarrow> take hash line);
          line = (case indexOfStr [47, 47] line of None \<Rightarrow> line | Some slashes \<Rightarrow> take slashes line)
      in trimmed line)"

definition port_field :: "qstring list \<Rightarrow> nat option" where
  "port_field flds = map_option fst (find (\<lambda>(f, s). containsCI ''port'' s) (enumerate 0 flds))"

text \<open>A line with no address: the header row of a table, or rejects.\<close>

definition no_address_line ::
    "parse_state \<Rightarrow> qstring \<Rightarrow> qstring list \<Rightarrow> bool \<Rightarrow> IpListParseToken list \<Rightarrow> parse_state" where
  "no_address_line st line flds tabular tokens =
     (let addressShaped =
        list_ex (\<lambda>t. tk_kind t \<noteq> KindAddress \<and> LooksLikeAddress (tk_text t)) tokens;
          namesColumn = list_ex (\<lambda>t. IsColumnName (tk_text t)) tokens
      in if firstContentLine st \<and> \<not> addressShaped \<and> namesColumn then
           st\<lparr>firstContentLine := False, tabularFile := True,
              portColumn := (case port_field flds of None \<Rightarrow> portColumn st | Some f \<Rightarrow> Some f)\<rparr>
         else
           (let st = st\<lparr>firstContentLine := False\<rparr>
            in if \<not> tabular then foldl reject st (map tk_text tokens)
               else if addressShaped then
                 foldl reject st (filter LooksLikeAddress (map tk_text tokens))
               else reject st line))"

definition parse_line :: "int \<Rightarrow> parse_state \<Rightarrow> qstring \<Rightarrow> parse_state" where
  "parse_line defaultPort st line =
     (let line = clean_line line
      in if line = [] \<or> startsWithChar 59 line then st
         else
           (let line = (if 45 \<in> set line \<or> 0x2013 \<in> set line then JoinRanges line else line);
                separated = list_ex IsSeparator line;
                flds = map Unquote (Split line separated);
                tokens = concat (map (\<lambda>(f, s). field_tokens f s) (enumerate 0 flds))
            in if tokens = [] then st
               else
                 (let tabular = (separated \<or> tabularFile st)
                  in if list_ex (\<lambda>t. tk_kind t = KindAddress) tokens
                     then emit defaultPort flds tabular (st\<lparr>firstContentLine := False\<rparr>) tokens
                     else no_address_line st line flds tabular tokens)))"

definition clamp_port :: "int \<Rightarrow> int" where
  "clamp_port defaultPort = (if defaultPort < 0 \<or> 65535 < defaultPort then 0 else defaultPort)"

definition ParseIpListText :: "(nat list \<Rightarrow> qstring) \<Rightarrow> nat list \<Rightarrow> int \<Rightarrow> ParseResult" where
  "ParseIpListText utf8 bytes defaultPort =
     (let content = utf8 bytes;
          content = (if startsWithChar 0xFEFF content then drop 1 content else content)
      in result (foldl (parse_line (clamp_port defaultPort)) init_state (split_on 10 content)))"

section \<open>Entries\<close>

definition FormatTarget :: "qstring \<Rightarrow> int \<Rightarrow> qstring" where
  "FormatTarget address port =
     (if port \<le> 0 then address
      else if 58 \<in> set address then [91] @ address @ [93, 58] @ numberInt port
      else address @ [58] @ numberInt port)"

definition IsHostCidr :: "qstring \<Rightarrow> bool" where
  "IsHostCidr cidr \<longleftrightarrow>
     cidr \<noteq> [] \<and>
     (case indexOf 47 cidr of
        None \<Rightarrow> True
      | Some slash \<Rightarrow>
          drop (slash + 1) cidr = (if 58 \<in> set (take slash cidr) then lit ''128'' else lit ''32''))"

definition FormatEntry :: "IpListEntry \<Rightarrow> qstring" where
  "FormatEntry entry =
     (if IsHostCidr (e_cidr entry) then
        FormatTarget
          (case indexOf 47 (e_cidr entry) of
             None \<Rightarrow> e_cidr entry
           | Some slash \<Rightarrow> take slash (e_cidr entry))
          (e_port entry)
      else if e_port entry \<le> 0 then e_cidr entry
      else e_cidr entry @ [32] @ numberInt (e_port entry))"

definition AddressCount :: "qstring \<Rightarrow> 64 word" where
  "AddressCount cidr =
     (if cidr = [] then 0
      else case indexOf 47 cidr of
        None \<Rightarrow> 1
      | Some slash \<Rightarrow>
          (let bits = (if 58 \<in> set (take slash cidr) then 128 else 32)
           in case Decimal (drop (slash + 1) cidr) 3 of
                None \<Rightarrow> 0
              | Some plen \<Rightarrow>
                  if bits < plen then 0
                  else (let hostBits = bits - plen
                        in if 63 \<le> hostBits then push_bit 63 1 else push_bit hostBits 1)))"

definition EntriesFromCidrs :: "qstring list \<Rightarrow> int \<Rightarrow> IpListEntry list" where
  "EntriesFromCidrs cidrs defaultPort =
     (let port = clamp_port defaultPort
      in fst (foldl (\<lambda>(es, seen) t.
             (let cidr = NormalizeCidr t
              in if cidr = [] \<or> cidr \<in> set seen then (es, seen)
                 else (es @ [\<lparr>e_cidr = cidr, e_port = port, e_latencyMs = 0\<rparr>], cidr # seen)))
           ([], []) cidrs))"

end
