(* ===== verification/IpListProps.thy ===== *)
theory IpListProps
  imports IpListParse
begin

text \<open>
  What an IP list file yields: every entry is a proper network with a port in range, no entry comes
  twice, the samples of rejected text are few and short; and a list written entry by entry reads back
  as itself.
\<close>

section \<open>Tokens\<close>

definition cidr_ok :: "qstring \<Rightarrow> bool" where
  "cidr_ok cidr \<longleftrightarrow> (\<exists>addr plen. cidr = Cidr addr plen \<and> block_ok (v6 addr) (addr, plen))"

definition port_ok :: "int \<Rightarrow> bool" where
  "port_ok port \<longleftrightarrow> 0 \<le> port \<and> port \<le> 65535"

lemma net_ok_block: "net_ok addr plen \<Longrightarrow> block_ok (v6 addr) (addr, plen)"
  by (simp add: net_ok_def block_ok_def)

lemma Port_ok: "Port s = Some port \<Longrightarrow> port_ok port"
  by (auto simp: Port_def port_ok_def split: option.splits if_splits)

lemma RangeEnd_ok: "RangeEnd s = Some addr \<Longrightarrow> addr_ok addr"
  by (auto simp: RangeEnd_def Let_def split: option.splits if_splits intro: Address_ok unmapped_ok)

lemma range_last_ok:
  assumes "range_last first right = Some last'" "addr_ok first"
  shows "addr_ok last' \<and> v6 last' = v6 first"
proof (cases "if \<not> v6 first then Decimal right 3 else None")
  case None
  with assms show ?thesis by (auto simp: range_last_def split: option.splits if_splits intro: RangeEnd_ok)
next
  case (Some octet)
  then have v: "\<not> v6 first" by (simp split: if_splits)
  from Some assms(1) have b: "octet \<le> 255"
    and l: "last' = first\<lparr>lo := (lo first AND NOT 0xff) OR of_nat octet\<rparr>"
    by (simp_all add: range_last_def split: if_splits)
  have "take_bit 32 (of_nat octet :: 64 word) = of_nat octet"
    using b by (simp add: take_bit_of_nat take_bit_nat_eq_self)
  moreover have "take_bit 32 (lo first AND NOT 0xff) = lo first AND NOT 0xff"
    using assms(2) v by (simp only: take_bit_and_left addr_ok_def) simp
  ultimately have "take_bit 32 ((lo first AND NOT 0xff) OR of_nat octet) =
      (lo first AND NOT 0xff) OR of_nat octet" by (simp only: take_bit_or)
  with assms(2) v l show ?thesis by (simp add: addr_ok_def)
qed

lemma CoverRange_ok:
  assumes "CoverRange first last' = Some cidrs" "addr_ok first" "addr_ok last'" "v6 first = v6 last'"
    "\<not> Less last' first" "c \<in> set cidrs"
  shows "cidr_ok c"
proof -
  from CoverRange_cases [OF assms(2-5)] assms(1)
  have c: "cidrs = cover_loop (Bits first) first last' []" and pre: "cover_pre (Bits first) first last'"
    by auto
  from cover_loop_exact [OF pre, of "[]"] obtain blocks
    where "cidrs = map (\<lambda>(a, p). Cidr a p) blocks" "\<forall>b \<in> set blocks. block_ok (v6 first) b"
    unfolding c by auto
  with assms(6) show ?thesis by (fastforce simp: cidr_ok_def block_ok_def)
qed

lemma range_right_ok: "range_right r = Some (right, port) \<Longrightarrow> port = -1 \<or> port_ok port"
  by (auto simp: range_right_def Let_def split: option.splits if_splits dest: Port_ok)

lemma address_port_ok: "address_port t = Some (network, port) \<Longrightarrow> port = -1 \<or> port_ok port"
  by (auto simp: address_port_def Let_def split: option.splits if_splits dest: Port_ok)

lemma RangeToken_ok:
  assumes "RangeToken token = Some (cidrs, port)"
  shows "(\<forall>c \<in> set cidrs. cidr_ok c) \<and> (port = -1 \<or> port_ok port)"
proof -
  from assms obtain dash right first last'
    where r: "range_right (drop (dash + 1) token) = Some (right, port)"
      and f: "RangeEnd (take dash token) = Some first" and l: "range_last first right = Some last'"
      and c: "(if Less last' first then CoverRange last' first else CoverRange first last') = Some cidrs"
    by (auto simp: RangeToken_def split: option.splits prod.splits)
  have ok: "addr_ok first" "addr_ok last'" "v6 first = v6 last'"
    using RangeEnd_ok [OF f] range_last_ok [OF l] by simp_all
  have "Less last' first \<Longrightarrow> \<not> Less first last'" by (simp add: Less_val)
  with ok c have "\<forall>c \<in> set cidrs. cidr_ok c"
    by (cases "Less last' first") (auto intro: CoverRange_ok)
  with range_right_ok [OF r] show ?thesis by blast
qed

lemma AddressToken_ok:
  assumes "AddressToken token = Some (cidrs, port)"
  shows "(\<forall>c \<in> set cidrs. cidr_ok c) \<and> (port = -1 \<or> port_ok port)"
proof (cases "45 \<in> set token")
  case True
  with assms show ?thesis using RangeToken_ok by (auto simp: AddressToken_def split: if_splits)
next
  case False
  with assms obtain network addr plen where "address_port token = Some (network, port)"
    "Network network = Some (addr, plen)" "cidrs = [Cidr addr plen]"
    by (auto simp: AddressToken_def split: option.splits prod.splits if_splits)
  then show ?thesis
    using address_port_ok Network_ok net_ok_block by (fastforce simp: cidr_ok_def)
qed

definition token_ok :: "IpListParseToken \<Rightarrow> bool" where
  "token_ok t \<longleftrightarrow> (\<forall>c \<in> set (tk_cidrs t). cidr_ok c) \<and> (tk_port t = -1 \<or> port_ok (tk_port t))"

lemma make_token_ok: "token_ok (make_token f s)"
  using AddressToken_ok [of s] Port_ok [of s]
  by (auto simp: make_token_def token_ok_def split: option.splits prod.splits)

section \<open>The state across lines\<close>

definition entry_key :: "IpListEntry \<Rightarrow> qstring" where
  "entry_key e = e_cidr e @ [32] @ numberInt (e_port e)"

definition entry_ok :: "IpListEntry \<Rightarrow> bool" where
  "entry_ok e \<longleftrightarrow> cidr_ok (e_cidr e) \<and> port_ok (e_port e) \<and> e_latencyMs e = 0"

definition result_ok :: "ParseResult \<Rightarrow> bool" where
  "result_ok r \<longleftrightarrow>
     (\<forall>e \<in> set (entries r). entry_ok e) \<and> distinct (entries r) \<and>
     length (samples r) = min 5 (rejected r) \<and> (\<forall>s \<in> set (samples r). length s \<le> 64)"

definition state_ok :: "parse_state \<Rightarrow> bool" where
  "state_ok st \<longleftrightarrow>
     result_ok (result st) \<and> distinct (seen st) \<and> rev (seen st) = map entry_key (entries (result st))"

lemma reject_ok: "state_ok st \<Longrightarrow> state_ok (reject st t)"
  by (auto simp: state_ok_def result_ok_def reject_def Let_def kIpListParseMaxSamples_def
      kIpListParseSampleChars_def)

lemma add_cidr_ok:
  assumes "state_ok st" "cidr_ok cidr" "port_ok port"
  shows "state_ok (add_cidr port st cidr)"
proof -
  define e where "e = \<lparr>e_cidr = cidr, e_port = port, e_latencyMs = 0\<rparr>"
  have k: "cidr @ [32] @ numberInt port = entry_key e" by (simp add: e_def entry_key_def)
  have s: "set (seen st) = entry_key ` set (entries (result st))"
    using assms(1) by (metis state_ok_def set_rev set_map)
  have "entry_ok e" using assms by (simp add: e_def entry_ok_def)
  then show ?thesis
    using assms(1) s unfolding add_cidr_def Let_def k e_def [symmetric]
    by (auto simp: state_ok_def result_ok_def)
qed

lemma add_cidrs_ok:
  assumes "state_ok st" "port_ok d" "\<forall>c \<in> set cidrs. cidr_ok c" "port = -1 \<or> port_ok port"
  shows "state_ok (add_cidrs d st cidrs port)"
proof -
  define q where "q = (if port \<le> 0 then d else port)"
  have "port_ok q" using assms(2,4) by (auto simp: q_def port_ok_def)
  then have "state_ok (foldl (add_cidr q) st cidrs)"
    using assms(1,3) by (induction cidrs arbitrary: st) (simp_all add: add_cidr_ok)
  then show ?thesis by (simp add: add_cidrs_def q_def)
qed

lemma column_port_ok: "token_ok t \<Longrightarrow> column_port st flds t = -1 \<or> port_ok (column_port st flds t)"
  by (auto simp: column_port_def token_ok_def split: option.splits dest: Port_ok)

lemma state_ok_update [simp]:
  "state_ok (st\<lparr>firstContentLine := b\<rparr>) = state_ok st"
  "state_ok (st\<lparr>tabularFile := b\<rparr>) = state_ok st"
  "state_ok (st\<lparr>portColumn := c\<rparr>) = state_ok st"
  by (simp_all add: state_ok_def)

lemma emit_ok:
  "state_ok st \<Longrightarrow> port_ok d \<Longrightarrow> \<forall>t \<in> set ts. token_ok t \<Longrightarrow> state_ok (emit d flds tabular st ts)"
proof (induction d flds tabular st ts rule: emit.induct)
  case (2 d flds tabular st t ts)
  have t: "token_ok t" using "2.prems" by simp
  then have "state_ok (add_cidrs d st (tk_cidrs t) (column_port st flds t))"
    "state_ok (add_cidrs d st (tk_cidrs t) (tk_port t))"
    using "2.prems" column_port_ok [OF t] by (auto intro!: add_cidrs_ok simp: token_ok_def)
  moreover have "ts \<noteq> [] \<Longrightarrow> state_ok (add_cidrs d st (tk_cidrs t) (tk_port (hd ts)))"
    using "2.prems" t by (cases ts) (auto intro!: add_cidrs_ok simp: token_ok_def)
  moreover have "ts \<noteq> [] \<Longrightarrow> \<forall>u \<in> set ((hd ts)\<lparr>tk_consumed := True\<rparr> # tl ts). token_ok u"
    using "2.prems" by (cases ts) (auto simp: token_ok_def)
  ultimately show ?case
    using "2.prems" "2.IH" reject_ok [of st "tk_text t"]
    by (cases "tk_kind t") (simp_all split del: if_split, auto)
qed simp

lemma foldl_reject_ok: "state_ok st \<Longrightarrow> state_ok (foldl reject st ts)"
  by (induction ts arbitrary: st) (simp_all add: reject_ok)

lemma no_address_line_ok: "state_ok st \<Longrightarrow> state_ok (no_address_line st line flds tabular ts)"
  by (simp add: no_address_line_def Let_def foldl_reject_ok reject_ok)

lemma parse_line_ok:
  assumes "state_ok st" "port_ok d"
  shows "state_ok (parse_line d st line)"
proof -
  have "\<forall>t \<in> set (concat (map (\<lambda>(f, s). field_tokens f s) xs)). token_ok t" for xs
    by (auto simp: field_tokens_def make_token_ok)
  then show ?thesis
    using assms unfolding parse_line_def Let_def
    by (auto intro!: emit_ok no_address_line_ok split del: if_split split: if_split)
qed

text \<open>The parser offers the contract of a machine with an invariant: lines are its events.\<close>

interpretation ip_parser: invariant_system init_state "parse_line (clamp_port d)" state_ok
proof
  show "state_ok init_state" by (simp add: state_ok_def result_ok_def init_state_def)
next
  fix st line
  assume "state_ok st"
  then show "state_ok (parse_line (clamp_port d) st line)"
    by (rule parse_line_ok) (simp add: clamp_port_def port_ok_def)
qed

lemma run_foldl: "run step s es = foldl step s es"
  by (induction es arbitrary: s) simp_all

text \<open>
  C29. Whatever the bytes of an IP list file and the default port, every entry read from it is a network
  of its family masked to a prefix length of at least 1, with a port between 0 and 65535; no entry
  comes twice; and the result carries the first five rejected texts at most, cut to 64 characters.
\<close>

theorem ParseIpListText_type:
  "let r = ParseIpListText utf8 bytes defaultPort in
     list_all (\<lambda>e. 0 \<le> e_port e \<and> e_port e \<le> 65535 \<and> e_latencyMs e = 0 \<and>
           (\<exists>addr plen. e_cidr e = Cidr addr plen \<and> 1 \<le> plen \<and> plen \<le> Bits addr \<and> Mask addr plen = addr))
           (entries r) \<and>
         distinct (entries r) \<and> length (samples r) = min 5 (rejected r) \<and>
         list_all (\<lambda>s. length s \<le> 64) (samples r)"
proof -
  have "state_ok (foldl (parse_line (clamp_port defaultPort)) init_state ls)" for ls
    using ip_parser.inv_run [of defaultPort ls] by (simp only: run_foldl)
  then have "result_ok (ParseIpListText utf8 bytes defaultPort)"
    by (simp add: ParseIpListText_def Let_def state_ok_def)
  then show ?thesis unfolding Let_def
    by (fastforce simp: result_ok_def list_all_iff entry_ok_def port_ok_def cidr_ok_def block_ok_def)
qed

section \<open>Entries as text\<close>

text \<open>An entry in normal form, as the parser of single networks and \<open>EntriesFromCidrs\<close> make it.\<close>

definition entry_normal :: "IpListEntry \<Rightarrow> bool" where
  "entry_normal e \<longleftrightarrow>
     NormalizeCidr (e_cidr e) = e_cidr e \<and> e_cidr e \<noteq> [] \<and> port_ok (e_port e) \<and> e_latencyMs e = 0"

lemma entry_normal_cases:
  assumes "entry_normal e"
  obtains addr plen where "e_cidr e = Cidr addr plen" "net_ok addr plen"
  using assms NormalizeCidr_cases [of "e_cidr e" thesis] by (auto simp: entry_normal_def)

text \<open>The characters of a written entry.\<close>

definition plainChar :: "qchar \<Rightarrow> bool" where
  "plainChar c \<longleftrightarrow>
     c = 46 \<or> c = 47 \<or> c = 58 \<or> c = 91 \<or> c = 93 \<or> (48 \<le> c \<and> c \<le> 57) \<or> (97 \<le> c \<and> c \<le> 102)"

lemma plain_Format: "c \<in> set (Format addr) \<Longrightarrow> plainChar c"
  using Format_chars [of c addr] by (auto simp: plainChar_def)

lemma plain_Cidr: "c \<in> set (Cidr addr plen) \<Longrightarrow> plainChar c"
  using Cidr_chars [of c addr plen] by (auto simp: plainChar_def)

lemma plain_number: "c \<in> set (numberOf n) \<Longrightarrow> plainChar c"
  using numberOf_char [of c n] by (auto simp: plainChar_def)

lemma plain_not: "plainChar c \<Longrightarrow>
    \<not> isSpace c \<and> \<not> isQuote c \<and> \<not> IsSeparator c \<and> c \<noteq> 35 \<and> c \<noteq> 45 \<and> c \<noteq> 0x2013 \<and> c \<noteq> 59 \<and> c \<noteq> 10 \<and>
    c < 128"
  by (auto simp: plainChar_def isSpace_def isQuote_def IsSeparator_def)

lemma plain_ends: "w \<noteq> [] \<Longrightarrow> \<forall>c \<in> set w. plainChar c \<Longrightarrow> hd w \<noteq> 32 \<and> last w \<noteq> 32"
proof -
  assume "w \<noteq> []" "\<forall>c \<in> set w. plainChar c"
  then have "plainChar (hd w)" "plainChar (last w)" by simp_all
  moreover have "\<not> plainChar 32" by (simp add: plainChar_def)
  ultimately show ?thesis by metis
qed

lemma numberInt_port: "0 \<le> port \<Longrightarrow> numberInt port = numberOf (nat port)"
  by (simp add: numberInt_def)

lemma Port_numberInt: "port_ok port \<Longrightarrow> Port (numberInt port) = Some port"
  using Port_numberOf [of "nat port"] by (simp add: numberInt_port port_ok_def nat_le_iff)

subsection \<open>Words\<close>

lemma dropWhile_none: "\<forall>c \<in> set s. \<not> P c \<Longrightarrow> dropWhile P s = s"
  by (cases s) auto

lemma Unquote_plain: "\<forall>c \<in> set w. plainChar c \<Longrightarrow> Unquote w = w"
  using plain_not by (simp add: Unquote_def trimmed_no_space dropWhile_none)

lemma split_at_none: "\<forall>c \<in> set s. \<not> P c \<Longrightarrow> split_at P s = [s]"
  by (induction s) auto

lemma split_at_cut: "\<forall>c \<in> set s. \<not> P c \<Longrightarrow> P x \<Longrightarrow> split_at P (s @ x # t) = s # split_at P t"
  by (induction s) auto

lemma Split_word: "w \<noteq> [] \<Longrightarrow> \<forall>c \<in> set w. plainChar c \<Longrightarrow> Split w False = [w]"
  using plain_not by (simp add: Split_def split_at_none)

lemma Split_words:
  assumes "w \<noteq> []" "\<forall>c \<in> set w. plainChar c" "v \<noteq> []" "\<forall>c \<in> set v. plainChar c"
  shows "Split (w @ 32 # v) False = [w, v]"
  using assms plain_not by (simp add: Split_def split_at_none split_at_cut isSpace_def [of 32])

lemma field_tokens_word:
  "w \<noteq> [] \<Longrightarrow> \<forall>c \<in> set w. plainChar c \<Longrightarrow> field_tokens f w = [make_token f w]"
  by (simp add: field_tokens_def Split_word Unquote_plain)

subsection \<open>Address tokens\<close>

lemma count_none: "x \<notin> set s \<Longrightarrow> count_list s x = 0"
  by (simp add: count_list_0_iff)

lemma count_colons: "2 \<le> length gs \<Longrightarrow> length gs - 1 \<le> count_list (colons gs) 58"
proof (induction gs rule: colons.induct)
  case (3 g h gs)
  then show ?case by (cases gs) simp_all
qed simp_all

lemma count_Format:
  "v6 addr \<Longrightarrow> 2 \<le> count_list (Format addr) 58" "\<not> v6 addr \<Longrightarrow> count_list (Format addr) 58 = 0"
proof -
  assume "v6 addr"
  then show "2 \<le> count_list (Format addr) 58"
    using count_colons [of "groupsOf addr"]
    by (cases rule: Format_v6_cases) simp_all
next
  assume "\<not> v6 addr"
  then show "count_list (Format addr) 58 = 0"
    using Format_v4_chars [of addr 58] by (auto intro: count_none)
qed

lemma count_Cidr: "count_list (Cidr addr plen) 58 = count_list (Format addr) 58"
  by (simp add: Cidr_def Let_def count_none numberBase_no_sep)

lemma AddressToken_Cidr:
  assumes "net_ok addr plen"
  shows "AddressToken (Cidr addr plen) = Some ([Cidr addr plen], -1)"
proof -
  have "45 \<notin> set (Cidr addr plen)" using Cidr_chars by fastforce
  moreover have "count_list (Cidr addr plen) 58 \<noteq> 1"
    unfolding count_Cidr using count_Format [of addr] by (cases "v6 addr") auto
  ultimately show ?thesis
    using hd_Cidr [of addr plen] Network_Cidr [OF assms]
    by (simp add: AddressToken_def address_port_def startsWithChar_def)
qed

lemma AddressToken_v4_port:
  assumes "net_ok addr 32" "\<not> v6 addr" "port_ok port"
  shows "AddressToken (Format addr @ 58 # numberInt port) = Some ([Format addr], port)"
proof -
  have c: "Cidr addr 32 = Format addr" using assms(2) by (simp add: Cidr_def Bits_def)
  have n: "numberInt port = numberOf (nat port)" using assms(3) by (simp add: numberInt_port port_ok_def)
  have h: "hd (Format addr) \<noteq> 91" using hd_Cidr [of addr 32] by (simp add: c)
  have f: "58 \<notin> set (Format addr)" using Format_v4_chars [OF assms(2)] by fastforce
  have d: "45 \<notin> set (numberOf (nat port))" "58 \<notin> set (numberOf (nat port))"
    using numberOf_char by fastforce+
  then show ?thesis
    using Network_Cidr [OF assms(1)] Port_numberInt [OF assms(3)] h f
    by (simp add: AddressToken_def address_port_def startsWithChar_def n c count_none indexOf_append)
qed

lemma Network_brackets:
  assumes "net_ok addr 128" "v6 addr"
  shows "Network (91 # Format addr @ [93]) = Some (addr, 128)"
proof -
  have "trimmed (91 # Format addr @ [93]) = 91 # Format addr @ [93]"
    by (rule trimmed_id) (simp add: isSpace_def)
  moreover have "indexOf 93 (91 # Format addr @ [93]) = Some (length (Format addr) + 1)"
    using indexOf_append [of 93 "91 # Format addr" "[]"] by simp
  then have "network_brackets (91 # Format addr @ [93]) = Some (Format addr, [])"
    by (simp add: network_brackets_def)
  moreover have "indexOf 47 (Format addr) = None" by (rule indexOf_None [THEN iffD2]) simp
  then have "network_slash (Format addr) [] = Some (Format addr, None)"
    by (simp add: network_slash_def del: indexOf_None)
  ultimately show ?thesis
    using assms Address_Format [of addr] network_mask_id [OF assms(1)]
    by (simp add: Network_def network_prefix_def Bits_def net_ok_def)
qed

lemma AddressToken_v6_port:
  assumes "net_ok addr 128" "v6 addr" "port_ok port"
  shows "AddressToken (91 # Format addr @ [93, 58] @ numberInt port) = Some ([Format addr], port)"
proof -
  have c: "Cidr addr 128 = Format addr" using assms(2) by (simp add: Cidr_def Bits_def)
  have n: "numberInt port = numberOf (nat port)" using assms(3) by (simp add: numberInt_port port_ok_def)
  have d: "45 \<notin> set (numberOf (nat port))" using numberOf_char by fastforce
  have i: "indexOf 93 (91 # Format addr @ 93 # t) = Some (length (Format addr) + 1)" for t
    using indexOf_append [of 93 "91 # Format addr" t] by simp
  have "address_port (91 # Format addr @ 93 # 58 # numberInt port) =
      Some (91 # Format addr @ [93], port)"
    unfolding address_port_def i using Port_numberInt [OF assms(3)] by (simp add: startsWithChar_def)
  then show ?thesis
    using Network_brackets [OF assms(1,2)] d by (simp add: AddressToken_def n c)
qed

subsection \<open>Lines\<close>

lemma indexOfStr_double: "count_list s x \<le> 1 \<Longrightarrow> indexOfStr [x, x] s = None"
proof (induction s)
  case (Cons c s)
  then have "indexOfStr [x, x] s = None" by (simp split: if_splits)
  moreover have "take 2 (c # s) \<noteq> [x, x]" using Cons.prems by (cases s) (auto split: if_splits)
  ultimately show ?case by (simp add: numeral_2_eq_2)
qed simp

lemma clean_line_plain:
  assumes "\<forall>c \<in> set s. plainChar c \<or> c = 32" "count_list s 47 \<le> 1" "s \<noteq> []"
    "hd s \<noteq> 32" "last s \<noteq> 32"
  shows "clean_line s = s"
proof -
  have "35 \<notin> set s" using assms(1) by (auto simp: plainChar_def)
  then have "indexOf 35 s = None" by (rule indexOf_None [THEN iffD2])
  moreover have "plainChar (hd s)" "plainChar (last s)"
    using assms hd_in_set [of s] last_in_set [of s] by blast+
  then have "trimmed s = s" using plain_not by (intro trimmed_id) blast
  ultimately show ?thesis
    using indexOfStr_double [OF assms(2)] by (simp add: clean_line_def del: indexOf_None)
qed

lemma parse_line_plain:
  assumes chars: "\<forall>c \<in> set s. plainChar c \<or> c = 32" and "count_list s 47 \<le> 1" and ne: "s \<noteq> []"
    and "hd s \<noteq> 32" "last s \<noteq> 32" and words: "Split s False = ws" "\<forall>w \<in> set ws. w \<noteq> []"
    "\<forall>w \<in> set ws. \<forall>c \<in> set w. plainChar c" "ws \<noteq> []"
    and addr: "AddressToken (hd ws) \<noteq> None" and tab: "\<not> tabularFile st"
  shows "parse_line d st s =
      emit d ws False (st\<lparr>firstContentLine := False\<rparr>) (map (\<lambda>(f, w). make_token f w) (enumerate 0 ws))"
proof -
  have cl: "clean_line s = s" by (rule clean_line_plain) (use assms in auto)
  have no: "45 \<notin> set s" "0x2013 \<notin> set s" "59 \<notin> set s" "\<not> list_ex IsSeparator s"
    using chars by (auto simp: plainChar_def IsSeparator_def list_ex_iff)
  have semi: "\<not> startsWithChar 59 s" using no(3) hd_in_set [OF ne] by (auto simp: startsWithChar_def)
  have u: "map Unquote ws = ws" using words(3) by (simp add: map_idI Unquote_plain)
  have "concat (map (\<lambda>(f, w). field_tokens f w) (enumerate n ws)) =
      map (\<lambda>(f, w). make_token f w) (enumerate n ws)" for n
    using words(2,3) by (induction ws arbitrary: n) (simp_all add: field_tokens_word)
  moreover have "tk_kind (make_token 0 (hd ws)) = KindAddress"
    using addr by (auto simp: make_token_def)
  then have "list_ex (\<lambda>t. tk_kind t = KindAddress) (map (\<lambda>(f, w). make_token f w) (enumerate 0 ws))"
    using words(4) by (cases ws) simp_all
  moreover have "enumerate 0 ws \<noteq> []" using words(4) by (cases ws) simp_all
  ultimately show ?thesis
    using ne no semi words(1,4) u tab
    by (simp add: parse_line_def cl Let_def del: concat_eq_Nil_conv)
qed

text \<open>Adding one entry that is not there yet.\<close>

definition push_entry :: "parse_state \<Rightarrow> IpListEntry \<Rightarrow> parse_state" where
  "push_entry st e =
     st\<lparr>firstContentLine := False, seen := entry_key e # seen st,
        result := (result st)\<lparr>entries := entries (result st) @ [e]\<rparr>\<rparr>"

lemma add_cidrs_new:
  assumes "entry_key e \<notin> set (seen st)" "e_latencyMs e = 0" "0 \<le> e_port e"
    "port = e_port e \<or> (port = -1 \<and> e_port e = 0)"
  shows "add_cidrs 0 (st\<lparr>firstContentLine := False\<rparr>) [e_cidr e] port = push_entry st e"
proof -
  have q: "(if port \<le> 0 then 0 else port) = e_port e" using assms(3,4) by auto
  have "e_cidr e @ [32] @ numberInt (e_port e) \<notin> set (seen st)" using assms(1) by (simp add: entry_key_def)
  then show ?thesis
    using assms(2) unfolding add_cidrs_def q by (simp add: add_cidr_def push_entry_def entry_key_def Let_def)
qed

lemma count_append: "count_list (xs @ ys) x = count_list xs x + count_list ys x"
  by simp

lemma Cidr_slashes: "count_list (Cidr addr plen) 47 \<le> 1"
proof -
  have "47 \<notin> set (numberOf plen)" using numberOf_char by fastforce
  then show ?thesis by (simp add: Cidr_def Let_def count_none)
qed

lemma emit_one:
  assumes "AddressToken w = Some (cidrs, port)" "\<not> tabularFile st"
  shows "emit d [w] False st [make_token 0 w] = add_cidrs d st cidrs port"
  using assms by (simp add: make_token_def)

lemma AddressToken_number: "AddressToken (numberOf n) = None"
proof -
  let ?s = "numberOf n"
  have no: "45 \<notin> set ?s" "58 \<notin> set ?s" "47 \<notin> set ?s" "91 \<notin> set ?s" "46 \<notin> set ?s"
    using numberOf_char by fastforce+
  then have h: "hd ?s \<noteq> 91" by (metis hd_in_set numberBase_not_Nil)
  have "trimmed ?s = ?s" using plain_not plain_number by (intro trimmed_no_space) blast
  moreover have "indexOf 47 ?s = None" using no(3) by (rule indexOf_None [THEN iffD2])
  moreover have "V4 ?s = None"
    using no(5) by (auto simp: V4_def split: option.splits)
  ultimately have "Network ?s = None"
    using no(2) h
    by (simp add: Network_def network_brackets_def network_slash_def Address_def del: indexOf_None)
  then show ?thesis
    using no h by (simp add: AddressToken_def address_port_def startsWithChar_def count_none)
qed

lemma emit_two:
  assumes "AddressToken w = Some (cidrs, -1)" "\<not> tabularFile st" "Port v = Some port" "AddressToken v = None"
  shows "emit d [w, v] False st [make_token 0 w, make_token 1 v] = add_cidrs d st cidrs port"
  using assms by (simp add: make_token_def)

lemma enumerate_words: "enumerate 0 [w] = [(0, w)]" "enumerate 0 [w, v] = [(0, w), (1, v)]"
  by simp_all

lemma parse_line_one:
  assumes "w \<noteq> []" "\<forall>c \<in> set w. plainChar c" "count_list w 47 \<le> 1"
    "AddressToken w = Some ([e_cidr e], port)" "port = e_port e \<or> (port = -1 \<and> e_port e = 0)"
    "\<not> tabularFile st" "entry_key e \<notin> set (seen st)" "e_latencyMs e = 0" "0 \<le> e_port e"
  shows "parse_line 0 st w = push_entry st e"
proof -
  have "hd w \<noteq> 32" "last w \<noteq> 32" using plain_ends [OF assms(1,2)] by blast+
  then have "parse_line 0 st w = emit 0 [w] False (st\<lparr>firstContentLine := False\<rparr>) [make_token 0 w]"
    using parse_line_plain [of w "[w]" st 0] Split_word [OF assms(1,2)] assms(1-4,6)
    by (simp add: enumerate_words)
  also have "\<dots> = push_entry st e"
    using emit_one [OF assms(4), of "st\<lparr>firstContentLine := False\<rparr>" 0] assms(6) add_cidrs_new [OF assms(7-9,5)]
    by simp
  finally show ?thesis .
qed

lemma parse_line_two:
  assumes "w \<noteq> []" "\<forall>c \<in> set w. plainChar c" "count_list w 47 \<le> 1"
    "AddressToken w = Some ([e_cidr e], -1)" "port_ok (e_port e)"
    "\<not> tabularFile st" "entry_key e \<notin> set (seen st)" "e_latencyMs e = 0"
  shows "parse_line 0 st (w @ 32 # numberInt (e_port e)) = push_entry st e"
proof -
  define v where "v = numberInt (e_port e)"
  have vn: "v = numberOf (nat (e_port e))" using assms(5) by (simp add: v_def numberInt_port port_ok_def)
  have v: "v \<noteq> []" "\<forall>c \<in> set v. plainChar c" by (simp_all add: vn plain_number)
  have sl: "count_list v 47 = 0" using v(2) numberOf_char [of 47] by (auto simp: vn intro!: count_none)
  have "hd w \<noteq> 32" "last v \<noteq> 32" using plain_ends [OF assms(1,2)] plain_ends [OF v] by blast+
  then have "parse_line 0 st (w @ 32 # v) =
      emit 0 [w, v] False (st\<lparr>firstContentLine := False\<rparr>) [make_token 0 w, make_token 1 v]"
    using parse_line_plain [of "w @ 32 # v" "[w, v]" st 0] Split_words [OF assms(1,2) v] assms(1-4,6) v sl
    by (simp add: enumerate_words ball_Un)
  also have "\<dots> = add_cidrs 0 (st\<lparr>firstContentLine := False\<rparr>) [e_cidr e] (e_port e)"
    using assms(4,6) Port_numberInt [OF assms(5)] AddressToken_number
    by (intro emit_two) (simp_all add: v_def [symmetric] vn)
  also have "\<dots> = push_entry st e"
    using assms(5) by (intro add_cidrs_new assms(7,8)) (simp_all add: port_ok_def)
  finally show ?thesis by (simp add: v_def)
qed

lemma indexOf_Cidr:
  "Bits addr \<le> plen \<Longrightarrow> indexOf 47 (Cidr addr plen) = None"
  "plen < Bits addr \<Longrightarrow> indexOf 47 (Cidr addr plen) = Some (length (Format addr))"
proof -
  show "Bits addr \<le> plen \<Longrightarrow> indexOf 47 (Cidr addr plen) = None"
    by (rule indexOf_None [THEN iffD2]) (simp add: Cidr_def)
  show "plen < Bits addr \<Longrightarrow> indexOf 47 (Cidr addr plen) = Some (length (Format addr))"
    by (simp add: Cidr_def indexOf_append)
qed

lemma numberOf_inj: "numberOf a = numberOf b \<Longrightarrow> a < 2 ^ 32 \<Longrightarrow> b < 2 ^ 32 \<Longrightarrow> a = b"
  by (metis decimal_loop_numberOf option.inject)

lemma IsHostCidr_Cidr:
  assumes "net_ok addr plen"
  shows "IsHostCidr (Cidr addr plen) \<longleftrightarrow> plen = Bits addr"
proof (cases "plen = Bits addr")
  case True
  then show ?thesis by (simp add: IsHostCidr_def indexOf_Cidr del: indexOf_None)
next
  case False
  then have lt: "plen < Bits addr" using assms by (simp add: net_ok_def)
  have "58 \<in> set (Format addr) \<longleftrightarrow> v6 addr"
    using count_Format [of addr] by (cases "v6 addr") (auto simp: count_list_0_iff Format_v6_chars(1))
  moreover have "lit ''128'' = numberOf 128" "lit ''32'' = numberOf 32"
    by (simp_all add: numberBase_def digits.simps)
  moreover have "numberOf plen \<noteq> numberOf (Bits addr)"
    using numberOf_inj [of plen "Bits addr"] False lt by (auto simp: Bits_def split: if_splits)
  moreover have "take (length (Format addr)) (Cidr addr plen) = Format addr"
    "drop (length (Format addr) + 1) (Cidr addr plen) = numberOf plen"
    using lt by (simp_all add: Cidr_def)
  ultimately show ?thesis
    using False by (cases "v6 addr") (simp_all add: IsHostCidr_def indexOf_Cidr(2) [OF lt] Bits_def)
qed

text \<open>One written entry, read by a parser that has not seen a table header.\<close>

lemma parse_line_FormatEntry:
  assumes "entry_normal e" "\<not> tabularFile st" "entry_key e \<notin> set (seen st)"
  shows "parse_line 0 st (FormatEntry e) = push_entry st e"
proof -
  obtain addr plen where c: "e_cidr e = Cidr addr plen" and ok: "net_ok addr plen"
    using assms(1) by (rule entry_normal_cases)
  have p: "port_ok (e_port e)" "0 \<le> e_port e" "e_latencyMs e = 0"
    using assms(1) by (simp_all add: entry_normal_def port_ok_def)
  have plain: "\<forall>c \<in> set (Cidr addr plen). plainChar c" by (simp add: plain_Cidr)
  have num: "\<forall>c \<in> set (numberInt (e_port e)). plainChar c" "47 \<notin> set (numberInt (e_port e))"
    using p(2) numberOf_char [of 47] by (auto simp: numberInt_port plain_number)
  note one = parse_line_one [OF _ _ _ _ _ assms(2,3) p(3,2)]
  consider "e_port e = 0" | "0 < e_port e" "plen < Bits addr"
    | "0 < e_port e" "plen = Bits addr" "\<not> v6 addr" | "0 < e_port e" "plen = Bits addr" "v6 addr"
    using p(2) ok by (fastforce simp: net_ok_def)
  then show ?thesis
  proof cases
    case 1
    then have "FormatEntry e = Cidr addr plen"
      using IsHostCidr_Cidr [OF ok] ok
      by (cases "plen = Bits addr") (simp_all add: FormatEntry_def c FormatTarget_def indexOf_Cidr del: indexOf_None)
    then show ?thesis
      using one [of "Cidr addr plen" "-1"] AddressToken_Cidr [OF ok] plain Cidr_slashes 1 by (simp add: c)
  next
    case 2
    then have "FormatEntry e = Cidr addr plen @ 32 # numberInt (e_port e)"
      using IsHostCidr_Cidr [OF ok] by (simp add: FormatEntry_def c)
    then show ?thesis
      using parse_line_two [of "Cidr addr plen" e st] AddressToken_Cidr [OF ok] plain Cidr_slashes p assms
      by (simp add: c)
  next
    case 3
    then have f: "Cidr addr plen = Format addr" "plen = 32" "58 \<notin> set (Format addr)"
      using count_Format(2) [of addr] by (simp_all add: Cidr_def Bits_def count_list_0_iff)
    then have "FormatEntry e = Format addr @ 58 # numberInt (e_port e)"
      using IsHostCidr_Cidr [OF ok] 3 indexOf_Cidr(1) [of addr plen]
      by (simp add: FormatEntry_def c FormatTarget_def del: indexOf_None)
    then show ?thesis
      using one [of "Format addr @ 58 # numberInt (e_port e)" "e_port e"] plain num f ok p(1)
        AddressToken_v4_port [of addr "e_port e"] 3
      by (simp add: c count_none ball_Un plainChar_def [of 58])
  next
    case 4
    then have f: "Cidr addr plen = Format addr" "plen = 128" "58 \<in> set (Format addr)"
      using Format_v6_chars(1) [of addr] by (simp_all add: Cidr_def Bits_def)
    then have "FormatEntry e = 91 # Format addr @ [93, 58] @ numberInt (e_port e)"
      using IsHostCidr_Cidr [OF ok] 4 indexOf_Cidr(1) [of addr plen]
      by (simp add: FormatEntry_def c FormatTarget_def del: indexOf_None)
    then show ?thesis
      using one [of "91 # Format addr @ [93, 58] @ numberInt (e_port e)" "e_port e"] plain num f ok p(1)
        AddressToken_v6_port [of addr "e_port e"] 4
      by (simp add: c count_none ball_Un plainChar_def [of 58] plainChar_def [of 91] plainChar_def [of 93])
  qed
qed

section \<open>Lists as text\<close>

lemma FormatEntry_chars:
  assumes "entry_normal e" "c \<in> set (FormatEntry e)"
  shows "plainChar c \<or> c = 32"
proof -
  obtain addr plen where k: "e_cidr e = Cidr addr plen" using assms(1) by (rule entry_normal_cases)
  have "0 \<le> e_port e" using assms(1) by (simp add: entry_normal_def port_ok_def)
  then have "\<forall>c \<in> set (numberInt (e_port e)). plainChar c" by (simp add: numberInt_port plain_number)
  moreover have "\<forall>c \<in> set (take n (Cidr addr plen)). plainChar c" for n
    using plain_Cidr by (meson in_set_takeD)
  moreover have "\<forall>c \<in> set (Cidr addr plen). plainChar c" by (simp add: plain_Cidr)
  moreover have "plainChar 58" "plainChar 91" "plainChar 93" by (simp_all add: plainChar_def)
  ultimately show ?thesis
    using assms(2) unfolding FormatEntry_def FormatTarget_def k
    by (auto split: if_splits option.splits)
qed

lemma entry_key_inj:
  assumes "entry_normal e" "entry_normal e'" "entry_key e = entry_key e'"
  shows "e = e'"
proof -
  have "\<not> plainChar 32" by (simp add: plainChar_def)
  then have "32 \<notin> set (e_cidr d)" if "entry_normal d" for d
    using plain_Cidr that by (metis entry_normal_cases)
  then have no: "32 \<notin> set (e_cidr e)" "32 \<notin> set (e_cidr e')" using assms(1,2) by blast+
  have p: "port_ok (e_port e)" "port_ok (e_port e')" "e_latencyMs e = 0" "e_latencyMs e' = 0"
    using assms(1,2) by (simp_all add: entry_normal_def)
  have "indexOf 32 (entry_key e) = Some (length (e_cidr e))" "indexOf 32 (entry_key e') = Some (length (e_cidr e'))"
    using no by (simp_all add: entry_key_def indexOf_append)
  with assms(3) have "length (e_cidr e) = length (e_cidr e')" by simp
  then have "e_cidr e = e_cidr e'" "numberInt (e_port e) = numberInt (e_port e')"
    using assms(3) by (simp_all only: entry_key_def append_eq_append_conv) simp_all
  moreover from this(2) have "e_port e = e_port e'"
    using Port_numberInt [OF p(1)] Port_numberInt [OF p(2)] by (metis option.inject)
  ultimately show ?thesis using p(3,4) by (cases e, cases e') simp
qed

lemma split_lines:
  assumes "\<forall>e \<in> set es. 10 \<notin> set (F e)"
  shows "split_on 10 (concat (map (\<lambda>e. F e @ [10]) es)) = map F es @ [[]]"
  using assms by (induction es) simp_all

lemma parse_line_blank: "parse_line d st [] = st"
  by (simp add: parse_line_def clean_line_def)

lemma parse_entries:
  assumes "\<forall>e \<in> set es. entry_normal e" "\<not> tabularFile st"
    "distinct (rev (seen st) @ map entry_key es)"
  shows "foldl (parse_line 0) st (map FormatEntry es) = foldl push_entry st es"
  using assms
proof (induction es arbitrary: st)
  case (Cons e es)
  have "parse_line 0 st (FormatEntry e) = push_entry st e"
    using Cons.prems by (intro parse_line_FormatEntry) auto
  moreover have "foldl (parse_line 0) (push_entry st e) (map FormatEntry es) = foldl push_entry (push_entry st e) es"
    using Cons.prems by (intro Cons.IH) (simp_all add: push_entry_def)
  ultimately show ?case by simp
qed simp

lemma push_entries:
  "result (foldl push_entry st es) = (result st)\<lparr>entries := entries (result st) @ es\<rparr>"
  by (induction es arbitrary: st) (simp_all add: push_entry_def)

lemma FormatEntry_latency: "FormatEntry (e\<lparr>e_latencyMs := 0\<rparr>) = FormatEntry e"
  by (simp add: FormatEntry_def cong: option.case_cong)

text \<open>
  C28. A list written with \<open>FormatEntry\<close>, one entry a line, is read back by \<open>ParseIpListText\<close> in the same
  order, with nothing rejected and nothing counted as a duplicate: the network and the port of every entry
  come back, its latency is not written and comes back as 0. The entries have to be distinct in network and
  port, with a port in range and a network in the form \<open>NormalizeCidr\<close> gives it, which the parser's own
  networks have except the block of the mapped addresses, \<^verbatim>\<open>::ffff:0:0/96\<close>; \<^verbatim>\<open>fromUtf8\<close> is only relied on to
  keep ASCII.
\<close>

theorem FormatEntry_roundtrip:
  assumes "\<forall>bs. list_all (\<lambda>b. b < 128) bs \<longrightarrow> utf8 bs = bs"
    and "list_all (\<lambda>e. NormalizeCidr (e_cidr e) = e_cidr e \<and> e_cidr e \<noteq> [] \<and> 0 \<le> e_port e \<and>
           e_port e \<le> 65535) es"
    and "distinct (map (\<lambda>e. (e_cidr e, e_port e)) es)"
  shows "ParseIpListText utf8 (concat (map (\<lambda>e. FormatEntry e @ [10]) es)) 0 =
           \<lparr>entries = map (\<lambda>e. e\<lparr>e_latencyMs := 0\<rparr>) es, rejected = 0, duplicates = 0, samples = []\<rparr>"
proof -
  define es' where "es' = map (\<lambda>e. e\<lparr>e_latencyMs := 0\<rparr>) es"
  let ?t = "concat (map (\<lambda>e. FormatEntry e @ [10]) es')"
  have n: "\<forall>e \<in> set es'. entry_normal e"
    using assms(2) by (auto simp: es'_def list_all_iff entry_normal_def port_ok_def)
  have fc: "c < 128 \<and> c \<noteq> 10" if "e \<in> set es'" "c \<in> set (FormatEntry e)" for e c
    using FormatEntry_chars [of e c] plain_not [of c] n that by auto
  have chars: "c < 128" if c: "c \<in> set ?t" for c
  proof -
    from c obtain e where e: "e \<in> set es'" "c \<in> set (FormatEntry e @ [10])"
      by (simp only: set_concat set_map) blast
    then show ?thesis using fc [OF e(1), of c] by auto
  qed
  then have u: "utf8 ?t = ?t" using assms(1) by (simp only: list_all_iff) blast
  have bom: "\<not> startsWithChar 0xFEFF ?t"
    using chars hd_in_set [of ?t] by (fastforce simp: startsWithChar_def)
  have "\<forall>e \<in> set es'. 10 \<notin> set (FormatEntry e)" using fc by blast
  note lines = split_lines [OF this]
  have "map (\<lambda>e. (e_cidr e, e_port e)) es' = map (\<lambda>e. (e_cidr e, e_port e)) es" by (simp add: es'_def)
  then have "distinct es'" using assms(3) by (metis distinct_map)
  moreover have "inj_on entry_key (set es')" using n entry_key_inj by (meson inj_onI)
  ultimately have "distinct (map entry_key es')" by (simp add: distinct_map)
  then have "foldl (parse_line 0) init_state (map FormatEntry es') = foldl push_entry init_state es'"
    using n by (intro parse_entries) (simp_all add: init_state_def)
  then have "ParseIpListText utf8 ?t 0 = \<lparr>entries = es', rejected = 0, duplicates = 0, samples = []\<rparr>"
    using bom by (simp add: ParseIpListText_def Let_def u lines parse_line_blank clamp_port_def push_entries
        init_state_def)
  moreover have "?t = concat (map (\<lambda>e. FormatEntry e @ [10]) es)"
    by (simp add: es'_def FormatEntry_latency comp_def)
  ultimately show ?thesis by (simp add: es'_def)
qed

text \<open>10.0.0.0/8 with port 443 and ::1 with port 0 and a latency.\<close>

theorem FormatEntry_roundtrip_witness:
  "let es = [\<lparr>e_cidr = Cidr \<lparr>v6 = False, hi = 0, lo = 0x0a000000\<rparr> 8, e_port = 443, e_latencyMs = 0\<rparr>,
             \<lparr>e_cidr = Cidr \<lparr>v6 = True, hi = 0, lo = 1\<rparr> 128, e_port = 0, e_latencyMs = 31\<rparr>]
   in ParseIpListText (\<lambda>bs. bs) (concat (map (\<lambda>e. FormatEntry e @ [10]) es)) 0 =
        \<lparr>entries = map (\<lambda>e. e\<lparr>e_latencyMs := 0\<rparr>) es, rejected = 0, duplicates = 0, samples = []\<rparr>"
proof -
  have a: "net_ok \<lparr>v6 = False, hi = 0, lo = 0x0a000000\<rparr> 8"
    by (simp add: net_ok_def addr_ok_def Bits_def Mask_def IsMapped_def)
  have b: "net_ok \<lparr>v6 = True, hi = 0, lo = 1\<rparr> 128"
    by (simp add: net_ok_def addr_ok_def Bits_def Mask_def IsMapped_def)
  show ?thesis
    unfolding Let_def
    by (rule FormatEntry_roundtrip) (simp_all add: NormalizeCidr_normal [OF a] NormalizeCidr_normal [OF b])
qed

section \<open>Counting and collecting\<close>

lemma unat_power: "k < 64 \<Longrightarrow> unat (push_bit k (1 :: 64 word)) = 2 ^ k"
proof -
  assume k: "k < 64"
  have "push_bit k (1 :: 64 word) = of_nat (2 ^ k)" by (simp add: push_bit_eq_mult)
  moreover have "(2::nat) ^ k < 2 ^ 64" using k by (intro power_strict_increasing) simp_all
  ultimately show ?thesis by (simp only: unat_of_nat) simp
qed

text \<open>
  \<open>AddressCount\<close> of a network is the number of its addresses, saturated at \<open>2 ^ 63\<close>.
\<close>

theorem AddressCount_value:
  assumes "Network s = Some (addr, plen)"
  shows "unat (AddressCount (NormalizeCidr s)) = min (2 ^ 63) (2 ^ (Bits addr - plen))"
proof -
  have ok: "net_ok addr plen" using assms by (rule Network_ok)
  have n: "NormalizeCidr s = Cidr addr plen" using assms by (simp add: NormalizeCidr_def)
  show ?thesis
  proof (cases "plen < Bits addr")
    case True
    have bits: "(if 58 \<in> set (Format addr) then 128 else 32) = Bits addr"
      using count_Format [of addr] by (cases "v6 addr") (auto simp: Bits_def count_list_0_iff Format_v6_chars(1))
    have "take (length (Format addr)) (Cidr addr plen) = Format addr"
      "drop (length (Format addr) + 1) (Cidr addr plen) = numberOf plen"
      using True by (simp_all add: Cidr_def)
    moreover have "Decimal (numberOf plen) 3 = Some plen"
      using Decimal_numberOf [of plen 2 3] True by (simp add: Bits_def split: if_splits)
    moreover have "\<not> Bits addr < plen" using True by simp
    ultimately have c: "AddressCount (Cidr addr plen) =
        (if 63 \<le> Bits addr - plen then push_bit 63 1 else push_bit (Bits addr - plen) 1)"
      using True by (simp only: AddressCount_def Cidr_not_Nil indexOf_Cidr(2) [OF True] option.case bits
          Let_def if_False)
    show ?thesis
    proof (cases "63 \<le> Bits addr - plen")
      case True
      then have "(2::nat) ^ 63 \<le> 2 ^ (Bits addr - plen)" by (rule power_increasing) simp
      with True show ?thesis unfolding n c if_P [OF True] by (simp add: unat_power min_absorb1)
    next
      case False
      then have "(2::nat) ^ (Bits addr - plen) \<le> 2 ^ 63" by (intro power_increasing) simp_all
      moreover have "unat (push_bit (Bits addr - plen) (1 :: 64 word)) = 2 ^ (Bits addr - plen)"
        using False by (intro unat_power) simp
      ultimately show ?thesis unfolding n c if_not_P [OF False] by (simp only: min_absorb2)
    qed
  next
    case False
    then have "plen = Bits addr" using ok by (simp add: net_ok_def)
    then show ?thesis by (simp add: n AddressCount_def indexOf_Cidr del: indexOf_None)
  qed
qed

theorem AddressCount_value_witness:
  "unat (AddressCount (NormalizeCidr (Cidr \<lparr>v6 = False, hi = 0, lo = 0x0a000000\<rparr> 8))) = 2 ^ 24"
proof -
  let ?a = "\<lparr>v6 = False, hi = 0, lo = 0x0a000000\<rparr>"
  have "net_ok ?a 8" by (simp add: net_ok_def addr_ok_def Bits_def Mask_def IsMapped_def)
  from AddressCount_value [OF Network_Cidr [OF this]] show ?thesis by (simp add: Bits_def)
qed

lemma collect_seen:
  fixes f :: "'a \<Rightarrow> qstring"
  shows "foldl (\<lambda>(es, seen) t.
      (let cidr = f t in if cidr = [] \<or> cidr \<in> set seen then (es, seen) else (es @ [g cidr], cidr # seen)))
     (map g (rev (remdups acc)), remdups acc) ts =
   (let all = rev (filter (\<lambda>c. c \<noteq> []) (map f ts)) @ acc in (map g (rev (remdups all)), remdups all))"
proof (induction ts arbitrary: acc)
  case (Cons t ts)
  show ?case
  proof (cases "f t = []")
    case False
    have "(if f t \<in> set (remdups acc) then (map g (rev (remdups acc)), remdups acc)
        else (map g (rev (remdups acc)) @ [g (f t)], f t # remdups acc)) =
        (map g (rev (remdups (f t # acc))), remdups (f t # acc))" by simp
    with False Cons.IH [of "f t # acc"] show ?thesis by (simp add: Let_def)
  qed (use Cons.IH [of acc] in \<open>simp add: Let_def\<close>)
qed (simp add: Let_def)

text \<open>
  \<open>EntriesFromCidrs\<close> keeps the first occurrence of every network, in order: the entries are the
  normal forms of the texts that are networks, later repetitions dropped, each with the default port.
\<close>

theorem EntriesFromCidrs_spec:
  "EntriesFromCidrs cidrs defaultPort =
     map (\<lambda>c. \<lparr>e_cidr = c, e_port = clamp_port defaultPort, e_latencyMs = 0\<rparr>)
       (rev (remdups (rev (filter (\<lambda>c. c \<noteq> []) (map NormalizeCidr cidrs)))))"
  using collect_seen [where f = NormalizeCidr and acc = "[]" and ts = cidrs
      and g = "\<lambda>c. \<lparr>e_cidr = c, e_port = clamp_port defaultPort, e_latencyMs = 0\<rparr>"]
  by (simp add: EntriesFromCidrs_def Let_def)

section \<open>Ranges across the mapped block\<close>

text \<open>
  A range may pass over the IPv4-mapped block although neither end lies in it; its cover then holds
  \<^verbatim>\<open>::ffff:0:0/96\<close>, which is no network to \<open>Network\<close>, so that entry does not survive a
  write and a read.
\<close>

definition mapped_block :: IpListParseAddr where
  "mapped_block = \<lparr>v6 = True, hi = 0, lo = 0xffff00000000\<rparr>"

lemma Network_mapped_block: "Network (Cidr mapped_block 96) = None"
proof -
  have ok: "addr_ok mapped_block" and b: "Bits mapped_block = 128"
    by (simp_all add: addr_ok_def mapped_block_def Bits_def)
  then have c: "Cidr mapped_block 96 = Format mapped_block @ 47 # numberOf 96" by (simp add: Cidr_def)
  have "trimmed (Cidr mapped_block 96) = Cidr mapped_block 96"
    by (rule trimmed_no_space) (simp add: Cidr_no_space)
  moreover have "network_brackets (Cidr mapped_block 96) = Some (Cidr mapped_block 96, [])"
    by (simp add: network_brackets_def hd_Cidr)
  moreover have "network_slash (Cidr mapped_block 96) [] = Some (Format mapped_block, Some (numberOf 96))"
    by (simp add: c network_slash_def indexOf_append)
  moreover have "network_prefix mapped_block (Some (numberOf 96)) = Some 96"
    using Decimal_numberOf [of 96 2 3] by (simp add: network_prefix_def b)
  moreover have "network_mask mapped_block 96 = None"
    by (simp add: network_mask_def IsMapped_def mapped_block_def drop_bit_eq_div)
  ultimately show ?thesis using Address_Format [OF ok] by (simp add: Network_def)
qed

text \<open>
  The cover of \<^verbatim>\<open>::fffe:ffff:ffff\<close> to \<^verbatim>\<open>::1:0:0:0\<close> holds \<^verbatim>\<open>::ffff:0:0/96\<close>, and that text is no network
  to the reader.
\<close>

theorem mapped_block_lost:
  "CoverRange \<lparr>v6 = True, hi = 0, lo = 0xfffeffffffff\<rparr> \<lparr>v6 = True, hi = 0, lo = 0x1000000000000\<rparr> =
     Some [Cidr \<lparr>v6 = True, hi = 0, lo = 0xfffeffffffff\<rparr> 128, Cidr mapped_block 96,
           Cidr \<lparr>v6 = True, hi = 0, lo = 0x1000000000000\<rparr> 128] \<and>
   Network (Cidr mapped_block 96) = None"
proof -
  note ev = cover_loop.simps cover_align_def cover_fit_def cover_end_def cover_next_def countr_zero_def
    bit_width_def trailing_zeros.simps binary_length.simps
  have "CoverRange \<lparr>v6 = True, hi = 0, lo = 0xfffeffffffff\<rparr> \<lparr>v6 = True, hi = 0, lo = 0x1000000000000\<rparr> =
     Some [Cidr \<lparr>v6 = True, hi = 0, lo = 0xfffeffffffff\<rparr> 128, Cidr mapped_block 96,
           Cidr \<lparr>v6 = True, hi = 0, lo = 0x1000000000000\<rparr> 128]"
    by (simp add: CoverRange_def Bits_def ev mapped_block_def Let_def)
  then show ?thesis using Network_mapped_block by blast
qed

end
