(* ===== verification/SubscriptionReconcile.thy ===== *)
theory SubscriptionReconcile
  imports Prelude
begin

text \<open>
  The diff of a subscription refresh (\<^verbatim>\<open>src/configs/sub/SubscriptionReconcile.cpp\<close>) and the sink that
  feeds it (\<^verbatim>\<open>ImportSink\<close> in \<^verbatim>\<open>src/configs/sub/GroupUpdater.cpp\<close>): arrivals that equal an old
  profile reuse its row, the rest are inserted in chunks, and \<open>Reconcile\<close> pairs what is left by
  identity. The digests \<^verbatim>\<open>contentKeyOf\<close> and \<^verbatim>\<open>identityKeyOf\<close> come with the arrival, and the
  answer of \<^verbatim>\<open>AddProfileBatch\<close> (the row ids, or a failure) is an argument of the flush. A
  \<^verbatim>\<open>QHash\<close> from keys to lists is a function that is empty where the key is absent, a \<^verbatim>\<open>QSet\<close> the
  list of what was inserted.
\<close>

section \<open>Data\<close>

type_synonym digest = "nat list"

record ProfileKeys =
  content :: digest
  identity :: digest

record OldEntry =
  o_id :: int
  o_keys :: ProfileKeys
  o_display :: qstring

record NewEntry =
  n_id :: int
  reused :: bool
  contentKnown :: bool
  n_keys :: ProfileKeys
  n_display :: qstring

record ContentIndex =
  unclaimed :: "digest \<Rightarrow> int list"
  known :: "digest list"
  arrivals :: "digest list"
  claimedIds :: "int list"

record ReconcilePlan =
  pl_order :: "int list"
  pl_updates :: "(int \<times> int) list"
  pl_stale :: "int list"
  pl_added :: "qstring list"
  pl_updated :: "qstring list"
  pl_deleted :: "qstring list"

section \<open>The content index\<close>

definition index_entry :: "ContentIndex \<Rightarrow> OldEntry \<Rightarrow> ContentIndex" where
  "index_entry ix e =
     (let k = content (o_keys e)
      in ix\<lparr>unclaimed := (unclaimed ix)(k := unclaimed ix k @ [o_id e]), known := k # known ix\<rparr>)"

definition ContentIndex_of :: "OldEntry list \<Rightarrow> ContentIndex" where
  "ContentIndex_of old =
     foldl index_entry \<lparr>unclaimed = (\<lambda>_. []), known = [], arrivals = [], claimedIds = []\<rparr> old"

definition knows :: "ContentIndex \<Rightarrow> digest \<Rightarrow> bool" where
  "knows ix k \<longleftrightarrow> k \<in> set (known ix)"

definition claim :: "ContentIndex \<Rightarrow> digest \<Rightarrow> int option \<times> ContentIndex" where
  "claim ix k =
     (case unclaimed ix k of
        [] \<Rightarrow> (None, ix)
      | i # is \<Rightarrow> (Some i, ix\<lparr>unclaimed := (unclaimed ix)(k := is), claimedIds := i # claimedIds ix\<rparr>))"

definition noteArrival :: "ContentIndex \<Rightarrow> digest \<Rightarrow> ContentIndex" where
  "noteArrival ix k = ix\<lparr>arrivals := k # arrivals ix\<rparr>"

definition arrived :: "ContentIndex \<Rightarrow> digest \<Rightarrow> bool" where
  "arrived ix k \<longleftrightarrow> k \<in> set (arrivals ix)"

definition isClaimed :: "ContentIndex \<Rightarrow> int \<Rightarrow> bool" where
  "isClaimed ix i \<longleftrightarrow> i \<in> set (claimedIds ix)"

section \<open>Reconcile\<close>

definition leftover_step :: "ContentIndex \<Rightarrow> (digest \<Rightarrow> int list) \<Rightarrow> OldEntry \<Rightarrow> digest \<Rightarrow> int list" where
  "leftover_step ix left e =
     (if isClaimed ix (o_id e) \<or> arrived ix (content (o_keys e)) then left
      else left(identity (o_keys e) := left (identity (o_keys e)) @ [o_id e]))"

text \<open>The variables of the pairing loop.\<close>

record pairing =
  leftoverByIdentity :: "digest \<Rightarrow> int list"
  supersededBy :: "int \<rightharpoonup> int"
  matchedOld :: "int list"
  plan :: ReconcilePlan

definition pair_step :: "pairing \<Rightarrow> NewEntry \<Rightarrow> pairing" where
  "pair_step p e =
     (if n_id e < 0 \<or> reused e \<or> contentKnown e then p
      else case leftoverByIdentity p (identity (n_keys e)) of
        [] \<Rightarrow> p
      | oldId # rest \<Rightarrow>
          p\<lparr>leftoverByIdentity := (leftoverByIdentity p)(identity (n_keys e) := rest),
            plan := (plan p)\<lparr>pl_updates := pl_updates (plan p) @ [(oldId, n_id e)],
                             pl_updated := pl_updated (plan p) @ [n_display e]\<rparr>,
            supersededBy := (supersededBy p)(n_id e \<mapsto> oldId),
            matchedOld := oldId # matchedOld p\<rparr>)"

definition stale_step :: "ContentIndex \<Rightarrow> int list \<Rightarrow> ReconcilePlan \<Rightarrow> OldEntry \<Rightarrow> ReconcilePlan" where
  "stale_step ix matched pl e =
     (if isClaimed ix (o_id e) \<or> o_id e \<in> set matched then pl
      else pl\<lparr>pl_stale := pl_stale pl @ [o_id e], pl_deleted := pl_deleted pl @ [o_display e]\<rparr>)"

definition order_step :: "(int \<rightharpoonup> int) \<Rightarrow> ReconcilePlan \<Rightarrow> NewEntry \<Rightarrow> ReconcilePlan" where
  "order_step superseded pl e =
     (if n_id e < 0 then pl
      else if reused e then pl\<lparr>pl_order := pl_order pl @ [n_id e]\<rparr>
      else case superseded (n_id e) of
        Some oldId \<Rightarrow> pl\<lparr>pl_order := pl_order pl @ [oldId], pl_stale := pl_stale pl @ [n_id e]\<rparr>
      | None \<Rightarrow> pl\<lparr>pl_order := pl_order pl @ [n_id e], pl_added := pl_added pl @ [n_display e]\<rparr>)"

definition empty_plan :: ReconcilePlan where
  "empty_plan =
     \<lparr>pl_order = [], pl_updates = [], pl_stale = [], pl_added = [], pl_updated = [], pl_deleted = []\<rparr>"

definition pairing_of :: "OldEntry list \<Rightarrow> NewEntry list \<Rightarrow> ContentIndex \<Rightarrow> pairing" where
  "pairing_of old incoming ix =
     foldl pair_step
       \<lparr>leftoverByIdentity = foldl (leftover_step ix) (\<lambda>_. []) old, supersededBy = Map.empty,
        matchedOld = [], plan = empty_plan\<rparr> incoming"

definition Reconcile :: "OldEntry list \<Rightarrow> NewEntry list \<Rightarrow> ContentIndex \<Rightarrow> ReconcilePlan" where
  "Reconcile old incoming ix =
     (let p = pairing_of old incoming ix
      in foldl (order_step (supersededBy p)) (foldl (stale_step ix (matchedOld p)) (plan p) old) incoming)"

section \<open>The import sink\<close>

definition kInsertChunk :: nat where "kInsertChunk = 500"

text \<open>An arrival is what \<open>add\<close> reads off the profile: its two digests and its display text.\<close>

record Arrival =
  a_keys :: ProfileKeys
  a_display :: qstring

text \<open>\<open>chunk\<close> is the number of profiles waiting, \<open>entryIndex\<close> where their entries are.\<close>

record ImportSink =
  entries :: "NewEntry list"
  added :: "int list"
  index :: ContentIndex
  chunk :: "Arrival list"
  entryIndex :: "nat list"

definition set_id :: "NewEntry list \<Rightarrow> nat \<times> int \<Rightarrow> NewEntry list" where
  "set_id es p = es[fst p := (es ! fst p)\<lparr>n_id := snd p\<rparr>]"

definition flush :: "ImportSink \<Rightarrow> int list option \<Rightarrow> ImportSink" where
  "flush s rows =
     (if chunk s = [] then s
      else (let s = (case rows of
                None \<Rightarrow> s
              | Some ids \<Rightarrow>
                  s\<lparr>entries := foldl set_id (entries s) (zip (entryIndex s) ids),
                    added := added s @ take (length (entryIndex s)) ids\<rparr>)
            in s\<lparr>chunk := [], entryIndex := []\<rparr>))"

text \<open>\<open>rows\<close> is the answer of the batch insert, should this arrival fill the chunk.\<close>

definition add :: "ImportSink \<Rightarrow> Arrival \<Rightarrow> int list option \<Rightarrow> ImportSink" where
  "add s ent rows =
     (let k = content (a_keys ent);
          ix = noteArrival (index s) k;
          isKnown = knows ix k;
          (claimed, ix) = claim ix k
      in case claimed of
           Some oldId \<Rightarrow>
             s\<lparr>index := ix,
               entries := entries s @ [\<lparr>n_id = oldId, reused = True, contentKnown = isKnown,
                 n_keys = \<lparr>content = k, identity = []\<rparr>, n_display = a_display ent\<rparr>]\<rparr>
         | None \<Rightarrow>
             (let s = s\<lparr>index := ix, entryIndex := entryIndex s @ [length (entries s)],
                  entries := entries s @ [\<lparr>n_id = -1, reused = False, contentKnown = isKnown,
                    n_keys = \<lparr>content = k, identity = (if isKnown then [] else identity (a_keys ent))\<rparr>,
                    n_display = a_display ent\<rparr>],
                  chunk := chunk s @ [ent]\<rparr>
              in if kInsertChunk \<le> length (chunk s) then flush s rows else s))"

definition storedIds :: "ImportSink \<Rightarrow> int list" where
  "storedIds s = map n_id (filter (\<lambda>e. 0 \<le> n_id e) (entries s))"

section \<open>The pairing\<close>

lemma leftover_spec:
  "foldl (leftover_step ix) f old k =
     f k @ map o_id (filter (\<lambda>e. \<not> isClaimed ix (o_id e) \<and> \<not> arrived ix (content (o_keys e)) \<and>
       identity (o_keys e) = k) old)"
  by (induction old arbitrary: f) (auto simp: leftover_step_def)

text \<open>What holds of the pairing loop after any of the arrivals.\<close>

definition fresh :: "NewEntry \<Rightarrow> bool" where
  "fresh e \<longleftrightarrow> 0 \<le> n_id e \<and> \<not> reused e"

definition pairing_ok :: "int set \<Rightarrow> NewEntry list \<Rightarrow> pairing \<Rightarrow> bool" where
  "pairing_ok free seen p \<longleftrightarrow>
     (\<forall>k. distinct (leftoverByIdentity p k) \<and> set (leftoverByIdentity p k) \<subseteq> free - set (matchedOld p)) \<and>
     (\<forall>j k. j \<noteq> k \<longrightarrow> set (leftoverByIdentity p j) \<inter> set (leftoverByIdentity p k) = {}) \<and>
     distinct (matchedOld p) \<and> set (matchedOld p) \<subseteq> free \<and>
     rev (matchedOld p) = map fst (pl_updates (plan p)) \<and>
     dom (supersededBy p) \<subseteq> n_id ` {e \<in> set seen. fresh e} \<and>
     map (\<lambda>(old, new). (new, Some old)) (pl_updates (plan p)) =
       map (\<lambda>e. (n_id e, supersededBy p (n_id e)))
         (filter (\<lambda>e. fresh e \<and> supersededBy p (n_id e) \<noteq> None) seen) \<and>
     pl_order (plan p) = [] \<and> pl_stale (plan p) = []"

lemma pair_step_ok:
  assumes ok: "pairing_ok free seen p" and new: "fresh e \<Longrightarrow> n_id e \<notin> n_id ` {e \<in> set seen. fresh e}"
  shows "pairing_ok free (seen @ [e]) (pair_step p e)"
proof (cases "(n_id e < 0 \<or> reused e \<or> contentKnown e) \<or> leftoverByIdentity p (identity (n_keys e)) = []")
  case True
  have "dom (supersededBy p) \<subseteq> n_id ` {e \<in> set seen. fresh e}" using ok by (simp add: pairing_ok_def)
  then have none: "supersededBy p (n_id e) = None" if "fresh e" using new [OF that] by blast
  from True have "pair_step p e = p" by (auto simp: pair_step_def)
  with ok none show ?thesis by (auto simp: pairing_ok_def)
next
  case False
  let ?k = "identity (n_keys e)"
  from False obtain old rest where l: "leftoverByIdentity p ?k = old # rest"
    by (cases "leftoverByIdentity p ?k") auto
  have f: "fresh e" using False by (auto simp: fresh_def)
  have step: "pair_step p e =
      p\<lparr>leftoverByIdentity := (leftoverByIdentity p)(?k := rest),
        plan := (plan p)\<lparr>pl_updates := pl_updates (plan p) @ [(old, n_id e)],
                         pl_updated := pl_updated (plan p) @ [n_display e]\<rparr>,
        supersededBy := (supersededBy p)(n_id e \<mapsto> old), matchedOld := old # matchedOld p\<rparr>"
    using False l by (simp add: pair_step_def)
  have old: "old \<in> free" "old \<notin> set (matchedOld p)" "old \<notin> set rest" "distinct rest"
    "set rest \<subseteq> free - set (matchedOld p)"
    using ok l unfolding pairing_ok_def by (metis (no_types, lifting) DiffD1 list.set_intros(1) subsetD,
      metis (no_types, lifting) DiffD2 list.set_intros(1) subsetD, metis distinct.simps(2),
      metis distinct.simps(2), metis (no_types, lifting) dual_order.trans set_subset_Cons)
  have other: "k \<noteq> ?k \<Longrightarrow> old \<notin> set (leftoverByIdentity p k)" for k
    using ok l unfolding pairing_ok_def by (metis disjoint_iff list.set_intros(1))
  have left: "distinct (((leftoverByIdentity p)(?k := rest)) k) \<and>
      set (((leftoverByIdentity p)(?k := rest)) k) \<subseteq> free - set (old # matchedOld p)" for k
    using ok old other [of k] unfolding pairing_ok_def by (cases "k = ?k") auto
  have disj: "j \<noteq> k \<Longrightarrow> set (((leftoverByIdentity p)(?k := rest)) j) \<inter>
      set (((leftoverByIdentity p)(?k := rest)) k) = {}" for j k
    using ok l unfolding pairing_ok_def by (metis (no_types, lifting) Int_insert_left_if0 Int_commute
      fun_upd_apply inf_bot_left insert_disjoint(1) list.simps(15))
  have ne: "x \<in> set seen \<Longrightarrow> fresh x \<Longrightarrow> n_id x \<noteq> n_id e" for x
    using new [OF f] by (metis (mono_tags, lifting) image_eqI mem_Collect_eq)
  have keep: "filter (\<lambda>x. fresh x \<and> ((supersededBy p)(n_id e \<mapsto> old)) (n_id x) \<noteq> None) seen =
      filter (\<lambda>x. fresh x \<and> supersededBy p (n_id x) \<noteq> None) seen"
    using ne by (intro filter_cong) auto
  have keep': "map (\<lambda>x. (n_id x, ((supersededBy p)(n_id e \<mapsto> old)) (n_id x)))
      (filter (\<lambda>x. fresh x \<and> supersededBy p (n_id x) \<noteq> None) seen) =
      map (\<lambda>x. (n_id x, supersededBy p (n_id x)))
      (filter (\<lambda>x. fresh x \<and> supersededBy p (n_id x) \<noteq> None) seen)"
    using ne by (intro map_cong) auto
  show ?thesis
    unfolding step pairing_ok_def
    using ok left disj old f keep keep'
    by (simp add: pairing_ok_def) blast
qed

lemma pairing_run_ok:
  assumes "pairing_ok free seen p" "distinct (map n_id (filter fresh (seen @ inc)))"
  shows "pairing_ok free (seen @ inc) (foldl pair_step p inc)"
  using assms
proof (induction inc arbitrary: seen p)
  case (Cons e inc)
  have "n_id e \<notin> n_id ` {e \<in> set seen. fresh e}" if "fresh e" using Cons.prems(2) that by auto
  then have "pairing_ok free (seen @ [e]) (pair_step p e)" using Cons.prems(1) by (intro pair_step_ok)
  from Cons.IH [OF this] Cons.prems(2) show ?case by simp
qed simp

section \<open>The plan\<close>

text \<open>
  What the sink guarantees to \<open>Reconcile\<close>: the rows have ids of their own, the reused entries are
  the claimed rows, each once, and the inserted rows are new.
\<close>

definition arrivals_ok :: "OldEntry list \<Rightarrow> NewEntry list \<Rightarrow> ContentIndex \<Rightarrow> bool" where
  "arrivals_ok old incoming ix \<longleftrightarrow>
     distinct (map o_id old) \<and> (\<forall>e \<in> set old. 0 \<le> o_id e) \<and>
     (\<forall>e \<in> set incoming. reused e \<longrightarrow> 0 \<le> n_id e) \<and>
     distinct (map n_id (filter reused incoming)) \<and>
     set (map n_id (filter reused incoming)) = set (claimedIds ix) \<and>
     set (claimedIds ix) \<subseteq> set (map o_id old) \<and>
     distinct (map n_id (filter fresh incoming)) \<and>
     set (map n_id (filter fresh incoming)) \<inter> set (map o_id old) = {}"

definition free_ids :: "OldEntry list \<Rightarrow> ContentIndex \<Rightarrow> int list" where
  "free_ids old ix = filter (\<lambda>i. \<not> isClaimed ix i) (map o_id old)"

lemma pairing_of_ok:
  assumes "arrivals_ok old incoming ix"
  shows "pairing_ok (set (free_ids old ix)) incoming (pairing_of old incoming ix)"
proof -
  let ?left = "foldl (leftover_step ix) (\<lambda>_. []) old"
  have d: "distinct (map o_id old)" "distinct (map n_id (filter fresh incoming))"
    using assms by (simp_all add: arrivals_ok_def)
  have dist: "distinct (?left k)" "set (?left k) \<subseteq> set (free_ids old ix)" for k
    using d(1) by (auto simp: leftover_spec free_ids_def distinct_map_filter)
  have disj: "j \<noteq> k \<Longrightarrow> set (?left j) \<inter> set (?left k) = {}" for j k
    using d(1) by (auto simp: leftover_spec distinct_map dest: inj_onD)
  have "pairing_ok (set (free_ids old ix)) []
      \<lparr>leftoverByIdentity = ?left, supersededBy = Map.empty, matchedOld = [], plan = empty_plan\<rparr>"
    using dist disj by (simp add: pairing_ok_def empty_plan_def)
  from pairing_run_ok [OF this, of incoming] d(2) show ?thesis by (simp add: pairing_of_def)
qed

lemma stale_run:
  "pl_stale (foldl (stale_step ix m) pl old) =
     pl_stale pl @ filter (\<lambda>i. \<not> isClaimed ix i \<and> i \<notin> set m) (map o_id old)"
  "pl_order (foldl (stale_step ix m) pl old) = pl_order pl"
  "pl_updates (foldl (stale_step ix m) pl old) = pl_updates pl"
  by (induction old arbitrary: pl) (auto simp: stale_step_def)

lemma order_run:
  "mset (pl_order (foldl (order_step f) pl inc)) + mset (pl_stale (foldl (order_step f) pl inc)) =
     mset (pl_order pl) + mset (pl_stale pl) +
     mset (map n_id (filter (\<lambda>e. reused e \<and> 0 \<le> n_id e) inc)) + mset (map n_id (filter fresh inc)) +
     mset (map (\<lambda>e. the (f (n_id e))) (filter (\<lambda>e. fresh e \<and> f (n_id e) \<noteq> None) inc))"
  by (induction inc arbitrary: pl) (auto simp: order_step_def fresh_def split: option.splits)

lemma order_run_updates: "pl_updates (foldl (order_step f) pl inc) = pl_updates pl"
  by (induction inc arbitrary: pl) (auto simp: order_step_def split: option.splits)

lemma order_run_order:
  "pl_order (foldl (order_step f) pl inc) =
     pl_order pl @ map (\<lambda>e. if reused e then n_id e else case f (n_id e) of None \<Rightarrow> n_id e | Some i \<Rightarrow> i)
       (filter (\<lambda>e. 0 \<le> n_id e) inc)"
  by (induction inc arbitrary: pl) (auto simp: order_step_def split: option.splits)

lemma mset_distinct_eq: "distinct xs \<Longrightarrow> distinct ys \<Longrightarrow> set xs = set ys \<Longrightarrow> mset xs = mset ys"
  by (simp add: set_eq_iff_mset_eq_distinct)

lemma Reconcile_partition:
  assumes ok: "arrivals_ok old incoming ix"
  shows "mset (pl_order (Reconcile old incoming ix)) + mset (pl_stale (Reconcile old incoming ix)) =
           mset (map o_id old) + mset (map n_id (filter fresh incoming))"
proof -
  define p where "p = pairing_of old incoming ix"
  define m where "m = matchedOld p"
  let ?ids = "map o_id old"
  have pok: "pairing_ok (set (free_ids old ix)) incoming p" unfolding p_def by (rule pairing_of_ok [OF ok])
  have m: "distinct m" "set m \<subseteq> set (free_ids old ix)" "rev m = map fst (pl_updates (plan p))"
    "pl_order (plan p) = []" "pl_stale (plan p) = []"
    using pok by (auto simp: pairing_ok_def m_def)
  have "map (\<lambda>(old, new). (new, Some old)) (pl_updates (plan p)) =
      map (\<lambda>e. (n_id e, supersededBy p (n_id e))) (filter (\<lambda>e. fresh e \<and> supersededBy p (n_id e) \<noteq> None) incoming)"
    using pok by (simp add: pairing_ok_def)
  then have "map (the \<circ> snd) (map (\<lambda>(old, new). (new, Some old)) (pl_updates (plan p))) =
      map (the \<circ> snd) (map (\<lambda>e. (n_id e, supersededBy p (n_id e)))
        (filter (\<lambda>e. fresh e \<and> supersededBy p (n_id e) \<noteq> None) incoming))" by (rule arg_cong)
  then have sup: "map (\<lambda>e. the (supersededBy p (n_id e))) (filter (\<lambda>e. fresh e \<and> supersededBy p (n_id e) \<noteq> None) incoming) =
      rev m" unfolding m(3) by (simp add: comp_def split_def)
  have d: "distinct ?ids" using ok by (simp add: arrivals_ok_def)
  have reuse: "filter (\<lambda>e. reused e \<and> 0 \<le> n_id e) incoming = filter reused incoming"
    using ok by (intro filter_cong) (auto simp: arrivals_ok_def)
  have c: "mset (map n_id (filter reused incoming)) = mset (filter (isClaimed ix) ?ids)"
    using ok d by (intro mset_distinct_eq) (auto simp: arrivals_ok_def isClaimed_def)
  have f: "mset (rev m) = mset (filter (\<lambda>i. \<not> isClaimed ix i \<and> i \<in> set m) ?ids)"
    using m(1,2) d by (intro mset_distinct_eq) (auto simp: free_ids_def)
  have split: "mset ?ids = mset (filter (isClaimed ix) ?ids) +
      mset (filter (\<lambda>i. \<not> isClaimed ix i \<and> i \<in> set m) ?ids) +
      mset (filter (\<lambda>i. \<not> isClaimed ix i \<and> i \<notin> set m) ?ids)"
    by (induction old) auto
  show ?thesis
    unfolding Reconcile_def Let_def p_def [symmetric] m_def [symmetric] order_run stale_run reuse sup c f
    using split by (simp add: m(4,5) ac_simps)
qed

lemma order_run_stale:
  "pl_stale (foldl (order_step f) pl inc) =
     pl_stale pl @ map n_id (filter (\<lambda>e. fresh e \<and> f (n_id e) \<noteq> None) inc)"
  by (induction inc arbitrary: pl) (auto simp: order_step_def fresh_def split: option.splits)

lemma Reconcile_updates:
  assumes ok: "arrivals_ok old incoming ix" and up: "(i, j) \<in> set (pl_updates (Reconcile old incoming ix))"
  shows "i \<in> set (free_ids old ix) \<and> i \<in> set (pl_order (Reconcile old incoming ix)) \<and>
    j \<in> set (pl_stale (Reconcile old incoming ix))"
proof -
  define p where "p = pairing_of old incoming ix"
  have pok: "pairing_ok (set (free_ids old ix)) incoming p" unfolding p_def by (rule pairing_of_ok [OF ok])
  have u: "(i, j) \<in> set (pl_updates (plan p))"
    using up by (simp add: Reconcile_def Let_def p_def order_run_updates stale_run)
  then have "i \<in> set (map fst (pl_updates (plan p)))" by force
  moreover have "rev (matchedOld p) = map fst (pl_updates (plan p))" using pok by (simp add: pairing_ok_def)
  ultimately have "i \<in> set (matchedOld p)" by (metis set_rev)
  then have free: "i \<in> set (free_ids old ix)" using pok by (auto simp: pairing_ok_def)
  from u have "(j, Some i) \<in> set (map (\<lambda>(old, new). (new, Some old)) (pl_updates (plan p)))" by force
  then have "(j, Some i) \<in> set (map (\<lambda>e. (n_id e, supersededBy p (n_id e)))
      (filter (\<lambda>e. fresh e \<and> supersededBy p (n_id e) \<noteq> None) incoming))"
    using pok by (simp only: pairing_ok_def)
  then obtain e where e: "e \<in> set incoming" "fresh e" "n_id e = j" "supersededBy p j = Some i" by auto
  then have "i \<in> set (pl_order (Reconcile old incoming ix))" "j \<in> set (pl_stale (Reconcile old incoming ix))"
    by (force simp: Reconcile_def Let_def p_def [symmetric] order_run_order order_run_stale fresh_def)+
  with free show ?thesis by blast
qed

section \<open>The sink\<close>

definition sink_start :: "OldEntry list \<Rightarrow> ImportSink" where
  "sink_start old =
     \<lparr>entries = [], added = [], index = ContentIndex_of old, chunk = [], entryIndex = []\<rparr>"

text \<open>
  What the database is relied on for: an insert fails as a whole, or gives every row of the chunk a
  row id that is not negative and that no other row has.
\<close>

definition rows_ok :: "OldEntry list \<Rightarrow> ImportSink \<Rightarrow> nat \<Rightarrow> int list option \<Rightarrow> bool" where
  "rows_ok old s n rows \<longleftrightarrow>
     (case rows of
        None \<Rightarrow> True
      | Some ids \<Rightarrow> length ids = n \<and> distinct ids \<and>
          (\<forall>i \<in> set ids. 0 \<le> i \<and> i \<notin> set (map o_id old) \<and> i \<notin> set (added s)))"

inductive sink_reach :: "OldEntry list \<Rightarrow> ImportSink \<Rightarrow> bool" for old where
  start: "sink_reach old (sink_start old)"
| arrive: "sink_reach old s \<Longrightarrow> rows_ok old s (Suc (length (chunk s))) rows \<Longrightarrow> sink_reach old (add s ent rows)"
| flush: "sink_reach old s \<Longrightarrow> rows_ok old s (length (chunk s)) rows \<Longrightarrow> sink_reach old (flush s rows)"

definition index_ok :: "OldEntry list \<Rightarrow> ContentIndex \<Rightarrow> bool" where
  "index_ok old ix \<longleftrightarrow>
     (\<forall>k. distinct (unclaimed ix k) \<and> set (unclaimed ix k) \<subseteq> set (map o_id old) - set (claimedIds ix)) \<and>
     (\<forall>j k. j \<noteq> k \<longrightarrow> set (unclaimed ix j) \<inter> set (unclaimed ix k) = {}) \<and>
     distinct (claimedIds ix) \<and> set (claimedIds ix) \<subseteq> set (map o_id old)"

lemma index_run:
  "unclaimed (foldl index_entry ix old) k =
     unclaimed ix k @ map o_id (filter (\<lambda>e. content (o_keys e) = k) old)"
  "claimedIds (foldl index_entry ix old) = claimedIds ix"
  by (induction old arbitrary: ix) (auto simp: index_entry_def Let_def)

lemma ContentIndex_of_ok:
  assumes "distinct (map o_id old)"
  shows "index_ok old (ContentIndex_of old)"
proof -
  have "inj_on o_id (set old)" using assms by (simp add: distinct_map)
  then show ?thesis
    using assms by (auto simp: index_ok_def ContentIndex_of_def index_run distinct_map_filter dest: inj_onD)
qed

lemma claim_ok:
  assumes "index_ok old ix" "claim ix k = (Some i, ix')"
  shows "index_ok old ix' \<and> i \<in> set (map o_id old) \<and> claimedIds ix' = i # claimedIds ix"
proof -
  from assms(2) obtain rest where u: "unclaimed ix k = i # rest"
    and ix': "ix' = ix\<lparr>unclaimed := (unclaimed ix)(k := rest), claimedIds := i # claimedIds ix\<rparr>"
    by (auto simp: claim_def split: list.splits)
  have k: "distinct (i # rest)" "set (i # rest) \<subseteq> set (map o_id old) - set (claimedIds ix)"
    using assms(1) u unfolding index_ok_def by metis+
  have other: "j \<noteq> k \<Longrightarrow> i \<notin> set (unclaimed ix j)" for j
    using assms(1) u unfolding index_ok_def by (metis disjoint_iff list.set_intros(1))
  have "distinct (((unclaimed ix)(k := rest)) j) \<and>
      set (((unclaimed ix)(k := rest)) j) \<subseteq> set (map o_id old) - set (i # claimedIds ix)" for j
    using assms(1) k other [of j] unfolding index_ok_def by (cases "j = k") auto
  moreover have "j \<noteq> l \<Longrightarrow> set (((unclaimed ix)(k := rest)) j) \<inter> set (((unclaimed ix)(k := rest)) l) = {}" for j l
    using assms(1) u unfolding index_ok_def
    by (metis (no_types, lifting) disjoint_iff fun_upd_apply list.set_intros(2))
  ultimately show ?thesis using assms(1) k unfolding index_ok_def ix' by auto
qed

lemma claim_None: "claim ix k = (None, ix') \<Longrightarrow> ix' = ix"
  by (auto simp: claim_def split: list.splits)

definition sink_ok :: "OldEntry list \<Rightarrow> ImportSink \<Rightarrow> bool" where
  "sink_ok old s \<longleftrightarrow>
     index_ok old (index s) \<and>
     map n_id (filter reused (entries s)) = rev (claimedIds (index s)) \<and>
     mset (map n_id (filter fresh (entries s))) = mset (added s) \<and>
     distinct (added s) \<and> set (added s) \<inter> set (map o_id old) = {} \<and>
     distinct (entryIndex s) \<and> length (chunk s) = length (entryIndex s) \<and>
     (\<forall>i \<in> set (entryIndex s). i < length (entries s) \<and> n_id (entries s ! i) = -1 \<and> \<not> reused (entries s ! i))"

lemma set_id_split:
  assumes "i < length es" "\<not> reused (es ! i)" "n_id (es ! i) = -1" "0 \<le> x"
  shows "filter reused (set_id es (i, x)) = filter reused es"
    "mset (map n_id (filter fresh (set_id es (i, x)))) = mset (map n_id (filter fresh es)) + {#x#}"
proof -
  have es: "es = take i es @ es ! i # drop (Suc i) es" using assms(1) by (rule id_take_nth_drop)
  have upd: "set_id es (i, x) = take i es @ (es ! i)\<lparr>n_id := x\<rparr> # drop (Suc i) es"
    using assms(1) by (simp add: set_id_def upd_conv_take_nth_drop)
  show "filter reused (set_id es (i, x)) = filter reused es"
    by (subst (2) es) (simp add: upd assms(2))
  show "mset (map n_id (filter fresh (set_id es (i, x)))) = mset (map n_id (filter fresh es)) + {#x#}"
    by (subst (2) es) (simp add: upd fresh_def assms(2-4))
qed

lemma set_ids:
  assumes "distinct is" "length is = length xs" "\<forall>x \<in> set xs. 0 \<le> x"
    "\<forall>i \<in> set is. i < length es \<and> n_id (es ! i) = -1 \<and> \<not> reused (es ! i)"
  shows "filter reused (foldl set_id es (zip is xs)) = filter reused es \<and>
    mset (map n_id (filter fresh (foldl set_id es (zip is xs)))) = mset (map n_id (filter fresh es)) + mset xs"
  using assms
proof (induction "is" arbitrary: es xs)
  case (Cons i "is")
  then obtain x ys where xs: "xs = x # ys" by (cases xs) auto
  let ?es = "set_id es (i, x)"
  note one = set_id_split [of i es x]
  have "\<forall>j \<in> set is. j < length ?es \<and> n_id (?es ! j) = -1 \<and> \<not> reused (?es ! j)"
    using Cons.prems by (auto simp: set_id_def nth_list_update)
  then have "filter reused (foldl set_id ?es (zip is ys)) = filter reused ?es \<and>
      mset (map n_id (filter fresh (foldl set_id ?es (zip is ys)))) = mset (map n_id (filter fresh ?es)) + mset ys"
    using Cons.prems xs by (intro Cons.IH) auto
  with one Cons.prems xs show ?case by simp
qed simp

lemma flush_ok:
  assumes "sink_ok old s" "rows_ok old s (length (chunk s)) rows"
  shows "sink_ok old (flush s rows)"
proof (cases "chunk s = [] \<or> rows = None")
  case True
  with assms(1) show ?thesis by (auto simp: flush_def sink_ok_def Let_def)
next
  case False
  then obtain ids where r: "rows = Some ids" and ne: "chunk s \<noteq> []" by auto
  have ids: "length ids = length (entryIndex s)" "distinct ids"
    "\<forall>i \<in> set ids. 0 \<le> i \<and> i \<notin> set (map o_id old) \<and> i \<notin> set (added s)"
    using assms by (simp_all add: rows_ok_def r sink_ok_def)
  have fl: "flush s rows = s\<lparr>entries := foldl set_id (entries s) (zip (entryIndex s) ids),
      added := added s @ ids, chunk := [], entryIndex := []\<rparr>"
    using ne ids(1) by (simp add: flush_def r Let_def)
  have "filter reused (foldl set_id (entries s) (zip (entryIndex s) ids)) = filter reused (entries s) \<and>
      mset (map n_id (filter fresh (foldl set_id (entries s) (zip (entryIndex s) ids)))) =
      mset (map n_id (filter fresh (entries s))) + mset ids"
    using assms(1) ids by (intro set_ids) (simp_all add: sink_ok_def)
  with assms(1) ids show ?thesis unfolding fl by (auto simp: sink_ok_def)
qed

lemma noteArrival_index:
  "unclaimed (noteArrival ix k) = unclaimed ix" "claimedIds (noteArrival ix k) = claimedIds ix"
  "index_ok old (noteArrival ix k) = index_ok old ix"
  by (simp_all add: noteArrival_def index_ok_def)

lemma add_ok:
  assumes "sink_ok old s" "\<forall>e \<in> set old. 0 \<le> o_id e" "rows_ok old s (Suc (length (chunk s))) rows"
  shows "sink_ok old (add s ent rows)"
proof -
  let ?k = "content (a_keys ent)"
  define ix where "ix = noteArrival (index s) ?k"
  obtain c ix' where c: "claim ix ?k = (c, ix')" by (cases "claim ix ?k")
  have iok: "index_ok old ix" "claimedIds ix = claimedIds (index s)"
    using assms(1) by (simp_all add: ix_def noteArrival_index sink_ok_def)
  show ?thesis
  proof (cases c)
    case (Some i)
    note cl = claim_ok [OF iok(1) c [unfolded Some]]
    with assms(1) iok(2) Some show ?thesis
      by (auto simp: add_def ix_def [symmetric] c Let_def sink_ok_def fresh_def nth_append)
  next
    case None
    define e where "e = \<lparr>n_id = -1, reused = False, contentKnown = knows ix ?k,
        n_keys = \<lparr>content = ?k, identity = (if knows ix ?k then [] else identity (a_keys ent))\<rparr>,
        n_display = a_display ent\<rparr>"
    define t where "t = s\<lparr>index := ix', entryIndex := entryIndex s @ [length (entries s)],
        entries := entries s @ [e], chunk := chunk s @ [ent]\<rparr>"
    have a: "add s ent rows = (if kInsertChunk \<le> length (chunk t) then flush t rows else t)"
      by (simp add: add_def ix_def [symmetric] c None Let_def t_def e_def)
    have "ix' = ix" using c None claim_None by simp
    then have t: "sink_ok old t"
      using assms(1) iok by (auto simp: sink_ok_def t_def e_def fresh_def nth_append)
    moreover have "rows_ok old t (length (chunk t)) rows"
      using assms(3) by (simp add: rows_ok_def t_def split: option.splits)
    ultimately show ?thesis unfolding a by (simp add: flush_ok)
  qed
qed

lemma sink_reach_ok:
  assumes "sink_reach old s" "distinct (map o_id old)" "\<forall>e \<in> set old. 0 \<le> o_id e"
  shows "sink_ok old s"
  using assms
proof (induction rule: sink_reach.induct)
  case start
  then show ?case by (simp add: sink_start_def sink_ok_def ContentIndex_of_ok)
      (simp add: ContentIndex_of_def index_run)
qed (simp_all add: add_ok flush_ok)

lemma sink_arrivals_ok:
  assumes "sink_ok old s" "distinct (map o_id old)" "\<forall>e \<in> set old. 0 \<le> o_id e"
  shows "arrivals_ok old (entries s) (index s)"
proof -
  have r: "map n_id (filter reused (entries s)) = rev (claimedIds (index s))"
    and f: "mset (map n_id (filter fresh (entries s))) = mset (added s)"
    and a: "distinct (added s)" "set (added s) \<inter> set (map o_id old) = {}"
    and ix: "distinct (claimedIds (index s))" "set (claimedIds (index s)) \<subseteq> set (map o_id old)"
    using assms(1) by (simp_all add: sink_ok_def index_ok_def)
  have "\<forall>e \<in> set (entries s). reused e \<longrightarrow> 0 \<le> n_id e"
  proof (intro ballI impI)
    fix e
    assume "e \<in> set (entries s)" "reused e"
    then have "n_id e \<in> set (map n_id (filter reused (entries s)))" by simp
    with r ix(2) assms(3) show "0 \<le> n_id e" by auto
  qed
  moreover have "distinct (map n_id (filter fresh (entries s)))"
    using f a(1) by (metis mset_eq_imp_distinct_iff)
  moreover have "set (map n_id (filter fresh (entries s))) = set (added s)"
    using f by (metis set_mset_mset)
  ultimately show ?thesis
    unfolding arrivals_ok_def r using assms(2,3) ix a(2) by simp
qed

text \<open>
  C33. A refresh of a subscription neither loses nor duplicates a row: after any arrivals and chunk
  inserts, the plan puts every row there is, the old ones and the inserted ones, exactly once either
  into the new order of the group or on the list to delete; the order has one row for each stored
  arrival; and an update carries an inserted row, which is then deleted, into an old row that stays.
\<close>

theorem refresh_partition:
  assumes "sink_reach old s" "distinct (map o_id old)" "\<forall>e \<in> set old. 0 \<le> o_id e"
  shows "let plan = Reconcile old (entries s) (index s) in
    distinct (pl_order plan @ pl_stale plan) \<and>
    set (pl_order plan @ pl_stale plan) = set (map o_id old) \<union> set (added s) \<and>
    length (pl_order plan) = length (storedIds s) \<and>
    (\<forall>(i, j) \<in> set (pl_updates plan). i \<in> set (map o_id old) \<and> i \<in> set (pl_order plan) \<and> j \<in> set (pl_stale plan))"
proof -
  define pl where "pl = Reconcile old (entries s) (index s)"
  have ok: "sink_ok old s" by (rule sink_reach_ok [OF assms])
  have aok: "arrivals_ok old (entries s) (index s)" by (rule sink_arrivals_ok [OF ok assms(2,3)])
  have "mset (pl_order pl @ pl_stale pl) = mset (map o_id old @ added s)"
    using Reconcile_partition [OF aok] ok by (simp add: pl_def sink_ok_def)
  moreover have "distinct (map o_id old @ added s)" using assms(2) ok by (auto simp: sink_ok_def)
  ultimately have "distinct (pl_order pl @ pl_stale pl)"
    "set (pl_order pl @ pl_stale pl) = set (map o_id old @ added s)"
    by (metis mset_eq_imp_distinct_iff, metis mset_eq_setD)
  moreover have "length (pl_order pl) = length (storedIds s)"
    using pairing_of_ok [OF aok]
    by (simp add: pl_def Reconcile_def Let_def order_run_order stale_run storedIds_def pairing_ok_def)
  moreover have "\<forall>(i, j) \<in> set (pl_updates pl). i \<in> set (map o_id old) \<and> i \<in> set (pl_order pl) \<and> j \<in> set (pl_stale pl)"
    using Reconcile_updates [OF aok] by (auto simp: pl_def free_ids_def)
  ultimately show ?thesis unfolding Let_def pl_def [symmetric] by simp
qed

text \<open>Two old rows; one arrival equal to the first, one with the identity of the second, one new.\<close>

definition ex_old :: "OldEntry list" where
  "ex_old = [\<lparr>o_id = 1, o_keys = \<lparr>content = [1], identity = [1]\<rparr>, o_display = []\<rparr>,
             \<lparr>o_id = 2, o_keys = \<lparr>content = [2], identity = [2]\<rparr>, o_display = []\<rparr>]"

definition ex_arrival :: "nat \<Rightarrow> nat \<Rightarrow> Arrival" where
  "ex_arrival c i = \<lparr>a_keys = \<lparr>content = [c], identity = [i]\<rparr>, a_display = []\<rparr>"

definition ex_pending :: ImportSink where
  "ex_pending = add (add (add (sink_start ex_old) (ex_arrival 1 1) None) (ex_arrival 7 2) None)
     (ex_arrival 8 3) None"

definition ex_sink :: ImportSink where
  "ex_sink = flush ex_pending (Some [10, 11])"

lemma ex_pending_simps:
  "length (chunk ex_pending) = 2" "added ex_pending = []" "length (entryIndex ex_pending) = 2"
  by (simp_all add: ex_pending_def sink_start_def add_def ex_old_def ex_arrival_def ContentIndex_of_def
      index_entry_def claim_def noteArrival_def knows_def kInsertChunk_def Let_def)

theorem refresh_partition_witness:
  "distinct (pl_order (Reconcile ex_old (entries ex_sink) (index ex_sink)) @
       pl_stale (Reconcile ex_old (entries ex_sink) (index ex_sink))) \<and>
   set (pl_order (Reconcile ex_old (entries ex_sink) (index ex_sink)) @
       pl_stale (Reconcile ex_old (entries ex_sink) (index ex_sink))) = {1, 2, 10, 11}"
proof -
  have "sink_reach ex_old ex_pending"
    unfolding ex_pending_def by (intro sink_reach.intros) (simp_all add: rows_ok_def)
  moreover have "rows_ok ex_old ex_pending (length (chunk ex_pending)) (Some [10, 11])"
    by (simp add: rows_ok_def ex_pending_simps ex_old_def)
  ultimately have r: "sink_reach ex_old ex_sink" unfolding ex_sink_def by (rule sink_reach.flush)
  have "chunk ex_pending \<noteq> []" using ex_pending_simps(1) by auto
  then have "added ex_sink = [10, 11]" by (simp add: ex_sink_def flush_def Let_def ex_pending_simps)
  then show ?thesis
    using refresh_partition [OF r] by (auto simp: ex_old_def Let_def)
qed

end
