(* ===== verification/Validate.thy ===== *)
theory Validate
  imports Json
begin

text \<open>
  The last check of a generated configuration (\<^verbatim>\<open>src/configs/validate.cpp\<close>): the tags named by a
  DNS rule, by a DNS server (its detour and resolver) and by the route (its rules, its final outbound and its
  default resolver) must be tags of a server or an outbound. \<open>FindDanglingReferences\<close> returns the complaints
  as text; \<open>references\<close> lists what it reads, as data. The check does not read what else names a tag (the
  detour and the resolver of an outbound, the download detour of a rule set, the detour of ntp).
\<close>

section \<open>The check\<close>

definition tag_of :: "json \<Rightarrow> qstring" where
  "tag_of v = toString [] (obj_value (toObject v) ''tag'')"

definition tags :: "json list \<Rightarrow> qstring list" where
  "tags vs = filter (\<lambda>t. t \<noteq> []) (map tag_of vs)"

definition quoted :: "qstring \<Rightarrow> qstring" where
  "quoted s = [34] @ s @ [34]"

abbreviation number_text :: "int \<Rightarrow> qstring" where
  "number_text n \<equiv> lit (show_int n)"

definition dns_rule_problem :: "qstring list \<Rightarrow> nat \<times> json \<Rightarrow> qstring list" where
  "dns_rule_problem dnsServers iv =
     (let server = toString [] (obj_value (toObject (snd iv)) ''server'')
      in if server \<noteq> [] \<and> server \<notin> set dnsServers then
           [lit ''dns rule['' @ number_text (int (fst iv)) @ lit ''] routes to a missing server '' @ quoted server]
         else [])"

definition dns_server_problems :: "qstring list \<Rightarrow> qstring list \<Rightarrow> json \<Rightarrow> qstring list" where
  "dns_server_problems dnsServers outbounds v =
     (let server = toObject v; tag = toString [] (obj_value server ''tag'');
          detour = toString [] (obj_value server ''detour'');
          resolver = toString [] (obj_value server ''domain_resolver'')
      in (if detour \<noteq> [] \<and> detour \<notin> set outbounds then
            [lit ''dns server '' @ quoted tag @ lit '' detours through a missing outbound '' @ quoted detour]
          else []) @
         (if resolver \<noteq> [] \<and> resolver \<notin> set dnsServers then
            [lit ''dns server '' @ quoted tag @ lit '' resolves through a missing server '' @ quoted resolver]
          else []))"

definition route_rule_problem :: "qstring list \<Rightarrow> nat \<times> json \<Rightarrow> qstring list" where
  "route_rule_problem outbounds iv =
     (let outbound = obj_value (toObject (snd iv)) ''outbound''; tag = toString [] outbound
      in if isDouble outbound then
           [lit ''route rule['' @ number_text (int (fst iv)) @ lit ''] points at unmapped outbound id '' @
            number_text (toInt 0 outbound)]
         else if tag \<noteq> [] \<and> tag \<notin> set outbounds then
           [lit ''route rule['' @ number_text (int (fst iv)) @ lit ''] points at a missing outbound '' @ quoted tag]
         else [])"

definition FindDanglingReferences :: "json_object \<Rightarrow> qstring list" where
  "FindDanglingReferences config =
     (let dnsObj = toObject (obj_value config ''dns'');
          routeObj = toObject (obj_value config ''route'');
          servers = toArray (obj_value dnsObj ''servers'');
          dnsServers = tags servers;
          outbounds = tags (toArray (obj_value config ''outbounds'')) @ tags (toArray (obj_value config ''endpoints''));
          finalOut = toString [] (obj_value routeObj ''final'');
          resolver = toString [] (obj_value (toObject (obj_value routeObj ''default_domain_resolver'')) ''server'')
      in concat (map (dns_rule_problem dnsServers) (enumerate 0 (toArray (obj_value dnsObj ''rules'')))) @
         concat (map (dns_server_problems dnsServers outbounds) servers) @
         concat (map (route_rule_problem outbounds) (enumerate 0 (toArray (obj_value routeObj ''rules'')))) @
         (if finalOut \<noteq> [] \<and> finalOut \<notin> set outbounds then
            [lit ''route final points at a missing outbound '' @ quoted finalOut] else []) @
         (if resolver \<noteq> [] \<and> resolver \<notin> set dnsServers then
            [lit ''default_domain_resolver names a missing server '' @ quoted resolver] else []))"

section \<open>The specification\<close>

text \<open>Where a configuration refers to a tag: to a DNS server, to an outbound, or by an unmapped id.\<close>

datatype target = Server qstring | Outbound qstring | UnmappedId int

datatype place = DnsRule nat | Detour qstring | Resolver qstring | RouteRule nat | Final | DefaultResolver

definition named :: "place \<Rightarrow> (qstring \<Rightarrow> target) \<Rightarrow> json \<Rightarrow> (place \<times> target) list" where
  "named p f v = (let t = toString [] v in if t = [] then [] else [(p, f t)])"

definition references :: "json_object \<Rightarrow> (place \<times> target) list" where
  "references config =
     (let dnsObj = toObject (obj_value config ''dns'');
          routeObj = toObject (obj_value config ''route'')
      in concat (map (\<lambda>(i, v). named (DnsRule i) Server (obj_value (toObject v) ''server''))
           (enumerate 0 (toArray (obj_value dnsObj ''rules'')))) @
         concat (map (\<lambda>v. named (Detour (tag_of v)) Outbound (obj_value (toObject v) ''detour'') @
             named (Resolver (tag_of v)) Server (obj_value (toObject v) ''domain_resolver''))
           (toArray (obj_value dnsObj ''servers''))) @
         concat (map (\<lambda>(i, v). (let ob = obj_value (toObject v) ''outbound''
             in if isDouble ob then [(RouteRule i, UnmappedId (toInt 0 ob))] else named (RouteRule i) Outbound ob))
           (enumerate 0 (toArray (obj_value routeObj ''rules'')))) @
         named Final Outbound (obj_value routeObj ''final'') @
         named DefaultResolver Server (obj_value (toObject (obj_value routeObj ''default_domain_resolver'')) ''server''))"

definition resolves :: "json_object \<Rightarrow> target \<Rightarrow> bool" where
  "resolves config t =
     (case t of
        Server s \<Rightarrow> \<exists>v \<in> set (toArray (obj_value (toObject (obj_value config ''dns'')) ''servers'')). tag_of v = s
      | Outbound s \<Rightarrow> \<exists>v \<in> set (toArray (obj_value config ''outbounds'') @ toArray (obj_value config ''endpoints'')).
          tag_of v = s
      | UnmappedId i \<Rightarrow> False)"

fun complaint :: "place \<times> target \<Rightarrow> qstring" where
  "complaint (DnsRule i, Server s) =
     lit ''dns rule['' @ number_text (int i) @ lit ''] routes to a missing server '' @ quoted s"
| "complaint (Detour t, Outbound s) =
     lit ''dns server '' @ quoted t @ lit '' detours through a missing outbound '' @ quoted s"
| "complaint (Resolver t, Server s) =
     lit ''dns server '' @ quoted t @ lit '' resolves through a missing server '' @ quoted s"
| "complaint (RouteRule i, UnmappedId n) =
     lit ''route rule['' @ number_text (int i) @ lit ''] points at unmapped outbound id '' @ number_text n"
| "complaint (RouteRule i, Outbound s) =
     lit ''route rule['' @ number_text (int i) @ lit ''] points at a missing outbound '' @ quoted s"
| "complaint (Final, Outbound s) = lit ''route final points at a missing outbound '' @ quoted s"
| "complaint (DefaultResolver, Server s) = lit ''default_domain_resolver names a missing server '' @ quoted s"
| "complaint _ = []"

lemma named_not_Nil: "(p, t) \<in> set (named q f v) \<Longrightarrow> \<exists>s. s \<noteq> [] \<and> t = f s"
  by (auto simp: named_def Let_def split: if_splits)

lemma resolves_tags:
  "s \<noteq> [] \<Longrightarrow> resolves config (Server s) \<longleftrightarrow>
     s \<in> set (tags (toArray (obj_value (toObject (obj_value config ''dns'')) ''servers'')))"
  "s \<noteq> [] \<Longrightarrow> resolves config (Outbound s) \<longleftrightarrow>
     s \<in> set (tags (toArray (obj_value config ''outbounds'')) @ tags (toArray (obj_value config ''endpoints'')))"
  by (auto simp: resolves_def tags_def)

definition complaints :: "json_object \<Rightarrow> (place \<times> target) list \<Rightarrow> qstring list" where
  "complaints config rs = map complaint (filter (\<lambda>(p, t). \<not> resolves config t) rs)"

lemma complaints_append [simp]: "complaints config (xs @ ys) = complaints config xs @ complaints config ys"
  by (simp add: complaints_def)

lemma complaints_concat: "complaints config (concat (map f xs)) = concat (map (\<lambda>x. complaints config (f x)) xs)"
  by (induction xs) (simp_all add: complaints_def)

lemma complaints_named:
  "complaints config (named p f v) =
     (if toString [] v \<noteq> [] \<and> \<not> resolves config (f (toString [] v)) then [complaint (p, f (toString [] v))] else [])"
  by (simp add: complaints_def named_def Let_def)

text \<open>Each part of the check is the complaints of its references.\<close>

definition server_tags :: "json_object \<Rightarrow> qstring list" where
  "server_tags config = tags (toArray (obj_value (toObject (obj_value config ''dns'')) ''servers''))"

definition outbound_tags :: "json_object \<Rightarrow> qstring list" where
  "outbound_tags config =
     tags (toArray (obj_value config ''outbounds'')) @ tags (toArray (obj_value config ''endpoints''))"

lemma missing_iff:
  "s \<noteq> [] \<and> s \<notin> set (server_tags config) \<longleftrightarrow> s \<noteq> [] \<and> \<not> resolves config (Server s)"
  "s \<noteq> [] \<and> s \<notin> set (outbound_tags config) \<longleftrightarrow> s \<noteq> [] \<and> \<not> resolves config (Outbound s)"
  using resolves_tags [of s config] unfolding server_tags_def outbound_tags_def by blast+

lemma part_complaints:
  "dns_rule_problem (server_tags config) (i, v) =
     complaints config (named (DnsRule i) Server (obj_value (toObject v) ''server''))"
  "dns_server_problems (server_tags config) (outbound_tags config) v =
     complaints config (named (Detour (tag_of v)) Outbound (obj_value (toObject v) ''detour'') @
       named (Resolver (tag_of v)) Server (obj_value (toObject v) ''domain_resolver''))"
  "route_rule_problem (outbound_tags config) (i, v) =
     complaints config (let ob = obj_value (toObject v) ''outbound''
       in if isDouble ob then [(RouteRule i, UnmappedId (toInt 0 ob))] else named (RouteRule i) Outbound ob)"
proof -
  show "dns_rule_problem (server_tags config) (i, v) =
      complaints config (named (DnsRule i) Server (obj_value (toObject v) ''server''))"
    unfolding dns_rule_problem_def Let_def fst_conv snd_conv missing_iff complaints_named complaint.simps ..
  show "dns_server_problems (server_tags config) (outbound_tags config) v =
     complaints config (named (Detour (tag_of v)) Outbound (obj_value (toObject v) ''detour'') @
       named (Resolver (tag_of v)) Server (obj_value (toObject v) ''domain_resolver''))"
    unfolding dns_server_problems_def Let_def missing_iff complaints_append complaints_named complaint.simps
      tag_of_def ..
  show "route_rule_problem (outbound_tags config) (i, v) =
     complaints config (let ob = obj_value (toObject v) ''outbound''
       in if isDouble ob then [(RouteRule i, UnmappedId (toInt 0 ob))] else named (RouteRule i) Outbound ob)"
    unfolding route_rule_problem_def Let_def fst_conv snd_conv missing_iff
    by (cases "isDouble (obj_value (toObject v) ''outbound'')")
      (simp_all only: if_True if_False complaints_named complaint.simps, simp add: complaints_def resolves_def)
qed

text \<open>
  Of the references it reads, the check complains in order of exactly those that do not resolve, one
  text each; so it is silent if and only if each of them names the tag of a server or of an outbound and no
  outbound is a bare number.
\<close>

theorem FindDanglingReferences_complete:
  "FindDanglingReferences config =
     map complaint (filter (\<lambda>(p, t). \<not> resolves config t) (references config)) \<and>
   (FindDanglingReferences config = [] \<longleftrightarrow> list_all (\<lambda>(p, t). resolves config t) (references config))"
proof -
  have rules: "concat (map (dns_rule_problem (server_tags config)) (enumerate 0 vs)) =
      complaints config (concat (map (\<lambda>(i, v). named (DnsRule i) Server (obj_value (toObject v) ''server'')) (enumerate 0 vs)))" for vs
    unfolding complaints_concat by (intro arg_cong [where f = concat] map_cong) (auto simp: part_complaints(1))
  have servers: "concat (map (dns_server_problems (server_tags config) (outbound_tags config)) vs) =
      complaints config (concat (map (\<lambda>v. named (Detour (tag_of v)) Outbound (obj_value (toObject v) ''detour'') @
        named (Resolver (tag_of v)) Server (obj_value (toObject v) ''domain_resolver'')) vs))" for vs
    unfolding complaints_concat part_complaints(2) ..
  have routes: "concat (map (route_rule_problem (outbound_tags config)) (enumerate 0 vs)) =
      complaints config (concat (map (\<lambda>(i, v). (let ob = obj_value (toObject v) ''outbound''
        in if isDouble ob then [(RouteRule i, UnmappedId (toInt 0 ob))] else named (RouteRule i) Outbound ob))
        (enumerate 0 vs)))" for vs
    unfolding complaints_concat by (intro arg_cong [where f = concat] map_cong) (auto simp: part_complaints(3))
  have "FindDanglingReferences config = complaints config (references config)"
    unfolding FindDanglingReferences_def references_def Let_def
      server_tags_def [symmetric] outbound_tags_def [symmetric] complaints_append
      rules servers routes [unfolded Let_def] missing_iff complaints_named complaint.simps ..
  then show ?thesis
    by (auto simp: complaints_def list_all_iff filter_empty_conv)
qed

end
