(* ===== verification/Bytes.thy ===== *)
theory Bytes
  imports Prelude
begin

text \<open>
  Byte strings (\<^verbatim>\<open>QByteArray\<close>) as lists of numbers below 256, numbers written in a fixed count of digits,
  and the contract of a format whose values can be read back from the front of a longer input.
\<close>

type_synonym bytes = "nat list"

abbreviation bytes_ok :: "bytes \<Rightarrow> bool" where
  "bytes_ok bs \<equiv> \<forall>b \<in> set bs. b < 256"

section \<open>Positional numbers\<close>

definition digits_val :: "nat \<Rightarrow> nat list \<Rightarrow> nat" where
  "digits_val b ds = foldl (\<lambda>v d. v * b + d) 0 ds"

fun digits_of :: "nat \<Rightarrow> nat \<Rightarrow> nat \<Rightarrow> nat list" where
  "digits_of b 0 x = []"
| "digits_of b (Suc n) x = digits_of b n (x div b) @ [x mod b]"

lemma length_digits_of [simp]: "length (digits_of b n x) = n"
  by (induction n arbitrary: x) simp_all

lemma digits_val_simps [simp]: "digits_val b [] = 0" "digits_val b (ds @ [d]) = digits_val b ds * b + d"
  by (simp_all add: digits_val_def)

lemma digits_val_digits_of: "digits_val b (digits_of b n x) = x mod b ^ n"
proof (induction n arbitrary: x)
  case (Suc n)
  have "digits_val b (digits_of b (Suc n) x) = (x div b) mod b ^ n * b + x mod b" by (simp add: Suc.IH)
  also have "\<dots> = x mod (b * b ^ n)" by (simp add: mod_mult2_eq mult.commute)
  finally show ?case by simp
qed simp

lemma digits_val_less: "\<forall>d \<in> set ds. d < b \<Longrightarrow> digits_val b ds < b ^ length ds"
proof (induction ds rule: rev_induct)
  case (snoc d ds)
  then have d: "d < b" and "Suc (digits_val b ds) \<le> b ^ length ds" by auto
  then have "Suc (digits_val b ds) * b \<le> b ^ length ds * b" by (intro mult_le_mono) auto
  with d show ?case by (simp add: mult.commute)
qed simp

lemma digits_of_digits_val: "\<forall>d \<in> set ds. d < b \<Longrightarrow> digits_of b (length ds) (digits_val b ds) = ds"
proof (induction ds rule: rev_induct)
  case (snoc d ds)
  then have "d < b" by simp
  with snoc show ?case by simp
qed simp

text \<open>\<^verbatim>\<open>qToBigEndian\<close> and \<^verbatim>\<open>qFromBigEndian\<close> at a width of \<open>n\<close> bytes.\<close>

definition toBigEndian :: "nat \<Rightarrow> nat \<Rightarrow> bytes" where
  "toBigEndian n x = digits_of 256 n x"

definition fromBigEndian :: "bytes \<Rightarrow> nat" where
  "fromBigEndian bs = digits_val 256 bs"

lemma length_toBigEndian [simp]: "length (toBigEndian n x) = n"
  by (simp add: toBigEndian_def)

lemma fromBigEndian_toBigEndian: "fromBigEndian (toBigEndian n x) = x mod 256 ^ n"
  by (simp add: toBigEndian_def fromBigEndian_def digits_val_digits_of)

lemma toBigEndian_inj: "x < 256 ^ n \<Longrightarrow> y < 256 ^ n \<Longrightarrow> toBigEndian n x = toBigEndian n y \<Longrightarrow> x = y"
  by (metis fromBigEndian_toBigEndian mod_less)

section \<open>Formats read from the front\<close>

locale prefix_format =
  fixes put :: "'a \<Rightarrow> bytes"
    and get :: "bytes \<Rightarrow> ('a \<times> bytes) option"
    and ok :: "'a \<Rightarrow> bool"
  assumes get_put: "ok x \<Longrightarrow> get (put x @ rest) = Some (x, rest)"
    and get_consumes: "get bs = Some (x, rest) \<Longrightarrow> length rest < length bs"
begin

lemma put_not_Nil:
  assumes "ok x"
  shows "put x \<noteq> []"
proof
  assume "put x = []"
  then have "get [] = Some (x, [])" using get_put [OF assms, of "[]"] by simp
  from get_consumes [OF this] show False by simp
qed

lemma put_inj: "ok x \<Longrightarrow> ok y \<Longrightarrow> put x @ rest = put y @ rest' \<Longrightarrow> x = y \<and> rest = rest'"
  by (metis get_put option.inject prod.inject)

end

end
