(* ===== verification/RemoteProtocol.thy ===== *)
theory RemoteProtocol
  imports Json Bytes
begin

text \<open>
  The wire format of the remote control API (\<^verbatim>\<open>src/api/remote/Protocol.cpp\<close>,
  \<^verbatim>\<open>src/api/remote/Message.cpp\<close>): sealed frames, requests and responses. The cryptography is
  third-party (Monocypher, and Qt's HMAC) and the JSON text is \<^verbatim>\<open>QJsonDocument\<close>'s, so both are
  parameters, gathered in the record \<open>wire\<close>; \<open>aead_laws\<close> names what is relied on.
\<close>

section \<open>Sizes\<close>

definition kKeySize :: nat where "kKeySize = 32"
definition kTagSize :: nat where "kTagSize = 16"
definition kFrameHeaderSize :: nat where "kFrameHeaderSize = 4"
definition kRandomSize :: nat where "kRandomSize = 16"
definition kClientHelloSize :: nat where "kClientHelloSize = 1 + kRandomSize"
definition kProtocolVersion :: nat where "kProtocolVersion = 1"
definition kMaxClientFrame :: nat where "kMaxClientFrame = 2 ^ 20"
definition kMaxServerFrame :: nat where "kMaxServerFrame = 64 * 2 ^ 20"

section \<open>Parameters\<close>

text \<open>
  \<open>hmac message key\<close> is HMAC-SHA256; \<open>aead_write key nonce ad plaintext\<close> gives ciphertext and tag;
  \<open>aead_read key nonce tag ad ciphertext\<close> gives the plaintext if the tag is right; \<open>fromJson\<close> parses a
  document or returns the parser's message; \<open>toJson\<close> is the compact text.
\<close>

record wire =
  hmac :: "bytes \<Rightarrow> bytes \<Rightarrow> bytes"
  aead_write :: "bytes \<Rightarrow> bytes \<Rightarrow> bytes \<Rightarrow> bytes \<Rightarrow> bytes \<times> bytes"
  aead_read :: "bytes \<Rightarrow> bytes \<Rightarrow> bytes \<Rightarrow> bytes \<Rightarrow> bytes \<Rightarrow> bytes option"
  fromJson :: "bytes \<Rightarrow> qstring + json"
  toJson :: "json \<Rightarrow> bytes"

text \<open>
  What the code relies on of the cipher: the ciphertext is as long as the plaintext, the tag has 16 bytes,
  and what was written under a key, nonce and header is read back under them.
\<close>

definition aead_laws :: "wire \<Rightarrow> bool" where
  "aead_laws w \<longleftrightarrow>
     (\<forall>k n ad p. length (fst (aead_write w k n ad p)) = length p \<and>
        length (snd (aead_write w k n ad p)) = kTagSize \<and>
        aead_read w k n (snd (aead_write w k n ad p)) ad (fst (aead_write w k n ad p)) = Some p)"

section \<open>Keys and frames\<close>

record SessionKeys =
  c2s :: bytes
  s2c :: bytes

abbreviation ascii :: "string \<Rightarrow> bytes" where
  "ascii \<equiv> lit"

definition DeriveKeys :: "wire \<Rightarrow> bytes \<Rightarrow> bytes \<Rightarrow> bytes \<Rightarrow> SessionKeys" where
  "DeriveKeys w key serverRandom clientRandom =
     (let randoms = serverRandom @ clientRandom
      in \<lparr>c2s = hmac w (ascii ''throne-api/1 c2s'' @ randoms) key,
          s2c = hmac w (ascii ''throne-api/1 s2c'' @ randoms) key\<rparr>)"

definition frameNonce :: "nat \<Rightarrow> bytes" where
  "frameNonce counter = replicate 4 0 @ toBigEndian 8 counter"

definition SealFrame :: "wire \<Rightarrow> bytes \<Rightarrow> nat \<Rightarrow> bytes \<Rightarrow> bytes" where
  "SealFrame w key counter plaintext =
     (if length key \<noteq> kKeySize then []
      else
        (let header = toBigEndian kFrameHeaderSize (length plaintext + kTagSize);
             (ciphertext, tag) = aead_write w key (frameNonce counter) header plaintext
         in header @ ciphertext @ tag))"

definition OpenFrame :: "wire \<Rightarrow> bytes \<Rightarrow> nat \<Rightarrow> bytes \<Rightarrow> bytes \<Rightarrow> bytes option" where
  "OpenFrame w key counter header sealed =
     (if length key \<noteq> kKeySize \<or> length header \<noteq> kFrameHeaderSize \<or> length sealed < kTagSize then None
      else if fromBigEndian header \<noteq> length sealed mod 2 ^ 32 then None
      else
        (let size = length sealed - kTagSize
         in aead_read w key (frameNonce counter) (drop size sealed) header (take size sealed)))"

lemma OpenFrame_SealFrame:
  assumes "aead_laws w" "length key = kKeySize" "length plaintext + kTagSize < 2 ^ 32"
  shows "OpenFrame w key n (take kFrameHeaderSize (SealFrame w key n plaintext))
           (drop kFrameHeaderSize (SealFrame w key n plaintext)) = Some plaintext"
proof -
  define h where "h = toBigEndian kFrameHeaderSize (length plaintext + kTagSize)"
  obtain c t where ct: "aead_write w key (frameNonce n) h plaintext = (c, t)"
    by (cases "aead_write w key (frameNonce n) h plaintext")
  have laws: "length c = length plaintext" "length t = kTagSize"
    "aead_read w key (frameNonce n) t h c = Some plaintext"
    using assms(1) ct unfolding aead_laws_def by (metis fst_conv snd_conv)+
  have s: "SealFrame w key n plaintext = h @ c @ t"
    by (simp add: SealFrame_def assms(2) h_def [symmetric] ct Let_def)
  have "fromBigEndian h = length plaintext + kTagSize"
    using assms(3) by (simp add: h_def fromBigEndian_toBigEndian kFrameHeaderSize_def)
  moreover have "length h = kFrameHeaderSize" by (simp add: h_def)
  ultimately show ?thesis using laws assms(2,3) by (simp add: OpenFrame_def s Let_def)
qed

lemma frameNonce_inj: "x < 2 ^ 64 \<Longrightarrow> y < 2 ^ 64 \<Longrightarrow> frameNonce x = frameNonce y \<longleftrightarrow> x = y"
  using toBigEndian_inj [of x 8 y] by (auto simp: frameNonce_def)

section \<open>Messages\<close>

record Request =
  rq_method :: qstring
  path :: qstring
  query :: "(string \<times> qstring) list"
  rq_body :: json
  rq_peer :: qstring
  admin :: bool

record Response =
  status :: int
  rs_body :: json
  errorCode :: qstring
  errorMessage :: qstring

definition Response_Ok :: "json \<Rightarrow> int \<Rightarrow> Response" where
  "Response_Ok b st = \<lparr>status = st, rs_body = b, errorCode = [], errorMessage = []\<rparr>"

definition Response_Error :: "int \<Rightarrow> qstring \<Rightarrow> qstring \<Rightarrow> Response" where
  "Response_Error st code message = \<lparr>status = st, rs_body = JNull, errorCode = code, errorMessage = message\<rparr>"

text \<open>The query: every value must be a string; the first that is not fails the request.\<close>

fun parse_query :: "(string \<times> json) list \<Rightarrow> qstring + (string \<times> qstring) list" where
  "parse_query [] = Inr []"
| "parse_query ((k, v) # rest) =
     (if \<not> isString v then Inl (lit ''Query value '' @ lit k @ lit '' is not a string'')
      else case parse_query rest of Inl e \<Rightarrow> Inl e | Inr q \<Rightarrow> Inr ((k, toString [] v) # q))"

definition ParseRequest :: "wire \<Rightarrow> bytes \<Rightarrow> qstring + Request" where
  "ParseRequest w text =
     (case fromJson w text of
        Inl e \<Rightarrow> Inl (lit ''The request is not valid JSON: '' @ e)
      | Inr document \<Rightarrow>
          if \<not> isObject document then Inl (lit ''The request is not a JSON object'')
          else
            (let ob = toObject document;
                 m = toString [] (obj_value ob ''method'');
                 pathValue = obj_value ob ''path'';
                 p = toString [] pathValue
             in if m \<notin> set (map lit [''GET'', ''POST'', ''PUT'', ''DELETE'']) then
                  Inl (lit ''The method must be GET, POST, PUT or DELETE'')
                else if \<not> isString pathValue \<or> \<not> (p \<noteq> [] \<and> hd p = 47) \<or> 63 \<in> set p \<or> 35 \<in> set p then
                  Inl (lit ''The path must start with / and carry no query string or fragment'')
                else if obj_contains ob ''query'' \<and> \<not> isObject (obj_value ob ''query'') then
                  Inl (lit ''The query must be an object'')
                else
                  (case (if obj_contains ob ''query'' then parse_query (toObject (obj_value ob ''query'')) else Inr []) of
                     Inl e \<Rightarrow> Inl e
                   | Inr q \<Rightarrow>
                       Inr \<lparr>rq_method = m, path = p, query = q,
                            rq_body = (if obj_value ob ''body'' = JUndefined then JNull else obj_value ob ''body''),
                            rq_peer = [], admin = False\<rparr>)))"

definition SerializeResponse :: "wire \<Rightarrow> Response \<Rightarrow> bytes" where
  "SerializeResponse w r =
     ascii ''{'' @ [34] @ ascii ''status'' @ [34] @ ascii '':'' @ ascii (show_int (status r)) @
     (if status r < 400 then
        (let wrapped = toJson w (JArray [if rs_body r = JUndefined then JNull else rs_body r])
         in ascii '','' @ [34] @ ascii ''body'' @ [34] @ ascii '':'' @ take (length wrapped - 2) (drop 1 wrapped))
      else
        ascii '','' @ [34] @ ascii ''error'' @ [34] @ ascii '':'' @
        toJson w (JObject [(''code'', JString (errorCode r)), (''message'', JString (errorMessage r))])) @
     ascii ''}''"

lemma ParseRequest_path:
  assumes "ParseRequest w text = Inr r"
  shows "path r \<noteq> [] \<and> hd (path r) = 47 \<and> 63 \<notin> set (path r) \<and> 35 \<notin> set (path r) \<and>
    rq_method r \<in> set (map lit [''GET'', ''POST'', ''PUT'', ''DELETE''])"
  using assms by (auto simp: ParseRequest_def Let_def split: sum.splits if_splits)

end
