(* ===== verification/RemoteServer.thy ===== *)
theory RemoteServer
  imports RemoteProtocol Counters
begin

text \<open>
  The listener of the remote control API (\<^verbatim>\<open>Server::Worker\<close> in \<^verbatim>\<open>src/api/remote/Server.cpp\<close>): which
  peers are let in, the handshake, the frames of a connection, one answer for each request, and the refusal
  of peers that keep failing. A socket is its unread input, the bytes it has still to send and all that
  was written to it. \<open>hosts\<close> gathers what is used of \<^verbatim>\<open>QHostAddress\<close>, \<open>wire\<close> the cryptography and the JSON
  text; the clock and the random bytes are arguments. Ids and exchange numbers are unbounded: 2 ^ 64
  connections or requests are out of reach.
\<close>

section \<open>Data\<close>

definition kMaxConnections :: nat where "kMaxConnections = 32"
definition kMaxConnectionsPerPeer :: int where "kMaxConnectionsPerPeer = 8"
definition kHelloTimeoutMs :: int where "kHelloTimeoutMs = 10 * 1000"
definition kIdleTimeoutMs :: int where "kIdleTimeoutMs = 60 * 1000"
definition kFailureLimit :: nat where "kFailureLimit = 5"
definition kFailureWindowMs :: int where "kFailureWindowMs = 60 * 1000"
definition kRefusalMs :: int where "kRefusalMs = 60 * 1000"
definition kAuthExemptMs :: int where "kAuthExemptMs = 10 * 60 * 1000"
definition kPeerLogIntervalMs :: int where "kPeerLogIntervalMs = 60 * 1000"
definition kMaxTrackedPeers :: nat where "kMaxTrackedPeers = 1024"
definition kMaxCounter :: nat where "kMaxCounter = 2 ^ 64 - 1"

type_synonym host = nat

record hosts =
  NormalizedPeer :: "host \<Rightarrow> host"
  isLoopback :: "host \<Rightarrow> bool"
  host_text :: "host \<Rightarrow> qstring"
  isInSubnet :: "host \<Rightarrow> host \<Rightarrow> int \<Rightarrow> bool"
  anyHost :: host
  localHost :: host
  isEveryAddress :: "host \<Rightarrow> bool"
  isIPv6 :: "host \<Rightarrow> bool"

record Config =
  enabled :: bool
  lan :: bool
  cfg_port :: nat
  key :: bytes
  allow :: "(host \<times> int) list"
  adminLan :: bool
  cfg_address :: "host option"

datatype ApplyState = Off | Listening | KeyInvalid | BindFailed

datatype SocketError = AddressInUseError | UnknownSocketError | OtherSocketError

record ApplyResult =
  ar_state :: ApplyState
  ar_address :: "host option"
  ar_port :: nat
  ar_error :: SocketError
  ar_text :: qstring

datatype Phase = Hello | Ready | Pending

record Connection =
  c_address :: host
  c_peer :: qstring
  rx :: bytes
  unsent :: nat
  written :: "bytes list"
  c_timer :: "int option"
  phase :: Phase
  closed :: bool
  serverRandom :: bytes
  keys :: SessionKeys
  received :: nat
  sent :: nat
  exchanges :: nat
  header :: bytes
  frameLength :: nat
  c_body :: bytes

record FailureRecord =
  recent :: "int list"
  refusedUntil :: int

record worker =
  cfg :: Config
  apply_result :: ApplyResult
  localAddress :: "host option"
  listening :: bool
  conn :: "nat \<Rightarrow> Connection"
  connections :: "nat list"
  perPeer :: "(qstring, int) qhash"
  failures :: "(qstring, FailureRecord) qhash"
  authenticated :: "(qstring, int) qhash"
  peerLogged :: "(qstring, int) qhash"
  nextId :: nat
  apiPort :: nat
  log_lines :: "qstring list"
  dispatched :: "(nat \<times> nat \<times> Request) list"
  answered :: "(nat \<times> nat) list"
  posts :: "(nat \<times> nat \<times> Response) list"

definition upd :: "nat \<Rightarrow> (Connection \<Rightarrow> Connection) \<Rightarrow> worker \<Rightarrow> worker" where
  "upd i f w = w\<lparr>conn := (conn w)(i := f (conn w i))\<rparr>"

definition Log :: "qstring \<Rightarrow> worker \<Rightarrow> worker" where
  "Log line w = w\<lparr>log_lines := log_lines w @ [lit ''[API] '' @ line]\<rparr>"

section \<open>Peers\<close>

definition isLocal :: "hosts \<Rightarrow> worker \<Rightarrow> host \<Rightarrow> bool" where
  "isLocal h w a \<longleftrightarrow> isLoopback h a \<or> localAddress w = Some a"

definition isAllowed :: "hosts \<Rightarrow> worker \<Rightarrow> host \<Rightarrow> bool" where
  "isAllowed h w a =
     (if isLocal h w a then True
      else if \<not> lan (cfg w) then False
      else if allow (cfg w) = [] then True
      else list_ex (\<lambda>(net, bits). isInSubnet h a net bits) (allow (cfg w)))"

definition isRefused :: "int \<Rightarrow> worker \<Rightarrow> qstring \<Rightarrow> bool" where
  "isRefused now w peer = (case map_of (failures w) peer of None \<Rightarrow> False | Some r \<Rightarrow> now < refusedUntil r)"

definition noteAuthenticated :: "int \<Rightarrow> qstring \<Rightarrow> worker \<Rightarrow> worker" where
  "noteAuthenticated now peer w =
     (let w = (if kMaxTrackedPeers \<le> length (authenticated w)
               then w\<lparr>authenticated := filter (\<lambda>(p, at). \<not> kAuthExemptMs \<le> now - at) (authenticated w)\<rparr> else w)
      in w\<lparr>authenticated := AList.update peer now (authenticated w)\<rparr>)"

definition logPeer :: "int \<Rightarrow> qstring \<Rightarrow> qstring \<Rightarrow> worker \<Rightarrow> worker" where
  "logPeer now peer line w =
     (if (case map_of (peerLogged w) peer of None \<Rightarrow> False | Some at \<Rightarrow> now - at < kPeerLogIntervalMs) then w
      else
        (let w = (if kMaxTrackedPeers \<le> length (peerLogged w)
                  then w\<lparr>peerLogged := filter (\<lambda>(p, at). \<not> kPeerLogIntervalMs \<le> now - at) (peerLogged w)\<rparr> else w)
         in Log line (w\<lparr>peerLogged := AList.update peer now (peerLogged w)\<rparr>)))"

section \<open>Closing and failing\<close>

definition closeConnection :: "nat \<Rightarrow> worker \<Rightarrow> worker" where
  "closeConnection i w =
     (if closed (conn w i) then w
      else
        (let peer = c_peer (conn w i);
             w = upd i (\<lambda>c. c\<lparr>closed := True, c_timer := None\<rparr>) w;
             w = w\<lparr>connections := filter (\<lambda>j. j \<noteq> i) (connections w)\<rparr>;
             left = hash_value (perPeer w) peer 0 - 1;
             counts = AList.update peer left (perPeer w)
         in w\<lparr>perPeer := (if left \<le> 0 then AList.delete peer counts else counts)\<rparr>))"

definition closeAll :: "worker \<Rightarrow> worker" where
  "closeAll w = foldl (\<lambda>w i. closeConnection i w) w (connections w)"

definition prune_failures :: "int \<Rightarrow> (qstring, FailureRecord) qhash \<Rightarrow> (qstring, FailureRecord) qhash" where
  "prune_failures now fs =
     filter (\<lambda>(p, r). \<not> (refusedUntil r \<le> now \<and> (recent r = [] \<or> kFailureWindowMs \<le> now - last (recent r)))) fs"

definition note_failure :: "int \<Rightarrow> qstring \<Rightarrow> worker \<Rightarrow> worker" where
  "note_failure now peer w =
     (let w = (if kMaxTrackedPeers \<le> length (failures w) then w\<lparr>failures := prune_failures now (failures w)\<rparr> else w);
          r = (case map_of (failures w) peer of None \<Rightarrow> \<lparr>recent = [], refusedUntil = 0\<rparr> | Some r \<Rightarrow> r);
          r = r\<lparr>recent := filter (\<lambda>at. \<not> kFailureWindowMs \<le> now - at) (recent r) @ [now]\<rparr>
      in if length (recent r) < kFailureLimit then w\<lparr>failures := AList.update peer r (failures w)\<rparr>
         else
           (let r = r\<lparr>recent := []\<rparr>
            in if (case map_of (authenticated w) peer of None \<Rightarrow> True | Some at \<Rightarrow> kAuthExemptMs \<le> now - at) then
                 Log (lit ''Refusing every connection from '' @ peer @ lit '' for '' @ lit (show_int (kRefusalMs div 1000)) @
                      lit '' s after '' @ lit (show_int (int kFailureLimit)) @
                      lit '' failed attempts; a client there probably still uses an old key'')
                   (w\<lparr>failures := AList.update peer (r\<lparr>refusedUntil := now + kRefusalMs\<rparr>) (failures w)\<rparr>)
               else w\<lparr>failures := AList.update peer r (failures w)\<rparr>))"

definition fail :: "hosts \<Rightarrow> int \<Rightarrow> nat \<Rightarrow> qstring \<Rightarrow> worker \<Rightarrow> worker" where
  "fail h now i reason w =
     (let peer = c_peer (conn w i);
          w = logPeer now peer (lit ''Closed the connection from '' @ peer @ lit '': '' @ reason) w;
          w = (if isLocal h w (c_address (conn w i)) then w else note_failure now peer w)
      in closeConnection i w)"

section \<open>Requests and responses\<close>

definition sendResponse :: "wire \<Rightarrow> nat \<Rightarrow> Response \<Rightarrow> worker \<Rightarrow> worker" where
  "sendResponse wr i response w =
     (let plaintext = SerializeResponse wr response;
          plaintext = (if kMaxServerFrame - kTagSize < length plaintext
            then SerializeResponse wr (Response_Error 500 (lit ''internal'') (lit ''The response is too large''))
            else plaintext)
      in if sent (conn w i) = kMaxCounter then closeConnection i w
         else upd i (\<lambda>c. (let frame = SealFrame wr (s2c (keys c)) (sent c) plaintext
                in c\<lparr>written := written c @ [frame], unsent := unsent c + length frame, sent := sent c + 1,
                     phase := Ready, c_timer := Some kIdleTimeoutMs\<rparr>)) w)"

definition handleRequest :: "wire \<Rightarrow> hosts \<Rightarrow> nat \<Rightarrow> bytes \<Rightarrow> worker \<Rightarrow> worker" where
  "handleRequest wr h i plaintext w =
     (case ParseRequest wr plaintext of
        Inl e \<Rightarrow> sendResponse wr i (Response_Error 400 (lit ''bad_request'') e) w
      | Inr request \<Rightarrow>
          (let c = conn w i;
               request = request\<lparr>rq_peer := c_peer c, admin := (isLocal h w (c_address c) \<or> adminLan (cfg w))\<rparr>;
               w = upd i (\<lambda>c. c\<lparr>phase := Pending, c_timer := None, exchanges := exchanges c + 1\<rparr>) w
           in w\<lparr>dispatched := dispatched w @ [(i, exchanges (conn w i), request)]\<rparr>))"

text \<open>A complete frame: the counter, the tag, then the request.\<close>

definition takeFrame :: "wire \<Rightarrow> hosts \<Rightarrow> int \<Rightarrow> nat \<Rightarrow> worker \<Rightarrow> worker \<times> bool" where
  "takeFrame wr h now i w =
     (let c = conn w i
      in if received c = kMaxCounter then (closeConnection i w, False)
         else
           (let opened = OpenFrame wr (c2s (keys c)) (received c) (header c) (c_body c);
                w = upd i (\<lambda>c. c\<lparr>header := [], c_body := []\<rparr>) w
            in case opened of
                 None \<Rightarrow>
                   (fail h now i (lit ''a frame failed authentication, most likely the key is wrong'') w, False)
               | Some plaintext \<Rightarrow>
                   (let w = upd i (\<lambda>c. c\<lparr>received := received c + 1\<rparr>) w;
                        w = (if isLocal h w (c_address c) then w else noteAuthenticated now (c_peer c) w)
                    in (handleRequest wr h i plaintext w, True))))"

text \<open>One pass of the loop of \<^verbatim>\<open>processInput\<close>; the flag is whether the loop goes on.\<close>

definition readHeader :: "Connection \<Rightarrow> Connection" where
  "readHeader c =
     (if header c = [] then
        c\<lparr>header := take kFrameHeaderSize (rx c), rx := drop kFrameHeaderSize (rx c),
          frameLength := fromBigEndian (take kFrameHeaderSize (rx c))\<rparr>
      else c)"

definition readBody :: "Connection \<Rightarrow> Connection" where
  "readBody c =
     (let n = frameLength c - length (c_body c)
      in c\<lparr>c_body := c_body c @ take n (rx c), rx := drop n (rx c)\<rparr>)"

definition inputPass :: "wire \<Rightarrow> hosts \<Rightarrow> int \<Rightarrow> nat \<Rightarrow> worker \<Rightarrow> worker \<times> bool" where
  "inputPass wr h now i w =
     (let c = conn w i
      in if phase c = Hello then
           (if length (rx c) < kClientHelloSize then (w, False)
            else
              (let hello = take kClientHelloSize (rx c);
                   w = upd i (\<lambda>c. c\<lparr>rx := drop kClientHelloSize (rx c)\<rparr>) w
               in if hd hello \<noteq> kProtocolVersion then (fail h now i (lit ''unsupported protocol version'') w, False)
                  else (upd i (\<lambda>c. c\<lparr>keys := DeriveKeys wr (key (cfg w)) (serverRandom c) (drop 1 hello),
                          phase := Ready, c_timer := Some kIdleTimeoutMs\<rparr>) w, True)))
         else if phase c \<noteq> Ready \<or> 0 < unsent c then (w, False)
         else if header c = [] \<and> length (rx c) < kFrameHeaderSize then (w, False)
         else
           (let w = upd i readHeader w
            in if header c = [] \<and>
                  (frameLength (conn w i) < kTagSize \<or> kMaxClientFrame < frameLength (conn w i)) then
                 (fail h now i (lit ''invalid frame length'') w, False)
               else
                 (let w = upd i readBody w
                  in if length (c_body (conn w i)) < frameLength (conn w i) then (w, False)
                     else takeFrame wr h now i w)))"

text \<open>Every pass that goes on has consumed input.\<close>

definition pendingInput :: "Connection \<Rightarrow> nat" where
  "pendingInput c = length (rx c) + length (header c) + length (c_body c)"

lemma upd_simps [simp]:
  "conn (upd i f w) = (conn w)(i := f (conn w i))" "connections (upd i f w) = connections w"
  "perPeer (upd i f w) = perPeer w" "nextId (upd i f w) = nextId w" "cfg (upd i f w) = cfg w"
  "localAddress (upd i f w) = localAddress w" "failures (upd i f w) = failures w"
  "authenticated (upd i f w) = authenticated w" "listening (upd i f w) = listening w"
  by (simp_all add: upd_def)

lemma noteAuthenticated_conn [simp]: "conn (noteAuthenticated now peer w) = conn w"
  by (simp add: noteAuthenticated_def Let_def)

lemma closeConnection_rx:
  "pendingInput (conn (closeConnection i w) i) = pendingInput (conn w i)"
  by (simp add: closeConnection_def Let_def pendingInput_def)

lemma handleRequest_rx: "pendingInput (conn (handleRequest wr h i p w) i) = pendingInput (conn w i)"
  using closeConnection_rx [of i w]
  by (auto simp: handleRequest_def sendResponse_def Let_def pendingInput_def split: sum.splits)

lemma takeFrame_consumes:
  assumes "takeFrame wr h now i w = (w', True)"
  shows "pendingInput (conn w' i) = length (rx (conn w i))"
  using assms handleRequest_rx [of wr h i]
  by (auto simp: takeFrame_def Let_def pendingInput_def split: if_splits option.splits)

lemma header_read:
  "header c \<noteq> [] \<or> kFrameHeaderSize \<le> length (rx c) \<Longrightarrow> header (readBody (readHeader c)) \<noteq> []"
  by (auto simp: readBody_def readHeader_def Let_def kFrameHeaderSize_def)

lemma inputPass_consumes:
  assumes "inputPass wr h now i w = (w', True)"
  shows "pendingInput (conn w' i) < pendingInput (conn w i)"
proof (cases "phase (conn w i) = Hello")
  case True
  with assms show ?thesis
    by (auto simp: inputPass_def Let_def pendingInput_def kClientHelloSize_def split: if_splits)
next
  case False
  let ?c = "readBody (readHeader (conn w i))"
  have "takeFrame wr h now i (upd i readBody (upd i readHeader w)) = (w', True)"
    "header (conn w i) \<noteq> [] \<or> kFrameHeaderSize \<le> length (rx (conn w i))"
    using assms False by (auto simp: inputPass_def Let_def split: if_splits)
  then have "pendingInput (conn w' i) = length (rx ?c)" "header ?c \<noteq> []"
    using takeFrame_consumes header_read by fastforce+
  moreover have "pendingInput ?c = pendingInput (conn w i)"
    by (auto simp: pendingInput_def readBody_def readHeader_def Let_def min_def)
  ultimately show ?thesis by (cases "header ?c") (simp_all add: pendingInput_def)
qed

function processInput :: "wire \<Rightarrow> hosts \<Rightarrow> int \<Rightarrow> nat \<Rightarrow> worker \<Rightarrow> worker" where
  "processInput wr h now i w =
     (if closed (conn w i) then w
      else case inputPass wr h now i w of
             (w', False) \<Rightarrow> w'
           | (w', True) \<Rightarrow> processInput wr h now i w')"
  by pat_completeness auto
termination
  by (relation "measure (\<lambda>(wr, h, now, i, w). pendingInput (conn w i))")
    (auto dest: inputPass_consumes [OF sym])

declare processInput.simps [simp del]

section \<open>Answers\<close>

text \<open>
  \<^verbatim>\<open>Exchange::answer\<close>: the first answer of an exchange is posted to the worker, later ones are dropped. The
  destructor answers 500 for an exchange nobody answered, through the same function.
\<close>

definition answer :: "nat \<Rightarrow> nat \<Rightarrow> Response \<Rightarrow> worker \<Rightarrow> worker" where
  "answer i number response w =
     (if (i, number) \<in> set (answered w) then w
      else w\<lparr>answered := (i, number) # answered w, posts := posts w @ [(i, number, response)]\<rparr>)"

definition dropped_response :: Response where
  "dropped_response = Response_Error 500 (lit ''internal'') (lit ''The request was dropped without an answer'')"

definition deliver :: "wire \<Rightarrow> hosts \<Rightarrow> int \<Rightarrow> nat \<Rightarrow> nat \<Rightarrow> Response \<Rightarrow> worker \<Rightarrow> worker" where
  "deliver wr h now i number response w =
     (if i \<notin> set (connections w) \<or> phase (conn w i) \<noteq> Pending \<or> exchanges (conn w i) \<noteq> number then w
      else processInput wr h now i (sendResponse wr i response w))"

section \<open>New connections\<close>

definition refusal :: "hosts \<Rightarrow> int \<Rightarrow> host \<Rightarrow> worker \<Rightarrow> qstring" where
  "refusal h now address w =
     (let peer = host_text h address; islocal = isLocal h w address
      in if \<not> islocal \<and> isRefused now w peer then lit ''Refused '' @ peer @ lit '': too many failed attempts''
         else if \<not> isAllowed h w address then lit ''Refused '' @ peer @ lit '': not in the allowed addresses''
         else if kMaxConnections \<le> length (connections w) \<or>
                 \<not> islocal \<and> kMaxConnectionsPerPeer \<le> hash_value (perPeer w) peer 0 then
           lit ''Refused '' @ peer @ lit '': too many connections''
         else [])"

definition newConnection :: "hosts \<Rightarrow> host \<Rightarrow> bytes \<Rightarrow> bytes \<Rightarrow> Connection" where
  "newConnection h address random early =
     \<lparr>c_address = address, c_peer = host_text h address, rx = early, unsent = length random, written = [random],
      c_timer = Some kHelloTimeoutMs, phase = Hello, closed = False, serverRandom = random,
      keys = \<lparr>c2s = [], s2c = []\<rparr>, received = 0, sent = 0, exchanges = 0, header = [], frameLength = 0, c_body = []\<rparr>"

text \<open>\<open>random\<close> are the bytes of \<^verbatim>\<open>RandomBytes\<close>, \<open>early\<close> those the client has sent before it was accepted.\<close>

definition admit :: "wire \<Rightarrow> hosts \<Rightarrow> int \<Rightarrow> host \<Rightarrow> bytes \<Rightarrow> bytes \<Rightarrow> worker \<Rightarrow> worker" where
  "admit wr h now peerAddress random early w =
     (let address = NormalizedPeer h peerAddress; peer = host_text h address; reason = refusal h now address w
      in if reason \<noteq> [] then logPeer now peer reason w
         else
           (let i = nextId w;
                w = w\<lparr>nextId := i + 1, connections := connections w @ [i],
                      perPeer := AList.update peer (hash_value (perPeer w) peer 0 + 1) (perPeer w),
                      conn := (conn w)(i := newConnection h address random early)\<rparr>
            in processInput wr h now i w))"

section \<open>The listener\<close>

definition stopListening :: "worker \<Rightarrow> worker" where
  "stopListening w =
     (if \<not> listening w then w
      else Log (lit ''Stopped listening'') (w\<lparr>listening := False, localAddress := None, apiPort := 0\<rparr>))"

definition finish :: "ApplyResult \<Rightarrow> worker \<Rightarrow> worker" where
  "finish result w = w\<lparr>apply_result := result\<rparr>"

text \<open>What \<^verbatim>\<open>QTcpServer::listen\<close> came to: the port listened on, or the error and its text.\<close>

datatype listen_outcome = Bound nat | NotBound SocketError qstring

definition sameListener :: "Config \<Rightarrow> worker \<Rightarrow> bool" where
  "sameListener config w \<longleftrightarrow>
     listening w \<and> enabled config \<and> length (key config) = kKeySize \<and> cfg_port config = cfg_port (cfg w) \<and>
     lan config = lan (cfg w) \<and> cfg_address config = cfg_address (cfg w) \<and> key config = key (cfg w)"

definition listen_address :: "hosts \<Rightarrow> Config \<Rightarrow> host" where
  "listen_address h config =
     (case cfg_address config of Some a \<Rightarrow> a | None \<Rightarrow> if lan config then anyHost h else localHost h)"

definition listening_text :: "hosts \<Rightarrow> Config \<Rightarrow> qstring" where
  "listening_text h config =
     (let port = lit (show_int (int (cfg_port config))); a = listen_address h config;
          explicitAddress = (cfg_address config \<noteq> None)
      in if (if explicitAddress then isEveryAddress h a else lan config) then
           lit ''Listening on port '' @ port @ lit '' (local network)''
         else
           (let hostText = (if \<not> explicitAddress then lit ''127.0.0.1''
                            else if isIPv6 h a then lit ''['' @ host_text h a @ lit '']'' else host_text h a)
            in lit ''Listening on '' @ hostText @ lit '':'' @ port))"

definition start_listener :: "hosts \<Rightarrow> Config \<Rightarrow> listen_outcome \<Rightarrow> worker \<Rightarrow> worker" where
  "start_listener h config outcome w =
     (let a = listen_address h config; port = lit (show_int (int (cfg_port config)));
          result = \<lparr>ar_state = Off, ar_address = Some a, ar_port = cfg_port config, ar_error = UnknownSocketError,
                    ar_text = []\<rparr>
      in case outcome of
           NotBound e errorString \<Rightarrow>
             (let line = (if e = AddressInUseError then lit ''Port '' @ port @ lit '' is in use''
                          else lit ''Cannot listen on port '' @ port @ lit '': '' @ errorString)
              in finish (result\<lparr>ar_state := BindFailed, ar_error := e, ar_text := line\<rparr>)
                   ((Log line w)\<lparr>apiPort := 0\<rparr>))
         | Bound serverPort \<Rightarrow>
             (let w = w\<lparr>listening := True, apiPort := (if isLoopback h a then 0 else serverPort)\<rparr>;
                  w = (if cfg_address config \<noteq> None \<and> \<not> isEveryAddress h a
                       then w\<lparr>localAddress := Some (NormalizedPeer h a)\<rparr> else w);
                  line = listening_text h config
              in finish (result\<lparr>ar_state := Listening, ar_text := line\<rparr>) (Log line w)))"

definition closeDisallowed :: "hosts \<Rightarrow> worker \<Rightarrow> worker" where
  "closeDisallowed h w =
     foldl (\<lambda>w i. if isAllowed h w (c_address (conn w i)) then w else closeConnection i w) w (connections w)"

definition apply_cfg :: "hosts \<Rightarrow> Config \<Rightarrow> listen_outcome \<Rightarrow> worker \<Rightarrow> worker" where
  "apply_cfg h config outcome w =
     (let same = sameListener config w; allowChanged = (allow config \<noteq> allow (cfg w));
          w = w\<lparr>cfg := config\<rparr>
      in if same then (if allowChanged then closeDisallowed h w else w)
         else
           (let w = stopListening (closeAll w);
                result = \<lparr>ar_state = Off, ar_address = None, ar_port = cfg_port config, ar_error = UnknownSocketError,
                          ar_text = []\<rparr>
            in if \<not> enabled config then finish (result\<lparr>ar_text := lit ''Off''\<rparr>) w
               else if length (key config) \<noteq> kKeySize then
                 finish (result\<lparr>ar_state := KeyInvalid,
                   ar_text := lit ''Not listening: the key is missing or invalid''\<rparr>) w
               else start_listener h config outcome w))"

section \<open>Events\<close>

text \<open>
  What the event loop of the worker's thread runs. Signals of a closed connection are disconnected. \<open>Sent\<close> is
  \<^verbatim>\<open>bytesWritten\<close>: so many bytes of the write buffer have left. \<open>Gone\<close> stands for the three signals that close
  a connection (disconnected, an error, the timer).
\<close>

datatype socket_event = Data nat bytes | Sent nat nat | Gone nat

fun socket_step :: "wire \<Rightarrow> hosts \<Rightarrow> int \<Rightarrow> worker \<Rightarrow> socket_event \<Rightarrow> worker" where
  "socket_step wr h now w (Data i bs) =
     (if i \<notin> set (connections w) then w
      else processInput wr h now i (upd i (\<lambda>c. c\<lparr>rx := rx c @ bs\<rparr>) w))"
| "socket_step wr h now w (Sent i n) =
     (if i \<notin> set (connections w) then w
      else (let w = upd i (\<lambda>c. c\<lparr>unsent := unsent c - n\<rparr>) w
            in if unsent (conn w i) = 0 then processInput wr h now i w else w))"
| "socket_step wr h now w (Gone i) = (if i \<notin> set (connections w) then w else closeConnection i w)"

text \<open>
  \<^verbatim>\<open>drain\<close> waits for the write buffers; signals of the sockets it waits for are delivered meanwhile and are
  its argument.
\<close>

definition drain :: "wire \<Rightarrow> hosts \<Rightarrow> int \<Rightarrow> socket_event list \<Rightarrow> worker \<Rightarrow> worker" where
  "drain wr h now meanwhile w = closeAll (foldl (socket_step wr h now) (stopListening w) meanwhile)"

datatype srv_event =
    NewConnection int host bytes bytes
  | Socket int socket_event
  | Answer nat nat Response
  | RunPost int
  | Apply Config listen_outcome
  | Drain int "socket_event list"

fun srv_step :: "wire \<Rightarrow> hosts \<Rightarrow> worker \<Rightarrow> srv_event \<Rightarrow> worker" where
  "srv_step wr h w (NewConnection now a random early) =
     (if \<not> listening w then w else admit wr h now a random early w)"
| "srv_step wr h w (Socket now e) = socket_step wr h now w e"
| "srv_step wr h w (Answer i number response) =
     (if (i, number) \<in> (\<lambda>(i, n, r). (i, n)) ` set (dispatched w) then answer i number response w else w)"
| "srv_step wr h w (RunPost now) =
     (case posts w of [] \<Rightarrow> w
      | (i, number, response) # rest \<Rightarrow> deliver wr h now i number response (w\<lparr>posts := rest\<rparr>))"
| "srv_step wr h w (Apply config outcome) = apply_cfg h config outcome w"
| "srv_step wr h w (Drain now meanwhile) = drain wr h now meanwhile w"

definition srv_init :: worker where
  "srv_init =
     \<lparr>cfg = \<lparr>enabled = False, lan = False, cfg_port = 9095, key = [], allow = [], adminLan = False, cfg_address = None\<rparr>,
      apply_result = \<lparr>ar_state = Off, ar_address = None, ar_port = 0, ar_error = UnknownSocketError, ar_text = []\<rparr>,
      localAddress = None, listening = False,
      conn = (\<lambda>_. \<lparr>c_address = 0, c_peer = [], rx = [], unsent = 0, written = [], c_timer = None, phase = Hello,
        closed = True, serverRandom = [], keys = \<lparr>c2s = [], s2c = []\<rparr>, received = 0, sent = 0, exchanges = 0,
        header = [], frameLength = 0, c_body = []\<rparr>),
      connections = [], perPeer = [], failures = [], authenticated = [], peerLogged = [], nextId = 1, apiPort = 0,
      log_lines = [], dispatched = [], answered = [], posts = []\<rparr>"

end
