(* ===== verification/RemoteServerSafety.thy ===== *)
theory RemoteServerSafety
  imports RemoteServer
begin

text \<open>
  What holds of the listener of the remote control API after any sequence of events: the bookkeeping of
  connections, who is connected, and the frames of each connection.
\<close>

section \<open>The bookkeeping\<close>

text \<open>The part of the state that says who is connected.\<close>

definition book :: "worker \<Rightarrow> nat list \<times> (qstring, int) qhash \<times> nat \<times> Config \<times> host option \<times> bool \<times>
    (nat \<Rightarrow> host \<times> qstring \<times> bool)" where
  "book w = (connections w, perPeer w, nextId w, cfg w, localAddress w, listening w,
     \<lambda>i. (c_address (conn w i), c_peer (conn w i), closed (conn w i)))"

lemma bookD:
  assumes "book w = book w'"
  shows "connections w = connections w'" "perPeer w = perPeer w'" "nextId w = nextId w'" "cfg w = cfg w'"
    "localAddress w = localAddress w'" "listening w = listening w'" "c_address (conn w i) = c_address (conn w' i)"
    "c_peer (conn w i) = c_peer (conn w' i)" "closed (conn w i) = closed (conn w' i)"
  using assms by (auto simp: book_def dest: fun_cong [of _ _ i])

lemma book_upd:
  assumes "\<And>c. c_address (f c) = c_address c" "\<And>c. c_peer (f c) = c_peer c" "\<And>c. closed (f c) = closed c"
  shows "book (upd i f w) = book w"
  using assms by (auto simp: book_def fun_eq_iff)

lemma book_closeConnection:
  assumes "book w = book w'"
  shows "book (closeConnection i w) = book (closeConnection i w')"
proof -
  note eqs = bookD [OF assms]
  show ?thesis
    using eqs by (auto simp: closeConnection_def Let_def book_def upd_def fun_eq_iff)
qed

lemma closeConnection_closed: "closed (conn (closeConnection i w) i)"
  by (simp add: closeConnection_def Let_def)

lemma book_quiet [simp]:
  "book (Log line w) = book w" "book (logPeer now p line w) = book w" "book (noteAuthenticated now p w) = book w"
  "book (note_failure now p w) = book w" "book (w\<lparr>dispatched := d\<rparr>) = book w" "book (w\<lparr>posts := q\<rparr>) = book w"
  "book (w\<lparr>answered := a\<rparr>) = book w"
  by (simp_all add: book_def Log_def logPeer_def noteAuthenticated_def note_failure_def Let_def)

text \<open>An operation on connection \<open>i\<close> leaves the book alone or closes that connection.\<close>

definition settles :: "nat \<Rightarrow> worker \<Rightarrow> worker \<Rightarrow> bool" where
  "settles i w w' \<longleftrightarrow> book w' = book w \<or> book w' = book (closeConnection i w)"

lemma settles_refl [simp]: "settles i w w"
  by (simp add: settles_def)

lemma settles_book: "book w' = book w \<Longrightarrow> settles i w' w'' \<longleftrightarrow> settles i w w''"
  by (auto simp: settles_def dest: book_closeConnection [of _ _ i])

lemma settles_close: "settles i w (closeConnection i w)"
  by (simp add: settles_def)

lemma settles_fail: "settles i w (fail h now i reason w)"
proof -
  have "book (if isLocal h u a then u else note_failure now p u) = book u" for u a p by simp
  then show ?thesis
    by (auto simp: fail_def Let_def settles_def intro!: book_closeConnection)
qed

lemma settles_sendResponse: "settles i w (sendResponse wr i r w)"
proof (cases "sent (conn w i) = kMaxCounter")
  case True
  then show ?thesis by (simp add: sendResponse_def Let_def settles_close)
next
  case False
  then show ?thesis by (auto simp: sendResponse_def Let_def settles_def intro!: book_upd)
qed

lemma settles_from: "settles i w1 w2 \<Longrightarrow> book w1 = book w \<Longrightarrow> settles i w w2"
  using settles_book by blast

lemma settles_handleRequest: "settles i w (handleRequest wr h i p w)"
proof (cases "ParseRequest wr p")
  case (Inl e)
  then show ?thesis by (simp add: handleRequest_def settles_sendResponse del: lit_simps)
next
  case (Inr r)
  then show ?thesis by (simp add: handleRequest_def Let_def settles_def book_upd)
qed

lemma settles_takeFrame: "settles i w (fst (takeFrame wr h now i w))"
proof -
  let ?u = "upd i (\<lambda>c. c\<lparr>header := [], c_body := []\<rparr>) w"
  let ?v = "upd i (\<lambda>c. c\<lparr>received := received c + 1\<rparr>) ?u"
  have u: "book ?u = book w" "book ?v = book w" by (auto simp: book_upd)
  then have v: "book (noteAuthenticated now p ?v) = book w" for p by simp
  show ?thesis
    unfolding takeFrame_def Let_def
    using settles_close settles_from [OF settles_fail u(1)] settles_from [OF settles_handleRequest v]
      settles_from [OF settles_handleRequest u(2)]
    by (simp split: option.split del: lit_simps)
qed

lemma settles_inputPass: "settles i w (fst (inputPass wr h now i w))"
proof -
  let ?hello = "upd i (\<lambda>c. c\<lparr>rx := drop kClientHelloSize (rx c)\<rparr>) w"
  have hello: "book ?hello = book w" by (simp add: book_upd)
  have rh: "book (upd i readHeader w) = book w" and rb: "book (upd i readBody (upd i readHeader w)) = book w"
    by (simp_all add: book_upd readHeader_def readBody_def Let_def)
  show ?thesis
    unfolding inputPass_def Let_def
    using settles_from [OF settles_fail hello] settles_from [OF settles_fail rh] rb hello
      settles_from [OF settles_takeFrame rb]
    by (simp add: settles_def book_upd del: lit_simps)
qed

lemma processInput_unfold:
  "closed (conn w i) \<Longrightarrow> processInput wr h now i w = w"
  "\<not> closed (conn w i) \<Longrightarrow> processInput wr h now i w =
     (if snd (inputPass wr h now i w) then processInput wr h now i (fst (inputPass wr h now i w))
      else fst (inputPass wr h now i w))"
  by (simp_all add: processInput.simps [of wr h now i w] split: prod.split bool.split)

lemma processInput_keeps:
  assumes "\<And>w. P w \<Longrightarrow> \<not> closed (conn w i) \<Longrightarrow> P (fst (inputPass wr h now i w))"
  shows "P w \<Longrightarrow> P (processInput wr h now i w)"
proof (induction "pendingInput (conn w i)" arbitrary: w rule: less_induct)
  case less
  show ?case
  proof (cases "closed (conn w i)")
    case False
    then have "P (fst (inputPass wr h now i w))" using assms less.prems by blast
    moreover have "snd (inputPass wr h now i w) \<Longrightarrow>
        pendingInput (conn (fst (inputPass wr h now i w)) i) < pendingInput (conn w i)"
      using inputPass_consumes [of wr h now i w] by (metis (full_types) prod.collapse)
    ultimately show ?thesis using less.hyps False by (simp add: processInput_unfold)
  qed (simp add: less.prems processInput_unfold)
qed

lemma settles_step: "settles i w w1 \<Longrightarrow> \<not> closed (conn w1 i) \<Longrightarrow> settles i w1 w2 \<Longrightarrow> settles i w w2"
proof -
  assume a: "settles i w w1" "\<not> closed (conn w1 i)" "settles i w1 w2"
  have "book w1 \<noteq> book (closeConnection i w)"
    using a(2) bookD(9) closeConnection_closed by metis
  with a(1) have "book w1 = book w" by (auto simp: settles_def)
  then show ?thesis using a(3) settles_from by blast
qed

lemma settles_processInput: "settles i w (processInput wr h now i w)"
  by (rule processInput_keeps [of "settles i w"]) (auto intro: settles_step settles_inputPass)

text \<open>The connections open, each counted for its peer, and never too many.\<close>

definition peers :: "worker \<Rightarrow> qstring multiset" where
  "peers w = image_mset (\<lambda>i. c_peer (conn w i)) (mset (connections w))"

definition count_inv :: "worker \<Rightarrow> bool" where
  "count_inv w \<longleftrightarrow> distinct (connections w) \<and> (\<forall>i. i \<in> set (connections w) \<longleftrightarrow> \<not> closed (conn w i)) \<and>
     (\<forall>i \<in> set (connections w). 0 < i \<and> i < nextId w) \<and> represents (perPeer w) (peers w) \<and>
     length (connections w) \<le> kMaxConnections \<and> 0 < nextId w"

text \<open>Who may be connected under the configuration in force.\<close>

definition remotes :: "hosts \<Rightarrow> worker \<Rightarrow> qstring \<Rightarrow> nat list" where
  "remotes h w p = filter (\<lambda>i. c_peer (conn w i) = p \<and> \<not> isLocal h w (c_address (conn w i))) (connections w)"

definition crowd_inv :: "hosts \<Rightarrow> worker \<Rightarrow> bool" where
  "crowd_inv h w \<longleftrightarrow>
     (\<forall>p. int (length (remotes h w p)) \<le> kMaxConnectionsPerPeer) \<and> (\<not> listening w \<longrightarrow> connections w = [])"

definition policy_inv :: "hosts \<Rightarrow> worker \<Rightarrow> bool" where
  "policy_inv h w \<longleftrightarrow> crowd_inv h w \<and> (\<forall>i \<in> set (connections w). isAllowed h w (c_address (conn w i)))"

lemma isLocal_book:
  assumes "book w = book w'"
  shows "isLocal h w a = isLocal h w' a"
  unfolding isLocal_def bookD(5) [OF assms] ..

lemma isAllowed_book:
  assumes "book w = book w'"
  shows "isAllowed h w a = isAllowed h w' a"
  unfolding isAllowed_def isLocal_book [OF assms] bookD(4) [OF assms] ..

lemma count_inv_book:
  assumes "book w = book w'"
  shows "count_inv w = count_inv w'"
  unfolding count_inv_def peers_def bookD [OF assms] ..

lemma policy_inv_book:
  assumes "book w = book w'"
  shows "policy_inv h w = policy_inv h w'"
  unfolding policy_inv_def crowd_inv_def remotes_def
  by (simp only: isLocal_book [OF assms] isAllowed_book [OF assms] bookD [OF assms])

lemma closeConnection_simps [simp]:
  "cfg (closeConnection i w) = cfg w" "localAddress (closeConnection i w) = localAddress w"
  "listening (closeConnection i w) = listening w" "nextId (closeConnection i w) = nextId w"
  "c_address (conn (closeConnection i w) j) = c_address (conn w j)"
  "c_peer (conn (closeConnection i w) j) = c_peer (conn w j)"
  by (simp_all add: closeConnection_def Let_def)

lemma isAllowed_close [simp]:
  "isLocal h (closeConnection i w) a = isLocal h w a" "isAllowed h (closeConnection i w) a = isAllowed h w a"
  by (simp_all add: isAllowed_def isLocal_def)

lemma closed_close: "closed (conn (closeConnection i w) j) \<longleftrightarrow> closed (conn w j) \<or> j = i"
  by (auto simp: closeConnection_def Let_def)

lemma connections_close:
  "count_inv w \<Longrightarrow> connections (closeConnection i w) = filter (\<lambda>j. j \<noteq> i) (connections w)"
  by (cases "closed (conn w i)") (auto simp: closeConnection_def Let_def count_inv_def intro!: filter_True [symmetric])

lemma mset_filter_neq: "distinct xs \<Longrightarrow> mset (filter (\<lambda>j. j \<noteq> i) xs) = mset xs - {#i#}"
  using distinct_remove1_removeAll [of xs i] mset_remove1 [of i xs]
  by (simp add: removeAll_filter_not_eq eq_commute)

lemma perPeer_close:
  assumes "count_inv w"
  shows "represents (perPeer (closeConnection i w)) (peers (closeConnection i w))"
proof (cases "closed (conn w i)")
  case False
  with assms have i: "i \<in># mset (connections w)" and d: "distinct (connections w)"
    and r: "represents (perPeer w) (peers w)" by (auto simp: count_inv_def)
  have "peers (closeConnection i w) = peers w - {#c_peer (conn w i)#}"
    using i unfolding peers_def connections_close [OF assms] mset_filter_neq [OF d]
    by (simp add: image_mset_Diff)
  moreover have "c_peer (conn w i) \<in># peers w" using i by (auto simp: peers_def)
  moreover have "perPeer (closeConnection i w) =
      (let n = hash_value (perPeer w) (c_peer (conn w i)) 0 - 1; counts = AList.update (c_peer (conn w i)) n (perPeer w)
       in if n \<le> 0 then AList.delete (c_peer (conn w i)) counts else counts)"
    using False by (simp add: closeConnection_def Let_def)
  ultimately show ?thesis by (simp only: represents_drop [OF r])
qed (use assms in \<open>simp add: closeConnection_def count_inv_def\<close>)

lemma count_inv_close:
  assumes "count_inv w"
  shows "count_inv (closeConnection i w)"
proof -
  have "length (filter (\<lambda>j. j \<noteq> i) (connections w)) \<le> kMaxConnections"
    using assms length_filter_le le_trans unfolding count_inv_def by blast
  then show ?thesis
    using assms perPeer_close [OF assms, of i] unfolding count_inv_def [of "closeConnection i w"]
    by (auto simp: connections_close closed_close count_inv_def)
qed

lemma crowd_inv_close:
  assumes "count_inv w" "crowd_inv h w"
  shows "crowd_inv h (closeConnection i w)"
proof -
  have "remotes h (closeConnection i w) p = filter (\<lambda>j. j \<noteq> i) (remotes h w p)" for p
    by (simp add: remotes_def connections_close [OF assms(1)] conj_commute)
  then have "int (length (remotes h (closeConnection i w) p)) \<le> int (length (remotes h w p))" for p by simp
  then have "int (length (remotes h (closeConnection i w) p)) \<le> kMaxConnectionsPerPeer" for p
    using assms(2) order_trans unfolding crowd_inv_def by blast
  then show ?thesis using assms by (auto simp: crowd_inv_def connections_close)
qed

lemma policy_inv_close: "count_inv w \<Longrightarrow> policy_inv h w \<Longrightarrow> policy_inv h (closeConnection i w)"
  by (simp add: policy_inv_def crowd_inv_close connections_close)

lemma count_inv_settles: "settles i w w' \<Longrightarrow> count_inv w \<Longrightarrow> count_inv w'"
  using count_inv_book count_inv_close unfolding settles_def by blast

lemma policy_inv_settles: "settles i w w' \<Longrightarrow> count_inv w \<Longrightarrow> policy_inv h w \<Longrightarrow> policy_inv h w'"
  using policy_inv_book policy_inv_close unfolding settles_def by blast

lemma closeAll_effect:
  assumes "count_inv w"
  shows "count_inv (foldl (\<lambda>w i. closeConnection i w) w xs)"
    and "connections (foldl (\<lambda>w i. closeConnection i w) w xs) = filter (\<lambda>j. j \<notin> set xs) (connections w)"
proof (induction xs rule: rev_induct)
  case (snoc x xs)
  {
    case 1
    show ?case using snoc by (simp add: count_inv_close)
  next
    case 2
    show ?case using snoc by (simp add: connections_close conj_commute)
  }
qed (use assms in auto)

lemma count_inv_closeAll: "count_inv w \<Longrightarrow> count_inv (closeAll w) \<and> connections (closeAll w) = []"
  using closeAll_effect [of w "connections w"] by (simp add: closeAll_def filter_False)

lemma foldl_close_simps [simp]:
  "cfg (foldl (\<lambda>w i. closeConnection i w) w xs) = cfg w"
  "localAddress (foldl (\<lambda>w i. closeConnection i w) w xs) = localAddress w"
  "listening (foldl (\<lambda>w i. closeConnection i w) w xs) = listening w"
  by (induction xs arbitrary: w) auto

lemma policy_inv_nobody: "connections w = [] \<Longrightarrow> policy_inv h w"
  by (simp add: policy_inv_def crowd_inv_def remotes_def kMaxConnectionsPerPeer_def)

section \<open>Letting a peer in\<close>

definition insertConnection :: "hosts \<Rightarrow> host \<Rightarrow> bytes \<Rightarrow> bytes \<Rightarrow> worker \<Rightarrow> worker" where
  "insertConnection h address random early w =
     (let i = nextId w; peer = host_text h address
      in w\<lparr>nextId := i + 1, connections := connections w @ [i],
           perPeer := AList.update peer (hash_value (perPeer w) peer 0 + 1) (perPeer w),
           conn := (conn w)(i := newConnection h address random early)\<rparr>)"

lemma admit_unfold:
  "admit wr h now a random early w =
     (let address = NormalizedPeer h a
      in if refusal h now address w \<noteq> [] then logPeer now (host_text h address) (refusal h now address w) w
         else processInput wr h now (nextId w) (insertConnection h address random early w))"
  by (simp add: admit_def insertConnection_def Let_def)

lemma refusal_NilD:
  assumes "refusal h now a w = []"
  shows "isAllowed h w a" "length (connections w) < kMaxConnections"
    "\<not> isLocal h w a \<Longrightarrow> hash_value (perPeer w) (host_text h a) 0 < kMaxConnectionsPerPeer"
    "\<not> isLocal h w a \<Longrightarrow> \<not> isRefused now w (host_text h a)"
  using assms by (auto simp: refusal_def Let_def split: if_splits)

lemma count_inv_insert:
  assumes "count_inv w" "refusal h now a w = []"
  shows "count_inv (insertConnection h a random early w)"
proof -
  let ?i = "nextId w" and ?p = "host_text h a"
  have new: "?i \<notin> set (connections w)" using assms(1) by (auto simp: count_inv_def)
  have "peers (insertConnection h a random early w) = add_mset ?p (peers w)"
    using new by (auto simp: peers_def insertConnection_def Let_def newConnection_def intro!: image_mset_cong)
  moreover have "represents (AList.update ?p (hash_value (perPeer w) ?p 0 + 1) (perPeer w)) (add_mset ?p (peers w))"
    by (rule represents_bump) (use assms(1) in \<open>simp add: count_inv_def\<close>)
  ultimately have "represents (perPeer (insertConnection h a random early w)) (peers (insertConnection h a random early w))"
    by (simp add: insertConnection_def Let_def)
  then show ?thesis
    using assms(1) new refusal_NilD(2) [OF assms(2)]
    by (auto simp: count_inv_def insertConnection_def Let_def newConnection_def)
qed

lemma count_image_filter: "count (image_mset f (mset xs)) p = length (filter (\<lambda>i. f i = p) xs)"
  by (induction xs) auto

lemma remotes_count: "length (remotes h w p) \<le> count (peers w) p"
proof -
  have "remotes h w p = filter (\<lambda>i. \<not> isLocal h w (c_address (conn w i))) (filter (\<lambda>i. c_peer (conn w i) = p) (connections w))"
    by (simp add: remotes_def conj_commute)
  then show ?thesis unfolding peers_def count_image_filter by (metis length_filter_le)
qed

lemma policy_inv_insert:
  assumes "count_inv w" "policy_inv h w" "refusal h now a w = []" "listening w"
  shows "policy_inv h (insertConnection h a random early w)"
proof -
  let ?w = "insertConnection h a random early w" and ?i = "nextId w"
  have new: "?i \<notin> set (connections w)" using assms(1) by (auto simp: count_inv_def)
  have same: "isLocal h ?w b = isLocal h w b" "isAllowed h ?w b = isAllowed h w b" for b
    by (simp_all add: isAllowed_def isLocal_def insertConnection_def Let_def)
  have c: "conn ?w = (conn w)(?i := newConnection h a random early)" "connections ?w = connections w @ [?i]"
    by (simp_all add: insertConnection_def Let_def)
  have "filter (\<lambda>i. c_peer (conn ?w i) = p \<and> \<not> isLocal h w (c_address (conn ?w i))) (connections w) = remotes h w p" for p
    unfolding remotes_def c(1) using new by (intro filter_cong) auto
  then have r: "remotes h ?w p = remotes h w p @ (if p = host_text h a \<and> \<not> isLocal h w a then [?i] else [])" for p
    by (simp add: remotes_def [of h ?w] c same newConnection_def)
  have "int (count (peers w) (host_text h a)) = hash_value (perPeer w) (host_text h a) 0"
    using assms(1) represents_value unfolding count_inv_def by metis
  with refusal_NilD(3) [OF assms(3)] remotes_count [of h w "host_text h a"]
  have "\<not> isLocal h w a \<Longrightarrow> int (length (remotes h w (host_text h a))) < kMaxConnectionsPerPeer" by linarith
  with assms(2) have "int (length (remotes h ?w p)) \<le> kMaxConnectionsPerPeer" for p
    unfolding r by (auto simp: policy_inv_def crowd_inv_def)
  moreover have "listening ?w" using assms(4) by (simp add: insertConnection_def Let_def)
  ultimately show ?thesis
    using assms(2) refusal_NilD(1) [OF assms(3)] new
    by (auto simp: policy_inv_def crowd_inv_def same c newConnection_def)
qed

section \<open>New settings\<close>

lemma listener_fields [simp]:
  "connections (stopListening w) = connections w" "conn (stopListening w) = conn w" "cfg (stopListening w) = cfg w"
  "perPeer (stopListening w) = perPeer w" "nextId (stopListening w) = nextId w"
  "connections (finish r w) = connections w" "conn (finish r w) = conn w" "cfg (finish r w) = cfg w"
  "perPeer (finish r w) = perPeer w" "nextId (finish r w) = nextId w"
  "connections (Log l w) = connections w" "conn (Log l w) = conn w" "cfg (Log l w) = cfg w"
  "perPeer (Log l w) = perPeer w" "nextId (Log l w) = nextId w"
  by (simp_all add: stopListening_def finish_def Log_def)

lemma start_listener_fields [simp]:
  "connections (start_listener h c out w) = connections w" "conn (start_listener h c out w) = conn w"
  "perPeer (start_listener h c out w) = perPeer w" "nextId (start_listener h c out w) = nextId w"
  "cfg (start_listener h c out w) = cfg w"
  by (simp_all add: start_listener_def Let_def split: listen_outcome.split)

lemma count_inv_fields:
  "connections w' = connections w \<Longrightarrow> conn w' = conn w \<Longrightarrow> perPeer w' = perPeer w \<Longrightarrow> nextId w' = nextId w \<Longrightarrow>
     count_inv w' = count_inv w"
  by (simp add: count_inv_def peers_def)

lemma closeDisallowed_effect:
  assumes "count_inv w" "crowd_inv h w"
  defines "f \<equiv> \<lambda>w i. if isAllowed h w (c_address (conn w i)) then w else closeConnection i w"
  shows "count_inv (foldl f w xs) \<and> crowd_inv h (foldl f w xs) \<and> cfg (foldl f w xs) = cfg w \<and>
    localAddress (foldl f w xs) = localAddress w \<and> (\<forall>j. c_address (conn (foldl f w xs) j) = c_address (conn w j)) \<and>
    connections (foldl f w xs) =
      filter (\<lambda>j. j \<in> set xs \<longrightarrow> isAllowed h w (c_address (conn w j))) (connections w)"
proof (induction xs rule: rev_induct)
  case (snoc x xs)
  let ?w = "foldl f w xs"
  have same: "isAllowed h ?w a = isAllowed h w a" for a
    using snoc by (simp add: isAllowed_def isLocal_def)
  show ?case
  proof (cases "isAllowed h w (c_address (conn w x))")
    case True
    with snoc same show ?thesis by (auto simp: f_def intro!: filter_cong)
  next
    case False
    then have "f ?w x = closeConnection x ?w" using snoc same by (simp add: f_def)
    with False snoc show ?thesis
      by (auto simp: count_inv_close crowd_inv_close connections_close intro!: filter_cong)
  qed
qed (use assms in auto)

lemma policy_inv_closeDisallowed:
  assumes "count_inv w" "crowd_inv h w"
  shows "count_inv (closeDisallowed h w)" "policy_inv h (closeDisallowed h w)" "cfg (closeDisallowed h w) = cfg w"
proof -
  note e = closeDisallowed_effect [OF assms, of "connections w", folded closeDisallowed_def]
  have "isAllowed h (closeDisallowed h w) a = isAllowed h w a" for a
    using e by (simp add: isAllowed_def isLocal_def)
  with e show "policy_inv h (closeDisallowed h w)" by (auto simp: policy_inv_def)
qed (use closeDisallowed_effect [OF assms, of "connections w", folded closeDisallowed_def] in auto)

lemma apply_same:
  assumes "count_inv w" "policy_inv h w" "sameListener config w"
  shows "count_inv (apply_cfg h config out w)" "policy_inv h (apply_cfg h config out w)"
proof -
  let ?w = "w\<lparr>cfg := config\<rparr>"
  have c: "count_inv ?w" using assms(1) by (simp add: count_inv_def peers_def)
  have l: "isLocal h ?w a = isLocal h w a" for a by (simp add: isLocal_def)
  then have cr: "crowd_inv h ?w" using assms(2) by (simp add: policy_inv_def crowd_inv_def remotes_def)
  have "allow config = allow (cfg w) \<Longrightarrow> isAllowed h ?w a = isAllowed h w a" for a
    using assms(3) by (simp add: isAllowed_def l sameListener_def)
  then have "allow config = allow (cfg w) \<Longrightarrow> policy_inv h ?w"
    using assms(2) cr by (simp add: policy_inv_def)
  then show "count_inv (apply_cfg h config out w)" "policy_inv h (apply_cfg h config out w)"
    using assms(3) c cr policy_inv_closeDisallowed by (auto simp: apply_cfg_def Let_def)
qed

lemma apply_other:
  assumes "count_inv w" "\<not> sameListener config w"
  shows "count_inv (apply_cfg h config out w)" "connections (apply_cfg h config out w) = []"
    "conn (apply_cfg h config out w) = conn (closeAll (w\<lparr>cfg := config\<rparr>))"
proof -
  let ?w = "closeAll (w\<lparr>cfg := config\<rparr>)" and ?r = "apply_cfg h config out w"
  have "count_inv (w\<lparr>cfg := config\<rparr>)" by (rule count_inv_fields [THEN iffD2, OF _ _ _ _ assms(1)]) simp_all
  then have c: "count_inv ?w" "connections ?w = []" using count_inv_closeAll by blast+
  have f: "connections ?r = connections ?w" "conn ?r = conn ?w" "perPeer ?r = perPeer ?w" "nextId ?r = nextId ?w"
    using assms(2) by (simp_all add: apply_cfg_def Let_def)
  then show "count_inv ?r" "connections ?r = []" "conn ?r = conn ?w" using c count_inv_fields [OF f] by simp_all
qed

section \<open>Every event keeps the bookkeeping\<close>

definition book_inv :: "hosts \<Rightarrow> worker \<Rightarrow> bool" where
  "book_inv h w \<longleftrightarrow> count_inv w \<and> policy_inv h w"

lemma book_inv_settles: "settles i w w' \<Longrightarrow> book_inv h w \<Longrightarrow> book_inv h w'"
  using count_inv_settles policy_inv_settles unfolding book_inv_def by blast

lemma settles_after_upd: "book u = book w \<Longrightarrow> settles i w (processInput wr h now i u)"
  using settles_from [OF settles_processInput] .

lemma settles_socket: "\<exists>i. settles i w (socket_step wr h now w e)"
proof (cases e)
  case (Data i bs)
  have "book (upd i (\<lambda>c. c\<lparr>rx := rx c @ bs\<rparr>) w) = book w" by (simp add: book_upd)
  from settles_after_upd [OF this] Data show ?thesis by (intro exI [of _ i]) simp
next
  case (Sent i n)
  have "book (upd i (\<lambda>c. c\<lparr>unsent := unsent c - n\<rparr>) w) = book w" by (simp add: book_upd)
  with settles_after_upd [OF this] Sent show ?thesis by (intro exI [of _ i]) (simp add: Let_def settles_def)
next
  case (Gone i)
  then show ?thesis by (intro exI [of _ i]) (simp add: settles_close)
qed

lemma settles_deliver: "settles i w (deliver wr h now i n r w)"
proof -
  have s: "settles i w (sendResponse wr i r w)" by (rule settles_sendResponse)
  show ?thesis
  proof (cases "closed (conn (sendResponse wr i r w) i)")
    case True
    with s show ?thesis by (simp add: deliver_def processInput_unfold)
  next
    case False
    with settles_step [OF s _ settles_processInput] show ?thesis by (simp add: deliver_def)
  qed
qed

lemma count_inv_drain:
  assumes "count_inv w"
  shows "count_inv (drain wr h now es w) \<and> connections (drain wr h now es w) = []"
proof -
  have "count_inv (foldl (socket_step wr h now) u es)" if "count_inv u" for u
    using that
  proof (induction es arbitrary: u)
    case (Cons e es)
    then show ?case using settles_socket count_inv_settles by (metis foldl_Cons)
  qed simp
  moreover have "count_inv (stopListening w)" using assms count_inv_fields [of "stopListening w" w] by simp
  ultimately show ?thesis using count_inv_closeAll unfolding drain_def by blast
qed

lemma book_inv_admit:
  assumes "book_inv h w" "listening w"
  shows "book_inv h (admit wr h now a random early w)"
proof (cases "refusal h now (NormalizedPeer h a) w = []")
  case True
  then have "book_inv h (insertConnection h (NormalizedPeer h a) random early w)"
    using assms count_inv_insert policy_inv_insert unfolding book_inv_def by blast
  with True show ?thesis
    using book_inv_settles [OF settles_processInput] by (simp add: admit_unfold Let_def)
next
  case False
  have "book_inv h (logPeer now p l w)" for p l
    by (rule book_inv_settles [OF _ assms(1), of 0]) (simp add: settles_def)
  with False show ?thesis by (simp add: admit_unfold Let_def)
qed

lemma book_inv_step: "book_inv h w \<Longrightarrow> book_inv h (srv_step wr h w e)"
proof (induction e)
  case (NewConnection now a random early)
  then show ?case by (simp add: book_inv_admit)
next
  case (Socket now e)
  then show ?case using settles_socket [of w wr h now e] book_inv_settles by fastforce
next
  case (Answer i n r)
  then show ?case
    using book_inv_settles [of 0 w "answer i n r w" h] by (simp add: settles_def answer_def book_def)
next
  case (RunPost now)
  have "settles 0 w (w\<lparr>posts := rest\<rparr>)" for rest by (simp add: settles_def)
  with RunPost show ?case
    using book_inv_settles [OF settles_deliver] book_inv_settles [of 0 w _ h] by (simp split: list.split prod.split)
next
  case (Apply config out)
  then show ?case
    using apply_same apply_other policy_inv_nobody unfolding book_inv_def by (cases "sameListener config w") auto
next
  case (Drain now es)
  then show ?case using count_inv_drain policy_inv_nobody unfolding book_inv_def by auto
qed

lemma book_inv_init: "book_inv h srv_init"
  by (auto simp: book_inv_def count_inv_def srv_init_def peers_def represents_def kMaxConnections_def intro!: policy_inv_nobody)

end
