(* ===== verification/RemoteServerFrames.thy ===== *)
theory RemoteServerFrames
  imports RemoteServerSafety
begin

text \<open>
  The frames of a connection of the remote control API: no nonce is used twice under a key, every
  request that authenticates is answered by one frame, and every session key comes from the key in force.
\<close>

section \<open>One connection\<close>

text \<open>All that was written: the server's random bytes, then sealed frames numbered from zero.\<close>

definition frames_of :: "wire \<Rightarrow> Connection \<Rightarrow> bytes list \<Rightarrow> bool" where
  "frames_of wr c ps \<longleftrightarrow> length ps = sent c \<and>
     written c = serverRandom c # map2 (\<lambda>n p. SealFrame wr (s2c (keys c)) n p) [0..<sent c] ps"

definition frame_inv :: "wire \<Rightarrow> Connection \<Rightarrow> bool" where
  "frame_inv wr c \<longleftrightarrow> (\<exists>ps. frames_of wr c ps) \<and> sent c \<le> kMaxCounter \<and> received c \<le> kMaxCounter \<and>
     sent c \<le> received c \<and> received c \<le> sent c + 1 \<and> (phase c = Hello \<longrightarrow> sent c = 0) \<and>
     (\<not> closed c \<longrightarrow> received c = sent c + (if phase c = Pending then 1 else 0))"

definition key_inv :: "wire \<Rightarrow> bytes \<Rightarrow> Connection \<Rightarrow> bool" where
  "key_inv wr k c \<longleftrightarrow> (\<not> closed c \<longrightarrow> phase c \<noteq> Hello \<longrightarrow>
     (\<exists>r. length r = kRandomSize \<and> keys c = DeriveKeys wr k (serverRandom c) r))"

definition conn_inv :: "wire \<Rightarrow> bytes \<Rightarrow> Connection \<Rightarrow> bool" where
  "conn_inv wr k c \<longleftrightarrow> frame_inv wr c \<and> key_inv wr k c"

lemmas conn_inv_defs = conn_inv_def frame_inv_def key_inv_def frames_of_def

lemma conn_inv_buffers [simp]:
  "conn_inv wr k (c\<lparr>rx := x\<rparr>) = conn_inv wr k c" "conn_inv wr k (c\<lparr>unsent := n\<rparr>) = conn_inv wr k c"
  "conn_inv wr k (c\<lparr>header := x, c_body := y\<rparr>) = conn_inv wr k c"
  "conn_inv wr k (readHeader c) = conn_inv wr k c" "conn_inv wr k (readBody c) = conn_inv wr k c"
  by (simp_all add: conn_inv_defs readHeader_def readBody_def Let_def)

lemma buffers_keep [simp]:
  "phase (readHeader c) = phase c" "closed (readHeader c) = closed c" "phase (readBody c) = phase c"
  "closed (readBody c) = closed c" "received (readHeader c) = received c" "received (readBody c) = received c"
  "sent (readHeader c) = sent c" "sent (readBody c) = sent c"
  by (simp_all add: readHeader_def readBody_def Let_def)

lemma conn_inv_closed: "conn_inv wr k c \<Longrightarrow> conn_inv wr k' (c\<lparr>closed := True, c_timer := t\<rparr>)"
  by (simp add: conn_inv_defs)

lemma conn_inv_hello:
  assumes "conn_inv wr k c" "phase c = Hello" "\<not> closed c" "length r = kRandomSize"
  shows "conn_inv wr k (c\<lparr>rx := x, keys := DeriveKeys wr k (serverRandom c) r, phase := Ready, c_timer := t\<rparr>)"
  using assms by (auto simp: conn_inv_defs)

lemma conn_inv_request:
  assumes "conn_inv wr k c" "phase c = Ready" "\<not> closed c" "received c \<noteq> kMaxCounter"
  shows "conn_inv wr k (c\<lparr>received := received c + 1, phase := Pending, c_timer := t, exchanges := n\<rparr>)"
  using assms by (auto simp: conn_inv_defs)

lemma frames_of_snoc:
  assumes "frames_of wr c ps"
  shows "frames_of wr (c\<lparr>written := written c @ [SealFrame wr (s2c (keys c)) (sent c) p], unsent := u,
    sent := sent c + 1, phase := f, c_timer := t\<rparr>) (ps @ [p])"
  using assms by (simp add: frames_of_def zip_append)

text \<open>An answer is due: a frame was received, and none sent for it.\<close>

definition due :: "wire \<Rightarrow> bytes \<Rightarrow> Connection \<Rightarrow> bool" where
  "due wr k c \<longleftrightarrow> conn_inv wr k (c\<lparr>phase := Pending\<rparr>) \<and> \<not> closed c"

lemma due_pending: "conn_inv wr k c \<Longrightarrow> phase c = Pending \<Longrightarrow> \<not> closed c \<Longrightarrow> due wr k c"
  by (simp add: due_def conn_inv_defs)

lemma due_received:
  assumes "conn_inv wr k c" "phase c = Ready" "\<not> closed c" "received c \<noteq> kMaxCounter"
  shows "due wr k (c\<lparr>received := received c + 1\<rparr>)"
  using assms by (auto simp: due_def conn_inv_defs)

lemma due_sent: "due wr k c \<Longrightarrow> sent c < kMaxCounter"
  by (auto simp: due_def conn_inv_def frame_inv_def)

lemma due_request: "due wr k c \<Longrightarrow> conn_inv wr k (c\<lparr>phase := Pending, c_timer := t, exchanges := n\<rparr>)"
  by (auto simp: due_def conn_inv_defs)

lemma due_respond:
  assumes "due wr k c"
  shows "conn_inv wr k (c\<lparr>written := written c @ [SealFrame wr (s2c (keys c)) (sent c) p], unsent := u,
    sent := sent c + 1, phase := Ready, c_timer := t\<rparr>)" (is "conn_inv wr k ?c")
proof -
  obtain ps where "frames_of wr c ps" and rest: "received c = sent c + 1" "received c \<le> kMaxCounter" "\<not> closed c"
    "\<exists>r. length r = kRandomSize \<and> keys c = DeriveKeys wr k (serverRandom c) r"
    using assms by (auto simp: due_def conn_inv_def frame_inv_def key_inv_def frames_of_def)
  from frames_of_snoc [OF this(1)] have "\<exists>ps. frames_of wr ?c ps" ..
  then show ?thesis using rest by (simp add: conn_inv_def frame_inv_def key_inv_def)
qed

section \<open>The operations on one connection\<close>

lemma conn_closeConnection:
  "conn (closeConnection i w) =
     (if closed (conn w i) then conn w else (conn w)(i := (conn w i)\<lparr>closed := True, c_timer := None\<rparr>))"
  by (simp add: closeConnection_def Let_def)

lemma conn_quiet [simp]: "conn (logPeer now p l w) = conn w" "conn (note_failure now p w) = conn w"
  by (simp_all add: logPeer_def Log_def note_failure_def Let_def)

lemma conn_fail [simp]: "conn (fail h now i r w) = conn (closeConnection i w)"
  unfolding fail_def Let_def conn_closeConnection by simp

lemma conn_other [simp]:
  assumes "j \<noteq> i"
  shows "conn (closeConnection i w) j = conn w j" "conn (sendResponse wr i rs w) j = conn w j"
    "conn (handleRequest wr h i p w) j = conn w j"
proof -
  show c: "conn (closeConnection i v) j = conn v j" for v using assms by (simp add: conn_closeConnection)
  show s: "conn (sendResponse wr i r v) j = conn v j" for r v
    using assms c unfolding sendResponse_def Let_def by simp
  show "conn (handleRequest wr h i p w) j = conn w j"
    using assms s unfolding handleRequest_def Let_def by (simp split: sum.split del: lit_simps)
qed

lemma conn_inv_close: "conn_inv wr k (conn w j) \<Longrightarrow> conn_inv wr k (conn (closeConnection i w) j)"
  by (auto simp: conn_closeConnection intro: conn_inv_closed)

lemma conn_inv_sendResponse:
  assumes "due wr k (conn w i)"
  shows "conn_inv wr k (conn (sendResponse wr i r w) i)"
  using due_sent [OF assms] due_respond [OF assms] by (simp add: sendResponse_def Let_def)

lemma conn_inv_handleRequest:
  assumes "due wr k (conn w i)"
  shows "conn_inv wr k (conn (handleRequest wr h i p w) i)"
  using conn_inv_sendResponse [OF assms] due_request [OF assms]
  by (simp add: handleRequest_def Let_def split: sum.split)

lemma conn_inv_takeFrame:
  assumes "conn_inv wr k (conn w i)" "phase (conn w i) = Ready" "\<not> closed (conn w i)"
  shows "conn_inv wr k (conn (fst (takeFrame wr h now i w)) i)"
proof -
  let ?u = "upd i (\<lambda>c. c\<lparr>header := [], c_body := []\<rparr>) w"
  let ?v = "upd i (\<lambda>c. c\<lparr>received := received c + 1\<rparr>) ?u"
  have u: "conn_inv wr k (conn ?u i)" using assms(1) by simp
  have "due wr k (conn ?v i)" if "received (conn w i) \<noteq> kMaxCounter"
    using due_received [OF u] assms(2,3) that by simp
  then have "conn_inv wr k (conn (handleRequest wr h i p ?v) i)"
    "conn_inv wr k (conn (handleRequest wr h i p (noteAuthenticated now q ?v)) i)"
    if "received (conn w i) \<noteq> kMaxCounter" for p q
    using that by (auto intro!: conn_inv_handleRequest)
  then show ?thesis
    using conn_inv_close [OF u] conn_inv_close [OF assms(1)]
    unfolding takeFrame_def Let_def by (simp split: option.split del: lit_simps upd_simps)
qed

lemma takeFrame_other: "j \<noteq> i \<Longrightarrow> conn (fst (takeFrame wr h now i w)) j = conn w j"
  unfolding takeFrame_def Let_def by (simp split: option.split del: lit_simps)

lemma inputPass_other: "j \<noteq> i \<Longrightarrow> conn (fst (inputPass wr h now i w)) j = conn w j"
  unfolding inputPass_def Let_def by (simp add: takeFrame_other del: lit_simps)

lemma conn_inv_inputPass:
  assumes "conn_inv wr (key (cfg w)) (conn w i)" "\<not> closed (conn w i)"
  shows "conn_inv wr (key (cfg w)) (conn (fst (inputPass wr h now i w)) i)"
proof (cases "phase (conn w i) = Hello")
  case True
  let ?k = "key (cfg w)" and ?u = "upd i (\<lambda>c. c\<lparr>rx := drop kClientHelloSize (rx c)\<rparr>) w"
  have u: "conn_inv wr ?k (conn ?u i)" using assms(1) by simp
  have "conn_inv wr ?k (conn (upd i (\<lambda>c. c\<lparr>keys := DeriveKeys wr ?k (serverRandom c) (drop 1 (take kClientHelloSize (rx (conn w i)))),
      phase := Ready, c_timer := Some kIdleTimeoutMs\<rparr>) ?u) i)" if "kClientHelloSize \<le> length (rx (conn w i))"
    using conn_inv_hello [OF assms(1) True assms(2)] that by (simp add: kClientHelloSize_def)
  with True assms(1) conn_inv_close [OF u] show ?thesis
    unfolding inputPass_def Let_def by (simp del: lit_simps upd_simps(1))
next
  case False
  let ?u = "upd i readHeader w" and ?k = "key (cfg w)"
  let ?v = "upd i readBody ?u"
  have u: "conn_inv wr ?k (conn ?u i)" and v: "conn_inv wr ?k (conn ?v i)" using assms(1) by simp_all
  have "conn_inv wr ?k (conn (fst (takeFrame wr h now i ?v)) i)" if "phase (conn w i) = Ready"
    using conn_inv_takeFrame [OF v] assms(2) that by simp
  with False assms(1) conn_inv_close [OF u] v show ?thesis
    unfolding inputPass_def Let_def by (simp del: lit_simps upd_simps(1))
qed

section \<open>Every connection ever admitted\<close>

definition frames_inv :: "wire \<Rightarrow> worker \<Rightarrow> bool" where
  "frames_inv wr w \<longleftrightarrow> (\<forall>i. 0 < i \<and> i < nextId w \<longrightarrow> conn_inv wr (key (cfg w)) (conn w i))"

lemma settles_const: "settles i w w' \<Longrightarrow> nextId w' = nextId w \<and> cfg w' = cfg w"
  unfolding settles_def using bookD(3,4) closeConnection_simps(1,4) by metis

lemma frames_inv_settles:
  assumes "settles i w w'" "frames_inv wr w" "\<And>j. j \<noteq> i \<Longrightarrow> conn w' j = conn w j"
    "conn_inv wr (key (cfg w)) (conn w i) \<Longrightarrow> conn_inv wr (key (cfg w)) (conn w' i)"
  shows "frames_inv wr w'"
  unfolding frames_inv_def using assms(2-4) settles_const [OF assms(1)] unfolding frames_inv_def by metis

lemma frames_inv_processInput:
  assumes "frames_inv wr w"
  shows "frames_inv wr (processInput wr h now i w)"
proof (rule processInput_keeps [of "frames_inv wr", OF _ assms])
  fix w assume a: "frames_inv wr w" "\<not> closed (conn w i)"
  show "frames_inv wr (fst (inputPass wr h now i w))"
    by (rule frames_inv_settles [OF settles_inputPass a(1)]) (simp_all add: inputPass_other conn_inv_inputPass a(2))
qed

lemma frames_inv_upd:
  assumes "frames_inv wr w" "\<And>k c. conn_inv wr k (f c) = conn_inv wr k c"
  shows "frames_inv wr (upd i f w)"
  using assms by (simp add: frames_inv_def)

lemma frames_inv_close: "frames_inv wr w \<Longrightarrow> frames_inv wr (closeConnection i w)"
  by (simp add: frames_inv_def conn_inv_close)

lemma frames_inv_socket: "frames_inv wr w \<Longrightarrow> frames_inv wr (socket_step wr h now w e)"
  by (cases e) (simp_all add: frames_inv_processInput frames_inv_upd frames_inv_close Let_def del: upd_simps(1))

lemma frames_inv_fields:
  "conn w' = conn w \<Longrightarrow> nextId w' = nextId w \<Longrightarrow> cfg w' = cfg w \<Longrightarrow> frames_inv wr w' = frames_inv wr w"
  by (simp add: frames_inv_def)

lemma frames_inv_deliver:
  assumes "count_inv w" "frames_inv wr w"
  shows "frames_inv wr (deliver wr h now i n r w)"
proof (cases "i \<in> set (connections w) \<and> phase (conn w i) = Pending")
  case True
  with assms(1) have "\<not> closed (conn w i)" by (auto simp: count_inv_def)
  with True have "frames_inv wr (sendResponse wr i r w)"
    using frames_inv_settles [OF settles_sendResponse assms(2)] conn_inv_sendResponse due_pending conn_other(2) by metis
  then show ?thesis using assms(2) by (simp add: deliver_def frames_inv_processInput)
qed (use assms(2) in \<open>auto simp: deliver_def\<close>)

lemma frames_inv_foldl_close: "frames_inv wr w \<Longrightarrow> frames_inv wr (foldl (\<lambda>w i. closeConnection i w) w xs)"
  by (induction xs arbitrary: w) (auto simp: frames_inv_close)

lemma frames_inv_drain:
  assumes "frames_inv wr w"
  shows "frames_inv wr (drain wr h now es w)"
proof -
  have "frames_inv wr (foldl (socket_step wr h now) u es)" if "frames_inv wr u" for u
    using that by (induction es arbitrary: u) (auto simp: frames_inv_socket)
  moreover have "frames_inv wr (stopListening w)" using assms by (subst frames_inv_fields [of _ w]) simp_all
  ultimately show ?thesis by (simp add: drain_def closeAll_def frames_inv_foldl_close)
qed

lemma frames_inv_admit:
  assumes "frames_inv wr w"
  shows "frames_inv wr (admit wr h now a random early w)"
proof -
  have "conn_inv wr k (newConnection h b random early)" for k b
    by (simp add: conn_inv_defs newConnection_def)
  then have "frames_inv wr (insertConnection h b random early w)" for b
    using assms by (simp add: frames_inv_def insertConnection_def Let_def less_Suc_eq)
  moreover have "frames_inv wr (logPeer now p l w)" for p l
    using assms by (simp add: frames_inv_def logPeer_def Log_def Let_def)
  ultimately show ?thesis by (simp add: admit_unfold Let_def frames_inv_processInput)
qed

lemma frame_inv_close: "frame_inv wr (conn w j) \<Longrightarrow> frame_inv wr (conn (closeConnection i w) j)"
  by (cases "j = i") (auto simp: conn_closeConnection frame_inv_def frames_of_def)

lemma frames_inv_apply:
  assumes "count_inv w" "frames_inv wr w"
  shows "frames_inv wr (apply_cfg h config out w)"
proof (cases "sameListener config w")
  case True
  have closes: "frames_inv wr (foldl (\<lambda>w i. if isAllowed h w (c_address (conn w i)) then w else closeConnection i w) u xs)"
    if "frames_inv wr u" for u xs
    using that by (induction xs arbitrary: u) (auto simp: frames_inv_close)
  have "key config = key (cfg w)" using True by (simp add: sameListener_def)
  with assms(2) have "frames_inv wr (w\<lparr>cfg := config\<rparr>)" by (simp add: frames_inv_def)
  with closes True show ?thesis by (simp add: apply_cfg_def Let_def closeDisallowed_def)
next
  case False
  let ?r = "apply_cfg h config out w" and ?w = "w\<lparr>cfg := config\<rparr>"
  have "nextId (foldl (\<lambda>w i. closeConnection i w) u xs) = nextId u" for u xs
    by (induction xs arbitrary: u) auto
  then have n: "nextId ?r = nextId w" using False by (simp add: apply_cfg_def Let_def closeAll_def)
  have "frame_inv wr (conn (foldl (\<lambda>w i. closeConnection i w) u xs) j)" if "frame_inv wr (conn u j)" for u xs j
    using that by (induction xs arbitrary: u) (simp_all add: frame_inv_close)
  then have f: "frame_inv wr (conn ?r j)" if "0 < j" "j < nextId w" for j
    using assms(2) that unfolding apply_other(3) [OF assms(1) False] closeAll_def by (simp add: frames_inv_def conn_inv_def)
  have "closed (conn ?r j)" for j using apply_other(1,2) [OF assms(1) False] by (auto simp: count_inv_def)
  then have "conn_inv wr k (conn ?r j)" if "0 < j" "j < nextId w" for k j
    using f [OF that] by (simp add: conn_inv_def key_inv_def)
  with n show ?thesis by (simp add: frames_inv_def)
qed

definition srv_inv :: "wire \<Rightarrow> hosts \<Rightarrow> worker \<Rightarrow> bool" where
  "srv_inv wr h w \<longleftrightarrow> book_inv h w \<and> frames_inv wr w"

lemma srv_inv_step:
  assumes "srv_inv wr h w"
  shows "srv_inv wr h (srv_step wr h w e)"
proof -
  have b: "book_inv h w" and c: "count_inv w" and f: "frames_inv wr w"
    using assms by (auto simp: srv_inv_def book_inv_def)
  have "frames_inv wr (srv_step wr h w e)"
  proof (cases e)
    case (RunPost now)
    have "count_inv (w\<lparr>posts := q\<rparr>)" "frames_inv wr (w\<lparr>posts := q\<rparr>)" for q
      using c f count_inv_fields [of "w\<lparr>posts := q\<rparr>" w] by (simp_all add: frames_inv_def)
    with RunPost f show ?thesis by (simp add: frames_inv_deliver split: list.split prod.split)
  next
    case (Answer i n r)
    then show ?thesis using f by (simp add: answer_def frames_inv_def)
  qed (use f c in \<open>simp_all add: frames_inv_admit frames_inv_socket frames_inv_apply frames_inv_drain\<close>)
  with book_inv_step [OF b] show ?thesis by (simp add: srv_inv_def)
qed

lemma srv_inv_init: "srv_inv wr h srv_init"
  by (simp add: srv_inv_def book_inv_init frames_inv_def) (simp add: srv_init_def)

interpretation remote_server: invariant_system srv_init "srv_step wr h" "srv_inv wr h" for wr h
  by unfold_locales (rule srv_inv_init, rule srv_inv_step)

end
