(* ===== verification/RemoteServerProps.thy ===== *)
theory RemoteServerProps
  imports RemoteServerFrames
begin

text \<open>
  The properties of the remote control API: who is connected, frames and nonces, the refusal of a peer
  that keeps failing, and a request sent in pieces. The witnesses use an instance of the parameters: hosts
  below 100 are loopback, and a cipher that leaves the text as it is.
\<close>

section \<open>An instance of the parameters\<close>

definition demo_hosts :: hosts where
  "demo_hosts = \<lparr>NormalizedPeer = (\<lambda>a. a), isLoopback = (\<lambda>a. a < 100), host_text = (\<lambda>a. [a]),
     isInSubnet = (\<lambda>a net bits. a = net), anyHost = 0, localHost = 1, isEveryAddress = (\<lambda>a. a = 0),
     isIPv6 = (\<lambda>a. False)\<rparr>"

definition demo_wire :: wire where
  "demo_wire = \<lparr>hmac = (\<lambda>m k. k), aead_write = (\<lambda>k n ad p. (p, replicate kTagSize 0)),
     aead_read = (\<lambda>k n tag ad c. if tag = replicate kTagSize 0 then Some c else None),
     fromJson = (\<lambda>b. if b = [] then Inl [] else Inr (JObject [(''method'', JString (lit ''GET'')), (''path'', JString (lit ''/''))])),
     toJson = (\<lambda>j. [91, 93])\<rparr>"

definition demo_config :: Config where
  "demo_config = \<lparr>enabled = True, lan = True, cfg_port = 80, key = replicate kKeySize 7, allow = [(200, 32)],
     adminLan = False, cfg_address = None\<rparr>"

lemma demo_aead: "aead_laws demo_wire"
  by (simp add: aead_laws_def demo_wire_def)

definition demo_listening :: worker where
  "demo_listening = apply_cfg demo_hosts demo_config (Bound 80) srv_init"

lemmas demo_param_defs = demo_hosts_def demo_wire_def demo_config_def

lemma demo_param_simps [simp]:
  "NormalizedPeer demo_hosts a = a" "host_text demo_hosts a = [a]" "isLoopback demo_hosts a \<longleftrightarrow> a < 100"
  "hmac demo_wire m k = k" "key demo_config = replicate kKeySize 7"
  by (simp_all add: demo_param_defs)

lemma demo_listening_simps:
  "authenticated demo_listening = []" "connections demo_listening = []" "nextId demo_listening = 1" "cfg demo_listening = demo_config"
  "localAddress demo_listening = None" "listening demo_listening" "failures demo_listening = []" "perPeer demo_listening = []"
  by (simp_all add: demo_listening_def demo_param_defs srv_init_def apply_cfg_def sameListener_def closeAll_def
      stopListening_def start_listener_def finish_def Log_def listen_address_def Let_def kKeySize_def)

definition demo_open :: worker where
  "demo_open = admit demo_wire demo_hosts 0 200 (replicate kRandomSize 1) (1 # replicate kRandomSize 2) demo_listening"

lemma demo_refusal: "refusal demo_hosts 0 200 demo_listening = []"
  by (simp add: refusal_def isRefused_def isAllowed_def isLocal_def demo_listening_simps demo_param_defs
      kMaxConnections_def kMaxConnectionsPerPeer_def Let_def)

lemma demo_open_simps:
  "connections demo_open = [1]" "nextId demo_open = 2" "cfg demo_open = demo_config" "phase (conn demo_open 1) = Ready"
  "\<not> closed (conn demo_open 1)" "c_address (conn demo_open 1) = 200" "localAddress demo_open = None"
  "keys (conn demo_open 1) = \<lparr>c2s = replicate kKeySize 7, s2c = replicate kKeySize 7\<rparr>" "c_peer (conn demo_open 1) = [200]"
  "unsent (conn demo_open 1) = kRandomSize" "received (conn demo_open 1) = 0" "header (conn demo_open 1) = []"
  "c_body (conn demo_open 1) = []" "rx (conn demo_open 1) = []"
  using demo_refusal
  by (simp_all add: demo_open_def admit_unfold Let_def insertConnection_def
      demo_listening_simps newConnection_def processInput_unfold inputPass_def kClientHelloSize_def kRandomSize_def
      kProtocolVersion_def DeriveKeys_def)

lemma demo_open_run:
  "demo_open = run (srv_step demo_wire demo_hosts) srv_init [Apply demo_config (Bound 80),
     NewConnection 0 200 (replicate kRandomSize 1) (1 # replicate kRandomSize 2)]"
  using demo_listening_simps(6) by (simp add: demo_open_def demo_listening_def)

section \<open>Who is connected\<close>

text \<open>
  C14. After any sequence of events at most 32 connections are open, none twice, and the counter of each
  peer is the number of its open connections. Every open connection comes from an address that is
  allowed under the settings in force, a peer that is not local has at most eight, and without a listener nobody is
  connected.
\<close>

theorem connections_allowed:
  "let w = run (srv_step wr h) srv_init es in
     distinct (connections w) \<and> length (connections w) \<le> 32 \<and>
     (\<forall>p. map_of (perPeer w) p =
        (let n = length (filter (\<lambda>i. c_peer (conn w i) = p) (connections w)) in if n = 0 then None else Some (int n))) \<and>
     (\<forall>i \<in> set (connections w). isAllowed h w (c_address (conn w i))) \<and>
     (\<forall>p. length (filter (\<lambda>i. c_peer (conn w i) = p \<and> \<not> isLocal h w (c_address (conn w i))) (connections w)) \<le> 8) \<and>
     (listening w \<or> connections w = [])"
proof -
  define w where "w = run (srv_step wr h) srv_init es"
  have c: "count_inv w" and p: "policy_inv h w" and cr: "crowd_inv h w"
    using remote_server.inv_run [of wr h es] by (simp_all add: srv_inv_def book_inv_def w_def policy_inv_def)
  have "count (peers w) p = length (filter (\<lambda>i. c_peer (conn w i) = p) (connections w))" for p
    by (simp add: peers_def count_image_filter)
  then have "map_of (perPeer w) p =
      (let n = length (filter (\<lambda>i. c_peer (conn w i) = p) (connections w)) in if n = 0 then None else Some (int n))" for p
    using c represents_lookup [of "perPeer w" "peers w" p] count_eq_zero_iff [of "peers w" p]
    by (auto simp: count_inv_def Let_def)
  moreover have "length (remotes h w p) \<le> 8" for p
    using cr by (auto simp: crowd_inv_def kMaxConnectionsPerPeer_def dest!: spec [of _ p])
  moreover have "distinct (connections w)" "length (connections w) \<le> 32"
    using c by (simp_all add: count_inv_def kMaxConnections_def)
  ultimately show ?thesis
    using p cr unfolding Let_def w_def [symmetric] remotes_def by (simp add: policy_inv_def crowd_inv_def) blast
qed

theorem connections_allowed_witness:
  "1 \<in> set (connections demo_open) \<and> isAllowed demo_hosts demo_open (c_address (conn demo_open 1))"
proof -
  have "1 \<in> set (connections demo_open)" by (simp add: demo_open_simps)
  then show ?thesis
    using connections_allowed [where wr = demo_wire and h = demo_hosts] unfolding demo_open_run Let_def by blast
qed

section \<open>Nonces and answers\<close>

text \<open>
  C13. All a connection ever wrote is the random bytes of its handshake, then frames sealed with its session key and the
  numbers 0, 1, 2 and so on, whose nonces differ. While it is open, it has written one frame for
  each frame received, except the one in progress, and its session keys come from the key in force.
\<close>

theorem nonces_fresh:
  assumes "w = run (srv_step wr h) srv_init es" "0 < i" "i < nextId w"
  shows "let c = conn w i in
      (\<exists>ps. length ps = sent c \<and>
        written c = serverRandom c # map2 (\<lambda>n p. SealFrame wr (s2c (keys c)) n p) [0..<sent c] ps) \<and>
      distinct (map frameNonce [0..<sent c]) \<and>
      (\<not> closed c \<longrightarrow> received c = sent c + (if phase c = Pending then 1 else 0)) \<and>
      (\<not> closed c \<and> phase c \<noteq> Hello \<longrightarrow> (\<exists>r. length r = kRandomSize \<and>
         keys c = DeriveKeys wr (key (cfg w)) (serverRandom c) r))"
proof -
  have c: "conn_inv wr (key (cfg w)) (conn w i)"
    using remote_server.inv_run [of wr h es] assms by (simp add: srv_inv_def frames_inv_def)
  then have "sent (conn w i) \<le> kMaxCounter" by (simp add: conn_inv_def frame_inv_def)
  then have "inj_on frameNonce {0..<sent (conn w i)}"
    using frameNonce_inj by (intro inj_onI) (simp add: kMaxCounter_def)
  then have "distinct (map frameNonce [0..<sent (conn w i)])" by (simp add: distinct_map)
  with c show ?thesis unfolding Let_def conn_inv_def frame_inv_def frames_of_def key_inv_def by blast
qed

theorem nonces_fresh_witness: "received (conn demo_open 1) = sent (conn demo_open 1)"
  using nonces_fresh [OF demo_open_run, of 1] by (simp add: demo_open_simps Let_def del: One_nat_def)

section \<open>A peer that keeps failing\<close>

definition recents :: "worker \<Rightarrow> qstring \<Rightarrow> int list" where
  "recents w p = (case map_of (failures w) p of None \<Rightarrow> [] | Some r \<Rightarrow> recent r)"

lemma map_of_filter_value:
  "hash_ok xs \<Longrightarrow> map_of (filter (\<lambda>(k, v). P v) xs) k =
     (case map_of xs k of None \<Rightarrow> None | Some v \<Rightarrow> if P v then Some v else None)"
  by (induction xs) (auto split: option.splits simp: map_of_eq_None_iff image_iff)

lemma prune_lookup:
  "hash_ok fs \<Longrightarrow> map_of (prune_failures now fs) p = (case map_of fs p of None \<Rightarrow> None
     | Some r \<Rightarrow> if refusedUntil r \<le> now \<and> (recent r = [] \<or> kFailureWindowMs \<le> now - last (recent r)) then None else Some r)"
  unfolding prune_failures_def by (subst map_of_filter_value) (auto split: option.split)

lemma hash_ok_prune: "hash_ok fs \<Longrightarrow> hash_ok (prune_failures now fs)"
  unfolding prune_failures_def by (rule distinct_map_filter)

definition pruned :: "int \<Rightarrow> worker \<Rightarrow> (qstring, FailureRecord) qhash" where
  "pruned now w = (if kMaxTrackedPeers \<le> length (failures w) then prune_failures now (failures w) else failures w)"

lemma pruned_recents:
  assumes "hash_ok (failures w)" "\<forall>at \<in> set (recents w p). now - at < kFailureWindowMs"
  shows "(case map_of (pruned now w) p of None \<Rightarrow> [] | Some r \<Rightarrow> recent r) = recents w p" "hash_ok (pruned now w)"
proof -
  show "hash_ok (pruned now w)" using assms(1) by (simp add: pruned_def hash_ok_prune)
  show "(case map_of (pruned now w) p of None \<Rightarrow> [] | Some r \<Rightarrow> recent r) = recents w p"
  proof (cases "map_of (failures w) p")
    case None
    then show ?thesis using assms(1) by (simp add: pruned_def recents_def prune_lookup)
  next
    case (Some r)
    then have "recent r = [] \<or> now - last (recent r) < kFailureWindowMs"
      using assms(2) by (cases "recent r = []") (simp_all add: recents_def)
    with Some show ?thesis using assms(1) by (auto simp: pruned_def recents_def prune_lookup)
  qed
qed

lemma note_failure_table:
  "failures (note_failure now q w) =
     (let r = (case map_of (pruned now w) q of None \<Rightarrow> \<lparr>recent = [], refusedUntil = 0\<rparr> | Some r \<Rightarrow> r);
          ts = filter (\<lambda>at. \<not> kFailureWindowMs \<le> now - at) (recent r) @ [now];
          r = (if length ts < kFailureLimit then r\<lparr>recent := ts\<rparr>
               else if (case map_of (authenticated w) q of None \<Rightarrow> True | Some at \<Rightarrow> kAuthExemptMs \<le> now - at)
               then r\<lparr>recent := [], refusedUntil := now + kRefusalMs\<rparr> else r\<lparr>recent := []\<rparr>)
      in AList.update q r (pruned now w))"
  by (simp add: note_failure_def pruned_def Log_def Let_def)

lemma recents_note_failure:
  assumes "hash_ok (failures w)" "\<forall>at \<in> set (recents w p). now - at < kFailureWindowMs"
    "q = p \<Longrightarrow> length (recents w p) + 1 < kFailureLimit"
  shows "recents (note_failure now q w) p = recents w p @ (if q = p then [now] else [])"
    "hash_ok (failures (note_failure now q w))"
proof -
  note pr = pruned_recents [OF assms(1,2)]
  show "hash_ok (failures (note_failure now q w))" by (simp add: note_failure_table Let_def pr(2))
  have "filter (\<lambda>at. \<not> kFailureWindowMs \<le> now - at) (recents w p) = recents w p"
    using assms(2) by (auto intro!: filter_True)
  moreover have "recent (case map_of (pruned now w) p of None \<Rightarrow> \<lparr>recent = [], refusedUntil = 0\<rparr> | Some r \<Rightarrow> r) = recents w p"
    using pr(1) by (auto split: option.splits)
  ultimately show "recents (note_failure now q w) p = recents w p @ (if q = p then [now] else [])"
    using assms(3) pr(1) by (auto simp: recents_def [of "note_failure now q w"] note_failure_table Let_def)
qed

lemma limit_note_failure:
  assumes "hash_ok (failures w)" "\<forall>at \<in> set (recents w p). now - at < kFailureWindowMs"
    "kFailureLimit \<le> length (recents w p) + 1"
    "case map_of (authenticated w) p of None \<Rightarrow> True | Some at \<Rightarrow> kAuthExemptMs \<le> now - at"
    "now \<le> t" "t < now + kRefusalMs"
  shows "isRefused t (note_failure now p w) p"
proof -
  have "recent (case map_of (pruned now w) p of None \<Rightarrow> \<lparr>recent = [], refusedUntil = 0\<rparr> | Some r \<Rightarrow> r) = recents w p"
    using pruned_recents(1) [OF assms(1,2)] by (auto split: option.splits)
  moreover have "filter (\<lambda>at. \<not> kFailureWindowMs \<le> now - at) (recents w p) = recents w p"
    using assms(2) by (auto intro!: filter_True)
  ultimately show ?thesis
    using assms(3-6) by (simp add: isRefused_def note_failure_table Let_def)
qed

lemma note_failure_fields [simp]:
  "localAddress (note_failure now q w) = localAddress w" "authenticated (note_failure now q w) = authenticated w"
  "localAddress (logPeer now q l w) = localAddress w" "authenticated (logPeer now q l w) = authenticated w"
  "failures (logPeer now q l w) = failures w" "failures (closeConnection i w) = failures w"
  "authenticated (closeConnection i w) = authenticated w"
  by (simp_all add: note_failure_def logPeer_def Log_def closeConnection_def Let_def)

definition failing :: "hosts \<Rightarrow> worker \<Rightarrow> qstring \<Rightarrow> nat \<Rightarrow> bool" where
  "failing h w p i \<longleftrightarrow> c_peer (conn w i) = p \<and> \<not> isLocal h w (c_address (conn w i))"

lemma fail_fields:
  "localAddress (fail h now i reason w) = localAddress w" "authenticated (fail h now i reason w) = authenticated w"
  "c_peer (conn (fail h now i reason w) j) = c_peer (conn w j)"
  "c_address (conn (fail h now i reason w) j) = c_address (conn w j)"
  "failures (fail h now i reason w) =
     (if isLocal h w (c_address (conn w i)) then failures w else failures (note_failure now (c_peer (conn w i)) w))"
  by (simp_all add: fail_def Let_def note_failure_table pruned_def isLocal_def)

lemma failing_fail: "failing h (fail h now i reason w) p j = failing h w p j"
  by (simp add: failing_def isLocal_def fail_fields)

definition fails :: "hosts \<Rightarrow> worker \<Rightarrow> (nat \<times> qstring \<times> int) list \<Rightarrow> worker" where
  "fails h w es = foldl (\<lambda>w (i, reason, now). fail h now i reason w) w es"

definition fail_times :: "hosts \<Rightarrow> worker \<Rightarrow> qstring \<Rightarrow> (nat \<times> qstring \<times> int) list \<Rightarrow> int list" where
  "fail_times h w p es = map (\<lambda>(i, reason, now). now) (filter (\<lambda>(i, reason, now). failing h w p i) es)"

lemma recents_cong: "failures u = failures v \<Longrightarrow> recents u p = recents v p"
  by (simp add: recents_def)

lemma recents_fails:
  assumes "hash_ok (failures w)" "recents w p = []" "\<forall>(i, reason, now) \<in> set es. t0 \<le> now \<and> now < t0 + kFailureWindowMs"
    "length (fail_times h w p es) < kFailureLimit"
  shows "hash_ok (failures (fails h w es)) \<and> recents (fails h w es) p = fail_times h w p es \<and>
    localAddress (fails h w es) = localAddress w \<and> authenticated (fails h w es) = authenticated w \<and>
    (\<forall>j. c_peer (conn (fails h w es) j) = c_peer (conn w j) \<and> c_address (conn (fails h w es) j) = c_address (conn w j))"
  using assms(3,4)
proof (induction es rule: rev_induct)
  case Nil
  then show ?case using assms by (simp add: fails_def fail_times_def)
next
  case (snoc e es)
  obtain i reason now where e: "e = (i, reason, now)" by (cases e)
  let ?w = "fails h w es"
  have len: "length (fail_times h w p es) < kFailureLimit" using snoc.prems(2) by (simp add: fail_times_def)
  with snoc have IH: "hash_ok (failures ?w)" "recents ?w p = fail_times h w p es" "localAddress ?w = localAddress w"
    "authenticated ?w = authenticated w" "\<And>j. c_peer (conn ?w j) = c_peer (conn w j)"
    "\<And>j. c_address (conn ?w j) = c_address (conn w j)" by auto
  then have loc: "isLocal h ?w a = isLocal h w a" for a by (simp add: isLocal_def)
  have "\<forall>at \<in> set (recents ?w p). now - at < kFailureWindowMs"
    using snoc.prems(1) e unfolding IH(2) by (force simp: fail_times_def)
  note nf = recents_note_failure [OF IH(1) this, of "c_peer (conn w i)"]
  have step: "fails h w (es @ [e]) = fail h now i reason ?w" by (simp add: fails_def e)
  have "fail_times h w p (es @ [e]) = fail_times h w p es @ (if failing h w p i then [now] else [])"
    by (simp add: fail_times_def e)
  moreover have "recents (fail h now i reason ?w) p = recents ?w p @ (if failing h w p i then [now] else [])"
    "hash_ok (failures (fail h now i reason ?w))"
  proof -
    have f: "failures (fail h now i reason ?w) = (if isLocal h w (c_address (conn w i)) then failures ?w
        else failures (note_failure now (c_peer (conn w i)) ?w))"
      by (simp only: fail_fields(5) loc IH(5,6))
    have "c_peer (conn w i) = p \<Longrightarrow> \<not> isLocal h w (c_address (conn w i)) \<Longrightarrow> length (recents ?w p) + 1 < kFailureLimit"
      using snoc.prems(2) calculation IH(2) by (simp add: failing_def)
    note nf = nf [OF this]
    show "recents (fail h now i reason ?w) p = recents ?w p @ (if failing h w p i then [now] else [])"
    proof (cases "isLocal h w (c_address (conn w i))")
      case True
      with f recents_cong [of "fail h now i reason ?w" ?w p] show ?thesis by (simp add: failing_def)
    next
      case False
      then have "recents (fail h now i reason ?w) p = recents (note_failure now (c_peer (conn w i)) ?w) p"
        using f by (intro recents_cong) simp
      with False nf(1) show ?thesis by (simp add: failing_def)
    qed
    show "hash_ok (failures (fail h now i reason ?w))" using f nf(2) IH(1) by simp
  qed
  ultimately show ?case unfolding step using IH by (simp add: fail_fields)
qed

text \<open>
  Five failures of a peer that is not local and has not proven the key in the last ten minutes, within
  one minute and whatever other peers do meanwhile, and every connection from it is refused for the next
  minute: the attempt leaves the open connections as they were.
\<close>

theorem repeated_failures_refused:
  assumes "hash_ok (failures w)" "recents w p = []"
    and "\<forall>(j, r, at) \<in> set (es @ [(i, reason, t)]). t0 \<le> at \<and> at < t0 + kFailureWindowMs"
    and "length (fail_times h w p (es @ [(i, reason, t)])) = kFailureLimit" "failing h w p i"
    and "case map_of (authenticated w) p of None \<Rightarrow> True | Some at \<Rightarrow> kAuthExemptMs \<le> t - at"
    and "t \<le> now" "now < t + kRefusalMs"
    and "host_text h (NormalizedPeer h a) = p" "\<not> isLocal h w (NormalizedPeer h a)"
  shows "let w' = fails h w (es @ [(i, reason, t)]) in
           isRefused now w' p \<and> connections (admit wr h now a random early w') = connections w'"
proof -
  let ?u = "fails h w es" and ?v = "fails h w (es @ [(i, reason, t)])"
  have "length (fail_times h w p es) + 1 = kFailureLimit" using assms(4,5) by (simp add: fail_times_def)
  with recents_fails [OF assms(1,2), of es t0 h] assms(3)
  have u: "hash_ok (failures ?u)" "recents ?u p = fail_times h w p es" "localAddress ?u = localAddress w"
    "authenticated ?u = authenticated w" "c_peer (conn ?u i) = c_peer (conn w i)" "c_address (conn ?u i) = c_address (conn w i)"
    and len: "kFailureLimit \<le> length (recents ?u p) + 1" by auto
  have v: "?v = fail h t i reason ?u" by (simp add: fails_def)
  have "\<forall>at \<in> set (recents ?u p). t - at < kFailureWindowMs"
    using assms(3) unfolding u(2) by (force simp: fail_times_def)
  with limit_note_failure [OF u(1) _ len, of t now] assms(6-8) u(4)
  have "isRefused now (note_failure t p ?u) p" by simp
  moreover have "failures ?v = failures (note_failure t p ?u)"
    using assms(5) u unfolding v fail_fields(5) by (simp add: failing_def isLocal_def)
  ultimately have r: "isRefused now ?v p" by (simp add: isRefused_def)
  have "\<not> isLocal h ?v (NormalizedPeer h a)" using assms(10) u(3) unfolding v by (simp add: isLocal_def fail_fields)
  with r assms(9) have "refusal h now (NormalizedPeer h a) ?v \<noteq> []" by (simp add: refusal_def Let_def)
  then have "connections (admit wr h now a random early ?v) = connections ?v"
    by (simp add: admit_unfold Let_def logPeer_def)
  with r show ?thesis by (simp add: Let_def)
qed

definition demo_five :: worker where
  "demo_five = foldl (\<lambda>w _. insertConnection demo_hosts 200 [] [] w) demo_listening [1..5]"

theorem repeated_failures_refused_witness:
  "isRefused 1000 (fails demo_hosts demo_five ([(1, [], 0), (2, [], 1), (3, [], 2), (4, [], 3)] @ [(5, [], 4)])) [200]"
proof -
  have n: "[1..5::int] = [1, 2, 3, 4, 5]" by (simp add: upto_rec1)
  have d: "failures demo_five = []" "localAddress demo_five = None" "authenticated demo_five = []"
    by (simp_all add: demo_five_def n insertConnection_def demo_listening_simps Let_def)
  have "failing demo_hosts demo_five [200] i" if "i \<in> {1, 2, 3, 4, 5}" for i
    using that by (auto simp: failing_def isLocal_def d(2)) (simp_all add: demo_five_def n insertConnection_def
        newConnection_def demo_listening_simps Let_def numeral_eq_Suc)
  with repeated_failures_refused [of demo_five "[200]" "[(1, [], 0), (2, [], 1), (3, [], 2), (4, [], 3)]" 5 "[]" 4 0
      demo_hosts 1000 200] d
  show ?thesis
    by (simp add: recents_def fail_times_def isLocal_def Let_def kFailureLimit_def kFailureWindowMs_def kRefusalMs_def
        del: One_nat_def append.simps)
qed

section \<open>A request in pieces\<close>

text \<open>The connection after a proper beginning of a frame has arrived.\<close>

definition part :: "Connection \<Rightarrow> bytes \<Rightarrow> Connection" where
  "part c acc =
     (if length acc < kFrameHeaderSize then c\<lparr>rx := acc\<rparr>
      else c\<lparr>header := take kFrameHeaderSize acc, frameLength := fromBigEndian (take kFrameHeaderSize acc),
             c_body := drop kFrameHeaderSize acc\<rparr>)"

text \<open>A connection ready for the next frame, and the connection that holds all of it.\<close>

definition idle :: "Connection \<Rightarrow> bool" where
  "idle c \<longleftrightarrow> \<not> closed c \<and> phase c = Ready \<and> unsent c = 0 \<and> header c = [] \<and> c_body c = [] \<and> rx c = []"

definition whole :: "Connection \<Rightarrow> bytes \<Rightarrow> Connection" where
  "whole c f = c\<lparr>header := take kFrameHeaderSize f, frameLength := fromBigEndian (take kFrameHeaderSize f),
     c_body := drop kFrameHeaderSize f\<rparr>"

lemma conn_rx_Nil: "rx c = [] \<Longrightarrow> c\<lparr>header := a, frameLength := n, rx := [], c_body := b\<rparr> = c\<lparr>header := a, frameLength := n, c_body := b\<rparr>"
  by (cases c) simp

lemma read_whole:
  assumes "idle c" "kFrameHeaderSize \<le> length g"
    "length g \<le> kFrameHeaderSize + fromBigEndian (take kFrameHeaderSize g)"
  shows "readBody (readHeader (c\<lparr>rx := g\<rparr>)) = whole c g"
  using assms conn_rx_Nil [of c] by (cases c) (simp add: readBody_def readHeader_def whole_def idle_def Let_def)

lemma read_more:
  assumes "idle c" "kFrameHeaderSize \<le> length g"
    "length (g @ bs) \<le> kFrameHeaderSize + fromBigEndian (take kFrameHeaderSize g)"
  shows "readBody (readHeader ((part c g)\<lparr>rx := rx (part c g) @ bs\<rparr>)) = whole c (g @ bs)"
proof -
  have "take kFrameHeaderSize g \<noteq> []" using assms(2) by (auto simp: kFrameHeaderSize_def)
  then show ?thesis
    using assms by (cases c) (auto simp: readBody_def readHeader_def whole_def part_def idle_def Let_def)
qed

lemma read_arrived:
  assumes "idle c" "kFrameHeaderSize \<le> length (g @ bs)"
    "length (g @ bs) \<le> kFrameHeaderSize + fromBigEndian (take kFrameHeaderSize (g @ bs))"
  shows "readBody (readHeader ((part c g)\<lparr>rx := rx (part c g) @ bs\<rparr>)) = whole c (g @ bs)"
proof (cases "length g < kFrameHeaderSize")
  case True
  then show ?thesis using read_whole [OF assms(1), of "g @ bs"] assms by (simp add: part_def idle_def)
qed (use read_more [OF assms(1), of g bs] assms in simp)

lemma part_whole: "kFrameHeaderSize \<le> length g \<Longrightarrow> part c g = whole c g"
  by (simp add: part_def whole_def)

lemma part_fields [simp]:
  "phase (part c g) = phase c" "unsent (part c g) = unsent c" "closed (part c g) = closed c"
  by (simp_all add: part_def)

lemma part_header: "idle c \<Longrightarrow> header (part c g) = [] \<longleftrightarrow> length g < kFrameHeaderSize"
  by (auto simp: part_def idle_def kFrameHeaderSize_def)

lemma upd_upd: "upd i f (upd i g w) = upd i (f \<circ> g) w"
  by (simp add: upd_def)

lemma upd_cong: "f (conn w i) = g (conn w i) \<Longrightarrow> upd i f w = upd i g w"
  by (simp add: upd_def)

lemma inputPass_ready:
  assumes "phase (conn w i) = Ready" "unsent (conn w i) = 0"
    "header (conn w i) = [] \<Longrightarrow> kFrameHeaderSize \<le> length (rx (conn w i)) \<and>
       kTagSize \<le> frameLength (readHeader (conn w i)) \<and> frameLength (readHeader (conn w i)) \<le> kMaxClientFrame"
  shows "inputPass wr h now i w = (let v = upd i readBody (upd i readHeader w)
    in if length (c_body (conn v i)) < frameLength (conn v i) then (v, False) else takeFrame wr h now i v)"
  using assms unfolding inputPass_def Let_def by auto

text \<open>Input that does not complete the frame is only kept.\<close>

lemma inputPass_arrived:
  fixes w g bs i
  defines "w1 \<equiv> upd i (\<lambda>c. c\<lparr>rx := rx c @ bs\<rparr>) (upd i (\<lambda>c. part c g) w)"
  assumes "idle (conn w i)" "fromBigEndian (take kFrameHeaderSize (g @ bs)) = n" "kTagSize \<le> n" "n \<le> kMaxClientFrame"
    "length (g @ bs) \<le> kFrameHeaderSize + n" "kFrameHeaderSize \<le> length (g @ bs)"
  shows "inputPass wr h now i w1 =
    (if length (g @ bs) < kFrameHeaderSize + n then (upd i (\<lambda>c. part c (g @ bs)) w, False)
     else takeFrame wr h now i (upd i (\<lambda>c. whole c (g @ bs)) w))"
proof -
  let ?c = "(part (conn w i) g)\<lparr>rx := rx (part (conn w i) g) @ bs\<rparr>"
  have c: "conn w1 i = ?c" by (simp add: w1_def)
  have u: "upd i readBody (upd i readHeader w1) = upd i (\<lambda>c. whole c (g @ bs)) w"
    unfolding w1_def upd_upd by (rule upd_cong) (use read_arrived assms in \<open>simp add: comp_def\<close>)
  have fl: "frameLength (readHeader ?c) = n" if "header ?c = []"
    using that assms(3,7) part_header [OF assms(2), of g] assms(2)
    by (simp add: readHeader_def part_def idle_def split: if_splits)
  have rx: "rx ?c = g @ bs" if "header ?c = []"
    using that part_header [OF assms(2), of g] by (simp add: part_def split: if_splits)
  have "inputPass wr h now i w1 = (let v = upd i (\<lambda>c. whole c (g @ bs)) w
      in if length (c_body (conn v i)) < frameLength (conn v i) then (v, False) else takeFrame wr h now i v)"
    unfolding u [symmetric]
  proof (rule inputPass_ready)
    show "phase (conn w1 i) = Ready" "unsent (conn w1 i) = 0" using assms(2) by (simp_all add: c idle_def)
    assume "header (conn w1 i) = []"
    then show "kFrameHeaderSize \<le> length (rx (conn w1 i)) \<and> kTagSize \<le> frameLength (readHeader (conn w1 i)) \<and>
        frameLength (readHeader (conn w1 i)) \<le> kMaxClientFrame"
      using rx fl assms(4,5,7) unfolding c by simp
  qed
  moreover have "upd i (\<lambda>c. whole c (g @ bs)) w = upd i (\<lambda>c. part c (g @ bs)) w"
    by (rule upd_cong) (simp add: part_whole [OF assms(7)])
  moreover have "length (c_body (part (conn w i) (g @ bs))) < frameLength (part (conn w i) (g @ bs)) \<longleftrightarrow>
      length (g @ bs) < kFrameHeaderSize + n"
    using assms(3,7) by (auto simp: part_def)
  ultimately show ?thesis by (simp add: Let_def)
qed

lemma Data_part:
  assumes "i \<in> set (connections w)" "idle (conn w i)" "f = g @ bs @ rest" "fromBigEndian (take kFrameHeaderSize f) = n"
    "kTagSize \<le> n" "n \<le> kMaxClientFrame" "length f = kFrameHeaderSize + n" "length (g @ bs) < length f"
  shows "socket_step wr h now (upd i (\<lambda>c. part c g) w) (Data i bs) = upd i (\<lambda>c. part c (g @ bs)) w"
proof (cases "length (g @ bs) < kFrameHeaderSize")
  case True
  then have u: "upd i (\<lambda>c. c\<lparr>rx := rx c @ bs\<rparr>) (upd i (\<lambda>c. part c g) w) = upd i (\<lambda>c. part c (g @ bs)) w"
    unfolding upd_upd by (intro upd_cong) (simp add: part_def comp_def)
  have "inputPass wr h now i (upd i (\<lambda>c. part c (g @ bs)) w) = (upd i (\<lambda>c. part c (g @ bs)) w, False)"
    using True assms(2) by (simp add: inputPass_def idle_def part_def)
  with assms(1,2) u show ?thesis by (simp add: processInput_unfold idle_def)
next
  case False
  then have "take kFrameHeaderSize f = take kFrameHeaderSize (g @ bs)" using assms(3) by (auto simp: take_append)
  with inputPass_arrived [OF assms(2), where g = g and bs = bs and n = n] False assms
  have "inputPass wr h now i (upd i (\<lambda>c. c\<lparr>rx := rx c @ bs\<rparr>) (upd i (\<lambda>c. part c g) w)) =
      (upd i (\<lambda>c. part c (g @ bs)) w, False)" by simp
  with assms(1,2) show ?thesis by (simp add: processInput_unfold idle_def)
qed

text \<open>What a request that authenticates leads to.\<close>

definition delivered :: "hosts \<Rightarrow> nat \<Rightarrow> worker \<Rightarrow> Request \<Rightarrow> worker \<Rightarrow> bool" where
  "delivered h i w rq w' \<longleftrightarrow>
     dispatched w' = dispatched w @ [(i, exchanges (conn w i) + 1, rq\<lparr>rq_peer := c_peer (conn w i),
       admin := (isLocal h w (c_address (conn w i)) \<or> adminLan (cfg w))\<rparr>)] \<and>
     phase (conn w' i) = Pending \<and> received (conn w' i) = received (conn w i) + 1 \<and> connections w' = connections w"

lemma takeFrame_whole:
  assumes "idle (conn w i)" "received (conn w i) \<noteq> kMaxCounter" "ParseRequest wr plaintext = Inr rq"
    "OpenFrame wr (c2s (keys (conn w i))) (received (conn w i)) (take kFrameHeaderSize f) (drop kFrameHeaderSize f) = Some plaintext"
  shows "snd (takeFrame wr h now i (upd i (\<lambda>c. whole c f) w))"
    "delivered h i w rq (fst (takeFrame wr h now i (upd i (\<lambda>c. whole c f) w)))"
  using assms
  by (simp_all add: takeFrame_def Let_def whole_def handleRequest_def delivered_def isLocal_def upd_def noteAuthenticated_def)

lemma processInput_pending: "phase (conn w i) = Pending \<Longrightarrow> processInput wr h now i w = w"
  by (cases "closed (conn w i)") (simp_all add: processInput_unfold inputPass_def)

lemma Data_whole:
  assumes "i \<in> set (connections w)" "idle (conn w i)" "f = g @ bs" "fromBigEndian (take kFrameHeaderSize f) = n"
    "kTagSize \<le> n" "n \<le> kMaxClientFrame" "length f = kFrameHeaderSize + n"
    "received (conn w i) \<noteq> kMaxCounter" "ParseRequest wr plaintext = Inr rq"
    "OpenFrame wr (c2s (keys (conn w i))) (received (conn w i)) (take kFrameHeaderSize f) (drop kFrameHeaderSize f) = Some plaintext"
  shows "delivered h i w rq (socket_step wr h now (upd i (\<lambda>c. part c g) w) (Data i bs))"
proof -
  let ?t = "takeFrame wr h now i (upd i (\<lambda>c. whole c f) w)"
  note t = takeFrame_whole [OF assms(2,8,9,10), of h now]
  have "inputPass wr h now i (upd i (\<lambda>c. c\<lparr>rx := rx c @ bs\<rparr>) (upd i (\<lambda>c. part c g) w)) = ?t"
    using inputPass_arrived [OF assms(2), where g = g and bs = bs and n = n] assms by simp
  moreover have "processInput wr h now i (fst ?t) = fst ?t"
    by (rule processInput_pending) (use t(2) in \<open>simp add: delivered_def\<close>)
  ultimately show ?thesis using assms(1,2) t by (simp add: processInput_unfold idle_def)
qed

lemma Data_nothing:
  assumes "delivered h i w rq w'"
  shows "delivered h i w rq (socket_step wr h now w' (Data i []))"
proof -
  have "upd i (\<lambda>c. c\<lparr>rx := rx c @ []\<rparr>) w' = w'" by (simp add: upd_def)
  then show ?thesis using assms by (auto simp: delivered_def processInput_pending)
qed

definition arrive :: "wire \<Rightarrow> hosts \<Rightarrow> nat \<Rightarrow> worker \<Rightarrow> (int \<times> bytes) list \<Rightarrow> worker" where
  "arrive wr h i w chunks = foldl (\<lambda>w (now, bs). socket_step wr h now w (Data i bs)) w chunks"

lemma arrive_nothing:
  "delivered h i w rq w' \<Longrightarrow> concat (map snd chunks) = [] \<Longrightarrow> delivered h i w rq (arrive wr h i w' chunks)"
  by (induction chunks arbitrary: w') (auto simp: arrive_def Data_nothing simp del: socket_step.simps)

lemma arrive_frame:
  assumes "i \<in> set (connections w)" "idle (conn w i)" "fromBigEndian (take kFrameHeaderSize f) = n"
    "kTagSize \<le> n" "n \<le> kMaxClientFrame" "length f = kFrameHeaderSize + n"
    "received (conn w i) \<noteq> kMaxCounter" "ParseRequest wr plaintext = Inr rq"
    "OpenFrame wr (c2s (keys (conn w i))) (received (conn w i)) (take kFrameHeaderSize f) (drop kFrameHeaderSize f) = Some plaintext"
  shows "f = g @ concat (map snd chunks) \<Longrightarrow> length g < length f \<Longrightarrow>
    delivered h i w rq (arrive wr h i (upd i (\<lambda>c. part c g) w) chunks)"
proof (induction chunks arbitrary: g)
  case (Cons ch chunks)
  obtain now bs where ch: "ch = (now, bs)" by (cases ch)
  let ?w = "socket_step wr h now (upd i (\<lambda>c. part c g) w) (Data i bs)"
  have step: "arrive wr h i (upd i (\<lambda>c. part c g) w) (ch # chunks) = arrive wr h i ?w chunks"
    by (simp add: arrive_def ch del: socket_step.simps)
  have f: "f = g @ bs @ concat (map snd chunks)" using Cons.prems(1) ch by simp
  show ?case
  proof (cases "length (g @ bs) < length f")
    case True
    have "?w = upd i (\<lambda>c. part c (g @ bs)) w" by (rule Data_part [OF assms(1,2) f assms(3-6) True])
    with Cons.IH [of "g @ bs"] True f step show ?thesis by simp
  next
    case False
    then have e: "concat (map snd chunks) = []" and "f = g @ bs" using f by auto
    with Data_whole [OF assms(1,2) _ assms(3-9), of g bs h now]
    show ?thesis unfolding step by (intro arrive_nothing) auto
  qed
qed simp

text \<open>
  C15. A request sealed with the session key under the next number, sent in whatever pieces at whatever
  times to a connection that is ready, is handed over exactly once, with the peer of that connection and with administration
  allowed for local peers or by the settings only; the connection then waits for the answer.
\<close>

theorem request_delivered:
  assumes "aead_laws wr" "i \<in> set (connections w)" "idle (conn w i)"
    and "length (c2s (keys (conn w i))) = kKeySize" "received (conn w i) \<noteq> kMaxCounter"
    and "length plaintext + kTagSize \<le> kMaxClientFrame" "ParseRequest wr plaintext = Inr rq"
    and "concat (map snd chunks) = SealFrame wr (c2s (keys (conn w i))) (received (conn w i)) plaintext"
  shows "let w' = arrive wr h i w chunks; c = conn w i in
    dispatched w' = dispatched w @ [(i, exchanges c + 1, rq\<lparr>rq_peer := c_peer c,
      admin := (isLocal h w (c_address c) \<or> adminLan (cfg w))\<rparr>)] \<and>
    phase (conn w' i) = Pending \<and> received (conn w' i) = received c + 1 \<and> connections w' = connections w"
proof -
  let ?k = "c2s (keys (conn w i))" and ?n = "length plaintext + kTagSize"
  let ?f = "SealFrame wr ?k (received (conn w i)) plaintext"
  have small: "?n < 2 ^ 32" using assms(6) by (simp add: kMaxClientFrame_def)
  obtain c t where ct: "aead_write wr ?k (frameNonce (received (conn w i))) (toBigEndian kFrameHeaderSize ?n) plaintext = (c, t)"
    by (metis surj_pair)
  then have "length c = length plaintext" "length t = kTagSize"
    using assms(1) unfolding aead_laws_def by (metis fst_conv snd_conv)+
  moreover have f: "?f = toBigEndian kFrameHeaderSize ?n @ c @ t" using ct assms(4) by (simp add: SealFrame_def Let_def)
  ultimately have len: "length ?f = kFrameHeaderSize + ?n" "take kFrameHeaderSize ?f = toBigEndian kFrameHeaderSize ?n"
    by simp_all
  then have n: "fromBigEndian (take kFrameHeaderSize ?f) = ?n"
    using small by (simp add: fromBigEndian_toBigEndian kFrameHeaderSize_def)
  have "OpenFrame wr ?k (received (conn w i)) (take kFrameHeaderSize ?f) (drop kFrameHeaderSize ?f) = Some plaintext"
    by (rule OpenFrame_SealFrame [OF assms(1,4) small])
  note go = arrive_frame [OF assms(2,3) n _ assms(6) len(1) assms(5,7) this, of "[]" chunks h]
  have "upd i (\<lambda>c. part c []) w = w" using assms(3)
    by (cases "conn w i") (simp add: upd_def part_def kFrameHeaderSize_def idle_def fun_upd_idem)
  with go assms(8) len(1) show ?thesis by (simp add: delivered_def Let_def kFrameHeaderSize_def)
qed

definition demo_ready :: worker where
  "demo_ready = upd 1 (\<lambda>c. c\<lparr>unsent := 0\<rparr>) demo_open"

lemma demo_ready_step: "demo_ready = socket_step demo_wire demo_hosts 1 demo_open (Sent 1 16)"
proof -
  have "upd 1 (\<lambda>c. c\<lparr>unsent := unsent c - 16\<rparr>) demo_open = demo_ready"
    unfolding demo_ready_def by (rule upd_cong) (simp add: demo_open_simps kRandomSize_def del: One_nat_def)
  moreover have "processInput demo_wire demo_hosts 1 1 demo_ready = demo_ready"
    by (simp add: processInput_unfold inputPass_def demo_ready_def demo_open_simps kFrameHeaderSize_def del: One_nat_def)
  ultimately show ?thesis by (simp add: demo_open_simps demo_ready_def Let_def del: One_nat_def)
qed

theorem request_delivered_witness:
  "let f = SealFrame demo_wire (replicate kKeySize 7) 0 [1] in
     phase (conn (arrive demo_wire demo_hosts 1 demo_ready [(5, take 3 f), (6, drop 3 f)]) 1) = Pending"
proof -
  let ?f = "SealFrame demo_wire (replicate kKeySize 7) 0 [1]"
  have r: "keys (conn demo_ready 1) = \<lparr>c2s = replicate kKeySize 7, s2c = replicate kKeySize 7\<rparr>"
    "received (conn demo_ready 1) = 0" "1 \<in> set (connections demo_ready)" "idle (conn demo_ready 1)"
    by (simp_all add: demo_ready_def demo_open_simps idle_def del: One_nat_def)
  have p: "ParseRequest demo_wire [1] = Inr \<lparr>rq_method = lit ''GET'', path = lit ''/'', query = [], rq_body = JNull,
      rq_peer = [], admin = False\<rparr>"
    by (simp add: ParseRequest_def demo_wire_def obj_value_def obj_contains_def Let_def)
  show ?thesis
    using request_delivered [OF demo_aead r(3,4) _ _ _ p, of "[(5, take 3 ?f), (6, drop 3 ?f)]" demo_hosts] r(1,2)
    by (simp add: Let_def kMaxClientFrame_def kTagSize_def kMaxCounter_def del: One_nat_def)
qed

end
