(* ===== verification/OtpCodec.thy ===== *)
theory OtpCodec
  imports Bytes
begin

text \<open>
  The encodings of \<^verbatim>\<open>src/global/OTP.cpp\<close>: base32 with its 32-bit shift register, and the protobuf wire format
  of Google Authenticator's migration links.
\<close>

unbundle bit_operations_syntax

section \<open>Base32\<close>

definition BASE32_ALPHABET :: qstring where
  "BASE32_ALPHABET = lit ''ABCDEFGHIJKLMNOPQRSTUVWXYZ234567''"

definition toLatin1 :: "qchar \<Rightarrow> nat" where
  "toLatin1 c = (if c < 256 then c else 0)"

definition base32_skips :: "nat \<Rightarrow> bool" where
  "base32_skips c \<longleftrightarrow> c \<in> set (lit '' -_='') \<or> c = 9 \<or> c = 13 \<or> c = 10"

definition base32_value :: "nat \<Rightarrow> nat option" where
  "base32_value c =
     (if 65 \<le> c \<and> c \<le> 90 then Some (c - 65)
      else if 97 \<le> c \<and> c \<le> 122 then Some (c - 97)
      else if 50 \<le> c \<and> c \<le> 55 then Some (c - 50 + 26)
      else None)"

text \<open>The loop of \<^verbatim>\<open>Base32Decode\<close>: \<open>out\<close>, \<open>buffer\<close>, \<open>bitsLeft\<close>; \<open>None\<close> is \<^verbatim>\<open>*ok == false\<close>.\<close>

definition base32_put :: "nat \<Rightarrow> bytes \<times> 32 word \<times> nat \<Rightarrow> bytes \<times> 32 word \<times> nat" where
  "base32_put v s =
     (case s of (out, buffer, bitsLeft) \<Rightarrow>
        (let buffer = push_bit 5 buffer OR of_nat v; bitsLeft = bitsLeft + 5
         in if 8 \<le> bitsLeft
            then (out @ [unat (drop_bit (bitsLeft - 8) buffer AND 0xFF)], buffer, bitsLeft - 8)
            else (out, buffer, bitsLeft)))"

fun base32_loop :: "qstring \<Rightarrow> bytes \<times> 32 word \<times> nat \<Rightarrow> bytes option" where
  "base32_loop [] s = Some (fst s)"
| "base32_loop (qc # rest) s =
     (let c = toLatin1 qc
      in if base32_skips c then base32_loop rest s
         else case base32_value c of None \<Rightarrow> None | Some v \<Rightarrow> base32_loop rest (base32_put v s))"

definition Base32Decode :: "qstring \<Rightarrow> bytes option" where
  "Base32Decode input = base32_loop input ([], 0, 0)"

definition base32_char :: "32 word \<Rightarrow> qchar" where
  "base32_char x = BASE32_ALPHABET ! unat (x AND 0x1F)"

fun base32_emit :: "qstring \<Rightarrow> 32 word \<Rightarrow> nat \<Rightarrow> qstring \<times> nat" where
  "base32_emit out buffer bitsLeft =
     (if 5 \<le> bitsLeft then base32_emit (out @ [base32_char (drop_bit (bitsLeft - 5) buffer)]) buffer (bitsLeft - 5)
      else (out, bitsLeft))"

declare base32_emit.simps [simp del]

definition base32_take :: "nat \<Rightarrow> qstring \<times> 32 word \<times> nat \<Rightarrow> qstring \<times> 32 word \<times> nat" where
  "base32_take c s =
     (case s of (out, buffer, bitsLeft) \<Rightarrow>
        (let buffer = push_bit 8 buffer OR of_nat c; (out, bitsLeft) = base32_emit out buffer (bitsLeft + 8)
         in (out, buffer, bitsLeft)))"

definition Base32Encode :: "bytes \<Rightarrow> qstring" where
  "Base32Encode input =
     (let (out, buffer, bitsLeft) = foldl (\<lambda>s c. base32_take c s) ([], 0, 0) input
      in if 0 < bitsLeft then out @ [base32_char (push_bit (5 - bitsLeft) buffer)] else out)"

definition NormalizeSecret :: "qstring \<Rightarrow> qstring" where
  "NormalizeSecret secret =
     (case Base32Decode secret of None \<Rightarrow> [] | Some decoded \<Rightarrow> if decoded = [] then [] else Base32Encode decoded)"

subsection \<open>The register\<close>

text \<open>The register holds the number read so far modulo \<open>2 ^ 32\<close>; only its low bits are ever used.\<close>

definition holds :: "32 word \<Rightarrow> nat \<Rightarrow> bool" where
  "holds buffer n \<longleftrightarrow> unat buffer = n mod 2 ^ 32"

lemma unat_push_or:
  fixes buffer :: "32 word"
  assumes "holds buffer n" "v < 2 ^ k" "k \<le> 32"
  shows "holds (push_bit k buffer OR of_nat v) (n * 2 ^ k + v)"
proof -
  have "push_bit k buffer OR of_nat v = push_bit k buffer + (of_nat v :: 32 word)"
  proof (rule disjunctive_add [symmetric])
    fix i
    have "\<not> bit v i" if "k \<le> i" using assms(2) that
      by (metis bit_take_bit_iff leD take_bit_nat_eq_self)
    then show "\<not> bit (push_bit k buffer) i \<or> \<not> bit (of_nat v :: 32 word) i"
      by (auto simp: bit_push_bit_iff bit_of_nat_iff)
  qed
  also have "\<dots> = of_nat (n * 2 ^ k + v)"
  proof -
    have "buffer = of_nat (unat buffer)" by simp
    also have "\<dots> = of_nat n" using assms(1) by (simp add: holds_def word_of_nat_eq_iff take_bit_eq_mod)
    finally show ?thesis by (simp add: push_bit_eq_mult)
  qed
  finally have e: "push_bit k buffer OR of_nat v = (of_nat (n * 2 ^ k + v) :: 32 word)" .
  show ?thesis unfolding e holds_def unat_of_nat by simp
qed

lemma holds_push: "holds buffer n \<Longrightarrow> k \<le> 32 \<Longrightarrow> holds (push_bit k buffer) (n * 2 ^ k)"
  using unat_push_or [of buffer n 0 k] by simp

lemma holds_bits:
  assumes "holds buffer n" "b + k \<le> 32"
  shows "unat (drop_bit b buffer AND mask k) = n div 2 ^ b mod 2 ^ k"
proof -
  have "unat (drop_bit b buffer AND mask k) = take_bit k (drop_bit b (unat buffer))"
    unfolding take_bit_eq_mask [symmetric] unsigned_take_bit_eq unat_drop_bit_eq ..
  also have "\<dots> = take_bit k (drop_bit b (take_bit 32 n))" using assms(1) by (simp add: holds_def take_bit_eq_mod)
  also have "\<dots> = take_bit k (drop_bit b n)"
    using assms(2) by (intro bit_eqI) (auto simp: bit_take_bit_iff bit_drop_bit_eq)
  finally show ?thesis by (simp add: take_bit_eq_mod drop_bit_eq_div)
qed

lemma masks: "(0xFF :: 32 word) = mask 8" "(0x1F :: 32 word) = mask 5"
  by (simp_all add: mask_eq_exp_minus_1)

lemma div_shift: "v < 2 ^ k \<Longrightarrow> (n * 2 ^ k + v) div 2 ^ (b + k) = n div (2 :: nat) ^ b"
  by (simp add: power_add mult.commute [of "2 ^ b"] div_mult2_eq)

subsection \<open>Decoding\<close>

definition decoded_to :: "nat list \<Rightarrow> bytes \<times> 32 word \<times> nat \<Rightarrow> bool" where
  "decoded_to vs s = (case s of (out, buffer, bitsLeft) \<Rightarrow>
     holds buffer (digits_val 32 vs) \<and> 8 * length out + bitsLeft = 5 * length vs \<and> bitsLeft < 8 \<and>
     out = digits_of 256 (length out) (digits_val 32 vs div 2 ^ bitsLeft))"

lemma decoded_to_put:
  assumes "decoded_to vs s" "v < 32"
  shows "decoded_to (vs @ [v]) (base32_put v s)"
proof -
  obtain out buffer bl where s: "s = (out, buffer, bl)" by (cases s)
  let ?n = "digits_val 32 vs"
  have n': "digits_val 32 (vs @ [v]) = ?n * 2 ^ 5 + v" by simp
  from assms s have a: "holds buffer ?n" "8 * length out + bl = 5 * length vs" "bl < 8"
    "out = digits_of 256 (length out) (?n div 2 ^ bl)" by (auto simp: decoded_to_def)
  have h: "holds (push_bit 5 buffer OR of_nat v) (?n * 2 ^ 5 + v)" using unat_push_or [OF a(1), of v 5] assms(2) by simp
  have d: "(?n * 2 ^ 5 + v) div 2 ^ (bl + 5) = ?n div 2 ^ bl" using div_shift [of v 5 ?n bl] assms(2) by simp
  show ?thesis
  proof (cases "8 \<le> bl + 5")
    case True
    have "(?n * 2 ^ 5 + v) div 2 ^ (bl + 5 - 8) div 256 = (?n * 2 ^ 5 + v) div 2 ^ (bl + 5)"
    proof -
      have "2 ^ (bl + 5 - 8) * 2 ^ 8 = (2 :: nat) ^ (bl + 5)" using True by (simp only: power_add [symmetric]) simp
      then have "2 ^ (bl + 5 - 8) * 256 = (2 :: nat) ^ (bl + 5)" by simp
      then show ?thesis by (metis div_mult2_eq)
    qed
    with True a d h holds_bits [OF h, of "bl + 5 - 8" 8] show ?thesis
      unfolding decoded_to_def base32_put_def s n' masks by (simp add: Let_def)
  next
    case False
    with a d h show ?thesis unfolding decoded_to_def base32_put_def s n' by (simp add: Let_def)
  qed
qed

lemma decoded_to_run: "\<forall>v \<in> set vs. v < 32 \<Longrightarrow> decoded_to vs (foldl (\<lambda>s v. base32_put v s) ([], 0, 0) vs)"
proof (induction vs rule: rev_induct)
  case Nil
  then show ?case by (simp add: decoded_to_def holds_def)
next
  case (snoc v vs)
  then show ?case by (simp add: decoded_to_put)
qed

subsection \<open>Encoding\<close>

abbreviation base32_text :: "nat list \<Rightarrow> qstring" where
  "base32_text ds \<equiv> map ((!) BASE32_ALPHABET) ds"

definition encoded_to :: "nat \<Rightarrow> nat \<Rightarrow> qstring \<times> nat \<Rightarrow> bool" where
  "encoded_to bits m s = (case s of (out, bitsLeft) \<Rightarrow>
     5 * length out + bitsLeft = bits \<and> out = base32_text (digits_of 32 (length out) (m div 2 ^ bitsLeft)))"

lemma base32_char_bits: "holds buffer m \<Longrightarrow> b \<le> 27 \<Longrightarrow> base32_char (drop_bit b buffer) = BASE32_ALPHABET ! (m div 2 ^ b mod 32)"
  using holds_bits [of buffer m b 5] by (simp add: base32_char_def masks)

lemma encoded_to_emit:
  "holds buffer m \<Longrightarrow> bitsLeft \<le> 32 \<Longrightarrow> encoded_to bits m (out, bitsLeft) \<Longrightarrow>
     encoded_to bits m (base32_emit out buffer bitsLeft) \<and> snd (base32_emit out buffer bitsLeft) < 5"
proof (induction out buffer bitsLeft rule: base32_emit.induct)
  case (1 out buffer bl)
  show ?case
  proof (cases "5 \<le> bl")
    case True
    let ?c = "base32_char (drop_bit (bl - 5) buffer)"
    have "2 ^ (bl - 5) * 2 ^ 5 = (2 :: nat) ^ bl" using True by (simp only: power_add [symmetric]) simp
    then have "m div 2 ^ (bl - 5) div 32 = m div 2 ^ bl" by (simp add: div_mult2_eq [symmetric])
    then have "encoded_to bits m (out @ [?c], bl - 5)"
      using "1.prems" True base32_char_bits [OF "1.prems"(1), of "bl - 5"] by (simp add: encoded_to_def)
    with "1.IH" [OF True] "1.prems" True show ?thesis by (simp add: base32_emit.simps [of out buffer bl])
  qed (use "1.prems" in \<open>simp add: base32_emit.simps [of out buffer bl]\<close>)
qed

definition taken_to :: "bytes \<Rightarrow> qstring \<times> 32 word \<times> nat \<Rightarrow> bool" where
  "taken_to bs s = (case s of (out, buffer, bitsLeft) \<Rightarrow>
     holds buffer (digits_val 256 bs) \<and> bitsLeft < 5 \<and> encoded_to (8 * length bs) (digits_val 256 bs) (out, bitsLeft))"

lemma taken_to_take:
  assumes "taken_to bs s" "c < 256"
  shows "taken_to (bs @ [c]) (base32_take c s)"
proof -
  obtain out buffer bl where s: "s = (out, buffer, bl)" by (cases s)
  let ?m = "digits_val 256 bs" and ?b = "push_bit 8 buffer OR of_nat c"
  have m': "digits_val 256 (bs @ [c]) = ?m * 2 ^ 8 + c" by simp
  from assms s have a: "holds buffer ?m" "bl < 5" "encoded_to (8 * length bs) ?m (out, bl)"
    by (auto simp: taken_to_def)
  have h: "holds ?b (?m * 2 ^ 8 + c)" using unat_push_or [OF a(1), of c 8] assms(2) by simp
  have "(?m * 2 ^ 8 + c) div 2 ^ (bl + 8) = ?m div 2 ^ bl" using div_shift [of c 8 ?m bl] assms(2) by simp
  then have "encoded_to (8 * length (bs @ [c])) (?m * 2 ^ 8 + c) (out, bl + 8)"
    using a(3) by (simp add: encoded_to_def)
  from encoded_to_emit [OF h _ this] a(2) h show ?thesis
    unfolding taken_to_def base32_take_def s m' by (auto simp: Let_def split: prod.splits)
qed

lemma taken_to_run: "bytes_ok bs \<Longrightarrow> taken_to bs (foldl (\<lambda>s c. base32_take c s) ([], 0, 0) bs)"
proof (induction bs rule: rev_induct)
  case Nil
  then show ?case by (simp add: taken_to_def holds_def encoded_to_def)
next
  case (snoc c bs)
  then show ?case by (simp add: taken_to_take)
qed

text \<open>The text is the base 32 number of the bytes, padded with less than five zero bits.\<close>

lemma Base32Encode_digits:
  assumes "bytes_ok bs"
  obtains k pad where "Base32Encode bs = base32_text (digits_of 32 k (digits_val 256 bs * 2 ^ pad))"
    "5 * k = 8 * length bs + pad" "pad < 5"
proof -
  obtain out buffer bl where s: "foldl (\<lambda>s c. base32_take c s) ([], 0, 0) bs = (out, buffer, bl)"
    by (cases "foldl (\<lambda>s c. base32_take c s) ([], 0, 0) bs")
  let ?m = "digits_val 256 bs"
  from taken_to_run [OF assms] s have t: "holds buffer ?m" "bl < 5" "5 * length out + bl = 8 * length bs"
    "out = base32_text (digits_of 32 (length out) (?m div 2 ^ bl))" by (simp_all add: taken_to_def encoded_to_def)
  show ?thesis
  proof (cases "bl = 0")
    case True
    with t s show ?thesis by (intro that [of "length out" 0]) (simp_all add: Base32Encode_def)
  next
    case False
    let ?p = "5 - bl"
    have p: "2 ^ ?p * 2 ^ bl = (32 :: nat)"
    proof -
      have "2 ^ ?p * 2 ^ bl = (2 :: nat) ^ 5" using t(2) by (simp only: power_add [symmetric]) simp
      then show ?thesis by simp
    qed
    have c: "base32_char (push_bit ?p buffer) = BASE32_ALPHABET ! (?m * 2 ^ ?p mod 32)"
      using holds_bits [OF holds_push [OF t(1), of ?p], of 0 5] by (simp add: base32_char_def masks)
    have "?m * 2 ^ ?p div 32 = ?m div 2 ^ bl" by (simp add: p [symmetric] mult.commute [of "2 ^ ?p"])
    then have "digits_of 32 (Suc (length out)) (?m * 2 ^ ?p) = digits_of 32 (length out) (?m div 2 ^ bl) @ [?m * 2 ^ ?p mod 32]"
      by simp
    with c False t s show ?thesis
      by (intro that [of "Suc (length out)" ?p]) (simp_all add: Base32Encode_def)
  qed
qed

subsection \<open>The round trip\<close>

lemma base32_alphabet: "\<forall>d \<in> set [0..<32]. let c = BASE32_ALPHABET ! d in
    toLatin1 c = c \<and> \<not> base32_skips c \<and> base32_value c = Some d"
  by code_simp

lemma base32_alphabetD:
  assumes "d < 32"
  shows "toLatin1 (BASE32_ALPHABET ! d) = BASE32_ALPHABET ! d" "\<not> base32_skips (BASE32_ALPHABET ! d)"
    "base32_value (BASE32_ALPHABET ! d) = Some d"
  using bspec [OF base32_alphabet, of d] assms by (simp_all add: Let_def)

lemma base32_loop_text:
  "\<forall>d \<in> set ds. d < 32 \<Longrightarrow> base32_loop (base32_text ds) s = Some (fst (foldl (\<lambda>s v. base32_put v s) s ds))"
proof (induction ds arbitrary: s)
  case (Cons d ds)
  then have d: "d < 32" by simp
  show ?case using Cons.IH [of "base32_put d s"] Cons.prems
    by (simp add: Let_def base32_alphabetD [OF d] del: base32_loop.simps(1))
qed simp

lemma digits_of_less: "0 < b \<Longrightarrow> d \<in> set (digits_of b n x) \<Longrightarrow> d < b"
  by (induction n arbitrary: x) auto

lemma Base32Decode_Base32Encode:
  assumes "bytes_ok bs"
  shows "Base32Decode (Base32Encode bs) = Some bs"
proof -
  let ?m = "digits_val 256 bs"
  obtain k pad where e: "Base32Encode bs = base32_text (digits_of 32 k (?m * 2 ^ pad))"
    and k: "5 * k = 8 * length bs + pad" "pad < 5" by (rule Base32Encode_digits [OF assms])
  let ?vs = "digits_of 32 k (?m * 2 ^ pad)"
  have less: "\<forall>d \<in> set ?vs. d < 32" using digits_of_less by simp
  obtain out buffer bl where s: "foldl (\<lambda>s v. base32_put v s) ([], 0, 0) ?vs = (out, buffer, bl)"
    by (cases "foldl (\<lambda>s v. base32_put v s) ([], 0, 0) ?vs")
  from decoded_to_run [OF less] s have d: "8 * length out + bl = 5 * k" "bl < 8"
    "out = digits_of 256 (length out) (digits_val 32 ?vs div 2 ^ bl)" by (simp_all add: decoded_to_def)
  have "?m < 256 ^ length bs" using digits_val_less [OF assms] .
  then have "?m * 2 ^ pad < 256 ^ length bs * 2 ^ pad" by simp
  also have "(256 :: nat) ^ length bs * 2 ^ pad = 2 ^ (8 * length bs + pad)" by (simp add: power_add power_mult)
  also have "\<dots> = 32 ^ k" by (simp add: k(1) [symmetric] power_mult)
  finally have v: "digits_val 32 ?vs = ?m * 2 ^ pad" by (simp add: digits_val_digits_of)
  have "(8 * length out + bl) mod 8 = (8 * length bs + pad) mod 8" using d(1) k(1) by simp
  then have "bl = pad" using d(2) k(2) by simp
  with d(1) k(1) have "length out = length bs \<and> bl = pad" by simp
  with d(3) v have "out = digits_of 256 (length bs) ?m" by simp
  then have "out = bs" using digits_of_digits_val [OF assms] by simp
  then show ?thesis using base32_loop_text [OF less, of "([], 0, 0)"] s by (simp add: Base32Decode_def e)
qed

text \<open>Normalising keeps the bytes of a secret and has one form for each of them.\<close>

lemma base32_put_bytes: "bytes_ok (fst s) \<Longrightarrow> bytes_ok (fst (base32_put v s))"
proof -
  assume a: "bytes_ok (fst s)"
  have "unat (x AND 0xFF) < 256" for x :: "32 word"
    unfolding masks take_bit_eq_mask [symmetric] unsigned_take_bit_eq by (simp add: take_bit_eq_mod)
  with a show ?thesis by (auto simp: base32_put_def Let_def split: prod.splits)
qed

lemma base32_loop_bytes: "bytes_ok (fst s) \<Longrightarrow> base32_loop cs s = Some out \<Longrightarrow> bytes_ok out"
proof (induction cs s rule: base32_loop.induct)
  case (2 qc rest s)
  then show ?case using base32_put_bytes by (auto simp: Let_def split: if_splits option.splits)
qed simp

lemma Base32Decode_bytes: "Base32Decode cs = Some out \<Longrightarrow> bytes_ok out"
  unfolding Base32Decode_def by (rule base32_loop_bytes) auto

lemma NormalizeSecret_decode:
  assumes "Base32Decode secret = Some key" "key \<noteq> []"
  shows "NormalizeSecret secret = Base32Encode key" "Base32Decode (NormalizeSecret secret) = Some key"
  using assms Base32Decode_Base32Encode [OF Base32Decode_bytes [OF assms(1)]] by (simp_all add: NormalizeSecret_def)

section \<open>The protobuf wire format\<close>

text \<open>Values are below \<open>2 ^ 64\<close>; a byte keeps seven bits and a flag that more follow.\<close>

fun pbWriteVarint :: "nat \<Rightarrow> bytes" where
  "pbWriteVarint value =
     (if value div 128 = 0 then [value mod 128] else (value mod 128 + 128) # pbWriteVarint (value div 128))"

declare pbWriteVarint.simps [simp del]

fun varint_loop :: "bytes \<Rightarrow> nat \<Rightarrow> 64 word \<Rightarrow> (nat \<times> bytes) option" where
  "varint_loop [] shift value = None"
| "varint_loop (byte # rest) shift value =
     (let value = value OR push_bit shift (of_nat (byte mod 128))
      in if byte < 128 then Some (unat value, rest)
         else if 63 < shift + 7 then None
         else varint_loop rest (shift + 7) value)"

definition pbReadVarint :: "bytes \<Rightarrow> (nat \<times> bytes) option" where
  "pbReadVarint bs = varint_loop bs 0 0"

definition pbWriteTag :: "nat \<Rightarrow> nat \<Rightarrow> bytes" where
  "pbWriteTag fieldNo wireType = pbWriteVarint (fieldNo * 8 + wireType)"

definition pbWriteBytes :: "nat \<Rightarrow> bytes \<Rightarrow> bytes" where
  "pbWriteBytes fieldNo value = pbWriteTag fieldNo 2 @ pbWriteVarint (length value) @ value"

definition pbWriteUint :: "nat \<Rightarrow> nat \<Rightarrow> bytes" where
  "pbWriteUint fieldNo value = pbWriteTag fieldNo 0 @ pbWriteVarint value"

text \<open>\<^verbatim>\<open>static_cast<int>\<close> of an unsigned value.\<close>

definition to_int32 :: "nat \<Rightarrow> int" where
  "to_int32 n = sint (of_nat n :: 32 word)"

text \<open>A field: its number, wire type, value and bytes. Fixed 64-bit and 32-bit values are skipped.\<close>

type_synonym pb_field = "int \<times> nat \<times> nat \<times> bytes"

definition pbReadField :: "bytes \<Rightarrow> (pb_field \<times> bytes) option" where
  "pbReadField bs =
     (case pbReadVarint bs of None \<Rightarrow> None
      | Some (tag, rest) \<Rightarrow>
          (let fieldNo = to_int32 (tag div 8); wireType = tag mod 8
           in if wireType = 0 then
                (case pbReadVarint rest of None \<Rightarrow> None | Some (v, rest) \<Rightarrow> Some ((fieldNo, 0, v, []), rest))
              else if wireType = 1 then
                (if length rest < 8 then None else Some ((fieldNo, 1, 0, []), drop 8 rest))
              else if wireType = 2 then
                (case pbReadVarint rest of None \<Rightarrow> None
                 | Some (len, rest) \<Rightarrow>
                     if length rest < len then None else Some ((fieldNo, 2, 0, take len rest), drop len rest))
              else if wireType = 5 then
                (if length rest < 4 then None else Some ((fieldNo, 5, 0, []), drop 4 rest))
              else None))"

lemma varint_loop_consumes: "varint_loop bs shift acc = Some (v, rest) \<Longrightarrow> length rest < length bs"
  by (induction bs shift acc rule: varint_loop.induct) (auto simp: Let_def split: if_splits)

lemma unat_or_shift:
  fixes acc :: "64 word"
  assumes "unat acc < 2 ^ shift" "x * 2 ^ shift < 2 ^ 64"
  shows "unat (acc OR push_bit shift (of_nat x)) = unat acc + x * 2 ^ shift"
proof -
  have "acc OR push_bit shift (of_nat x) = acc + push_bit shift (of_nat x)"
  proof (rule disjunctive_add [symmetric])
    fix i
    have "take_bit shift (unat acc) = unat acc" using assms(1) by (simp add: take_bit_nat_eq_self)
    then have "\<not> bit (unat acc) i" if "shift \<le> i" using that by (metis bit_take_bit_iff leD)
    then have "\<not> bit acc i" if "shift \<le> i" using that by (simp add: bit_unsigned_iff)
    then show "\<not> bit acc i \<or> \<not> bit (push_bit shift (of_nat x :: 64 word)) i" by (auto simp: bit_push_bit_iff)
  qed
  also have "\<dots> = of_nat (unat acc + x * 2 ^ shift)" by (simp add: push_bit_eq_mult)
  finally have e: "acc OR push_bit shift (of_nat x) = (of_nat (unat acc + x * 2 ^ shift) :: 64 word)" .
  have "unat acc + x * 2 ^ shift < 2 ^ 64"
  proof (cases "x = 0")
    case False
    then have "2 ^ shift \<le> x * 2 ^ shift" by simp
    with assms(2) have "(2 :: nat) ^ shift < 2 ^ 64" by linarith
    then have "shift < 64" using power_less_imp_less_exp [of "2 :: nat" shift 64] by simp
    then have r: "(2 :: nat) ^ (64 - shift) * 2 ^ shift = 2 ^ 64" by (simp only: power_add [symmetric]) simp
    then have "x * 2 ^ shift < 2 ^ (64 - shift) * 2 ^ shift" using assms(2) by simp
    then have "Suc x * 2 ^ shift \<le> 2 ^ (64 - shift) * 2 ^ shift" by (intro mult_le_mono1) simp
    also note r
    finally show ?thesis using assms(1) by simp
  qed (use unsigned_less [of acc] in simp)
  then show ?thesis unfolding e unat_of_nat by simp
qed

lemma varint_loop_write:
  "unat acc < 2 ^ shift \<Longrightarrow> v * 2 ^ shift < 2 ^ 64 \<Longrightarrow> shift \<le> 63 \<Longrightarrow>
     varint_loop (pbWriteVarint v @ rest) shift acc = Some (unat acc + v * 2 ^ shift, rest)"
proof (induction v arbitrary: shift acc rule: pbWriteVarint.induct)
  case (1 v)
  have low: "(v mod 128) * 2 ^ shift < 2 ^ 64"
    using "1.prems"(2) by (metis mod_less_eq_dividend mult_le_mono1 order_le_less_trans)
  note u = unat_or_shift [OF "1.prems"(1) low]
  show ?case
  proof (cases "v div 128 = 0")
    case True
    then have "v < 128" by simp
    with u True show ?thesis by (simp add: pbWriteVarint.simps [of v] Let_def)
  next
    case False
    let ?acc = "acc OR push_bit shift (of_nat (v mod 128))"
    have "v * 2 ^ shift = (v mod 128 + 128 * (v div 128)) * 2 ^ shift" by simp
    also have "\<dots> = (v mod 128) * 2 ^ shift + (v div 128) * 2 ^ (shift + 7)" by (simp only: add_mult_distrib power_add) simp
    finally have cut: "v * 2 ^ shift = (v mod 128) * 2 ^ shift + (v div 128) * 2 ^ (shift + 7)" .
    have a: "unat ?acc < 2 ^ (shift + 7)"
    proof -
      have "v mod 128 + 1 \<le> 128" using mod_less_divisor [of 128 v] by linarith
      then have "(v mod 128 + 1) * 2 ^ shift \<le> 128 * 2 ^ shift" by (rule mult_le_mono1)
      then have "v mod 128 * 2 ^ shift + 2 ^ shift \<le> 128 * 2 ^ shift" by (simp only: add_mult_distrib mult_1)
      moreover have "(2 :: nat) ^ (shift + 7) = 128 * 2 ^ shift" by (simp add: power_add)
      ultimately show ?thesis using u "1.prems"(1) by linarith
    qed
    have b: "(v div 128) * 2 ^ (shift + 7) < 2 ^ 64" using "1.prems"(2) cut by linarith
    moreover have "1 * 2 ^ (shift + 7) \<le> (v div 128) * 2 ^ (shift + 7)" using False by (intro mult_le_mono1) simp
    ultimately have "(2 :: nat) ^ (shift + 7) < 2 ^ 64" by linarith
    then have c: "shift + 7 \<le> 63" using power_less_imp_less_exp [of "2 :: nat" "shift + 7" 64] by simp
    have "varint_loop (pbWriteVarint (v div 128) @ rest) (shift + 7) ?acc =
        Some (unat ?acc + (v div 128) * 2 ^ (shift + 7), rest)"
      using "1.IH" [OF False a b c] .
    with False c u cut show ?thesis by (simp add: pbWriteVarint.simps [of v] Let_def)
  qed
qed

interpretation varint: prefix_format pbWriteVarint pbReadVarint "\<lambda>v. v < 2 ^ 64"
  by unfold_locales (use varint_loop_write [of 0 0] varint_loop_consumes in \<open>auto simp: pbReadVarint_def\<close>)

subsection \<open>Fields\<close>

text \<open>The two kinds of field that are written.\<close>

fun pb_write :: "pb_field \<Rightarrow> bytes" where
  "pb_write (fieldNo, wireType, v, bs) =
     (if wireType = 0 then pbWriteUint (nat fieldNo) v else pbWriteBytes (nat fieldNo) bs)"

fun pb_writable :: "pb_field \<Rightarrow> bool" where
  "pb_writable (fieldNo, wireType, v, bs) \<longleftrightarrow> 0 \<le> fieldNo \<and> fieldNo < 16 \<and>
     (wireType = 0 \<and> bs = [] \<and> v < 2 ^ 64 \<or> wireType = 2 \<and> v = 0 \<and> length bs < 2 ^ 64)"

lemma to_int32_small: "n < 16 \<Longrightarrow> to_int32 n = int n"
proof -
  assume "n < 16"
  then have "signed_take_bit 31 (int n) = int n" by (simp add: signed_take_bit_int_eq_self)
  then show ?thesis by (simp add: to_int32_def signed_of_nat)
qed

lemma pbReadField_write: "pb_writable x \<Longrightarrow> pbReadField (pb_write x @ rest) = Some (x, rest)"
proof -
  assume a: "pb_writable x"
  obtain f t v bs where x: "x = (f, t, v, bs)" by (cases x)
  have n: "nat f < 16" "int (nat f) = f" using a x by auto
  have tag: "pbReadVarint (pbWriteTag (nat f) k @ r) = Some (nat f * 8 + k, r)" if "k < 8" for k r
    unfolding pbWriteTag_def by (rule varint.get_put) (use n that in simp)
  consider "t = 0" "bs = []" "v < 2 ^ 64" | "t = 2" "v = 0" "length bs < 2 ^ 64" using a x by auto
  then show ?thesis
  proof cases
    case 1
    then show ?thesis using n varint.get_put [of v rest]
      by (simp add: x pbWriteUint_def pbReadField_def tag to_int32_small Let_def)
  next
    case 2
    then show ?thesis using n varint.get_put [of "length bs" "bs @ rest"]
      by (simp add: x pbWriteBytes_def pbReadField_def tag to_int32_small Let_def del: add_2_eq_Suc')
  qed
qed

lemma pbReadField_consumes: "pbReadField bs = Some (x, rest) \<Longrightarrow> length rest < length bs"
proof -
  assume a: "pbReadField bs = Some (x, rest)"
  then obtain tag r where t: "pbReadVarint bs = Some (tag, r)" by (auto simp: pbReadField_def split: option.splits)
  have "length rest \<le> length r"
    using a t varint.get_consumes [of r] by (auto simp: pbReadField_def Let_def split: option.splits if_splits)
  with varint.get_consumes [OF t] show ?thesis by simp
qed

interpretation pb: prefix_format pb_write pbReadField pb_writable
  by unfold_locales (rule pbReadField_write, assumption, rule pbReadField_consumes)

end
