(* ===== verification/Otp.thy ===== *)
theory Otp
  imports OtpCodec Json
begin

text \<open>
  One-time passwords (\<^verbatim>\<open>src/global/OTP.cpp\<close>): entries, the codes of RFC 4226 and RFC 6238, and the forms an
  entry is imported from and exported to: otpauth links, Google Authenticator's migration links, JSON and bare
  secrets. What the sources take from Qt (letter case, UTF-8, base64, URLs, JSON text, the HMAC) is gathered in
  the record \<open>qt\<close>.
\<close>

unbundle bit_operations_syntax

section \<open>Entries\<close>

datatype Algorithm = SHA1 | SHA256 | SHA512

datatype otp_type = TOTP | HOTP

definition DEFAULT_DIGITS :: int where "DEFAULT_DIGITS = 6"
definition DEFAULT_PERIOD :: int where "DEFAULT_PERIOD = 30"
definition MIN_DIGITS :: int where "MIN_DIGITS = 4"
definition MAX_DIGITS :: int where "MAX_DIGITS = 10"
definition MIN_PERIOD :: int where "MIN_PERIOD = 1"
definition MAX_PERIOD :: int where "MAX_PERIOD = 3600"
definition MIN_BARE_SECRET_BYTES :: nat where "MIN_BARE_SECRET_BYTES = 10"

record Entry =
  e_name :: qstring
  issuer :: qstring
  secret :: qstring
  algorithm :: Algorithm
  e_type :: otp_type
  e_digits :: int
  period :: int
  counter :: int

definition fresh_entry :: Entry where
  "fresh_entry = \<lparr>e_name = [], issuer = [], secret = [], algorithm = SHA1, e_type = TOTP,
     e_digits = DEFAULT_DIGITS, period = DEFAULT_PERIOD, counter = 0\<rparr>"

text \<open>A parsed \<^verbatim>\<open>QUrl\<close> with the decoded items of its query.\<close>

record url =
  u_valid :: bool
  u_scheme :: qstring
  u_host :: qstring
  u_path :: qstring
  u_items :: "(qstring \<times> qstring) list"

record qt =
  toUpper :: "qstring \<Rightarrow> qstring"
  toLower :: "qstring \<Rightarrow> qstring"
  toUtf8 :: "qstring \<Rightarrow> bytes"
  fromUtf8 :: "bytes \<Rightarrow> qstring"
  toBase64 :: "bytes \<Rightarrow> bytes"
  fromBase64 :: "bytes \<Rightarrow> bytes"
  parse_url :: "qstring \<Rightarrow> url"
  print_url :: "url \<Rightarrow> qstring"
  parse_json :: "bytes \<Rightarrow> json option"
  print_json :: "json \<Rightarrow> bytes"
  json_text :: "json \<Rightarrow> qstring"
  mac :: "Algorithm \<Rightarrow> bytes \<Rightarrow> bytes \<Rightarrow> bytes"

abbreviation queryItemValue :: "url \<Rightarrow> qstring \<Rightarrow> qstring" where
  "queryItemValue u k \<equiv> hash_value (u_items u) k []"

abbreviation hasQueryItem :: "url \<Rightarrow> qstring \<Rightarrow> bool" where
  "hasQueryItem u k \<equiv> hash_contains (u_items u) k"

definition number :: "int \<Rightarrow> qstring" where
  "number n = lit (show_int n)"

section \<open>Names of algorithms and types\<close>

fun AlgorithmToString :: "Algorithm \<Rightarrow> qstring" where
  "AlgorithmToString SHA256 = lit ''SHA256''"
| "AlgorithmToString SHA512 = lit ''SHA512''"
| "AlgorithmToString SHA1 = lit ''SHA1''"

definition AlgorithmFromString :: "qt \<Rightarrow> qstring \<Rightarrow> Algorithm option" where
  "AlgorithmFromString q name =
     (let normalized = filter (\<lambda>c. c \<noteq> 45) (toUpper q (trimmed name))
      in if normalized = lit ''SHA256'' then Some SHA256
         else if normalized = lit ''SHA512'' then Some SHA512
         else if normalized = lit ''SHA1'' \<or> normalized = [] then Some SHA1
         else None)"

definition TypeToString :: "otp_type \<Rightarrow> qstring" where
  "TypeToString t = (if t = HOTP then lit ''hotp'' else lit ''totp'')"

definition TypeFromString :: "qt \<Rightarrow> qstring \<Rightarrow> otp_type option" where
  "TypeFromString q name =
     (let normalized = toLower q (trimmed name)
      in if normalized = lit ''hotp'' then Some HOTP
         else if normalized = lit ''totp'' \<or> normalized = [] then Some TOTP
         else None)"

section \<open>Messages\<close>

definition quoted :: "qstring \<Rightarrow> qstring" where
  "quoted s = [34] @ s @ [34]"

definition otpEntryLabel :: "Entry \<Rightarrow> qstring" where
  "otpEntryLabel e = (if e_name e \<noteq> [] then e_name e else if issuer e \<noteq> [] then issuer e else lit ''Unnamed entry'')"

definition otpBadAlgorithm :: "Entry \<Rightarrow> qstring \<Rightarrow> qstring" where
  "otpBadAlgorithm e v = otpEntryLabel e @ lit '': algorithm '' @ quoted v @
     lit '' is not supported (only SHA1, SHA256 and SHA512), so its codes would be wrong.''"

definition otpBadDigits :: "Entry \<Rightarrow> qstring \<Rightarrow> qstring" where
  "otpBadDigits e v = otpEntryLabel e @ lit '': '' @ v @ lit '' digits are not supported (use '' @ number MIN_DIGITS @
     lit '' to '' @ number MAX_DIGITS @ lit '').''"

definition otpBadPeriod :: "Entry \<Rightarrow> qstring \<Rightarrow> qstring" where
  "otpBadPeriod e v = otpEntryLabel e @ lit '': a period of '' @ quoted v @ lit '' seconds is not supported (use '' @
     number MIN_PERIOD @ lit '' to '' @ number MAX_PERIOD @ lit '').''"

definition otpBadCounter :: "Entry \<Rightarrow> qstring \<Rightarrow> qstring" where
  "otpBadCounter e v = otpEntryLabel e @ lit '': the counter '' @ quoted v @ lit '' is not a whole number of 0 or more.''"

definition otpBadType :: "Entry \<Rightarrow> qstring \<Rightarrow> qstring" where
  "otpBadType e v = otpEntryLabel e @ lit '': type '' @ quoted v @ lit '' is not supported (only totp and hotp).''"

definition otpNoSecret :: "Entry \<Rightarrow> qstring" where
  "otpNoSecret e = otpEntryLabel e @ lit '': there is no secret.''"

definition otpBadSecret :: "Entry \<Rightarrow> qstring" where
  "otpBadSecret e = otpEntryLabel e @ lit '': the secret is not valid base32 (letters A-Z and digits 2-7).''"

section \<open>Codes\<close>

text \<open>The reason an entry is not usable, empty when it is.\<close>

definition Validate :: "Entry \<Rightarrow> qstring" where
  "Validate e =
     (if trimmed (secret e) = [] then lit ''Secret is empty''
      else case Base32Decode (secret e) of
             None \<Rightarrow> lit ''Secret is not valid base32''
           | Some key \<Rightarrow>
               if key = [] then lit ''Secret is too short''
               else if e_digits e < MIN_DIGITS \<or> MAX_DIGITS < e_digits e then
                 lit ''Digits must be between '' @ number MIN_DIGITS @ lit '' and '' @ number MAX_DIGITS
               else if e_type e = TOTP \<and> (period e < MIN_PERIOD \<or> MAX_PERIOD < period e) then
                 lit ''Period must be between '' @ number MIN_PERIOD @ lit '' and '' @ number MAX_PERIOD @ lit '' seconds''
               else [])"

text \<open>\<^verbatim>\<open>QString::arg\<close> with a width pads on the left.\<close>

definition padded :: "nat \<Rightarrow> qstring \<Rightarrow> qstring" where
  "padded width s = replicate (width - length s) 48 @ s"

definition truncated :: "bytes \<Rightarrow> 32 word" where
  "truncated m =
     (let offset = last m mod 16; b = (\<lambda>i. of_nat (m ! (offset + i)) :: 32 word)
      in push_bit 24 (b 0 AND 0x7F) OR push_bit 16 (b 1) OR push_bit 8 (b 2) OR b 3)"

definition GenerateHOTP :: "qt \<Rightarrow> bytes \<Rightarrow> nat \<Rightarrow> Algorithm \<Rightarrow> int \<Rightarrow> qstring" where
  "GenerateHOTP q key counter' alg nDigits =
     (if key = [] \<or> nDigits < MIN_DIGITS \<or> MAX_DIGITS < nDigits then []
      else
        (let m = mac q alg (toBigEndian 8 counter') key
         in if length m < 20 then []
            else padded (nat nDigits) (number (int (unat (truncated m) mod 10 ^ nat nDigits)))))"

text \<open>\<open>clock\<close> is the current time, used when no time is given (a negative one).\<close>

definition GenerateCode :: "qt \<Rightarrow> int \<Rightarrow> Entry \<Rightarrow> int \<Rightarrow> qstring" where
  "GenerateCode q clock e unixTime =
     (if Validate e \<noteq> [] then []
      else
        (let key = (case Base32Decode (secret e) of None \<Rightarrow> [] | Some k \<Rightarrow> k)
         in if e_type e = HOTP then GenerateHOTP q key (nat (counter e mod 2 ^ 64)) (algorithm e) (e_digits e)
            else
              (let now = (if unixTime < 0 then clock else unixTime)
               in GenerateHOTP q key (nat (now div period e mod 2 ^ 64)) (algorithm e) (e_digits e))))"

definition SecondsRemaining :: "int \<Rightarrow> Entry \<Rightarrow> int \<Rightarrow> int" where
  "SecondsRemaining clock e unixTime =
     (if e_type e = HOTP \<or> period e < MIN_PERIOD then 0
      else (let now = (if unixTime < 0 then clock else unixTime) in period e - now mod period e))"

section \<open>Numbers as text\<close>

definition isDigit :: "qchar \<Rightarrow> bool" where
  "isDigit c \<longleftrightarrow> 48 \<le> c \<and> c \<le> 57"

text \<open>\<^verbatim>\<open>toLongLong\<close> and \<^verbatim>\<open>toInt\<close> in base ten: a sign, then digits only, in the range of the type.\<close>

definition whole_number :: "qstring \<Rightarrow> int option" where
  "whole_number s =
     (let (neg, ds) = (case s of c # r \<Rightarrow> if c = 45 then (True, r) else if c = 43 then (False, r) else (False, s) | [] \<Rightarrow> (False, s))
      in if ds = [] \<or> \<not> list_all isDigit ds then None
         else (let n = int (digits_val 10 (map (\<lambda>c. c - 48) ds)) in Some (if neg then - n else n)))"

definition toLongLong :: "qstring \<Rightarrow> int option" where
  "toLongLong s = (case whole_number s of None \<Rightarrow> None | Some n \<Rightarrow> if is_int64 n then Some n else None)"

definition textToInt :: "qstring \<Rightarrow> int option" where
  "textToInt s = (case whole_number s of None \<Rightarrow> None | Some n \<Rightarrow> if is_int32 n then Some n else None)"

section \<open>Links\<close>

definition link_url :: "Entry \<Rightarrow> url" where
  "link_url e =
     \<lparr>u_valid = True, u_scheme = lit ''otpauth'', u_host = TypeToString (e_type e),
       u_path = lit ''/'' @ (if issuer e = [] then e_name e else issuer e @ lit '':'' @ e_name e),
       u_items = [(lit ''secret'', secret e)] @ (if issuer e \<noteq> [] then [(lit ''issuer'', issuer e)] else []) @
         [(lit ''algorithm'', AlgorithmToString (algorithm e)), (lit ''digits'', number (e_digits e)),
          (if e_type e = HOTP then (lit ''counter'', number (counter e)) else (lit ''period'', number (period e)))]\<rparr>"

definition ExportToLink :: "qt \<Rightarrow> Entry \<Rightarrow> qstring" where
  "ExportToLink q e = print_url q (link_url e)"

definition asciiLower :: "qstring \<Rightarrow> qstring" where
  "asciiLower s = map (\<lambda>c. if 65 \<le> c \<and> c \<le> 90 then c + 32 else c) s"

text \<open>Issuer and name out of the path and the query.\<close>

definition link_label :: "url \<Rightarrow> Entry" where
  "link_label u =
     (let label = (if u_path u \<noteq> [] \<and> hd (u_path u) = 47 then tl (u_path u) else u_path u);
          e = (case indexOf 58 label of
                 Some sep \<Rightarrow> fresh_entry\<lparr>issuer := trimmed (take sep label), e_name := trimmed (drop (Suc sep) label)\<rparr>
               | None \<Rightarrow> fresh_entry\<lparr>e_name := trimmed label\<rparr>);
          i = trimmed (queryItemValue u (lit ''issuer''));
          e = (if i \<noteq> [] then e\<lparr>issuer := i\<rparr> else e)
      in if e_name e = [] then e\<lparr>e_name := issuer e\<rparr> else e)"

text \<open>The three number parameters, one after the other; a value that would give wrong codes refuses the link.\<close>

definition link_algorithm :: "qt \<Rightarrow> url \<Rightarrow> Entry \<Rightarrow> qstring + Entry" where
  "link_algorithm q u e =
     (if hasQueryItem u (lit ''algorithm'') then
        (case AlgorithmFromString q (queryItemValue u (lit ''algorithm'')) of
           None \<Rightarrow> Inl (otpBadAlgorithm e (queryItemValue u (lit ''algorithm'')))
         | Some a \<Rightarrow> Inr (e\<lparr>algorithm := a\<rparr>))
      else Inr e)"

definition link_digits :: "url \<Rightarrow> Entry \<Rightarrow> qstring + Entry" where
  "link_digits u e =
     (if hasQueryItem u (lit ''digits'') then
        (let t = trimmed (queryItemValue u (lit ''digits''))
         in case textToInt t of
              None \<Rightarrow> Inl (otpBadDigits (e\<lparr>e_digits := 0\<rparr>) t)
            | Some n \<Rightarrow> if n < MIN_DIGITS \<or> MAX_DIGITS < n then Inl (otpBadDigits (e\<lparr>e_digits := n\<rparr>) t)
                        else Inr (e\<lparr>e_digits := n\<rparr>))
      else Inr e)"

definition link_period :: "url \<Rightarrow> Entry \<Rightarrow> qstring + Entry" where
  "link_period u e =
     (if e_type e = TOTP \<and> hasQueryItem u (lit ''period'') then
        (let t = trimmed (queryItemValue u (lit ''period''))
         in case textToInt t of
              None \<Rightarrow> Inl (otpBadPeriod e t)
            | Some n \<Rightarrow> if n < MIN_PERIOD \<or> MAX_PERIOD < n then Inl (otpBadPeriod e t) else Inr (e\<lparr>period := n\<rparr>))
      else Inr e)"

definition link_counter :: "url \<Rightarrow> Entry \<Rightarrow> qstring + Entry" where
  "link_counter u e =
     (if e_type e = HOTP \<and> hasQueryItem u (lit ''counter'') then
        (let t = trimmed (queryItemValue u (lit ''counter''))
         in case toLongLong t of
              None \<Rightarrow> Inl (otpBadCounter e t)
            | Some n \<Rightarrow> if n < 0 then Inl (otpBadCounter e t) else Inr (e\<lparr>counter := n\<rparr>))
      else Inr e)"

definition bind_sum :: "'e + 'a \<Rightarrow> ('a \<Rightarrow> 'e + 'b) \<Rightarrow> 'e + 'b" where
  "bind_sum x f = (case x of Inl e \<Rightarrow> Inl e | Inr a \<Rightarrow> f a)"

text \<open>\<open>Inl []\<close>: not an otpauth link at all; \<open>Inl p\<close>: refused because of \<open>p\<close>.\<close>

definition ParseFromLink :: "qt \<Rightarrow> qstring \<Rightarrow> qstring + Entry" where
  "ParseFromLink q link =
     (let u = parse_url q (trimmed link)
      in if \<not> u_valid u \<or> asciiLower (u_scheme u) \<noteq> lit ''otpauth'' then Inl []
         else
           (let e = link_label u
            in case TypeFromString q (u_host u) of
                 None \<Rightarrow> Inl (otpBadType e (u_host u))
               | Some t \<Rightarrow>
                   (let e = e\<lparr>e_type := t\<rparr>; s = queryItemValue u (lit ''secret'')
                    in if trimmed s = [] then Inl (otpNoSecret e)
                       else
                         (let e = e\<lparr>secret := NormalizeSecret s\<rparr>
                          in if secret e = [] then Inl (otpBadSecret e)
                             else bind_sum (link_algorithm q u e) (\<lambda>e. bind_sum (link_digits u e)
                               (\<lambda>e. bind_sum (link_period u e) (link_counter u)))))))"

section \<open>Migration links\<close>

definition migrationAlgorithm :: "nat \<Rightarrow> Algorithm option" where
  "migrationAlgorithm v =
     (if v = 0 \<or> v = 1 then Some SHA1 else if v = 2 then Some SHA256 else if v = 3 then Some SHA512 else None)"

fun migrationAlgorithmValue :: "Algorithm \<Rightarrow> nat" where
  "migrationAlgorithmValue SHA256 = 2"
| "migrationAlgorithmValue SHA512 = 3"
| "migrationAlgorithmValue SHA1 = 1"

definition migration_parameters :: "qt \<Rightarrow> Entry \<Rightarrow> bytes \<Rightarrow> bytes" where
  "migration_parameters q e key =
     pbWriteBytes 1 key @ pbWriteBytes 2 (toUtf8 q (e_name e)) @
     (if issuer e \<noteq> [] then pbWriteBytes 3 (toUtf8 q (issuer e)) else []) @
     pbWriteUint 4 (migrationAlgorithmValue (algorithm e)) @
     pbWriteUint 5 (if e_digits e = 8 then 2 else 1) @
     pbWriteUint 6 (if e_type e = HOTP then 1 else 2) @
     (if e_type e = HOTP then pbWriteUint 7 (nat (counter e mod 2 ^ 64)) else [])"

definition migration_payload :: "qt \<Rightarrow> Entry list \<Rightarrow> bytes" where
  "migration_payload q es =
     concat (map (\<lambda>e. case Base32Decode (secret e) of
                        None \<Rightarrow> []
                      | Some key \<Rightarrow> if key = [] then [] else pbWriteBytes 1 (migration_parameters q e key)) es)"

definition migration_url :: "qstring \<Rightarrow> url" where
  "migration_url dat = \<lparr>u_valid = True, u_scheme = lit ''otpauth-migration'', u_host = lit ''offline'', u_path = [],
     u_items = [(lit ''data'', dat)]\<rparr>"

definition ExportToMigrationLink :: "qt \<Rightarrow> Entry list \<Rightarrow> qstring" where
  "ExportToMigrationLink q es =
     (let payload = migration_payload q es
      in if payload = [] then []
         else
           (let payload = payload @ pbWriteUint 2 1 @ pbWriteUint 3 1 @ pbWriteUint 4 0
            in print_url q (migration_url (fromUtf8 q (toBase64 q payload)))))"

record migration =
  m_entry :: Entry
  haveSecret :: bool
  badAlgorithm :: "nat option"
  badDigits :: "nat option"
  badType :: "nat option"

definition migration_field :: "qt \<Rightarrow> pb_field \<Rightarrow> migration \<Rightarrow> migration" where
  "migration_field q x m =
     (case x of (f, w, v, b) \<Rightarrow>
        (let e = m_entry m
         in if f = 1 then m\<lparr>m_entry := e\<lparr>secret := Base32Encode b\<rparr>, haveSecret := (b \<noteq> [])\<rparr>
            else if f = 2 then m\<lparr>m_entry := e\<lparr>e_name := fromUtf8 q b\<rparr>\<rparr>
            else if f = 3 then m\<lparr>m_entry := e\<lparr>issuer := fromUtf8 q b\<rparr>\<rparr>
            else if f = 4 then
              (case migrationAlgorithm v of Some a \<Rightarrow> m\<lparr>m_entry := e\<lparr>algorithm := a\<rparr>\<rparr> | None \<Rightarrow> m\<lparr>badAlgorithm := Some v\<rparr>)
            else if f = 5 then
              (if v \<le> 2 then m\<lparr>m_entry := e\<lparr>e_digits := (if v = 2 then 8 else DEFAULT_DIGITS)\<rparr>\<rparr> else m\<lparr>badDigits := Some v\<rparr>)
            else if f = 6 then
              (if v \<le> 2 then m\<lparr>m_entry := e\<lparr>e_type := (if v = 1 then HOTP else TOTP)\<rparr>\<rparr> else m\<lparr>badType := Some v\<rparr>)
            else if f = 7 then m\<lparr>m_entry := e\<lparr>counter := sint (of_nat v :: 64 word)\<rparr>\<rparr>
            else m))"

function migration_fields :: "qt \<Rightarrow> bytes \<Rightarrow> migration \<Rightarrow> migration option" where
  "migration_fields q bs m =
     (if bs = [] then Some m
      else case pbReadField bs of None \<Rightarrow> None | Some (x, rest) \<Rightarrow> migration_fields q rest (migration_field q x m))"
  by pat_completeness auto
termination
  by (relation "measure (\<lambda>(q, bs, m). length bs)") (auto dest: pb.get_consumes)

declare migration_fields.simps [simp del]

definition fresh_migration :: migration where
  "fresh_migration = \<lparr>m_entry = fresh_entry, haveSecret = False, badAlgorithm = None, badDigits = None, badType = None\<rparr>"

text \<open>The entry of one message, or why it is skipped.\<close>

definition migration_result :: "migration \<Rightarrow> qstring + Entry" where
  "migration_result m =
     (let e = (if e_name (m_entry m) = [] then (m_entry m)\<lparr>e_name := issuer (m_entry m)\<rparr> else m_entry m)
      in if \<not> haveSecret m then Inl (otpNoSecret e)
         else case badAlgorithm m of
                Some v \<Rightarrow> Inl (otpBadAlgorithm e (if v = 4 then lit ''MD5'' else number (int v)))
              | None \<Rightarrow>
                  (case badDigits m of
                     Some v \<Rightarrow> Inl (otpEntryLabel e @ lit '': the digit count code '' @ number (int v) @ lit '' is not supported.'')
                   | None \<Rightarrow> (case badType m of Some v \<Rightarrow> Inl (otpBadType e (number (int v))) | None \<Rightarrow> Inr e)))"

function migration_loop :: "qt \<Rightarrow> bytes \<Rightarrow> Entry list \<Rightarrow> qstring list \<Rightarrow> (Entry list \<times> qstring list) option" where
  "migration_loop q bs entries skipped =
     (if bs = [] then Some (entries, skipped)
      else case pbReadField bs of None \<Rightarrow> None
           | Some ((f, w, v, b), rest) \<Rightarrow>
               if f \<noteq> 1 \<or> w \<noteq> 2 then migration_loop q rest entries skipped
               else case migration_fields q b fresh_migration of None \<Rightarrow> None
                    | Some m \<Rightarrow>
                        (case migration_result m of
                           Inl p \<Rightarrow> migration_loop q rest entries (skipped @ [p])
                         | Inr e \<Rightarrow> migration_loop q rest (entries @ [e]) skipped))"
  by pat_completeness auto
termination
  by (relation "measure (\<lambda>(q, bs, es, ps). length bs)") (auto dest: pb.get_consumes)

declare migration_loop.simps [simp del]

text \<open>\<open>Inl\<close> with the entries skipped, when the link is unreadable or nothing is left.\<close>

definition ParseFromMigrationLink :: "qt \<Rightarrow> qstring \<Rightarrow> qstring list + Entry list \<times> qstring list" where
  "ParseFromMigrationLink q link =
     (let u = parse_url q (trimmed link)
      in if \<not> u_valid u \<or> asciiLower (u_scheme u) \<noteq> lit ''otpauth-migration'' then Inl []
         else
           (let dat = queryItemValue u (lit ''data'')
            in if dat = [] then Inl []
               else
                 (let payload = fromBase64 q (toUtf8 q dat)
                  in if payload = [] then Inl []
                     else case migration_loop q payload [] [] of
                            None \<Rightarrow> Inl []
                          | Some (entries, skipped) \<Rightarrow> if entries = [] then Inl skipped else Inr (entries, skipped))))"

section \<open>JSON\<close>

text \<open>
  \<^verbatim>\<open>QJsonValue::toDouble\<close> of a whole number: beyond \<open>2 ^ 53\<close> it is rounded to 53 bits, ties to even.
\<close>

fun excess_bits :: "nat \<Rightarrow> nat" where
  "excess_bits m = (if m < 2 ^ 53 then 0 else Suc (excess_bits (m div 2)))"

declare excess_bits.simps [simp del]

definition toDouble :: "int \<Rightarrow> int" where
  "toDouble n =
     (let m = nat \<bar>n\<bar>; e = excess_bits m; r = m mod 2 ^ e; top = m div 2 ^ e;
          top = (if 2 ^ e < 2 * r \<or> 2 ^ e = 2 * r \<and> odd top then top + 1 else top)
      in sgn n * int (top * 2 ^ e))"

text \<open>
  A number or a numeric string. A double outside \<^verbatim>\<open>qint64\<close> converts to its least value on x86-64, which
  differs from the number; the C++ conversion is undefined there.
\<close>

definition otpJsonInteger :: "json \<Rightarrow> int option" where
  "otpJsonInteger v =
     (case v of JString s \<Rightarrow> toLongLong (trimmed s)
      | JNumber n \<Rightarrow> if is_int64 (toDouble n) then Some (toDouble n) else None
      | _ \<Rightarrow> None)"

definition otpJsonText :: "qt \<Rightarrow> json \<Rightarrow> qstring" where
  "otpJsonText q v =
     (if isString v then toString [] v else if isDouble v then json_text q v else take 40 (json_text q v))"

definition json_digits :: "qt \<Rightarrow> json_object \<Rightarrow> Entry \<Rightarrow> qstring + Entry" where
  "json_digits q ob e =
     (if obj_contains ob ''digits'' then
        (case otpJsonInteger (obj_value ob ''digits'') of
           None \<Rightarrow> Inl (otpBadDigits e (otpJsonText q (obj_value ob ''digits'')))
         | Some n \<Rightarrow> if n < MIN_DIGITS \<or> MAX_DIGITS < n then Inl (otpBadDigits e (otpJsonText q (obj_value ob ''digits'')))
                     else Inr (e\<lparr>e_digits := n\<rparr>))
      else Inr e)"

definition json_period :: "qt \<Rightarrow> json_object \<Rightarrow> Entry \<Rightarrow> qstring + Entry" where
  "json_period q ob e =
     (if e_type e = TOTP \<and> obj_contains ob ''period'' then
        (case otpJsonInteger (obj_value ob ''period'') of
           None \<Rightarrow> Inl (otpBadPeriod e (otpJsonText q (obj_value ob ''period'')))
         | Some n \<Rightarrow> if n < MIN_PERIOD \<or> MAX_PERIOD < n then Inl (otpBadPeriod e (otpJsonText q (obj_value ob ''period'')))
                     else Inr (e\<lparr>period := n\<rparr>))
      else Inr e)"

definition json_counter :: "qt \<Rightarrow> json_object \<Rightarrow> Entry \<Rightarrow> qstring + Entry" where
  "json_counter q ob e =
     (if e_type e = HOTP \<and> obj_contains ob ''counter'' then
        (case otpJsonInteger (obj_value ob ''counter'') of
           None \<Rightarrow> Inl (otpBadCounter e (otpJsonText q (obj_value ob ''counter'')))
         | Some n \<Rightarrow> if n < 0 then Inl (otpBadCounter e (otpJsonText q (obj_value ob ''counter'')))
                     else Inr (e\<lparr>counter := n\<rparr>))
      else Inr e)"

definition entryFromJsonObject :: "qt \<Rightarrow> json_object \<Rightarrow> qstring + Entry" where
  "entryFromJsonObject q ob =
     (let e = fresh_entry\<lparr>e_name := toString [] (obj_value ob ''name''), issuer := toString [] (obj_value ob ''issuer'')\<rparr>;
          s = toString [] (obj_value ob ''secret'')
      in if trimmed s = [] then Inl (otpNoSecret e)
         else
           (let e = e\<lparr>secret := NormalizeSecret s\<rparr>; a = toString [] (obj_value ob ''algorithm'');
                t = toString [] (obj_value ob ''type'')
            in if secret e = [] then Inl (otpBadSecret e)
               else case AlgorithmFromString q a of
                      None \<Rightarrow> Inl (otpBadAlgorithm e a)
                    | Some alg \<Rightarrow>
                        (case TypeFromString q t of
                           None \<Rightarrow> Inl (otpBadType e t)
                         | Some ty \<Rightarrow>
                             bind_sum (json_digits q ob (e\<lparr>algorithm := alg, e_type := ty\<rparr>))
                               (\<lambda>e. bind_sum (json_period q ob e) (json_counter q ob)))))"

definition entryToJsonObject :: "Entry \<Rightarrow> json_object" where
  "entryToJsonObject e =
     [(''name'', JString (e_name e))] @ (if issuer e \<noteq> [] then [(''issuer'', JString (issuer e))] else []) @
     [(''secret'', JString (secret e)), (''algorithm'', JString (AlgorithmToString (algorithm e))),
      (''type'', JString (TypeToString (e_type e))), (''digits'', JNumber (e_digits e)),
      (if e_type e = TOTP then (''period'', JNumber (period e)) else (''counter'', JNumber (counter e)))]"

definition export_document :: "Entry list \<Rightarrow> json" where
  "export_document es =
     JObject [(''version'', JNumber 1), (''otp'', JArray (map (\<lambda>e. JObject (entryToJsonObject e)) es))]"

definition ExportToJson :: "qt \<Rightarrow> Entry list \<Rightarrow> bytes" where
  "ExportToJson q es = print_json q (export_document es)"

fun json_items :: "qt \<Rightarrow> json list \<Rightarrow> Entry list \<times> qstring list" where
  "json_items q [] = ([], [])"
| "json_items q (v # vs) =
     (let (es, ps) = json_items q vs
      in if \<not> isObject v then (es, lit ''Skipped an item that is not an OTP entry.'' # ps)
         else case entryFromJsonObject q (toObject v) of Inl p \<Rightarrow> (es, p # ps) | Inr e \<Rightarrow> (e # es, ps))"

definition otp_ParseFromJson :: "qt \<Rightarrow> bytes \<Rightarrow> qstring list + Entry list \<times> qstring list" where
  "otp_ParseFromJson q text' =
     (case parse_json q text' of
        None \<Rightarrow> Inl []
      | Some document \<Rightarrow>
          (let xs = (case document of JArray xs \<Rightarrow> xs | JObject ob \<Rightarrow> toArray (obj_value ob ''otp'') | _ \<Rightarrow> [])
           in if xs = [] then Inl []
              else (let (es, ps) = json_items q xs in if es = [] then Inl ps else Inr (es, ps))))"

section \<open>Any text\<close>

fun split_when :: "(qchar \<Rightarrow> bool) \<Rightarrow> qstring \<Rightarrow> qstring list" where
  "split_when P [] = [[]]"
| "split_when P (c # s) =
     (if P c then [] # split_when P s
      else (case split_when P s of [] \<Rightarrow> [[c]] | w # ws \<Rightarrow> (c # w) # ws))"

text \<open>\<^verbatim>\<open>split\<close> on one or more separators with \<^verbatim>\<open>SkipEmptyParts\<close>; the class \<^verbatim>\<open>\s\<close> is ASCII white space.\<close>

definition parts_of :: "(qchar \<Rightarrow> bool) \<Rightarrow> qstring \<Rightarrow> qstring list" where
  "parts_of P s = filter (\<lambda>w. w \<noteq> []) (split_when P s)"

definition secret_separator :: "qchar \<Rightarrow> bool" where
  "secret_separator c \<longleftrightarrow> c = 32 \<or> (9 \<le> c \<and> c \<le> 13) \<or> c = 45"

definition LooksLikeBareSecret :: "qstring \<Rightarrow> bool" where
  "LooksLikeBareSecret line =
     (let groups = parts_of secret_separator line
      in if groups = [] then False
         else if length groups = 1 then True
         else if 8 < length (hd groups) then False
         else list_all (\<lambda>g. length g = length (hd groups)) groups)"

definition startsWithNoCase :: "qstring \<Rightarrow> qstring \<Rightarrow> bool" where
  "startsWithNoCase p s \<longleftrightarrow> asciiLower (take (length p) s) = p"

definition bare_secret :: "qstring \<Rightarrow> Entry list \<times> qstring list" where
  "bare_secret line =
     (let s = (if LooksLikeBareSecret line then NormalizeSecret line else [])
      in if s \<noteq> [] then
           (if MIN_BARE_SECRET_BYTES \<le> length (case Base32Decode s of None \<Rightarrow> [] | Some k \<Rightarrow> k)
            then ([fresh_entry\<lparr>secret := s\<rparr>], [])
            else ([], [lit ''Skipped a base32 secret shorter than '' @ number (int ((MIN_BARE_SECRET_BYTES * 8 + 4) div 5)) @
                       lit '' characters.'']))
         else
           ([], [if LooksLikeBareSecret line
                 then lit ''Skipped a secret that is not valid base32 (letters A-Z and digits 2-7).''
                 else lit ''Not an otpauth link or secret: '' @ take 40 line]))"

definition parse_otp_line :: "qt \<Rightarrow> qstring \<Rightarrow> Entry list \<times> qstring list" where
  "parse_otp_line q rawLine =
     (let line = trimmed rawLine
      in if line = [] then ([], [])
         else if startsWithNoCase (lit ''otpauth-migration://'') line then
           (case ParseFromMigrationLink q line of
              Inr (batch, skipped) \<Rightarrow> (batch, skipped)
            | Inl skipped \<Rightarrow> ([], (if skipped = [] then [lit ''Unreadable migration link''] else []) @ skipped))
         else case ParseFromLink q line of
                Inr e \<Rightarrow> ([e], [])
              | Inl problem \<Rightarrow>
                  if problem \<noteq> [] \<or> startsWithNoCase (lit ''otpauth://'') line
                  then ([], [if problem = [] then lit ''An otpauth link could not be read.'' else problem])
                  else bare_secret line)"

definition ParseAny :: "qt \<Rightarrow> qstring \<Rightarrow> Entry list \<times> qstring list" where
  "ParseAny q text' =
     (let t = trimmed text'
      in if t = [] then ([], [])
         else if hd t = 123 \<or> hd t = 91 then
           (case otp_ParseFromJson q (toUtf8 q t) of
              Inr (es, skipped) \<Rightarrow> (es, skipped)
            | Inl skipped \<Rightarrow> ([], (if skipped = [] then [lit ''Not a readable OTP export''] else []) @ skipped))
         else
           (let results = map (parse_otp_line q) (parts_of (\<lambda>c. c = 13 \<or> c = 10) t)
            in (concat (map fst results), concat (map snd results))))"

end
