(* ===== verification/OtpProps.thy ===== *)
theory OtpProps
  imports Otp
begin

text \<open>
  One-time passwords: secrets keep their bytes, codes are those of RFC 4226 and change when a period ends, and
  entries survive the export to JSON, to an otpauth link and to a migration link, with what each form loses.
\<close>

unbundle bit_operations_syntax

section \<open>Text of numbers and names\<close>

lemma number_chars: "number n = (if n < 0 then [45] else []) @ map (\<lambda>d. 48 + d) (digits 10 (nat \<bar>n\<bar>))"
proof -
  have "of_char (char_of (48 + d)) = 48 + d" if "d \<in> set (digits 10 (nat \<bar>n\<bar>))" for d
    using digits_bound [of 10 d "nat \<bar>n\<bar>"] that by simp
  then show ?thesis by (simp add: number_def show_int_def lit_def)
qed

lemma digits_chars: "list_all isDigit (map (\<lambda>d. 48 + d) (digits 10 k))"
proof -
  have "d \<le> 9" if "d \<in> set (digits 10 k)" for d using digits_bound [of 10 d k] that by simp
  then show ?thesis by (simp add: list_all_iff isDigit_def)
qed

lemma digits_val_digits: "digits_val 10 (digits 10 k) = k"
  using digits_value [of 10 k] by (simp add: digits_val_def)

lemma digits_back: "map (\<lambda>c. c - 48) (map (\<lambda>d. 48 + d) ds) = (ds :: nat list)"
  by (simp add: comp_def)

lemma number_nonneg: "0 \<le> n \<Longrightarrow> number n = map (\<lambda>d. 48 + d) (digits 10 (nat n))"
  by (simp add: number_chars)

lemma whole_number_number:
  assumes "0 \<le> n"
  shows "whole_number (number n) = Some n"
proof -
  obtain d ds where ds: "digits 10 (nat n) = d # ds" by (cases "digits 10 (nat n)") simp_all
  have "d < 10" using digits_bound [of 10 d "nat n"] ds by simp
  then have "\<not> 48 + d = 45" "\<not> 48 + d = 43" by simp_all
  with assms ds digits_chars [of "nat n"] digits_back [of "d # ds"] digits_val_digits [of "nat n"] show ?thesis
    by (simp add: whole_number_def number_nonneg del: list.map(2)) (simp add: whole_number_def)
qed

lemma trimmed_number: "0 \<le> n \<Longrightarrow> trimmed (number n) = number n"
  using digits_chars [of "nat n"]
  by (intro trimmed_no_space) (auto simp: number_nonneg list_all_iff isDigit_def isSpace_def)

text \<open>What the code relies on of letter case: on ASCII text it is the ASCII case.\<close>

definition case_laws :: "qt \<Rightarrow> bool" where
  "case_laws q \<longleftrightarrow> (\<forall>s. (\<forall>c \<in> set s. c < 128) \<longrightarrow>
     toUpper q s = map (\<lambda>c. if 97 \<le> c \<and> c \<le> 122 then c - 32 else c) s \<and> toLower q s = asciiLower s)"

lemma Algorithm_roundtrip: "case_laws q \<Longrightarrow> AlgorithmFromString q (AlgorithmToString a) = Some a"
  by (cases a) (simp_all add: case_laws_def AlgorithmFromString_def trimmed_def isSpace_def)

lemma Type_roundtrip: "case_laws q \<Longrightarrow> TypeFromString q (TypeToString t) = Some t"
  by (cases t) (simp_all add: case_laws_def TypeFromString_def TypeToString_def trimmed_def isSpace_def asciiLower_def)

section \<open>Secrets\<close>

text \<open>
  Base32 loses nothing: the bytes that are encoded come back, and a secret in its normal form has the bytes
  of the secret that was typed, whatever its case and separators, and is its own normal form.
\<close>

theorem secrets_kept:
  "(bytes_ok bs \<longrightarrow> Base32Decode (Base32Encode bs) = Some bs) \<and>
   (NormalizeSecret s \<noteq> [] \<longrightarrow>
      Base32Decode (NormalizeSecret s) = Base32Decode s \<and> NormalizeSecret (NormalizeSecret s) = NormalizeSecret s)"
proof -
  have "Base32Decode (NormalizeSecret s) = Base32Decode s \<and> NormalizeSecret (NormalizeSecret s) = NormalizeSecret s"
    if n: "NormalizeSecret s \<noteq> []"
  proof -
    obtain key where k: "Base32Decode s = Some key" "key \<noteq> []"
      using n by (auto simp: NormalizeSecret_def split: option.splits if_splits)
    note n = NormalizeSecret_decode [OF k]
    then show ?thesis using k NormalizeSecret_decode(1) [of "NormalizeSecret s" key] by simp
  qed
  then show ?thesis using Base32Decode_Base32Encode by simp
qed

theorem secrets_kept_witness: "Base32Decode (Base32Encode [72, 101, 108, 108, 111, 33]) = Some [72, 101, 108, 108, 111, 33]"
  using secrets_kept [of "[72, 101, 108, 108, 111, 33]"] by simp

section \<open>Codes\<close>

lemma length_digits_le: "n < 10 ^ d \<Longrightarrow> 0 < d \<Longrightarrow> length (digits 10 n) \<le> d"
  using digits_length [of 10 n "d - 1"] by simp

lemma digits_val_zeros: "digits_val b (replicate k 0 @ ds) = digits_val b ds"
proof -
  have "foldl (\<lambda>v d. v * b + d) 0 (replicate k 0) = 0" by (induction k) simp_all
  then show ?thesis by (simp add: digits_val_def)
qed

lemma padded_number:
  assumes "n < 10 ^ d" "0 < d"
  shows "length (padded d (number (int n))) = d" "list_all isDigit (padded d (number (int n)))"
    "digits_val 10 (map (\<lambda>c. c - 48) (padded d (number (int n)))) = n"
proof -
  have p: "padded d (number (int n)) = map (\<lambda>d. 48 + d) (replicate (d - length (digits 10 n)) 0 @ digits 10 n)"
    by (simp add: padded_def number_nonneg)
  show "length (padded d (number (int n))) = d" unfolding p using length_digits_le [OF assms] by simp
  show "list_all isDigit (padded d (number (int n)))" unfolding p map_append list_all_append
    using digits_chars by (simp add: list_all_iff isDigit_def)
  show "digits_val 10 (map (\<lambda>c. c - 48) (padded d (number (int n)))) = n"
    unfolding p digits_back digits_val_zeros digits_val_digits ..
qed

text \<open>Dynamic truncation: four bytes at the offset, without the top bit.\<close>

lemma bytes4:
  fixes a b c d :: nat
  assumes "a < 256" "b < 256" "c < 256" "d < 256"
  shows "unat (push_bit 24 (of_nat a AND 0x7F) OR push_bit 16 (of_nat b) OR push_bit 8 (of_nat c) OR (of_nat d :: 32 word)) =
    (a mod 128) * 2 ^ 24 + b * 2 ^ 16 + c * 2 ^ 8 + d"
proof -
  let ?a = "a mod 128"
  have m7: "(0x7F :: 32 word) = mask 7" by (simp add: mask_eq_exp_minus_1)
  have and_a: "of_nat a AND (0x7F :: 32 word) = of_nat ?a"
    unfolding m7 take_bit_eq_mask [symmetric] of_nat_take_bit [symmetric] by (simp add: take_bit_eq_mod)
  have h1: "holds (of_nat ?a) ?a" using assms by (simp add: holds_def unat_of_nat)
  have h2: "holds (push_bit 8 (of_nat ?a) OR of_nat b) (?a * 2 ^ 8 + b)" using unat_push_or [OF h1, of b 8] assms by simp
  have h3: "holds (push_bit 8 (push_bit 8 (of_nat ?a) OR of_nat b) OR of_nat c) ((?a * 2 ^ 8 + b) * 2 ^ 8 + c)"
    using unat_push_or [OF h2, of c 8] assms by simp
  have h4: "holds (push_bit 8 (push_bit 8 (push_bit 8 (of_nat ?a) OR of_nat b) OR of_nat c) OR of_nat d)
      (((?a * 2 ^ 8 + b) * 2 ^ 8 + c) * 2 ^ 8 + d)"
    using unat_push_or [OF h3, of d 8] assms by simp
  have e: "push_bit 24 (of_nat a AND 0x7F) OR push_bit 16 (of_nat b) OR push_bit 8 (of_nat c) OR (of_nat d :: 32 word) =
      push_bit 8 (push_bit 8 (push_bit 8 (of_nat ?a) OR of_nat b) OR of_nat c) OR of_nat d"
    by (simp add: and_a push_bit_or or.assoc)
  have "?a \<le> 127" "b \<le> 255" "c \<le> 255" "d \<le> 255" using assms by simp_all
  then have "((?a * 2 ^ 8 + b) * 2 ^ 8 + c) * 2 ^ 8 + d < 2 ^ 32" by simp
  with h4 show ?thesis unfolding e by (simp add: holds_def)
qed

lemma take4:
  assumes "k + 3 < length m"
  shows "take 4 (drop k m) = [m ! k, m ! (k + 1), m ! (k + 2), m ! (k + 3)]"
proof (rule nth_equalityI)
  fix i assume "i < length (take 4 (drop k m))"
  then have "i = 0 \<or> i = 1 \<or> i = 2 \<or> i = 3" by auto
  with assms show "take 4 (drop k m) ! i = [m ! k, m ! (k + 1), m ! (k + 2), m ! (k + 3)] ! i" by auto
qed (use assms in simp)

lemma truncated_value:
  assumes "bytes_ok m" "20 \<le> length m"
  shows "unat (truncated m) = fromBigEndian (take 4 (drop (last m mod 16) m)) mod 2 ^ 31"
proof -
  let ?o = "last m mod 16"
  have "?o < 16" by simp
  with assms(2) have len: "?o + 3 < length m" by linarith
  define a b c d where "a = m ! ?o" "b = m ! (?o + 1)" "c = m ! (?o + 2)" "d = m ! (?o + 3)"
  have lt: "a < 256" "b < 256" "c < 256" "d < 256"
    using assms(1) len nth_mem by (auto simp: a_b_c_d_def)
  have "fromBigEndian (take 4 (drop ?o m)) = a * 2 ^ 24 + b * 2 ^ 16 + c * 2 ^ 8 + d"
    unfolding take4 [OF len] a_b_c_d_def by (simp add: fromBigEndian_def digits_val_def)
  also have "\<dots> = (a div 128) * 2 ^ 31 + ((a mod 128) * 2 ^ 24 + b * 2 ^ 16 + c * 2 ^ 8 + d)"
  proof -
    have "a * 16777216 = (a div 128 * 128 + a mod 128) * 16777216" by simp
    then have "a * 16777216 = a div 128 * 2147483648 + a mod 128 * 16777216" by (simp only: add_mult_distrib)
    then show ?thesis by simp
  qed
  also have "\<dots> mod 2 ^ 31 = (a mod 128) * 2 ^ 24 + b * 2 ^ 16 + c * 2 ^ 8 + d"
  proof -
    have "a mod 128 \<le> 127" "b \<le> 255" "c \<le> 255" "d \<le> 255" using lt by simp_all
    then have "(a mod 128) * 2 ^ 24 + b * 2 ^ 16 + c * 2 ^ 8 + d < 2 ^ 31" by simp
    then show ?thesis by simp
  qed
  also have "\<dots> = unat (truncated m)" using bytes4 [OF lt] by (simp add: truncated_def Let_def a_b_c_d_def)
  finally show ?thesis ..
qed

text \<open>
  C31. A code is the one of RFC 4226: exactly as many decimal digits as asked for, whose value is the dynamic
  truncation of the HMAC of the counter (the 31 bits at the offset its last four bits give) modulo the power of ten.
\<close>

theorem hotp_rfc4226:
  assumes "key \<noteq> []" "MIN_DIGITS \<le> n" "n \<le> MAX_DIGITS"
    and "m = mac q alg (toBigEndian 8 c) key" "20 \<le> length m" "bytes_ok m"
  shows "let code = GenerateHOTP q key c alg n in
    length code = nat n \<and> list_all isDigit code \<and>
    digits_val 10 (map (\<lambda>ch. ch - 48) code) = fromBigEndian (take 4 (drop (last m mod 16) m)) mod 2 ^ 31 mod 10 ^ nat n"
proof -
  let ?v = "unat (truncated m) mod 10 ^ nat n"
  have pos: "0 < nat n" using assms(2) by (simp add: MIN_DIGITS_def)
  have g: "GenerateHOTP q key c alg n = padded (nat n) (number (int ?v))"
    using assms(1-3,5) unfolding GenerateHOTP_def Let_def assms(4) [symmetric] by (simp only: not_less) simp
  have "?v < 10 ^ nat n" by simp
  from padded_number [OF this pos] show ?thesis
    unfolding Let_def g truncated_value [OF assms(6,5), symmetric] by blast
qed

text \<open>
  An instance of the parameters for the witnesses. Base64 is played by two letters for each byte, the text of a
  URL by its parts in order, each behind its length, between two letters.
\<close>

definition demo_letters :: "bytes \<Rightarrow> bytes" where
  "demo_letters p = concat (map (\<lambda>b. [65 + b div 16, 65 + b mod 16]) p)"

fun demo_bytes :: "bytes \<Rightarrow> bytes" where
  "demo_bytes (a # b # r) = ((a - 65) * 16 + (b - 65)) # demo_bytes r"
| "demo_bytes _ = []"

definition put_text :: "qstring \<Rightarrow> qstring" where
  "put_text s = length s # s"

fun get_text :: "qstring \<Rightarrow> qstring \<times> qstring" where
  "get_text [] = ([], [])"
| "get_text (n # s) = (take n s, drop n s)"

fun get_items :: "nat \<Rightarrow> qstring \<Rightarrow> (qstring \<times> qstring) list" where
  "get_items 0 s = []"
| "get_items (Suc n) s =
     (let (k, s) = get_text s; (v, s) = get_text s in (k, v) # get_items n s)"

definition demo_print :: "url \<Rightarrow> qstring" where
  "demo_print u =
     65 # (if u_valid u then 1 else 0) # put_text (u_scheme u) @ put_text (u_host u) @ put_text (u_path u) @
       length (u_items u) # concat (map (\<lambda>(k, v). put_text k @ put_text v) (u_items u)) @ [65]"

definition demo_parse :: "qstring \<Rightarrow> url" where
  "demo_parse s =
     (let ok = (hd (tl s) = 1); (scheme, s) = get_text (drop 2 s); (host, s) = get_text s; (path, s) = get_text s
      in \<lparr>u_valid = ok, u_scheme = scheme, u_host = host, u_path = path, u_items = get_items (hd s) (tl s)\<rparr>)"

lemma get_put_text [simp]: "get_text (put_text s @ r) = (s, r)"
  by (simp add: put_text_def)

lemma get_items_put: "get_items (length xs) (concat (map (\<lambda>(k, v). put_text k @ put_text v) xs) @ r) = xs"
  by (induction xs) auto

lemma demo_parse_print: "demo_parse (trimmed (demo_print u)) = u"
proof -
  have "trimmed (demo_print u) = demo_print u" by (rule trimmed_id) (simp add: demo_print_def isSpace_def)
  moreover have "demo_parse (demo_print u) = u"
    by (cases u) (simp add: demo_parse_def demo_print_def get_items_put)
  ultimately show ?thesis by simp
qed

lemma demo_bytes_letters: "bytes_ok p \<Longrightarrow> demo_bytes (demo_letters p) = p"
  by (induction p) (simp_all add: demo_letters_def)

definition demo_qt :: qt where
  "demo_qt = \<lparr>toUpper = map (\<lambda>c. if 97 \<le> c \<and> c \<le> 122 then c - 32 else c), toLower = asciiLower,
     toUtf8 = map (\<lambda>c. c mod 256), fromUtf8 = (\<lambda>b. b), toBase64 = demo_letters, fromBase64 = demo_bytes,
     parse_url = demo_parse, print_url = demo_print, parse_json = (\<lambda>b. None), print_json = (\<lambda>j. []),
     json_text = (\<lambda>j. []), mac = (\<lambda>a m k. m @ replicate 24 1)\<rparr>"

lemma demo_mac [simp]: "mac demo_qt a m k = m @ replicate 24 1"
  by (simp add: demo_qt_def)

theorem hotp_rfc4226_witness: "length (GenerateHOTP demo_qt [1] 5 SHA1 6) = 6"
proof -
  have "bytes_ok (mac demo_qt SHA1 (toBigEndian 8 5) [1])"
    using digits_of_less [of 256 _ 8 5] by (auto simp: toBigEndian_def)
  from hotp_rfc4226 [OF _ _ _ refl _ this, of 6] show ?thesis
    by (simp add: MIN_DIGITS_def MAX_DIGITS_def Let_def)
qed

text \<open>
  A time-based code holds for the rest of its period and no longer: between one and \<open>period\<close> seconds remain; during
  them the code is the same, and right after them the moving factor is the next one.
\<close>

theorem totp_window:
  assumes "e_type e = TOTP" "Validate e = []" "0 \<le> t"
  shows "let r = SecondsRemaining clock e t in 1 \<le> r \<and> r \<le> period e \<and>
    (\<forall>k. 0 \<le> k \<and> k < r \<longrightarrow> GenerateCode q clock e (t + k) = GenerateCode q clock e t) \<and>
    (t + r) div period e = t div period e + 1"
proof -
  let ?p = "period e" and ?r = "period e - t mod period e"
  have p: "1 \<le> ?p" using assms(1,2) by (auto simp: Validate_def MIN_PERIOD_def split: if_splits option.splits)
  then have r: "SecondsRemaining clock e t = ?r"
    using assms(1,3) by (simp add: SecondsRemaining_def MIN_PERIOD_def)
  have m: "0 \<le> t mod ?p" "t mod ?p < ?p" using p by simp_all
  have t: "t = t div ?p * ?p + t mod ?p" by simp
  have "(t + k) div ?p = t div ?p" if "0 \<le> k" "k < ?r" for k
  proof -
    have "t + k = t div ?p * ?p + (t mod ?p + k)" by simp
    then have "(t + k) div ?p = (t div ?p * ?p + (t mod ?p + k)) div ?p" by (rule arg_cong)
    also have "\<dots> = t div ?p + (t mod ?p + k) div ?p" by (rule div_mult_self3) (use p in simp)
    also have "(t mod ?p + k) div ?p = 0" using that m by (simp add: div_pos_pos_trivial)
    finally show ?thesis by simp
  qed
  then have "GenerateCode q clock e (t + k) = GenerateCode q clock e t" if "0 \<le> k" "k < ?r" for k
    using that assms(1,3) by (simp add: GenerateCode_def Let_def)
  moreover have "(t + ?r) div ?p = t div ?p + 1"
  proof -
    have "t + ?r = (t div ?p + 1) * ?p" using t by (simp add: algebra_simps)
    then show ?thesis using p by simp
  qed
  ultimately show ?thesis using m unfolding r Let_def by auto
qed

lemma demo_secret: "Base32Decode (lit ''MFRGG'') = Some [97, 98, 99]"
  by (simp add: Base32Decode_def base32_put_def toLatin1_def base32_skips_def base32_value_def Let_def)

theorem totp_window_witness:
  "SecondsRemaining 0 (fresh_entry\<lparr>secret := lit ''MFRGG''\<rparr>) 45 \<le> 30"
proof -
  have "Validate (fresh_entry\<lparr>secret := lit ''MFRGG''\<rparr>) = []"
    by (simp add: Validate_def fresh_entry_def demo_secret trimmed_def isSpace_def DEFAULT_DIGITS_def DEFAULT_PERIOD_def
        MIN_DIGITS_def MAX_DIGITS_def MIN_PERIOD_def MAX_PERIOD_def del: lit_simps)
      (simp add: trimmed_def isSpace_def)
  from totp_window [OF _ this, of 45 0] show ?thesis by (simp add: fresh_entry_def DEFAULT_PERIOD_def Let_def)
qed

end
