(* ===== verification/OtpMigration.thy ===== *)
theory OtpMigration
  imports OtpProps
begin

text \<open>
  The migration link: what is written is read back, except that the format has six or eight digits and a period
  of thirty seconds only.
\<close>

section \<open>Running over the fields\<close>













lemma pbWriteBytes_field: "pbWriteBytes 1 bs = pb_write (1, 2, 0, bs)"
  by simp


section \<open>The whole link\<close>

























end
