(* ===== verification/OtpForms.thy ===== *)
theory OtpForms
  imports OtpMigration
begin

text \<open>Export to JSON and to otpauth links, and what comes back.\<close>

section \<open>Valid entries\<close>

lemma Base32Encode_not_Nil: "bytes_ok key \<Longrightarrow> key \<noteq> [] \<Longrightarrow> Base32Encode key \<noteq> []"
  using Base32Decode_Base32Encode [of key] by (auto simp: Base32Decode_def)

lemma Validate_facts:
  assumes "Validate e = []"
  shows "trimmed (secret e) \<noteq> []" "NormalizeSecret (secret e) \<noteq> []" "MIN_DIGITS \<le> e_digits e" "e_digits e \<le> MAX_DIGITS"
    "e_type e = TOTP \<Longrightarrow> MIN_PERIOD \<le> period e \<and> period e \<le> MAX_PERIOD"
proof -
  obtain key where k: "Base32Decode (secret e) = Some key" "key \<noteq> []"
    using assms by (auto simp: Validate_def split: if_splits option.splits)
  then show "NormalizeSecret (secret e) \<noteq> []"
    using Base32Encode_not_Nil [OF Base32Decode_bytes [OF k(1)] k(2)] NormalizeSecret_decode(1) [OF k] by simp
  show "trimmed (secret e) \<noteq> []" "MIN_DIGITS \<le> e_digits e" "e_digits e \<le> MAX_DIGITS"
    "e_type e = TOTP \<Longrightarrow> MIN_PERIOD \<le> period e \<and> period e \<le> MAX_PERIOD"
    using assms k by (auto simp: Validate_def split: if_splits)
qed

text \<open>An entry with its secret in normal form and without the parameter of the other type.\<close>

definition exported :: "Entry \<Rightarrow> Entry" where
  "exported e = e\<lparr>secret := NormalizeSecret (secret e), period := (if e_type e = TOTP then period e else DEFAULT_PERIOD),
     counter := (if e_type e = HOTP then counter e else 0)\<rparr>"

section \<open>JSON\<close>

lemma toDouble_small: "\<bar>n\<bar> < 2 ^ 53 \<Longrightarrow> toDouble n = n"
proof -
  assume "\<bar>n\<bar> < 2 ^ 53"
  then have "excess_bits (nat \<bar>n\<bar>) = 0" by (subst excess_bits.simps) (simp add: nat_less_iff)
  then show ?thesis by (simp add: toDouble_def sgn_if)
qed

lemma otpJsonInteger_small: "\<bar>n\<bar> < 2 ^ 53 \<Longrightarrow> otpJsonInteger (JNumber n) = Some n"
  by (simp add: otpJsonInteger_def toDouble_small is_int64_def abs_less_iff)

lemma entry_json_roundtrip:
  assumes "case_laws q" "Validate e = []" "0 \<le> counter e" "counter e < 2 ^ 53"
  shows "entryFromJsonObject q (entryToJsonObject e) = Inr (exported e)"
proof -
  note v = Validate_facts [OF assms(2)]
  have d: "otpJsonInteger (JNumber (e_digits e)) = Some (e_digits e)"
    using v(3,4) by (intro otpJsonInteger_small) (simp add: MIN_DIGITS_def MAX_DIGITS_def)
  have p: "otpJsonInteger (JNumber (period e)) = Some (period e)" if "e_type e = TOTP"
    using v(5) [OF that] by (intro otpJsonInteger_small) (simp add: MIN_PERIOD_def MAX_PERIOD_def)
  have c: "otpJsonInteger (JNumber (counter e)) = Some (counter e)" using assms(3,4) by (intro otpJsonInteger_small) simp
  note rt = Algorithm_roundtrip [OF assms(1)] Type_roundtrip [OF assms(1)]
  show ?thesis
  proof (cases "e_type e")
    case TOTP
    then show ?thesis using v d p [OF TOTP]
      by (cases e) (auto simp: entryFromJsonObject_def entryToJsonObject_def rt Let_def bind_sum_def json_digits_def json_period_def
          json_counter_def fresh_entry_def exported_def DEFAULT_PERIOD_def)
  next
    case HOTP
    then show ?thesis using v d c assms(3)
      by (cases e) (auto simp: entryFromJsonObject_def entryToJsonObject_def rt Let_def bind_sum_def json_digits_def json_period_def
          json_counter_def fresh_entry_def exported_def DEFAULT_PERIOD_def)
  qed
qed

lemma json_items_exported:
  assumes "case_laws q" "\<forall>e \<in> set es. Validate e = [] \<and> 0 \<le> counter e \<and> counter e < 2 ^ 53"
  shows "json_items q (map (\<lambda>e. JObject (entryToJsonObject e)) es) = (map exported es, [])"
  using assms(2) by (induction es) (simp_all add: entry_json_roundtrip [OF assms(1)])

text \<open>
  Valid entries exported to JSON are read back in order and without a complaint, their secrets in normal form and
  without the parameter of the other type, as long as counters stay below \<open>2 ^ 53\<close>, where a JSON number is exact.
\<close>

theorem json_roundtrip:
  assumes "case_laws q" "es \<noteq> []" "\<forall>e \<in> set es. Validate e = [] \<and> 0 \<le> counter e \<and> counter e < 2 ^ 53"
    and "parse_json q (print_json q (export_document es)) = Some (export_document es)"
  shows "otp_ParseFromJson q (ExportToJson q es) = Inr (map exported es, [])"
  using json_items_exported [OF assms(1,3)] assms(2,4)
  by (simp add: otp_ParseFromJson_def ExportToJson_def export_document_def Let_def)

definition demo_otp :: Entry where
  "demo_otp = fresh_entry\<lparr>e_name := [65], issuer := [66], secret := lit ''MFRGG''\<rparr>"

lemma demo_valid: "Validate demo_otp = []"
proof -
  have "trimmed (lit ''MFRGG'') \<noteq> []" by (simp add: trimmed_def isSpace_def)
  then show ?thesis
    by (simp add: Validate_def demo_otp_def fresh_entry_def demo_secret DEFAULT_DIGITS_def DEFAULT_PERIOD_def
        MIN_DIGITS_def MAX_DIGITS_def MIN_PERIOD_def MAX_PERIOD_def del: lit_simps)
qed

lemma demo_case: "case_laws (demo_qt\<lparr>parse_json := f, parse_url := g\<rparr>)"
  by (simp add: case_laws_def demo_qt_def)

theorem json_roundtrip_witness:
  "let q = demo_qt\<lparr>parse_json := \<lambda>b. Some (export_document [demo_otp]), parse_url := \<lambda>s. link_url demo_otp\<rparr> in
     otp_ParseFromJson q (ExportToJson q [demo_otp]) = Inr ([exported demo_otp], [])"
proof -
  have "\<forall>e \<in> set [demo_otp]. Validate e = [] \<and> 0 \<le> counter e \<and> counter e < 2 ^ 53"
    using demo_valid by (simp add: demo_otp_def fresh_entry_def)
  from json_roundtrip [OF demo_case _ this] show ?thesis by (simp add: Let_def)
qed

section \<open>Links\<close>












end
