(* ===== verification/ConnectionManager.thy ===== *)
theory ConnectionManager
  imports CoreSupervisor RunningProfiles
begin

text \<open>
  The connection manager of \<^verbatim>\<open>src/engine/connection\<close>: it starts, stops and switches the running
  profile, applies the Tun, system-proxy and route modes and reacts to the kill switch. This theory has
  the state and the operations of the main thread (and \<^verbatim>\<open>stop\<close>, which any thread calls);
  \<open>ConnectionRun\<close> has the worker threads, the closures they post and the events. The supervisor, the
  kill switch inside it and the running set are the components of \<open>CoreSupervisor\<close>, \<open>KillSwitch\<close> and
  \<open>RunningProfiles\<close>, called as the code calls them. The repositories, the config builder, the dialogs
  (\<^verbatim>\<open>EnginePolicy\<close>), the host probes and the clock answer through a \<open>world\<close> argument, read anew at every
  event. The two mutexes are the workers that hold them: \<open>mu_starting\<close> from \<^verbatim>\<open>tryLock\<close> in \<^verbatim>\<open>start\<close> to the
  end of the start worker, \<open>mu_stopping\<close> from \<^verbatim>\<open>tryLock\<close> in \<^verbatim>\<open>stop\<close> to the teardown on the main thread.
  Not modelled: the log, the progress prompts (\<^verbatim>\<open>SlowOperation\<close>), the statistics service, the VPN
  authentication and the notices.
\<close>

section \<open>Types\<close>

datatype ConnectionState = Idle | Connecting | Running | Stopping

datatype StartOutcome =
    Started
  | Exiting
  | NotFound
  | GroupUnavailable
  | KillSwitchInactive
  | Superseded
  | CoreUnavailable
  | BuildFailed
  | Busy
  | ExtraCoreBlocked
  | GeoAssetsMissing
  | StrictRouteUnavailable
  | TunFailed
  | StartFailed

datatype RestartReason = RestartSettings | RestartRouting | RestartProfile | RestartGroup

datatype RunMarker = MarkStarted | MarkSwitched | MarkStopped

record StartRequest =
  profileId :: int
  interactive :: bool
  serial :: nat

definition no_request :: StartRequest where
  "no_request = \<lparr>profileId = -1, interactive = True, serial = 0\<rparr>"

record StopOptions =
  so_crash :: bool
  so_manual :: bool
  so_interactive :: bool
  so_skipTests :: bool

record ModeChange =
  mc_save :: bool
  mc_interactive :: bool
  mc_restart :: bool
  mc_restartSerial :: nat

definition default_change :: ModeChange where
  "default_change = \<lparr>mc_save = True, mc_interactive = True, mc_restart = True, mc_restartSerial = 0\<rparr>"

record RuntimeOptions =
  headless :: bool
  systemProxy :: bool
  tunRequired :: bool
  blockingPrivilegeCheck :: bool
  geoAutoDownload :: bool
  exitCountryLookup :: bool

text \<open>
  What \<^verbatim>\<open>BuildSingBoxConfig\<close> answers, as far as the manager reads it; \<open>b_checks\<close> are the answers of the
  core's \<^verbatim>\<open>CheckConfig\<close> on the Xray configs of the result, with the flag that the call succeeded.
\<close>

record build =
  b_error :: string
  b_checks :: "(bool \<times> string) list"
  b_tun :: bool
  b_extraCore :: string
  b_proxyPort :: int
  b_proxyAuth :: string
  b_involved :: "int list"
  b_routeId :: int
  b_exitIsEndpoint :: bool

text \<open>The core's capability report (\<^verbatim>\<open>API::PrivilegeInfo\<close>).\<close>

record capabilities =
  tunDevice :: "bool option"
  netAdmin :: "bool option"
  privileged :: bool
  detail :: string

text \<open>
  What the manager reads from outside at an event: the repositories (\<open>w_gid\<close> is the group of a stored
  profile, \<open>w_group\<close> the archived flag and the route of a stored group), the builder, whether a profile is
  an auto selector whose plan needs ranking, the clock, the owner of a foreign Tun (\<^verbatim>\<open>HostTun::Conflict\<close>,
  \<^verbatim>\<open>HostPresence::OtherHeadless\<close>), the known privileges, the answers of dialogs, and the geo files.
\<close>

record world =
  w_gid :: "int \<Rightarrow> int option"
  w_group :: "int \<Rightarrow> (bool \<times> int) option"
  w_hasRoute :: "int \<Rightarrow> bool"
  w_build :: "int \<Rightarrow> build"
  w_needsRanking :: "int \<Rightarrow> bool"
  w_now :: int
  w_conflict :: "string \<Rightarrow> int \<Rightarrow> string"
  w_otherHeadless :: "int option"
  w_caps :: "capabilities option"
  w_knownAdmin :: "bool option"
  w_isAdmin :: bool
  w_grant :: bool
  w_retryOffer :: bool
  w_resetOffer :: bool
  w_geoip :: bool
  w_geosite :: bool
  w_unattendedFetch :: bool
  w_geoFetchStarts :: bool

record mode_settings =
  spmode_vpn :: bool
  spmode_system_proxy :: bool
  remember_id :: int
  remember_enable :: bool
  remember_tun :: bool
  remember_system_proxy :: bool
  flag_restart_tun_on :: bool
  current_route_id :: int
  disable_privilege_req :: bool
  disable_mixed_inbound :: bool
  reset_proxy_on_disable_sp :: bool
  core_dns_in_port :: int
  internal_proxy_port :: int
  internal_proxy_auth :: string
  exit_country_lookup :: bool

text \<open>The dialogs and calls of \<^verbatim>\<open>EnginePolicy\<close> that only show something.\<close>

datatype policy_call =
    KillSwitchProblem
  | KillSwitchProblemResolved
  | ShowStartFailed StartRequest StartOutcome string
  | ShowStopFailed string
  | ExtraCoreNotPermitted
  | ShowStrictRouteUnavailable string
  | SystemProxyNeedsMixedInbound
  | GeoPrompt string
  | GeoDownloadFinished string

text \<open>What leaves the manager: its signals, the dialogs, and the calls to the core and the host.\<close>

datatype conn_out =
    StartFinished nat int StartOutcome string
  | StartDispatching nat int
  | StopFinished int
  | ConnectionStateChanged ConnectionState
  | StatusChanged
  | BusyChanged
  | ProfileRowsChanged "int list"
  | Marker RunMarker
  | RestartReasonsChanged
  | Policy policy_call
  | RpcStart int
  | RpcStop
  | RpcStopTests
  | TransitionGuard bool
  | ProxySet bool
  | LookupExit int

text \<open>
  Closures posted to the main thread. A \<open>Teardown\<close> is posted with \<^verbatim>\<open>wait\<close>: a timer on the main thread
  runs it, so closures posted after it may overtake it, while it never overtakes one posted before.
\<close>

datatype ui_task =
    Finish StartRequest StartOutcome string
  | RunStarted StartRequest bool
  | StartDone bool bool
  | BeginDisconnect
  | Teardown int bool
  | CancelResumeTask
  | ExtraCoreProblem
  | RetryTunAdapter int string
  | OfferCoreReset string
  | FetchGeo "(int \<times> nat) option"
  | Show policy_call

datatype start_phase = Entering | WaitingForStop | Loading | Leaving

record start_worker =
  sw_request :: StartRequest
  sw_build :: build
  sw_phase :: start_phase
  sw_guarded :: bool
  sw_switching :: bool

record stop_worker =
  tw_id :: int
  tw_options :: StopOptions
  tw_ran :: bool

text \<open>A ranking that a start waits for, or that an exhausted pool asked for (\<open>rk_exhausted\<close>).\<close>

record ranking =
  rk_request :: StartRequest
  rk_exhausted :: bool
  rk_startedEarly :: bool

record connection =
  sup :: supervisor
  options :: RuntimeOptions
  cfg :: mode_settings
  running_set :: running
  m_running :: "int option"
  m_runningTun :: bool
  m_lastProfileId :: int
  m_profileConnecting :: bool
  m_profileDisconnecting :: bool
  m_lastConnectionState :: ConnectionState
  m_startSerial :: nat
  m_killSwitchDeferredStart :: StartRequest
  m_coreStartRequest :: StartRequest
  m_guardCoreRestart :: "int option"
  m_killSwitchWasFailed :: bool
  m_killSwitchWasArmed :: bool
  m_restartReasons :: "RestartReason list"
  mu_starting :: "start_worker option"
  mu_stopping :: "stop_worker option"
  m_switchingProfile :: bool
  m_tunRestoreHeld :: bool
  m_tunBlockedCache :: string
  m_tunBlockedKey :: "string \<times> int"
  m_tunBlockedAtMs :: int
  m_bootSerial :: nat
  m_geoRetriedProfile :: int
  m_geoRetryToken :: nat
  rankedFor :: int
  rankingInFlight :: int
  rankings :: "ranking list"
  geoUnattendedBusy :: bool
  geoUnattendedWaiters :: "(int \<times> nat) list"
  ui_queue :: "ui_task list"
  proxy_queue :: "bool list"
  conn_outs :: "conn_out list"

definition kGuardRestartWindowMs :: int where "kGuardRestartWindowMs = 15000"
definition kTunBlockedCacheMs :: int where "kTunBlockedCacheMs = 5000"

section \<open>State and small operations\<close>

definition signal :: "conn_out \<Rightarrow> connection \<Rightarrow> connection" where
  "signal x s = s\<lparr>conn_outs := conn_outs s @ [x]\<rparr>"

definition post :: "ui_task \<Rightarrow> connection \<Rightarrow> connection" where
  "post t s = s\<lparr>ui_queue := ui_queue s @ [t]\<rparr>"

definition set_sup :: "supervisor \<Rightarrow> connection \<Rightarrow> connection" where
  "set_sup u s = s\<lparr>sup := u\<rparr>"

abbreviation kill_sw :: "connection \<Rightarrow> kswitch" where
  "kill_sw s \<equiv> ksw (sup s)"

abbreviation exit_prepared :: "connection \<Rightarrow> bool" where
  "exit_prepared s \<equiv> prepare_exit (ks (kill_sw s))"

definition connectionState :: "connection \<Rightarrow> ConnectionState" where
  "connectionState s =
     (if m_profileConnecting s then Connecting
      else if m_profileDisconnecting s then Stopping
      else if m_running s \<noteq> None then Running else Idle)"

definition setRunning :: "int option \<Rightarrow> bool \<Rightarrow> connection \<Rightarrow> connection" where
  "setRunning profile tun s = s\<lparr>m_running := profile, m_runningTun := profile \<noteq> None \<and> tun\<rparr>"

definition nextStartSerial :: "connection \<Rightarrow> connection \<times> nat" where
  "nextStartSerial s = (s\<lparr>m_startSerial := m_startSerial s + 1\<rparr>, m_startSerial s + 1)"

definition syncState :: "connection \<Rightarrow> connection" where
  "syncState s =
     (let connState = connectionState s
      in if connState \<noteq> m_lastConnectionState s
         then signal (ConnectionStateChanged connState)
                (s\<lparr>m_lastConnectionState := connState, m_tunBlockedAtMs := 0\<rparr>)
         else s)"

text \<open>\<^verbatim>\<open>SettingsRepo::UpdateStartedId\<close>; the started id is the supervisor's copy of the setting.\<close>

definition UpdateStartedId :: "int \<Rightarrow> connection \<Rightarrow> connection" where
  "UpdateStartedId i s = s\<lparr>sup := (sup s)\<lparr>started_id := i\<rparr>, cfg := (cfg s)\<lparr>remember_id := i\<rparr>\<rparr>"

definition resolveLastProfile :: "world \<Rightarrow> connection \<Rightarrow> int" where
  "resolveLastProfile w s =
     (case find (\<lambda>i. 0 \<le> i \<and> w_gid w i \<noteq> None) [started_id (sup s), m_lastProfileId s, remember_id (cfg s)] of
        Some i \<Rightarrow> i
      | None \<Rightarrow> -1)"

definition finish :: "StartRequest \<Rightarrow> StartOutcome \<Rightarrow> string \<Rightarrow> connection \<Rightarrow> connection" where
  "finish r outcome error = signal (StartFinished (serial r) (profileId r) outcome error)"

definition failStart :: "StartRequest \<Rightarrow> StartOutcome \<Rightarrow> string \<Rightarrow> connection \<Rightarrow> connection" where
  "failStart r outcome error s =
     (let s = finish r outcome error s
      in if interactive r then signal (Policy (ShowStartFailed r outcome error)) s else s)"

definition deferStartToCore :: "StartRequest \<Rightarrow> connection \<Rightarrow> connection" where
  "deferStartToCore r s =
     (let s = (if 0 \<le> profileId (m_coreStartRequest s) then finish (m_coreStartRequest s) Superseded [] s else s)
      in s\<lparr>m_coreStartRequest := r\<rparr>)"

definition setBootStart :: "StartRequest \<Rightarrow> connection \<Rightarrow> connection" where
  "setBootStart r s = deferStartToCore r (s\<lparr>m_bootSerial := serial r\<rparr>)"

definition guardRestartPending :: "world \<Rightarrow> connection \<Rightarrow> bool" where
  "guardRestartPending w s =
     (case m_guardCoreRestart s of
        None \<Rightarrow> False
      | Some t \<Rightarrow> \<not> kGuardRestartWindowMs < w_now w - t)"

definition restartCoreForGuard :: "world \<Rightarrow> StartRequest \<Rightarrow> connection \<Rightarrow> connection" where
  "restartCoreForGuard w r s =
     (let (u, haveCore) = setStartWhenUp (profileId r) (sup s); s = set_sup u s
      in if \<not> haveCore then finish r CoreUnavailable [] s
         else
           (let s = deferStartToCore r s
            in if guardRestartPending w s then s
               else (let s = s\<lparr>m_guardCoreRestart := Some (w_now w)\<rparr> in set_sup (restartForGuard (sup s)) s)))"

definition clearRestartNeeded :: "connection \<Rightarrow> connection" where
  "clearRestartNeeded s =
     (if m_restartReasons s = [] then s
      else signal RestartReasonsChanged (s\<lparr>m_restartReasons := []\<rparr>))"

definition noteRestartNeeded :: "RestartReason \<Rightarrow> connection \<Rightarrow> connection" where
  "noteRestartNeeded reason s =
     (if started_id (sup s) < 0 \<or> reason \<in> set (m_restartReasons s) then s
      else signal RestartReasonsChanged (s\<lparr>m_restartReasons := m_restartReasons s @ [reason]\<rparr>))"

definition restartPending :: "connection \<Rightarrow> bool" where
  "restartPending s \<longleftrightarrow> m_restartReasons s \<noteq> []"

text \<open>\<^verbatim>\<open>applySystemProxy\<close> queues the change on its own thread; the thread rechecks the setting.\<close>

definition applySystemProxy :: "bool \<Rightarrow> connection \<Rightarrow> connection" where
  "applySystemProxy enable s = s\<lparr>proxy_queue := proxy_queue s @ [enable]\<rparr>"

definition proxy_step :: "connection \<Rightarrow> connection" where
  "proxy_step s =
     (case proxy_queue s of
        [] \<Rightarrow> s
      | enable # rest \<Rightarrow>
          (let s = s\<lparr>proxy_queue := rest\<rparr>
           in if \<not> enable then signal (ProxySet False) s
              else if spmode_system_proxy (cfg s) then signal (ProxySet True) s else s))"

section \<open>Geo assets\<close>

text \<open>
  The part of \<^verbatim>\<open>src/engine/services/AssetUpdates.cpp\<close> a start runs into: a core error that names a geo
  file, and the unattended download with the retries waiting for it. The error texts are ASCII.
\<close>

definition contains :: "string \<Rightarrow> string \<Rightarrow> bool" where
  "contains s p \<longleftrightarrow> sublist p s"

definition ascii_lower :: "char \<Rightarrow> char" where
  "ascii_lower c = (if 65 \<le> (of_char c :: nat) \<and> (of_char c :: nat) \<le> 90 then char_of (of_char c + 32 :: nat) else c)"

definition containsCI_ascii :: "string \<Rightarrow> string \<Rightarrow> bool" where
  "containsCI_ascii s p \<longleftrightarrow> contains (map ascii_lower s) (map ascii_lower p)"

record GeoError =
  isGeo :: bool
  refGeoip :: bool
  refGeosite :: bool
  missingCategory :: bool

definition ClassifyGeoError :: "world \<Rightarrow> string \<Rightarrow> GeoError" where
  "ClassifyGeoError w coreError =
     (let geoip = contains coreError ''geoip.dat''; geosite = contains coreError ''geosite.dat''
      in if \<not> geoip \<and> \<not> geosite
         then \<lparr>isGeo = False, refGeoip = geoip, refGeosite = geosite, missingCategory = False\<rparr>
         else \<lparr>isGeo = True, refGeoip = geoip, refGeosite = geosite,
               missingCategory = (geoip \<and> w_geoip w \<or> geosite \<and> w_geosite w)\<rparr>)"

text \<open>
  \<open>onUi\<close> says whether the caller is on the main thread, where \<^verbatim>\<open>runOnUiThread\<close> runs a closure at once; the
  unattended fetch is queued even there. The dialog of an attended caller is one \<open>GeoPrompt\<close>.
\<close>

definition HandleXrayGeoError ::
  "world \<Rightarrow> bool \<Rightarrow> string \<Rightarrow> bool \<Rightarrow> (int \<times> nat) option \<Rightarrow> connection \<Rightarrow> connection \<times> bool" where
  "HandleXrayGeoError w onUi coreError prompt onInstalled s =
     (let geo = ClassifyGeoError w coreError
      in if \<not> isGeo geo then (s, False)
         else if \<not> prompt then
           (if \<not> missingCategory geo \<and> w_unattendedFetch w then (post (FetchGeo onInstalled) s, True) else (s, True))
         else if onUi then (signal (Policy (GeoPrompt coreError)) s, True)
         else (post (Show (GeoPrompt coreError)) s, True))"

definition assetGeoFetchUnattended :: "world \<Rightarrow> (int \<times> nat) option \<Rightarrow> connection \<Rightarrow> connection" where
  "assetGeoFetchUnattended w onInstalled s =
     (let waiters = geoUnattendedWaiters s @ (case onInstalled of None \<Rightarrow> [] | Some x \<Rightarrow> [x])
      in if geoUnattendedBusy s then s\<lparr>geoUnattendedWaiters := waiters\<rparr>
         else if \<not> w_geoFetchStarts w then s
         else s\<lparr>geoUnattendedBusy := True, geoUnattendedWaiters := waiters\<rparr>)"

text \<open>The loop over the Xray configs of a start: the first answer about a missing geo file ends it.\<close>

fun geo_check :: "world \<Rightarrow> bool \<Rightarrow> (bool \<times> string) list \<Rightarrow> connection \<Rightarrow> connection \<times> string option" where
  "geo_check w prompt [] s = (s, None)"
| "geo_check w prompt ((rpcOK, err) # checks) s =
     (if \<not> rpcOK then geo_check w prompt checks s
      else
        (let (s, geo) = HandleXrayGeoError w True err prompt None s
         in if geo then (s, Some err) else geo_check w prompt checks s))"

section \<open>Starting\<close>

text \<open>
  \<^verbatim>\<open>AutoSelectorController::rankBeforeStart\<close>: it answers whether the start has to wait, and keeps the
  request of the waiting start.
\<close>

definition rankBeforeStart :: "world \<Rightarrow> StartRequest \<Rightarrow> connection \<Rightarrow> connection \<times> bool" where
  "rankBeforeStart w r s =
     (let justRanked = (rankedFor s = profileId r); s = s\<lparr>rankedFor := -1\<rparr>
      in if \<not> w_needsRanking w (profileId r) \<or> 0 < rankingInFlight s \<or> justRanked then (s, False)
         else (s\<lparr>rankingInFlight := rankingInFlight s + 1,
                 rankings := rankings s @ [\<lparr>rk_request = r, rk_exhausted = False, rk_startedEarly = False\<rparr>]\<rparr>,
               True))"

text \<open>A start with the kill switch arming waits for it to settle; only the latest request survives.\<close>

definition deferToKillSwitch :: "StartRequest \<Rightarrow> connection \<Rightarrow> connection" where
  "deferToKillSwitch r s =
     (let s = (if 0 \<le> profileId (m_killSwitchDeferredStart s)
               then finish (m_killSwitchDeferredStart s) Superseded [] s else s)
      in s\<lparr>m_killSwitchDeferredStart := r\<rparr>)"

definition spawn_start :: "StartRequest \<Rightarrow> build \<Rightarrow> connection \<Rightarrow> connection" where
  "spawn_start r b s =
     (let s = s\<lparr>mu_starting := Some \<lparr>sw_request = r, sw_build = b, sw_phase = Entering, sw_guarded = False,
                                     sw_switching = False\<rparr>,
                m_profileConnecting := True\<rparr>
      in signal BusyChanged (syncState s))"

text \<open>From \<^verbatim>\<open>mu_starting.tryLock()\<close> to the worker.\<close>

definition start_locked :: "StartRequest \<Rightarrow> build \<Rightarrow> connection \<Rightarrow> connection" where
  "start_locked r b s =
     (if mu_starting s \<noteq> None then failStart r Busy ''Another profile is starting...'' s
      else if mu_stopping s \<noteq> None then failStart r Busy ''Another profile is stopping...'' s
      else if awaitingCoreStarted (sup s) then
        (let s = deferStartToCore r s in set_sup (fst (setStartWhenUp (profileId r) (sup s))) s)
      else if \<not> core_running (sup s) then
        (if \<not> canStartCore (sup s) then failStart r CoreUnavailable (lastFailure (sup s)) s
         else
           (let s = deferStartToCore r s in set_sup (fst (restartNotListening (profileId r) (sup s))) s))
      else spawn_start r b s)"

text \<open>From the config build to the locks.\<close>

definition start_built :: "world \<Rightarrow> StartRequest \<Rightarrow> connection \<Rightarrow> connection" where
  "start_built w r s =
     (let b = w_build w (profileId r)
      in if b_error b \<noteq> [] then failStart r BuildFailed (b_error b) s
         else
           (let (s, geo) = (if core_running (sup s) \<and> m_running s \<noteq> None
                            then geo_check w (interactive r) (b_checks b) s else (s, None))
            in case geo of
                 Some err \<Rightarrow> finish r GeoAssetsMissing err s
               | None \<Rightarrow> start_locked r b s))"

definition start :: "world \<Rightarrow> StartRequest \<Rightarrow> connection \<Rightarrow> connection" where
  "start w r s =
     (let s = s\<lparr>m_geoRetryToken := m_geoRetryToken s + 1\<rparr>
      in if exit_prepared s then finish r Exiting [] s
         else
           case (if 0 \<le> profileId r then w_gid w (profileId r) else None) of
             None \<Rightarrow> finish r NotFound [] s
           | Some gid \<Rightarrow>
               (let s = signal (StartDispatching (serial r) (profileId r)) (s\<lparr>m_lastProfileId := profileId r\<rparr>)
                in if (case w_group w gid of None \<Rightarrow> True | Some (archive, _) \<Rightarrow> archive)
                   then finish r GroupUnavailable [] s
                   else if k_state (kill_sw s) = Arming then deferToKillSwitch r s
                   else if \<not> allowsStart (kill_sw s) then
                     (let s = finish r KillSwitchInactive (failureText (kill_sw s)) s
                      in if interactive r then signal (Policy KillSwitchProblem) s else s)
                   else if guardRestartPending w s \<or>
                           k_state (kill_sw s) = Armed \<and> runningWithoutGuardIdentity (sup s)
                   then restartCoreForGuard w r s
                   else
                     (let (s, waits) = rankBeforeStart w r s
                      in if waits then s else start_built w r s)))"

definition restartStartedProfile :: "world \<Rightarrow> bool \<Rightarrow> nat \<Rightarrow> connection \<Rightarrow> connection \<times> bool" where
  "restartStartedProfile w attended restartSerial s =
     (let startedId = started_id (sup s)
      in if startedId < 0 then (s, False)
         else (start w \<lparr>profileId = startedId, interactive = attended, serial = restartSerial\<rparr> s, True))"

definition applyPendingRestart :: "world \<Rightarrow> connection \<Rightarrow> connection" where
  "applyPendingRestart w s =
     (let startedId = started_id (sup s); s = clearRestartNeeded s
      in if 0 \<le> startedId then start w (no_request\<lparr>profileId := startedId\<rparr>) s else s)"

text \<open>\<^verbatim>\<open>AutoSelectorController::startRanked\<close> around \<^verbatim>\<open>start\<close>.\<close>

definition startRanked :: "world \<Rightarrow> StartRequest \<Rightarrow> connection \<Rightarrow> connection" where
  "startRanked w r s = (start w r (s\<lparr>rankedFor := profileId r\<rparr>))\<lparr>rankedFor := -1\<rparr>"

definition retryAfterGeoFetch :: "world \<Rightarrow> int \<times> nat \<Rightarrow> connection \<Rightarrow> connection" where
  "retryAfterGeoFetch w x s =
     (let (i, token) = x
      in if token \<noteq> m_geoRetryToken s then s
         else
           (let retried = (m_geoRetriedProfile s = i); s = s\<lparr>m_geoRetriedProfile := i\<rparr>
            in if retried then s
               else if exit_prepared s \<or> connectionState s \<noteq> Idle \<or> m_lastProfileId s \<noteq> i then s
               else start w \<lparr>profileId = i, interactive = False, serial = 0\<rparr> s))"

section \<open>Stopping\<close>

definition begin_disconnect :: "connection \<Rightarrow> connection" where
  "begin_disconnect s = signal BusyChanged (syncState (s\<lparr>m_profileDisconnecting := True\<rparr>))"

definition cancel_resume :: "connection \<Rightarrow> connection" where
  "cancel_resume s = set_sup (cancelResume (sup s)) s"

definition stop :: "bool \<Rightarrow> StopOptions \<Rightarrow> connection \<Rightarrow> connection" where
  "stop onUi opts s =
     (let s = (if so_manual opts then s\<lparr>m_geoRetryToken := m_geoRetryToken s + 1\<rparr> else s)
      in case m_running s of
           None \<Rightarrow>
             if so_manual opts \<and> \<not> so_crash opts then (if onUi then cancel_resume s else post CancelResumeTask s)
             else s
         | Some i \<Rightarrow>
             (let s = s\<lparr>cfg := (cfg s)\<lparr>internal_proxy_port := 0, internal_proxy_auth := []\<rparr>\<rparr>
              in if mu_stopping s \<noteq> None then s
                 else
                   (let s = s\<lparr>mu_stopping := Some \<lparr>tw_id = i, tw_options = opts, tw_ran = False\<rparr>\<rparr>
                    in if onUi then begin_disconnect s else post BeginDisconnect s)))"

section \<open>Modes\<close>

text \<open>\<open>capsBlocker canElevate\<close> is \<^verbatim>\<open>connectionModesTunCapsBlocker\<close>.\<close>

definition capsBlocker :: "world \<Rightarrow> bool \<Rightarrow> string" where
  "capsBlocker w canElevate =
     (case w_caps w of
        None \<Rightarrow> []
      | Some caps \<Rightarrow>
          if tunDevice caps \<noteq> Some False \<and> netAdmin caps \<noteq> Some False then []
          else if canElevate \<and> \<not> privileged caps then []
          else if detail caps \<noteq> [] then detail caps
          else if tunDevice caps = Some False then ''the core cannot open /dev/net/tun''
          else ''the core lacks CAP_NET_ADMIN'')"

definition tunPrivileged :: "world \<Rightarrow> connection \<Rightarrow> bool" where
  "tunPrivileged w s =
     (if os_windows (sup s) then w_isAdmin w
      else case w_knownAdmin w of
             Some known \<Rightarrow> known
           | None \<Rightarrow> blockingPrivilegeCheck (options s) \<and> w_isAdmin w)"

definition ensureTunPrivileges :: "world \<Rightarrow> bool \<Rightarrow> connection \<Rightarrow> bool" where
  "ensureTunPrivileges w attended s =
     (if disable_privilege_req (cfg s) then True
      else if capsBlocker w attended \<noteq> [] then False
      else if tunPrivileged w s then True
      else if \<not> attended then False
      else w_grant w)"

definition tunBlockedReason :: "world \<Rightarrow> connection \<Rightarrow> connection \<times> string" where
  "tunBlockedReason w s =
     (if spmode_vpn (cfg s) \<or> m_runningTun s then (s, [])
      else if connectionState s = Connecting \<or> connectionState s = Stopping then (s, [])
      else
        (let now = w_now w; cidr = vpn_tun_ipv4_cidr (ks (kill_sw s));
             dnsProbePort = (if m_running s \<noteq> None then 0 else core_dns_in_port (cfg s));
             key = (cidr, dnsProbePort)
         in if m_tunBlockedAtMs s \<noteq> 0 \<and> key = m_tunBlockedKey s \<and> now - m_tunBlockedAtMs s < kTunBlockedCacheMs
            then (s, m_tunBlockedCache s)
            else
              (let reason = (if headless (options s) then w_conflict w cidr dnsProbePort
                             else case w_otherHeadless w of
                                    None \<Rightarrow> []
                                  | Some pid \<Rightarrow> ''A background Throned (PID '' @ show_int pid @
                                      '') owns Tun on this computer; stop it or use thronectl.'')
               in (s\<lparr>m_tunBlockedCache := reason, m_tunBlockedKey := key, m_tunBlockedAtMs := max now 1\<rparr>, reason))))"

definition tunRestoreHoldReason :: "world \<Rightarrow> connection \<Rightarrow> connection \<times> string" where
  "tunRestoreHoldReason w s =
     (let (s, why) = tunBlockedReason w s
      in if why \<noteq> [] then (s, why)
         else if capsBlocker w False \<noteq> [] then (s, capsBlocker w False)
         else (s, ''the core lacks the privileges Tun needs''))"

text \<open>The answer of each mode change: whether it restarted the profile.\<close>

definition setSystemProxy :: "world \<Rightarrow> bool \<Rightarrow> ModeChange \<Rightarrow> connection \<Rightarrow> connection \<times> bool" where
  "setSystemProxy w enable ch s =
     (if \<not> systemProxy (options s) then (if enable then signal StatusChanged s else s, False)
      else if enable \<and> disable_mixed_inbound (cfg s) then
        (signal StatusChanged
           (if mc_interactive ch then signal (Policy SystemProxyNeedsMixedInbound) s else s), False)
      else
        (let s = s\<lparr>cfg := (cfg s)\<lparr>spmode_system_proxy := enable\<rparr>\<rparr>;
             (s, restarted) =
               (case m_running s of
                  None \<Rightarrow> (s, False)
                | Some i \<Rightarrow>
                    (let s = applySystemProxy enable s
                     in if \<not> enable \<and> reset_proxy_on_disable_sp (cfg s) \<and> mc_restart ch
                        then (start w \<lparr>profileId = i, interactive = mc_interactive ch,
                                       serial = mc_restartSerial ch\<rparr> s, True)
                        else (s, False)));
             s = (if mc_save ch then s\<lparr>cfg := (cfg s)\<lparr>remember_system_proxy := enable\<rparr>\<rparr> else s)
         in (signal StatusChanged s, restarted)))"

text \<open>Disabling Tun first takes back a restore that is held.\<close>

definition release_hold :: "bool \<Rightarrow> ModeChange \<Rightarrow> connection \<Rightarrow> connection" where
  "release_hold enable ch s =
     (if \<not> enable \<and> m_tunRestoreHeld s
      then (let s = s\<lparr>m_tunRestoreHeld := False\<rparr>;
                s = (if mc_save ch then s\<lparr>cfg := (cfg s)\<lparr>remember_tun := False\<rparr>\<rparr> else s)
            in signal StatusChanged s)
      else s)"

text \<open>The checks before an enable: another owner of Tun, then the privileges.\<close>

definition tun_refused :: "world \<Rightarrow> ModeChange \<Rightarrow> connection \<Rightarrow> connection \<times> bool" where
  "tun_refused w ch s =
     (let (s, reason) = tunBlockedReason w s
      in if reason \<noteq> [] then (s, True)
         else (s, (\<not> tunPrivileged w s \<or> capsBlocker w True \<noteq> []) \<and> \<not> ensureTunPrivileges w (mc_interactive ch) s))"

definition setTun :: "world \<Rightarrow> bool \<Rightarrow> ModeChange \<Rightarrow> connection \<Rightarrow> connection \<times> bool" where
  "setTun w enable ch s =
     (let s = release_hold enable ch s
      in if enable = spmode_vpn (cfg s) then (s, False)
         else
           (let (s, refused) = (if enable then tun_refused w ch s else (s, False))
            in if refused then (signal StatusChanged s, False)
               else
                 (let s = s\<lparr>m_tunRestoreHeld := False, m_tunBlockedAtMs := 0\<rparr>;
                      s = (if mc_save ch then s\<lparr>cfg := (cfg s)\<lparr>remember_tun := enable\<rparr>\<rparr> else s);
                      s = signal StatusChanged (s\<lparr>cfg := (cfg s)\<lparr>spmode_vpn := enable\<rparr>\<rparr>)
                  in if \<not> mc_restart ch \<or> started_id (sup s) < 0 then (s, False)
                     else (start w \<lparr>profileId = started_id (sup s), interactive = mc_interactive ch,
                                    serial = mc_restartSerial ch\<rparr> s, True))))"

definition chooseRoute :: "world \<Rightarrow> int \<Rightarrow> bool \<Rightarrow> nat \<Rightarrow> connection \<Rightarrow> connection \<times> bool" where
  "chooseRoute w routeId attended restartSerial s =
     (if current_route_id (cfg s) = routeId then (s, False)
      else
        (let s = s\<lparr>cfg := (cfg s)\<lparr>current_route_id := routeId\<rparr>\<rparr>
         in if started_id (sup s) < 0 then (s, False)
            else if (case m_running s of
                       None \<Rightarrow> False
                     | Some i \<Rightarrow> 0 \<le> RunningRouteId (running_set s) \<and>
                         RouteIdFor (\<lambda>g. map_option snd (w_group w g)) (w_hasRoute w) routeId
                           (case w_gid w i of Some g \<Rightarrow> g | None \<Rightarrow> -1) = RunningRouteId (running_set s))
            then (s, False)
            else (start w \<lparr>profileId = started_id (sup s), interactive = attended, serial = restartSerial\<rparr> s, True)))"

section \<open>The kill switch and the core\<close>

text \<open>
  The handler of the kill switch's \<^verbatim>\<open>stateChanged\<close>. A start that waits for a probing core is carried over
  by the restart for the guard.
\<close>

definition guard_request :: "connection \<Rightarrow> connection \<times> StartRequest" where
  "guard_request s =
     (if awaitingCoreStarted (sup s) \<and> 0 \<le> startWhenUp (sup s)
      then (if 0 \<le> profileId (m_coreStartRequest s)
            then (s\<lparr>m_coreStartRequest := no_request\<rparr>, m_coreStartRequest s)
            else (s, no_request\<lparr>profileId := startWhenUp (sup s)\<rparr>))
      else (s, no_request\<lparr>profileId := started_id (sup s)\<rparr>))"

definition onKillSwitchStateChanged :: "world \<Rightarrow> connection \<Rightarrow> connection" where
  "onKillSwitchStateChanged w s =
     (let failed = (k_state (kill_sw s) = Failed); armed = (k_state (kill_sw s) = Armed);
          enteredFailed = (failed \<and> \<not> m_killSwitchWasFailed s);
          enteredArmed = (armed \<and> \<not> m_killSwitchWasArmed s);
          s = signal StatusChanged (s\<lparr>m_killSwitchWasFailed := failed, m_killSwitchWasArmed := armed\<rparr>);
          s = (if \<not> failed then signal (Policy KillSwitchProblemResolved) s else s);
          s = (if enteredFailed then signal (Policy KillSwitchProblem) s else s)
      in if enteredArmed \<and> \<not> guardRestartPending w s \<and> runningWithoutGuardIdentity (sup s)
         then (let (s, r) = guard_request s in restartCoreForGuard w r s)
         else s)"

text \<open>
  \<^verbatim>\<open>KillSwitch::apply()\<close> as the manager calls it: a state it changes is signalled at once. A settled
  waiter is an event of its own.
\<close>

definition applyKillSwitch :: "world \<Rightarrow> connection \<Rightarrow> connection" where
  "applyKillSwitch w s =
     (let before = k_state (kill_sw s); s = set_sup ((sup s)\<lparr>ksw := apply_ks (kill_sw s)\<rparr>) s
      in if k_state (kill_sw s) \<noteq> before then onKillSwitchStateChanged w s else s)"

definition disableKillSwitch :: "world \<Rightarrow> connection \<Rightarrow> connection" where
  "disableKillSwitch w s =
     applyKillSwitch w
       (set_sup ((sup s)\<lparr>ksw := (kill_sw s)\<lparr>ks := (ks (kill_sw s))\<lparr>kill_switch := False\<rparr>\<rparr>\<rparr>) s)"

text \<open>The kill switch has settled: the request it held back starts.\<close>

definition killSwitchSettled :: "world \<Rightarrow> connection \<Rightarrow> connection" where
  "killSwitchSettled w s =
     (let r = m_killSwitchDeferredStart s; s = s\<lparr>m_killSwitchDeferredStart := no_request\<rparr>
      in if 0 \<le> profileId r then start w r s else s)"

text \<open>The first half of \<^verbatim>\<open>onCoreStarted\<close>: the remembered modes. It answers why the Tun restore is held.\<close>

definition restore_modes :: "world \<Rightarrow> connection \<Rightarrow> connection \<times> string" where
  "restore_modes w s =
     (if headless (options s) then
        (let wantTun = (remember_tun (cfg s) \<or> flag_restart_tun_on (cfg s));
             s = (if wantTun
                  then (let s = fst (setTun w True
                          \<lparr>mc_save = False, mc_interactive = False, mc_restart = False, mc_restartSerial = 0\<rparr> s)
                        in s\<lparr>cfg := (cfg s)\<lparr>flag_restart_tun_on := False\<rparr>\<rparr>)
                  else s);
             held = (tunRequired (options s) \<and> wantTun \<and> \<not> spmode_vpn (cfg s));
             s = s\<lparr>m_tunRestoreHeld := held\<rparr>
         in if held then tunRestoreHoldReason w s else (s, []))
      else
        (let s = (if remember_enable (cfg s) \<and> remember_system_proxy (cfg s)
                  then fst (setSystemProxy w True (default_change\<lparr>mc_save := False\<rparr>) s) else s);
             s = (if remember_enable (cfg s) \<and> remember_tun (cfg s) \<or> flag_restart_tun_on (cfg s)
                  then (let s = fst (setTun w True (default_change\<lparr>mc_save := flag_restart_tun_on (cfg s)\<rparr>) s)
                        in s\<lparr>cfg := (cfg s)\<lparr>flag_restart_tun_on := False\<rparr>\<rparr>)
                  else s)
         in (s, [])))"

text \<open>The second half: the request that waited for this core, refused only when it is the held boot's.\<close>

definition dispatch_core_request :: "world \<Rightarrow> string \<Rightarrow> int \<Rightarrow> connection \<Rightarrow> connection" where
  "dispatch_core_request w tunHoldWhy i s =
     (let r = m_coreStartRequest s; bootSerial = m_bootSerial s;
          s = s\<lparr>m_coreStartRequest := no_request, m_bootSerial := 0\<rparr>;
          s = (if 0 \<le> profileId r \<and> profileId r \<noteq> i then finish r Superseded [] s else s)
      in if 0 \<le> i then
           (let r' = (if profileId r = i then r else no_request\<lparr>profileId := i\<rparr>)
            in if m_tunRestoreHeld s \<and> serial r' \<noteq> 0 \<and> serial r' = bootSerial
               then signal (StartFinished (serial r') i TunFailed (''Tun could not be restored ('' @ tunHoldWhy @
                              ''); the profile was not started without it.'')) s
               else start w r' s)
         else s)"

definition onCoreStarted :: "world \<Rightarrow> int \<Rightarrow> connection \<Rightarrow> connection" where
  "onCoreStarted w i s =
     (let s = s\<lparr>m_guardCoreRestart := None\<rparr>;
          s = (if failedForPrivileges (kill_sw s) then applyKillSwitch w s else s);
          (s, tunHoldWhy) = restore_modes w s
      in signal StatusChanged (dispatch_core_request w tunHoldWhy i s))"

definition onCoreGaveUp :: "string \<Rightarrow> connection \<Rightarrow> connection" where
  "onCoreGaveUp reason s =
     (let s = s\<lparr>m_guardCoreRestart := None\<rparr>; r = m_coreStartRequest s;
          s = s\<lparr>m_coreStartRequest := no_request\<rparr>
      in if 0 \<le> profileId r then finish r CoreUnavailable reason s else s)"

end
