(* ===== verification/ConnectionRun.thy ===== *)
theory ConnectionRun
  imports ConnectionManager
begin

text \<open>
  The threads of the connection manager: the start worker and the stop worker of
  \<^verbatim>\<open>src/engine/connection/ConnectionManager.cpp\<close>, the closures they post to the main thread, and the
  events. A step of a worker ends where the code waits or where another thread can notice the difference:
  the start worker enters (guard, stop of the running profile), waits for that stop, loads, and leaves;
  the stop worker runs up to its teardown, which the main thread executes. Interleavings are the order of
  the events. The supervisor and the settings may change between events in any way, so nothing proved
  here depends on who changes them.
\<close>

section \<open>The start worker\<close>

definition stop_for_switch :: "bool \<Rightarrow> StopOptions" where
  "stop_for_switch attended =
     \<lparr>so_crash = False, so_manual = True, so_interactive = attended, so_skipTests = False\<rparr>"

definition set_phase :: "start_phase \<Rightarrow> start_worker \<Rightarrow> connection \<Rightarrow> connection" where
  "set_phase p k s = s\<lparr>mu_starting := Some (k\<lparr>sw_phase := p\<rparr>)\<rparr>"

text \<open>The worker installs the transition guard when Tun is on, and stops the profile it replaces.\<close>

definition worker_enter :: "connection \<Rightarrow> connection" where
  "worker_enter s =
     (case mu_starting s of
        None \<Rightarrow> s
      | Some k \<Rightarrow>
          if sw_phase k \<noteq> Entering then s
          else
            (let guarded = (spmode_vpn (cfg s) \<and> m_running s \<noteq> None);
                 switching = (m_running s \<noteq> None);
                 k = k\<lparr>sw_guarded := guarded, sw_switching := switching\<rparr>;
                 s = (if guarded then signal (TransitionGuard True) s else s)
             in if switching
                then set_phase WaitingForStop k
                       (stop False (stop_for_switch (interactive (sw_request k))) (s\<lparr>m_switchingProfile := True\<rparr>))
                else set_phase Loading k s))"

text \<open>\<^verbatim>\<open>mu_stopping.lock(); mu_stopping.unlock();\<close>\<close>

definition worker_resume :: "connection \<Rightarrow> connection" where
  "worker_resume s =
     (case mu_starting s of
        None \<Rightarrow> s
      | Some k \<Rightarrow>
          if sw_phase k \<noteq> WaitingForStop \<or> mu_stopping s \<noteq> None then s
          else set_phase Loading k (s\<lparr>m_switchingProfile := False\<rparr>))"

text \<open>
  What the load meets: whether the kill switch permits an extra core, the core's answer to \<^verbatim>\<open>Start\<close>, and
  the result of advancing the HOTP codes.
\<close>

record load_answer =
  la_permitted :: bool
  la_rpcOK :: bool
  la_error :: string
  la_otpError :: string

definition load_error :: "world \<Rightarrow> StartRequest \<Rightarrow> string \<Rightarrow> connection \<Rightarrow> connection" where
  "load_error w r err s =
     (let retry = (if geoAutoDownload (options s) then Some (profileId r, m_geoRetryToken s) else None);
          (s, geo) = HandleXrayGeoError w False err (interactive r) retry s
      in if geo then post (Finish r GeoAssetsMissing err) s
         else if containsCI_ascii err ''Fwpm'' then
           (let s = post (Finish r StrictRouteUnavailable err) s
            in if interactive r then post (Show (ShowStrictRouteUnavailable err)) s else s)
         else if contains err ''configure tun interface'' then
           (let s = post (Finish r TunFailed err) s
            in if \<not> interactive r then s
               else if contains err ''open existing adapter'' then post (RetryTunAdapter (profileId r) err) s
               else post (OfferCoreReset err) s)
         else
           (let s = post (Finish r StartFailed err) s
            in if interactive r then post (Show (ShowStartFailed r StartFailed err)) s else s))"

definition load_done :: "StartRequest \<Rightarrow> build \<Rightarrow> connection \<Rightarrow> connection" where
  "load_done r b s =
     (let s = UpdateStartedId (profileId r) s;
          s = s\<lparr>cfg := (cfg s)\<lparr>internal_proxy_port := b_proxyPort b, internal_proxy_auth := b_proxyAuth b\<rparr>,
                running_set := SetRunningRoute (b_routeId b) (SetRunningProfiles (b_involved b) (running_set s))\<rparr>;
          s = setRunning (Some (profileId r)) (b_tun b) s;
          s = (if spmode_system_proxy (cfg s) then applySystemProxy True s else s)
      in post (RunStarted r (b_exitIsEndpoint b)) s)"

text \<open>\<^verbatim>\<open>profile_start_stage2\<close>.\<close>

definition load :: "world \<Rightarrow> load_answer \<Rightarrow> StartRequest \<Rightarrow> build \<Rightarrow> connection \<Rightarrow> connection \<times> bool" where
  "load w a r b s =
     (if b_extraCore b \<noteq> [] \<and> \<not> la_permitted a then
        (let s = post (Finish r ExtraCoreBlocked []) s
         in (if interactive r then post ExtraCoreProblem s else s, False))
      else
        (let s = signal (RpcStart (profileId r)) s
         in if \<not> la_rpcOK a then (post (Finish r CoreUnavailable []) s, False)
            else if la_error a \<noteq> [] then (load_error w r (la_error a) s, False)
            else if la_otpError a \<noteq> [] then (post (Finish r StartFailed (la_otpError a)) (signal RpcStop s), False)
            else (load_done r b s, True)))"

definition worker_load :: "world \<Rightarrow> load_answer \<Rightarrow> connection \<Rightarrow> connection" where
  "worker_load w a s =
     (case mu_starting s of
        None \<Rightarrow> s
      | Some k \<Rightarrow>
          if sw_phase k \<noteq> Loading then s
          else
            (let (s, ok) = load w a (sw_request k) (sw_build k) s
             in set_phase Leaving k (post (StartDone ok (sw_switching k)) s)))"

text \<open>The scope guards of the worker: the transition guard goes first, then the mutex.\<close>

definition worker_leave :: "connection \<Rightarrow> connection" where
  "worker_leave s =
     (case mu_starting s of
        None \<Rightarrow> s
      | Some k \<Rightarrow>
          if sw_phase k \<noteq> Leaving then s
          else
            (let s = (if sw_guarded k then signal (TransitionGuard False) s else s)
             in s\<lparr>mu_starting := None\<rparr>))"

section \<open>The stop worker\<close>

text \<open>What the stop meets: whether tests run on the running profile, and the core's answer to \<^verbatim>\<open>Stop\<close>.\<close>

record stop_answer =
  sa_testing :: bool
  sa_rpcOK :: bool
  sa_error :: string

text \<open>\<^verbatim>\<open>profile_stop_stage2\<close>; a stop that fails tears the run down all the same.\<close>

definition stop_rpc :: "stop_answer \<Rightarrow> StopOptions \<Rightarrow> connection \<Rightarrow> connection" where
  "stop_rpc a opts s =
     (let s = (if \<not> so_skipTests opts \<and> sa_testing a then signal RpcStopTests s else s);
          s = (if so_crash opts then s else signal RpcStop s)
      in if \<not> so_crash opts \<and> sa_rpcOK a \<and> sa_error a \<noteq> [] then
           (if so_interactive opts then post (Show (ShowStopFailed (sa_error a))) s else s)
         else if \<not> so_crash opts \<and> \<not> sa_rpcOK a then s
         else if spmode_system_proxy (cfg s) then applySystemProxy False s else s)"

definition stop_run :: "stop_answer \<Rightarrow> connection \<Rightarrow> connection" where
  "stop_run a s =
     (case mu_stopping s of
        None \<Rightarrow> s
      | Some t \<Rightarrow>
          if tw_ran t then s
          else
            (let s = stop_rpc a (tw_options t) s;
                 s = (if so_manual (tw_options t) then UpdateStartedId NoProfileId s else s);
                 s = setRunning None False (s\<lparr>running_set := ClearRunningProfiles (running_set s)\<rparr>)
             in post (Teardown (tw_id t) (so_manual (tw_options t)))
                  (s\<lparr>mu_stopping := Some (t\<lparr>tw_ran := True\<rparr>)\<rparr>)))"

section \<open>The closures on the main thread\<close>

definition run_started :: "StartRequest \<Rightarrow> bool \<Rightarrow> connection \<Rightarrow> connection" where
  "run_started r exitIsEndpoint s =
     (let s = clearRestartNeeded (s\<lparr>m_geoRetriedProfile := -1\<rparr>);
          s = signal (ProfileRowsChanged [profileId r]) (signal StatusChanged s);
          s = finish r Started [] s
      in if \<not> exitIsEndpoint \<and> exitCountryLookup (options s) \<and> exit_country_lookup (cfg s)
         then signal (LookupExit (profileId r)) s else s)"

definition start_done :: "bool \<Rightarrow> bool \<Rightarrow> connection \<Rightarrow> connection" where
  "start_done ok switching s =
     (let s = signal BusyChanged (syncState (s\<lparr>m_profileConnecting := False\<rparr>))
      in if ok then signal (Marker (if switching then MarkSwitched else MarkStarted)) s
         else if switching then signal (Marker MarkStopped) s else s)"

definition teardown :: "int \<Rightarrow> connection \<Rightarrow> connection" where
  "teardown i s =
     (let s = (if \<not> m_switchingProfile s then signal (Marker MarkStopped) s else s);
          s = syncState (clearRestartNeeded (s\<lparr>m_profileDisconnecting := False\<rparr>));
          s = signal (ProfileRowsChanged [i]) (signal StatusChanged s)
      in signal (StopFinished i) (s\<lparr>mu_stopping := None\<rparr>))"

fun run_ui :: "world \<Rightarrow> ui_task \<Rightarrow> connection \<Rightarrow> connection" where
  "run_ui w (Finish r outcome err) s = finish r outcome err s"
| "run_ui w (RunStarted r e) s = run_started r e s"
| "run_ui w (StartDone ok switching) s = start_done ok switching s"
| "run_ui w BeginDisconnect s = begin_disconnect s"
| "run_ui w (Teardown i manual) s = teardown i s"
| "run_ui w CancelResumeTask s = cancel_resume s"
| "run_ui w ExtraCoreProblem s =
     signal (Policy (if k_state (kill_sw s) = Failed then KillSwitchProblem else ExtraCoreNotPermitted)) s"
| "run_ui w (RetryTunAdapter i err) s =
     (if \<not> w_retryOffer w then s
      else if exit_prepared s \<or> connectionState s \<noteq> Idle then s
      else start w (no_request\<lparr>profileId := i\<rparr>) s)"
| "run_ui w (OfferCoreReset err) s = (if w_resetOffer w then set_sup (fst (resetCore (sup s))) s else s)"
| "run_ui w (FetchGeo retry) s = assetGeoFetchUnattended w retry s"
| "run_ui w (Show p) s = signal (Policy p) s"

text \<open>The closures posted with \<^verbatim>\<open>wait\<close> run from a timer.\<close>

fun timed :: "ui_task \<Rightarrow> bool" where
  "timed (Teardown i m) = True"
| "timed _ = False"

definition ui_step :: "world \<Rightarrow> nat \<Rightarrow> connection \<Rightarrow> connection" where
  "ui_step w n s =
     (if n < length (ui_queue s) \<and> list_all timed (take n (ui_queue s))
      then run_ui w (ui_queue s ! n) (s\<lparr>ui_queue := take n (ui_queue s) @ drop (Suc n) (ui_queue s)\<rparr>)
      else s)"

section \<open>Rankings and downloads\<close>

text \<open>
  The sweep of a ranking met its quorum (\<open>early\<close>) or ended. \<^verbatim>\<open>resumeRanked\<close> of a start runs once, at the
  first of the two; the restart of an exhausted pool runs while its profile still runs.
\<close>

definition resume_ranked :: "world \<Rightarrow> ranking \<Rightarrow> connection \<Rightarrow> connection" where
  "resume_ranked w k s =
     (let i = profileId (rk_request k)
      in if \<not> rk_exhausted k then startRanked w (rk_request k) s
         else if m_running s \<noteq> Some i then s
         else startRanked w (no_request\<lparr>profileId := i\<rparr>) s)"

definition rank_early :: "world \<Rightarrow> nat \<Rightarrow> connection \<Rightarrow> connection" where
  "rank_early w n s =
     (if n < length (rankings s) \<and> \<not> rk_startedEarly (rankings s ! n)
      then resume_ranked w (rankings s ! n)
             (s\<lparr>rankings := (rankings s)[n := (rankings s ! n)\<lparr>rk_startedEarly := True\<rparr>]\<rparr>)
      else s)"

definition rank_end :: "world \<Rightarrow> nat \<Rightarrow> connection \<Rightarrow> connection" where
  "rank_end w n s =
     (if n < length (rankings s)
      then
        (let k = rankings s ! n;
             s = s\<lparr>rankings := take n (rankings s) @ drop (Suc n) (rankings s),
                   rankingInFlight := rankingInFlight s - 1\<rparr>
         in if rk_startedEarly k then s else resume_ranked w k s)
      else s)"

definition onPoolExhausted :: "world \<Rightarrow> int \<Rightarrow> connection \<Rightarrow> connection" where
  "onPoolExhausted w i s =
     (if w_gid w i = None \<or> m_running s \<noteq> Some i then s
      else s\<lparr>rankingInFlight := rankingInFlight s + 1,
             rankings := rankings s @ [\<lparr>rk_request = no_request\<lparr>profileId := i\<rparr>, rk_exhausted = True,
                                         rk_startedEarly = False\<rparr>]\<rparr>)"

text \<open>The unattended download has ended: a clean result runs the retries that wait for it.\<close>

definition geo_fetched :: "world \<Rightarrow> string \<Rightarrow> connection \<Rightarrow> connection" where
  "geo_fetched w dlErr s =
     (if \<not> geoUnattendedBusy s then s
      else
        (let waiters = geoUnattendedWaiters s;
             s = signal (Policy (GeoDownloadFinished dlErr))
                   (s\<lparr>geoUnattendedBusy := False, geoUnattendedWaiters := []\<rparr>)
         in if dlErr \<noteq> [] then s else fold (retryAfterGeoFetch w) waiters s))"

section \<open>Events\<close>

text \<open>
  \<open>Rebuild\<close> is any other restart of a profile with a ranking just done (\<^verbatim>\<open>finishEarlySweep\<close>,
  \<^verbatim>\<open>onSubscriptionGroupChanged\<close>). \<open>SupervisorChanged\<close> and \<open>SettingsChanged\<close> are the steps of the
  supervisor with its kill switch and the edits of the settings.
\<close>

datatype conn_event =
    Start StartRequest
  | Stop bool StopOptions
  | RestartStarted bool nat
  | ApplyPendingRestart
  | SetBootStart StartRequest
  | SystemProxy bool ModeChange
  | Tun bool ModeChange
  | ChooseRoute int bool nat
  | NoteRestart RestartReason
  | DisableKillSwitch
  | KillSwitchChanged
  | KillSwitchSettled
  | CoreUp int
  | CoreLost string
  | RankEarly nat
  | RankEnd nat
  | PoolExhausted int
  | Rebuild int
  | GeoFetched string
  | WorkerEnter
  | WorkerResume
  | WorkerLoad load_answer
  | WorkerLeave
  | StopRun stop_answer
  | Ui nat
  | ProxyStep
  | TunQuery
  | SupervisorChanged supervisor
  | SettingsChanged mode_settings

fun conn_step :: "connection \<Rightarrow> world \<times> conn_event \<Rightarrow> connection" where
  "conn_step s (w, Start r) = start w r s"
| "conn_step s (w, Stop onUi opts) = stop onUi opts s"
| "conn_step s (w, RestartStarted i n) = fst (restartStartedProfile w i n s)"
| "conn_step s (w, ApplyPendingRestart) = applyPendingRestart w s"
| "conn_step s (w, SetBootStart r) = setBootStart r s"
| "conn_step s (w, SystemProxy b ch) = fst (setSystemProxy w b ch s)"
| "conn_step s (w, Tun b ch) = fst (setTun w b ch s)"
| "conn_step s (w, ChooseRoute i b n) = fst (chooseRoute w i b n s)"
| "conn_step s (w, NoteRestart r) = noteRestartNeeded r s"
| "conn_step s (w, DisableKillSwitch) = disableKillSwitch w s"
| "conn_step s (w, KillSwitchChanged) = onKillSwitchStateChanged w s"
| "conn_step s (w, KillSwitchSettled) = killSwitchSettled w s"
| "conn_step s (w, CoreUp i) = onCoreStarted w i s"
| "conn_step s (w, CoreLost reason) = onCoreGaveUp reason s"
| "conn_step s (w, RankEarly n) = rank_early w n s"
| "conn_step s (w, RankEnd n) = rank_end w n s"
| "conn_step s (w, PoolExhausted i) = onPoolExhausted w i s"
| "conn_step s (w, Rebuild i) = startRanked w (no_request\<lparr>profileId := i\<rparr>) s"
| "conn_step s (w, GeoFetched err) = geo_fetched w err s"
| "conn_step s (w, WorkerEnter) = worker_enter s"
| "conn_step s (w, WorkerResume) = worker_resume s"
| "conn_step s (w, WorkerLoad a) = worker_load w a s"
| "conn_step s (w, WorkerLeave) = worker_leave s"
| "conn_step s (w, StopRun a) = stop_run a s"
| "conn_step s (w, Ui n) = ui_step w n s"
| "conn_step s (w, ProxyStep) = proxy_step s"
| "conn_step s (w, TunQuery) = fst (tunBlockedReason w s)"
| "conn_step s (w, SupervisorChanged u) = set_sup u s"
| "conn_step s (w, SettingsChanged c) = s\<lparr>cfg := c\<rparr>"

definition init_connection :: "supervisor \<Rightarrow> RuntimeOptions \<Rightarrow> mode_settings \<Rightarrow> connection" where
  "init_connection u opts c =
     \<lparr>sup = u, options = opts, cfg = c, running_set = init_running, m_running = None, m_runningTun = False,
      m_lastProfileId = remember_id c, m_profileConnecting = False, m_profileDisconnecting = False,
      m_lastConnectionState = Idle, m_startSerial = 0, m_killSwitchDeferredStart = no_request,
      m_coreStartRequest = no_request, m_guardCoreRestart = None, m_killSwitchWasFailed = False,
      m_killSwitchWasArmed = False, m_restartReasons = [], mu_starting = None, mu_stopping = None,
      m_switchingProfile = False, m_tunRestoreHeld = False, m_tunBlockedCache = [], m_tunBlockedKey = ([], 0),
      m_tunBlockedAtMs = 0, m_bootSerial = 0, m_geoRetriedProfile = -1, m_geoRetryToken = 0, rankedFor = -1,
      rankingInFlight = 0, rankings = [], geoUnattendedBusy = False, geoUnattendedWaiters = [], ui_queue = [],
      proxy_queue = [], conn_outs = []\<rparr>"

text \<open>The requests an event hands in, by their serials; a mode change hands one in when it restarts.\<close>

fun issued_by :: "connection \<Rightarrow> world \<times> conn_event \<Rightarrow> nat list" where
  "issued_by s (w, Start r) = [serial r]"
| "issued_by s (w, SetBootStart r) = (if 0 \<le> profileId r then [serial r] else [])"
| "issued_by s (w, RestartStarted i n) = (if snd (restartStartedProfile w i n s) then [n] else [])"
| "issued_by s (w, SystemProxy b ch) = (if snd (setSystemProxy w b ch s) then [mc_restartSerial ch] else [])"
| "issued_by s (w, Tun b ch) = (if snd (setTun w b ch s) then [mc_restartSerial ch] else [])"
| "issued_by s (w, ChooseRoute i b n) = (if snd (chooseRoute w i b n s) then [n] else [])"
| "issued_by s _ = []"

fun issued :: "connection \<Rightarrow> (world \<times> conn_event) list \<Rightarrow> nat list" where
  "issued s [] = []"
| "issued s (e # es) = issued_by s e @ issued (conn_step s e) es"

end
