(* ===== verification/ConnectionSafety.thy ===== *)
theory ConnectionSafety
  imports ConnectionRun
begin

text \<open>
  The locks, the transition guard and the connection state of the connection manager. The invariant
  \<open>conn_inv\<close> ties the state a view is told to what the workers do: which closures are still posted decides
  how the flags and the announced state may differ from the truth.
\<close>

section \<open>The invariant\<close>

text \<open>The closures that move the connection state: the end of a start, and the two of a stop.\<close>

fun start_done_task :: "ui_task \<Rightarrow> bool" where
  "start_done_task (StartDone ok sw) = True"
| "start_done_task _ = False"

fun stop_task :: "ui_task \<Rightarrow> bool" where
  "stop_task BeginDisconnect = True"
| "stop_task (Teardown i m) = True"
| "stop_task _ = False"

abbreviation start_ending :: "connection \<Rightarrow> bool" where
  "start_ending s \<equiv> list_ex start_done_task (ui_queue s)"

abbreviation stop_tasks :: "connection \<Rightarrow> ui_task list" where
  "stop_tasks s \<equiv> filter stop_task (ui_queue s)"

abbreviation in_phase :: "start_phase \<Rightarrow> connection \<Rightarrow> bool" where
  "in_phase p s \<equiv> (case mu_starting s of None \<Rightarrow> False | Some k \<Rightarrow> sw_phase k = p)"

definition connecting_ok :: "connection \<Rightarrow> bool" where
  "connecting_ok s \<longleftrightarrow>
     (m_profileConnecting s \<longrightarrow> mu_starting s \<noteq> None \<and> \<not> in_phase Leaving s \<or> start_ending s)"

fun stop_stage :: "stop_worker option \<Rightarrow> ui_task list \<Rightarrow> bool" where
  "stop_stage None ts = (ts = [])"
| "stop_stage (Some t) ts =
     (if tw_ran t then \<exists>i m. ts = [Teardown i m] \<or> ts = [BeginDisconnect, Teardown i m]
      else ts = [] \<or> ts = [BeginDisconnect])"

definition disconnecting_ok :: "connection \<Rightarrow> bool" where
  "disconnecting_ok s \<longleftrightarrow>
     (m_profileDisconnecting s \<longrightarrow> mu_stopping s \<noteq> None) \<and> stop_stage (mu_stopping s) (stop_tasks s)"

definition announced_ok :: "connection \<Rightarrow> bool" where
  "announced_ok s \<longleftrightarrow>
     (m_lastConnectionState s \<noteq> connectionState s \<longrightarrow> start_ending s \<or> mu_stopping s \<noteq> None)"

text \<open>A stop has claimed the running profile and has not torn it down.\<close>

fun stop_due :: "stop_worker option \<Rightarrow> bool" where
  "stop_due None = False"
| "stop_due (Some t) = (\<not> tw_ran t)"

definition exclusive_ok :: "connection \<Rightarrow> bool" where
  "exclusive_ok s \<longleftrightarrow>
     (in_phase Loading s \<longrightarrow> m_running s = None) \<and>
     (in_phase Entering s \<and> m_running s \<noteq> None \<longrightarrow> mu_stopping s = None \<or> stop_due (mu_stopping s)) \<and>
     (in_phase WaitingForStop s \<and> m_running s \<noteq> None \<longrightarrow> stop_due (mu_stopping s)) \<and>
     (stop_due (mu_stopping s) \<longrightarrow> m_running s \<noteq> None) \<and>
     (m_switchingProfile s \<longleftrightarrow> in_phase WaitingForStop s)"

text \<open>The calls that set the transition guard, in order, come in pairs; a running worker may owe the last.\<close>

fun guard_calls :: "conn_out list \<Rightarrow> bool list" where
  "guard_calls [] = []"
| "guard_calls (TransitionGuard b # xs) = b # guard_calls xs"
| "guard_calls (x # xs) = guard_calls xs"

fun paired :: "bool list \<Rightarrow> bool" where
  "paired [] = True"
| "paired (True # False # xs) = paired xs"
| "paired _ = False"

definition guarding :: "connection \<Rightarrow> bool" where
  "guarding s \<longleftrightarrow> (case mu_starting s of None \<Rightarrow> False | Some k \<Rightarrow> sw_guarded k)"

definition guard_ok :: "connection \<Rightarrow> bool" where
  "guard_ok s \<longleftrightarrow>
     paired (guard_calls (conn_outs s) @ (if guarding s then [False] else [])) \<and>
     (in_phase Entering s \<longrightarrow> \<not> guarding s)"

text \<open>The states a listener was told, after the initial one.\<close>

fun announced :: "conn_out list \<Rightarrow> ConnectionState list" where
  "announced [] = []"
| "announced (ConnectionStateChanged c # xs) = c # announced xs"
| "announced (x # xs) = announced xs"

definition told_ok :: "connection \<Rightarrow> bool" where
  "told_ok s \<longleftrightarrow> last (Idle # announced (conn_outs s)) = m_lastConnectionState s \<and>
     distinct_adj (Idle # announced (conn_outs s))"

definition conn_inv :: "connection \<Rightarrow> bool" where
  "conn_inv s \<longleftrightarrow> connecting_ok s \<and> disconnecting_ok s \<and> announced_ok s \<and> exclusive_ok s \<and> guard_ok s \<and> told_ok s"

named_theorems inv_ops

lemmas conn_inv_unfold = conn_inv_def connecting_ok_def disconnecting_ok_def announced_ok_def exclusive_ok_def
  guard_ok_def guarding_def told_ok_def connectionState_def

lemma guard_calls_append [simp]: "guard_calls (xs @ ys) = guard_calls xs @ guard_calls ys"
  by (induction xs rule: guard_calls.induct) simp_all

lemma announced_append [simp]: "announced (xs @ ys) = announced xs @ announced ys"
  by (induction xs rule: announced.induct) simp_all

lemma paired_append: "paired xs \<Longrightarrow> paired (xs @ ys) \<longleftrightarrow> paired ys"
  by (induction xs rule: paired.induct) simp_all

fun plain_out :: "conn_out \<Rightarrow> bool" where
  "plain_out (TransitionGuard b) = False"
| "plain_out (ConnectionStateChanged c) = False"
| "plain_out _ = True"

lemma plain_out_calls [simp]: "plain_out x \<Longrightarrow> guard_calls [x] = []" "plain_out x \<Longrightarrow> announced [x] = []"
  by (cases x; simp)+

text \<open>All the invariant reads.\<close>

definition conn_view where
  "conn_view s =
     ((m_profileConnecting s, m_profileDisconnecting s, m_lastConnectionState s),
      (m_running s, mu_starting s, mu_stopping s, m_switchingProfile s),
      start_ending s, stop_tasks s, guard_calls (conn_outs s), announced (conn_outs s))"

lemma inv_view:
  assumes "conn_view s = conn_view t"
  shows "conn_inv s \<longleftrightarrow> conn_inv t"
proof -
  have "m_profileConnecting s = m_profileConnecting t" "m_profileDisconnecting s = m_profileDisconnecting t"
    "m_lastConnectionState s = m_lastConnectionState t" "m_running s = m_running t" "mu_starting s = mu_starting t"
    "mu_stopping s = mu_stopping t" "m_switchingProfile s = m_switchingProfile t" "start_ending s = start_ending t"
    "stop_tasks s = stop_tasks t" "guard_calls (conn_outs s) = guard_calls (conn_outs t)"
    "announced (conn_outs s) = announced (conn_outs t)"
    using assms by (simp_all only: conn_view_def prod.inject)
  note e = this
  show ?thesis unfolding conn_inv_unfold e ..
qed

lemma inv_signal [inv_ops]: "plain_out x \<Longrightarrow> conn_inv (signal x s) \<longleftrightarrow> conn_inv s"
  by (rule inv_view) (simp add: conn_view_def signal_def)

lemma inv_post [inv_ops]:
  "\<not> start_done_task t \<Longrightarrow> \<not> stop_task t \<Longrightarrow> conn_inv (post t s) \<longleftrightarrow> conn_inv s"
  by (rule inv_view) (simp add: conn_view_def post_def)

lemma inv_fields [inv_ops]:
  "conn_inv (set_sup u s) \<longleftrightarrow> conn_inv s"
  "conn_inv (s\<lparr>sup := u\<rparr>) \<longleftrightarrow> conn_inv s"
  "conn_inv (s\<lparr>cfg := c\<rparr>) \<longleftrightarrow> conn_inv s"
  "conn_inv (s\<lparr>m_geoRetryToken := t\<rparr>) \<longleftrightarrow> conn_inv s"
  "conn_inv (s\<lparr>m_lastProfileId := i\<rparr>) \<longleftrightarrow> conn_inv s"
  "conn_inv (s\<lparr>m_restartReasons := rs\<rparr>) \<longleftrightarrow> conn_inv s"
  "conn_inv (s\<lparr>m_guardCoreRestart := g\<rparr>) \<longleftrightarrow> conn_inv s"
  "conn_inv (s\<lparr>m_bootSerial := b\<rparr>) \<longleftrightarrow> conn_inv s"
  "conn_inv (s\<lparr>m_coreStartRequest := r\<rparr>) \<longleftrightarrow> conn_inv s"
  "conn_inv (s\<lparr>m_killSwitchDeferredStart := r\<rparr>) \<longleftrightarrow> conn_inv s"
  "conn_inv (s\<lparr>rankedFor := i\<rparr>) \<longleftrightarrow> conn_inv s"
  "conn_inv (s\<lparr>rankings := rl\<rparr>) \<longleftrightarrow> conn_inv s"
  "conn_inv (s\<lparr>rankingInFlight := i\<rparr>) \<longleftrightarrow> conn_inv s"
  "conn_inv (s\<lparr>m_geoRetriedProfile := i\<rparr>) \<longleftrightarrow> conn_inv s"
  "conn_inv (s\<lparr>m_tunRestoreHeld := h\<rparr>) \<longleftrightarrow> conn_inv s"
  "conn_inv (s\<lparr>running_set := rr\<rparr>) \<longleftrightarrow> conn_inv s"
  "conn_inv (s\<lparr>proxy_queue := q\<rparr>) \<longleftrightarrow> conn_inv s"
  "conn_inv (s\<lparr>m_tunBlockedAtMs := ms\<rparr>) \<longleftrightarrow> conn_inv s"
  "conn_inv (s\<lparr>m_tunBlockedCache := tc\<rparr>) \<longleftrightarrow> conn_inv s"
  "conn_inv (s\<lparr>m_tunBlockedKey := tk\<rparr>) \<longleftrightarrow> conn_inv s"
  "conn_inv (s\<lparr>geoUnattendedBusy := gb\<rparr>) \<longleftrightarrow> conn_inv s"
  "conn_inv (s\<lparr>geoUnattendedWaiters := gw\<rparr>) \<longleftrightarrow> conn_inv s"
  "conn_inv (s\<lparr>m_killSwitchWasFailed := kf\<rparr>) \<longleftrightarrow> conn_inv s"
  "conn_inv (s\<lparr>m_killSwitchWasArmed := ka\<rparr>) \<longleftrightarrow> conn_inv s"
  by (rule inv_view; simp add: conn_view_def set_sup_def)+

section \<open>Operations that leave the connection alone\<close>

lemma inv_finish [inv_ops]: "conn_inv (finish r outcome err s) \<longleftrightarrow> conn_inv s"
  by (simp add: finish_def inv_ops)

lemma inv_failStart [inv_ops]: "conn_inv (failStart r outcome err s) \<longleftrightarrow> conn_inv s"
  by (simp add: failStart_def Let_def inv_ops)

lemma inv_deferStartToCore [inv_ops]: "conn_inv (deferStartToCore r s) \<longleftrightarrow> conn_inv s"
  by (simp add: deferStartToCore_def Let_def inv_ops)

lemma inv_setBootStart [inv_ops]: "conn_inv (setBootStart r s) \<longleftrightarrow> conn_inv s"
  by (simp add: setBootStart_def inv_ops)

lemma inv_deferToKillSwitch [inv_ops]: "conn_inv (deferToKillSwitch r s) \<longleftrightarrow> conn_inv s"
  by (simp add: deferToKillSwitch_def Let_def inv_ops)

lemma inv_restartCoreForGuard [inv_ops]: "conn_inv (restartCoreForGuard w r s) \<longleftrightarrow> conn_inv s"
  by (simp add: restartCoreForGuard_def setStartWhenUp_def Let_def inv_ops)

lemma inv_UpdateStartedId [inv_ops]: "conn_inv (UpdateStartedId i s) \<longleftrightarrow> conn_inv s"
  by (simp add: UpdateStartedId_def inv_ops)

lemma inv_clearRestartNeeded [inv_ops]: "conn_inv (clearRestartNeeded s) \<longleftrightarrow> conn_inv s"
  by (simp add: clearRestartNeeded_def inv_ops)

lemma inv_noteRestartNeeded [inv_ops]: "conn_inv (noteRestartNeeded r s) \<longleftrightarrow> conn_inv s"
  by (simp add: noteRestartNeeded_def inv_ops)

lemma inv_applySystemProxy [inv_ops]: "conn_inv (applySystemProxy b s) \<longleftrightarrow> conn_inv s"
  by (simp add: applySystemProxy_def inv_ops)

lemma inv_proxy_step [inv_ops]: "conn_inv (proxy_step s) \<longleftrightarrow> conn_inv s"
  by (simp add: proxy_step_def Let_def inv_ops split: list.splits)

lemma inv_HandleXrayGeoError [inv_ops]: "conn_inv (fst (HandleXrayGeoError w u e p i s)) \<longleftrightarrow> conn_inv s"
  by (simp add: HandleXrayGeoError_def Let_def inv_ops)

lemma inv_geo_check [inv_ops]: "conn_inv (fst (geo_check w p xs s)) \<longleftrightarrow> conn_inv s"
proof (induction w p xs s rule: geo_check.induct)
  case (2 w p rpcOK err checks s)
  then show ?case
    using inv_HandleXrayGeoError [of w True err p None s] by (auto split: prod.splits)
qed simp

lemma inv_assetGeoFetchUnattended [inv_ops]: "conn_inv (assetGeoFetchUnattended w i s) \<longleftrightarrow> conn_inv s"
  by (simp add: assetGeoFetchUnattended_def Let_def inv_ops)

lemma inv_rankBeforeStart [inv_ops]: "conn_inv (fst (rankBeforeStart w r s)) \<longleftrightarrow> conn_inv s"
  by (simp add: rankBeforeStart_def Let_def inv_ops)

lemma inv_tunBlockedReason [inv_ops]: "conn_inv (fst (tunBlockedReason w s)) \<longleftrightarrow> conn_inv s"
  by (simp add: tunBlockedReason_def Let_def inv_ops)

lemma inv_tunRestoreHoldReason [inv_ops]: "conn_inv (fst (tunRestoreHoldReason w s)) \<longleftrightarrow> conn_inv s"
  using inv_tunBlockedReason [of w s] by (cases "tunBlockedReason w s") (simp add: tunRestoreHoldReason_def)

lemma inv_tun_refused [inv_ops]: "conn_inv (fst (tun_refused w ch s)) \<longleftrightarrow> conn_inv s"
  using inv_tunBlockedReason [of w s] by (cases "tunBlockedReason w s") (simp add: tun_refused_def)

lemma inv_release_hold [inv_ops]: "conn_inv (release_hold b ch s) \<longleftrightarrow> conn_inv s"
  by (simp add: release_hold_def Let_def inv_ops)

lemma inv_cancel_resume [inv_ops]: "conn_inv (cancel_resume s) \<longleftrightarrow> conn_inv s"
  by (simp add: cancel_resume_def inv_ops)

section \<open>Announcing the state\<close>

lemma syncState_fields [simp]:
  "ui_queue (syncState s) = ui_queue s"
  "mu_starting (syncState s) = mu_starting s"
  "mu_stopping (syncState s) = mu_stopping s"
  "m_running (syncState s) = m_running s"
  "m_switchingProfile (syncState s) = m_switchingProfile s"
  "m_profileConnecting (syncState s) = m_profileConnecting s"
  "m_profileDisconnecting (syncState s) = m_profileDisconnecting s"
  "guard_calls (conn_outs (syncState s)) = guard_calls (conn_outs s)"
  "m_lastConnectionState (syncState s) = connectionState s"
  by (simp_all add: syncState_def Let_def signal_def)

lemma connectionState_syncState [simp]: "connectionState (syncState s) = connectionState s"
  by (simp add: connectionState_def)

lemma distinct_adj_snoc: "distinct_adj (xs @ [x]) \<longleftrightarrow> distinct_adj xs \<and> (xs = [] \<or> last xs \<noteq> x)"
  by (auto simp: distinct_adj_append_iff)

lemma told_syncState [simp]: "told_ok s \<Longrightarrow> told_ok (syncState s)"
proof -
  assume t: "told_ok s"
  show "told_ok (syncState s)"
  proof (cases "connectionState s = m_lastConnectionState s")
    case False
    have "announced (conn_outs (syncState s)) = announced (conn_outs s) @ [connectionState s]"
      using False by (simp add: syncState_def Let_def signal_def)
    then show ?thesis
      using t False distinct_adj_snoc [of "Idle # announced (conn_outs s)" "connectionState s"]
      by (simp add: told_ok_def split: if_splits)
  qed (use t in \<open>simp add: syncState_def told_ok_def\<close>)
qed

text \<open>A closure that ends with \<open>syncState\<close> keeps the invariant when its other parts hold.\<close>

lemma inv_synced:
  assumes "told_ok s" "connecting_ok s" "disconnecting_ok s" "exclusive_ok s" "guard_ok s"
  shows "conn_inv (syncState s)"
  using assms told_syncState [of s]
  by (simp add: conn_inv_def connecting_ok_def disconnecting_ok_def announced_ok_def exclusive_ok_def guard_ok_def
      guarding_def connectionState_syncState)

section \<open>Starting\<close>

lemma inv_spawn_start:
  assumes "conn_inv s" "mu_starting s = None" "mu_stopping s = None"
  shows "conn_inv (spawn_start r b s)"
proof -
  let ?t = "s\<lparr>mu_starting := Some \<lparr>sw_request = r, sw_build = b, sw_phase = Entering, sw_guarded = False, sw_switching = False\<rparr>,
    m_profileConnecting := True\<rparr>"
  have "conn_inv (syncState ?t)"
    by (rule inv_synced)
      (use assms in \<open>simp_all add: conn_inv_def told_ok_def connecting_ok_def disconnecting_ok_def exclusive_ok_def
        guard_ok_def guarding_def\<close>)
  then show ?thesis by (simp add: spawn_start_def inv_ops)
qed

lemma inv_start_locked: "conn_inv s \<Longrightarrow> conn_inv (start_locked r b s)"
  by (simp add: start_locked_def Let_def inv_ops inv_spawn_start)

lemma inv_start_built: "conn_inv s \<Longrightarrow> conn_inv (start_built w r s)"
  using inv_geo_check [of w "interactive r" "b_checks (w_build w (profileId r))" s]
  by (cases "geo_check w (interactive r) (b_checks (w_build w (profileId r))) s")
    (simp add: start_built_def Let_def inv_ops inv_start_locked split: option.splits)

lemma inv_start_rank:
  "conn_inv s \<Longrightarrow> conn_inv (let (s, waits) = rankBeforeStart w r s in if waits then s else start_built w r s)"
  using inv_rankBeforeStart [of w r s] by (cases "rankBeforeStart w r s") (simp add: inv_start_built)

lemma inv_start: "conn_inv s \<Longrightarrow> conn_inv (start w r s)"
proof (cases "if 0 \<le> profileId r then w_gid w (profileId r) else None")
  case (Some gid)
  assume "conn_inv s"
  with Some show ?thesis
    unfolding start_def Let_def Some option.case
    by (simp add: inv_ops inv_start_rank [unfolded Let_def] del: split_paired_All)
qed (simp add: start_def Let_def inv_ops)

lemma inv_startRanked: "conn_inv s \<Longrightarrow> conn_inv (startRanked w r s)"
  by (simp add: startRanked_def inv_ops inv_start)

lemma inv_applyPendingRestart: "conn_inv s \<Longrightarrow> conn_inv (applyPendingRestart w s)"
  by (simp add: applyPendingRestart_def Let_def inv_ops inv_start)

lemma inv_restartStartedProfile: "conn_inv s \<Longrightarrow> conn_inv (fst (restartStartedProfile w i n s))"
  by (simp add: restartStartedProfile_def Let_def inv_ops inv_start)

lemma inv_retryAfterGeoFetch: "conn_inv s \<Longrightarrow> conn_inv (retryAfterGeoFetch w x s)"
  by (cases x) (simp add: retryAfterGeoFetch_def Let_def inv_ops inv_start)

lemma inv_retries: "conn_inv s \<Longrightarrow> conn_inv (fold (retryAfterGeoFetch w) xs s)"
  by (induction xs arbitrary: s) (simp_all add: inv_retryAfterGeoFetch)

section \<open>Modes, kill switch and core\<close>

lemma inv_setSystemProxy: "conn_inv s \<Longrightarrow> conn_inv (fst (setSystemProxy w b ch s))"
  by (cases "m_running s") (simp_all add: setSystemProxy_def Let_def inv_ops inv_start applySystemProxy_def)

lemma inv_setTun:
  assumes "conn_inv s"
  shows "conn_inv (fst (setTun w b ch s))"
proof -
  define t where "t = release_hold b ch s"
  obtain u refused where u: "(if b then tun_refused w ch t else (t, False)) = (u, refused)" by fastforce
  have "conn_inv u"
    using u inv_tun_refused [of w ch t] inv_release_hold [of b ch s] assms by (cases b) (auto simp: t_def)
  then show ?thesis
    unfolding setTun_def Let_def t_def [symmetric] u using assms by (simp add: inv_ops t_def inv_start)
qed

lemma inv_chooseRoute: "conn_inv s \<Longrightarrow> conn_inv (fst (chooseRoute w i b m s))"
  by (simp add: chooseRoute_def Let_def inv_ops inv_start)

lemma inv_onKillSwitchStateChanged [inv_ops]: "conn_inv (onKillSwitchStateChanged w s) \<longleftrightarrow> conn_inv s"
  by (simp add: onKillSwitchStateChanged_def guard_request_def Let_def inv_ops)

lemma inv_applyKillSwitch [inv_ops]: "conn_inv (applyKillSwitch w s) \<longleftrightarrow> conn_inv s"
  by (simp add: applyKillSwitch_def Let_def inv_ops)

lemma inv_killSwitchSettled: "conn_inv s \<Longrightarrow> conn_inv (killSwitchSettled w s)"
  by (simp add: killSwitchSettled_def Let_def inv_ops inv_start)

lemma inv_restore_modes: "conn_inv s \<Longrightarrow> conn_inv (fst (restore_modes w s))"
  by (simp add: restore_modes_def Let_def inv_ops inv_setTun inv_setSystemProxy)

lemma inv_dispatch_core_request: "conn_inv s \<Longrightarrow> conn_inv (dispatch_core_request w why i s)"
  by (simp add: dispatch_core_request_def Let_def inv_ops inv_start)

lemma inv_onCoreStarted:
  assumes "conn_inv s"
  shows "conn_inv (onCoreStarted w i s)"
proof -
  define t where "t = (if failedForPrivileges (kill_sw s) then applyKillSwitch w (s\<lparr>m_guardCoreRestart := None\<rparr>)
    else s\<lparr>m_guardCoreRestart := None\<rparr>)"
  have t: "conn_inv t" using assms by (simp add: t_def inv_ops)
  obtain u why where u: "restore_modes w t = (u, why)" by fastforce
  have "conn_inv u" using inv_restore_modes [OF t, of w] u by simp
  moreover have "onCoreStarted w i s = signal StatusChanged (dispatch_core_request w why i u)"
    using u by (simp add: onCoreStarted_def Let_def t_def split: if_splits)
  ultimately show ?thesis by (simp add: inv_ops inv_dispatch_core_request)
qed

lemma inv_onCoreGaveUp [inv_ops]: "conn_inv (onCoreGaveUp reason s) \<longleftrightarrow> conn_inv s"
  by (simp add: onCoreGaveUp_def Let_def inv_ops)

section \<open>The workers\<close>

lemmas conn_parts = conn_inv_def told_ok_def connecting_ok_def disconnecting_ok_def announced_ok_def exclusive_ok_def
  guard_ok_def guarding_def connectionState_def

lemma inv_begin_disconnect:
  assumes "conn_inv s" "mu_stopping s \<noteq> None"
  shows "conn_inv (begin_disconnect s)"
proof -
  let ?t = "s\<lparr>m_profileDisconnecting := True\<rparr>"
  have "told_ok ?t = told_ok s" "connecting_ok ?t = connecting_ok s" "exclusive_ok ?t = exclusive_ok s"
    "guard_ok ?t = guard_ok s"
    by (simp_all add: told_ok_def connecting_ok_def exclusive_ok_def guard_ok_def guarding_def)
  moreover have "disconnecting_ok ?t" using assms by (simp add: conn_inv_def disconnecting_ok_def)
  ultimately have "conn_inv (syncState ?t)" using assms(1) by (intro inv_synced) (simp_all add: conn_inv_def)
  then show ?thesis by (simp add: begin_disconnect_def inv_ops)
qed

text \<open>\<^verbatim>\<open>stop\<close> takes \<^verbatim>\<open>mu_stopping\<close> only with a profile running.\<close>

lemma inv_stop_claim:
  assumes "conn_inv s" "mu_stopping s = None" "m_running s = Some i"
  shows "conn_inv (s\<lparr>mu_stopping := Some \<lparr>tw_id = i, tw_options = opts, tw_ran = False\<rparr>\<rparr>)"
  using assms by (simp add: conn_parts)

lemma inv_post_disconnect:
  assumes "conn_inv s" "mu_stopping s = Some t" "\<not> tw_ran t" "stop_tasks s = []"
  shows "conn_inv (post BeginDisconnect s)"
  using assms by (auto simp: conn_parts post_def)

lemma inv_stop: 
  assumes "conn_inv s"
  shows "conn_inv (stop onUi opts s)"
proof -
  define t where "t = (if so_manual opts then s\<lparr>m_geoRetryToken := m_geoRetryToken s + 1\<rparr> else s)"
  have t: "conn_inv t" using assms by (simp add: t_def inv_ops)
  show ?thesis
  proof (cases "m_running t")
    case None
    then show ?thesis using t by (simp add: stop_def Let_def t_def [symmetric] inv_ops)
  next
    case (Some i)
    define u where "u = t\<lparr>cfg := (cfg t)\<lparr>internal_proxy_port := 0, internal_proxy_auth := []\<rparr>\<rparr>"
    have u: "conn_inv u" "m_running u = Some i" using t Some by (simp_all add: u_def inv_ops)
    let ?v = "u\<lparr>mu_stopping := Some \<lparr>tw_id = i, tw_options = opts, tw_ran = False\<rparr>\<rparr>"
    have "conn_inv (begin_disconnect ?v)" "conn_inv (post BeginDisconnect ?v)" if "mu_stopping u = None"
    proof -
      have v: "conn_inv ?v" using inv_stop_claim u that by blast
      then show "conn_inv (begin_disconnect ?v)" by (rule inv_begin_disconnect) simp
      from u(1) that have "stop_tasks u = []" by (simp add: conn_inv_def disconnecting_ok_def)
      then show "conn_inv (post BeginDisconnect ?v)"
        using inv_post_disconnect [OF v, of "\<lparr>tw_id = i, tw_options = opts, tw_ran = False\<rparr>"] by simp
    qed
    then show ?thesis using u Some by (simp add: stop_def Let_def t_def [symmetric] u_def [symmetric])
  qed
qed

lemma stop_kept [simp]:
  "mu_starting (stop onUi opts s) = mu_starting s"
  "m_running (stop onUi opts s) = m_running s"
  "m_switchingProfile (stop onUi opts s) = m_switchingProfile s"
  "guard_calls (conn_outs (stop onUi opts s)) = guard_calls (conn_outs s)"
  by (simp_all add: stop_def begin_disconnect_def cancel_resume_def set_sup_def post_def signal_def [of BusyChanged]
      Let_def split: option.splits)

lemma stop_claims:
  "m_running s = Some i \<Longrightarrow> mu_stopping s = None \<or> stop_due (mu_stopping s) \<Longrightarrow>
     stop_due (mu_stopping (stop onUi opts s))"
  by (cases "mu_stopping s")
    (simp_all add: stop_def begin_disconnect_def post_def signal_def [of BusyChanged] Let_def)

text \<open>A stop off the main thread announces nothing itself.\<close>

lemma stop_worker_commutes:
  "stop False opts (signal x s) = signal x (stop False opts s)"
  "stop False opts (s\<lparr>m_switchingProfile := b\<rparr>) = (stop False opts s)\<lparr>m_switchingProfile := b\<rparr>"
  by (cases "m_running s"; simp add: stop_def signal_def post_def Let_def)+

lemma inv_enter_switching:
  assumes "conn_inv s" "mu_starting s = Some k" "sw_phase k = Entering" "stop_due (mu_stopping s)"
  shows "conn_inv (set_phase WaitingForStop (k\<lparr>sw_guarded := g, sw_switching := True\<rparr>)
    ((if g then signal (TransitionGuard True) s else s)\<lparr>m_switchingProfile := True\<rparr>))"
  using assms by (auto simp: conn_parts set_phase_def signal_def paired_append)

lemma inv_enter_fresh:
  assumes "conn_inv s" "mu_starting s = Some k" "sw_phase k = Entering" "m_running s = None"
  shows "conn_inv (set_phase Loading (k\<lparr>sw_guarded := False, sw_switching := False\<rparr>) s)"
  using assms by (auto simp: conn_parts set_phase_def)

lemma inv_worker_enter:
  assumes "conn_inv s"
  shows "conn_inv (worker_enter s)"
proof (cases "\<exists>k. mu_starting s = Some k \<and> sw_phase k = Entering")
  case True
  then obtain k where k: "mu_starting s = Some k" "sw_phase k = Entering" by blast
  show ?thesis
  proof (cases "m_running s")
    case None
    then show ?thesis using inv_enter_fresh [OF assms k] k by (simp add: worker_enter_def)
  next
    case (Some i)
    let ?opts = "stop_for_switch (interactive (sw_request k))"
    have "mu_stopping s = None \<or> stop_due (mu_stopping s)"
      using assms k Some by (simp add: conn_inv_def exclusive_ok_def)
    then have due: "stop_due (mu_stopping (stop False ?opts s))" by (rule stop_claims [OF Some])
    have "worker_enter s = set_phase WaitingForStop (k\<lparr>sw_guarded := spmode_vpn (cfg s), sw_switching := True\<rparr>)
      ((if spmode_vpn (cfg s) then signal (TransitionGuard True) (stop False ?opts s) else stop False ?opts s)
        \<lparr>m_switchingProfile := True\<rparr>)"
      using k Some by (simp add: worker_enter_def Let_def stop_worker_commutes)
    then show ?thesis
      using inv_enter_switching [OF inv_stop [OF assms], of False ?opts k "spmode_vpn (cfg s)"] k due by simp
  qed
qed (use assms in \<open>auto simp: worker_enter_def split: option.splits\<close>)

end
