(* ===== verification/ConnectionProps.thy ===== *)
theory ConnectionProps
  imports ConnectionRun
begin

text \<open>
  Every request to start a profile is accounted for. The ledger counts, for a serial number, the
  \<^verbatim>\<open>startFinished\<close> signals that carry it and the places that still hold its request: the request waiting for
  the kill switch or for the core, the rankings, the start worker and the posted closures. Each operation
  keeps the ledger, except that it adds what it was handed.
\<close>

section \<open>The ledger\<close>

fun finished_serial :: "conn_out \<Rightarrow> nat list" where
  "finished_serial (StartFinished n i outcome err) = [n]"
| "finished_serial _ = []"

definition finished_serials :: "conn_out list \<Rightarrow> nat list" where
  "finished_serials xs = concat (map finished_serial xs)"

fun task_serial :: "ui_task \<Rightarrow> nat list" where
  "task_serial (Finish r outcome err) = [serial r]"
| "task_serial (RunStarted r e) = [serial r]"
| "task_serial _ = []"

definition kept :: "StartRequest \<Rightarrow> nat list" where
  "kept r = (if 0 \<le> profileId r then [serial r] else [])"

definition ranking_serial :: "ranking \<Rightarrow> nat list" where
  "ranking_serial k = (if rk_exhausted k \<or> rk_startedEarly k then [] else [serial (rk_request k)])"

definition worker_serial :: "start_worker option \<Rightarrow> nat list" where
  "worker_serial k = (case k of None \<Rightarrow> [] | Some k \<Rightarrow> if sw_phase k = Leaving then [] else [serial (sw_request k)])"

definition pending_serials :: "connection \<Rightarrow> nat list" where
  "pending_serials s =
     kept (m_killSwitchDeferredStart s) @ kept (m_coreStartRequest s) @
     concat (map ranking_serial (rankings s)) @ worker_serial (mu_starting s) @
     concat (map task_serial (ui_queue s))"

definition ledger :: "nat \<Rightarrow> connection \<Rightarrow> nat" where
  "ledger n s = count_list (finished_serials (conn_outs s)) n + count_list (pending_serials s) n"

lemma finished_serials_simps [simp]:
  "finished_serials [] = []"
  "finished_serials (xs @ ys) = finished_serials xs @ finished_serials ys"
  "finished_serials (x # xs) = finished_serial x @ finished_serials xs"
  by (simp_all add: finished_serials_def)

lemma kept_no_request [simp]: "kept no_request = []"
  by (simp add: kept_def no_request_def)

lemma profileId_no_request [simp]: "profileId no_request = -1"
  by (simp add: no_request_def)

lemma serial_no_request [simp]: "serial (no_request\<lparr>profileId := i\<rparr>) = 0" "serial no_request = 0"
  by (simp_all add: no_request_def)

lemma count_kept: "count_list (kept r) n = of_bool (0 \<le> profileId r \<and> serial r = n)"
  by (simp add: kept_def)

named_theorems ledger_ops
named_theorems ledger_defs

lemmas ledger_unfold = ledger_def pending_serials_def worker_serial_def ranking_serial_def

text \<open>Fields the ledger does not read.\<close>

lemma ledger_signal [ledger_ops]:
  "ledger n (signal x s) = ledger n s + count_list (finished_serial x) n"
  by (simp add: ledger_unfold signal_def)

lemma ledger_post [ledger_ops]:
  "ledger n (post t s) = ledger n s + count_list (task_serial t) n"
  by (simp add: ledger_unfold post_def)

lemma ledger_set_sup [ledger_ops]: "ledger n (set_sup u s) = ledger n s"
  by (simp add: ledger_unfold set_sup_def)

lemma ledger_fields [ledger_ops]:
  "ledger n (s\<lparr>cfg := c\<rparr>) = ledger n s"
  "ledger n (s\<lparr>m_geoRetryToken := t\<rparr>) = ledger n s"
  "ledger n (s\<lparr>m_lastProfileId := i\<rparr>) = ledger n s"
  "ledger n (s\<lparr>m_restartReasons := rs\<rparr>) = ledger n s"
  "ledger n (s\<lparr>m_guardCoreRestart := g\<rparr>) = ledger n s"
  "ledger n (s\<lparr>m_bootSerial := b\<rparr>) = ledger n s"
  "ledger n (s\<lparr>rankedFor := i\<rparr>) = ledger n s"
  "ledger n (s\<lparr>m_geoRetriedProfile := i\<rparr>) = ledger n s"
  "ledger n (s\<lparr>m_profileDisconnecting := d\<rparr>) = ledger n s"
  "ledger n (s\<lparr>m_profileConnecting := d\<rparr>) = ledger n s"
  "ledger n (s\<lparr>m_tunRestoreHeld := h\<rparr>) = ledger n s"
  "ledger n (s\<lparr>mu_stopping := m\<rparr>) = ledger n s"
  "ledger n (s\<lparr>running_set := rr\<rparr>) = ledger n s"
  "ledger n (s\<lparr>m_switchingProfile := sw\<rparr>) = ledger n s"
  "ledger n (s\<lparr>proxy_queue := q\<rparr>) = ledger n s"
  "ledger n (s\<lparr>sup := u\<rparr>) = ledger n s"
  "ledger n (s\<lparr>m_tunBlockedAtMs := ms\<rparr>) = ledger n s"
  "ledger n (s\<lparr>geoUnattendedBusy := gb\<rparr>) = ledger n s"
  "ledger n (s\<lparr>geoUnattendedWaiters := gw\<rparr>) = ledger n s"
  "ledger n (s\<lparr>m_running := mr\<rparr>) = ledger n s"
  "ledger n (s\<lparr>m_runningTun := mt\<rparr>) = ledger n s"
  "ledger n (s\<lparr>m_lastConnectionState := cs\<rparr>) = ledger n s"
  "ledger n (s\<lparr>m_killSwitchWasFailed := kf\<rparr>) = ledger n s"
  "ledger n (s\<lparr>m_killSwitchWasArmed := ka\<rparr>) = ledger n s"
  "ledger n (s\<lparr>m_tunBlockedCache := tc\<rparr>) = ledger n s"
  "ledger n (s\<lparr>m_tunBlockedKey := tk\<rparr>) = ledger n s"
  "ledger n (s\<lparr>rankingInFlight := ri\<rparr>) = ledger n s"
  by (simp_all add: ledger_unfold)

lemma ledger_syncState [ledger_ops]: "ledger n (syncState s) = ledger n s"
  by (simp add: syncState_def Let_def ledger_ops)

lemma ledger_finish [ledger_ops]: "ledger n (finish r outcome err s) = ledger n s + of_bool (serial r = n)"
  by (simp add: finish_def ledger_ops)

lemma ledger_failStart [ledger_ops]: "ledger n (failStart r outcome err s) = ledger n s + of_bool (serial r = n)"
  by (simp add: failStart_def Let_def ledger_ops)

lemma ledger_UpdateStartedId [ledger_ops]: "ledger n (UpdateStartedId i s) = ledger n s"
  by (simp add: UpdateStartedId_def ledger_ops)

lemma ledger_setRunning [ledger_ops]: "ledger n (setRunning p t s) = ledger n s"
  by (simp add: setRunning_def ledger_ops)

lemma ledger_clearRestartNeeded [ledger_ops]: "ledger n (clearRestartNeeded s) = ledger n s"
  by (simp add: clearRestartNeeded_def ledger_ops)

lemma ledger_noteRestartNeeded [ledger_ops]: "ledger n (noteRestartNeeded r s) = ledger n s"
  by (simp add: noteRestartNeeded_def ledger_ops)

lemma ledger_applySystemProxy [ledger_ops]: "ledger n (applySystemProxy b s) = ledger n s"
  by (simp add: applySystemProxy_def ledger_ops)

lemma ledger_proxy_step [ledger_ops]: "ledger n (proxy_step s) = ledger n s"
  by (simp add: proxy_step_def Let_def ledger_ops split: list.splits)

lemma ledger_HandleXrayGeoError [ledger_ops]:
  "ledger n (fst (HandleXrayGeoError w u e p i s)) = ledger n s"
  by (simp add: HandleXrayGeoError_def Let_def ledger_ops)

lemma ledger_geo_check [ledger_ops]: "ledger n (fst (geo_check w p xs s)) = ledger n s"
proof (induction w p xs s rule: geo_check.induct)
  case (2 w p rpcOK err checks s)
  then show ?case
    using ledger_HandleXrayGeoError [of n w True err p None s]
    by (auto split: prod.splits)
qed simp

lemma ledger_assetGeoFetchUnattended [ledger_ops]: "ledger n (assetGeoFetchUnattended w i s) = ledger n s"
  by (simp add: assetGeoFetchUnattended_def Let_def ledger_ops)

section \<open>Starting\<close>

lemma ledger_set_core: "ledger n (s\<lparr>m_coreStartRequest := r\<rparr>) + count_list (kept (m_coreStartRequest s)) n =
    ledger n s + count_list (kept r) n"
  by (simp add: ledger_unfold)

lemma ledger_set_deferred:
  "ledger n (s\<lparr>m_killSwitchDeferredStart := r\<rparr>) + count_list (kept (m_killSwitchDeferredStart s)) n =
    ledger n s + count_list (kept r) n"
  by (simp add: ledger_unfold)

lemma finish_fields [simp]:
  "m_coreStartRequest (finish r outcome err s) = m_coreStartRequest s"
  "m_killSwitchDeferredStart (finish r outcome err s) = m_killSwitchDeferredStart s"
  "mu_starting (finish r outcome err s) = mu_starting s"
  "ui_queue (finish r outcome err s) = ui_queue s"
  by (simp_all add: finish_def signal_def)

lemma ledger_deferStartToCore [ledger_ops]:
  "ledger n (deferStartToCore r s) = ledger n s + count_list (kept r) n"
  using ledger_set_core [of n r "finish (m_coreStartRequest s) Superseded [] s"] ledger_set_core [of n r s]
  by (simp add: deferStartToCore_def ledger_ops kept_def split: if_splits)

lemma ledger_setBootStart [ledger_ops]: "ledger n (setBootStart r s) = ledger n s + count_list (kept r) n"
  by (simp add: setBootStart_def ledger_ops)

lemma ledger_deferToKillSwitch [ledger_ops]:
  "ledger n (deferToKillSwitch r s) = ledger n s + count_list (kept r) n"
  using ledger_set_deferred [of n r "finish (m_killSwitchDeferredStart s) Superseded [] s"]
    ledger_set_deferred [of n r s]
  by (simp add: deferToKillSwitch_def ledger_ops kept_def split: if_splits)

lemma ledger_restartCoreForGuard:
  "ledger n (restartCoreForGuard w r s) = ledger n s +
     (if process (sup s) = None then of_bool (serial r = n) else count_list (kept r) n)"
  by (simp add: restartCoreForGuard_def setStartWhenUp_def Let_def ledger_ops)

lemma ledger_restartCoreForGuard_kept [ledger_ops]:
  "0 \<le> profileId r \<Longrightarrow> ledger n (restartCoreForGuard w r s) = ledger n s + of_bool (serial r = n)"
  by (simp add: ledger_restartCoreForGuard kept_def)

lemma ledger_spawn_start [ledger_ops]:
  "mu_starting s = None \<Longrightarrow> ledger n (spawn_start r b s) = ledger n s + of_bool (serial r = n)"
  by (simp add: spawn_start_def Let_def ledger_ops) (simp add: ledger_unfold)

lemma ledger_start_locked [ledger_ops]:
  "0 \<le> profileId r \<Longrightarrow> ledger n (start_locked r b s) = ledger n s + of_bool (serial r = n)"
  by (simp add: start_locked_def Let_def ledger_ops kept_def)

lemma ledger_rankBeforeStart:
  "ledger n (fst (rankBeforeStart w r s)) = ledger n s + (if snd (rankBeforeStart w r s) then of_bool (serial r = n) else 0)"
  by (simp add: rankBeforeStart_def Let_def) (simp add: ledger_unfold)

lemma ledger_start_built [ledger_ops]:
  "0 \<le> profileId r \<Longrightarrow> ledger n (start_built w r s) = ledger n s + of_bool (serial r = n)"
  using ledger_geo_check [of n w "interactive r" "b_checks (w_build w (profileId r))" s]
  by (cases "geo_check w (interactive r) (b_checks (w_build w (profileId r))) s")
    (simp add: start_built_def Let_def ledger_ops split: option.splits)

lemma ledger_start_ranked:
  assumes "0 \<le> profileId r"
  shows "ledger n (let (s, waits) = rankBeforeStart w r s in if waits then s else start_built w r s) =
    ledger n s + of_bool (serial r = n)"
  using ledger_rankBeforeStart [of n w r s] assms
  by (cases "rankBeforeStart w r s") (auto simp: ledger_ops)

lemma ledger_start [ledger_ops]: "ledger n (start w r s) = ledger n s + of_bool (serial r = n)"
proof (cases "0 \<le> profileId r \<and> w_gid w (profileId r) \<noteq> None")
  case True
  then obtain gid where gid: "0 \<le> profileId r" "w_gid w (profileId r) = Some gid" by auto
  then show ?thesis
    by (simp add: start_def Let_def ledger_ops ledger_start_ranked [unfolded Let_def] kept_def del: split_paired_All)
next
  case False
  then show ?thesis by (auto simp: start_def Let_def ledger_ops)
qed

lemma ledger_startRanked [ledger_ops]: "ledger n (startRanked w r s) = ledger n s + of_bool (serial r = n)"
  by (simp add: startRanked_def ledger_ops)

section \<open>The other operations\<close>

lemma ledger_stop [ledger_ops]: "ledger n (stop onUi opts s) = ledger n s"
  by (simp add: stop_def begin_disconnect_def cancel_resume_def Let_def ledger_ops split: option.splits)

lemma ledger_applyPendingRestart: "n \<noteq> 0 \<Longrightarrow> ledger n (applyPendingRestart w s) = ledger n s"
  by (simp add: applyPendingRestart_def Let_def ledger_ops)

lemma ledger_retryAfterGeoFetch: "n \<noteq> 0 \<Longrightarrow> ledger n (retryAfterGeoFetch w x s) = ledger n s"
  by (cases x) (simp add: retryAfterGeoFetch_def Let_def ledger_ops)

lemma ledger_retries: "n \<noteq> 0 \<Longrightarrow> ledger n (fold (retryAfterGeoFetch w) xs s) = ledger n s"
  by (induction xs arbitrary: s) (simp_all add: ledger_retryAfterGeoFetch)

lemma ledger_restartStartedProfile:
  "ledger n (fst (restartStartedProfile w i m s)) =
     ledger n s + (if snd (restartStartedProfile w i m s) then of_bool (m = n) else 0)"
  by (simp add: restartStartedProfile_def Let_def ledger_ops)

lemma ledger_setSystemProxy:
  "ledger n (fst (setSystemProxy w b ch s)) =
     ledger n s + (if snd (setSystemProxy w b ch s) then of_bool (mc_restartSerial ch = n) else 0)"
  by (cases "m_running s") (simp_all add: setSystemProxy_def Let_def ledger_ops applySystemProxy_def)

lemma ledger_tunBlockedReason [ledger_ops]: "ledger n (fst (tunBlockedReason w s)) = ledger n s"
  by (simp add: tunBlockedReason_def Let_def ledger_ops)

lemma ledger_tunRestoreHoldReason [ledger_ops]: "ledger n (fst (tunRestoreHoldReason w s)) = ledger n s"
  using ledger_tunBlockedReason [of n w s]
  by (cases "tunBlockedReason w s") (simp add: tunRestoreHoldReason_def Let_def)

lemma ledger_tun_refused [ledger_ops]: "ledger n (fst (tun_refused w ch s)) = ledger n s"
  using ledger_tunBlockedReason [of n w s]
  by (cases "tunBlockedReason w s") (simp add: tun_refused_def Let_def)

lemma ledger_release_hold [ledger_ops]: "ledger n (release_hold b ch s) = ledger n s"
  by (simp add: release_hold_def Let_def ledger_ops)

lemma ledger_setTun:
  "ledger n (fst (setTun w b ch s)) =
     ledger n s + (if snd (setTun w b ch s) then of_bool (mc_restartSerial ch = n) else 0)"
proof -
  define t where "t = release_hold b ch s"
  obtain u refused where u: "(if b then tun_refused w ch t else (t, False)) = (u, refused)" by fastforce
  have "ledger n u = ledger n s"
    using u ledger_tun_refused [of n w ch t] ledger_release_hold [of n b ch s]
    by (cases b) (auto simp: t_def)
  then show ?thesis
    unfolding setTun_def Let_def t_def [symmetric] u by (simp add: ledger_ops t_def)
qed

lemma ledger_chooseRoute:
  "ledger n (fst (chooseRoute w i b m s)) =
     ledger n s + (if snd (chooseRoute w i b m s) then of_bool (m = n) else 0)"
  by (simp add: chooseRoute_def Let_def ledger_ops)

lemma ledger_guard_request:
  assumes "guard_request s = (t, r)"
  shows "ledger n t + count_list (kept (m_coreStartRequest s)) n =
      ledger n s + count_list (kept (m_coreStartRequest t)) n"
  using assms ledger_set_core [of n no_request s] by (auto simp: guard_request_def split: if_splits)

lemma ledger_restart_carried:
  assumes "n \<noteq> 0"
  shows "ledger n (let (s, r) = guard_request s in restartCoreForGuard w r s) = ledger n s"
proof -
  let ?c = "m_coreStartRequest s"
  have "ledger n (restartCoreForGuard w ?c (s\<lparr>m_coreStartRequest := no_request\<rparr>)) = ledger n s"
    if "0 \<le> profileId ?c"
    using ledger_set_core [of n no_request s] that by (auto simp: ledger_ops count_kept)
  moreover have "ledger n (restartCoreForGuard w (no_request\<lparr>profileId := i\<rparr>) s) = ledger n s" for i
    using assms by (simp add: ledger_restartCoreForGuard kept_def)
  ultimately show ?thesis by (simp add: guard_request_def)
qed

lemma ledger_onKillSwitchStateChanged: "n \<noteq> 0 \<Longrightarrow> ledger n (onKillSwitchStateChanged w s) = ledger n s"
  by (simp add: onKillSwitchStateChanged_def Let_def ledger_restart_carried [unfolded Let_def] ledger_ops)

lemma ledger_applyKillSwitch: "n \<noteq> 0 \<Longrightarrow> ledger n (applyKillSwitch w s) = ledger n s"
  by (simp add: applyKillSwitch_def Let_def ledger_onKillSwitchStateChanged ledger_ops)

lemma ledger_killSwitchSettled: "ledger n (killSwitchSettled w s) = ledger n s"
  using ledger_set_deferred [of n no_request s] by (auto simp: killSwitchSettled_def Let_def ledger_ops count_kept)

lemma ledger_restore_modes: 
  assumes "n \<noteq> 0"
  shows "ledger n (fst (restore_modes w s)) = ledger n s"
proof -
  have [simp]: "ledger n (fst (setTun w b ch t)) = ledger n t" if "mc_restartSerial ch = 0" for b ch t
    using that assms by (simp add: ledger_setTun)
  have [simp]: "ledger n (fst (setSystemProxy w b ch t)) = ledger n t" if "mc_restartSerial ch = 0" for b ch t
    using that assms by (simp add: ledger_setSystemProxy)
  show ?thesis by (simp add: restore_modes_def Let_def ledger_ops default_change_def)
qed

lemma ledger_dispatch_core_request:
  assumes "n \<noteq> 0"
  shows "ledger n (dispatch_core_request w why i s) = ledger n s"
  using ledger_set_core [of n no_request s] assms
  by (auto simp: dispatch_core_request_def Let_def ledger_ops count_kept)

lemma ledger_onCoreStarted:
  assumes "n \<noteq> 0"
  shows "ledger n (onCoreStarted w i s) = ledger n s"
proof -
  define t where "t = (if failedForPrivileges (kill_sw s) then applyKillSwitch w (s\<lparr>m_guardCoreRestart := None\<rparr>)
    else s\<lparr>m_guardCoreRestart := None\<rparr>)"
  have t: "ledger n t = ledger n s" using assms by (simp add: t_def ledger_applyKillSwitch ledger_ops)
  obtain u why where u: "restore_modes w t = (u, why)" by fastforce
  have "ledger n u = ledger n s" using ledger_restore_modes [OF assms, of w t] u t by simp
  moreover have "onCoreStarted w i s = signal StatusChanged (dispatch_core_request w why i u)"
    using u by (simp add: onCoreStarted_def Let_def t_def split: if_splits)
  ultimately show ?thesis using assms by (simp add: ledger_ops ledger_dispatch_core_request)
qed

lemma ledger_onCoreGaveUp: "ledger n (onCoreGaveUp reason s) = ledger n s"
  using ledger_set_core [of n no_request "s\<lparr>m_guardCoreRestart := None\<rparr>"]
  by (auto simp: onCoreGaveUp_def Let_def ledger_ops count_kept)

section \<open>The workers and the closures\<close>

lemma ledger_set_phase:
  "ledger n (set_phase p k s) + count_list (worker_serial (mu_starting s)) n =
     ledger n s + (if p = Leaving then 0 else of_bool (serial (sw_request k) = n))"
  by (simp add: set_phase_def ledger_def pending_serials_def worker_serial_def)

lemma ledger_phase_kept:
  assumes "mu_starting s = Some j" "sw_phase j \<noteq> Leaving" "p \<noteq> Leaving" "sw_request k = sw_request j"
  shows "ledger n (set_phase p k s) = ledger n s"
  using ledger_set_phase [of n p k s] assms by (auto simp: worker_serial_def split: if_splits)

lemma worker_kept [simp]:
  "mu_starting (signal x s) = mu_starting s"
  "mu_starting (post t s) = mu_starting s"
  by (simp_all add: signal_def post_def)

lemma stop_fields [simp]:
  "mu_starting (stop onUi opts s) = mu_starting s"
  by (simp add: stop_def begin_disconnect_def cancel_resume_def syncState_def signal_def set_sup_def post_def Let_def
      split: option.splits)

lemma load_fields [simp]: "mu_starting (fst (load w a r b s)) = mu_starting s"
  by (simp add: load_def load_error_def load_done_def HandleXrayGeoError_def applySystemProxy_def setRunning_def
      UpdateStartedId_def post_def signal_def Let_def)

lemma ledger_worker_enter: "ledger n (worker_enter s) = ledger n s"
proof (cases "mu_starting s")
  case (Some k)
  show ?thesis
  proof (cases "sw_phase k = Entering")
    case True
    define k' where "k' = k\<lparr>sw_guarded := spmode_vpn (cfg s) \<and> m_running s \<noteq> None, sw_switching := m_running s \<noteq> None\<rparr>"
    define t where "t = (if spmode_vpn (cfg s) \<and> m_running s \<noteq> None then signal (TransitionGuard True) s else s)"
    have t: "ledger n t = ledger n s" "mu_starting t = mu_starting s"
      by (simp_all add: t_def ledger_ops)
    have r: "sw_request k' = sw_request k" by (simp add: k'_def)
    let ?u = "stop False (stop_for_switch (interactive (sw_request k))) (t\<lparr>m_switchingProfile := True\<rparr>)"
    have "worker_enter s = (if m_running s \<noteq> None then set_phase WaitingForStop k' ?u else set_phase Loading k' t)"
      using Some True by (simp add: worker_enter_def Let_def k'_def t_def)
    then show ?thesis
      using Some True t r ledger_phase_kept [of ?u k WaitingForStop k' n] ledger_phase_kept [of t k Loading k' n]
      by (simp add: ledger_ops)
  qed (use Some in \<open>simp add: worker_enter_def\<close>)
qed (simp add: worker_enter_def)

lemma ledger_worker_resume: "ledger n (worker_resume s) = ledger n s"
  by (auto simp: worker_resume_def ledger_phase_kept ledger_ops split: option.splits)

lemma ledger_load_error: "ledger n (load_error w r err s) = ledger n s + of_bool (serial r = n)"
proof -
  define retry where "retry = (if geoAutoDownload (options s) then Some (profileId r, m_geoRetryToken s) else None)"
  obtain t geo where h: "HandleXrayGeoError w False err (interactive r) retry s = (t, geo)" by fastforce
  have "ledger n t = ledger n s" using ledger_HandleXrayGeoError [of n w False err "interactive r" retry s] h by simp
  then show ?thesis unfolding load_error_def retry_def [symmetric] Let_def h by (simp add: ledger_ops)
qed

lemma ledger_load: "ledger n (fst (load w a r b s)) = ledger n s + of_bool (serial r = n)"
  by (simp add: load_def load_done_def Let_def ledger_ops ledger_load_error)

lemma ledger_worker_load: "ledger n (worker_load w a s) = ledger n s"
proof (cases "mu_starting s")
  case (Some k)
  obtain t ok where l: "load w a (sw_request k) (sw_build k) s = (t, ok)" by fastforce
  then show ?thesis
    using Some ledger_load [of n w a "sw_request k" "sw_build k" s] load_fields [of w a "sw_request k" "sw_build k" s]
      ledger_set_phase [of n Leaving k "post (StartDone ok (sw_switching k)) t"]
    by (auto simp: worker_load_def worker_serial_def ledger_ops split: if_splits)
qed (simp add: worker_load_def)

lemma ledger_worker_leave: "ledger n (worker_leave s) = ledger n s"
  by (simp add: worker_leave_def Let_def ledger_def pending_serials_def worker_serial_def signal_def split: option.splits)

lemma ledger_stop_run: "ledger n (stop_run a s) = ledger n s"
  by (simp add: stop_run_def stop_rpc_def Let_def ledger_ops split: option.splits)

lemma ledger_run_ui:
  "n \<noteq> 0 \<Longrightarrow> ledger n (run_ui w t s) = ledger n s + count_list (task_serial t) n"
  by (cases t) (simp_all add: ledger_ops run_started_def start_done_def begin_disconnect_def teardown_def
      cancel_resume_def Let_def)

lemma ledger_ui_step:
  assumes "n \<noteq> 0"
  shows "ledger n (ui_step w i s) = ledger n s"
proof (cases "i < length (ui_queue s)")
  case True
  let ?t = "ui_queue s ! i" and ?r = "take i (ui_queue s) @ drop (Suc i) (ui_queue s)"
  have "concat (map task_serial (ui_queue s)) =
      concat (map task_serial (take i (ui_queue s))) @ task_serial ?t @ concat (map task_serial (drop (Suc i) (ui_queue s)))"
    by (subst id_take_nth_drop [OF True]) simp
  then have "ledger n (s\<lparr>ui_queue := ?r\<rparr>) + count_list (task_serial ?t) n = ledger n s"
    by (simp add: ledger_def pending_serials_def)
  then show ?thesis using assms by (simp add: ui_step_def ledger_run_ui)
qed (simp add: ui_step_def)

section \<open>Rankings and downloads\<close>

lemma ledger_resume_ranked:
  assumes "n \<noteq> 0"
  shows "ledger n (resume_ranked w k s) = ledger n s + (if rk_exhausted k then 0 else of_bool (serial (rk_request k) = n))"
  using assms by (simp add: resume_ranked_def Let_def ledger_ops)

lemma ledger_rank_early:
  assumes "n \<noteq> 0"
  shows "ledger n (rank_early w i s) = ledger n s"
proof (cases "i < length (rankings s)")
  case True
  let ?k = "rankings s ! i"
  let ?r = "(rankings s)[i := ?k\<lparr>rk_startedEarly := True\<rparr>]"
  have "concat (map ranking_serial (rankings s)) = concat (map ranking_serial (take i (rankings s))) @
      ranking_serial ?k @ concat (map ranking_serial (drop (Suc i) (rankings s)))"
    by (subst id_take_nth_drop [OF True]) simp
  moreover have "concat (map ranking_serial ?r) = concat (map ranking_serial (take i (rankings s))) @
      concat (map ranking_serial (drop (Suc i) (rankings s)))"
    using True by (simp add: upd_conv_take_nth_drop ranking_serial_def)
  ultimately have "ledger n (s\<lparr>rankings := ?r\<rparr>) + count_list (ranking_serial ?k) n = ledger n s"
    by (simp add: ledger_def pending_serials_def)
  then show ?thesis
    using assms by (auto simp: rank_early_def ledger_resume_ranked ranking_serial_def)
qed (simp add: rank_early_def)

lemma ledger_rank_end:
  assumes "n \<noteq> 0"
  shows "ledger n (rank_end w i s) = ledger n s"
proof (cases "i < length (rankings s)")
  case True
  let ?k = "rankings s ! i"
  let ?t = "s\<lparr>rankings := take i (rankings s) @ drop (Suc i) (rankings s), rankingInFlight := rankingInFlight s - 1\<rparr>"
  have "concat (map ranking_serial (rankings s)) = concat (map ranking_serial (take i (rankings s))) @
      ranking_serial ?k @ concat (map ranking_serial (drop (Suc i) (rankings s)))"
    by (subst id_take_nth_drop [OF True]) simp
  then have "ledger n ?t + count_list (ranking_serial ?k) n = ledger n s"
    by (simp add: ledger_def pending_serials_def)
  then show ?thesis
    using assms True by (auto simp: rank_end_def Let_def ledger_resume_ranked ranking_serial_def)
qed (simp add: rank_end_def)

lemma ledger_onPoolExhausted: "ledger n (onPoolExhausted w i s) = ledger n s"
  by (simp add: onPoolExhausted_def ledger_def pending_serials_def ranking_serial_def)

lemma ledger_geo_fetched: "n \<noteq> 0 \<Longrightarrow> ledger n (geo_fetched w err s) = ledger n s"
  by (simp add: geo_fetched_def Let_def ledger_retries ledger_ops)

section \<open>Runs\<close>

lemma ledger_step:
  assumes "n \<noteq> 0"
  shows "ledger n (conn_step s e) = ledger n s + count_list (issued_by s e) n"
proof -
  obtain w x where e: "e = (w, x)" by fastforce
  from assms show ?thesis unfolding e
    by (cases x) (simp_all add: ledger_ops ledger_restartStartedProfile ledger_applyPendingRestart count_kept
        ledger_setSystemProxy ledger_setTun ledger_chooseRoute disableKillSwitch_def ledger_applyKillSwitch
        ledger_onKillSwitchStateChanged ledger_killSwitchSettled ledger_onCoreStarted ledger_onCoreGaveUp
        ledger_rank_early ledger_rank_end ledger_onPoolExhausted ledger_geo_fetched ledger_worker_enter
        ledger_worker_resume ledger_worker_load ledger_worker_leave ledger_stop_run ledger_ui_step)
qed

lemma ledger_run:
  "n \<noteq> 0 \<Longrightarrow> ledger n (run conn_step s es) = ledger n s + count_list (issued s es) n"
  by (induction es arbitrary: s) (simp_all add: ledger_step)

lemma ledger_init: "ledger n (init_connection u opts c) = 0"
  by (simp add: ledger_def pending_serials_def worker_serial_def init_connection_def)

end
