(* ===== verification/ConnectionLife.thy ===== *)
theory ConnectionLife
  imports ConnectionSafety ConnectionProps
begin

text \<open>
  The invariant of \<open>ConnectionSafety\<close> over the rest of a start and a stop, its consequences for every run of
  the connection manager, and the progress of its workers.
\<close>

section \<open>The end of a start\<close>

lemma inv_worker_resume:
  assumes "conn_inv s"
  shows "conn_inv (worker_resume s)"
proof (cases "\<exists>k. mu_starting s = Some k \<and> sw_phase k = WaitingForStop \<and> mu_stopping s = None")
  case True
  then obtain k where k: "mu_starting s = Some k" "sw_phase k = WaitingForStop" "mu_stopping s = None" by blast
  then have "m_running s = None" using assms by (simp add: conn_inv_def exclusive_ok_def)
  then have "conn_inv (set_phase Loading k (s\<lparr>m_switchingProfile := False\<rparr>))"
    using assms k by (simp add: conn_parts set_phase_def)
  then show ?thesis using k by (simp add: worker_resume_def)
qed (use assms in \<open>auto simp: worker_resume_def split: option.splits\<close>)

lemma inv_leaving:
  assumes "conn_inv s" "mu_starting s = Some k" "sw_phase k = Loading"
  shows "conn_inv (set_phase Leaving k (post (StartDone ok sw) (s\<lparr>m_running := x\<rparr>)))"
proof -
  have "\<not> stop_due (mu_stopping s)" using assms by (auto simp: conn_inv_def exclusive_ok_def)
  then show ?thesis using assms by (simp add: conn_parts set_phase_def post_def)
qed

lemma inv_load_error:
  assumes "conn_inv s"
  shows "conn_inv (load_error w r err s)"
proof -
  define retry where "retry = (if geoAutoDownload (options s) then Some (profileId r, m_geoRetryToken s) else None)"
  obtain t geo where h: "HandleXrayGeoError w False err (interactive r) retry s = (t, geo)" by fastforce
  have "conn_inv t" using inv_HandleXrayGeoError [of w False err "interactive r" retry s] h assms by simp
  then show ?thesis unfolding load_error_def retry_def [symmetric] Let_def h by (simp add: inv_ops)
qed

text \<open>Whatever the load does, the invariant sees at most the running profile change.\<close>

lemma load_view:
  assumes "conn_inv s"
  shows "\<exists>u x. conn_inv u \<and> mu_starting u = mu_starting s \<and>
    conn_view (post t (fst (load w a r b s))) = conn_view (post t (u\<lparr>m_running := x\<rparr>)) \<and>
    conn_view (fst (load w a r b s)) = conn_view (u\<lparr>m_running := x\<rparr>)"
proof (cases "snd (load w a r b s)")
  case True
  then have "fst (load w a r b s) = load_done r b (signal (RpcStart (profileId r)) s)"
    by (auto simp: load_def Let_def split: if_splits)
  moreover have "conn_inv (signal (RpcStart (profileId r)) s)" using assms by (simp add: inv_ops)
  ultimately show ?thesis
    by (intro exI [of _ "signal (RpcStart (profileId r)) s"] exI [of _ "Some (profileId r)"])
      (simp add: conn_view_def load_done_def UpdateStartedId_def setRunning_def applySystemProxy_def post_def
        signal_def Let_def)
next
  case False
  then have "conn_inv (fst (load w a r b s))"
    using assms by (auto simp: load_def Let_def inv_ops inv_load_error split: if_splits)
  then show ?thesis
    by (intro exI [of _ "fst (load w a r b s)"] exI [of _ "m_running (fst (load w a r b s))"])
      (simp add: load_fields)
qed

lemma inv_worker_load:
  assumes "conn_inv s"
  shows "conn_inv (worker_load w a s)"
proof (cases "\<exists>k. mu_starting s = Some k \<and> sw_phase k = Loading")
  case True
  then obtain k where k: "mu_starting s = Some k" "sw_phase k = Loading" by blast
  obtain t ok where l: "load w a (sw_request k) (sw_build k) s = (t, ok)" by fastforce
  let ?d = "StartDone ok (sw_switching k)"
  from load_view [OF assms, of ?d w a "sw_request k" "sw_build k"] l obtain u x where
    u: "conn_inv u" "mu_starting u = Some k" "conn_view (post ?d t) = conn_view (post ?d (u\<lparr>m_running := x\<rparr>))"
    using k by auto
  have "conn_view (set_phase Leaving k (post ?d t)) = conn_view (set_phase Leaving k (post ?d (u\<lparr>m_running := x\<rparr>)))"
    using u(3) by (simp add: conn_view_def set_phase_def)
  then have "conn_inv (set_phase Leaving k (post ?d t))"
    using inv_leaving [OF u(1,2) k(2)] inv_view by blast
  then show ?thesis using k l by (simp add: worker_load_def)
qed (use assms in \<open>auto simp: worker_load_def split: option.splits\<close>)

lemma inv_worker_leave:
  assumes "conn_inv s"
  shows "conn_inv (worker_leave s)"
proof (cases "\<exists>k. mu_starting s = Some k \<and> sw_phase k = Leaving")
  case True
  then obtain k where k: "mu_starting s = Some k" "sw_phase k = Leaving" by blast
  have "conn_inv ((if sw_guarded k then signal (TransitionGuard False) s else s)\<lparr>mu_starting := None\<rparr>)"
    using assms k by (cases "sw_guarded k"; cases "announced (conn_outs s) = []") (simp_all add: conn_parts signal_def)
  then show ?thesis using k by (simp add: worker_leave_def Let_def)
qed (use assms in \<open>auto simp: worker_leave_def split: option.splits\<close>)

section \<open>The stop and the closures\<close>

lemma inv_stop_rpc [inv_ops]: "conn_inv (stop_rpc a opts s) \<longleftrightarrow> conn_inv s"
  by (simp add: stop_rpc_def Let_def inv_ops)

lemma stop_rpc_kept [simp]: "mu_stopping (stop_rpc a opts s) = mu_stopping s"
  by (simp add: stop_rpc_def Let_def signal_def post_def applySystemProxy_def)

lemma inv_stop_ran:
  assumes "conn_inv s" "mu_stopping s = Some t" "\<not> tw_ran t"
  shows "conn_inv (post (Teardown i m) (s\<lparr>m_running := None, mu_stopping := Some (t\<lparr>tw_ran := True\<rparr>)\<rparr>))"
  using assms by (auto simp: conn_parts post_def)

lemma inv_stop_run:
  assumes "conn_inv s"
  shows "conn_inv (stop_run a s)"
proof (cases "\<exists>t. mu_stopping s = Some t \<and> \<not> tw_ran t")
  case True
  then obtain t where t: "mu_stopping s = Some t" "\<not> tw_ran t" by blast
  define u where "u = (if so_manual (tw_options t) then UpdateStartedId NoProfileId (stop_rpc a (tw_options t) s)
    else stop_rpc a (tw_options t) s)"
  have u: "conn_inv u" "mu_stopping u = Some t"
    using assms t by (simp_all add: u_def inv_ops) (simp_all add: UpdateStartedId_def)
  have "conn_view (stop_run a s) = conn_view (post (Teardown (tw_id t) (so_manual (tw_options t)))
      (u\<lparr>m_running := None, mu_stopping := Some (t\<lparr>tw_ran := True\<rparr>)\<rparr>))"
    using t by (simp add: stop_run_def Let_def u_def [symmetric] conn_view_def setRunning_def post_def)
  then show ?thesis using inv_stop_ran [OF u(1,2) t(2)] inv_view by blast
qed (use assms in \<open>auto simp: stop_run_def split: option.splits\<close>)

lemma view_signal: "plain_out x \<Longrightarrow> conn_view (signal x s) = conn_view s"
  by (simp add: conn_view_def signal_def)

lemma start_done_life: "conn_view (start_done ok sw s) = conn_view (syncState (s\<lparr>m_profileConnecting := False\<rparr>))"
  by (simp add: start_done_def Let_def view_signal)

lemma inv_start_done:
  assumes "conn_inv s" "ui_queue s = xs @ StartDone ok sw # ys"
  shows "conn_inv (start_done ok sw (s\<lparr>ui_queue := xs @ ys\<rparr>))"
proof -
  let ?t = "s\<lparr>ui_queue := xs @ ys, m_profileConnecting := False\<rparr>"
  have "told_ok ?t = told_ok s" "exclusive_ok ?t = exclusive_ok s" "guard_ok ?t = guard_ok s"
    by (simp_all add: told_ok_def exclusive_ok_def guard_ok_def guarding_def)
  moreover have "connecting_ok ?t" by (simp add: connecting_ok_def)
  moreover have "disconnecting_ok ?t" using assms by (simp add: conn_inv_def disconnecting_ok_def)
  ultimately have "conn_inv (syncState ?t)" using assms(1) by (intro inv_synced) (simp_all add: conn_inv_def)
  then show ?thesis unfolding inv_view [OF start_done_life] by simp
qed

lemma filter_timed: "list_all timed xs \<Longrightarrow> filter stop_task xs = xs \<and> BeginDisconnect \<notin> set xs"
proof (induction xs)
  case (Cons x xs)
  then show ?case by (cases x) auto
qed simp

lemma inv_begun:
  assumes "conn_inv s" "ui_queue s = xs @ BeginDisconnect # ys" "list_all timed xs"
  shows "conn_inv (begin_disconnect (s\<lparr>ui_queue := xs @ ys\<rparr>))"
proof -
  have ts: "stop_tasks s = xs @ BeginDisconnect # filter stop_task ys"
    using assms filter_timed [of xs] by simp
  have st: "stop_stage (mu_stopping s) (stop_tasks s)" using assms(1) by (simp add: conn_inv_def disconnecting_ok_def)
  then have ne: "mu_stopping s \<noteq> None" unfolding ts by (cases "mu_stopping s") simp_all
  then obtain t where t: "mu_stopping s = Some t" by blast
  have xs: "xs = []" using st ts t filter_timed [OF assms(3)] by (cases xs) (auto split: if_splits)
  let ?t = "s\<lparr>ui_queue := xs @ ys\<rparr>"
  have "connecting_ok ?t = connecting_ok s" "announced_ok ?t = announced_ok s" "told_ok ?t = told_ok s"
    "exclusive_ok ?t = exclusive_ok s" "guard_ok ?t = guard_ok s"
    using xs assms(2) by (simp_all add: told_ok_def exclusive_ok_def guard_ok_def guarding_def connecting_ok_def
        announced_ok_def connectionState_def)
  moreover have "disconnecting_ok ?t" using assms(1) st ts t xs by (auto simp: conn_inv_def disconnecting_ok_def)
  ultimately have "conn_inv ?t" using assms(1) by (simp add: conn_inv_def)
  then show ?thesis using ne by (intro inv_begin_disconnect) simp_all
qed

lemma view_syncState:
  assumes "conn_view s = conn_view t"
  shows "conn_view (syncState s) = conn_view (syncState t)"
proof -
  have e: "connectionState s = connectionState t" "m_lastConnectionState s = m_lastConnectionState t"
    using assms by (simp_all add: conn_view_def connectionState_def)
  show ?thesis
  proof (cases "connectionState t = m_lastConnectionState t")
    case True
    then show ?thesis using assms e by (simp add: syncState_def)
  next
    case False
    have "conn_view (signal (ConnectionStateChanged c) (s\<lparr>m_lastConnectionState := c, m_tunBlockedAtMs := 0\<rparr>)) =
      conn_view (signal (ConnectionStateChanged c) (t\<lparr>m_lastConnectionState := c, m_tunBlockedAtMs := 0\<rparr>))" for c
      using assms by (simp add: conn_view_def signal_def)
    then show ?thesis using False e by (simp add: syncState_def Let_def)
  qed
qed

lemma view_released:
  assumes "conn_view s = conn_view t"
  shows "conn_view (s\<lparr>mu_stopping := None\<rparr>) = conn_view (t\<lparr>mu_stopping := None\<rparr>)"
  using assms by (simp add: conn_view_def)

lemma view_clearRestartNeeded: "conn_view (clearRestartNeeded s) = conn_view s"
  by (simp add: clearRestartNeeded_def conn_view_def signal_def)

lemma teardown_life:
  "conn_view (teardown i s) = conn_view ((syncState (s\<lparr>m_profileDisconnecting := False\<rparr>))\<lparr>mu_stopping := None\<rparr>)"
proof -
  define u where "u = clearRestartNeeded ((if \<not> m_switchingProfile s then signal (Marker MarkStopped) s else s)
    \<lparr>m_profileDisconnecting := False\<rparr>)"
  define v where "v = signal (ProfileRowsChanged [i]) (signal StatusChanged (syncState u))"
  have "conn_view u = conn_view ((if \<not> m_switchingProfile s then signal (Marker MarkStopped) s else s)
    \<lparr>m_profileDisconnecting := False\<rparr>)"
    unfolding u_def by (rule view_clearRestartNeeded)
  also have "\<dots> = conn_view (s\<lparr>m_profileDisconnecting := False\<rparr>)"
    by (simp add: conn_view_def signal_def)
  finally have "conn_view (syncState u) = conn_view (syncState (s\<lparr>m_profileDisconnecting := False\<rparr>))"
    by (rule view_syncState)
  then have "conn_view v = conn_view (syncState (s\<lparr>m_profileDisconnecting := False\<rparr>))"
    by (simp add: v_def view_signal)
  moreover have "teardown i s = signal (StopFinished i) (v\<lparr>mu_stopping := None\<rparr>)"
    by (simp add: teardown_def Let_def u_def v_def)
  ultimately show ?thesis by (simp add: view_signal view_released [of v])
qed

lemma inv_torn_down:
  assumes "conn_inv s" "ui_queue s = xs @ Teardown i m # ys" "list_all timed xs"
  shows "conn_inv (teardown i (s\<lparr>ui_queue := xs @ ys\<rparr>))"
proof -
  have ts: "stop_tasks s = xs @ Teardown i m # filter stop_task ys"
    using assms filter_timed [of xs] by simp
  have st: "stop_stage (mu_stopping s) (stop_tasks s)" using assms(1) by (simp add: conn_inv_def disconnecting_ok_def)
  then obtain t where t: "mu_stopping s = Some t" "tw_ran t"
    using ts by (cases "mu_stopping s") (auto split: if_splits simp: append_eq_Cons_conv)
  then have e: "xs = [] \<and> filter stop_task ys = []"
    using st ts filter_timed [OF assms(3)] by (auto simp: append_eq_Cons_conv)
  let ?t = "s\<lparr>ui_queue := xs @ ys, m_profileDisconnecting := False\<rparr>"
  have "told_ok ?t = told_ok s" "exclusive_ok ?t = exclusive_ok s" "guard_ok ?t = guard_ok s"
    "connecting_ok ?t = connecting_ok s"
    using e assms(2) by (simp_all add: told_ok_def exclusive_ok_def guard_ok_def guarding_def connecting_ok_def)
  then have i: "told_ok ?t" "exclusive_ok ?t" "guard_ok ?t" "connecting_ok ?t" using assms(1) by (simp_all add: conn_inv_def)
  let ?u = "(syncState ?t)\<lparr>mu_stopping := None\<rparr>"
  have "told_ok ?u" using told_syncState [OF i(1)] by (simp add: told_ok_def)
  moreover have "connecting_ok ?u" "guard_ok ?u"
    using i(3,4) by (simp_all add: connecting_ok_def guard_ok_def guarding_def)
  moreover have "exclusive_ok ?u" using i(2) t by (auto simp: exclusive_ok_def)
  moreover have "disconnecting_ok ?u" using e by (simp add: disconnecting_ok_def)
  moreover have "announced_ok ?u" by (simp add: announced_ok_def connectionState_def)
  ultimately have "conn_inv ?u" by (simp add: conn_inv_def)
  then show ?thesis unfolding inv_view [OF teardown_life] by simp
qed

lemma inv_taken:
  assumes "ui_queue s = xs @ t # ys" "\<not> start_done_task t" "\<not> stop_task t"
  shows "conn_inv (s\<lparr>ui_queue := xs @ ys\<rparr>) \<longleftrightarrow> conn_inv s"
  by (rule inv_view) (use assms in \<open>simp add: conn_view_def\<close>)

lemma inv_run_started [inv_ops]: "conn_inv (run_started r e s) \<longleftrightarrow> conn_inv s"
  by (simp add: run_started_def Let_def inv_ops)

lemma inv_run_plain:
  "conn_inv s \<Longrightarrow> \<not> start_done_task t \<Longrightarrow> \<not> stop_task t \<Longrightarrow> conn_inv (run_ui w t s)"
  by (cases t) (simp_all add: inv_ops inv_start)

lemma inv_ui_step:
  assumes "conn_inv s"
  shows "conn_inv (ui_step w n s)"
proof (cases "n < length (ui_queue s) \<and> list_all timed (take n (ui_queue s))")
  case True
  let ?xs = "take n (ui_queue s)" and ?ys = "drop (Suc n) (ui_queue s)"
  define t where "t = ui_queue s ! n"
  have q: "ui_queue s = ?xs @ t # ?ys" using True by (simp add: t_def id_take_nth_drop)
  have e: "ui_step w n s = run_ui w t (s\<lparr>ui_queue := ?xs @ ?ys\<rparr>)" using True by (simp add: ui_step_def t_def)
  show ?thesis
  proof (cases "start_done_task t \<or> stop_task t")
    case False
    then show ?thesis unfolding e using inv_taken [OF q] assms by (intro inv_run_plain) simp_all
  next
    case life: True
    then consider ok sw where "t = StartDone ok sw" | "t = BeginDisconnect" | i m where "t = Teardown i m"
      by (cases t) auto
    then show ?thesis
    proof cases
      case 1
      then show ?thesis unfolding e using inv_start_done [OF assms, of ?xs ok sw ?ys] q by simp
    next
      case 2
      then show ?thesis unfolding e using inv_begun [OF assms, of ?xs ?ys] q True by simp
    next
      case 3
      then show ?thesis unfolding e using inv_torn_down [OF assms, of ?xs i m ?ys] q True by simp
    qed
  qed
qed (use assms in \<open>auto simp: ui_step_def\<close>)

section \<open>Every run\<close>

lemma inv_resume_ranked: "conn_inv s \<Longrightarrow> conn_inv (resume_ranked w k s)"
  by (simp add: resume_ranked_def Let_def inv_startRanked)

lemma inv_conn_step:
  assumes "conn_inv s"
  shows "conn_inv (conn_step s e)"
proof -
  obtain w x where e: "e = (w, x)" by fastforce
  from assms show ?thesis unfolding e
    by (cases x)
      (simp_all add: inv_ops inv_start inv_stop inv_restartStartedProfile inv_applyPendingRestart inv_setSystemProxy
        inv_setTun inv_chooseRoute disableKillSwitch_def inv_killSwitchSettled inv_onCoreStarted inv_startRanked
        rank_early_def rank_end_def onPoolExhausted_def geo_fetched_def inv_resume_ranked inv_retries Let_def
        inv_worker_enter inv_worker_resume inv_worker_load inv_worker_leave inv_stop_run inv_ui_step)
qed

lemma inv_init: "conn_inv (init_connection u opts c)"
  by (simp add: conn_parts init_connection_def)

interpretation connection: invariant_system "init_connection u opts c" conn_step conn_inv
  by unfold_locales (auto simp: inv_init inv_conn_step)

section \<open>Progress\<close>

text \<open>
  The steps of the workers and of the main thread's queue, with fixed answers \<open>a\<close> and \<open>b\<close> of the core.
  \<open>reaches\<close> composes such steps.
\<close>

definition own_events :: "world \<Rightarrow> load_answer \<Rightarrow> stop_answer \<Rightarrow> (world \<times> conn_event) set" where
  "own_events w a b = {w} \<times> {WorkerEnter, WorkerResume, WorkerLoad a, WorkerLeave, StopRun b, Ui 0}"

definition reaches ::
  "world \<Rightarrow> load_answer \<Rightarrow> stop_answer \<Rightarrow> connection \<Rightarrow> connection \<Rightarrow> bool" where
  "reaches w a b s t \<longleftrightarrow> (\<exists>es. set es \<subseteq> own_events w a b \<and> run conn_step s es = t)"

lemma reaches_refl: "reaches w a b s s"
  unfolding reaches_def by (rule exI [of _ "[]"]) simp

lemma reaches_trans: "reaches w a b s t \<Longrightarrow> reaches w a b t u \<Longrightarrow> reaches w a b s u"
  unfolding reaches_def by (metis run_append set_append Un_least)

lemma reaches_step: "(w, e) \<in> own_events w a b \<Longrightarrow> reaches w a b s (conn_step s (w, e))"
  unfolding reaches_def by (rule exI [of _ "[(w, e)]"]) simp

lemma reaches_inv: "reaches w a b s t \<Longrightarrow> conn_inv s \<Longrightarrow> conn_inv t"
  unfolding reaches_def using connection.inv_run_from by blast

lemma ui_kept:
  assumes "\<not> w_retryOffer w"
  shows "ui_queue (run_ui w t s) = ui_queue s \<and> mu_starting (run_ui w t s) = mu_starting s \<and>
    (mu_stopping (run_ui w t s) = mu_stopping s \<or> mu_stopping (run_ui w t s) = None)"
  using assms
  by (cases t) (simp_all add: finish_def signal_def run_started_def clearRestartNeeded_def Let_def start_done_def
      begin_disconnect_def teardown_def cancel_resume_def set_sup_def assetGeoFetchUnattended_def)

lemma drain:
  assumes "\<not> w_retryOffer w"
  shows "\<exists>t. reaches w a b s t \<and> ui_queue t = [] \<and> mu_starting t = mu_starting s \<and>
    (mu_stopping t = mu_stopping s \<or> mu_stopping t = None)"
proof (induction "length (ui_queue s)" arbitrary: s)
  case 0
  then show ?case using reaches_refl by fastforce
next
  case (Suc n)
  then obtain x xs where q: "ui_queue s = x # xs" by (cases "ui_queue s") auto
  let ?u = "conn_step s (w, Ui 0)"
  have "?u = run_ui w x (s\<lparr>ui_queue := xs\<rparr>)" using q by (simp add: ui_step_def)
  then have u: "ui_queue ?u = xs" "mu_starting ?u = mu_starting s" "mu_stopping ?u = mu_stopping s \<or> mu_stopping ?u = None"
    using ui_kept [OF assms, of x "s\<lparr>ui_queue := xs\<rparr>"] by simp_all
  then obtain t where "reaches w a b ?u t" "ui_queue t = []" "mu_starting t = mu_starting ?u"
    "mu_stopping t = mu_stopping ?u \<or> mu_stopping t = None"
    using Suc.hyps(1) [of ?u] Suc.hyps(2) q by auto
  moreover have "reaches w a b s ?u" by (rule reaches_step) (simp add: own_events_def)
  ultimately show ?case using u reaches_trans by metis
qed

lemma stop_run_stage: 
  "mu_starting (stop_run b s) = mu_starting s \<and> \<not> stop_due (mu_stopping (stop_run b s))"
  by (cases "mu_stopping s")
    (simp_all add: stop_run_def stop_rpc_def Let_def signal_def post_def applySystemProxy_def UpdateStartedId_def
      setRunning_def)

lemma settle_stop:
  assumes "\<not> w_retryOffer w" "conn_inv s"
  shows "\<exists>t. reaches w a b s t \<and> ui_queue t = [] \<and> mu_starting t = mu_starting s \<and> mu_stopping t = None"
proof -
  let ?u = "conn_step s (w, StopRun b)"
  obtain t where t: "reaches w a b ?u t" "ui_queue t = []" "mu_starting t = mu_starting ?u"
    "mu_stopping t = mu_stopping ?u \<or> mu_stopping t = None"
    using drain [OF assms(1)] by blast
  have r: "reaches w a b s ?u" by (rule reaches_step) (simp add: own_events_def)
  have "stop_stage (mu_stopping t) []"
    using reaches_inv [OF reaches_trans [OF r t(1)] assms(2)] t(2) by (simp add: conn_inv_def disconnecting_ok_def)
  moreover have "\<not> stop_due (mu_stopping t)" using t(4) stop_run_stage [of b s] by auto
  ultimately have "mu_stopping t = None" by (cases "mu_stopping t") (auto split: if_splits)
  then show ?thesis using t reaches_trans [OF r t(1)] stop_run_stage [of b s] by auto
qed

text \<open>From a state without a stop and without closures, phase by phase, backwards.\<close>

definition settles :: "world \<Rightarrow> load_answer \<Rightarrow> stop_answer \<Rightarrow> connection \<Rightarrow> bool" where
  "settles w a b s \<longleftrightarrow>
     (\<exists>t. reaches w a b s t \<and> mu_starting t = None \<and> mu_stopping t = None \<and> ui_queue t = [])"

lemma settles_via: "reaches w a b s t \<Longrightarrow> settles w a b t \<Longrightarrow> settles w a b s"
  unfolding settles_def using reaches_trans by blast

lemma settles_by: "(w, e) \<in> own_events w a b \<Longrightarrow> settles w a b (conn_step s (w, e)) \<Longrightarrow> settles w a b s"
  using reaches_step settles_via by blast

lemma settles_leaving:
  assumes "\<not> w_retryOffer w" "conn_inv s" "case mu_starting s of None \<Rightarrow> True | Some k \<Rightarrow> sw_phase k = Leaving"
  shows "settles w a b s"
proof -
  have n: "mu_starting (worker_leave s) = None"
    using assms(3) by (cases "mu_starting s") (simp_all add: worker_leave_def Let_def)
  have "settles w a b (worker_leave s)"
    using settle_stop [OF assms(1) inv_worker_leave [OF assms(2)], of a b] n by (auto simp: settles_def)
  then show ?thesis using settles_by [of w WorkerLeave a b s] by (simp add: own_events_def)
qed

lemma settles_loading:
  assumes "\<not> w_retryOffer w" "conn_inv s" "in_phase Loading s"
  shows "settles w a b s"
proof -
  obtain k where k: "mu_starting s = Some k" "sw_phase k = Loading" using assms(3) by (cases "mu_starting s") auto
  have "case mu_starting (worker_load w a s) of None \<Rightarrow> True | Some k \<Rightarrow> sw_phase k = Leaving"
    using k by (cases "load w a (sw_request k) (sw_build k) s") (simp add: worker_load_def set_phase_def)
  then have "settles w a b (worker_load w a s)"
    by (rule settles_leaving [OF assms(1) inv_worker_load [OF assms(2)]])
  then show ?thesis using settles_by [of w "WorkerLoad a" a b s] by (simp add: own_events_def)
qed

lemma settles_waiting:
  assumes "\<not> w_retryOffer w" "conn_inv s" "in_phase WaitingForStop s"
  shows "settles w a b s"
proof -
  obtain t where t: "reaches w a b s t" "mu_starting t = mu_starting s" "mu_stopping t = None"
    using settle_stop [OF assms(1,2)] by blast
  have "in_phase Loading (worker_resume t)"
    using assms(3) t(2,3) by (cases "mu_starting s") (auto simp: worker_resume_def set_phase_def)
  moreover have "conn_inv (worker_resume t)" using inv_worker_resume reaches_inv [OF t(1) assms(2)] by blast
  ultimately have "settles w a b (worker_resume t)" using settles_loading [OF assms(1)] by blast
  then have "settles w a b t" using settles_by [of w WorkerResume a b t] by (simp add: own_events_def)
  then show ?thesis by (rule settles_via [OF t(1)])
qed

lemma settles_entering:
  assumes "\<not> w_retryOffer w" "conn_inv s" "in_phase Entering s"
  shows "settles w a b s"
proof -
  have "in_phase Loading (worker_enter s) \<or> in_phase WaitingForStop (worker_enter s)"
    using assms(3) by (cases "mu_starting s") (auto simp: worker_enter_def set_phase_def Let_def)
  then have "settles w a b (worker_enter s)"
    using settles_loading settles_waiting assms(1) inv_worker_enter [OF assms(2)] by blast
  then show ?thesis using settles_by [of w WorkerEnter a b s] by (simp add: own_events_def)
qed

lemma settles_inv:
  assumes "\<not> w_retryOffer w" "conn_inv s"
  shows "settles w a b s"
proof (cases "mu_starting s")
  case None
  then show ?thesis using settles_leaving [OF assms] by simp
next
  case (Some k)
  then show ?thesis
    using settles_leaving [OF assms] settles_loading [OF assms] settles_waiting [OF assms] settles_entering [OF assms]
    by (cases "sw_phase k") auto
qed

section \<open>A sample run\<close>

text \<open>A connected core, no kill switch and two stored profiles that build; used to evaluate runs.\<close>

definition sample_options :: RuntimeOptions where
  "sample_options = \<lparr>headless = True, systemProxy = False, tunRequired = True, blockingPrivilegeCheck = False,
     geoAutoDownload = True, exitCountryLookup = False\<rparr>"

definition sample_cfg :: mode_settings where
  "sample_cfg = \<lparr>spmode_vpn = True, spmode_system_proxy = False, remember_id = -1, remember_enable = False,
     remember_tun = False, remember_system_proxy = False, flag_restart_tun_on = False, current_route_id = 0,
     disable_privilege_req = False, disable_mixed_inbound = False, reset_proxy_on_disable_sp = False,
     core_dns_in_port = 0, internal_proxy_port = 0, internal_proxy_auth = [], exit_country_lookup = False\<rparr>"

definition sample_build :: build where
  "sample_build = \<lparr>b_error = [], b_checks = [], b_tun = True, b_extraCore = [], b_proxyPort = 2080, b_proxyAuth = [],
     b_involved = [1], b_routeId = 0, b_exitIsEndpoint = False\<rparr>"

definition sample_world :: world where
  "sample_world = \<lparr>w_gid = (\<lambda>i. if i = 1 \<or> i = 2 then Some 0 else None), w_group = (\<lambda>g. Some (False, -1)),
     w_hasRoute = (\<lambda>i. True), w_build = (\<lambda>i. sample_build), w_needsRanking = (\<lambda>i. False), w_now = 1000,
     w_conflict = (\<lambda>c p. []), w_otherHeadless = None, w_caps = None, w_knownAdmin = Some True, w_isAdmin = True,
     w_grant = False, w_retryOffer = False, w_resetOffer = False, w_geoip = True, w_geosite = True,
     w_unattendedFetch = False, w_geoFetchStarts = False\<rparr>"

definition sample_supervisor :: supervisor where
  "sample_supervisor = (init_sup (init_ks Linux sample_settings) False False (-1))\<lparr>core_running := True\<rparr>"

definition sample_connection :: connection where
  "sample_connection = init_connection sample_supervisor sample_options sample_cfg"

definition loaded :: load_answer where
  "loaded = \<lparr>la_permitted = True, la_rpcOK = True, la_error = [], la_otpError = []\<rparr>"

definition stopped :: stop_answer where
  "stopped = \<lparr>sa_testing = False, sa_rpcOK = True, sa_error = []\<rparr>"

abbreviation request :: "int \<Rightarrow> nat \<Rightarrow> StartRequest" where
  "request i n \<equiv> \<lparr>profileId = i, interactive = False, serial = n\<rparr>"

abbreviation sample_run :: "conn_event list \<Rightarrow> connection" where
  "sample_run es \<equiv> run conn_step sample_connection (map (Pair sample_world) es)"

definition first_start :: connection where
  "first_start = sample_run [Start (request 1 7), WorkerEnter, WorkerLoad loaded, WorkerLeave]"

lemmas conn_eval = sample_connection_def sample_supervisor_def sample_cfg_def sample_options_def
  sample_settings_def init_sup_def init_ks_def init_connection_def loaded_def stopped_def start_def allowsStart_def
  guardRestartPending_def rankBeforeStart_def start_built_def start_locked_def spawn_start_def signal_def post_def
  syncState_def connectionState_def awaitingCoreStarted_def worker_enter_def worker_load_def worker_leave_def
  set_phase_def load_def load_done_def UpdateStartedId_def setRunning_def SetRunningProfiles_def SetRunningRoute_def
  run_started_def start_done_def clearRestartNeeded_def finish_def ui_step_def

lemma sample_world_eval [simp]:
  "w_gid sample_world 1 = Some 0" "w_gid sample_world 2 = Some 0" "w_group sample_world g = Some (False, -1)"
  "w_build sample_world i = sample_build" "w_needsRanking sample_world i = False" "w_now sample_world = 1000"
  "w_retryOffer sample_world = False"
  "b_error sample_build = []" "b_checks sample_build = []" "b_tun sample_build = True" "b_extraCore sample_build = []"
  "b_involved sample_build = [1]" "b_exitIsEndpoint sample_build = False"
  by (simp_all add: sample_world_def sample_build_def)

lemma first_start_eval:
  "ui_queue first_start = [RunStarted (request 1 7) False, StartDone True False]"
  "mu_starting first_start = None" "mu_stopping first_start = None" "m_running first_start = Some 1"
  "m_profileConnecting first_start = True" "m_profileDisconnecting first_start = False"
  "m_lastConnectionState first_start = Connecting"
  "finished_serials (conn_outs first_start) = []"
  by (simp_all add: first_start_def conn_eval)

lemmas conn_eval_stop = stop_def stop_for_switch_def stop_run_def stop_rpc_def ClearRunningProfiles_def
  begin_disconnect_def teardown_def worker_resume_def NoProfileId_def

section \<open>What holds in every run\<close>

text \<open>
  C12. The state a view is told is the truth once things settle: when no worker runs and no closure is
  posted, the manager is neither connecting nor stopping, and the last \<^verbatim>\<open>connectionStateChanged\<close> (or the
  initial state) names the actual state, running or idle. Two announcements in a row never agree.
\<close>

theorem connection_state_settles:
  assumes "mu_starting s = None" "mu_stopping s = None" "ui_queue s = []"
    and "s = run conn_step (init_connection u opts c) es"
  shows "connectionState s = (if m_running s = None then Idle else Running) \<and>
    last (Idle # announced (conn_outs s)) = connectionState s \<and> distinct_adj (Idle # announced (conn_outs s))"
proof -
  have "conn_inv s" using connection.inv_run assms(4) by simp
  with assms show ?thesis by (simp add: conn_parts)
qed

theorem connection_state_settles_witness:
  "let s = sample_run [Start (request 1 7), WorkerEnter, WorkerLoad loaded, WorkerLeave, Ui 0, Ui 0]
   in connectionState s = Running \<and> last (Idle # announced (conn_outs s)) = Running"
proof -
  let ?s = "sample_run [Start (request 1 7), WorkerEnter, WorkerLoad loaded, WorkerLeave, Ui 0, Ui 0]"
  have q: "mu_starting ?s = None" "mu_stopping ?s = None" "ui_queue ?s = []" "m_running ?s = Some 1"
    by (simp_all add: conn_eval)
  have "?s = run conn_step (init_connection sample_supervisor sample_options sample_cfg) (map (Pair sample_world)
      [Start (request 1 7), WorkerEnter, WorkerLoad loaded, WorkerLeave, Ui 0, Ui 0])"
    by (simp only: sample_connection_def)
  from connection_state_settles [OF q(1,2,3) this] show ?thesis
    unfolding Let_def q(4) by (simp only: option.distinct if_False simp_thms)
qed



text \<open>
  C34. The transition guard, which blocks all traffic while a Tun profile is switched, is always handed
  back: in every run the calls that set it alternate on and off, and it is off unless the start worker
  that installed it still runs.
\<close>

theorem transition_guard_released:
  "let s = run conn_step (init_connection u opts c) es; calls = guard_calls (conn_outs s)
   in paired (calls @ (if guarding s then [False] else [])) \<and> (mu_starting s = None \<longrightarrow> paired calls)"
proof -
  have "conn_inv (run conn_step (init_connection u opts c) es)" by (rule connection.inv_run)
  then show ?thesis by (auto simp: Let_def conn_inv_def guard_ok_def guarding_def)
qed

theorem transition_guard_released_witness:
  "let s = sample_run [Start (request 1 7), WorkerEnter, WorkerLoad loaded, WorkerLeave, Ui 0, Ui 0,
             Start (request 2 8), WorkerEnter, StopRun stopped, Ui 0, Ui 0, WorkerResume, WorkerLoad loaded, WorkerLeave]
   in guard_calls (conn_outs s) = [True, False] \<and> paired (guard_calls (conn_outs s))"
proof -
  let ?s = "sample_run [Start (request 1 7), WorkerEnter, WorkerLoad loaded, WorkerLeave, Ui 0, Ui 0,
             Start (request 2 8), WorkerEnter, StopRun stopped, Ui 0, Ui 0, WorkerResume, WorkerLoad loaded, WorkerLeave]"
  have "mu_starting ?s = None" "guard_calls (conn_outs ?s) = [True, False]" by (simp_all add: conn_eval conn_eval_stop)
  with transition_guard_released [of sample_supervisor sample_options sample_cfg] show ?thesis
    unfolding sample_connection_def Let_def by blast
qed

text \<open>
  C11. The two locks cannot deadlock: from every reachable state the workers and the closures already posted
  can run to their end, whatever the core answers, after which both mutexes are free and no closure is
  left. (A dialog that offers to start again is declined.)
\<close>

theorem workers_settle:
  assumes "\<not> w_retryOffer w"
  shows "\<exists>es. set es \<subseteq> own_events w a b \<and>
    (let s = run conn_step (run conn_step (init_connection u opts c) past) es
     in mu_starting s = None \<and> mu_stopping s = None \<and> ui_queue s = [])"
proof -
  have "conn_inv (run conn_step (init_connection u opts c) past)" by (rule connection.inv_run)
  from settles_inv [OF assms this, of a b] show ?thesis unfolding settles_def reaches_def Let_def by blast
qed

theorem workers_settle_witness:
  "\<exists>es. set es \<subseteq> own_events sample_world loaded stopped \<and>
    (let s = run conn_step (sample_run [Start (request 1 7)]) es
     in mu_starting s = None \<and> mu_stopping s = None \<and> ui_queue s = [])"
  unfolding sample_connection_def by (rule workers_settle) simp

end
