(* ===== verification/ConnectionAnswers.thy ===== *)
theory ConnectionAnswers
  imports ConnectionLife
begin

text \<open>
  Every request to start a profile is answered: the ledger of \<open>ConnectionProps\<close> says that a request is never
  lost nor answered twice, and here every place that can hold one is emptied by the report it waits for.
\<close>

section \<open>What a start leaves alone\<close>

definition waiting :: "connection \<Rightarrow> StartRequest \<times> ranking list \<times> kswitch" where
  "waiting s = (m_killSwitchDeferredStart s, rankings s, kill_sw s)"

named_theorems waiting_ops

lemma waiting_small [waiting_ops]:
  "waiting (signal x s) = waiting s" "waiting (post t s) = waiting s"
  "waiting (finish r outcome err s) = waiting s" "waiting (failStart r outcome err s) = waiting s"
  "waiting (deferStartToCore r s) = waiting s" "waiting (syncState s) = waiting s"
  by (simp_all add: waiting_def signal_def post_def finish_def failStart_def deferStartToCore_def syncState_def Let_def)

lemma waiting_fields [waiting_ops]:
  "waiting (s\<lparr>m_geoRetryToken := t\<rparr>) = waiting s" "waiting (s\<lparr>m_lastProfileId := i\<rparr>) = waiting s"
  "waiting (s\<lparr>m_guardCoreRestart := g\<rparr>) = waiting s" "waiting (s\<lparr>rankedFor := i\<rparr>) = waiting s"
  "waiting (s\<lparr>mu_starting := k\<rparr>) = waiting s" "waiting (s\<lparr>m_profileConnecting := b\<rparr>) = waiting s"
  by (simp_all add: waiting_def)

lemma ksw_kept [simp]:
  "ksw (fst (setStartWhenUp p u)) = ksw u" "ksw (restartForGuard u) = ksw u"
  "ksw (fst (restartNotListening p u)) = ksw u"
  by (simp_all add: setStartWhenUp_def restartForGuard_def restartNotListening_def postProcessRestart_def
      beginRestart_def runOnCores_def set_state_def emit_def Let_def)

lemma waiting_set_sup [waiting_ops]: "ksw u = kill_sw s \<Longrightarrow> waiting (set_sup u s) = waiting s"
  unfolding waiting_def set_sup_def by simp

lemma sup_deferStartToCore [simp]: "sup (deferStartToCore r s) = sup s"
  by (simp add: deferStartToCore_def finish_def signal_def Let_def)

lemma waiting_restartCoreForGuard [waiting_ops]: "waiting (restartCoreForGuard w r s) = waiting s"
proof (cases "setStartWhenUp (profileId r) (sup s)")
  case (Pair u b)
  then have u: "ksw u = kill_sw s" using ksw_kept(1) [of "profileId r" "sup s"] by simp
  define t where "t = deferStartToCore r (set_sup u s)"
  have t: "waiting t = waiting s" using u by (simp add: t_def waiting_ops)
  have t': "sup t = u" by (simp add: t_def set_sup_def)
  have "waiting (set_sup (restartForGuard (sup t)) (t\<lparr>m_guardCoreRestart := Some (w_now w)\<rparr>)) = waiting t"
    by (simp add: waiting_ops)
  then show ?thesis using Pair u t t'
    by (simp add: restartCoreForGuard_def Let_def waiting_ops t_def [symmetric])
qed

lemma waiting_HandleXrayGeoError [waiting_ops]: "waiting (fst (HandleXrayGeoError w ui e p i s)) = waiting s"
  by (simp add: HandleXrayGeoError_def Let_def waiting_ops)

lemma waiting_geo_check [waiting_ops]: "waiting (fst (geo_check w p xs s)) = waiting s"
proof (induction w p xs s rule: geo_check.induct)
  case (2 w p rpcOK err checks s)
  then show ?case using waiting_HandleXrayGeoError [of w True err p None s] by (auto split: prod.splits)
qed simp

lemma waiting_start_locked [waiting_ops]: "waiting (start_locked r b s) = waiting s"
  by (simp add: start_locked_def spawn_start_def Let_def waiting_ops)

lemma waiting_start_built [waiting_ops]: "waiting (start_built w r s) = waiting s"
  using waiting_geo_check [of w "interactive r" "b_checks (w_build w (profileId r))" s]
  by (cases "geo_check w (interactive r) (b_checks (w_build w (profileId r))) s")
    (simp add: start_built_def Let_def waiting_ops split: option.splits)

text \<open>With the kill switch settled, a start holds its request back no more, but it may rank first.\<close>

lemma signal_kept [simp]:
  "kill_sw (signal x s) = kill_sw s" "rankedFor (signal x s) = rankedFor s" "rankings (signal x s) = rankings s"
  "m_killSwitchDeferredStart (signal x s) = m_killSwitchDeferredStart s"
  by (simp_all add: signal_def)

lemma waiting_ranked: "waiting (s\<lparr>rankedFor := i, rankingInFlight := n, rankings := rs\<rparr>) =
    (m_killSwitchDeferredStart s, rs, kill_sw s)"
  by (simp add: waiting_def)

lemma start_settled:
  assumes "k_state (kill_sw s) \<noteq> Arming"
  shows "rankedFor s = profileId r \<Longrightarrow> waiting (start w r s) = waiting s"
    and "\<exists>rs. waiting (start w r s) = (m_killSwitchDeferredStart s, rs, kill_sw s)"
proof -
  show "waiting (start w r s) = waiting s" if "rankedFor s = profileId r"
    using assms that by (simp add: start_def rankBeforeStart_def Let_def waiting_ops split: option.split)
  have "waiting (start w r s) = waiting s \<or> waiting (start w r s) =
      (m_killSwitchDeferredStart s, rankings s @ [\<lparr>rk_request = r, rk_exhausted = False, rk_startedEarly = False\<rparr>], kill_sw s)"
    using assms by (simp add: start_def rankBeforeStart_def Let_def waiting_ops waiting_ranked split: option.split)
  then show "\<exists>rs. waiting (start w r s) = (m_killSwitchDeferredStart s, rs, kill_sw s)"
    by (auto simp: waiting_def)
qed

lemma startRanked_settled:
  assumes "k_state (kill_sw s) \<noteq> Arming"
  shows "waiting (startRanked w r s) = waiting s"
  using start_settled(1) [of "s\<lparr>rankedFor := profileId r\<rparr>" r w] assms by (simp add: startRanked_def waiting_def)


section \<open>What the workers and the closures leave alone\<close>

definition held :: "connection \<Rightarrow> StartRequest \<times> StartRequest \<times> ranking list" where
  "held s = (m_killSwitchDeferredStart s, m_coreStartRequest s, rankings s)"

lemma held_small [simp]:
  "held (signal x s) = held s" "held (post t s) = held s" "held (syncState s) = held s"
  "held (finish r outcome err s) = held s" "held (applySystemProxy b s) = held s" "held (set_sup u s) = held s"
  "held (clearRestartNeeded s) = held s" "held (UpdateStartedId i s) = held s" "held (setRunning p b s) = held s"
  "held (set_phase ph k s) = held s" "held (assetGeoFetchUnattended w g s) = held s"
  by (simp_all add: held_def signal_def post_def syncState_def finish_def applySystemProxy_def set_sup_def
      clearRestartNeeded_def UpdateStartedId_def setRunning_def set_phase_def assetGeoFetchUnattended_def Let_def)

lemma held_fields [simp]:
  "held (s\<lparr>m_profileConnecting := b\<rparr>) = held s" "held (s\<lparr>m_profileDisconnecting := b\<rparr>) = held s"
  "held (s\<lparr>m_switchingProfile := b\<rparr>) = held s" "held (s\<lparr>mu_starting := k\<rparr>) = held s"
  "held (s\<lparr>mu_stopping := m\<rparr>) = held s" "held (s\<lparr>cfg := c\<rparr>) = held s" "held (s\<lparr>m_geoRetryToken := t\<rparr>) = held s"
  "held (s\<lparr>m_geoRetriedProfile := i\<rparr>) = held s" "held (s\<lparr>ui_queue := q\<rparr>) = held s"
  "held (s\<lparr>running_set := rr\<rparr>) = held s"
  by (simp_all add: held_def)

lemma held_stop [simp]: "held (stop onUi opts s) = held s"
  by (simp add: stop_def begin_disconnect_def cancel_resume_def Let_def split: option.split)

lemma held_worker [simp]: "held (worker_enter s) = held s" "held (worker_resume s) = held s" "held (worker_leave s) = held s"
  by (simp_all add: worker_enter_def worker_resume_def worker_leave_def Let_def split: option.split)

lemma held_HandleXrayGeoError [simp]: "held (fst (HandleXrayGeoError w ui e p i s)) = held s"
  by (simp add: HandleXrayGeoError_def Let_def)

lemma held_load_error [simp]: "held (load_error w r err s) = held s"
  using held_HandleXrayGeoError [of w False err "interactive r"]
  by (simp add: load_error_def Let_def split_beta)

lemma held_load [simp]: "held (fst (load w a r b s)) = held s"
  by (simp add: load_def load_done_def Let_def)

lemma held_worker_load [simp]: "held (worker_load w a s) = held s"
  by (simp add: worker_load_def Let_def split_beta split: option.split)

lemma held_stop_run [simp]: "held (stop_run b s) = held s"
  by (simp add: stop_run_def stop_rpc_def Let_def split: option.split)

lemma held_run_ui: "\<not> w_retryOffer w \<Longrightarrow> held (run_ui w t s) = held s"
  by (cases t) (simp_all add: run_started_def start_done_def begin_disconnect_def teardown_def cancel_resume_def Let_def)

lemma held_own:
  assumes "\<not> w_retryOffer w" "e \<in> own_events w a b"
  shows "held (conn_step s e) = held s"
  using assms by (auto simp: own_events_def ui_step_def held_run_ui)

lemma held_reaches:
  assumes "\<not> w_retryOffer w" "reaches w a b s t"
  shows "held t = held s"
proof -
  have "set es \<subseteq> own_events w a b \<Longrightarrow> held (run conn_step s es) = held s" for es
    by (induction es arbitrary: s) (auto simp: held_own [OF assms(1), of _ a b] simp del: conn_step.simps)
  then show ?thesis using assms(2) unfolding reaches_def by blast
qed

section \<open>The reports that empty what holds a request\<close>

text \<open>The kill switch has settled, the oldest ranking has ended, the core has given up.\<close>

definition reports :: "world \<Rightarrow> string \<Rightarrow> (world \<times> conn_event) set" where
  "reports w reason = {w} \<times> {KillSwitchSettled, RankEnd 0, CoreLost reason}"

lemma settled_report:
  assumes "k_state (kill_sw s) \<noteq> Arming"
  shows "m_killSwitchDeferredStart (killSwitchSettled w s) = no_request" "kill_sw (killSwitchSettled w s) = kill_sw s"
  using start_settled(2) [of "s\<lparr>m_killSwitchDeferredStart := no_request\<rparr>" w "m_killSwitchDeferredStart s"] assms
  by (auto simp: killSwitchSettled_def Let_def waiting_def)

lemma rank_report:
  assumes "k_state (kill_sw s) \<noteq> Arming" "rankings s = k # kr"
  shows "waiting (rank_end w 0 s) = (m_killSwitchDeferredStart s, kr, kill_sw s)"
proof -
  define t where "t = s\<lparr>rankings := kr, rankingInFlight := rankingInFlight s - 1\<rparr>"
  have "waiting (resume_ranked w k t) = waiting t"
    using assms(1) by (simp add: resume_ranked_def Let_def startRanked_settled t_def)
  moreover have "rank_end w 0 s = (if rk_startedEarly k then t else resume_ranked w k t)"
    using assms(2) by (simp add: rank_end_def t_def)
  moreover have "waiting t = (m_killSwitchDeferredStart s, kr, kill_sw s)" by (simp add: t_def waiting_def)
  ultimately show ?thesis by simp
qed

lemma rankings_end:
  assumes "k_state (kill_sw s) \<noteq> Arming"
  shows "waiting (run conn_step s (replicate (length (rankings s)) (w, RankEnd 0))) =
    (m_killSwitchDeferredStart s, [], kill_sw s)"
  using assms
proof (induction "length (rankings s)" arbitrary: s)
  case 0
  then show ?case by (simp add: waiting_def)
next
  case (Suc n)
  then obtain k kr where k: "rankings s = k # kr" by (cases "rankings s") auto
  let ?t = "rank_end w 0 s"
  have t: "m_killSwitchDeferredStart ?t = m_killSwitchDeferredStart s" "rankings ?t = kr" "kill_sw ?t = kill_sw s"
    using rank_report [OF Suc.prems k, of w] by (simp_all add: waiting_def)
  have "n = length (rankings ?t)" "k_state (kill_sw ?t) \<noteq> Arming" using Suc.hyps(2) Suc.prems k t by simp_all
  from Suc.hyps(1) [OF this] show ?case using k t by simp
qed

lemma lost_report:
  "m_coreStartRequest (onCoreGaveUp reason s) = no_request \<or> profileId (m_coreStartRequest (onCoreGaveUp reason s)) < 0"
  "m_killSwitchDeferredStart (onCoreGaveUp reason s) = m_killSwitchDeferredStart s"
  "rankings (onCoreGaveUp reason s) = rankings s"
  by (simp_all add: onCoreGaveUp_def Let_def finish_def signal_def)

text \<open>None of these steps hands in a request.\<close>

lemma issued_none: "set es \<subseteq> own_events w a b \<union> reports w reason \<Longrightarrow> issued s es = []"
  by (induction es arbitrary: s) (auto simp: own_events_def reports_def)

lemma answers_reached:
  assumes "\<not> w_retryOffer w" "conn_inv s" "k_state (kill_sw s) \<noteq> Arming"
  shows "\<exists>es. set es \<subseteq> own_events w a b \<union> reports w reason \<and> pending_serials (run conn_step s es) = []"
proof -
  define s1 where "s1 = conn_step s (w, KillSwitchSettled)"
  have 1: "m_killSwitchDeferredStart s1 = no_request" "k_state (kill_sw s1) \<noteq> Arming"
    using settled_report [OF assms(3)] assms(3) by (simp_all add: s1_def)
  define rs where "rs = replicate (length (rankings s1)) (w, RankEnd 0)"
  define s2 where "s2 = run conn_step s1 rs"
  have 2: "m_killSwitchDeferredStart s2 = no_request" "rankings s2 = []"
    using rankings_end [OF 1(2), of w] 1(1) by (simp_all add: s2_def rs_def waiting_def)
  define s3 where "s3 = conn_step s2 (w, CoreLost reason)"
  have 3: "m_killSwitchDeferredStart s3 = no_request" "rankings s3 = []" "kept (m_coreStartRequest s3) = []"
    using lost_report [of reason s2] 2 by (auto simp: s3_def kept_def)
  let ?es = "(w, KillSwitchSettled) # rs @ [(w, CoreLost reason)]"
  have r: "run conn_step s ?es = s3" by (simp add: s1_def s2_def s3_def run_append)
  have "conn_inv s3" unfolding r [symmetric] by (rule connection.inv_run_from [OF assms(2)])
  then obtain fs where fs: "set fs \<subseteq> own_events w a b" and t: "mu_starting (run conn_step s3 fs) = None"
    "ui_queue (run conn_step s3 fs) = []"
    using settles_inv [OF assms(1)] unfolding settles_def reaches_def by metis
  have "held (run conn_step s3 fs) = held s3"
    using held_reaches [OF assms(1)] fs unfolding reaches_def by blast
  then have "pending_serials (run conn_step s3 fs) = []" using t 3
    by (simp add: held_def pending_serials_def worker_serial_def)
  moreover have "set (?es @ fs) \<subseteq> own_events w a b \<union> reports w reason"
    using fs by (auto simp: rs_def reports_def)
  moreover have "run conn_step s (?es @ fs) = run conn_step s3 fs" unfolding run_append r ..
  ultimately show ?thesis by metis
qed

text \<open>
  C9. Every request to start is answered exactly once. After any sequence of events (starts, stops, mode
  changes, core and kill-switch events, rankings, downloads, steps of the workers in any interleaving) the
  \<^verbatim>\<open>startFinished\<close> signals with a serial number and the places that still hold a request with it are together
  as many as the requests handed in with it: none is lost, none is answered twice. And once the kill switch
  is not arming any more, no request can be held for good: the reports that the held requests wait for (the
  kill switch has settled, the rankings end, the core gives up) and the workers' own steps lead to a state
  in which nothing holds a request and each has had its signal, whatever the core answers.
\<close>

theorem starts_answered_once:
  fixes u opts c past w a b reason n
  assumes "n \<noteq> 0" "\<not> w_retryOffer w"
  defines "init \<equiv> init_connection u opts c"
  defines "s \<equiv> run conn_step init past"
  shows "count_list (finished_serials (conn_outs s)) n + count_list (pending_serials s) n =
           count_list (issued init past) n \<and>
         (k_state (kill_sw s) \<noteq> Arming \<longrightarrow>
           (\<exists>es. set es \<subseteq> own_events w a b \<union> reports w reason \<and>
             (let t = run conn_step s es
              in pending_serials t = [] \<and>
                 count_list (finished_serials (conn_outs t)) n = count_list (issued init past) n)))"
proof -
  have l: "ledger n s = count_list (issued init past) n"
    using ledger_run [OF assms(1), of init past] ledger_init [of n u opts c] by (simp add: s_def init_def)
  have inv: "conn_inv s" unfolding s_def init_def by (rule connection.inv_run)
  have "\<exists>es. set es \<subseteq> own_events w a b \<union> reports w reason \<and>
      (let t = run conn_step s es in pending_serials t = [] \<and>
         count_list (finished_serials (conn_outs t)) n = count_list (issued init past) n)"
    if "k_state (kill_sw s) \<noteq> Arming"
  proof -
    from answers_reached [OF assms(2) inv that] obtain es where
      es: "set es \<subseteq> own_events w a b \<union> reports w reason" "pending_serials (run conn_step s es) = []" by blast
    have "ledger n (run conn_step s es) = ledger n s"
      using ledger_run [OF assms(1), of s es] issued_none [OF es(1)] by simp
    then show ?thesis using es l by (auto simp: Let_def ledger_def)
  qed
  then show ?thesis using l by (simp add: ledger_def)
qed

theorem starts_answered_once_witness:
  "\<exists>es. set es \<subseteq> own_events sample_world loaded stopped \<union> reports sample_world [] \<and>
     count_list (finished_serials (conn_outs (run conn_step (sample_run
       [Start (request 1 7), WorkerEnter, WorkerLoad loaded, WorkerLeave, Start (request 2 8)]) es))) 8 = 1"
proof -
  let ?es = "map (Pair sample_world) [Start (request 1 7), WorkerEnter, WorkerLoad loaded, WorkerLeave,
    Start (request 2 8)]"
  have n: "(8::nat) \<noteq> 0" "\<not> w_retryOffer sample_world" and i: "count_list (issued sample_connection ?es) 8 = 1"
    by simp_all
  have "k_state (kill_sw (run conn_step sample_connection ?es)) \<noteq> Arming"
    by (simp add: conn_eval)
  then show ?thesis
    using starts_answered_once [OF n, of sample_supervisor sample_options sample_cfg ?es loaded stopped "[]"] i
    unfolding sample_connection_def Let_def by metis
qed

end
