(* ===== verification/ConnectionFlag.thy ===== *)
theory ConnectionFlag
  imports ConnectionLife
begin

text \<open>
  The connecting flag of the connection manager: the closure that ends one start can run after the next start
  has set the flag, and takes it back for the whole of that start.
\<close>

section \<open>What a start does to the flag and the locks\<close>

text \<open>\<open>t\<close> differs from \<open>s\<close> in nothing the flag depends on; closures may have been posted.\<close>

definition same_run :: "connection \<Rightarrow> connection \<Rightarrow> bool" where
  "same_run s t \<longleftrightarrow> mu_starting t = mu_starting s \<and> mu_stopping t = mu_stopping s \<and> m_running t = m_running s \<and>
     m_profileConnecting t = m_profileConnecting s \<and> (\<exists>qs. ui_queue t = ui_queue s @ qs)"

lemma same_run_refl [simp]: "same_run s s"
  by (simp add: same_run_def)

lemma same_run_ops [simp]:
  "same_run s t \<Longrightarrow> same_run s (signal x t)" "same_run s t \<Longrightarrow> same_run s (post p t)"
  "same_run s t \<Longrightarrow> same_run s (finish r outcome err t)" "same_run s t \<Longrightarrow> same_run s (failStart r outcome err t)"
  "same_run s t \<Longrightarrow> same_run s (set_sup u t)" "same_run s t \<Longrightarrow> same_run s (deferStartToCore r t)"
  "same_run s t \<Longrightarrow> same_run s (deferToKillSwitch r t)" "same_run s t \<Longrightarrow> same_run s (clearRestartNeeded t)"
  "same_run s t \<Longrightarrow> same_run s (applySystemProxy b t)" "same_run s t \<Longrightarrow> same_run s (syncState t)"
  by (auto simp: same_run_def signal_def post_def finish_def failStart_def set_sup_def deferStartToCore_def
      deferToKillSwitch_def clearRestartNeeded_def applySystemProxy_def syncState_def Let_def)

lemma same_run_fields [simp]:
  "same_run s (t\<lparr>m_geoRetryToken := n\<rparr>) = same_run s t" "same_run s (t\<lparr>m_lastProfileId := i\<rparr>) = same_run s t"
  "same_run s (t\<lparr>m_guardCoreRestart := g\<rparr>) = same_run s t" "same_run s (t\<lparr>rankedFor := i\<rparr>) = same_run s t"
  "same_run s (t\<lparr>rankingInFlight := i\<rparr>) = same_run s t" "same_run s (t\<lparr>rankings := rs\<rparr>) = same_run s t"
  "same_run s (t\<lparr>cfg := c\<rparr>) = same_run s t" "same_run s (t\<lparr>m_coreStartRequest := r\<rparr>) = same_run s t"
  "same_run s (t\<lparr>m_killSwitchDeferredStart := r\<rparr>) = same_run s t" "same_run s (t\<lparr>m_bootSerial := n\<rparr>) = same_run s t"
  "same_run s (t\<lparr>m_tunRestoreHeld := b\<rparr>) = same_run s t" "same_run s (t\<lparr>m_tunBlockedAtMs := ms\<rparr>) = same_run s t"
  "same_run s (t\<lparr>m_tunBlockedCache := tc\<rparr>) = same_run s t" "same_run s (t\<lparr>m_tunBlockedKey := tk\<rparr>) = same_run s t"
  "same_run s (t\<lparr>m_geoRetriedProfile := i\<rparr>) = same_run s t" "same_run s (t\<lparr>m_restartReasons := rr\<rparr>) = same_run s t"
  "same_run s (t\<lparr>geoUnattendedBusy := b\<rparr>) = same_run s t" "same_run s (t\<lparr>geoUnattendedWaiters := gw\<rparr>) = same_run s t"
  "same_run s (t\<lparr>m_killSwitchWasFailed := kf\<rparr>) = same_run s t" "same_run s (t\<lparr>m_killSwitchWasArmed := ka\<rparr>) = same_run s t"
  "same_run s (t\<lparr>proxy_queue := q\<rparr>) = same_run s t"
  by (simp_all add: same_run_def)

lemma same_run_trans: "same_run s t \<Longrightarrow> same_run t u \<Longrightarrow> same_run s u"
  by (auto simp: same_run_def)

lemma same_run_restartCoreForGuard [simp]: "same_run s t \<Longrightarrow> same_run s (restartCoreForGuard w r t)"
  by (simp add: restartCoreForGuard_def Let_def split_beta)

lemma same_run_geo_check: "same_run s (fst (geo_check w p xs s))"
proof (induction w p xs s rule: geo_check.induct)
  case (2 w p rpcOK err checks s)
  have h: "same_run s (fst (HandleXrayGeoError w True err p None s))" by (simp add: HandleXrayGeoError_def Let_def)
  obtain t geo where t: "HandleXrayGeoError w True err p None s = (t, geo)" by fastforce
  show ?case using 2 h t same_run_trans [of s t] by auto
qed simp

text \<open>A start either leaves the run alone, or spawns the worker.\<close>

definition start_result :: "StartRequest \<Rightarrow> connection \<Rightarrow> connection \<Rightarrow> bool" where
  "start_result r s t \<longleftrightarrow> same_run s t \<or>
     (\<exists>u b. same_run s u \<and> t = spawn_start r b u \<and> mu_starting s = None \<and> mu_stopping s = None)"

lemma start_result_same: "same_run s t \<Longrightarrow> start_result r s t"
  by (simp add: start_result_def)

lemma start_result_via: "same_run s t \<Longrightarrow> start_result r t u \<Longrightarrow> start_result r s u"
  unfolding start_result_def using same_run_trans [of s t] by (metis same_run_def)

lemma start_result_locked: "start_result r s (start_locked r b s)"
proof -
  have "start_result r s (spawn_start r b s)" if "mu_starting s = None" "mu_stopping s = None"
    using that unfolding start_result_def by (metis same_run_refl)
  then show ?thesis by (simp add: start_locked_def Let_def start_result_same)
qed

lemma start_result_built: "start_result r s (start_built w r s)"
proof -
  obtain t geo where t: "(if core_running (sup s) \<and> m_running s \<noteq> None
      then geo_check w (interactive r) (b_checks (w_build w (profileId r))) s else (s, None)) = (t, geo)" by fastforce
  then have "same_run s t"
    using same_run_geo_check [of s w "interactive r" "b_checks (w_build w (profileId r))"] by (auto split: if_splits)
  then have "start_result r s (start_locked r b t)" "start_result r s (finish r GeoAssetsMissing err t)" for b err
    using start_result_via start_result_locked by (auto simp: start_result_same)
  then show ?thesis using t by (simp add: start_built_def Let_def start_result_same split: option.split)
qed

lemma start_result_start: "start_result r s (start w r s)"
proof -
  have b: "start_result r s (let (v, waits) = rankBeforeStart w r t in if waits then v else start_built w r v)"
    if "same_run s t" for t
  proof -
    obtain v waits where v: "rankBeforeStart w r t = (v, waits)" by fastforce
    then have "same_run s v" using that by (auto simp: rankBeforeStart_def Let_def split: if_splits)
    then show ?thesis using v start_result_via [OF _ start_result_built] by (simp add: start_result_same)
  qed
  show ?thesis using b by (simp add: start_def Let_def start_result_same split: option.split)
qed

lemma start_busy [simp]:
  assumes "same_run s t" "mu_starting s \<noteq> None"
  shows "same_run s (start w r t)" "same_run s (startRanked w r t)"
proof -
  have k: "same_run t' (start w r t')" if "mu_starting t' \<noteq> None" for t'
    using start_result_start [of r t' w] that by (simp add: start_result_def)
  show "same_run s (start w r t)" using assms k [of t] same_run_trans by (simp add: same_run_def)
  have "same_run s (start w r (t\<lparr>rankedFor := profileId r\<rparr>))"
    using assms k [of "t\<lparr>rankedFor := profileId r\<rparr>"] same_run_trans [of s "t\<lparr>rankedFor := profileId r\<rparr>"]
    by (simp add: same_run_def)
  then show "same_run s (startRanked w r t)" by (simp add: startRanked_def)
qed

section \<open>While a start worker is there\<close>

lemma busy_modes:
  assumes "mu_starting s \<noteq> None" "same_run s t"
  shows "same_run s (fst (restartStartedProfile w b n t))" "same_run s (applyPendingRestart w t)"
    "same_run s (fst (setSystemProxy w b ch t))" "same_run s (fst (chooseRoute w i b n t))"
    "same_run s (noteRestartNeeded rr t)" "same_run s (setBootStart r t)" "same_run s (killSwitchSettled w t)"
    "same_run s (onCoreGaveUp reason t)" "same_run s (proxy_step t)" "same_run s (resume_ranked w k t)"
    "same_run s (onPoolExhausted w i t)"
  using assms by (auto simp: restartStartedProfile_def applyPendingRestart_def setSystemProxy_def chooseRoute_def
      noteRestartNeeded_def setBootStart_def killSwitchSettled_def onCoreGaveUp_def proxy_step_def resume_ranked_def
      onPoolExhausted_def Let_def split: option.split list.split)

lemma busy_retry: "mu_starting s \<noteq> None \<Longrightarrow> same_run s t \<Longrightarrow> same_run s (retryAfterGeoFetch w x t)"
  by (cases x) (simp add: retryAfterGeoFetch_def Let_def)

lemma busy_tunBlockedReason: "same_run s t \<Longrightarrow> same_run s (fst (tunBlockedReason w t))"
  by (simp add: tunBlockedReason_def Let_def)

lemma busy_setTun:
  assumes "mu_starting s \<noteq> None" "same_run s t"
  shows "same_run s (fst (setTun w b ch t))"
proof -
  define u where "u = release_hold b ch t"
  have u: "same_run s u" using assms by (simp add: u_def release_hold_def Let_def)
  obtain v refused where v: "(if b then tun_refused w ch u else (u, False)) = (v, refused)" by fastforce
  have "same_run s v"
    using v u busy_tunBlockedReason [OF u, of w] by (auto simp: tun_refused_def split_beta Let_def split: if_splits)
  then show ?thesis unfolding setTun_def Let_def u_def [symmetric] v using assms u by simp
qed

lemma busy_killSwitch:
  assumes "same_run s t"
  shows "same_run s (onKillSwitchStateChanged w t)" "same_run s (applyKillSwitch w t)" "same_run s (disableKillSwitch w t)"
proof -
  have k: "same_run s (onKillSwitchStateChanged w u)" if "same_run s u" for u
    using that by (simp add: onKillSwitchStateChanged_def guard_request_def Let_def)
  then show "same_run s (onKillSwitchStateChanged w t)" "same_run s (applyKillSwitch w t)"
    "same_run s (disableKillSwitch w t)"
    using assms by (simp_all add: applyKillSwitch_def disableKillSwitch_def Let_def)
qed

lemma busy_onCoreStarted:
  assumes "mu_starting s \<noteq> None" "same_run s t"
  shows "same_run s (onCoreStarted w i t)"
proof -
  have r: "same_run s (fst (restore_modes w u))" if "same_run s u" for u
    using assms(1) that busy_setTun [OF assms(1)] busy_modes(3) [OF assms(1)] busy_tunBlockedReason
    by (simp add: restore_modes_def tunRestoreHoldReason_def Let_def split_beta)
  have d: "same_run s (dispatch_core_request w why i u)" if "same_run s u" for u why
    using assms(1) that by (simp add: dispatch_core_request_def Let_def)
  show ?thesis using assms r d busy_killSwitch by (simp add: onCoreStarted_def Let_def split_beta)
qed

lemma busy_retries: "mu_starting s \<noteq> None \<Longrightarrow> same_run s t \<Longrightarrow> same_run s (fold (retryAfterGeoFetch w) xs t)"
  by (induction xs arbitrary: t) (simp_all add: busy_retry)

lemma flag_ops [simp]:
  "m_profileConnecting (signal x s) = m_profileConnecting s" "m_profileConnecting (post t s) = m_profileConnecting s"
  "m_profileConnecting (stop onUi opts s) = m_profileConnecting s" "m_profileConnecting (set_phase ph k s) = m_profileConnecting s"
  "m_profileConnecting (syncState s) = m_profileConnecting s"
  by (simp_all add: signal_def post_def stop_def begin_disconnect_def cancel_resume_def syncState_def set_sup_def
      set_phase_def Let_def split: option.split)

lemma flag_load [simp]: "m_profileConnecting (fst (load w a r b s)) = m_profileConnecting s"
  by (simp add: load_def load_error_def load_done_def HandleXrayGeoError_def applySystemProxy_def setRunning_def
      UpdateStartedId_def Let_def)

lemma flag_workers:
  "m_profileConnecting (worker_enter s) = m_profileConnecting s" "m_profileConnecting (worker_resume s) = m_profileConnecting s"
  "m_profileConnecting (worker_load w a s) = m_profileConnecting s" "m_profileConnecting (worker_leave s) = m_profileConnecting s"
  "m_profileConnecting (stop_run b s) = m_profileConnecting s"
  by (simp_all add: worker_enter_def worker_resume_def worker_load_def worker_leave_def stop_run_def stop_rpc_def
      applySystemProxy_def UpdateStartedId_def setRunning_def Let_def split_beta split: option.split)

lemma flag_ui:
  assumes "mu_starting s \<noteq> None" "\<not> m_profileConnecting s"
  shows "\<not> m_profileConnecting (run_ui w t s)"
proof -
  have "\<not> m_profileConnecting (start w r s)" for r
    using start_busy(1) [of s s w r] assms by (simp add: same_run_def)
  then show ?thesis using assms
    by (cases t) (simp_all add: finish_def run_started_def clearRestartNeeded_def start_done_def begin_disconnect_def
        teardown_def cancel_resume_def set_sup_def assetGeoFetchUnattended_def Let_def)
qed

lemma flag_step:
  assumes "mu_starting s \<noteq> None" "\<not> m_profileConnecting s"
  shows "\<not> m_profileConnecting (conn_step s e)"
proof -
  obtain w x where e: "e = (w, x)" by fastforce
  have k: "\<not> m_profileConnecting t" if "same_run s t" for t using that assms(2) by (simp add: same_run_def)
  note b = busy_modes [OF assms(1)] busy_setTun [OF assms(1)] busy_killSwitch busy_onCoreStarted [OF assms(1)]
    busy_retries [OF assms(1)] busy_tunBlockedReason
  show ?thesis unfolding e
  proof (cases x)
    case (Ui n)
    then show "\<not> m_profileConnecting (conn_step s (w, x))" using assms by (simp add: ui_step_def flag_ui)
  qed (use assms(1,2) in \<open>simp_all add: k b flag_workers rank_early_def rank_end_def geo_fetched_def set_sup_def Let_def\<close>)
qed

section \<open>The flag of the next start\<close>

text \<open>
  C39. The closure of a start takes back the flag of the next one. The worker of a start frees \<^verbatim>\<open>mu_starting\<close>
  before its last closure has run on the main thread. In every reachable state in which that closure is next
  and a profile runs, a start that is accepted then has its \<^verbatim>\<open>m_profileConnecting\<close> cleared when the closure runs:
  the worker has not begun, the manager is and is announced as \<open>Running\<close>, and for as long as that worker is
  there, whatever happens, the manager is never \<open>Connecting\<close>.
\<close>

theorem connecting_flag_lost:
  fixes u opts c past ok sw q i w r w'
  defines "s \<equiv> run conn_step (init_connection u opts c) past"
  assumes "mu_starting s = None" "ui_queue s = StartDone ok sw # q" "m_running s = Some i"
    and "mu_starting (conn_step s (w, Start r)) \<noteq> None"
  defines "t \<equiv> run conn_step s [(w, Start r), (w', Ui 0)]"
  shows "in_phase Entering t \<and> connectionState t = Running \<and> last (Idle # announced (conn_outs t)) = Running \<and>
    (\<forall>es. (\<forall>n\<le>length es. mu_starting (run conn_step t (take n es)) \<noteq> None) \<longrightarrow>
       connectionState (run conn_step t es) \<noteq> Connecting)"
proof -
  have sr: "start_result r s (start w r s)" by (rule start_result_start)
  have ns: "\<not> same_run s (start w r s)" using assms(2,5) by (simp add: same_run_def)
  with sr obtain v b where v: "same_run s v" "start w r s = spawn_start r b v" "mu_stopping s = None"
    using ns unfolding start_result_def by auto
  obtain qs where q: "ui_queue v = StartDone ok sw # q @ qs" using v(1) assms(3) by (auto simp: same_run_def)
  define a where "a = spawn_start r b v"
  have a: "in_phase Entering a" "ui_queue a = StartDone ok sw # q @ qs" "m_running a = Some i" "mu_stopping a = None"
    using v(1,3) q assms(4) by (simp_all add: a_def spawn_start_def signal_def same_run_def syncState_def Let_def)
  have t: "t = start_done ok sw (a\<lparr>ui_queue := q @ qs\<rparr>)"
    using v(2) a(2) by (simp add: t_def a_def ui_step_def)
  have inv: "conn_inv t" unfolding t_def s_def by (intro connection.inv_run_from connection.inv_run)
  have "conn_inv a" using connection.inv_run_from [of s "[(w, Start r)]"] connection.inv_run [of u opts c past] v(2)
    by (simp add: a_def s_def)
  then have d: "\<not> m_profileDisconnecting a" using a(4) by (simp add: conn_inv_def disconnecting_ok_def)
  have 1: "in_phase Entering t" "m_running t = Some i" "\<not> m_profileDisconnecting t" "\<not> m_profileConnecting t"
    using a d by (simp_all add: t start_done_def Let_def signal_def)
  have l: "m_lastConnectionState t = connectionState t"
    by (simp add: t start_done_def Let_def signal_def connectionState_def)
  have 2: "connectionState t = Running" using 1 by (simp add: connectionState_def)
  have 3: "last (Idle # announced (conn_outs t)) = Running" using inv l 2 by (simp add: conn_parts)
  have "\<not> m_profileConnecting (run conn_step x es)"
    if "\<forall>n\<le>length es. mu_starting (run conn_step x (take n es)) \<noteq> None" "\<not> m_profileConnecting x" for x es
    using that
  proof (induction es arbitrary: x)
    case (Cons e es)
    have "mu_starting x \<noteq> None" using Cons.prems(1) by (metis run.simps(1) take_0 zero_le)
    then have "\<not> m_profileConnecting (conn_step x e)" using flag_step Cons.prems(2) by blast
    moreover have "\<forall>n\<le>length es. mu_starting (run conn_step (conn_step x e) (take n es)) \<noteq> None"
      using Cons.prems(1) by (metis Suc_le_mono length_Cons run.simps(2) take_Suc_Cons)
    ultimately show ?case using Cons.IH by simp
  qed simp
  then show ?thesis using 1 2 3 by (auto simp: connectionState_def)
qed

theorem connecting_flag_lost_witness:
  "let s = sample_run [Start (request 1 7), WorkerEnter, WorkerLoad loaded, WorkerLeave, Ui 0, Start (request 2 8), Ui 0]
   in in_phase Entering s \<and> connectionState s = Running \<and> last (Idle # announced (conn_outs s)) = Running"
proof -
  let ?p = "map (Pair sample_world) [Start (request 1 7), WorkerEnter, WorkerLoad loaded, WorkerLeave, Ui 0]"
  let ?s = "run conn_step (init_connection sample_supervisor sample_options sample_cfg) ?p"
  let ?r = "request 2 8"
  have h: "mu_starting ?s = None" "ui_queue ?s = [StartDone True False]" "m_running ?s = Some 1"
    "mu_starting (conn_step ?s (sample_world, Start ?r)) \<noteq> None"
    by (simp_all add: conn_eval)
  have "sample_run [Start (request 1 7), WorkerEnter, WorkerLoad loaded, WorkerLeave, Ui 0, Start ?r, Ui 0] =
      run conn_step ?s [(sample_world, Start ?r), (sample_world, Ui 0)]"
    by (simp add: sample_connection_def)
  then show ?thesis using connecting_flag_lost [OF h, of sample_world] by (simp only: Let_def)
qed

end
