(* ===== verification/FieldChecks.thy ===== *)
theory FieldChecks
  imports IpAddrText
begin

text \<open>
  The checks of form fields in \<^verbatim>\<open>src/global/Validation.cpp\<close>: this theory has the messages, the numbers and
  ranges, the lists and the rules; \<open>FieldDuration\<close> durations and sizes, \<open>FieldAddress\<close> addresses and hosts,
  \<open>FieldSecrets\<close> encodings and identifiers, \<open>FieldRegex\<close> regular expressions. A check answers \<open>None\<close> for
  acceptable text (the empty string of the code), or the sentence it would show, as a \<open>message\<close> with its
  arguments. A \<^verbatim>\<open>quint64\<close> is a \<^typ>\<open>64 word\<close>, a \<^verbatim>\<open>qint64\<close> result an integer.
\<close>

section \<open>Messages\<close>

datatype Family = AnyFamily | FamilyV4 | FamilyV6

datatype Empty = EmptyAllowed | EmptyRequired

datatype message =
    FieldRequired
  | RangeMessage int int
  | NotWholeNumber
  | PortMessage
  | RangeFormat bool
  | PortsTooLarge
  | SinglePort bool qstring
  | RangeMatchesNothing
  | NotNumberOrRange
  | SmallerFirst
  | AddUnit qstring
  | NotDuration
  | MustNotBeNegative
  | UseWholeSeconds
  | AtLeast qstring
  | AtMost qstring
  | WholeBeforeUnit
  | NumberTooLarge
  | AddSizeUnit
  | NotSize
  | UnknownUnit qstring
  | IpMessage Family
  | ZoneNotAllowed
  | NeedPrefix
  | NoNetmask
  | PrefixLeadingZeros
  | PrefixRange int
  | HostMessage
  | SchemeMessage
  | NoSpaces
  | OnlyHostName
  | PortOwnField
  | UseBrackets
  | AddPort
  | KeyMessage bool bool int int
  | NotBase64
  | NotHex
  | EvenLength
  | AtMostChars int
  | AtLeastChars int
  | NotUuid
  | NotXrayId
  | UrlStarting "qstring list"
  | NotUrl
  | UnknownValue qstring "qstring list"
  | NotToken
  | BadRegex qstring
  | Re2Unsupported qstring
  | TooManyRepeats
  | NotJson qstring nat nat
  | NotJsonObject
  | ItemMessage nat "qstring option" message

type_synonym rule = "qstring \<Rightarrow> message option"

datatype Severity = SeverityError | SeverityWarning

definition HasError :: "Severity list \<Rightarrow> bool" where
  "HasError issues \<longleftrightarrow> list_ex (\<lambda>severity. severity = SeverityError) issues"

section \<open>Characters and digits\<close>

definition validationDigit :: "qchar \<Rightarrow> bool" where
  "validationDigit c \<longleftrightarrow> 48 \<le> c \<and> c \<le> 57"

definition validationHexDigit :: "qchar \<Rightarrow> bool" where
  "validationHexDigit u \<longleftrightarrow> (48 \<le> u \<and> u \<le> 57) \<or> (97 \<le> u \<and> u \<le> 102) \<or> (65 \<le> u \<and> u \<le> 70)"

definition validationAsciiAlnum :: "qchar \<Rightarrow> bool" where
  "validationAsciiAlnum u \<longleftrightarrow> (48 \<le> u \<and> u \<le> 57) \<or> (97 \<le> u \<and> u \<le> 122) \<or> (65 \<le> u \<and> u \<le> 90)"

definition validationAllDigits :: "qstring \<Rightarrow> bool" where
  "validationAllDigits s \<longleftrightarrow> s \<noteq> [] \<and> list_all validationDigit s"

definition startsWith :: "qchar \<Rightarrow> qstring \<Rightarrow> bool" where
  "startsWith c s \<longleftrightarrow> s \<noteq> [] \<and> hd s = c"

definition validationSignedDigits :: "qstring \<Rightarrow> bool" where
  "validationSignedDigits s \<longleftrightarrow> validationAllDigits (if startsWith 45 s then drop 1 s else s)"

definition lastIndexOf :: "'a \<Rightarrow> 'a list \<Rightarrow> nat option" where
  "lastIndexOf x s = map_option (\<lambda>i. length s - 1 - i) (indexOf x (rev s))"

definition Required :: rule where
  "Required s = (if trimmed s \<noteq> [] then None else Some FieldRequired)"

definition validationEmpty :: "Empty \<Rightarrow> message option" where
  "validationEmpty e = (if e = EmptyRequired then Required [] else None)"

definition validationShort :: "qstring \<Rightarrow> qstring" where
  "validationShort s = (if 40 < length s then take 40 s @ [0x2026] else s)"

section \<open>Numbers\<close>

text \<open>The loop of \<^verbatim>\<open>validationParseInt\<close>, with its guard against overflow.\<close>

fun parse_digits :: "64 word \<Rightarrow> qstring \<Rightarrow> 64 word \<Rightarrow> 64 word option" where
  "parse_digits limit [] v = Some v"
| "parse_digits limit (c # s) v =
     (if \<not> validationDigit c then None
      else
        (let d = of_nat (c - 48)
         in if (limit - d) div 10 < v then None else parse_digits limit s (v * 10 + d)))"

definition validationParseInt :: "qstring \<Rightarrow> int option" where
  "validationParseInt s =
     (if s = [] then None
      else
        (let neg = (hd s = 45); r = (if neg then drop 1 s else s)
         in if r = [] then None
            else
              (let limit = 2 ^ 63 - 1 + (if neg then 1 else 0)
               in case parse_digits limit r 0 of
                    None \<Rightarrow> None
                  | Some v \<Rightarrow>
                      if \<not> neg then Some (sint v)
                      else if v = limit then Some (- (2 ^ 63)) else Some (- sint v))))"

definition ToInt :: "qstring \<Rightarrow> int option" where
  "ToInt s = validationParseInt (trimmed s)"

text \<open>\<^verbatim>\<open>QStringView::toInt\<close> of at most five digits.\<close>

definition digits_from :: "nat \<Rightarrow> qstring \<Rightarrow> nat" where
  "digits_from v s = foldl (\<lambda>v c. v * 10 + (c - 48)) v s"

definition decimal_value :: "qstring \<Rightarrow> nat" where
  "decimal_value s = digits_from 0 s"

fun skip_zeros :: "qstring \<Rightarrow> qstring" where
  "skip_zeros (c # d # s) = (if c = 48 then skip_zeros (d # s) else c # d # s)"
| "skip_zeros s = s"

definition validationParseUint16 :: "qstring \<Rightarrow> nat option" where
  "validationParseUint16 s =
     (if \<not> validationAllDigits s then None
      else
        (let s = skip_zeros s
         in if 5 < length s then None
            else if 65535 < decimal_value s then None else Some (decimal_value s)))"

definition IntCheck :: "int \<Rightarrow> int \<Rightarrow> Empty \<Rightarrow> rule" where
  "IntCheck mn mx e s =
     (let t = trimmed s
      in if t = [] then validationEmpty e
         else case validationParseInt t of
                None \<Rightarrow> if validationSignedDigits t then Some (RangeMessage mn mx) else Some NotWholeNumber
              | Some v \<Rightarrow> if v < mn \<or> mx < v then Some (RangeMessage mn mx) else None)"

definition port_ok :: "qstring \<Rightarrow> bool" where
  "port_ok s \<longleftrightarrow> (case validationParseInt s of None \<Rightarrow> False | Some v \<Rightarrow> 1 \<le> v \<and> v \<le> 65535)"

definition PortCheck :: "Empty \<Rightarrow> rule" where
  "PortCheck e s =
     (let t = trimmed s
      in if t = [] then validationEmpty e else if port_ok t then None else Some PortMessage)"

record PortRangeStyle =
  sep_colon :: bool
  allowSingle :: bool
  allowOpenEnds :: bool
  checkOrder :: bool

text \<open>One side of a range; an empty side of an open range stands for its default.\<close>

definition range_side :: "PortRangeStyle \<Rightarrow> qstring \<Rightarrow> nat \<Rightarrow> message + nat" where
  "range_side style side dflt =
     (if side = [] then (if allowOpenEnds style then Inr dflt else Inl (RangeFormat (sep_colon style)))
      else case validationParseUint16 side of
             None \<Rightarrow> Inl (if validationAllDigits side then PortsTooLarge else RangeFormat (sep_colon style))
           | Some v \<Rightarrow> Inr v)"

definition PortRange :: "PortRangeStyle \<Rightarrow> rule" where
  "PortRange style s =
     (let t = trimmed s
      in if t = [] then None
         else case indexOf (if sep_colon style then 58 else 45) t of
                None \<Rightarrow>
                  if validationParseUint16 t \<noteq> None
                  then (if allowSingle style then None else Some (SinglePort (sep_colon style) t))
                  else Some (if validationAllDigits t then PortsTooLarge else RangeFormat (sep_colon style))
              | Some at \<Rightarrow>
                  (case range_side style (take at t) 0 of
                     Inl m \<Rightarrow> Some m
                   | Inr a \<Rightarrow>
                       (case range_side style (drop (at + 1) t) 65535 of
                          Inl m \<Rightarrow> Some m
                        | Inr b \<Rightarrow> if checkOrder style \<and> b < a then Some RangeMatchesNothing else None)))"

definition PortRangeOrder :: "PortRangeStyle \<Rightarrow> rule" where
  "PortRangeOrder style s =
     (if PortRange (style\<lparr>checkOrder := False\<rparr>) s \<noteq> None then None
      else PortRange (style\<lparr>checkOrder := True\<rparr>) s)"

definition number_part :: "int \<Rightarrow> int \<Rightarrow> qstring \<Rightarrow> message + int" where
  "number_part mn mx part =
     (if \<not> validationSignedDigits part \<or> \<not> mn < 0 \<and> startsWith 45 part then Inl NotNumberOrRange
      else case validationParseInt part of
             None \<Rightarrow> Inl (RangeMessage mn mx)
           | Some v \<Rightarrow> if v < mn \<or> mx < v then Inl (RangeMessage mn mx) else Inr v)"

text \<open>\<open>indexOfFrom x k s\<close> is \<^verbatim>\<open>s.indexOf(x, k)\<close>.\<close>

definition indexOfFrom :: "'a \<Rightarrow> nat \<Rightarrow> 'a list \<Rightarrow> nat option" where
  "indexOfFrom x k s = map_option (\<lambda>i. i + k) (indexOf x (drop k s))"

definition IntOrRange :: "int \<Rightarrow> int \<Rightarrow> Empty \<Rightarrow> bool \<Rightarrow> rule" where
  "IntOrRange mn mx e allowReversed s =
     (let t = trimmed s
      in if t = [] then validationEmpty e
         else
           (let dash = indexOfFrom 45 (if mn < 0 \<and> startsWith 45 t then 1 else 0) t;
                a = (case dash of None \<Rightarrow> t | Some i \<Rightarrow> take i t);
                b = (case dash of None \<Rightarrow> t | Some i \<Rightarrow> drop (i + 1) t)
            in case number_part mn mx a of
                 Inl m \<Rightarrow> Some m
               | Inr x \<Rightarrow>
                   (case number_part mn mx b of
                      Inl m \<Rightarrow> Some m
                    | Inr y \<Rightarrow> if \<not> allowReversed \<and> y < x then Some SmallerFirst else None)))"

section \<open>Values and tokens\<close>

text \<open>\<open>folded\<close> is the case folding of \<^verbatim>\<open>Qt::CaseInsensitive\<close>, the identity for a case-sensitive check.\<close>

fun shown_values :: "nat \<Rightarrow> qstring list \<Rightarrow> qstring list" where
  "shown_values n [] = []"
| "shown_values n (v # vs) =
     (if v = [] then shown_values n vs
      else if n = 12 then [[0x2026]]
      else v # shown_values (n + 1) vs)"

definition OneOf :: "(qstring \<Rightarrow> qstring) \<Rightarrow> qstring list \<Rightarrow> Empty \<Rightarrow> rule" where
  "OneOf folded allowed e s =
     (let t = trimmed s
      in if t = [] then validationEmpty e
         else if list_ex (\<lambda>v. folded v = folded t) allowed then None
         else Some (UnknownValue (validationShort t) (shown_values 0 allowed)))"

definition validationHttpTokenChar :: "qchar \<Rightarrow> bool" where
  "validationHttpTokenChar u \<longleftrightarrow> validationAsciiAlnum u \<or> u \<in> set [33, 35, 36, 37, 38, 39, 42, 43, 45, 46, 94, 95, 96, 124, 126]"

definition HttpToken :: "Empty \<Rightarrow> rule" where
  "HttpToken e s =
     (let t = trimmed s
      in if t = [] then validationEmpty e else if list_all validationHttpTokenChar t then None else Some NotToken)"

definition Hex :: "int \<Rightarrow> int \<Rightarrow> bool \<Rightarrow> Empty \<Rightarrow> rule" where
  "Hex minChars maxChars evenLength e s =
     (let t = trimmed s
      in if t = [] then validationEmpty e
         else if \<not> list_all validationHexDigit t then Some NotHex
         else if evenLength \<and> odd (length t) then Some EvenLength
         else if 0 < maxChars \<and> maxChars < int (length t) then Some (AtMostChars maxChars)
         else if 0 < minChars \<and> int (length t) < minChars then Some (AtLeastChars minChars)
         else None)"

section \<open>Lists and rules\<close>

datatype Split = Comma | Newline | CommaOrNewline | Whitespace

text \<open>\<^verbatim>\<open>QString::simplified\<close>: the words of the text, joined by single spaces.\<close>

fun words_of :: "qstring \<Rightarrow> qstring list" where
  "words_of [] = []"
| "words_of (c # s) =
     (if isSpace c then words_of s
      else case s of
             [] \<Rightarrow> [[c]]
           | d # _ \<Rightarrow>
               if isSpace d then [c] # words_of s
               else case words_of s of [] \<Rightarrow> [[c]] | w # ws \<Rightarrow> (c # w) # ws)"

fun join_words :: "qstring list \<Rightarrow> qstring" where
  "join_words [] = []"
| "join_words [w] = w"
| "join_words (w # ws) = w @ 32 # join_words ws"

definition simplified :: "qstring \<Rightarrow> qstring" where
  "simplified s = join_words (words_of s)"

definition split_parts :: "qstring \<Rightarrow> Split \<Rightarrow> qstring list" where
  "split_parts s sp =
     (case sp of
        Comma \<Rightarrow> split_on 44 s
      | Newline \<Rightarrow> split_on 10 s
      | CommaOrNewline \<Rightarrow> split_on 44 (map (\<lambda>c. if c = 10 then 44 else c) s)
      | Whitespace \<Rightarrow> split_on 32 (simplified s))"

definition Items :: "qstring \<Rightarrow> Split \<Rightarrow> qstring list" where
  "Items s sp = filter (\<lambda>item. item \<noteq> []) (map trimmed (split_parts s sp))"

fun first_bad :: "rule \<Rightarrow> bool \<Rightarrow> nat \<Rightarrow> qstring list \<Rightarrow> message option" where
  "first_bad item echoItem i [] = None"
| "first_bad item echoItem i (x # xs) =
     (case item x of
        None \<Rightarrow> first_bad item echoItem (i + 1) xs
      | Some m \<Rightarrow> Some (ItemMessage i (if echoItem then Some (validationShort x) else None) m))"

text \<open>A rule that is not set (an empty \<^verbatim>\<open>std::function\<close>) is \<open>None\<close>.\<close>

definition EachItem :: "Split \<Rightarrow> rule option \<Rightarrow> Empty \<Rightarrow> bool \<Rightarrow> rule" where
  "EachItem sp item e echoItem s =
     (let items = Items s sp
      in if items = [] then validationEmpty e
         else case item of None \<Rightarrow> None | Some r \<Rightarrow> first_bad r echoItem 1 items)"

fun AllOf :: "rule option list \<Rightarrow> rule" where
  "AllOf [] s = None"
| "AllOf (r # rules) s =
     (case r of
        None \<Rightarrow> AllOf rules s
      | Some f \<Rightarrow> (case f s of None \<Rightarrow> AllOf rules s | Some m \<Rightarrow> Some m))"

text \<open>\<open>parse\<close> is the JSON parser: the error with its byte offset, or whether the document is an object.\<close>

definition json_position :: "(nat list \<Rightarrow> nat) \<Rightarrow> nat list \<Rightarrow> nat \<Rightarrow> nat \<times> nat" where
  "json_position utf16_size utf8 offset =
     (let bytes = take offset utf8; line = 1 + count_list bytes 10;
          rest = (case lastIndexOf 10 bytes of None \<Rightarrow> bytes | Some i \<Rightarrow> drop (i + 1) bytes)
      in (line, utf16_size rest + 1))"

definition JsonObject ::
  "(qstring \<Rightarrow> nat list) \<Rightarrow> (nat list \<Rightarrow> nat) \<Rightarrow> (nat list \<Rightarrow> (qstring \<times> int) + bool) \<Rightarrow> Empty \<Rightarrow> rule" where
  "JsonObject utf8 utf16_size parse e s =
     (if trimmed s = [] then validationEmpty e
      else
        (let bytes = utf8 s
         in case parse bytes of
              Inl (err, off) \<Rightarrow>
                (let offset = nat (max 0 (min (int (length bytes)) off));
                     (line, column) = json_position utf16_size bytes offset
                 in Some (NotJson err line column))
            | Inr isObject \<Rightarrow> if isObject then None else Some NotJsonObject))"

end
