(* ===== verification/FieldNumbers.thy ===== *)
theory FieldNumbers
  imports FieldChecks
begin

text \<open>
  What the number checks of \<^verbatim>\<open>src/global/Validation.cpp\<close> accept: the overflow guard of the integer reader
  is exact, the port reader takes every value up to 65535 however it is padded, and a range of two typed
  ports is judged by its numbers.
\<close>


lemma digits_from_simps [simp]:
  "digits_from v [] = v" "digits_from v (c # s) = digits_from (v * 10 + (c - 48)) s"
  "digits_from v (s @ t) = digits_from (digits_from v s) t"
  by (simp_all add: digits_from_def)

lemma digits_from_ge: "v \<le> digits_from v s"
proof (induction s arbitrary: v)
  case (Cons c s)
  have "v \<le> v * 10 + (c - 48)" by simp
  also have "\<dots> \<le> digits_from (v * 10 + (c - 48)) s" by (rule Cons.IH)
  finally show ?case by simp
qed simp

lemma unat_of_nat64: "n < 2 ^ 64 \<Longrightarrow> unat (of_nat n :: 64 word) = n"
  by (simp add: unsigned_of_nat take_bit_nat_eq_self)

lemma parse_digits_exact:
  assumes L: "9 \<le> unat limit" "unat limit \<le> 2 ^ 63" and v: "unat v \<le> unat limit"
  shows "parse_digits limit s v =
    (if list_all validationDigit s \<and> digits_from (unat v) s \<le> unat limit
     then Some (of_nat (digits_from (unat v) s)) else None)"
  using v
proof (induction s arbitrary: v)
  case Nil
  then show ?case by simp
next
  case (Cons c s)
  show ?case
  proof (cases "validationDigit c")
    case True
    define d where "d = c - 48"
    have d9: "d \<le> 9" using True by (auto simp: d_def validationDigit_def)
    have ud: "unat (of_nat d :: 64 word) = d" using d9 by (intro unat_of_nat64) simp
    have guard: "((limit - of_nat d) div 10 < v) = (unat limit < unat v * 10 + d)"
    proof -
      have le: "(of_nat d :: 64 word) \<le> limit" using d9 L(1) ud by (simp add: word_le_nat_alt)
      have "unat ((limit - of_nat d) div 10) = (unat limit - d) div 10"
        using le ud by (simp add: unat_div unat_sub)
      then show ?thesis using d9 L(1) by (simp add: word_less_nat_alt) linarith
    qed
    show ?thesis
    proof (cases "unat limit < unat v * 10 + d")
      case True
      with digits_from_ge [of "unat v * 10 + d" s] have "\<not> digits_from (unat v * 10 + d) s \<le> unat limit" by simp
      with True guard show ?thesis by (simp add: d_def [symmetric])
    next
      case False
      have lt: "unat v * 10 + d < 2 ^ 64" using False L(2) by simp
      have "unat (v * 10 + of_nat d) = unat v * 10 + d"
      proof -
        have "v * 10 + of_nat d = of_nat (unat v * 10 + d)" by simp
        then show ?thesis using lt by (metis unat_of_nat64)
      qed
      then show ?thesis using False guard Cons.IH [of "v * 10 + of_nat d"] \<open>validationDigit c\<close>
        by (simp add: d_def [symmetric])
    qed
  qed simp
qed



text \<open>What \<^verbatim>\<open>validationParseInt\<close> is to read: an optional minus sign and digits, within a \<^verbatim>\<open>qint64\<close>.\<close>

definition decimal_int :: "qstring \<Rightarrow> int option" where
  "decimal_int s =
     (let ds = (if startsWith 45 s then drop 1 s else s);
          v = (if startsWith 45 s then - int (decimal_value ds) else int (decimal_value ds))
      in if validationAllDigits ds \<and> - (2 ^ 63) \<le> v \<and> v < 2 ^ 63 then Some v else None)"

lemma sint_of_nat64: "n < 2 ^ 63 \<Longrightarrow> sint (of_nat n :: 64 word) = int n"
  by (simp add: signed_of_nat signed_take_bit_int_eq_self)

lemma of_nat_limit: "n \<le> 2 ^ 63 \<Longrightarrow> (of_nat n = (2 ^ 63 :: 64 word)) = (n = 2 ^ 63)"
proof -
  assume "n \<le> 2 ^ 63"
  then have "unat (of_nat n :: 64 word) = n" by (intro unat_of_nat64) simp
  moreover have "unat (2 ^ 63 :: 64 word) = 2 ^ 63" by simp
  ultimately show ?thesis by (metis of_nat_numeral of_nat_power)
qed

lemma validationParseInt_minus:
  "validationParseInt (45 # r) =
     (if r = [] then None
      else case parse_digits (2 ^ 63) r 0 of
             None \<Rightarrow> None
           | Some v \<Rightarrow> if v = 2 ^ 63 then Some (- (2 ^ 63)) else Some (- sint v))"
proof -
  have "2 ^ 63 - 1 + 1 = (2 ^ 63 :: 64 word)" by simp
  then show ?thesis by (simp only: validationParseInt_def Let_def list.sel list.distinct if_True if_False simp_thms drop_Suc_Cons drop0 One_nat_def)
qed

lemma validationParseInt_plain:
  "hd s \<noteq> 45 \<Longrightarrow> validationParseInt s =
     (if s = [] then None else map_option sint (parse_digits (2 ^ 63 - 1) s 0))"
  by (simp add: validationParseInt_def Let_def split: option.split)

lemma parse_digits_minus:
  "parse_digits (2 ^ 63) r 0 = (if list_all validationDigit r \<and> decimal_value r \<le> 2 ^ 63 then Some (of_nat (decimal_value r)) else None)"
  using parse_digits_exact [of "2 ^ 63" 0 r] by (simp add: decimal_value_def)

lemma parse_digits_plain:
  "parse_digits (2 ^ 63 - 1) r 0 = (if list_all validationDigit r \<and> decimal_value r < 2 ^ 63 then Some (of_nat (decimal_value r)) else None)"
  using parse_digits_exact [of "2 ^ 63 - 1" 0 r] by (simp add: decimal_value_def)

text \<open>
  C24. The integer reader of the forms, with its guard against overflow on 64-bit words, is the
  reference reader: it answers exactly for an optional minus sign and digits whose value is a qint64, with that
  value.
\<close>

theorem validationParseInt_exact: "validationParseInt s = decimal_int s"
proof (cases "startsWith 45 s")
  case True
  then obtain r where s: "s = 45 # r" by (cases s) (auto simp: startsWith_def)
  show ?thesis
  proof (cases "validationAllDigits r \<and> decimal_value r \<le> 2 ^ 63")
    case True
    then have "parse_digits (2 ^ 63) r 0 = Some (of_nat (decimal_value r))" and ne: "r \<noteq> []"
      unfolding parse_digits_minus validationAllDigits_def by simp_all
    moreover have "decimal_value r \<noteq> 2 ^ 63 \<Longrightarrow> sint (of_nat (decimal_value r) :: 64 word) = int (decimal_value r)"
      using True by (intro sint_of_nat64) simp
    ultimately show ?thesis unfolding s validationParseInt_minus using True
      using of_nat_limit [of "decimal_value r"] by (simp add: decimal_int_def startsWith_def)
  next
    case False
    then have "r = [] \<or> parse_digits (2 ^ 63) r 0 = None" unfolding parse_digits_minus validationAllDigits_def by auto
    with False show ?thesis unfolding s validationParseInt_minus
      by (auto simp: decimal_int_def startsWith_def)
  qed
next
  case plain: False
  show ?thesis
  proof (cases "s = []")
    case True
    then show ?thesis by (simp add: validationParseInt_def decimal_int_def startsWith_def validationAllDigits_def)
  next
    case False
    with plain have h: "hd s \<noteq> 45" by (simp add: startsWith_def)
    show ?thesis
    proof (cases "list_all validationDigit s \<and> decimal_value s < 2 ^ 63")
      case True
      then show ?thesis unfolding validationParseInt_plain [OF h] parse_digits_plain using plain False
        by (simp add: decimal_int_def validationAllDigits_def sint_of_nat64)
    next
      case bad: False
      then have "parse_digits (2 ^ 63 - 1) s 0 = None" by (simp only: parse_digits_plain if_False)
      then show ?thesis unfolding validationParseInt_plain [OF h] using plain False bad
        by (simp add: decimal_int_def validationAllDigits_def)
    qed
  qed
qed

abbreviation "port_sep style \<equiv> (if sep_colon style then 58 else 45 :: qchar)"

lemma digits_from_power: "v * 10 ^ length s \<le> digits_from v s"
proof (induction s arbitrary: v)
  case (Cons c s)
  have "v * 10 ^ length (c # s) \<le> (v * 10 + (c - 48)) * 10 ^ length s" by (simp add: algebra_simps)
  also have "\<dots> \<le> digits_from (v * 10 + (c - 48)) s" by (rule Cons.IH)
  finally show ?case by simp
qed simp

lemma skip_zeros_digits:
  "validationAllDigits s \<Longrightarrow> validationAllDigits (skip_zeros s) \<and> decimal_value (skip_zeros s) = decimal_value s \<and>
     (length (skip_zeros s) = 1 \<or> hd (skip_zeros s) \<noteq> 48)"
  by (induction s rule: skip_zeros.induct) (auto simp: validationAllDigits_def decimal_value_def validationDigit_def)

theorem validationParseUint16_exact:
  "validationParseUint16 s =
     (if validationAllDigits s \<and> decimal_value s \<le> 65535 then Some (decimal_value s) else None)"
proof (cases "validationAllDigits s")
  case True
  let ?z = "skip_zeros s"
  note z = skip_zeros_digits [OF True]
  have "65535 < decimal_value ?z" if long: "5 < length ?z"
  proof (cases ?z)
    case (Cons c r)
    with z long have "1 \<le> c - 48" by (auto simp: validationAllDigits_def validationDigit_def)
    then have "1 * 10 ^ 5 \<le> (c - 48) * 10 ^ length r" using long Cons by (intro mult_le_mono power_increasing) auto
    also have "\<dots> \<le> decimal_value ?z" using digits_from_power [of "c - 48" r] Cons by (simp add: decimal_value_def)
    finally show ?thesis by simp
  qed (use long in simp)
  with z True show ?thesis by (auto simp: validationParseUint16_def Let_def)
qed (simp add: validationParseUint16_def)

lemma numberOf_digits [simp]: "validationAllDigits (numberOf n)"
  by (auto simp: validationAllDigits_def list_all_iff validationDigit_def dest: numberOf_char)

lemma digits_from_numberOf: "decimal_value (numberOf n) = n"
proof -
  have "digits_from v (map hexChar ds) = foldl (\<lambda>v d. v * 10 + d) v ds" if "\<forall>d \<in> set ds. d < 10" for v ds
    using that by (induction ds arbitrary: v) (simp_all add: hexChar_def)
  then show ?thesis using digits_bound [of 10 _ n] digits_value [of 10 n] by (simp add: decimal_value_def numberBase_def)
qed

lemma validationParseUint16_numberOf [simp]:
  "validationParseUint16 (numberOf n) = (if n \<le> 65535 then Some n else None)"
  by (simp add: validationParseUint16_exact digits_from_numberOf)

lemma digits_no_space: "validationDigit c \<Longrightarrow> \<not> isSpace c"
  by (auto simp: validationDigit_def isSpace_def)

lemma trimmed_numberOf [simp]: "trimmed (numberOf n) = numberOf n"
  by (rule trimmed_no_space) (auto dest!: numberOf_char simp: isSpace_def)

theorem PortRange_typed:
  "PortRange style (numberOf a @ port_sep style # numberOf b) =
     (if 65535 < a \<or> 65535 < b then Some PortsTooLarge
      else if checkOrder style \<and> b < a then Some RangeMatchesNothing else None)"
proof -
  have "trimmed (numberOf a @ port_sep style # numberOf b) = numberOf a @ port_sep style # numberOf b"
    by (rule trimmed_no_space) (auto dest!: numberOf_char simp: isSpace_def)
  moreover have "indexOf (port_sep style) (numberOf a @ port_sep style # numberOf b) = Some (length (numberOf a))"
    by (rule indexOf_append) (auto dest!: numberOf_char split: if_splits)
  ultimately show ?thesis by (simp add: PortRange_def range_side_def)
qed

lemma range_side_order [simp]: "range_side (style\<lparr>checkOrder := x\<rparr>) = range_side style"
  by (intro ext) (simp add: range_side_def split: option.split)

theorem PortRange_in_two_parts:
  "PortRange style s = None \<longleftrightarrow>
     PortRange (style\<lparr>checkOrder := False\<rparr>) s = None \<and> (checkOrder style \<longrightarrow> PortRangeOrder style s = None)"
proof (cases "indexOf (port_sep style) (trimmed s)")
  case None
  then show ?thesis by (simp add: PortRangeOrder_def PortRange_def Let_def del: indexOf_None)
next
  case (Some i)
  let ?l = "range_side style (take i (trimmed s)) 0" and ?r = "range_side style (drop (i + 1) (trimmed s)) 65535"
  show ?thesis using Some
    by (cases ?l; cases ?r) (simp_all add: PortRangeOrder_def PortRange_def Let_def del: indexOf_None)
qed

end
