(* ===== verification/FieldRegex.thy ===== *)
theory FieldRegex
  imports FieldNumbers
begin

text \<open>
  The check of regular expressions in \<^verbatim>\<open>src/global/Validation.cpp\<close>: what Go's engine refuses, the copy of a
  pattern that PCRE is to judge, and the check that asks both. An index into the pattern is the rest of the
  text from there; \<open>pcre\<close> is \<^verbatim>\<open>QRegularExpression\<close>: the error text of a pattern that is not valid.
\<close>

section \<open>Escapes\<close>

definition char_in :: "qchar \<Rightarrow> string \<Rightarrow> bool" where
  "char_in c s \<longleftrightarrow> c \<in> set (map of_char s)"

definition strip_caret :: "qstring \<Rightarrow> qstring" where
  "strip_caret s = (if startsWith 94 s then drop 1 s else s)"

text \<open>The property name of \<^verbatim>\<open>\\p\<close>: the name, the text it takes, and the rest; \<open>None\<close> for a brace that is not closed.\<close>

definition property_name :: "qstring \<Rightarrow> (qstring \<times> qstring \<times> qstring) option" where
  "property_name r =
     (if startsWith 123 r then
        (case indexOf 125 r of
           None \<Rightarrow> None
         | Some k \<Rightarrow> Some (take (k - 1) (drop 1 r), take (k + 1) r, drop (k + 1) r))
      else Some (take 1 r, take 1 r, drop 1 r))"

definition foreign_property :: "qstring \<Rightarrow> bool" where
  "foreign_property name =
     (let name = dropWhile (\<lambda>c. c = 95 \<or> c = 45 \<or> c = 32) (strip_caret name)
      in startsWith 88 name \<or> startsWith 120 name \<or> 38 \<in> set name \<or> 58 \<in> set name \<or> 61 \<in> set name)"

definition hex_value :: "qstring \<Rightarrow> nat" where
  "hex_value s = foldl (\<lambda>v c. 16 * v + (case HexDigit c of None \<Rightarrow> 0 | Some d \<Rightarrow> d)) 0 s"

text \<open>
  \<open>re2_escape d r\<close> is the escape \<open>\\d\<close> before the text \<open>r\<close>: the token the engine refuses, empty for none, and
  the text after the escape.
\<close>

definition re2_escape :: "qchar \<Rightarrow> qstring \<Rightarrow> bool \<Rightarrow> qstring \<times> qstring" where
  "re2_escape d r inClass =
     (if d < 0x80 \<and> \<not> validationAsciiAlnum d then ([], r)
      else if d = 112 \<or> d = 80 then
        (case property_name r of
           None \<Rightarrow> ([], r)
         | Some (name, used, rest) \<Rightarrow> (if foreign_property name then [92, d] @ used else [], rest))
      else if d = 120 then
        (if startsWith 123 r then
           (case indexOf 125 r of
              None \<Rightarrow> ([92, d] @ r, [])
            | Some k \<Rightarrow>
                (let ds = take (k - 1) (drop 1 r)
                 in (if ds \<noteq> [] \<and> list_all validationHexDigit ds \<and> hex_value ds \<le> 0x10FFFF then []
                     else [92, d] @ take (k + 1) r, drop (k + 1) r)))
         else if 2 \<le> length r \<and> list_all validationHexDigit (take 2 r) then ([], drop 2 r)
         else ([92, d] @ take 2 r, r))
      else if char_in d ''dDsSwWafnrtv0'' then ([], r)
      else if char_in d ''AbBz'' \<and> \<not> inClass then ([], r)
      else if char_in d ''1234567'' \<and> r \<noteq> [] \<and> 48 \<le> hd r \<and> hd r \<le> 55 then ([], r)
      else ([92, d], r))"

section \<open>Groups and repeats\<close>

definition validationGoCaptureName :: "qstring \<Rightarrow> bool" where
  "validationGoCaptureName name \<longleftrightarrow> name \<noteq> [] \<and> list_all (\<lambda>c. validationAsciiAlnum c \<or> c = 95) name"

record ValidationRe2Group =
  bad :: qstring
  taken :: nat
  opens :: bool

definition refused :: "qstring \<Rightarrow> nat \<Rightarrow> ValidationRe2Group" where
  "refused rest n = \<lparr>bad = [40, 63] @ take n rest, taken = 0, opens = True\<rparr>"

text \<open>The loop over the flags, \<open>k\<close> characters into \<open>rest\<close>.\<close>

fun group_flags :: "qstring \<Rightarrow> nat \<Rightarrow> bool \<Rightarrow> bool \<Rightarrow> qstring \<Rightarrow> ValidationRe2Group" where
  "group_flags rest k negated sawFlag [] = \<lparr>bad = [], taken = 0, opens = True\<rparr>"
| "group_flags rest k negated sawFlag (f # fs) =
     (if f = 58 \<or> f = 41 then
        (if negated \<and> \<not> sawFlag then refused rest (k + 1)
         else \<lparr>bad = [], taken = k + 1, opens = (f = 58)\<rparr>)
      else if f = 45 then
        (if negated then refused rest (k + 1) else group_flags rest (k + 1) True False fs)
      else if char_in f ''imsU'' then group_flags rest (k + 1) negated True fs
      else refused rest (k + 1))"

definition at :: "qstring \<Rightarrow> nat \<Rightarrow> qchar" where
  "at s k = (if k < length s then s ! k else 0)"

definition validationRe2Group :: "qstring \<Rightarrow> ValidationRe2Group" where
  "validationRe2Group rest =
     (let c0 = at rest 0; c1 = at rest 1
      in if (c0 = 80 \<and> c1 = 60) \<or> (c0 = 60 \<and> c1 \<noteq> 61 \<and> c1 \<noteq> 33) then
           (let nameStart = (if c0 = 80 then 2 else 1)
            in case indexOf 62 rest of
                 None \<Rightarrow> \<lparr>bad = [], taken = 0, opens = True\<rparr>
               | Some close \<Rightarrow>
                   if \<not> validationGoCaptureName (take (close - nameStart) (drop nameStart rest))
                   then refused rest (close + 1)
                   else \<lparr>bad = [], taken = close + 1, opens = True\<rparr>)
         else if c0 = 60 \<or> (c0 = 80 \<and> (c1 = 61 \<or> c1 = 62)) \<or> (c0 = 45 \<and> validationDigit c1) then refused rest 2
         else if c0 \<in> {61, 33, 62, 40, 35, 124, 39, 82, 38, 43} \<or> validationDigit c0 then refused rest 1
         else group_flags rest 0 False False rest)"

text \<open>A number of a repeat, and the text after it; \<open>None\<close> where the brace is a literal.\<close>

definition repeat_number :: "qstring \<Rightarrow> (nat \<times> qstring) option" where
  "repeat_number s =
     (let ds = takeWhile validationDigit s
      in if ds = [] \<or> (1 < length ds \<and> hd ds = 48) then None
         else Some (if 7 < length ds then 100000000 else decimal_value ds, dropWhile validationDigit s))"

text \<open>
  \<open>validationRepeatEnd s\<close> reads the repeat after an opening brace: the least and the greatest count (\<open>None\<close> when
  there is no bound) and the text after it.
\<close>

definition repeat_close :: "nat \<Rightarrow> nat option \<Rightarrow> qstring \<Rightarrow> (nat \<times> nat option \<times> qstring) option" where
  "repeat_close mn mx s = (if startsWith 125 s then Some (mn, mx, drop 1 s) else None)"

definition validationRepeatEnd :: "qstring \<Rightarrow> (nat \<times> nat option \<times> qstring) option" where
  "validationRepeatEnd s =
     (case repeat_number s of
        None \<Rightarrow> None
      | Some (mn, s) \<Rightarrow>
          if startsWith 44 s then
            (if startsWith 125 (drop 1 s) then repeat_close mn None (drop 1 s)
             else case repeat_number (drop 1 s) of
                    None \<Rightarrow> None
                  | Some (mx, s) \<Rightarrow> repeat_close mn (Some mx) s)
          else repeat_close mn (Some mn) s)"

section \<open>What Go's engine refuses\<close>

text \<open>
  The state of the loop: the stack \<^verbatim>\<open>groups\<close> with its back first, the weight \<^verbatim>\<open>last\<close>, and \<open>class_start\<close> for
  \<^verbatim>\<open>i == classStart\<close>.
\<close>

record re2 =
  weights :: "nat list"
  last_weight :: nat
  in_class :: bool
  class_start :: bool
  rest :: qstring

definition commit :: "re2 \<Rightarrow> re2" where
  "commit s = s\<lparr>weights := max (hd (weights s)) (last_weight s) # tl (weights s), last_weight := 0\<rparr>"

definition atom :: "re2 \<Rightarrow> re2" where
  "atom s = (commit s)\<lparr>last_weight := 1\<rparr>"

definition unsupported :: "qstring \<Rightarrow> message option + re2" where
  "unsupported token = Inl (Some (Re2Unsupported token))"

definition step_escape :: "qstring \<Rightarrow> re2 \<Rightarrow> message option + re2" where
  "step_escape t s =
     (if t = [] then Inl None
      else
        (let s' = (if in_class s then s else atom s)
         in if \<not> in_class s \<and> hd t = 81 then
              (case indexOfStr [92, 69] (drop 1 t) of
                 None \<Rightarrow> Inl None
               | Some k \<Rightarrow> Inr (s'\<lparr>rest := drop (k + 3) t\<rparr>))
            else
              (let (b, r) = re2_escape (hd t) (drop 1 t) (in_class s)
               in if b \<noteq> [] then unsupported b else Inr (s'\<lparr>rest := r, class_start := False\<rparr>))))"

definition step_class :: "qchar \<Rightarrow> qstring \<Rightarrow> re2 \<Rightarrow> message option + re2" where
  "step_class c t s =
     (case (if c = 91 \<and> startsWith 58 t then indexOfStr [58, 93] (drop 1 t) else None) of
        Some k \<Rightarrow> Inr (s\<lparr>rest := drop (k + 3) t, class_start := False\<rparr>)
      | None \<Rightarrow>
          Inr (s\<lparr>in_class := \<not> (c = 93 \<and> \<not> class_start s), rest := t, class_start := False\<rparr>))"

definition step_open :: "qstring \<Rightarrow> re2 \<Rightarrow> message option + re2" where
  "step_open t s =
     (let push = \<lambda>s. s\<lparr>weights := 1 # weights s\<rparr>
      in if startsWith 42 t then
           unsupported (case indexOf 41 t of None \<Rightarrow> 40 # take 1 t | Some k \<Rightarrow> 40 # take (k + 1) t)
         else if startsWith 63 t then
           (let g = validationRe2Group (drop 1 t)
            in if bad g \<noteq> [] then unsupported (bad g)
               else Inr ((if opens g then push (commit s) else commit s)\<lparr>rest := drop (1 + taken g) t\<rparr>))
         else Inr ((push (commit s))\<lparr>rest := t\<rparr>))"

definition step_close :: "qstring \<Rightarrow> re2 \<Rightarrow> message option + re2" where
  "step_close t s =
     (let s = commit s
      in Inr ((if 1 < length (weights s) then s\<lparr>last_weight := hd (weights s), weights := tl (weights s)\<rparr> else s)
                \<lparr>rest := t\<rparr>))"

definition step_repeat :: "qstring \<Rightarrow> re2 \<Rightarrow> message option + re2" where
  "step_repeat t s =
     (case validationRepeatEnd t of
        None \<Rightarrow> Inr ((atom s)\<lparr>rest := t\<rparr>)
      | Some (mn, mx, r) \<Rightarrow>
          let m = (case mx of None \<Rightarrow> mn | Some x \<Rightarrow> x);
              w = (if mx = Some 0 then 1 else if 1 < m then last_weight s * m else last_weight s)
          in if 1000 < mn \<or> (case mx of None \<Rightarrow> False | Some x \<Rightarrow> 1000 < x) then Inl (Some TooManyRepeats)
             else if startsWith 43 r then unsupported (123 # take (length t - length r + 1) t)
             else if mx \<noteq> Some 0 \<and> 1 < m \<and> 1000 < w then Inl (Some TooManyRepeats)
             else Inr (s\<lparr>last_weight := w, rest := (if startsWith 63 r then drop 1 r else r)\<rparr>))"

definition re2_step :: "qchar \<Rightarrow> qstring \<Rightarrow> re2 \<Rightarrow> message option + re2" where
  "re2_step c t s =
     (if c = 92 then step_escape t s
      else if in_class s then step_class c t s
      else if c = 91 then
        Inr ((atom s)\<lparr>in_class := True, class_start := True, rest := strip_caret t\<rparr>)
      else if c = 40 then step_open t s
      else if c = 41 then step_close t s
      else if c = 124 then Inr ((commit s)\<lparr>rest := t\<rparr>)
      else if c = 42 \<or> c = 43 \<or> c = 63 then
        (if startsWith 43 t then unsupported [c, 43]
         else Inr (s\<lparr>rest := (if startsWith 63 t then drop 1 t else t)\<rparr>))
      else if c = 123 then step_repeat t s
      else Inr ((atom s)\<lparr>rest := t\<rparr>))"

lemma property_name_length: "property_name r = Some (a, b, u) \<Longrightarrow> length u \<le> length r"
  by (auto simp: property_name_def split: if_splits option.splits)

lemma re2_escape_length: "length (snd (re2_escape d r ic)) \<le> length r"
  by (auto simp: re2_escape_def Let_def split: option.split dest: property_name_length)

lemma repeat_number_length: "repeat_number s = Some (n, r) \<Longrightarrow> length r \<le> length s"
  by (auto simp: repeat_number_def Let_def length_dropWhile_le split: if_splits)

lemma validationRepeatEnd_length: "validationRepeatEnd s = Some (mn, mx, r) \<Longrightarrow> length r \<le> length s"
  by (force simp: validationRepeatEnd_def repeat_close_def split: if_splits option.splits dest: repeat_number_length)

lemma re2_step_length: "re2_step c t s = Inr s' \<Longrightarrow> length (rest s') \<le> length t"
proof -
  assume a: "re2_step c t s = Inr s'"
  have "step_escape t s = Inr s' \<Longrightarrow> ?thesis"
    using re2_escape_length [of "hd t" "drop 1 t" "in_class s"]
    by (cases t) (auto simp: step_escape_def unsupported_def Let_def split: if_splits option.splits prod.splits)
  moreover have "step_repeat t s = Inr s' \<Longrightarrow> ?thesis"
    using validationRepeatEnd_length [of t]
    by (force simp: step_repeat_def unsupported_def Let_def split: if_splits option.splits prod.splits)
  moreover have "step_class c t s = Inr s' \<Longrightarrow> ?thesis"
    by (auto simp: step_class_def split: option.splits)
  moreover have "step_open t s = Inr s' \<Longrightarrow> ?thesis" "step_close t s = Inr s' \<Longrightarrow> ?thesis"
    by (auto simp: step_open_def step_close_def unsupported_def Let_def split: if_splits)
  ultimately show ?thesis using a
    by (auto simp: re2_step_def unsupported_def strip_caret_def split: if_splits)
qed

function re2_loop :: "re2 \<Rightarrow> message option" where
  "re2_loop s =
     (case rest s of
        [] \<Rightarrow> None
      | c # t \<Rightarrow> (case re2_step c t s of Inl m \<Rightarrow> m | Inr s' \<Rightarrow> re2_loop s'))"
  by pat_completeness auto
termination
  by (relation "measure (\<lambda>s. length (rest s))") (auto dest: re2_step_length)

declare re2_loop.simps [simp del]

definition validationRe2Unsupported :: rule where
  "validationRe2Unsupported p =
     re2_loop \<lparr>weights = [1], last_weight = 0, in_class = False, class_start = False, rest = p\<rparr>"

end
