(* ===== verification/FieldPcre.thy ===== *)
theory FieldPcre
  imports FieldRegex
begin

text \<open>
  The copy of a pattern that PCRE is to judge (\<^verbatim>\<open>validationPcreCopy\<close>), and the two checks of regular expressions.
\<close>

section \<open>Helpers\<close>

definition go_property_names :: "qstring list" where
  "go_property_names = map (map of_char)
     [''assigned'', ''casedletter'', ''closepunctuation'', ''cntrl'', ''combiningmark'', ''connectorpunctuation'', ''control'',
      ''currencysymbol'', ''dashpunctuation'', ''decimalnumber'', ''digit'', ''enclosingmark'', ''finalpunctuation'', ''format'',
      ''initialpunctuation'', ''letter'', ''letternumber'', ''lineseparator'', ''lowercaseletter'', ''mark'', ''mathsymbol'',
      ''modifierletter'', ''modifiersymbol'', ''nonspacingmark'', ''number'', ''openpunctuation'', ''other'', ''otherletter'',
      ''othernumber'', ''otherpunctuation'', ''othersymbol'', ''paragraphseparator'', ''privateuse'', ''punct'', ''punctuation'',
      ''separator'', ''spaceseparator'', ''spacingmark'', ''surrogate'', ''symbol'', ''titlecaseletter'', ''unassigned'',
      ''uppercaseletter'']"

fun canonical_name :: "qstring \<Rightarrow> qstring option" where
  "canonical_name [] = Some []"
| "canonical_name (u # s) =
     (if u = 95 \<or> u = 45 \<or> u = 32 then canonical_name s
      else if \<not> validationAsciiAlnum u then None
      else map_option ((#) (if 65 \<le> u \<and> u \<le> 90 then u + 32 else u)) (canonical_name s))"

definition validationGoOnlyProperty :: "qstring \<Rightarrow> bool" where
  "validationGoOnlyProperty name =
     (case canonical_name name of None \<Rightarrow> False | Some c \<Rightarrow> c \<in> set go_property_names)"

text \<open>The text after the flag groups, each a \<^verbatim>\<open>(?flags)\<close> that opens nothing.\<close>

function flagGroupsEnd :: "qstring \<Rightarrow> qstring" where
  "flagGroupsEnd s =
     (if take 2 s = [40, 63] then
        (let g = validationRe2Group (drop 2 s)
         in if bad g \<noteq> [] \<or> opens g then s else flagGroupsEnd (drop (2 + taken g) s))
      else s)"
  by pat_completeness auto
termination
  by (relation "measure length") (auto intro!: diff_less)

declare flagGroupsEnd.simps [simp del]

text \<open>The text after a quantifier, \<open>None\<close> where there is none.\<close>

definition quantifierEnd :: "qstring \<Rightarrow> qstring option" where
  "quantifierEnd s =
     (let end1 =
        (if s = [] then None
         else if hd s = 42 \<or> hd s = 43 \<or> hd s = 63 then Some (drop 1 s)
         else if hd s = 123 then map_option (\<lambda>(mn, mx, r). r) (validationRepeatEnd (drop 1 s))
         else None)
      in map_option (\<lambda>r. if startsWith 63 r \<or> startsWith 43 r then drop 1 r else r) end1)"

section \<open>The copy\<close>

record pcre =
  out :: qstring
  names :: "qstring list"
  renamed :: nat
  p_in_class :: bool
  after_class :: bool
  p_class_start :: bool
  p_rest :: qstring

definition emit :: "qstring \<Rightarrow> qstring \<Rightarrow> pcre \<Rightarrow> pcre" where
  "emit t r s = s\<lparr>out := out s @ t, p_rest := r, p_class_start := False\<rparr>"

definition copy_property :: "qchar \<Rightarrow> qstring \<Rightarrow> pcre \<Rightarrow> pcre" where
  "copy_property d r s =
     (case property_name r of
        None \<Rightarrow> emit ([92, d] @ r) [] s
      | Some (name, used, r') \<Rightarrow>
          emit (if validationGoOnlyProperty (strip_caret name) then [92, 112, 76] else [92, d] @ used) r' s)"

definition copy_assertion :: "qstring \<Rightarrow> qstring \<Rightarrow> pcre \<Rightarrow> pcre" where
  "copy_assertion token r s =
     emit (if quantifierEnd (flagGroupsEnd r) \<noteq> None then [40, 63, 58] @ token @ [41] else token) r s"

text \<open>\<open>fuel\<close> bounds the search for a name that is not taken: one more candidate than there are names.\<close>

fun fresh_name :: "nat \<Rightarrow> qstring list \<Rightarrow> nat \<Rightarrow> nat" where
  "fresh_name 0 ns k = k + 1"
| "fresh_name (Suc fuel) ns k = (if 95 # numberOf (k + 1) \<in> set ns then fresh_name fuel ns (k + 1) else k + 1)"

definition copy_in_class :: "qchar \<Rightarrow> qstring \<Rightarrow> pcre \<Rightarrow> pcre" where
  "copy_in_class c t s =
     (if c = 92 \<and> t \<noteq> [] then
        (if hd t = 112 \<or> hd t = 80 then (copy_property (hd t) (drop 1 t) s)\<lparr>after_class := True\<rparr>
         else (emit [92, hd t] (drop 1 t) s)\<lparr>after_class := char_in (hd t) ''dDsSwW''\<rparr>)
      else
        (case (if c = 91 \<and> startsWith 58 t then indexOfStr [58, 93] (drop 1 t) else None) of
           Some k \<Rightarrow> (emit (91 # take (k + 3) t) (drop (k + 3) t) s)\<lparr>after_class := True\<rparr>
         | None \<Rightarrow>
             (if c = 45 \<and> after_class s then emit [92, 45] t s
              else if c = 91 \<and> (startsWith 46 t \<or> startsWith 61 t) then emit [92, 91] t s
              else (emit [c] t s)\<lparr>p_in_class := \<not> (c = 93 \<and> \<not> p_class_start s)\<rparr>)\<lparr>after_class := False\<rparr>))"

definition copy_escape :: "qchar \<Rightarrow> qstring \<Rightarrow> pcre \<Rightarrow> pcre" where
  "copy_escape d r s =
     (if d = 81 then
        (case indexOfStr [92, 69] r of
           None \<Rightarrow> emit ([92, d] @ r) [] s
         | Some k \<Rightarrow> emit ([92, d] @ take (k + 2) r) (drop (k + 2) r) s)
      else if d = 112 \<or> d = 80 then copy_property d r s
      else if char_in d ''bBAz'' then copy_assertion [92, d] r s
      else if char_in d ''xogkN'' \<and> startsWith 123 r then
        (case indexOf 125 (drop 1 r) of
           None \<Rightarrow> emit ([92, d] @ r) [] s
         | Some k \<Rightarrow> emit ([92, d] @ take (k + 2) r) (drop (k + 2) r) s)
      else emit [92, d] r s)"

definition copy_open_class :: "qstring \<Rightarrow> pcre \<Rightarrow> pcre" where
  "copy_open_class t s =
     (let caret = (if startsWith 94 t then [94] else []); r = strip_caret t;
          guard = (if startsWith 58 r \<or> startsWith 46 r \<or> startsWith 61 r then [92] else [])
      in (emit ([91] @ caret @ guard) r s)\<lparr>p_in_class := True, after_class := False, p_class_start := True\<rparr>)"

definition name_start :: "qstring \<Rightarrow> nat" where
  "name_start r =
     (if take 2 r = [80, 60] then 2
      else if startsWith 60 r \<and> take 2 r \<noteq> [60, 61] \<and> take 2 r \<noteq> [60, 33] then 1
      else 0)"

text \<open>A group with a question mark; \<open>r\<close> is the text after the two characters.\<close>

definition copy_group :: "qstring \<Rightarrow> pcre \<Rightarrow> pcre" where
  "copy_group r s =
     (let p = [40, 63] @ r; flags = flagGroupsEnd p; used = take (length p - length flags) p
      in if length flags < length p then
           (case quantifierEnd flags of
              Some q \<Rightarrow> emit (take (length flags - length q) flags @ used) q s
            | None \<Rightarrow> emit used flags s)
         else
           (let k = name_start r
            in case (if 0 < k then indexOf 62 r else None) of
                 Some close \<Rightarrow>
                   if k < close then
                     (let name = take (close - k) (drop k r)
                      in if validationGoCaptureName name \<and>
                            (validationDigit (hd name) \<or> 32 < length name \<or> name \<in> set (names s)) then
                           (let n = fresh_name (length (names s) + 1) (names s) (renamed s);
                                fresh = 95 # numberOf n
                            in (emit ([40, 63] @ take k r @ fresh @ [62]) (drop (close + 1) r) s)
                                 \<lparr>names := fresh # names s, renamed := n\<rparr>)
                         else
                           (emit ([40, 63] @ take (close + 1) r) (drop (close + 1) r) s)\<lparr>names := name # names s\<rparr>)
                   else emit [40, 63] r s
               | None \<Rightarrow> emit [40, 63] r s))"

definition copy_step :: "qchar \<Rightarrow> qstring \<Rightarrow> pcre \<Rightarrow> pcre" where
  "copy_step c t s =
     (if p_in_class s then copy_in_class c t s
      else if c = 92 \<and> t \<noteq> [] then copy_escape (hd t) (drop 1 t) s
      else if c = 94 \<or> c = 36 then copy_assertion [c] t s
      else if c = 91 then copy_open_class t s
      else if c = 40 \<and> startsWith 63 t then copy_group (drop 1 t) s
      else if c = 123 \<and> validationRepeatEnd t = None then emit [92, 123] t s
      else emit [c] t s)"

lemma flagGroupsEnd_length: "length (flagGroupsEnd s) \<le> length s"
proof (induction s rule: flagGroupsEnd.induct)
  case (1 s)
  show ?case
  proof (cases "take 2 s = [40, 63] \<and> \<not> (bad (validationRe2Group (drop 2 s)) \<noteq> [] \<or> opens (validationRe2Group (drop 2 s)))")
    case True
    then show ?thesis using 1 [OF _ refl] by (subst flagGroupsEnd.simps) (force simp: Let_def)
  next
    case False
    then show ?thesis by (subst flagGroupsEnd.simps) (auto simp: Let_def)
  qed
qed

lemma quantifierEnd_length: "quantifierEnd s = Some r \<Longrightarrow> length r < length s"
proof -
  assume a: "quantifierEnd s = Some r"
  then obtain c t where s: "s = c # t" by (cases s) (auto simp: quantifierEnd_def)
  then show ?thesis using a validationRepeatEnd_length [of t]
    by (force simp: quantifierEnd_def Let_def split: if_splits)
qed

lemma p_rest_emit [simp]: "p_rest (emit a r s) = r"
  by (simp add: emit_def)

lemma copy_property_length: "length (p_rest (copy_property d r s)) \<le> length r"
  by (auto simp: copy_property_def split: option.split dest: property_name_length)

lemma copy_group_length: "length (p_rest (copy_group r s)) < Suc (Suc (length r))"
proof -
  have q: "quantifierEnd (flagGroupsEnd ([40, 63] @ r)) = Some q \<Longrightarrow> length q < Suc (Suc (length r))" for q
    using quantifierEnd_length [of "flagGroupsEnd ([40, 63] @ r)" q] flagGroupsEnd_length [of "[40, 63] @ r"] by simp
  show ?thesis using q by (auto simp: copy_group_def Let_def split: option.split)
qed

lemma copy_step_length: "length (p_rest (copy_step c t s)) \<le> length t"
proof -
  have "length (p_rest (copy_in_class c t s)) \<le> length t"
    using copy_property_length [of "hd t" "drop 1 t" s]
    by (auto simp: copy_in_class_def split: option.split)
  moreover have "length (p_rest (copy_escape (hd t) (drop 1 t) s)) \<le> length t"
    using copy_property_length [of "hd t" "drop 1 t" s]
    by (auto simp: copy_escape_def copy_assertion_def split: option.split)
  moreover have "startsWith 63 t \<Longrightarrow> length (p_rest (copy_group (drop 1 t) s)) \<le> length t"
    using copy_group_length [of "drop 1 t" s] by (cases t) (auto simp: startsWith_def)
  ultimately show ?thesis
    by (simp add: copy_step_def copy_assertion_def copy_open_class_def strip_caret_def Let_def)
qed

function copy_loop :: "pcre \<Rightarrow> pcre" where
  "copy_loop s = (case p_rest s of [] \<Rightarrow> s | c # t \<Rightarrow> copy_loop (copy_step c t s))"
  by pat_completeness auto
termination
  by (relation "measure (\<lambda>s. length (p_rest s))") (auto simp: less_Suc_eq_le copy_step_length)

declare copy_loop.simps [simp del]

definition validationPcreCopy :: "qstring \<Rightarrow> qstring" where
  "validationPcreCopy p =
     out (copy_loop \<lparr>out = [], names = [], renamed = 0, p_in_class = False, after_class = False,
                     p_class_start = False, p_rest = p\<rparr>)"

section \<open>The checks\<close>

definition Regex :: "(qstring \<Rightarrow> qstring option) \<Rightarrow> rule" where
  "Regex pcre pattern =
     (let t = trimmed pattern in if t = [] then None else map_option BadRegex (pcre t))"

definition GoRegex :: "(qstring \<Rightarrow> qstring option) \<Rightarrow> rule" where
  "GoRegex pcre pattern =
     (let t = trimmed pattern
      in case Regex pcre (validationPcreCopy t) of
           Some m \<Rightarrow> Some m
         | None \<Rightarrow> validationRe2Unsupported t)"

end
