(* ===== verification/FieldRegexCounts.thy ===== *)
theory FieldRegexCounts
  imports FieldPcre
begin

text \<open>
  The two halves of the check of regular expressions on patterns of letters, sequences, choices, stars and counted
  repeats: the copy PCRE judges is the pattern itself, and the pattern is refused exactly when a product of nested
  counts passes the limit of 1000. The search for a fresh group name has fuel enough.
\<close>

section \<open>The search for a fresh name\<close>

lemma numberOf_injective: "numberOf m = numberOf n \<Longrightarrow> m = n"
  by (metis digits_from_numberOf)

lemma fresh_name_step:
  "fresh_name fuel ns k \<le> k + fuel + 1 \<and>
     (95 # numberOf (fresh_name fuel ns k) \<in> set ns \<longrightarrow> (\<forall>j \<in> {k + 1..k + fuel}. 95 # numberOf j \<in> set ns))"
proof (induction fuel arbitrary: k)
  case (Suc fuel)
  show ?case
  proof (cases "95 # numberOf (k + 1) \<in> set ns")
    case True
    moreover have "{k + 1..k + Suc fuel} = insert (k + 1) {k + 1 + 1..k + 1 + fuel}" by auto
    ultimately show ?thesis using Suc [of "k + 1"] by simp
  qed simp
qed simp

lemma fresh_name_fresh: "95 # numberOf (fresh_name (length ns + 1) ns k) \<notin> set ns"
proof
  assume "95 # numberOf (fresh_name (length ns + 1) ns k) \<in> set ns"
  then have "(\<lambda>j. 95 # numberOf j) ` {k + 1..k + (length ns + 1)} \<subseteq> set ns"
    using fresh_name_step [of "length ns + 1" ns k] by blast
  then have "card ((\<lambda>j. 95 # numberOf j) ` {k + 1..k + (length ns + 1)}) \<le> card (set ns)"
    by (intro card_mono) simp_all
  moreover have "inj_on (\<lambda>j. 95 # numberOf j) {k + 1..k + (length ns + 1)}"
    by (rule inj_onI) (auto dest: numberOf_injective)
  ultimately have "card {k + 1..k + (length ns + 1)} \<le> card (set ns)" by (simp add: card_image)
  then show False using card_length [of ns] by simp
qed

section \<open>Patterns with counted repeats\<close>

datatype pattern =
    Letter qchar
  | Sequence pattern pattern
  | Choice pattern pattern
  | Star pattern
  | Repeat pattern nat "nat option"

definition braces :: "nat \<Rightarrow> nat option \<Rightarrow> qstring" where
  "braces mn mx = [123] @ numberOf mn @ [44] @ (case mx of None \<Rightarrow> [] | Some x \<Rightarrow> numberOf x) @ [125]"

primrec print :: "pattern \<Rightarrow> qstring" where
  "print (Letter c) = [c]"
| "print (Sequence a b) = print a @ print b"
| "print (Choice a b) = [40] @ print a @ [124] @ print b @ [41]"
| "print (Star a) = [40] @ print a @ [41, 42]"
| "print (Repeat a mn mx) = [40] @ print a @ [41] @ braces mn mx"

primrec letters_ok :: "pattern \<Rightarrow> bool" where
  "letters_ok (Letter c) = validationAsciiAlnum c"
| "letters_ok (Sequence a b) = (letters_ok a \<and> letters_ok b)"
| "letters_ok (Choice a b) = (letters_ok a \<and> letters_ok b)"
| "letters_ok (Star a) = letters_ok a"
| "letters_ok (Repeat a mn mx) = letters_ok a"

text \<open>The greatest product of counts nested in a pattern, and whether every product is within the limit.\<close>

definition most :: "nat \<Rightarrow> nat option \<Rightarrow> nat" where
  "most mn mx = (case mx of None \<Rightarrow> mn | Some x \<Rightarrow> x)"

primrec weight :: "pattern \<Rightarrow> nat" where
  "weight (Letter c) = 1"
| "weight (Sequence a b) = max (weight a) (weight b)"
| "weight (Choice a b) = max (weight a) (weight b)"
| "weight (Star a) = weight a"
| "weight (Repeat a mn mx) = (if mx = Some 0 then 1 else max 1 (most mn mx) * weight a)"

primrec counts_ok :: "pattern \<Rightarrow> bool" where
  "counts_ok (Letter c) = True"
| "counts_ok (Sequence a b) = (counts_ok a \<and> counts_ok b)"
| "counts_ok (Choice a b) = (counts_ok a \<and> counts_ok b)"
| "counts_ok (Star a) = counts_ok a"
| "counts_ok (Repeat a mn mx) =
     (counts_ok a \<and> mn \<le> 1000 \<and> most mn mx \<le> 1000 \<and> weight (Repeat a mn mx) \<le> 1000)"

lemma weight_pos: "1 \<le> weight p"
  by (induction p) (auto simp: Suc_le_eq max_def)

lemma counts_ok_weight: "counts_ok p \<Longrightarrow> weight p \<le> 1000"
  by (induction p) auto

section \<open>Reading a repeat\<close>

definition capped :: "nat \<Rightarrow> nat" where
  "capped n = (if 7 < length (numberOf n) then 100000000 else n)"

lemma capped_limit: "(1000 < capped n) = (1000 < n)" "capped n \<le> 1000 \<Longrightarrow> capped n = n"
proof -
  have "length (numberOf n) \<le> Suc 3" if "n \<le> 1000" using that by (intro length_numberBase) simp_all
  then show "(1000 < capped n) = (1000 < n)" by (fastforce simp: capped_def)
qed (simp add: capped_def split: if_splits)

lemma capped_small: "n \<le> 1000 \<Longrightarrow> capped n = n"
  using capped_limit [of n] by linarith

lemma repeat_number_numberOf:
  assumes "r = [] \<or> \<not> validationDigit (hd r)"
  shows "repeat_number (numberOf n @ r) = Some (capped n, r)"
proof -
  have ds: "\<forall>c \<in> set (numberOf n). validationDigit c"
    using numberOf_digits [of n] by (simp add: validationAllDigits_def list_all_iff)
  have "takeWhile validationDigit r = []" "dropWhile validationDigit r = r" using assms by (cases r; auto)+
  then have "takeWhile validationDigit (numberOf n @ r) = numberOf n" "dropWhile validationDigit (numberOf n @ r) = r"
    using ds by (simp_all add: takeWhile_append2 dropWhile_append2)
  then show ?thesis using leading_zero [of n] by (auto simp: repeat_number_def capped_def digits_from_numberOf Let_def)
qed

lemma not_digit [simp]: "\<not> validationDigit 44" "\<not> validationDigit 125"
  by (simp_all add: validationDigit_def)

lemma hd_numberOf_digit: "validationDigit (hd (numberOf n @ r))"
  using numberOf_digits [of n] by (cases "numberOf n") (auto simp: validationAllDigits_def)

lemma braces_Cons: "braces mn mx @ t = 123 # drop 1 (braces mn mx) @ t"
  by (simp add: braces_def)

lemma validationRepeatEnd_braces:
  "validationRepeatEnd (drop 1 (braces mn mx) @ t) = Some (capped mn, map_option capped mx, t)"
proof (cases mx)
  case None
  then show ?thesis using repeat_number_numberOf [of "44 # 125 # t" mn]
    by (simp add: validationRepeatEnd_def braces_def startsWith_def repeat_close_def)
next
  case (Some x)
  have "hd (numberOf x @ 125 # t) \<noteq> 125" using hd_numberOf_digit [of x "125 # t"] not_digit(2) by metis
  then show ?thesis
    using Some repeat_number_numberOf [of "44 # numberOf x @ 125 # t" mn] repeat_number_numberOf [of "125 # t" x]
    by (simp add: validationRepeatEnd_def braces_def startsWith_def repeat_close_def)
qed

section \<open>The loop on a printed pattern\<close>

abbreviation at_text :: "nat \<Rightarrow> nat list \<Rightarrow> nat \<Rightarrow> bool \<Rightarrow> qstring \<Rightarrow> re2" where
  "at_text g gs l cs t \<equiv> \<lparr>weights = g # gs, last_weight = l, in_class = False, class_start = cs, rest = t\<rparr>"

definition calm :: "qstring \<Rightarrow> bool" where
  "calm t \<longleftrightarrow> \<not> startsWith 43 t \<and> \<not> startsWith 63 t"

lemma calm_Cons [simp]: "calm (c # t) \<longleftrightarrow> c \<noteq> 43 \<and> c \<noteq> 63"
  by (simp add: calm_def startsWith_def)

lemma startsWith_Cons [simp]: "startsWith c (d # s) \<longleftrightarrow> d = c"
  by (simp add: startsWith_def)

lemma alnum_plain:
  "validationAsciiAlnum c \<Longrightarrow> c \<notin> {92, 91, 40, 41, 124, 42, 43, 63, 123, 94, 36}"
  by (auto simp: validationAsciiAlnum_def)

lemma loop_letter:
  "validationAsciiAlnum c \<Longrightarrow> re2_loop (at_text g gs l cs (c # t)) = re2_loop (at_text (max g l) gs 1 cs t)"
  using alnum_plain [of c] by (subst re2_loop.simps) (simp add: re2_step_def atom_def commit_def)

lemma loop_open:
  "calm t \<Longrightarrow> \<not> startsWith 42 t \<Longrightarrow>
     re2_loop (at_text g gs l cs (40 # t)) = re2_loop (at_text 1 (max g l # gs) 0 cs t)"
  by (subst re2_loop.simps) (simp add: re2_step_def step_open_def commit_def calm_def)

lemma loop_bar: "re2_loop (at_text g gs l cs (124 # t)) = re2_loop (at_text (max g l) gs 0 cs t)"
  by (subst re2_loop.simps) (simp add: re2_step_def commit_def)

lemma loop_close: "re2_loop (at_text g (h # gs) l cs (41 # t)) = re2_loop (at_text h gs (max g l) cs t)"
  by (subst re2_loop.simps) (simp add: re2_step_def step_close_def commit_def)

lemma loop_star: "calm t \<Longrightarrow> re2_loop (at_text g gs l cs (42 # t)) = re2_loop (at_text g gs l cs t)"
  by (subst re2_loop.simps) (simp add: re2_step_def calm_def)

lemma loop_repeat:
  assumes "calm t" "1 \<le> l" "l \<le> 1000"
  shows "re2_loop (at_text g gs l cs (braces mn mx @ t)) =
    (let w = (if mx = Some 0 then 1 else max 1 (most mn mx) * l)
     in if mn \<le> 1000 \<and> most mn mx \<le> 1000 \<and> w \<le> 1000 then re2_loop (at_text g gs w cs t) else Some TooManyRepeats)"
proof -
  have step: "re2_loop (at_text g gs l cs (braces mn mx @ t)) =
    (case step_repeat (drop 1 (braces mn mx) @ t) (at_text g gs l cs (braces mn mx @ t)) of
       Inl m \<Rightarrow> m | Inr s \<Rightarrow> re2_loop s)"
    unfolding braces_Cons by (subst re2_loop.simps) (simp add: re2_step_def)
  show ?thesis
  proof (cases "mn \<le> 1000 \<and> most mn mx \<le> 1000")
    case False
    then have "1000 < capped mn \<or> (\<exists>x. mx = Some x \<and> 1000 < capped x)"
      by (cases mx) (auto simp: most_def capped_limit(1))
    then have big: "1000 < capped mn \<or> (case map_option capped mx of None \<Rightarrow> False | Some x \<Rightarrow> 1000 < x)"
      by (elim disjE exE) simp_all
    have st: "step_repeat (drop 1 (braces mn mx) @ t) (at_text g gs l cs (braces mn mx @ t)) = Inl (Some TooManyRepeats)"
      unfolding step_repeat_def validationRepeatEnd_braces option.case prod.case Let_def if_P [OF big] ..
    have neg: "(mn \<le> 1000 \<and> most mn mx \<le> 1000 \<and> w \<le> 1000) = False" for w :: nat using False by blast
    show ?thesis unfolding step Let_def neg if_False st sum.case ..
  next
    case True
    then have c: "capped mn = mn" "map_option capped mx = mx"
      by (cases mx; simp add: most_def capped_small)+
    have lim: "\<not> 1000 < mn" "\<not> (case mx of None \<Rightarrow> False | Some x \<Rightarrow> 1000 < x)"
      using True by (auto simp: most_def split: option.splits)
    have m: "(case mx of None \<Rightarrow> mn | Some x \<Rightarrow> x) = most mn mx" by (simp add: most_def)
    define w where "w = (if mx = Some 0 then 1 else max 1 (most mn mx) * l)"
    have w: "(if mx = Some 0 then 1 else if 1 < most mn mx then l * most mn mx else l) = w"
      by (simp add: w_def max_def mult.commute)
    have big: "(mx \<noteq> Some 0 \<and> 1 < most mn mx \<and> 1000 < w) = (1000 < w)"
    proof (cases "1 < most mn mx")
      case False
      then have "max 1 (most mn mx) = 1" by simp
      then show ?thesis using False assms(3) by (simp add: w_def)
    qed (auto simp: w_def)
    have "step_repeat (drop 1 (braces mn mx) @ t) (at_text g gs l cs (braces mn mx @ t)) =
      (if 1000 < w then Inl (Some TooManyRepeats) else Inr (at_text g gs w cs t))"
      unfolding step_repeat_def validationRepeatEnd_braces c option.case prod.case Let_def m re2.select_convs w big
      using assms(1) lim by (simp add: calm_def)
    then show ?thesis unfolding step w_def [symmetric] Let_def using True by simp
  qed
qed

primrec post :: "pattern \<Rightarrow> nat \<times> nat \<Rightarrow> nat \<times> nat" where
  "post (Letter c) s = (max (fst s) (snd s), 1)"
| "post (Sequence a b) s = post b (post a s)"
| "post (Choice a b) s = (max (fst s) (snd s), weight (Choice a b))"
| "post (Star a) s = (max (fst s) (snd s), weight a)"
| "post (Repeat a mn mx) s = (max (fst s) (snd s), weight (Repeat a mn mx))"

lemma post_max: "max (fst (post p s)) (snd (post p s)) = max (max (fst s) (snd s)) (weight p)"
proof (induction p arbitrary: s)
  case (Sequence a b)
  have "max (fst (post b (post a s))) (snd (post b (post a s))) =
    max (max (fst (post a s)) (snd (post a s))) (weight b)" by (rule Sequence.IH(2))
  also have "\<dots> = max (max (max (fst s) (snd s)) (weight a)) (weight b)" by (simp only: Sequence.IH(1))
  finally show ?case by (simp add: max.assoc)
qed simp_all

lemma print_head: "letters_ok p \<Longrightarrow> calm (print p @ t) \<and> \<not> startsWith 42 (print p @ t)"
proof (induction p arbitrary: t)
  case (Letter c)
  then show ?case using alnum_plain [of c] by simp
qed simp_all

lemma loop_print:
  assumes "letters_ok p" "calm t"
  shows "re2_loop (at_text g gs l cs (print p @ t)) =
    (if counts_ok p then re2_loop (at_text (fst (post p (g, l))) gs (snd (post p (g, l))) cs t) else Some TooManyRepeats)"
  using assms
proof (induction p arbitrary: g gs l t)
  case (Letter c)
  then show ?case by (simp add: loop_letter)
next
  case (Sequence a b)
  have "re2_loop (at_text g gs l cs (print a @ print b @ t)) =
    (if counts_ok a then re2_loop (at_text (fst (post a (g, l))) gs (snd (post a (g, l))) cs (print b @ t))
     else Some TooManyRepeats)"
    using Sequence.prems print_head by (intro Sequence.IH(1)) auto
  then show ?case using Sequence.prems Sequence.IH(2) [of t "fst (post a (g, l))" gs "snd (post a (g, l))"] by simp
next
  case (Choice a b)
  let ?a = "post a (1, 0)"
  let ?b = "post b (max (fst ?a) (snd ?a), 0)"
  have "max (fst ?a) (snd ?a) = weight a" using weight_pos [of a] by (simp add: post_max max_absorb2)
  then have "max (fst ?b) (snd ?b) = weight (Choice a b)" by (simp add: post_max)
  moreover have "re2_loop (at_text g gs l cs (print (Choice a b) @ t)) =
    re2_loop (at_text 1 (max g l # gs) 0 cs (print a @ 124 # print b @ 41 # t))"
    using Choice.prems print_head by (simp add: loop_open)
  ultimately show ?case
    using Choice.prems Choice.IH(1) [of "124 # print b @ 41 # t" 1 "max g l # gs" 0]
      Choice.IH(2) [of "41 # t" "max (fst ?a) (snd ?a)" "max g l # gs" 0]
    by (simp add: loop_bar loop_close del: max.assoc)
next
  case (Star a)
  let ?a = "post a (1, 0)"
  have "max (fst ?a) (snd ?a) = weight a" using weight_pos [of a] by (simp add: post_max max_absorb2)
  moreover have "re2_loop (at_text g gs l cs (print (Star a) @ t)) =
    re2_loop (at_text 1 (max g l # gs) 0 cs (print a @ 41 # 42 # t))"
    using Star.prems print_head by (simp add: loop_open)
  ultimately show ?case using Star.prems Star.IH [of "41 # 42 # t" 1 "max g l # gs" 0]
    by (simp add: loop_close loop_star)
next
  case (Repeat a mn mx)
  let ?a = "post a (1, 0)"
  have "max (fst ?a) (snd ?a) = weight a" using weight_pos [of a] by (simp add: post_max max_absorb2)
  moreover have "re2_loop (at_text g gs l cs (print (Repeat a mn mx) @ t)) =
    re2_loop (at_text 1 (max g l # gs) 0 cs (print a @ 41 # braces mn mx @ t))"
    using Repeat.prems print_head by (simp add: loop_open)
  moreover have "counts_ok a \<Longrightarrow> re2_loop (at_text (max g l) gs (weight a) cs (braces mn mx @ t)) =
    (if counts_ok (Repeat a mn mx) then re2_loop (at_text (max g l) gs (weight (Repeat a mn mx)) cs t) else Some TooManyRepeats)"
    using loop_repeat [of t "weight a" "max g l" gs cs mn mx] Repeat.prems(2) weight_pos [of a] counts_ok_weight [of a]
    by (auto simp: Let_def)
  ultimately show ?case using Repeat.prems Repeat.IH [of "41 # braces mn mx @ t" 1 "max g l # gs" 0]
    by (simp add: loop_close)
qed

theorem validationRe2Unsupported_counts:
  assumes "letters_ok p"
  shows "validationRe2Unsupported (print p) = (if counts_ok p then None else Some TooManyRepeats)"
  using loop_print [OF assms, of "[]" 1 "[]" 0 False]
  by (simp add: validationRe2Unsupported_def calm_def startsWith_def re2_loop.simps)

section \<open>The copy of a printed pattern\<close>

abbreviation copying :: "qstring \<Rightarrow> qstring list \<Rightarrow> nat \<Rightarrow> qstring \<Rightarrow> pcre" where
  "copying done_text ns k t \<equiv>
     \<lparr>out = done_text, names = ns, renamed = k, p_in_class = False, after_class = False, p_class_start = False, p_rest = t\<rparr>"

lemma copy_plain:
  assumes "\<forall>c \<in> set w. c \<notin> {92, 94, 36, 91, 40, 123}"
  shows "copy_loop (copying d ns k (w @ t)) = copy_loop (copying (d @ w) ns k t)"
  using assms
proof (induction w arbitrary: d)
  case (Cons c w)
  have "copy_loop (copying d ns k ((c # w) @ t)) = copy_loop (copying (d @ [c]) ns k (w @ t))"
    using Cons.prems by (subst copy_loop.simps) (simp add: copy_step_def emit_def)
  then show ?case using Cons by simp
qed simp

lemma copy_open:
  "\<not> startsWith 63 t \<Longrightarrow> copy_loop (copying d ns k (40 # t)) = copy_loop (copying (d @ [40]) ns k t)"
  by (subst copy_loop.simps) (simp add: copy_step_def emit_def)

lemma braces_plain: "c \<in> set (drop 1 (braces mn mx)) \<Longrightarrow> c \<notin> {92, 94, 36, 91, 40, 123}"
  by (auto simp: braces_def dest!: numberOf_char split: option.splits)

lemma copy_braces: "copy_loop (copying d ns k (braces mn mx @ t)) = copy_loop (copying (d @ braces mn mx) ns k t)"
proof -
  have "copy_loop (copying d ns k (123 # drop 1 (braces mn mx) @ t)) =
    copy_loop (copying (d @ [123]) ns k (drop 1 (braces mn mx) @ t))"
    by (subst copy_loop.simps) (simp add: copy_step_def emit_def validationRepeatEnd_braces [unfolded One_nat_def])
  also have "\<dots> = copy_loop (copying ((d @ [123]) @ drop 1 (braces mn mx)) ns k t)"
    using braces_plain by (intro copy_plain) blast
  also have "(d @ [123]) @ drop 1 (braces mn mx) = d @ braces mn mx" by (simp add: braces_def)
  finally show ?thesis by (simp only: braces_Cons)
qed

lemma copy_print:
  "letters_ok p \<Longrightarrow> copy_loop (copying d ns k (print p @ t)) = copy_loop (copying (d @ print p) ns k t)"
proof (induction p arbitrary: d t)
  case (Letter c)
  then show ?case using alnum_plain [of c] copy_plain [of "[c]" d ns k t] by simp
next
  case (Sequence a b)
  then show ?case by simp
next
  case (Choice a b)
  then have "\<not> startsWith 63 (print a @ 124 # print b @ 41 # t)" using print_head [of a] by (simp add: calm_def)
  then show ?case using Choice copy_plain [of "[124]" "(d @ [40]) @ print a" ns k "print b @ 41 # t"]
      copy_plain [of "[41]" "((d @ [40]) @ print a @ [124]) @ print b" ns k t]
    by (simp add: copy_open)
next
  case (Star a)
  then have "\<not> startsWith 63 (print a @ 41 # 42 # t)" using print_head [of a] by (simp add: calm_def)
  then show ?case using Star copy_plain [of "[41, 42]" "(d @ [40]) @ print a" ns k t]
    by (simp add: copy_open)
next
  case (Repeat a mn mx)
  then have "\<not> startsWith 63 (print a @ 41 # braces mn mx @ t)" using print_head [of a] by (simp add: calm_def)
  then show ?case using Repeat copy_plain [of "[41]" "(d @ [40]) @ print a" ns k "braces mn mx @ t"]
      copy_braces [of "(d @ [40]) @ print a @ [41]" ns k mn mx t]
    by (simp add: copy_open)
qed

lemma validationPcreCopy_print: "letters_ok p \<Longrightarrow> validationPcreCopy (print p) = print p"
  using copy_print [of p "[]" "[]" 0 "[]"] by (simp add: validationPcreCopy_def copy_loop.simps)

lemma alnum_visible: "validationAsciiAlnum c \<Longrightarrow> \<not> isSpace c"
  by (auto simp: validationAsciiAlnum_def isSpace_def)

lemma print_visible: "letters_ok p \<Longrightarrow> c \<in> set (print p) \<Longrightarrow> \<not> isSpace c"
proof (induction p arbitrary: c)
  case (Repeat a mn mx)
  have "c \<in> set (braces mn mx) \<Longrightarrow> \<not> isSpace c"
    by (auto simp: braces_def isSpace_def dest!: numberOf_char split: option.splits)
  then show ?case using Repeat by (auto simp: isSpace_def)
qed (auto simp: alnum_visible, auto simp: isSpace_def)

lemma print_not_Nil [simp]: "print p \<noteq> []"
  by (induction p) simp_all

text \<open>
  C22. A pattern of letters, sequences, choices, stars and counted repeats that PCRE finds valid is
  refused exactly when a product of nested counts passes 1000, and is judged by PCRE unchanged.
\<close>

theorem GoRegex_counts:
  assumes "letters_ok p"
  shows "GoRegex pcre (print p) =
    (case pcre (print p) of
       Some e \<Rightarrow> Some (BadRegex e)
     | None \<Rightarrow> if counts_ok p then None else Some TooManyRepeats)"
proof -
  have t: "trimmed (print p) = print p" using print_visible [OF assms] by (intro trimmed_no_space) blast
  then show ?thesis
    using validationPcreCopy_print [OF assms] validationRe2Unsupported_counts [OF assms]
    by (cases "pcre (print p)") (simp_all add: GoRegex_def Regex_def)
qed

theorem GoRegex_counts_witness:
  "GoRegex (\<lambda>_. None) (print (Repeat (Repeat (Letter 97) 0 (Some 40)) 30 None)) = Some TooManyRepeats"
  using GoRegex_counts [of "Repeat (Repeat (Letter 97) 0 (Some 40)) 30 None" "\<lambda>_. None"]
  by (simp add: validationAsciiAlnum_def most_def)

end
