(* ===== verification/FieldDuration.thy ===== *)
theory FieldDuration
  imports FieldNumbers "HOL-Library.Log_Nat"
begin

text \<open>
  Durations and sizes of \<^verbatim>\<open>src/global/Validation.cpp\<close>: the printer and the reader of durations, on 64-bit
  words and on \<^verbatim>\<open>double\<close>s for the fraction, and the two checks. A \<^verbatim>\<open>qint64\<close> is a \<^typ>\<open>64 word\<close> read by \<open>sint\<close>
  where it is printed, and an integer where it is a result. \<open>utf8\<close> is \<^verbatim>\<open>QString::toUtf8\<close>, \<open>lower\<close> is
  \<^verbatim>\<open>QString::toLower\<close>.
\<close>

section \<open>Doubles\<close>

text \<open>
  A positive \<^verbatim>\<open>double\<close> is \<open>(m, e)\<close> for \<open>m * 2 ^ e\<close>, zero is \<open>(0, 0)\<close>. \<open>dbl_round n d e\<close> is \<open>n / d * 2 ^ e\<close> rounded
  to 53 bits, ties to even. Exponents have no bound here: past the range of a \<^verbatim>\<open>double\<close> (a fraction of more than
  three hundred digits) the scale is infinite in the code and huge here, and the fraction is 0 both ways.
\<close>

type_synonym dbl = "int \<times> int"

definition half_even :: "int \<Rightarrow> int \<Rightarrow> int" where
  "half_even n d =
     (let q = n div d; r = n mod d
      in if 2 * r < d \<or> (2 * r = d \<and> even q) then q else q + 1)"

definition shift_quotient :: "int \<Rightarrow> int \<Rightarrow> int \<Rightarrow> int \<times> int" where
  "shift_quotient n d e = (if 0 \<le> e then (n, d * 2 ^ nat e) else (n * 2 ^ nat (- e), d))"

definition dbl_round :: "int \<Rightarrow> int \<Rightarrow> int \<Rightarrow> dbl" where
  "dbl_round n d e =
     (if n = 0 then (0, 0)
      else
        (let e0 = bitlen n - bitlen d - 53;
             (a, b) = shift_quotient n d e0;
             e1 = (if a div b < 2 ^ 53 then e0 else e0 + 1);
             (a, b) = shift_quotient n d e1
         in (half_even a b, e + e1)))"

definition dbl_of :: "int \<Rightarrow> dbl" where
  "dbl_of n = dbl_round n 1 0"

definition dbl_mult :: "dbl \<Rightarrow> dbl \<Rightarrow> dbl" where
  "dbl_mult x y = dbl_round (fst x * fst y) 1 (snd x + snd y)"

definition dbl_div :: "dbl \<Rightarrow> dbl \<Rightarrow> dbl" where
  "dbl_div x y = dbl_round (fst x) (fst y) (snd x - snd y)"

definition dbl_trunc :: "dbl \<Rightarrow> int" where
  "dbl_trunc x = (if 0 \<le> snd x then fst x * 2 ^ nat (snd x) else fst x div 2 ^ nat (- snd x))"

section \<open>Printing a duration\<close>

definition ascii :: "string \<Rightarrow> qstring" where
  "ascii = map of_char"

definition format_units :: "(64 word \<times> qstring) list" where
  "format_units =
     [(3600000000000, ascii ''h''), (60000000000, ascii ''m''), (1000000000, ascii ''s''),
      (1000000, ascii ''ms''), (1000, ascii ''us''), (1, ascii ''ns'')]"

fun format_loop :: "(64 word \<times> qstring) list \<Rightarrow> 64 word \<Rightarrow> qstring \<Rightarrow> qstring" where
  "format_loop [] v out = out"
| "format_loop ((unit, name) # units) v out =
     (let q = v div unit
      in if q \<noteq> 0 then format_loop units (v mod unit) (out @ numberOf (unat q) @ name)
         else format_loop units v out)"

definition validationFormatDuration :: "64 word \<Rightarrow> qstring" where
  "validationFormatDuration ns =
     (if ns = 0 then ascii ''0s''
      else if sint ns < 0 then format_loop format_units (0 - ns) [45]
      else format_loop format_units ns [])"

section \<open>Reading a duration\<close>

definition kLimit :: "64 word" where
  "kLimit = 2 ^ 63"

definition duration_units :: "(nat list \<times> 64 word) list" where
  "duration_units =
     [(ascii ''ns'', 1), (ascii ''us'', 1000), ([0xC2, 0xB5, 115], 1000), ([0xCE, 0xBC, 115], 1000),
      (ascii ''ms'', 1000000), (ascii ''s'', 1000000000), (ascii ''m'', 60000000000),
      (ascii ''h'', 3600000000000), (ascii ''d'', 86400000000000)]"

definition validationDurationUnit :: "nat list \<Rightarrow> 64 word" where
  "validationDurationUnit u = (case map_of duration_units u of None \<Rightarrow> 0 | Some k \<Rightarrow> k)"

text \<open>The two digit loops: the whole part stops the reader on overflow, the fraction ignores further digits.\<close>

fun duration_whole :: "64 word \<Rightarrow> nat list \<Rightarrow> (64 word \<times> nat list) option" where
  "duration_whole v [] = Some (v, [])"
| "duration_whole v (c # s) =
     (if \<not> validationDigit c then Some (v, c # s)
      else if kLimit div 10 < v then None
      else if kLimit < v * 10 + of_nat (c - 48) then None
      else duration_whole (v * 10 + of_nat (c - 48)) s)"

fun duration_fraction :: "bool \<Rightarrow> 64 word \<Rightarrow> dbl \<Rightarrow> nat list \<Rightarrow> 64 word \<times> dbl \<times> nat list" where
  "duration_fraction overflow f scale [] = (f, scale, [])"
| "duration_fraction overflow f scale (c # s) =
     (if \<not> validationDigit c then (f, scale, c # s)
      else if overflow then duration_fraction True f scale s
      else if (kLimit - 1) div 10 < f then duration_fraction True f scale s
      else
        (let y = f * 10 + of_nat (c - 48)
         in if kLimit < y then duration_fraction True f scale s
            else duration_fraction False y (dbl_mult scale (dbl_of 10)) s))"

definition fraction_value :: "64 word \<Rightarrow> dbl \<Rightarrow> 64 word \<Rightarrow> 64 word" where
  "fraction_value f scale unit =
     of_int (dbl_trunc (dbl_mult (dbl_of (uint f)) (dbl_div (dbl_of (uint unit)) scale)))"

text \<open>The end of a pass: the unit after the number, and the value of the segment.\<close>

definition duration_unit_value :: "64 word \<Rightarrow> 64 word \<Rightarrow> dbl \<Rightarrow> nat list \<Rightarrow> (64 word \<times> nat list) option" where
  "duration_unit_value v f scale s =
     (let name = takeWhile (\<lambda>c. c \<noteq> 46 \<and> \<not> validationDigit c) s;
          rest = dropWhile (\<lambda>c. c \<noteq> 46 \<and> \<not> validationDigit c) s;
          unit = validationDurationUnit name
      in if name = [] then None
         else if unit = 0 then None
         else if kLimit div unit < v then None
         else
           (let v = v * unit; w = (if 0 < f then v + fraction_value f scale unit else v)
            in if 0 < f \<and> kLimit < w then None else Some (w, rest)))"

definition duration_segment :: "nat list \<Rightarrow> (64 word \<times> nat list) option" where
  "duration_segment s =
     (if \<not> (s \<noteq> [] \<and> (hd s = 46 \<or> validationDigit (hd s))) then None
      else case duration_whole 0 s of
             None \<Rightarrow> None
           | Some (v, r) \<Rightarrow>
               (let pre = (length r \<noteq> length s);
                    (f, scale, r', post) =
                      (if startsWith 46 r then
                         (let (f, scale, r') = duration_fraction False 0 (dbl_of 1) (drop 1 r)
                          in (f, scale, r', length r' \<noteq> length (drop 1 r)))
                       else (0, dbl_of 1, r, False))
                in if \<not> pre \<and> \<not> post then None else duration_unit_value v f scale r'))"

lemma duration_whole_length: "duration_whole v s = Some (w, r) \<Longrightarrow> length r \<le> length s"
  by (induction v s rule: duration_whole.induct) (auto split: if_splits)

lemma duration_fraction_length: "duration_fraction b f x s = (g, y, r) \<Longrightarrow> length r \<le> length s"
  by (induction b f x s rule: duration_fraction.induct) (force simp: Let_def split: if_splits)+

lemma duration_unit_value_length: "duration_unit_value v f x s = Some (w, r) \<Longrightarrow> length r < length s"
proof -
  assume a: "duration_unit_value v f x s = Some (w, r)"
  let ?P = "\<lambda>c. c \<noteq> 46 \<and> \<not> validationDigit c"
  from a have "takeWhile ?P s \<noteq> []" "r = dropWhile ?P s"
    by (auto simp: duration_unit_value_def Let_def split: if_splits)
  then show ?thesis using takeWhile_dropWhile_id [of ?P s] by (metis length_append length_greater_0_conv less_add_same_cancel2)
qed

lemma duration_segment_length: "duration_segment s = Some (w, r) \<Longrightarrow> length r < length s"
  by (force simp: duration_segment_def Let_def split: if_splits option.splits prod.splits
      dest!: duration_whole_length duration_fraction_length duration_unit_value_length)

function duration_loop :: "64 word \<Rightarrow> nat list \<Rightarrow> 64 word option" where
  "duration_loop d [] = Some d"
| "duration_loop d (c # s) =
     (case duration_segment (c # s) of
        None \<Rightarrow> None
      | Some (v, r) \<Rightarrow> if kLimit < d + v then None else duration_loop (d + v) r)"
  by pat_completeness auto
termination
  by (relation "measure (\<lambda>(d, s). length s)") (auto dest: duration_segment_length)

definition ParseDurationNs :: "(qstring \<Rightarrow> nat list) \<Rightarrow> qstring \<Rightarrow> int option" where
  "ParseDurationNs utf8 text =
     (let s = utf8 (trimmed text);
          neg = startsWith 45 s;
          r = (if startsWith 45 s \<or> startsWith 43 s then drop 1 s else s)
      in if r = [48] then Some 0
         else if r = [] then None
         else case duration_loop 0 r of
                None \<Rightarrow> None
              | Some d \<Rightarrow>
                  if neg then Some (if d = kLimit then - (2 ^ 63) else - sint d)
                  else if kLimit - 1 < d then None else Some (sint d))"

section \<open>The checks\<close>

record DurationRule =
  rule_empty :: Empty
  allowNegative :: bool
  wholeSeconds :: bool
  minNs :: "64 word option"
  maxNs :: "64 word option"

definition bare_number :: "qstring \<Rightarrow> bool" where
  "bare_number t =
     (case indexOf 46 t of
        None \<Rightarrow> validationAllDigits t
      | Some dot \<Rightarrow> validationAllDigits (take dot t) \<and> validationAllDigits (drop (dot + 1) t))"

definition duration_bounds :: "DurationRule \<Rightarrow> int \<Rightarrow> message option" where
  "duration_bounds rl ns =
     (if \<not> allowNegative rl \<and> ns < 0 then Some MustNotBeNegative
      else if wholeSeconds rl \<and> ns mod 1000000000 \<noteq> 0 then Some UseWholeSeconds
      else if (case minNs rl of None \<Rightarrow> False | Some mn \<Rightarrow> ns < sint mn)
      then Some (AtLeast (validationFormatDuration (the (minNs rl))))
      else if (case maxNs rl of None \<Rightarrow> False | Some mx \<Rightarrow> sint mx < ns)
      then Some (AtMost (validationFormatDuration (the (maxNs rl))))
      else None)"

definition DurationCheck :: "(qstring \<Rightarrow> nat list) \<Rightarrow> DurationRule \<Rightarrow> rule" where
  "DurationCheck utf8 rl s =
     (let t = trimmed s
      in if t = [] then validationEmpty (rule_empty rl)
         else case ParseDurationNs utf8 t of
                None \<Rightarrow> Some (if bare_number t then AddUnit t else NotDuration)
              | Some ns \<Rightarrow> duration_bounds rl ns)"

definition memory_units :: "(qstring \<times> 64 word) list" where
  "memory_units =
     [(ascii ''b'', 1), (ascii ''k'', 2 ^ 10), (ascii ''kb'', 2 ^ 10), (ascii ''m'', 2 ^ 20), (ascii ''mb'', 2 ^ 20),
      (ascii ''g'', 2 ^ 30), (ascii ''gb'', 2 ^ 30), (ascii ''t'', 2 ^ 40), (ascii ''tb'', 2 ^ 40),
      (ascii ''p'', 2 ^ 50), (ascii ''pb'', 2 ^ 50), (ascii ''e'', 2 ^ 60), (ascii ''eb'', 2 ^ 60)]"

definition validationMemoryUnit :: "qstring \<Rightarrow> 64 word" where
  "validationMemoryUnit unit = (case map_of memory_units unit of None \<Rightarrow> 0 | Some k \<Rightarrow> k)"

text \<open>\<^verbatim>\<open>toULongLong\<close> of a text of digits: it fails on a value that does not fit.\<close>

definition to_ulonglong :: "qstring \<Rightarrow> 64 word option" where
  "to_ulonglong ds = (if decimal_value ds < 2 ^ 64 then Some (of_nat (decimal_value ds)) else None)"

definition memory_value :: "(qstring \<Rightarrow> qstring) \<Rightarrow> qstring \<Rightarrow> qstring \<Rightarrow> message option" where
  "memory_value lower ds rest =
     (case to_ulonglong ds of
        None \<Rightarrow> Some NumberTooLarge
      | Some v \<Rightarrow>
          (let unit = trimmed rest; k = validationMemoryUnit (lower unit)
           in if k = 0 then Some (UnknownUnit (validationShort unit))
              else if (- 1) div k < v then Some NumberTooLarge else None))"

definition MemoryBytes :: "(qstring \<Rightarrow> qstring) \<Rightarrow> bool \<Rightarrow> Empty \<Rightarrow> rule" where
  "MemoryBytes lower allowBareInteger e s =
     (let t = trimmed s;
          ds = takeWhile validationDigit t; rest = dropWhile validationDigit t;
          digitNext = (case rest of c # d # _ \<Rightarrow> validationDigit d | _ \<Rightarrow> False)
      in if t = [] then validationEmpty e
         else if rest = [] then
           (if \<not> allowBareInteger then Some AddSizeUnit
            else if validationParseInt t \<noteq> None then None else Some NumberTooLarge)
         else if ds = [] then
           (if hd rest = 45 \<and> digitNext then Some MustNotBeNegative
            else if hd rest = 46 \<and> digitNext then Some WholeBeforeUnit
            else Some NotSize)
         else if (hd rest = 46 \<or> hd rest = 44) \<and> digitNext then Some WholeBeforeUnit
         else memory_value lower ds rest)"

end
