(* ===== verification/FieldDurationText.thy ===== *)
theory FieldDurationText
  imports FieldDuration
begin

text \<open>
  Printing and reading of durations agree on every \<^verbatim>\<open>qint64\<close>, and a size is accepted exactly when it fits
  64 bits. The lemmas follow the reader: a run of digits, a unit, a segment, the sum.
\<close>

definition ends_number :: "nat list \<Rightarrow> bool" where
  "ends_number r \<longleftrightarrow> r = [] \<or> \<not> validationDigit (hd r)"

lemma unat_kLimit [simp]: "unat kLimit = 2 ^ 63"
  by (simp add: kLimit_def)

lemma duration_whole_digits:
  assumes "list_all validationDigit ds" "ends_number r" "digits_from (unat v) ds \<le> 2 ^ 63"
  shows "duration_whole v (ds @ r) = Some (of_nat (digits_from (unat v) ds), r)"
  using assms(1,3)
proof (induction ds arbitrary: v)
  case Nil
  then show ?case using assms(2) by (cases r) (auto simp: ends_number_def)
next
  case (Cons c ds)
  have le: "unat v * 10 + (c - 48) \<le> 2 ^ 63"
    using Cons.prems(2) digits_from_ge [of "unat v * 10 + (c - 48)" ds] by simp
  have u: "unat (v * 10 + of_nat (c - 48)) = unat v * 10 + (c - 48)"
  proof -
    have "v * 10 + of_nat (c - 48) = of_nat (unat v * 10 + (c - 48))" by simp
    also have "unat \<dots> = unat v * 10 + (c - 48)" by (rule unat_of_nat64) (use le in simp)
    finally show ?thesis .
  qed
  have "\<not> kLimit div 10 < v" using le by (simp add: word_less_nat_alt unat_div)
  moreover have "\<not> kLimit < v * 10 + of_nat (c - 48)" unfolding word_less_nat_alt u using le by simp
  ultimately show ?case using Cons u by simp
qed

lemma duration_unit_value_name:
  assumes "name \<in> fst ` set duration_units" "r = [] \<or> validationDigit (hd r)" "\<forall>c \<in> set name. 57 < c"
  shows "duration_unit_value v 0 x (name @ r) =
    (if kLimit div validationDurationUnit name < v then None else Some (v * validationDurationUnit name, r))"
proof -
  let ?P = "\<lambda>c. c \<noteq> 46 \<and> \<not> validationDigit c"
  have n: "\<forall>c \<in> set name. ?P c" using assms(3) by (force simp: validationDigit_def)
  have r: "takeWhile ?P r = []" "dropWhile ?P r = r" using assms(2) by (cases r; force)+
  have "takeWhile ?P (name @ r) = name" "dropWhile ?P (name @ r) = r"
    using n r by (simp_all add: takeWhile_append2 dropWhile_append2)
  moreover have "name \<noteq> []" "validationDurationUnit name \<noteq> 0"
    using assms(1) by (auto simp: duration_units_def ascii_def validationDurationUnit_def)
  ultimately show ?thesis by (simp add: duration_unit_value_def)
qed

lemma duration_segment_number:
  assumes name: "name \<in> fst ` set duration_units" "\<forall>c \<in> set name. 57 < c"
    and k: "validationDurationUnit name = k" and r: "r = [] \<or> validationDigit (hd r)"
    and le: "unat q * unat k \<le> 2 ^ 63"
  shows "duration_segment (numberOf (unat q) @ name @ r) = Some (q * k, r)"
proof -
  have ne: "name \<noteq> []" "k \<noteq> 0"
    using name(1) k by (auto simp: duration_units_def ascii_def validationDurationUnit_def)
  then have e: "ends_number (name @ r)" using name(2) by (cases name) (auto simp: ends_number_def validationDigit_def)
  have ds: "list_all validationDigit (numberOf (unat q))" "numberOf (unat q) \<noteq> []"
    using numberOf_digits [of "unat q"] by (simp_all add: validationAllDigits_def)
  have "1 \<le> unat k" using ne(2) by (simp add: Suc_le_eq unat_gt_0)
  then have "unat q * 1 \<le> unat q * unat k" by (rule mult_le_mono2)
  with le have q: "unat q \<le> 2 ^ 63" by (metis le_trans mult.right_neutral)
  then have w: "duration_whole 0 (numberOf (unat q) @ name @ r) = Some (q, name @ r)"
    using duration_whole_digits [OF ds(1) e, of 0] digits_from_numberOf [of "unat q"]
    by (simp add: decimal_value_def)
  have h: "validationDigit (hd (numberOf (unat q) @ name @ r))" using ds by (cases "numberOf (unat q)") auto
  have "\<not> kLimit div k < q"
  proof -
    have "unat q \<le> 2 ^ 63 div unat k" using le ne(2) by (simp add: less_eq_div_iff_mult_less_eq unat_gt_0)
    then show ?thesis by (simp add: word_less_nat_alt unat_div)
  qed
  moreover have "\<not> startsWith 46 (name @ r)" using name(2) ne(1) by (cases name) (auto simp: startsWith_def)
  moreover have "length (name @ r) \<noteq> length (numberOf (unat q) @ name @ r)" using ds(2) by simp
  ultimately show ?thesis using h w duration_unit_value_name [OF name(1) r name(2), of q "dbl_of 1"] k ds(2)
    by (simp add: duration_segment_def)
qed

lemma format_loop_out: "format_loop us v out = out @ format_loop us v []"
proof (induction us arbitrary: v out)
  case (Cons u us)
  obtain k n where u: "u = (k, n)" by (cases u)
  show ?case
    using Cons.IH [of "v mod k" "out @ numberOf (unat (v div k)) @ n"] Cons.IH [of "v mod k" "numberOf (unat (v div k)) @ n"]
      Cons.IH [of v out]
    by (simp add: u Let_def)
qed simp

lemma format_loop_step:
  "format_loop ((k, n) # us) v [] =
     (if v div k = 0 then format_loop us v []
      else numberOf (unat (v div k)) @ n @ format_loop us (v mod k) [])"
  using format_loop_out [of us "v mod k" "numberOf (unat (v div k)) @ n"] by (simp add: Let_def)

lemma format_loop_head: "format_loop us v [] = [] \<or> validationDigit (hd (format_loop us v []))"
proof (induction us arbitrary: v)
  case (Cons u us)
  obtain k n where u: "u = (k, n)" by (cases u)
  obtain c ds where "numberOf (unat (v div k)) = c # ds" "validationDigit c"
    using numberOf_digits [of "unat (v div k)"] by (cases "numberOf (unat (v div k))") (auto simp: validationAllDigits_def)
  then show ?case using Cons.IH by (simp add: u format_loop_step del: format_loop.simps(2))
qed simp

definition unit_entry :: "64 word \<times> qstring \<Rightarrow> bool" where
  "unit_entry u \<longleftrightarrow> snd u \<in> fst ` set duration_units \<and> (\<forall>c \<in> set (snd u). 57 < c) \<and>
     validationDurationUnit (snd u) = fst u \<and> fst u \<noteq> 0"

lemma duration_loop_step:
  assumes "duration_segment s = Some (v, r)" "s \<noteq> []" "unat d + unat v \<le> 2 ^ 63"
  shows "duration_loop d s = duration_loop (d + v) r"
proof -
  have "unat (d + v) = unat d + unat v" using assms(3) by (intro unat_add_lem [THEN iffD1]) simp
  then have "\<not> kLimit < d + v" using assms(3) by (simp add: word_less_nat_alt)
  then show ?thesis using assms(1,2) by (cases s) simp_all
qed

lemma duration_loop_format:
  assumes "\<forall>u \<in> set us. unit_entry u" "us = [] \<Longrightarrow> v = 0" "us \<noteq> [] \<Longrightarrow> fst (last us) = 1"
    "unat d + unat v \<le> 2 ^ 63"
  shows "duration_loop d (format_loop us v []) = Some (d + v)"
  using assms
proof (induction us arbitrary: d v)
  case Nil
  then show ?case by simp
next
  case (Cons u us)
  obtain k n where u: "u = (k, n)" by (cases u)
  let ?q = "v div k" and ?m = "v mod k"
  have e: "n \<in> fst ` set duration_units" "\<forall>c \<in> set n. 57 < c" "validationDurationUnit n = k" "k \<noteq> 0"
    using Cons.prems(1) by (simp_all add: u unit_entry_def)
  have lst: "us = [] \<Longrightarrow> k = 1" "us \<noteq> [] \<Longrightarrow> fst (last us) = 1" using Cons.prems(3) u by auto
  have us: "\<forall>u \<in> set us. unit_entry u" using Cons.prems(1) by simp
  show ?case
  proof (cases "?q = 0")
    case True
    then have "us = [] \<Longrightarrow> v = 0" using lst(1) by simp
    then have "duration_loop d (format_loop us v []) = Some (d + v)"
      using Cons.IH [of v d] us lst(2) Cons.prems(4) by blast
    then show ?thesis using True by (simp add: u format_loop_step del: format_loop.simps(2))
  next
    case False
    let ?r = "format_loop us ?m []" and ?p = "?q * k"
    have nat_split: "unat v = unat ?q * unat k + unat ?m" by (simp add: unat_div unat_mod)
    have le: "unat ?q * unat k \<le> 2 ^ 63" using nat_split Cons.prems(4) by simp
    have p: "unat ?p = unat ?q * unat k" using le by (simp add: unat_mult_lem [THEN iffD1])
    have "unat d + unat ?p \<le> 2 ^ 63" using p nat_split Cons.prems(4) by simp
    moreover have "duration_segment (numberOf (unat ?q) @ n @ ?r) = Some (?p, ?r)"
      by (rule duration_segment_number [OF e(1-3) format_loop_head le])
    ultimately have "duration_loop d (numberOf (unat ?q) @ n @ ?r) = duration_loop (d + ?p) ?r"
      by (intro duration_loop_step) simp_all
    also have "\<dots> = Some (d + ?p + ?m)"
    proof (rule Cons.IH [OF us])
      show "us = [] \<Longrightarrow> ?m = 0" using lst(1) by simp
      show "us \<noteq> [] \<Longrightarrow> fst (last us) = 1" by (rule lst(2))
      have "unat (d + ?p) = unat d + unat ?p"
        using p nat_split Cons.prems(4) by (intro unat_add_lem [THEN iffD1]) simp
      then show "unat (d + ?p) + unat ?m \<le> 2 ^ 63" using p nat_split Cons.prems(4) by linarith
    qed
    also have "d + ?p + ?m = d + v" by (simp add: add.assoc word_mod_div_equality)
    finally show ?thesis using False by (simp add: u format_loop_step del: format_loop.simps(2))
  qed
qed


lemma format_units_entries: "\<forall>u \<in> set format_units. unit_entry u"
  by (simp add: format_units_def unit_entry_def duration_units_def validationDurationUnit_def ascii_def)

lemma duration_loop_units:
  assumes "unat v \<le> 2 ^ 63"
  shows "duration_loop 0 (format_loop format_units v []) = Some v"
  using duration_loop_format [OF format_units_entries, of v 0] assms by (simp add: format_units_def)

lemma format_loop_chars:
  assumes "\<forall>u \<in> set us. \<forall>c \<in> set (snd u). P c" "\<forall>c. validationDigit c \<longrightarrow> P c"
  shows "\<forall>c \<in> set (format_loop us v []). P c"
  using assms(1)
proof (induction us arbitrary: v)
  case (Cons u us)
  obtain k n where u: "u = (k, n)" by (cases u)
  have "\<forall>c \<in> set (numberOf (unat (v div k))). P c"
    using numberOf_digits [of "unat (v div k)"] assms(2) by (simp add: validationAllDigits_def list_all_iff)
  then show ?case using Cons by (auto simp: u format_loop_step simp del: format_loop.simps(2))
qed simp

lemma format_units_text:
  "c \<in> set (format_loop format_units v []) \<Longrightarrow> validationDigit c \<or> c = 104 \<or> c = 109 \<or> c = 115 \<or> c = 117 \<or> c = 110"
  using format_loop_chars [of format_units "\<lambda>c. validationDigit c \<or> c = 104 \<or> c = 109 \<or> c = 115 \<or> c = 117 \<or> c = 110" v]
  by (simp add: format_units_def ascii_def)

lemma ParseDurationNs_units:
  assumes utf8: "\<forall>s. list_all (\<lambda>c. c < 128) s \<longrightarrow> utf8 s = s" and v: "unat v \<le> 2 ^ 63" "v \<noteq> 0"
  shows "ParseDurationNs utf8 (format_loop format_units v []) = (if v = kLimit then None else Some (sint v))"
    "ParseDurationNs utf8 (45 # format_loop format_units v []) = Some (if v = kLimit then - (2 ^ 63) else - sint v)"
proof -
  let ?t = "format_loop format_units v []"
  have loop: "duration_loop 0 ?t = Some v" by (rule duration_loop_units [OF v(1)])
  have "?t \<noteq> []" using loop v(2) by auto
  have "?t \<noteq> [48]"
  proof
    assume "?t = [48]"
    moreover have "duration_loop 0 [48] = None" by code_simp
    ultimately show False using loop by simp
  qed
  have head: "validationDigit (hd ?t)" using format_loop_head \<open>?t \<noteq> []\<close> by blast
  have "trimmed ?t = ?t" "trimmed (45 # ?t) = 45 # ?t"
    by (rule trimmed_no_space; auto dest!: format_units_text simp: isSpace_def validationDigit_def)+
  moreover have "list_all (\<lambda>c. c < 128) ?t"
    by (auto simp: list_all_iff validationDigit_def dest!: format_units_text)
  then have "utf8 ?t = ?t" "utf8 (45 # ?t) = 45 # ?t" using utf8 by simp_all
  moreover have "(kLimit - 1 < v) = (v = kLimit)"
  proof -
    have "unat (kLimit - 1) = 2 ^ 63 - 1" by (simp add: kLimit_def)
    then show ?thesis using v(1) by (auto simp: word_less_nat_alt word_unat_eq_iff)
  qed
  ultimately show "ParseDurationNs utf8 ?t = (if v = kLimit then None else Some (sint v))"
    "ParseDurationNs utf8 (45 # ?t) = Some (if v = kLimit then - (2 ^ 63) else - sint v)"
    using \<open>?t \<noteq> []\<close> \<open>?t \<noteq> [48]\<close> loop head
    by (auto simp: ParseDurationNs_def startsWith_def validationDigit_def)
qed

text \<open>
  C23. Reading the text the messages print for a duration gives the duration back, for every
  qint64 number of nanoseconds, the smallest one included.
\<close>

theorem ParseDurationNs_FormatDuration:
  assumes "\<forall>s. list_all (\<lambda>c. c < 128) s \<longrightarrow> utf8 s = s"
  shows "ParseDurationNs utf8 (validationFormatDuration ns) = Some (sint ns)"
proof (cases "ns = 0")
  case True
  have "utf8 [48, 115] = [48, 115]" using assms by simp
  moreover have "duration_loop 0 [48, 115] = Some 0" by code_simp
  ultimately show ?thesis using True
    by (simp add: validationFormatDuration_def ascii_def ParseDurationNs_def startsWith_def trimmed_def isSpace_def kLimit_def)
next
  case False
  show ?thesis
  proof (cases "sint ns < 0")
    case True
    have u: "unat (0 - ns) = nat (- sint ns)"
    proof -
      have "0 - ns = of_nat (nat (- sint ns))" using True by simp
      also have "unat \<dots> = nat (- sint ns)" by (rule unat_of_nat64) (use sint_ge [of ns] in simp)
      finally show ?thesis .
    qed
    then have le: "unat (0 - ns) \<le> 2 ^ 63" using sint_ge [of ns] by simp
    have "(0 - ns = kLimit) = (sint ns = - (2 ^ 63))"
      using u True by (simp add: word_unat_eq_iff) linarith
    moreover have "0 - ns \<noteq> kLimit \<Longrightarrow> sint (0 - ns) = - sint ns"
    proof -
      assume "0 - ns \<noteq> kLimit"
      then have "unat (0 - ns) < 2 ^ 63" using le by (simp add: word_unat_eq_iff)
      then have "sint (of_nat (unat (0 - ns)) :: 64 word) = int (unat (0 - ns))" by (rule sint_of_nat64)
      moreover have "of_nat (unat (0 - ns)) = 0 - ns" by simp
      ultimately have "sint (0 - ns) = int (unat (0 - ns))" by metis
      also have "\<dots> = - sint ns" unfolding u using True by simp
      finally show ?thesis .
    qed
    ultimately show ?thesis
      using False True ParseDurationNs_units(2) [OF assms le] format_loop_out [of format_units "0 - ns" "[45]"]
      by (simp add: validationFormatDuration_def)
next
    case nonneg: False
    have u: "unat ns = nat (sint ns)"
    proof -
      have "ns = of_nat (nat (sint ns))" using nonneg by simp
      moreover have "unat (of_nat (nat (sint ns)) :: 64 word) = nat (sint ns)"
        by (rule unat_of_nat64) (use sint_lt [of ns] in simp)
      ultimately show ?thesis by metis
    qed
    then have "unat ns < 2 ^ 63" using sint_lt [of ns] by simp
    moreover from this have "ns \<noteq> kLimit" by auto
    ultimately show ?thesis using False nonneg ParseDurationNs_units(1) [OF assms, of ns]
      by (simp add: validationFormatDuration_def)
  qed
qed

lemma plain_no_spaces: "\<forall>c \<in> S. 33 \<le> c \<and> c \<le> 126 \<Longrightarrow> \<forall>c \<in> S. \<not> isSpace c"
  by (auto simp: isSpace_def)

lemma memory_value_exact:
  assumes "trimmed u = u" "lower u = u" "validationMemoryUnit u = k" "k \<noteq> 0"
  shows "memory_value lower (numberOf n) u = (if n * unat k < 2 ^ 64 then None else Some NumberTooLarge)"
proof -
  have "1 \<le> unat k" using assms(4) by (simp add: Suc_le_eq unat_gt_0)
  then have "n * 1 \<le> n * unat k" by (rule mult_le_mono2)
  then have le: "n \<le> n * unat k" by simp
  show ?thesis
  proof (cases "n < 2 ^ 64")
    case True
    have m: "unat (- 1 :: 64 word) = 2 ^ 64 - 1" by (simp add: unsigned_minus_1_eq_mask mask_eq_exp_minus_1)
    have "((- 1) div k < of_nat n) = ((2 ^ 64 - 1) div unat k < n)"
      using True unat_of_nat64 [OF True] m by (simp only: word_less_nat_alt unat_div)
    also have "\<dots> = (2 ^ 64 - 1 < n * unat k)"
      using \<open>1 \<le> unat k\<close> by (simp add: div_less_iff_less_mult)
    finally show ?thesis using True assms by (auto simp: memory_value_def to_ulonglong_def digits_from_numberOf)
  next
    case False
    with le have "\<not> n * unat k < 2 ^ 64" by linarith
    with False show ?thesis by (simp add: memory_value_def to_ulonglong_def digits_from_numberOf)
  qed
qed

theorem MemoryBytes_exact:
  assumes lower: "\<forall>s. list_all (\<lambda>c. 97 \<le> c \<and> c \<le> 122) s \<longrightarrow> lower s = s"
  shows "list_all (\<lambda>(u, k). MemoryBytes lower b e (numberOf n @ u) =
     (if n * unat k < 2 ^ 64 then None else Some NumberTooLarge)) memory_units"
proof -
  have one: "MemoryBytes lower b e (numberOf n @ u) = (if n * unat k < 2 ^ 64 then None else Some NumberTooLarge)"
    if u: "list_all (\<lambda>c. 97 \<le> c \<and> c \<le> 122) u" "u \<noteq> []" and k: "validationMemoryUnit u = k" "k \<noteq> 0" for u k
  proof -
    have ds: "\<forall>c \<in> set (numberOf n). validationDigit c" "numberOf n \<noteq> []"
      using numberOf_digits [of n] by (simp_all add: validationAllDigits_def list_all_iff)
    have nd: "\<not> validationDigit (hd u)" "hd u \<noteq> 46" "hd u \<noteq> 44" using u by (cases u; auto simp: validationDigit_def)+
    have "\<forall>c \<in> set (numberOf n @ u). 33 \<le> c \<and> c \<le> 126"
      using u(1) ds(1) by (auto simp: list_all_iff validationDigit_def)
    then have "\<forall>c \<in> set (numberOf n @ u). \<not> isSpace c" by (rule plain_no_spaces)
    then have "trimmed (numberOf n @ u) = numberOf n @ u" "trimmed u = u" by (simp_all add: trimmed_no_space)
    moreover have "takeWhile validationDigit (numberOf n @ u) = numberOf n" "dropWhile validationDigit (numberOf n @ u) = u"
      using ds nd u(2) by (cases u; simp add: takeWhile_append2 dropWhile_append2)+
    moreover have "memory_value lower (numberOf n) u = (if n * unat k < 2 ^ 64 then None else Some NumberTooLarge)"
      using u(1) lower k calculation(2) by (intro memory_value_exact) simp_all
    ultimately show ?thesis using ds u(2) nd by (simp add: MemoryBytes_def)
  qed
  have "list_all (\<lambda>(u, k). list_all (\<lambda>c. 97 \<le> c \<and> c \<le> 122) u \<and> u \<noteq> [] \<and> validationMemoryUnit u = k \<and> k \<noteq> 0) memory_units"
    by (simp add: memory_units_def validationMemoryUnit_def ascii_def)
  then show ?thesis using one by (auto simp: list_all_iff)
qed

theorem MemoryBytes_exact_witness:
  "list_all (\<lambda>(u, k). MemoryBytes id b e (numberOf 16 @ u) =
     (if 16 * unat k < 2 ^ 64 then None else Some NumberTooLarge)) memory_units"
  by (rule MemoryBytes_exact) simp

theorem ParseDurationNs_FormatDuration_witness:
  "ParseDurationNs id (validationFormatDuration (- 5400000000001)) = Some (- 5400000000001)"
  using ParseDurationNs_FormatDuration [of id "- 5400000000001"] by simp

text \<open>The one sum that gets past the limit: two segments of 2^63 wrap to 0.\<close>

lemma duration_sum_wraps:
  assumes "\<forall>s. list_all (\<lambda>c. c < 128) s \<longrightarrow> utf8 s = s"
  shows "ParseDurationNs utf8 (numberOf (2 ^ 63) @ ascii ''ns'' @ numberOf (2 ^ 63) @ ascii ''ns'') = Some 0"
proof -
  let ?n = "numberOf (unat kLimit)" and ?s = "ascii ''ns''"
  have ns: "?s \<in> fst ` set duration_units" "\<forall>c \<in> set ?s. 57 < c" "validationDurationUnit ?s = 1"
    by (simp_all add: duration_units_def ascii_def validationDurationUnit_def)
  have ds: "\<forall>c \<in> set ?n. validationDigit c" "?n \<noteq> []"
    using numberOf_digits [of "unat kLimit"] by (simp_all add: validationAllDigits_def list_all_iff)
  have d: "validationDigit (hd (?n @ ?s))" using ds by (cases ?n) auto
  let ?t = "?n @ ?s @ ?n @ ?s"
  have "duration_segment (?n @ ?s @ []) = Some (kLimit * 1, [])"
    by (rule duration_segment_number [OF ns]) simp_all
  then have l2: "duration_loop kLimit (?n @ ?s) = Some 0"
    using ds(2) by (cases "?n @ ?s") (simp_all add: kLimit_def)
  have "duration_segment (?n @ ?s @ ?n @ ?s) = Some (kLimit * 1, ?n @ ?s)"
    by (rule duration_segment_number [OF ns]) (use d in simp_all)
  moreover have "?t \<noteq> []" using ds(2) by simp
  ultimately have "duration_loop 0 ?t = duration_loop kLimit (?n @ ?s)"
    using duration_loop_step [of ?t kLimit "?n @ ?s" 0] by simp
  moreover have c: "\<forall>c \<in> set ?t. 48 \<le> c \<and> c \<le> 126" using ds(1) by (auto simp: validationDigit_def ascii_def)
  moreover have "trimmed ?t = ?t" using plain_no_spaces [of "set ?t"] c by (intro trimmed_no_space) fastforce
  moreover have "list_all (\<lambda>c. c < 128) ?t" using c unfolding list_all_iff by fastforce
  then have "utf8 ?t = ?t" using assms by blast
  moreover have "?t \<noteq> [48]" by (simp add: ascii_def)
  moreover have "hd ?t \<noteq> 45" "hd ?t \<noteq> 43" using c \<open>?t \<noteq> []\<close> hd_in_set [of ?t] by fastforce+
  ultimately show ?thesis using l2 \<open>?t \<noteq> []\<close>
    by (simp add: ParseDurationNs_def startsWith_def kLimit_def)
qed

end
