(* ===== verification/FieldAddress.thy ===== *)
theory FieldAddress
  imports FieldNumbers
begin

text \<open>
  Addresses and hosts of \<^verbatim>\<open>src/global/Validation.cpp\<close>: the address reader after Go's \<^verbatim>\<open>netip\<close>, the check of
  addresses and networks, host names, hosts with a port and URLs. The index loops are recursions over the rest
  of the text. \<open>toAce\<close> is \<^verbatim>\<open>QUrl::toAce\<close>, the record \<open>qurl\<close> the parts of \<^verbatim>\<open>QUrl\<close> the code reads, \<open>lower\<close>
  and \<open>folded\<close> \<^verbatim>\<open>QString::toLower\<close> and the folding of \<^verbatim>\<open>Qt::CaseInsensitive\<close>.
\<close>

section \<open>Reading an address\<close>

datatype ValidationIpKind = IpInvalid | IpV4 | IpV6

record ValidationIp =
  ip_kind :: ValidationIpKind
  zoned :: bool

text \<open>\<open>before\<close> is the previous character, \<open>None\<close> at the start.\<close>

fun ipv4_fields :: "qchar option \<Rightarrow> nat \<Rightarrow> nat \<Rightarrow> nat \<Rightarrow> qstring \<Rightarrow> bool" where
  "ipv4_fields before val pos digLen [] = (pos = 3)"
| "ipv4_fields before val pos digLen (c # s) =
     (if validationDigit c then
        (if digLen = 1 \<and> val = 0 then False
         else if 255 < val * 10 + (c - 48) then False
         else ipv4_fields (Some c) (val * 10 + (c - 48)) pos (digLen + 1) s)
      else if c = 46 then
        (if before = None \<or> s = [] \<or> before = Some 46 then False
         else if pos = 3 then False
         else ipv4_fields (Some c) 0 (pos + 1) 0 s)
      else False)"

definition validationIpv4Fields :: "qstring \<Rightarrow> bool" where
  "validationIpv4Fields s = ipv4_fields None 0 0 0 s"

definition hexValue :: "qchar \<Rightarrow> nat" where
  "hexValue u = (if u \<le> 57 then u - 48 else (u OR 0x20) - 97 + 10)"

text \<open>The digits of one group: \<open>None\<close> where the code returns false, else their number and the rest of the text.\<close>

fun ipv6_digits :: "nat \<Rightarrow> nat \<Rightarrow> qstring \<Rightarrow> (nat \<times> qstring) option" where
  "ipv6_digits off acc [] = Some (off, [])"
| "ipv6_digits off acc (c # s) =
     (if \<not> validationHexDigit c then Some (off, c # s)
      else
        (let acc = (push_bit 4 acc + hexValue c) mod 2 ^ 32
         in if 3 < off \<or> 0xFFFF < acc then None else ipv6_digits (off + 1) acc s))"

definition ipv6_end :: "nat \<Rightarrow> nat option \<Rightarrow> qstring \<Rightarrow> bool" where
  "ipv6_end i ellipsis p \<longleftrightarrow> p = [] \<and> (if i < 16 then ellipsis \<noteq> None else ellipsis = None)"

function ipv6_loop :: "nat \<Rightarrow> nat option \<Rightarrow> qstring \<Rightarrow> bool" where
  "ipv6_loop i ellipsis p =
     (if \<not> i < 16 then ipv6_end i ellipsis p
      else case ipv6_digits 0 0 p of
             None \<Rightarrow> False
           | Some (off, r) \<Rightarrow>
               if off = 0 then False
               else if startsWith 46 r then
                 (if ellipsis = None \<and> i \<noteq> 12 then False
                  else if 16 < i + 4 then False
                  else if \<not> validationIpv4Fields p then False
                  else ipv6_end (i + 4) ellipsis [])
               else if r = [] then ipv6_end (i + 2) ellipsis []
               else if hd r \<noteq> 58 \<or> tl r = [] then False
               else if hd (tl r) = 58 then
                 (if ellipsis \<noteq> None then False
                  else if tl (tl r) = [] then ipv6_end (i + 2) (Some (i + 2)) []
                  else ipv6_loop (i + 2) (Some (i + 2)) (tl (tl r)))
               else ipv6_loop (i + 2) ellipsis (tl r))"
  by pat_completeness auto
termination
  by (relation "measure (\<lambda>(i, ellipsis, p). 16 - i)") auto

declare ipv6_loop.simps [simp del]

definition ipv6_text :: "qstring \<Rightarrow> bool" where
  "ipv6_text s =
     (if startsWith 58 s \<and> startsWith 58 (drop 1 s)
      then (if drop 2 s = [] then True else ipv6_loop 0 (Some 0) (drop 2 s))
      else ipv6_loop 0 None s)"

text \<open>The answer, and the out parameter \<^verbatim>\<open>zoned\<close>.\<close>

definition validationIpv6 :: "qstring \<Rightarrow> bool \<times> bool" where
  "validationIpv6 s =
     (case indexOf 37 s of
        None \<Rightarrow> (ipv6_text s, False)
      | Some pct \<Rightarrow> if pct = length s - 1 then (False, False) else (ipv6_text (take pct s), True))"

fun parse_ip_scan :: "qstring \<Rightarrow> qstring \<Rightarrow> ValidationIp" where
  "parse_ip_scan s [] = \<lparr>ip_kind = IpInvalid, zoned = False\<rparr>"
| "parse_ip_scan s (c # r) =
     (if c = 46 then \<lparr>ip_kind = (if validationIpv4Fields s then IpV4 else IpInvalid), zoned = False\<rparr>
      else if c = 58 then
        (let (ok, z) = validationIpv6 s in \<lparr>ip_kind = (if ok then IpV6 else IpInvalid), zoned = z\<rparr>)
      else if c = 37 then \<lparr>ip_kind = IpInvalid, zoned = False\<rparr>
      else parse_ip_scan s r)"

definition validationParseIp :: "qstring \<Rightarrow> ValidationIp" where
  "validationParseIp s = parse_ip_scan s s"

definition validationCheckIp :: "ValidationIp \<Rightarrow> Family \<Rightarrow> message option" where
  "validationCheckIp ip family =
     (if ip_kind ip = IpInvalid then Some (IpMessage family)
      else if family = FamilyV4 \<and> ip_kind ip \<noteq> IpV4 then Some (IpMessage family)
      else if family = FamilyV6 \<and> ip_kind ip \<noteq> IpV6 then Some (IpMessage family)
      else if zoned ip then Some ZoneNotAllowed
      else None)"

definition validationZoneHasColon :: "qstring \<Rightarrow> bool" where
  "validationZoneHasColon s =
     (case indexOf 37 s of None \<Rightarrow> False | Some pct \<Rightarrow> 58 \<in> set (drop (pct + 1) s))"

definition validationIpv6Like :: "qstring \<Rightarrow> bool" where
  "validationIpv6Like s =
     (let address = (case indexOf 37 s of None \<Rightarrow> s | Some pct \<Rightarrow> take pct s)
      in case indexOf 58 address of
           None \<Rightarrow> False
         | Some colon \<Rightarrow>
             (case indexOf 46 address of
                Some dot \<Rightarrow> \<not> dot < colon
              | None \<Rightarrow> True) \<and>
             list_all (\<lambda>c. validationHexDigit c \<or> c = 58 \<or> c = 46) address)"

section \<open>Addresses and networks\<close>

definition IpCheck :: "Family \<Rightarrow> Empty \<Rightarrow> rule" where
  "IpCheck family e s =
     (let t = trimmed s
      in if t = [] then validationEmpty e else validationCheckIp (validationParseIp t) family)"

definition cidr_bits :: "ValidationIp \<Rightarrow> qstring \<Rightarrow> message option" where
  "cidr_bits ip bits =
     (if 46 \<in> set bits then Some NoNetmask
      else if \<not> validationAllDigits bits then Some NeedPrefix
      else if 1 < length bits \<and> hd bits = 48 then Some PrefixLeadingZeros
      else
        (let maxBits = (if ip_kind ip = IpV4 then 32 else 128)
         in if 3 < length bits \<or> maxBits < int (decimal_value bits) then Some (PrefixRange maxBits) else None))"

definition CidrCheck :: "Family \<Rightarrow> bool \<Rightarrow> Empty \<Rightarrow> rule" where
  "CidrCheck family allowBareIp e s =
     (let t = trimmed s
      in if t = [] then validationEmpty e
         else case lastIndexOf 47 t of
                None \<Rightarrow>
                  if allowBareIp then validationCheckIp (validationParseIp t) family else Some NeedPrefix
              | Some slash \<Rightarrow>
                  (let ip = validationParseIp (take slash t)
                   in case validationCheckIp ip family of
                        Some m \<Rightarrow> Some m
                      | None \<Rightarrow> cidr_bits ip (drop (slash + 1) t)))"

section \<open>Hosts\<close>

definition scheme_mark :: qstring where
  "scheme_mark = [58, 47, 47]"

definition host_bracket :: "qstring \<Rightarrow> message option" where
  "host_bracket t =
     (case indexOf 93 t of
        None \<Rightarrow> Some HostMessage
      | Some close \<Rightarrow>
          if ip_kind (validationParseIp (take (close - 1) (drop 1 t))) \<noteq> IpV6 then Some HostMessage
          else
            (let rest = drop (close + 1) t
             in if rest = [] then None
                else if startsWith 58 rest \<and> validationAllDigits (drop 1 rest) then Some PortOwnField
                else Some HostMessage))"

text \<open>The text after the last occurrence of \<open>c\<close>, the whole text where there is none.\<close>

definition after_last :: "qchar \<Rightarrow> qstring \<Rightarrow> qstring" where
  "after_last c t = (case lastIndexOf c t of None \<Rightarrow> t | Some i \<Rightarrow> drop (i + 1) t)"

definition label_ok :: "nat list \<Rightarrow> bool" where
  "label_ok label \<longleftrightarrow>
     \<not> (label = [] \<or> 63 < length label \<or> hd label = 45 \<or> last label = 45) \<and>
     list_all (\<lambda>c. validationAsciiAlnum c \<or> c = 45 \<or> c = 95) label"

definition name_ok :: "nat list \<Rightarrow> bool" where
  "name_ok ace =
     (let name = (if ace \<noteq> [] \<and> last ace = 46 then butlast ace else ace)
      in \<not> (name = [] \<or> 253 < length name) \<and> list_all label_ok (split_on 46 name))"

definition HostCheck :: "(qstring \<Rightarrow> nat list) \<Rightarrow> Empty \<Rightarrow> rule" where
  "HostCheck toAce e s =
     (let t = trimmed s
      in if t = [] then validationEmpty e
         else if indexOfStr scheme_mark t \<noteq> None then Some SchemeMessage
         else if list_ex isSpace t then Some NoSpaces
         else if list_ex (\<lambda>c. c = 47 \<or> c = 63 \<or> c = 35 \<or> c = 64) t then Some OnlyHostName
         else if startsWith 91 t then host_bracket t
         else if ip_kind (validationParseIp t) \<noteq> IpInvalid then
           (if \<not> validationZoneHasColon t then None
            else if validationAllDigits (after_last 58 t) then Some PortOwnField
            else Some (IpMessage FamilyV6))
         else case lastIndexOf 58 t of
                Some colon \<Rightarrow>
                  if indexOf 58 t \<noteq> Some colon
                  then Some (if validationIpv6Like t then IpMessage FamilyV6 else HostMessage)
                  else if validationAllDigits (drop (colon + 1) t) then Some PortOwnField
                  else Some HostMessage
              | None \<Rightarrow>
                  if list_all (\<lambda>c. validationDigit c \<or> c = 46) t then Some (IpMessage FamilyV4)
                  else if name_ok (toAce t) then None else Some HostMessage)"

text \<open>The port part of a host: absent, or a text after the colon.\<close>

definition host_port_part :: "bool \<Rightarrow> qstring option \<Rightarrow> message option" where
  "host_port_part portRequired port =
     (case port of
        None \<Rightarrow> if portRequired then Some AddPort else None
      | Some p \<Rightarrow> if port_ok p then None else Some PortMessage)"

definition HostPort :: "(qstring \<Rightarrow> nat list) \<Rightarrow> bool \<Rightarrow> Empty \<Rightarrow> rule" where
  "HostPort toAce portRequired e s =
     (let t = trimmed s
      in if t = [] then validationEmpty e
         else if indexOfStr scheme_mark t \<noteq> None then Some SchemeMessage
         else if startsWith 91 t then
           (case indexOf 93 t of
              None \<Rightarrow> Some (IpMessage FamilyV6)
            | Some close \<Rightarrow>
                if ip_kind (validationParseIp (take (close - 1) (drop 1 t))) \<noteq> IpV6 then Some (IpMessage FamilyV6)
                else
                  (let rest = drop (close + 1) t
                   in if rest = [] then host_port_part portRequired None
                      else if \<not> startsWith 58 rest then Some HostMessage
                      else host_port_part portRequired (Some (drop 1 rest))))
         else if ip_kind (validationParseIp t) = IpV6 then
           (if portRequired \<or> validationZoneHasColon t then Some UseBrackets else None)
         else
           (let (host, port) =
              (case lastIndexOf 58 t of
                 None \<Rightarrow> (t, None)
               | Some colon \<Rightarrow> (take colon t, Some (drop (colon + 1) t)))
            in if port \<noteq> None \<and> 58 \<in> set host
               then Some (if validationIpv6Like host then UseBrackets else HostMessage)
               else if host = [] then Some HostMessage
               else case HostCheck toAce EmptyRequired host of
                      Some m \<Rightarrow> Some m
                    | None \<Rightarrow> host_port_part portRequired port))"

section \<open>URLs\<close>

definition validationUrlPort :: "qstring \<Rightarrow> qstring" where
  "validationUrlPort t =
     (case indexOfStr scheme_mark t of
        None \<Rightarrow> []
      | Some sep \<Rightarrow>
          if \<not> (0 < sep \<and> validationAsciiAlnum (hd t) \<and> \<not> validationDigit (hd t)) \<or>
             \<not> list_all (\<lambda>c. validationAsciiAlnum c \<or> c = 43 \<or> c = 45 \<or> c = 46) (take sep t)
          then []
          else
            (let authority = takeWhile (\<lambda>c. c \<noteq> 47 \<and> c \<noteq> 63 \<and> c \<noteq> 35) (drop (sep + 3) t);
                 host = after_last 64 authority
             in if startsWith 91 host then
                  (case indexOf 93 host of
                     None \<Rightarrow> []
                   | Some close \<Rightarrow>
                       if length host \<le> close + 1 \<or> host ! (close + 1) \<noteq> 58 then [] else drop (close + 2) host)
                else (case lastIndexOf 58 host of None \<Rightarrow> [] | Some colon \<Rightarrow> drop (colon + 1) host)))"

record qurl =
  qurl_valid :: "qstring \<Rightarrow> bool"
  qurl_scheme :: "qstring \<Rightarrow> qstring"
  qurl_host :: "qstring \<Rightarrow> qstring"

definition UrlCheck ::
  "qurl \<Rightarrow> (qstring \<Rightarrow> qstring) \<Rightarrow> (qstring \<Rightarrow> qstring) \<Rightarrow> qstring list \<Rightarrow> Empty \<Rightarrow> rule" where
  "UrlCheck q lower folded schemes e s =
     (let t = trimmed s; port = validationUrlPort t
      in if t = [] then validationEmpty e
         else if list_ex isSpace t then Some NoSpaces
         else if schemes \<noteq> [] \<and> \<not> list_ex (\<lambda>x. folded x = folded (qurl_scheme q t)) schemes
         then Some (UrlStarting (map (\<lambda>x. lower x @ scheme_mark) schemes))
         else if port \<noteq> [] \<and> \<not> port_ok port then Some PortMessage
         else if \<not> qurl_valid q t \<or> qurl_scheme q t = [] \<or> qurl_host q t = [] then Some NotUrl
         else None)"

end
