(* ===== verification/FieldAddressText.thy ===== *)
theory FieldAddressText
  imports FieldAddress
begin

text \<open>
  The address reader of the form checks and the one of the scanner's lists (\<open>IpAddr\<close>) take the same texts,
  although one follows Go's \<^verbatim>\<open>netip\<close> character by character and the other splits the text. The common ground
  is how many groups a text between colons stands for. So whatever the scanner prints passes the checks.
\<close>

section \<open>IPv4\<close>

definition octet_ok :: "qstring \<Rightarrow> bool" where
  "octet_ok p \<longleftrightarrow> validationAllDigits p \<and> (length p = 1 \<or> hd p \<noteq> 48) \<and> decimal_value p \<le> 255"

lemma decimal_value_append [simp]: "decimal_value (s @ [c]) = decimal_value s * 10 + (c - 48)"
  by (simp add: decimal_value_def)

lemma octet_short: "octet_ok p \<Longrightarrow> length p \<le> 3"
proof (rule ccontr)
  assume p: "octet_ok p" and "\<not> length p \<le> 3"
  then obtain c r where cr: "p = c # r" "3 \<le> length r" by (cases p) auto
  with p have "1 \<le> c - 48" by (auto simp: octet_ok_def validationAllDigits_def validationDigit_def)
  then have "1 * 10 ^ 3 \<le> (c - 48) * 10 ^ length r" using cr(2) by (intro mult_le_mono power_increasing) auto
  also have "\<dots> \<le> decimal_value p" using digits_from_power [of "c - 48" r] cr by (simp add: decimal_value_def)
  finally show False using p by (simp add: octet_ok_def)
qed

lemma decimal_loop_value:
  "digits_from v s < 2 ^ 32 \<Longrightarrow> decimal_loop s v = (if list_all validationDigit s then Some (digits_from v s) else None)"
proof (induction s arbitrary: v)
  case (Cons c s)
  have "v * 10 + (c - 48) < 2 ^ 32"
    using Cons.prems digits_from_ge [of "v * 10 + (c - 48)" s] by simp
  then show ?case using Cons by (auto simp: validationDigit_def)
qed simp

lemma digits_from_less: "list_all validationDigit s \<Longrightarrow> digits_from v s < (v + 1) * 10 ^ length s"
proof (induction s arbitrary: v)
  case (Cons c s)
  have "digits_from (v * 10 + (c - 48)) s < (v * 10 + (c - 48) + 1) * 10 ^ length s" using Cons by simp
  also have "\<dots> \<le> (v * 10 + 10) * 10 ^ length s"
    using Cons.prems by (intro mult_le_mono1) (auto simp: validationDigit_def)
  finally show ?case by (simp add: algebra_simps)
qed simp

lemma decimal_loop_digits_only: "decimal_loop s v \<noteq> None \<Longrightarrow> list_all validationDigit s"
  by (induction s arbitrary: v) (auto simp: validationDigit_def split: if_splits)

lemma Decimal_octet:
  "(\<exists>n. Decimal p 3 = Some n \<and> n \<le> 255 \<and> \<not> (1 < length p \<and> hd p = 48)) = octet_ok p"
proof (cases "list_all validationDigit p \<and> p \<noteq> [] \<and> length p \<le> 3")
  case True
  then have "decimal_value p < 1 * 10 ^ length p" using digits_from_less [of p 0] by (simp add: decimal_value_def)
  also have "\<dots> \<le> 10 ^ 3" unfolding mult_1 using True by (intro power_increasing) auto
  finally have "Decimal p 3 = Some (decimal_value p)"
    using True decimal_loop_value [of 0 p] by (simp add: Decimal_def decimal_value_def)
  moreover have "(length p = 1) = (\<not> 1 < length p)" using True by (cases p) auto
  ultimately show ?thesis using True by (auto simp: octet_ok_def validationAllDigits_def)
next
  case False
  then show ?thesis using decimal_loop_digits_only [of p 0] octet_short [of p]
    by (auto simp: Decimal_def octet_ok_def validationAllDigits_def split: if_splits)
qed

lemma v4_loop_octets: "k \<le> 4 \<Longrightarrow> (v4_loop ps k v \<noteq> None) = (list_all octet_ok ps \<and> k + length ps = 4)"
proof (induction ps arbitrary: k v)
  case (Cons p ps)
  show ?case
  proof (cases "octet_ok p")
    case True
    then obtain n where "Decimal p 3 = Some n" "n \<le> 255" "\<not> (1 < length p \<and> hd p = 48)"
      using Decimal_octet by blast
    then show ?thesis using Cons.IH [of "k + 1" "push_bit 8 v mod 2 ^ 32 OR n"] True Cons.prems
      by (cases "k = 4") auto
  next
    case False
    then have "v4_loop (p # ps) k v = None"
      using Decimal_octet [of p] by (cases "Decimal p 3") (auto simp del: Decimal_def)
    then show ?thesis using False by simp
  qed
qed auto

lemma split_on_Cons: "split_on c s = hd (split_on c s) # tl (split_on c s)"
  by (cases "split_on c s") (use split_on_not_Nil in auto)

lemma ipv4_fields_octets:
  assumes "validationAllDigits cur \<or> cur = []" "cur = [] \<or> octet_ok cur"
    "(cur = []) = (before = None \<or> before = Some 46)" "s = [] \<and> cur = [] \<longrightarrow> pos \<noteq> 3" "pos \<le> 3"
  shows "ipv4_fields before (decimal_value cur) pos (length cur) s =
    (octet_ok (cur @ hd (split_on 46 s)) \<and> list_all octet_ok (tl (split_on 46 s)) \<and>
     pos + length (split_on 46 s) = 4)"
  using assms
proof (induction s arbitrary: before cur pos)
  case Nil
  then show ?case by (auto simp: octet_ok_def validationAllDigits_def)
next
  case (Cons c s)
  obtain p ps where ps: "split_on 46 s = p # ps" by (meson split_on_Cons)
  show ?case
  proof (cases "validationDigit c")
    case True
    then have split: "split_on 46 (c # s) = (c # p) # ps" using ps by (auto simp: validationDigit_def)
    have ge: "decimal_value (cur @ [c]) \<le> decimal_value (cur @ c # p)"
      using digits_from_ge [of "decimal_value (cur @ [c])" p] by (simp add: decimal_value_def)
    show ?thesis
    proof (cases "length cur = 1 \<and> decimal_value cur = 0")
      case True
      then have "cur = [48]" using Cons.prems(1)
        by (cases cur) (auto simp: decimal_value_def validationAllDigits_def validationDigit_def)
      then have "\<not> octet_ok (cur @ c # p)" by (simp add: octet_ok_def)
      then show ?thesis using True \<open>validationDigit c\<close> split by simp
    next
      case nz: False
      show ?thesis
      proof (cases "255 < decimal_value (cur @ [c])")
        case True
        then have "\<not> octet_ok (cur @ c # p)" using ge by (simp add: octet_ok_def)
        then show ?thesis using True nz \<open>validationDigit c\<close> split by simp
      next
        case False
        have "hd cur \<noteq> 48" if ne: "cur \<noteq> []"
        proof (cases "length cur = 1")
          case True
          then obtain d where "cur = [d]" by (cases cur) auto
          with nz show ?thesis by (auto simp: decimal_value_def)
        next
          case False
          with ne Cons.prems(2) show ?thesis by (auto simp: octet_ok_def)
        qed
        then have ok: "octet_ok (cur @ [c])" using False Cons.prems(1) \<open>validationDigit c\<close>
          by (cases cur) (auto simp: octet_ok_def validationAllDigits_def)
        then have "ipv4_fields (Some c) (decimal_value (cur @ [c])) pos (length (cur @ [c])) s =
          (octet_ok ((cur @ [c]) @ p) \<and> list_all octet_ok ps \<and> pos + length (p # ps) = 4)"
        proof (subst Cons.IH)
          show "validationAllDigits (cur @ [c]) \<or> cur @ [c] = []" using ok by (simp add: octet_ok_def)
        qed (use ok Cons.prems(5) \<open>validationDigit c\<close> ps in \<open>auto simp: validationDigit_def\<close>)
        then show ?thesis using False nz \<open>validationDigit c\<close> split by (simp del: split_on.simps) auto
      qed
    qed
  next
    case nd: False
    show ?thesis
    proof (cases "c = 46")
      case True
      then have split: "split_on 46 (c # s) = [] # p # ps" using ps by simp
      show ?thesis
      proof (cases "cur = [] \<or> s = [] \<or> pos = 3")
        case True
        moreover have "\<not> octet_ok []" by (simp add: octet_ok_def validationAllDigits_def)
        ultimately show ?thesis using split \<open>c = 46\<close> nd Cons.prems(3) ps by auto
      next
        case False
        then have "ipv4_fields (Some 46) (decimal_value []) (pos + 1) (length ([] :: qstring)) s =
          (octet_ok ([] @ p) \<and> list_all octet_ok ps \<and> pos + 1 + length (p # ps) = 4)"
          using Cons.IH [of "[]" "Some 46" "pos + 1"] Cons.prems(5) ps by simp
        then show ?thesis using False \<open>c = 46\<close> nd Cons.prems split by (auto simp: decimal_value_def)
      qed
    next
      case False
      then have "split_on 46 (c # s) = (c # p) # ps" using ps by simp
      moreover have "\<not> octet_ok (cur @ c # p)" using nd by (simp add: octet_ok_def validationAllDigits_def)
      ultimately show ?thesis using False nd by simp
    qed
  qed
qed

lemma validationIpv4Fields_V4: "validationIpv4Fields s = (V4 s \<noteq> None)"
proof -
  have "validationIpv4Fields s =
    (octet_ok (hd (split_on 46 s)) \<and> list_all octet_ok (tl (split_on 46 s)) \<and> length (split_on 46 s) = 4)"
    using ipv4_fields_octets [of "[]" None s 0] by (simp add: validationIpv4Fields_def decimal_value_def)
  also have "\<dots> = (list_all octet_ok (split_on 46 s) \<and> length (split_on 46 s) = 4)"
    by (cases "split_on 46 s") auto
  finally show ?thesis using v4_loop_octets [of 0 "split_on 46 s" 0] by (simp add: V4_def)
qed

section \<open>IPv6: the groups of a text\<close>

definition group_ok :: "qstring \<Rightarrow> bool" where
  "group_ok g \<longleftrightarrow> g \<noteq> [] \<and> length g \<le> 4 \<and> list_all validationHexDigit g"

text \<open>How many 16-bit groups the parts between colons stand for, an IPv4 tail counting as two.\<close>

fun group_count :: "bool \<Rightarrow> qstring list \<Rightarrow> nat option" where
  "group_count tail [] = Some 0"
| "group_count tail (g # gs) =
     (if gs = [] \<and> tail \<and> 46 \<in> set g then (if V4 g \<noteq> None then Some 2 else None)
      else if group_ok g then map_option Suc (group_count tail gs)
      else None)"

definition text_count :: "bool \<Rightarrow> qstring \<Rightarrow> nat option" where
  "text_count tail t = (if t = [] then Some 0 else group_count tail (split_on 58 t))"

lemma HexDigit_ok: "(HexDigit c \<noteq> None) = validationHexDigit c"
  by (auto simp: HexDigit_def validationHexDigit_def)

lemma hex_group_ok: "(hex_group g v \<noteq> None) = list_all validationHexDigit g"
proof (induction g arbitrary: v)
  case (Cons c g)
  then show ?case using HexDigit_ok [of c] by (cases "HexDigit c") auto
qed simp

lemma v6_loop_count:
  "map_option length (v6_loop ps tail gs) =
     (case group_count tail ps of
        None \<Rightarrow> None
      | Some n \<Rightarrow> if length gs + n \<le> 8 \<or> ps = [] then Some (length gs + n) else None)"
proof (induction ps arbitrary: gs)
  case (Cons g ps)
  show ?case
  proof (cases "ps = [] \<and> tail \<and> 46 \<in> set g")
    case True
    then show ?thesis by (cases "V4 g") auto
  next
    case False
    have loop: "v6_loop (g # ps) tail gs =
      (if \<not> group_ok g \<or> 8 \<le> length gs then None else v6_loop ps tail (gs @ [the (hex_group g 0)]))"
      using False hex_group_ok [of g 0] by (auto simp: group_ok_def split: option.split)
    have count: "group_count tail (g # ps) = (if group_ok g then map_option Suc (group_count tail ps) else None)"
      using False by auto
    show ?thesis
    proof (cases "group_ok g \<and> length gs < 8")
      case True
      then have "v6_loop (g # ps) tail gs = v6_loop ps tail (gs @ [the (hex_group g 0)])"
        using loop by simp
      then show ?thesis unfolding count using Cons.IH [of "gs @ [the (hex_group g 0)]"] True
        by (cases "group_count tail ps") auto
    next
      case bad: False
      then have "v6_loop (g # ps) tail gs = None" unfolding loop by auto
      then show ?thesis unfolding count using bad by (cases "group_count tail ps") auto
    qed
  qed
qed simp

lemma V6Part_count:
  "map_option length (V6Part t tail) =
     (case text_count tail t of None \<Rightarrow> None | Some n \<Rightarrow> if n \<le> 8 then Some n else None)"
  using v6_loop_count [of "split_on 58 t" tail "[]"] by (simp add: V6Part_def text_count_def split: option.split)

lemma group_count_Nil: "[] \<in> set ps \<Longrightarrow> group_count tail ps = None"
  by (induction ps) (auto simp: group_ok_def)

lemma gap_empty_part: "indexOfStr [58, 58] t \<noteq> None \<Longrightarrow> [] \<in> set (tl (split_on 58 t))"
proof (induction t)
  case (Cons d t)
  obtain p ps where ps: "split_on 58 t = p # ps" by (meson split_on_Cons)
  show ?case
  proof (cases "take 2 (d # t) = [58, 58]")
    case True
    then obtain u where "d = 58" "t = 58 # u" by (cases t) auto
    then show ?thesis by simp
  next
    case False
    then have "indexOfStr [58, 58] t \<noteq> None" using Cons.prems by (auto simp: numeral_2_eq_2 split: if_splits)
    then show ?thesis using Cons.IH ps by auto
  qed
qed simp

lemma second_gap: "indexOfStr [58, 58] (58 # t) \<noteq> None \<Longrightarrow> text_count tail t = None"
proof -
  assume a: "indexOfStr [58, 58] (58 # t) \<noteq> None"
  then have t: "t \<noteq> []" by auto
  have "[] \<in> set (split_on 58 t)"
    using gap_empty_part [OF a] by simp
  then show ?thesis using t group_count_Nil by (simp add: text_count_def)
qed

lemma indexOfStr_at:
  "indexOfStr [58, 58] s = Some gap \<Longrightarrow> s = take gap s @ 58 # 58 # drop (gap + 2) s"
proof (induction s arbitrary: gap)
  case (Cons c s)
  show ?case
  proof (cases "take 2 (c # s) = [58, 58]")
    case True
    then have "gap = 0" using Cons.prems by (simp add: numeral_2_eq_2)
    then show ?thesis using True by (cases s) auto
  next
    case False
    then obtain k where "indexOfStr [58, 58] s = Some k" "gap = Suc k"
      using Cons.prems by (auto simp: numeral_2_eq_2)
    then show ?thesis using Cons.IH by simp
  qed
qed simp

definition v6_shape :: "qstring \<Rightarrow> bool" where
  "v6_shape s =
     (case indexOfStr [58, 58] s of
        None \<Rightarrow> text_count True s = Some 8
      | Some gap \<Rightarrow>
          (case (text_count False (take gap s), text_count True (drop (gap + 2) s)) of
             (Some m, Some n) \<Rightarrow> m + n \<le> 7
           | _ \<Rightarrow> False))"

lemma V6_shape: "(V6 s \<noteq> None) = v6_shape s"
proof (cases "indexOfStr [58, 58] s")
  case None
  then show ?thesis using V6Part_count [of s True]
    by (cases "V6Part s True"; cases "text_count True s") (auto simp: V6_def v6_shape_def Let_def split: if_splits)
next
  case (Some gap)
  have "drop (gap + 1) s = 58 # drop (gap + 2) s"
  proof -
    have "take gap s @ drop gap s = take gap s @ 58 # 58 # drop (gap + 2) s"
      using indexOfStr_at [OF Some] by simp
    then have "drop gap s = 58 # 58 # drop (gap + 2) s" by (simp only: same_append_eq)
    then have "drop 1 (drop gap s) = 58 # drop (gap + 2) s" by simp
    then show ?thesis by simp
  qed
  then have second: "indexOfStr [58, 58] (drop (gap + 1) s) \<noteq> None \<Longrightarrow> text_count True (drop (gap + 2) s) = None"
    using second_gap [of "drop (gap + 2) s" True] by simp
  let ?h = "take gap s" and ?t = "drop (gap + 2) s"
  show ?thesis using Some second V6Part_count [of ?h False] V6Part_count [of ?t True]
    by (cases "V6Part ?h False"; cases "V6Part ?t True"; cases "text_count False ?h"; cases "text_count True ?t";
        cases "indexOfStr [58, 58] (drop (gap + 1) s)")
      (simp_all add: V6_def v6_shape_def Let_def split: if_splits)
qed

section \<open>IPv6: one pass of the loop\<close>

lemma hexValue_digit: "validationHexDigit c \<Longrightarrow> hexValue c < 16"
proof -
  assume "validationHexDigit c"
  then have "c \<in> {48..<58} \<union> {97..<103} \<union> {65..<71}" by (auto simp: validationHexDigit_def)
  moreover have "\<forall>c \<in> {48..<58} \<union> {97..<103} \<union> {65..<71}. hexValue c < 16"
    by (simp add: hexValue_def atLeastLessThan_nat_numeral atLeastLessThanSuc numeral_eq_Suc) code_simp
  ultimately show ?thesis by blast
qed

lemma ipv6_digits_run:
  assumes "list_all validationHexDigit g" "r = [] \<or> \<not> validationHexDigit (hd r)"
    "off \<le> 4" "acc < 16 ^ off"
  shows "ipv6_digits off acc (g @ r) = (if off + length g \<le> 4 then Some (off + length g, r) else None)"
  using assms(1,3,4)
proof (induction g arbitrary: off acc)
  case Nil
  then show ?case using assms(2) by (cases r) auto
next
  case (Cons c g)
  have v: "push_bit 4 acc + hexValue c < 16 ^ Suc off"
    using Cons.prems hexValue_digit [of c] by (simp add: push_bit_eq_mult)
  show ?case
  proof (cases "3 < off")
    case True
    then show ?thesis using Cons.prems by simp
  next
    case False
    then have "(16 :: nat) ^ Suc off \<le> 16 ^ 4" by (intro power_increasing) auto
    then have "push_bit 4 acc + hexValue c \<le> 0xFFFF" using v by simp
    then show ?thesis using False v Cons.IH [of "Suc off" "push_bit 4 acc + hexValue c"] Cons.prems
      by simp
  qed
qed

lemma ipv6_digits_split:
  assumes "p = g @ r" "list_all validationHexDigit g" "r = [] \<or> \<not> validationHexDigit (hd r)"
  shows "ipv6_digits 0 0 p = (if length g \<le> 4 then Some (length g, r) else None)"
  using ipv6_digits_run [OF assms(2,3), of 0 0] assms(1) by simp

lemma not_hex [simp]: "\<not> validationHexDigit 58" "\<not> validationHexDigit 46"
  by (simp_all add: validationHexDigit_def)

lemma V4_chars: "V4 p \<noteq> None \<Longrightarrow> c \<in> set p \<Longrightarrow> validationDigit c \<or> c = 46"
proof -
  assume v: "V4 p \<noteq> None" and c: "c \<in> set p"
  then have "list_all octet_ok (split_on 46 p)" using v4_loop_octets [of 0 "split_on 46 p" 0] by (simp add: V4_def)
  moreover have "c \<noteq> 46 \<Longrightarrow> \<exists>q \<in> set (split_on 46 p). c \<in> set q" using concat_split_on [of 46 p] c by auto
  ultimately show ?thesis by (fastforce simp: list_all_iff octet_ok_def validationAllDigits_def)
qed

lemma V4_first:
  assumes "V4 p \<noteq> None"
  obtains g r where "p = g @ 46 # r" "octet_ok g"
proof -
  have o: "list_all octet_ok (split_on 46 p)" "length (split_on 46 p) = 4"
    using assms v4_loop_octets [of 0 "split_on 46 p" 0] by (simp_all add: V4_def)
  have "46 \<in> set p" using o(2) by (cases "46 \<in> set p") auto
  then obtain g r where p: "p = g @ 46 # r" "46 \<notin> set g" by (meson split_list_first)
  then have "octet_ok g" using o(1) by simp
  with p that show ?thesis by blast
qed

lemma not_hex_run:
  "\<not> list_all validationHexDigit p \<Longrightarrow>
     \<exists>h c k. p = h @ c # k \<and> list_all validationHexDigit h \<and> \<not> validationHexDigit c"
  using split_list_first_prop [of p "\<lambda>c. \<not> validationHexDigit c"] by (auto simp: list_all_iff)

lemma ipv6_step_colon:
  assumes "58 \<notin> set g" "i < 16"
  shows "ipv6_loop i ell (g @ 58 # q) =
    (group_ok g \<and> q \<noteq> [] \<and>
     (if hd q = 58 then
        ell = None \<and> (if tl q = [] then ipv6_end (i + 2) (Some (i + 2)) []
                       else ipv6_loop (i + 2) (Some (i + 2)) (tl q))
      else ipv6_loop (i + 2) ell q))"
proof (cases "list_all validationHexDigit g")
  case True
  then have d: "ipv6_digits 0 0 (g @ 58 # q) = (if length g \<le> 4 then Some (length g, 58 # q) else None)"
    by (intro ipv6_digits_split) simp_all
  show ?thesis
  proof (cases "group_ok g")
    case True
    then have "length g \<le> 4" "g \<noteq> []" by (simp_all add: group_ok_def)
    then show ?thesis using True d assms(2)
      by (subst ipv6_loop.simps) (simp add: startsWith_def)
  next
    case False
    then have "4 < length g \<or> g = []" using \<open>list_all validationHexDigit g\<close> by (auto simp: group_ok_def)
    then show ?thesis using False d assms(2)
      by (subst ipv6_loop.simps) auto
  qed
next
  case False
  then obtain h c k where g: "g = h @ c # k" "list_all validationHexDigit h" "\<not> validationHexDigit c"
    using not_hex_run by blast
  then have c: "c \<noteq> 58" using assms(1) by auto
  have d: "ipv6_digits 0 0 (g @ 58 # q) = (if length h \<le> 4 then Some (length h, c # k @ 58 # q) else None)"
    using g by (intro ipv6_digits_split) simp_all
  have "V4 (g @ 58 # q) = None" using V4_chars [of "g @ 58 # q" 58] by (force simp: validationDigit_def)
  then have "\<not> validationIpv4Fields (g @ 58 # q)" by (simp add: validationIpv4Fields_V4)
  then have "\<not> ipv6_loop i ell (g @ 58 # q)" using d c assms(2)
    by (subst ipv6_loop.simps) (simp add: startsWith_def)
  then show ?thesis using False by (simp add: group_ok_def)
qed

lemma ipv6_step_last:
  assumes "58 \<notin> set p" "i < 16"
  shows "ipv6_loop i ell p =
    (if 46 \<in> set p then V4 p \<noteq> None \<and> (ell = None \<longrightarrow> i = 12) \<and> i + 4 \<le> 16 \<and> ipv6_end (i + 4) ell []
     else group_ok p \<and> ipv6_end (i + 2) ell [])"
proof (cases "list_all validationHexDigit p")
  case True
  then have "46 \<notin> set p" by (auto simp: list_all_iff validationHexDigit_def)
  moreover have "ipv6_digits 0 0 p = (if length p \<le> 4 then Some (length p, []) else None)"
    using True by (intro ipv6_digits_split) simp_all
  ultimately show ?thesis using True assms(2)
    by (subst ipv6_loop.simps) (simp add: group_ok_def startsWith_def)
next
  case False
  then obtain h c k where p: "p = h @ c # k" "list_all validationHexDigit h" "\<not> validationHexDigit c"
    using not_hex_run by blast
  have c: "c \<noteq> 58" using p assms(1) by auto
  have d: "ipv6_digits 0 0 p = (if length h \<le> 4 then Some (length h, c # k) else None)"
    using p by (intro ipv6_digits_split) simp_all
  show ?thesis
  proof (cases "V4 p = None")
    case True
    then have "\<not> validationIpv4Fields p" by (simp add: validationIpv4Fields_V4)
    then have "\<not> ipv6_loop i ell p" using d c assms(2) by (subst ipv6_loop.simps) (simp add: startsWith_def)
    then show ?thesis using True False by (auto simp: group_ok_def)
  next
    case v4: False
    then obtain o1 r where o: "p = o1 @ 46 # r" "octet_ok o1" by (rule V4_first)
    then have dg: "list_all validationHexDigit o1" "length o1 \<le> 3" "o1 \<noteq> []"
      using octet_short by (auto simp: octet_ok_def validationAllDigits_def list_all_iff validationDigit_def validationHexDigit_def)
    have "ipv6_digits 0 0 p = (if length o1 \<le> 4 then Some (length o1, 46 # r) else None)"
      using o dg by (intro ipv6_digits_split) simp_all
    then have "ipv6_digits 0 0 p = Some (length o1, 46 # r)" using dg by simp
    moreover have "46 \<in> set p" using o by simp
    moreover have "validationIpv4Fields p" using v4 by (simp add: validationIpv4Fields_V4)
    ultimately show ?thesis using v4 assms(2) dg
      by (subst ipv6_loop.simps) (simp add: startsWith_def, auto)
  qed
qed

section \<open>IPv6: the whole text\<close>

lemma ipv6_end_Nil [simp]: "ipv6_end i ell [] = (if i < 16 then ell \<noteq> None else ell = None)"
  by (simp add: ipv6_end_def)

lemma V4_no_colon: "58 \<in> set p \<Longrightarrow> V4 p = None"
  using V4_chars [of p 58] by (force simp: validationDigit_def)

lemma group_count_colon:
  assumes "58 \<notin> set g"
  shows "group_count tail (split_on 58 (g @ 58 # q)) =
    (if group_ok g then map_option Suc (group_count tail (split_on 58 q)) else None)"
  using assms by simp

lemma group_count_single:
  assumes "58 \<notin> set p"
  shows "group_count True (split_on 58 p) =
    (if 46 \<in> set p then (if V4 p \<noteq> None then Some 2 else None) else if group_ok p then Some 1 else None)"
  using assms by simp

lemma group_count_pos: "group_count tail (split_on 58 p) = Some n \<Longrightarrow> 1 \<le> n"
  by (cases "split_on 58 p") (auto split: if_splits)

lemma first_colon:
  assumes "58 \<in> set p"
  obtains g q where "p = g @ 58 # q" "58 \<notin> set g"
  using assms by (meson split_list_first)

lemma ipv6_loop_after:
  "p \<noteq> [] \<Longrightarrow> ipv6_loop i (Some e) p = (\<exists>n. group_count True (split_on 58 p) = Some n \<and> i + 2 * n < 16)"
proof (induction p arbitrary: i rule: length_induct)
  case (1 p)
  show ?case
  proof (cases "i < 16")
    case False
    then have "\<not> ipv6_loop i (Some e) p" using "1.prems" by (subst ipv6_loop.simps) (simp add: ipv6_end_def)
    with False show ?thesis by auto
  next
    case True
    show ?thesis
    proof (cases "58 \<in> set p")
      case False
      then show ?thesis using ipv6_step_last [OF False True, of "Some e"] group_count_single [OF False]
        by (auto split: if_splits)
    next
      case c: True
      obtain g q where p: "p = g @ 58 # q" "58 \<notin> set g" by (rule first_colon [OF c])
      note step = ipv6_step_colon [OF p(2) True, of "Some e" q]
      show ?thesis
      proof (cases "q = [] \<or> hd q = 58")
        case True
        then have "[] \<in> set (split_on 58 q)" by (cases q) auto
        then have "group_count True (split_on 58 q) = None" by (rule group_count_Nil)
        then show ?thesis using True step p group_count_colon [OF p(2), of True q] by auto
      next
        case False
        then have "ipv6_loop (i + 2) (Some e) q = (\<exists>n. group_count True (split_on 58 q) = Some n \<and> i + 2 + 2 * n < 16)"
          using "1.IH" p by auto
        then show ?thesis using False step p group_count_colon [OF p(2), of True q]
          by (cases "group_count True (split_on 58 q)") auto
      qed
    qed
  qed
qed

definition v6_counts :: "nat \<Rightarrow> qstring \<Rightarrow> bool" where
  "v6_counts i p =
     (case indexOfStr [58, 58] p of
        None \<Rightarrow> (\<exists>n. group_count True (split_on 58 p) = Some n \<and> i + 2 * n = 16)
      | Some gap \<Rightarrow>
          (\<exists>m n. group_count False (split_on 58 (take gap p)) = Some m \<and>
             text_count True (drop (gap + 2) p) = Some n \<and> i + 2 * (m + n) < 16))"

lemma indexOfStr_colon:
  "58 \<notin> set g \<Longrightarrow> indexOfStr [58, 58 :: nat] (g @ 58 # q) =
     (if q \<noteq> [] \<and> hd q = 58 then Some (length g) else map_option (\<lambda>k. length g + Suc k) (indexOfStr [58, 58] q))"
proof (cases "q \<noteq> [] \<and> hd q = 58")
  case True
  then obtain r where "q = 58 # r" by (cases q) auto
  then show "58 \<notin> set g \<Longrightarrow> ?thesis" using indexOfStr_skip [of g "58 # q"] by simp
next
  case False
  then have "indexOfStr [58, 58] (58 # q) = map_option Suc (indexOfStr [58, 58] q)" by (intro indexOfStr_single) auto
  then show "58 \<notin> set g \<Longrightarrow> ?thesis" using indexOfStr_skip [of g "58 # q"] False
    by (cases "indexOfStr [58, 58] q") auto
qed

lemma v6_counts_step:
  assumes "58 \<notin> set g" "q \<noteq> []" "hd q \<noteq> 58"
  shows "v6_counts i (g @ 58 # q) = (group_ok g \<and> v6_counts (i + 2) q)"
proof (cases "indexOfStr [58, 58] q")
  case None
  then have "indexOfStr [58, 58] (g @ 58 # q) = None" using assms indexOfStr_colon [OF assms(1), of q] by simp
  then show ?thesis using None group_count_colon [OF assms(1), of True q]
    by (cases "group_count True (split_on 58 q)") (auto simp: v6_counts_def)
next
  case (Some k)
  then have at: "indexOfStr [58, 58] (g @ 58 # q) = Some (length g + Suc k)"
    using assms indexOfStr_colon [OF assms(1), of q] by simp
  have "take (length g + Suc k) (g @ 58 # q) = g @ 58 # take k q"
    "drop (length g + Suc k + 2) (g @ 58 # q) = drop (k + 2) q" by (simp_all add: numeral_3_eq_3)
  then show ?thesis using Some at group_count_colon [OF assms(1), of False "take k q"]
    by (cases "group_count False (split_on 58 (take k q))") (auto simp: v6_counts_def)
qed

lemma v6_counts_gap:
  assumes "58 \<notin> set g"
  shows "v6_counts i (g @ 58 # 58 # r) =
    (group_ok g \<and> (\<exists>n. text_count True r = Some n \<and> i + 2 + 2 * n < 16))"
proof -
  have "indexOfStr [58, 58] (g @ 58 # 58 # r) = Some (length g)"
    using indexOfStr_colon [OF assms, of "58 # r"] by simp
  moreover have "group_count False (split_on 58 g) = (if group_ok g then Some 1 else None)"
    using assms by simp
  ultimately show ?thesis by (auto simp: v6_counts_def)
qed

lemma no_gap: "58 \<notin> set p \<Longrightarrow> indexOfStr [58, 58 :: nat] p = None"
  using indexOfStr_skip [of p "[]"] by simp

lemma ipv6_loop_before:
  "even i \<Longrightarrow> i < 16 \<or> p \<noteq> [] \<Longrightarrow> ipv6_loop i None p = v6_counts i p"
proof (induction p arbitrary: i rule: length_induct)
  case (1 p)
  show ?case
  proof (cases "i < 16")
    case False
    then have "\<not> ipv6_loop i None p" using "1.prems" by (subst ipv6_loop.simps) (simp add: ipv6_end_def)
    moreover have "\<not> v6_counts i p"
      using False group_count_pos [of True p] by (auto simp: v6_counts_def split: option.splits)
    ultimately show ?thesis by simp
  next
    case True
    then have i14: "i \<le> 14" using "1.prems"(1) by presburger
    show ?thesis
    proof (cases "58 \<in> set p")
      case False
      then show ?thesis using ipv6_step_last [OF False True, of None] group_count_single [OF False] no_gap [OF False] i14
        by (auto simp: v6_counts_def split: if_splits)
    next
      case c: True
      obtain g q where p: "p = g @ 58 # q" "58 \<notin> set g" by (rule first_colon [OF c])
      note step = ipv6_step_colon [OF p(2) True, of None q]
      show ?thesis
      proof (cases q)
        case Nil
        then have "v6_counts i p = False"
          using p indexOfStr_colon [OF p(2), of q] group_count_colon [OF p(2), of True "[]"]
          by (auto simp: v6_counts_def group_ok_def)
        then show ?thesis using step p Nil by simp
      next
        case q: (Cons d r)
        show ?thesis
        proof (cases "d = 58")
          case True
          show ?thesis
          proof (cases "r = []")
            case True
            then show ?thesis using step p q \<open>d = 58\<close> v6_counts_gap [OF p(2), of i r] by (auto simp: text_count_def)
          next
            case False
            then show ?thesis
              using step p q \<open>d = 58\<close> v6_counts_gap [OF p(2), of i r] ipv6_loop_after [of r "i + 2" "i + 2"]
              by (auto simp: text_count_def)
          qed
        next
          case False
          then have "ipv6_loop (i + 2) None q = v6_counts (i + 2) q"
            using "1.IH" "1.prems"(1) p q by auto
          then show ?thesis using step p q False v6_counts_step [OF p(2), of q i] by simp
        qed
      qed
    qed
  qed
qed

lemma v6_counts_shape:
  assumes "\<not> (startsWith 58 s \<and> startsWith 58 (drop 1 s))"
  shows "v6_counts 0 s = v6_shape s"
proof (cases "indexOfStr [58, 58] s")
  case None
  then show ?thesis by (auto simp: v6_counts_def v6_shape_def text_count_def group_ok_def)
next
  case (Some gap)
  have "gap \<noteq> 0"
  proof
    assume "gap = 0"
    then have "s = 58 # 58 # drop 2 s" using indexOfStr_at [OF Some] by (simp add: numeral_2_eq_2)
    then show False using assms by (metis startsWith_def drop_Suc_Cons drop0 One_nat_def list.distinct(1) list.sel(1))
  qed
  moreover have "s \<noteq> []" using Some by auto
  ultimately have "take gap s \<noteq> []" by simp
  then show ?thesis using Some
    by (auto simp: v6_counts_def v6_shape_def text_count_def split: option.splits)
qed

lemma ipv6_text_V6: "ipv6_text s = (V6 s \<noteq> None)"
proof (cases "startsWith 58 s \<and> startsWith 58 (drop 1 s)")
  case True
  then have s: "s = 58 # 58 # drop 2 s"
    by (cases s; cases "tl s") (auto simp: startsWith_def)
  then have "indexOfStr [58, 58] s = Some 0" by (metis append_Nil indexOfStr_colon list.distinct(1) list.sel(1) list.set(1) list.size(3) empty_iff)
  then have "v6_shape s = (\<exists>n. text_count True (drop 2 s) = Some n \<and> n \<le> 7)"
    by (simp add: v6_shape_def text_count_def numeral_2_eq_2 split: option.split)
  moreover have "ipv6_text s = (\<exists>n. text_count True (drop 2 s) = Some n \<and> n \<le> 7)"
    using True ipv6_loop_after [of "drop 2 s" 0 0] by (auto simp: ipv6_text_def text_count_def)
  ultimately show ?thesis using V6_shape [of s] by simp
next
  case False
  then show ?thesis
    using ipv6_loop_before [of 0 s] v6_counts_shape [OF False] V6_shape [of s] False unfolding ipv6_text_def if_not_P [OF False] by simp
qed

definition kind_of :: "IpListParseAddr option \<Rightarrow> ValidationIpKind" where
  "kind_of a = (case a of None \<Rightarrow> IpInvalid | Some x \<Rightarrow> if v6 x then IpV6 else IpV4)"

lemma parse_ip_scan_kind:
  assumes "37 \<notin> set r"
  shows "ip_kind (parse_ip_scan s r) =
    (case filter (\<lambda>c. c = 46 \<or> c = 58) r of
       [] \<Rightarrow> IpInvalid
     | c # _ \<Rightarrow> if c = 46 then (if V4 s \<noteq> None then IpV4 else IpInvalid)
                else (if fst (validationIpv6 s) then IpV6 else IpInvalid))"
  using assms by (induction r) (auto simp: validationIpv4Fields_V4 split: prod.split)

lemma filter_dot:
  assumes "46 \<in> set g" "58 \<notin> set g"
  shows "\<exists>cs. filter (\<lambda>c. c = 46 \<or> c = 58) g = (46 :: nat) # cs"
proof -
  have "filter (\<lambda>c. c = 46 \<or> c = 58) g \<noteq> []" "\<forall>c \<in> set (filter (\<lambda>c. c = 46 \<or> c = 58) g). c = 46"
    using assms by (auto simp: filter_empty_conv)
  then show ?thesis by (cases "filter (\<lambda>c. c = 46 \<or> c = 58) g") auto
qed

text \<open>
  C21. The address reader of the forms and the one of the scanner agree: without a zone, a text is
  an IPv4 or an IPv6 address for one exactly when it is for the other.
\<close>

theorem validationParseIp_Address:
  assumes "37 \<notin> set s"
  shows "ip_kind (validationParseIp s) = kind_of (Address s)"
proof -
  have z: "validationIpv6 s = (V6 s \<noteq> None, False)"
    using assms by (simp add: validationIpv6_def ipv6_text_V6 indexOf_None [THEN iffD2])
  show ?thesis
  proof (cases "58 \<in> set s")
    case False
    show ?thesis
    proof (cases "46 \<in> set s")
      case True
      then obtain cs where "filter (\<lambda>c. c = 46 \<or> c = 58) s = 46 # cs"
        using False by (metis filter_dot)
      then show ?thesis using False assms
        by (auto simp: validationParseIp_def parse_ip_scan_kind Address_def kind_of_def split: option.split)
    next
      case nodot: False
      then have "filter (\<lambda>c. c = 46 \<or> c = 58) s = []" using False by (auto simp: filter_empty_conv)
      moreover have "V4 s = None" using V4_first [of s] nodot by fastforce
      ultimately show ?thesis using False assms
        by (simp add: validationParseIp_def parse_ip_scan_kind Address_def kind_of_def)
    qed
  next
    case True
    obtain g q where p: "s = g @ 58 # q" "58 \<notin> set g" by (rule first_colon [OF True])
    show ?thesis
    proof (cases "46 \<in> set g")
      case True
      then obtain cs where "filter (\<lambda>c. c = 46 \<or> c = 58) g = 46 # cs" using filter_dot p(2) by blast
      moreover have "\<not> group_ok g" using True not_hex(2) by (metis group_ok_def list_all_iff)
      then have "\<not> ipv6_loop 0 None s" using p ipv6_step_colon [OF p(2), of 0 None q] by simp
      moreover have "\<not> startsWith 58 s" using p True by (cases g) (auto simp: startsWith_def)
      moreover have "V6 s = None" using calculation ipv6_text_V6 [of s] by (cases "V6 s") (simp_all add: ipv6_text_def)
      ultimately show ?thesis using assms \<open>58 \<in> set s\<close> p V4_no_colon [of s]
        by (simp add: validationParseIp_def parse_ip_scan_kind Address_def kind_of_def ipv6_text_def Let_def
            indexOf_None [THEN iffD2])
    next
      case False
      then have "filter (\<lambda>c. c = 46 \<or> c = 58) g = []" using p(2) by (auto simp: filter_empty_conv)
      then have "filter (\<lambda>c. c = 46 \<or> c = 58) s = 58 # filter (\<lambda>c. c = 46 \<or> c = 58) q" using p by simp
      moreover have "indexOf 37 s = None" using assms by simp
      ultimately show ?thesis using assms True z
        by (cases "V6 s") (auto simp: validationParseIp_def parse_ip_scan_kind Address_def kind_of_def Let_def simp del: indexOf_None)
    qed
  qed
qed


section \<open>What the scanner prints passes the checks\<close>

lemma lastIndexOf_None: "x \<notin> set s \<Longrightarrow> lastIndexOf x s = None"
  by (simp add: lastIndexOf_def)

lemma lastIndexOf_at: "x \<notin> set t \<Longrightarrow> lastIndexOf x (s @ x # t) = Some (length s)"
  using indexOf_append [of x "rev t" "rev s"] by (simp add: lastIndexOf_def)

lemma parse_ip_scan_zoned: "37 \<notin> set s \<Longrightarrow> \<not> zoned (parse_ip_scan s r)"
  by (induction r) (auto simp: validationIpv6_def indexOf_None [THEN iffD2] split: prod.split)

lemma validationCheckIp_Format:
  "addr_ok addr \<Longrightarrow> validationCheckIp (validationParseIp (Format addr)) AnyFamily = None"
  using validationParseIp_Address [of "Format addr"] parse_ip_scan_zoned [of "Format addr" "Format addr"]
  by (simp add: Address_Format kind_of_def validationCheckIp_def) (simp add: validationParseIp_def)

lemma Format_kind: "addr_ok addr \<Longrightarrow> ip_kind (validationParseIp (Format addr)) = (if v6 addr then IpV6 else IpV4)"
  using validationParseIp_Address [of "Format addr"] by (simp add: Address_Format kind_of_def)

lemma CidrCheck_Cidr:
  assumes "net_ok addr plen"
  shows "CidrCheck AnyFamily True e (Cidr addr plen) = None"
proof -
  have ok: "addr_ok addr" and le: "plen \<le> Bits addr" using assms by (simp_all add: net_ok_def)
  have t: "trimmed (Cidr addr plen) = Cidr addr plen" by (rule trimmed_no_space) (use Cidr_no_space in blast)
  show ?thesis
  proof (cases "Bits addr \<le> plen")
    case True
    then have "Cidr addr plen = Format addr" by (simp add: Cidr_def Let_def)
    then show ?thesis using t lastIndexOf_None [of 47 "Format addr"] validationCheckIp_Format [OF ok]
      by (simp add: CidrCheck_def Let_def)
  next
    case False
    then have c: "Cidr addr plen = Format addr @ 47 # numberOf plen" by (simp add: Cidr_def Let_def)
    have digits: "c \<in> set (numberOf plen) \<Longrightarrow> 48 \<le> c \<and> c \<le> 57" for c by (rule numberOf_char)
    then have n: "47 \<notin> set (numberOf plen)" "46 \<notin> set (numberOf plen)" by fastforce+
    have "plen < 10 ^ Suc 2" using False by (simp add: Bits_def split: if_splits)
    then have "length (numberOf plen) \<le> Suc 2" by (intro length_numberBase) simp_all
    moreover have "1 < length (numberOf plen) \<Longrightarrow> hd (numberOf plen) \<noteq> 48" by (rule leading_zero)
    ultimately have "cidr_bits (validationParseIp (Format addr)) (numberOf plen) = None"
      using n le Format_kind [OF ok] by (cases "v6 addr") (simp_all add: cidr_bits_def digits_from_numberOf Bits_def)
    then show ?thesis using t c lastIndexOf_at [OF n(1), of "Format addr"] validationCheckIp_Format [OF ok]
      by (simp add: CidrCheck_def Let_def)
  qed
qed

text \<open>
  Every network the scanner writes in normal form passes the check of networks in the forms.
\<close>

theorem CidrCheck_NormalizeCidr:
  assumes "NormalizeCidr text \<noteq> []"
  shows "CidrCheck AnyFamily True e (NormalizeCidr text) = None"
proof (cases "Network text")
  case None
  with assms show ?thesis by (simp add: NormalizeCidr_def)
next
  case (Some n)
  obtain addr plen where n: "n = (addr, plen)" by (cases n)
  then have "net_ok addr plen" using Some Network_ok by blast
  then show ?thesis using Some n CidrCheck_Cidr by (simp add: NormalizeCidr_def)
qed

theorem validationParseIp_Address_witness:
  "ip_kind (validationParseIp (map of_char ''fd00::1:10.0.0.1'')) = kind_of (Address (map of_char ''fd00::1:10.0.0.1''))"
  by (rule validationParseIp_Address) simp

theorem CidrCheck_NormalizeCidr_witness:
  "CidrCheck AnyFamily True EmptyRequired
     (NormalizeCidr (Cidr \<lparr>v6 = False, hi = 0, lo = 0x0a000000\<rparr> 8)) = None"
proof (rule CidrCheck_NormalizeCidr)
  have "net_ok \<lparr>v6 = False, hi = 0, lo = 0x0a000000\<rparr> 8"
    by (simp add: net_ok_def addr_ok_def Bits_def Mask_def IsMapped_def)
  then show "NormalizeCidr (Cidr \<lparr>v6 = False, hi = 0, lo = 0x0a000000\<rparr> 8) \<noteq> []"
    by (simp add: NormalizeCidr_def Network_Cidr)
qed

end
