(* ===== verification/FieldSecrets.thy ===== *)
theory FieldSecrets
  imports FieldNumbers
begin

text \<open>
  Keys, base64 text and identifiers of \<^verbatim>\<open>src/global/Validation.cpp\<close>. The \<^verbatim>\<open>QByteArray\<close> codecs are parameters:
  \<open>latin1\<close> is \<^verbatim>\<open>toLatin1\<close>, \<open>utf8\<close> is \<^verbatim>\<open>toUtf8\<close> and \<open>decode url\<close> is \<^verbatim>\<open>fromBase64Encoding\<close> with the alphabet the
  flag names, \<open>None\<close> where it fails.
\<close>

section \<open>Base64\<close>

definition validationBase64Char :: "qchar \<Rightarrow> bool \<Rightarrow> bool" where
  "validationBase64Char u url \<longleftrightarrow>
     validationAsciiAlnum u \<or> (if url then u = 45 \<or> u = 95 else u = 43 \<or> u = 47)"

text \<open>The loop that appends \<^verbatim>\<open>=\<close> up to a multiple of four.\<close>

definition pad4 :: "nat list \<Rightarrow> nat list" where
  "pad4 bs = bs @ replicate ((4 - length bs mod 4) mod 4) 61"

definition validationDecodeBase64 ::
  "(qstring \<Rightarrow> nat list) \<Rightarrow> (bool \<Rightarrow> nat list \<Rightarrow> nat list option) \<Rightarrow> qstring \<Rightarrow> bool \<Rightarrow> nat list option" where
  "validationDecodeBase64 latin1 decode s url = decode url (pad4 (latin1 s))"

definition key_data_chars :: "nat \<Rightarrow> nat" where
  "key_data_chars n = n div 3 * 4 + (if n mod 3 \<noteq> 0 then n mod 3 + 1 else 0)"

definition key_total_chars :: "nat \<Rightarrow> bool \<Rightarrow> nat" where
  "key_total_chars n padded = key_data_chars n + (if padded \<and> n mod 3 \<noteq> 0 then 3 - n mod 3 else 0)"

definition Base64Key ::
  "(qstring \<Rightarrow> nat list) \<Rightarrow> (bool \<Rightarrow> nat list \<Rightarrow> nat list option) \<Rightarrow> nat \<Rightarrow> bool \<Rightarrow> bool \<Rightarrow> Empty \<Rightarrow> rule" where
  "Base64Key latin1 decode n urlAlphabet padded e s =
     (let t = trimmed s; total = key_total_chars n padded;
          ok = (length t = total \<and>
                list_all (\<lambda>i. if i < key_data_chars n then validationBase64Char (t ! i) urlAlphabet else t ! i = 61) [0..<total] \<and>
                (case validationDecodeBase64 latin1 decode t urlAlphabet of
                   None \<Rightarrow> False | Some d \<Rightarrow> length d = n))
      in if t = [] then validationEmpty e
         else if ok then None else Some (KeyMessage urlAlphabet padded (int n) (int total)))"

definition Base64 ::
  "(qstring \<Rightarrow> nat list) \<Rightarrow> (bool \<Rightarrow> nat list \<Rightarrow> nat list option) \<Rightarrow> Empty \<Rightarrow> rule" where
  "Base64 latin1 decode e s =
     (let t = trimmed s;
          equals = length (takeWhile (\<lambda>c. c = 61) (rev t)); data = length t - equals;
          ok = (0 < data \<and> equals \<le> 2 \<and> (if equals \<noteq> 0 then length t mod 4 = 0 else length t mod 4 \<noteq> 1) \<and>
                list_all (\<lambda>c. validationBase64Char c False) (take data t) \<and>
                (case validationDecodeBase64 latin1 decode t False of None \<Rightarrow> False | Some d \<Rightarrow> d \<noteq> []))
      in if t = [] then validationEmpty e else if ok then None else Some NotBase64)"

section \<open>Identifiers\<close>

definition urn_uuid :: "nat list" where
  "urn_uuid = map of_char ''urn:uuid:''"

text \<open>The part of the text the loop checks, \<open>None\<close> where the code returns before it.\<close>

definition gofrs_body :: "nat list \<Rightarrow> nat list option" where
  "gofrs_body b =
     (let n = length b
      in if n = 32 \<or> n = 36 then Some b
         else if n = 34 \<or> n = 38 then
           (if hd b \<noteq> 123 \<or> last b \<noteq> 125 then None else Some (take (n - 2) (drop 1 b)))
         else if n = 41 \<or> n = 45 then (if take 9 b \<noteq> urn_uuid then None else Some (drop 9 b))
         else None)"

definition validationGofrsUuid :: "nat list \<Rightarrow> bool" where
  "validationGofrsUuid b =
     (case gofrs_body b of
        None \<Rightarrow> False
      | Some b \<Rightarrow>
          list_all (\<lambda>i.
            if length b = 36 \<and> (i = 8 \<or> i = 13 \<or> i = 18 \<or> i = 23) then b ! i = 45
            else validationHexDigit (b ! i)) [0..<length b])"

fun xray_groups :: "nat list \<Rightarrow> nat list \<Rightarrow> bool" where
  "xray_groups [] s = True"
| "xray_groups (g # gs) s =
     (let s = (if startsWith 45 s then drop 1 s else s)
      in if length s < g then False
         else if \<not> list_all validationHexDigit (take g s) then False
         else xray_groups gs (drop g s))"

definition validationXrayUuid :: "nat list \<Rightarrow> bool" where
  "validationXrayUuid s =
     (let l = length s
      in if l < 32 \<or> 36 < l then l \<noteq> 0 \<and> l \<le> 30 else xray_groups [8, 4, 4, 4, 12] s)"

definition Uuid :: "(qstring \<Rightarrow> nat list) \<Rightarrow> Empty \<Rightarrow> rule" where
  "Uuid utf8 e s =
     (let t = trimmed s
      in if t = [] then validationEmpty e else if validationGofrsUuid (utf8 t) then None else Some NotUuid)"

definition XrayId :: "(qstring \<Rightarrow> nat list) \<Rightarrow> Empty \<Rightarrow> rule" where
  "XrayId utf8 e s =
     (let t = trimmed s
      in if t = [] then validationEmpty e else if validationXrayUuid (utf8 t) then None else Some NotXrayId)"

section \<open>The documented forms of a UUID\<close>

definition canonical :: "nat list \<Rightarrow> nat list" where
  "canonical hs =
     take 8 hs @ [45] @ take 4 (drop 8 hs) @ [45] @ take 4 (drop 12 hs) @ [45] @ take 4 (drop 16 hs) @ [45] @ drop 20 hs"

definition uuid_forms :: "nat list \<Rightarrow> nat list list" where
  "uuid_forms hs =
     (let c = canonical hs
      in [hs, c, [123] @ hs @ [125], [123] @ c @ [125], urn_uuid @ hs, urn_uuid @ c])"

lemma length_canonical [simp]: "length hs = 32 \<Longrightarrow> length (canonical hs) = 36"
  by (simp add: canonical_def)

lemma list_of_length: "length xs = Suc n \<Longrightarrow> \<exists>x ys. xs = x # ys \<and> length ys = n"
  by (cases xs) auto

end
