(* ===== verification/FieldUuid.thy ===== *)
theory FieldUuid
  imports FieldSecrets
begin

text \<open>
  The UUID reader takes exactly the six documented forms of 32 hexadecimal digits.
\<close>

definition body_ok :: "nat list \<Rightarrow> bool" where
  "body_ok b \<longleftrightarrow> list_all (\<lambda>i. if length b = 36 \<and> (i = 8 \<or> i = 13 \<or> i = 18 \<or> i = 23) then b ! i = 45
            else validationHexDigit (b ! i)) [0..<length b]"

lemma body_ok_plain: "length b \<noteq> 36 \<Longrightarrow> body_ok b = list_all validationHexDigit b"
  by (auto simp: body_ok_def list_all_iff in_set_conv_nth Ball_def)

lemma upt36: "[0..<36] = [0,1,2,3,4,5,6,7,8,9,10,11,12,13,14,15,16,17,18,19,20,21,22,23,24,25,26,27,28,29,30,31,32,33,34,35]"
  by code_simp

definition without_dashes :: "nat list \<Rightarrow> nat list" where
  "without_dashes b = take 8 b @ take 4 (drop 9 b) @ take 4 (drop 14 b) @ take 4 (drop 19 b) @ drop 24 b"

lemma take_index: "i < length b \<Longrightarrow> take (Suc k) (drop i b) = b ! i # take k (drop (Suc i) b)"
  by (simp add: Cons_nth_drop_Suc [symmetric])

lemma dashes_split:
  assumes "length b = 36" "b ! 8 = 45" "b ! 13 = 45" "b ! 18 = 45" "b ! 23 = 45"
  shows "canonical (without_dashes b) = b"
proof -
  have d: "drop 8 b = 45 # drop 9 b" "drop 13 b = 45 # drop 14 b" "drop 18 b = 45 # drop 19 b" "drop 23 b = 45 # drop 24 b"
    using assms Cons_nth_drop_Suc [of 8 b] Cons_nth_drop_Suc [of 13 b] Cons_nth_drop_Suc [of 18 b] Cons_nth_drop_Suc [of 23 b]
    by simp_all
  have t: "drop 9 b = take 4 (drop 9 b) @ drop 13 b" "drop 14 b = take 4 (drop 14 b) @ drop 18 b"
    "drop 19 b = take 4 (drop 19 b) @ drop 23 b"
    using append_take_drop_id [of 4 "drop 9 b"] append_take_drop_id [of 4 "drop 14 b"] append_take_drop_id [of 4 "drop 19 b"]
    by simp_all
  have "canonical (without_dashes b) =
    take 8 b @ 45 # take 4 (drop 9 b) @ 45 # take 4 (drop 14 b) @ 45 # take 4 (drop 19 b) @ 45 # drop 24 b"
    using assms(1) by (simp add: canonical_def without_dashes_def)
  also have "\<dots> = take 8 b @ drop 8 b" using d t by metis
  finally show ?thesis by simp
qed

lemma body_ok_canonical:
  assumes "length b = 36"
  shows "body_ok b = (b ! 8 = 45 \<and> b ! 13 = 45 \<and> b ! 18 = 45 \<and> b ! 23 = 45 \<and> list_all validationHexDigit (without_dashes b))"
proof -
  have e: "without_dashes b = map ((!) b) [0,1,2,3,4,5,6,7,9,10,11,12,14,15,16,17,19,20,21,22,24,25,26,27,28,29,30,31,32,33,34,35]"
    (is "_ = map _ ?is")
  proof (rule nth_equalityI)
    show "length (without_dashes b) = length (map ((!) b) ?is)" using assms by (simp add: without_dashes_def)
    fix i assume "i < length (without_dashes b)"
    then have "i \<in> set [0..<32]" using assms by (simp add: without_dashes_def)
    moreover have "[0..<32] = [0,1,2,3,4,5,6,7,8,9,10,11,12,13,14,15,16,17,18,19,20,21,22,23,24,25,26,27,28,29,30,31::nat]" by code_simp
    ultimately show "without_dashes b ! i = map ((!) b) ?is ! i"
      using assms by (auto simp: without_dashes_def nth_append)
  qed
  show ?thesis unfolding body_ok_def e using assms by (simp add: upt36) blast
qed


lemma canonical_parts:
  assumes "length hs = 32"
  shows "without_dashes (canonical hs) = hs" "canonical hs ! 8 = 45" "canonical hs ! 13 = 45"
    "canonical hs ! 18 = 45" "canonical hs ! 23 = 45"
proof -
  have "hs = take 8 hs @ drop 8 hs" "drop 8 hs = take 4 (drop 8 hs) @ drop 12 hs"
    "drop 12 hs = take 4 (drop 12 hs) @ drop 16 hs" "drop 16 hs = take 4 (drop 16 hs) @ drop 20 hs"
    using append_take_drop_id [of 8 hs] append_take_drop_id [of 4 "drop 8 hs"] append_take_drop_id [of 4 "drop 12 hs"]
      append_take_drop_id [of 4 "drop 16 hs"] by simp_all
  then have "hs = take 8 hs @ take 4 (drop 8 hs) @ take 4 (drop 12 hs) @ take 4 (drop 16 hs) @ drop 20 hs" by metis
  then show "without_dashes (canonical hs) = hs" using assms by (simp add: canonical_def without_dashes_def)
qed (use assms in \<open>simp_all add: canonical_def nth_append\<close>)

lemma body_ok_forms:
  "(length c = 32 \<or> length c = 36) \<and> body_ok c \<longleftrightarrow>
     (\<exists>hs. length hs = 32 \<and> list_all validationHexDigit hs \<and> (c = hs \<or> c = canonical hs))"
proof
  assume a: "(length c = 32 \<or> length c = 36) \<and> body_ok c"
  show "\<exists>hs. length hs = 32 \<and> list_all validationHexDigit hs \<and> (c = hs \<or> c = canonical hs)"
  proof (cases "length c = 36")
    case True
    then have "length (without_dashes c) = 32" by (simp add: without_dashes_def)
    moreover have "c = canonical (without_dashes c)" "list_all validationHexDigit (without_dashes c)"
      using a body_ok_canonical [OF True] dashes_split [OF True] by auto
    ultimately show ?thesis by blast
  next
    case False
    then show ?thesis using a body_ok_plain [of c] by auto
  qed
next
  assume "\<exists>hs. length hs = 32 \<and> list_all validationHexDigit hs \<and> (c = hs \<or> c = canonical hs)"
  then obtain hs where hs: "length hs = 32" "list_all validationHexDigit hs" "c = hs \<or> c = canonical hs" by blast
  then show "(length c = 32 \<or> length c = 36) \<and> body_ok c"
    using body_ok_plain [of hs] body_ok_canonical [of "canonical hs"] canonical_parts [of hs] by auto
qed

lemma validationGofrsUuid_body:
  "validationGofrsUuid b = (\<exists>c. gofrs_body b = Some c \<and> (length c = 32 \<or> length c = 36) \<and> body_ok c)"
proof -
  have "gofrs_body b = Some c \<Longrightarrow> length c = 32 \<or> length c = 36" for c
    by (auto simp: gofrs_body_def Let_def split: if_splits)
  then show ?thesis by (auto simp: validationGofrsUuid_def body_ok_def split: option.split)
qed

lemma urn_length [simp]: "length urn_uuid = 9" by (simp add: urn_uuid_def)

lemma gofrs_body_forms:
  assumes "length c = 32 \<or> length c = 36"
  shows "gofrs_body b = Some c \<longleftrightarrow> b = c \<or> b = [123] @ c @ [125] \<or> b = urn_uuid @ c"
proof
  assume "b = c \<or> b = [123] @ c @ [125] \<or> b = urn_uuid @ c"
  then show "gofrs_body b = Some c" using assms by (auto simp: gofrs_body_def)
next
  assume a: "gofrs_body b = Some c"
  consider "length b = 32 \<or> length b = 36" | "length b = 34 \<or> length b = 38" | "length b = 41 \<or> length b = 45"
    using a by (auto simp: gofrs_body_def Let_def split: if_splits)
  then show "b = c \<or> b = [123] @ c @ [125] \<or> b = urn_uuid @ c"
  proof cases
    case 2
    then obtain x m y where b: "b = x # m @ [y]" "length m = 32 \<or> length m = 36"
      by (cases b; cases "tl b" rule: rev_cases) auto
    then show ?thesis using a 2 by (auto simp: gofrs_body_def split: if_splits)
  next
    case 3
    then have "take 9 b = urn_uuid" "drop 9 b = c" using a by (auto simp: gofrs_body_def split: if_splits)
    then have "b = urn_uuid @ c" using append_take_drop_id [of 9 b] by metis
    then show ?thesis by blast
  qed (use a in \<open>auto simp: gofrs_body_def\<close>)
qed

text \<open>
  The UUID reader takes exactly the documented forms: 32 hexadecimal digits, plain or with the
  four dashes, bare, in braces or after urn:uuid:.
\<close>

theorem validationGofrsUuid_forms:
  "validationGofrsUuid b \<longleftrightarrow>
     (\<exists>hs. length hs = 32 \<and> list_all validationHexDigit hs \<and> b \<in> set (uuid_forms hs))"
proof -
  have "validationGofrsUuid b = (\<exists>c. gofrs_body b = Some c \<and>
      (\<exists>hs. length hs = 32 \<and> list_all validationHexDigit hs \<and> (c = hs \<or> c = canonical hs)))"
    unfolding validationGofrsUuid_body body_ok_forms ..
  also have "\<dots> = (\<exists>hs. length hs = 32 \<and> list_all validationHexDigit hs \<and>
      (gofrs_body b = Some hs \<or> gofrs_body b = Some (canonical hs)))" by blast
  also have "\<dots> = (\<exists>hs. length hs = 32 \<and> list_all validationHexDigit hs \<and> b \<in> set (uuid_forms hs))"
    using gofrs_body_forms by (auto simp: uuid_forms_def Let_def)
  finally show ?thesis .
qed

text \<open>The two plain forms are also what \<^verbatim>\<open>XrayId\<close> takes.\<close>

lemma validationXrayUuid_forms:
  assumes "length hs = 32" "list_all validationHexDigit hs"
  shows "validationXrayUuid hs" "validationXrayUuid (canonical hs)"
proof -
  have n45: "\<not> validationHexDigit 45" by (simp add: validationHexDigit_def)
  have skip: "\<not> startsWith 45 s" if "list_all validationHexDigit s" for s
    using that n45 by (cases s) (auto simp: startsWith_def)
  have sub: "list_all validationHexDigit (take i (drop j hs))" "list_all validationHexDigit (drop j hs)"
    "list_all validationHexDigit (take i hs)" for i j
    using assms(2) by (auto simp: list_all_iff dest: in_set_takeD in_set_dropD)
  show "validationXrayUuid hs"
    using assms sub skip [OF sub(2)] skip [OF assms(2)] by (simp add: validationXrayUuid_def Let_def)
  have "\<not> startsWith 45 (canonical hs)" using skip [OF sub(3) [of 8]] assms(1)
    by (cases "take 8 hs") (auto simp: canonical_def startsWith_def)
  then show "validationXrayUuid (canonical hs)"
    using assms sub by (simp add: validationXrayUuid_def canonical_def Let_def startsWith_def)
qed

end
