(* ===== verification/TrafficStats.thy ===== *)
theory TrafficStats
  imports Prelude
begin

text \<open>
  The traffic statistics: the accumulators of \<^verbatim>\<open>src/stats/traffic/TrafficStatsManager.cpp\<close> and the tables of
  \<^verbatim>\<open>src/database/TrafficStatsRepo.cpp\<close>. A table is an association list with one row per primary key, a statement
  a function on tables; \<open>fault\<close> is what SQLite answers to a call (\<open>None\<close> for success, else whether the error is
  fatal), so a failed transaction changes nothing. Times are seconds after 1970, where the division of C++ and of
  SQL is \<open>div\<close>; byte counts stay below 2^63 and are integers. The database manager exists, as after start-up. \<open>disabled\<close> is the setting that turns aggregation
  off, an argument of every call.
\<close>

section \<open>Tables\<close>

type_synonym bytes2 = "int \<times> int"
type_synonym 'k table = "(int \<times> 'k, bytes2) qhash"

text \<open>A row of a batch: bucket, key, up and down.\<close>

type_synonym 'k traffic_row = "int \<times> 'k \<times> bytes2"

definition plus2 :: "bytes2 \<Rightarrow> bytes2 \<Rightarrow> bytes2" where
  "plus2 a b = (fst a + fst b, snd a + snd b)"

text \<open>\<^verbatim>\<open>INSERT ... ON CONFLICT DO UPDATE SET up = up + excluded.up, down = down + excluded.down\<close>.\<close>

definition upsert_row :: "'k traffic_row \<Rightarrow> 'k table \<Rightarrow> 'k table" where
  "upsert_row r t =
     (let key = (fst r, fst (snd r))
      in AList.update key (plus2 (hash_value t key (0, 0)) (snd (snd r))) t)"

definition upsert_batch :: "'k traffic_row list \<Rightarrow> 'k table \<Rightarrow> 'k table" where
  "upsert_batch rows t = foldl (\<lambda>t r. upsert_row r t) t rows"

definition sum2 :: "bytes2 list \<Rightarrow> bytes2" where
  "sum2 ds = foldr plus2 ds (0, 0)"

text \<open>\<^verbatim>\<open>SELECT f(bucket, key), SUM(up), SUM(down) ... GROUP BY f(bucket, key)\<close>.\<close>

definition group_sums :: "(int \<times> 'k \<Rightarrow> 'g) \<Rightarrow> 'k table \<Rightarrow> ('g \<times> bytes2) list" where
  "group_sums f t =
     map (\<lambda>g. (g, sum2 (map snd (filter (\<lambda>r. f (fst r) = g) t)))) (remdups (map (\<lambda>r. f (fst r)) t))"

definition hour_key :: "int \<times> 'k \<Rightarrow> int \<times> 'k" where
  "hour_key bk = (fst bk div 3600 * 3600, snd bk)"

definition older :: "int \<Rightarrow> 'k table \<Rightarrow> 'k table" where
  "older limit t = filter (\<lambda>r. fst (fst r) < limit) t"

definition not_older :: "int \<Rightarrow> 'k table \<Rightarrow> 'k table" where
  "not_older limit t = filter (\<lambda>r. \<not> fst (fst r) < limit) t"

text \<open>The two statements of a rollup for one pair of tables: insert the sums into the hours, delete the minutes.\<close>

definition rollup_tables :: "int \<Rightarrow> 'k table \<times> 'k table \<Rightarrow> 'k table \<times> 'k table" where
  "rollup_tables limit mh =
     (let (minute, hour) = mh;
          sums = map (\<lambda>(bk, d). (fst bk, snd bk, d)) (group_sums hour_key (older limit minute))
      in (not_older limit minute, upsert_batch sums hour))"

section \<open>The repository\<close>

type_synonym app_key = "qstring \<times> qstring"

text \<open>An application table as it is found on disk: before the outbound column, or with it.\<close>

datatype app_table = PreOutbound "qstring table" | WithOutbound "app_key table"

definition migrateAppOutbound :: "app_table \<Rightarrow> app_key table" where
  "migrateAppOutbound t =
     (case t of
        PreOutbound rows \<Rightarrow> map (\<lambda>(k, d). ((fst k, (snd k, [])), d)) rows
      | WithOutbound rows \<Rightarrow> rows)"

record config_meta =
  cm_name :: qstring
  cm_group :: qstring
  cm_type :: qstring
  cm_address :: qstring
  cm_first_seen :: int
  cm_last_seen :: int

record app_meta =
  am_path :: qstring
  am_first_seen :: int
  am_last_seen :: int

record repo =
  config_minute :: "int table"
  config_hour :: "int table"
  app_minute :: "app_key table"
  app_hour :: "app_key table"
  config_metas :: "(int, config_meta) qhash"
  app_metas :: "(qstring, app_meta) qhash"
  tripped :: bool
  failures :: nat

definition kMaxConsecutiveFailures :: nat where
  "kMaxConsecutiveFailures = 5"

type_synonym fault = "bool option"

text \<open>\<^verbatim>\<open>guarded\<close> and the part of \<^verbatim>\<open>onFailure\<close> that trips the breaker; a fatal error does not count.\<close>

definition guarded :: "fault \<Rightarrow> (repo \<Rightarrow> repo) \<Rightarrow> repo \<Rightarrow> repo" where
  "guarded fault body r =
     (if tripped r then r
      else case fault of
             None \<Rightarrow> (body r)\<lparr>failures := 0\<rparr>
           | Some fatal \<Rightarrow>
               (let n = (if fatal then failures r else failures r + 1)
                in r\<lparr>failures := n, tripped := fatal \<or> kMaxConsecutiveFailures \<le> n\<rparr>))"

definition UpsertConfigMinuteBatch :: "fault \<Rightarrow> int traffic_row list \<Rightarrow> repo \<Rightarrow> repo" where
  "UpsertConfigMinuteBatch fault rows r =
     (if rows = [] then r
      else guarded fault (\<lambda>r. r\<lparr>config_minute := upsert_batch rows (config_minute r)\<rparr>) r)"

definition UpsertAppMinuteBatch :: "fault \<Rightarrow> app_key traffic_row list \<Rightarrow> repo \<Rightarrow> repo" where
  "UpsertAppMinuteBatch fault rows r =
     (if rows = [] then r
      else guarded fault (\<lambda>r. r\<lparr>app_minute := upsert_batch rows (app_minute r)\<rparr>) r)"

definition UpsertConfigMeta :: "fault \<Rightarrow> int \<Rightarrow> config_meta \<Rightarrow> repo \<Rightarrow> repo" where
  "UpsertConfigMeta fault pid m r =
     guarded fault (\<lambda>r. r\<lparr>config_metas := AList.update pid
       (case map_of (config_metas r) pid of
          None \<Rightarrow> m
        | Some old \<Rightarrow> m\<lparr>cm_first_seen := cm_first_seen old\<rparr>) (config_metas r)\<rparr>) r"

definition UpsertAppMeta :: "fault \<Rightarrow> qstring \<Rightarrow> qstring \<Rightarrow> int \<Rightarrow> repo \<Rightarrow> repo" where
  "UpsertAppMeta fault process path now r =
     guarded fault (\<lambda>r. r\<lparr>app_metas := AList.update process
       \<lparr>am_path = path,
        am_first_seen = (case map_of (app_metas r) process of None \<Rightarrow> now | Some old \<Rightarrow> am_first_seen old),
        am_last_seen = now\<rparr> (app_metas r)\<rparr>) r"

definition RollupMinuteToHour :: "fault \<Rightarrow> int \<Rightarrow> repo \<Rightarrow> repo" where
  "RollupMinuteToHour fault limit r =
     guarded fault (\<lambda>r.
       (let (cm, ch) = rollup_tables limit (config_minute r, config_hour r);
            (am, ah) = rollup_tables limit (app_minute r, app_hour r)
        in r\<lparr>config_minute := cm, config_hour := ch, app_minute := am, app_hour := ah\<rparr>)) r"

definition PruneHour :: "fault \<Rightarrow> int \<Rightarrow> repo \<Rightarrow> repo" where
  "PruneHour fault limit r =
     guarded fault (\<lambda>r. r\<lparr>config_hour := not_older limit (config_hour r), app_hour := not_older limit (app_hour r)\<rparr>) r"

section \<open>Queries\<close>

definition within :: "int \<Rightarrow> int \<Rightarrow> 'k table \<Rightarrow> 'k table" where
  "within a b t = filter (\<lambda>r. a \<le> fst (fst r) \<and> fst (fst r) < b) t"

text \<open>
  A read goes through \<^verbatim>\<open>guarded\<close> as well: it can fail after some rows (\<open>Some (rows, fatal)\<close>), and its success
  resets the count of failures.
\<close>

definition queried :: "(nat \<times> bool) option \<Rightarrow> (repo \<Rightarrow> 'a list) \<Rightarrow> repo \<Rightarrow> 'a list \<times> repo" where
  "queried fault f r =
     (if tripped r then [] else (case fault of None \<Rightarrow> f r | Some (n, fatal) \<Rightarrow> take n (f r)),
      guarded (map_option snd fault) (\<lambda>r. r) r)"

definition config_usage :: "int \<Rightarrow> int \<Rightarrow> repo \<Rightarrow> (int \<times> bytes2) list" where
  "config_usage a b r = group_sums snd (within a b (config_minute r) @ within a b (config_hour r))"

definition QueryConfigUsage :: "(nat \<times> bool) option \<Rightarrow> int \<Rightarrow> int \<Rightarrow> repo \<Rightarrow> (int \<times> bytes2) list \<times> repo" where
  "QueryConfigUsage fault a b = queried fault (config_usage a b)"

definition is_bypass :: "qstring \<Rightarrow> bool" where
  "is_bypass outbound \<longleftrightarrow> outbound = lit ''direct'' \<or> outbound = lit ''l3-direct''"

text \<open>A sum with a share: \<^verbatim>\<open>SUM(CASE WHEN p THEN u ELSE 0 END)\<close> over the rows of a group.\<close>

definition share :: "(int \<times> 'k \<Rightarrow> bool) \<Rightarrow> 'k table \<Rightarrow> bytes2" where
  "share p rows = sum2 (map (\<lambda>r. if p (fst r) then snd r else (0, 0)) rows)"

definition app_usage :: "int \<Rightarrow> int \<Rightarrow> repo \<Rightarrow> (qstring \<times> bytes2 \<times> bytes2 \<times> bytes2) list" where
  "app_usage a b r =
     (let rows = within a b (app_minute r) @ within a b (app_hour r)
      in map (\<lambda>(p, d).
           (let own = filter (\<lambda>r. fst (snd (fst r)) = p) rows
            in (p, d, share (\<lambda>k. is_bypass (snd (snd k))) own, share (\<lambda>k. snd (snd k) = []) own)))
           (group_sums (\<lambda>k. fst (snd k)) rows))"

definition QueryAppUsage ::
  "(nat \<times> bool) option \<Rightarrow> int \<Rightarrow> int \<Rightarrow> repo \<Rightarrow> (qstring \<times> bytes2 \<times> bytes2 \<times> bytes2) list \<times> repo" where
  "QueryAppUsage fault a b = queried fault (app_usage a b)"

definition bucketExpr :: "int \<Rightarrow> int \<Rightarrow> int \<Rightarrow> int" where
  "bucketExpr bucketSecs utcOffset bucket = (bucket + utcOffset) div bucketSecs * bucketSecs - utcOffset"

text \<open>One point per bucket, in order: its start, its bytes and the share of direct egress.\<close>

definition series :: "(int \<times> 'k \<Rightarrow> bool) \<Rightarrow> int \<Rightarrow> int \<Rightarrow> 'k table \<Rightarrow> (int \<times> bytes2 \<times> bytes2) list" where
  "series bypass bucketSecs utcOffset rows =
     (let bkt = (\<lambda>k. bucketExpr bucketSecs utcOffset (fst k))
      in map (\<lambda>(b, d). (b, d, share bypass (filter (\<lambda>r. bkt (fst r) = b) rows)))
           (sort_key fst (group_sums bkt rows)))"

definition QueryConfigSeries ::
  "(nat \<times> bool) option \<Rightarrow> int \<Rightarrow> int \<Rightarrow> int \<Rightarrow> int \<Rightarrow> int \<Rightarrow> repo \<Rightarrow> (int \<times> bytes2 \<times> bytes2) list \<times> repo" where
  "QueryConfigSeries fault a b bucketSecs utcOffset directId r =
     (if bucketSecs \<le> 0 then ([], r)
      else queried fault
        (\<lambda>r. series (\<lambda>k. snd k = directId) bucketSecs utcOffset (within a b (config_minute r) @ within a b (config_hour r))) r)"

definition QueryAppSeries ::
  "(nat \<times> bool) option \<Rightarrow> int \<Rightarrow> int \<Rightarrow> int \<Rightarrow> int \<Rightarrow> repo \<Rightarrow> (int \<times> bytes2 \<times> bytes2) list \<times> repo" where
  "QueryAppSeries fault a b bucketSecs utcOffset r =
     (if bucketSecs \<le> 0 then ([], r)
      else queried fault
        (\<lambda>r. series (\<lambda>k. is_bypass (snd (snd k))) bucketSecs utcOffset (within a b (app_minute r) @ within a b (app_hour r))) r)"

definition GetAllConfigMeta :: "(nat \<times> bool) option \<Rightarrow> repo \<Rightarrow> (int \<times> config_meta) list \<times> repo" where
  "GetAllConfigMeta fault = queried fault config_metas"

definition GetAllAppMeta :: "(nat \<times> bool) option \<Rightarrow> repo \<Rightarrow> (qstring \<times> app_meta) list \<times> repo" where
  "GetAllAppMeta fault = queried fault app_metas"

section \<open>The manager\<close>

text \<open>The manager with the repository it writes to. \<^verbatim>\<open>QHash\<close> iterates in any order; batches add up, so it does not matter.\<close>

record stats =
  configAccum :: "(int, bytes2) qhash"
  appAccum :: "(app_key, bytes2) qhash"
  appMetaSeen :: "(qstring, qstring) qhash"
  currentBucket :: int
  stats_repo :: repo

definition kDirectStatProfileId :: int where
  "kDirectStatProfileId = - 101"

definition alignMinute :: "int \<Rightarrow> int" where
  "alignMinute secs = secs div 60 * 60"

definition rows_of :: "int \<Rightarrow> ('k, bytes2) qhash \<Rightarrow> 'k traffic_row list" where
  "rows_of bucket acc = map (\<lambda>(k, d). (bucket, k, d)) (filter (\<lambda>(k, d). d \<noteq> (0, 0)) acc)"

definition drainLocked :: "int \<Rightarrow> stats \<Rightarrow> int traffic_row list \<times> app_key traffic_row list \<times> stats" where
  "drainLocked bucket s =
     (rows_of bucket (configAccum s), rows_of bucket (appAccum s), s\<lparr>configAccum := [], appAccum := []\<rparr>)"

text \<open>\<open>fc\<close> and \<open>fa\<close> are the answers to the two batches.\<close>

definition writeRows :: "fault \<Rightarrow> fault \<Rightarrow> int traffic_row list \<Rightarrow> app_key traffic_row list \<Rightarrow> stats \<Rightarrow> stats" where
  "writeRows fc fa cfg app s =
     s\<lparr>stats_repo := UpsertAppMinuteBatch fa app (UpsertConfigMinuteBatch fc cfg (stats_repo s))\<rparr>"

text \<open>The flush of the bucket that just ended, which both operations start with.\<close>

definition enter_bucket :: "int \<Rightarrow> stats \<Rightarrow> int traffic_row list \<times> app_key traffic_row list \<times> stats" where
  "enter_bucket nowBucket s =
     (let (cfg, app, s) =
        (if currentBucket s \<noteq> 0 \<and> nowBucket \<noteq> currentBucket s then drainLocked (currentBucket s) s else ([], [], s))
      in (cfg, app, s\<lparr>currentBucket := nowBucket\<rparr>))"

definition accumulate :: "'k \<Rightarrow> bytes2 \<Rightarrow> ('k, bytes2) qhash \<Rightarrow> ('k, bytes2) qhash" where
  "accumulate k d acc = AList.update k (plus2 (hash_value acc k (0, 0)) d) acc"

definition AddConfigDelta :: "bool \<Rightarrow> fault \<Rightarrow> fault \<Rightarrow> int \<Rightarrow> int \<Rightarrow> bytes2 \<Rightarrow> stats \<Rightarrow> stats" where
  "AddConfigDelta disabled fc fa now pid d s =
     (if disabled \<or> d = (0, 0) then s
      else
        (let (cfg, app, s) = enter_bucket (alignMinute now) s
         in writeRows fc fa cfg app (s\<lparr>configAccum := accumulate pid d (configAccum s)\<rparr>)))"

text \<open>\<open>later\<close> is the second reading of the clock, for the metadata.\<close>

definition AddAppDelta ::
  "bool \<Rightarrow> fault \<Rightarrow> fault \<Rightarrow> fault \<Rightarrow> int \<Rightarrow> int \<Rightarrow> qstring \<Rightarrow> qstring \<Rightarrow> qstring \<Rightarrow> bytes2 \<Rightarrow> stats \<Rightarrow> stats" where
  "AddAppDelta disabled fc fa fm now later process path outbound d s =
     (if disabled \<or> process = [] \<or> d = (0, 0) then s
      else
        (let (cfg, app, s) = enter_bucket (alignMinute now) s;
             s = s\<lparr>appAccum := accumulate (process, outbound) d (appAccum s)\<rparr>;
             writeMeta = (path \<noteq> [] \<and> map_of (appMetaSeen s) process \<noteq> Some path);
             s = (if writeMeta then s\<lparr>appMetaSeen := AList.update process path (appMetaSeen s)\<rparr> else s);
             s = writeRows fc fa cfg app s
         in if writeMeta then s\<lparr>stats_repo := UpsertAppMeta fm process path later (stats_repo s)\<rparr> else s))"

definition Flush :: "bool \<Rightarrow> fault \<Rightarrow> fault \<Rightarrow> stats \<Rightarrow> stats" where
  "Flush disabled fc fa s =
     (if disabled \<or> currentBucket s = 0 then s
      else (let (cfg, app, s) = drainLocked (currentBucket s) s in writeRows fc fa cfg app s))"

definition SnapshotConfigMeta :: "bool \<Rightarrow> fault \<Rightarrow> int \<Rightarrow> int \<Rightarrow> config_meta \<Rightarrow> stats \<Rightarrow> stats" where
  "SnapshotConfigMeta disabled fault now pid m s =
     (if disabled \<or> (pid < 0 \<and> pid \<noteq> kDirectStatProfileId) then s
      else s\<lparr>stats_repo := UpsertConfigMeta fault pid (m\<lparr>cm_first_seen := now, cm_last_seen := now\<rparr>) (stats_repo s)\<rparr>)"

definition EnsureDirectMeta :: "bool \<Rightarrow> fault \<Rightarrow> int \<Rightarrow> stats \<Rightarrow> stats" where
  "EnsureDirectMeta disabled fault now s =
     SnapshotConfigMeta disabled fault now kDirectStatProfileId
       \<lparr>cm_name = lit ''Direct'', cm_group = [], cm_type = lit ''direct'', cm_address = [],
        cm_first_seen = 0, cm_last_seen = 0\<rparr> s"

definition kMinuteWindowSecs :: int where
  "kMinuteWindowSecs = 48 * 3600"

definition runRollupOnce :: "bool \<Rightarrow> fault \<Rightarrow> fault \<Rightarrow> int \<Rightarrow> int \<Rightarrow> stats \<Rightarrow> stats" where
  "runRollupOnce disabled fr fp now retentionDays s =
     (if disabled then s
      else
        (let days = (if retentionDays < 1 then 1 else retentionDays)
         in s\<lparr>stats_repo := PruneHour fp (now - days * 86400)
                              (RollupMinuteToHour fr (now - kMinuteWindowSecs) (stats_repo s))\<rparr>))"

end
