(* ===== verification/TrafficLedger.thy ===== *)
theory TrafficLedger
  imports TrafficStats
begin

text \<open>
  What the traffic statistics keep: one row per key and a breaker that trips in time whatever calls follow, and the
  ledger of an hour: while no call fails, the bytes of a profile in the minutes, the hours and the accumulator together
  are the bytes that were credited, whatever flushes and rollups move them.
\<close>

section \<open>Totals of a table\<close>

definition additive :: "(bytes2 \<Rightarrow> int) \<Rightarrow> bool" where
  "additive f \<longleftrightarrow> f (0, 0) = 0 \<and> (\<forall>a b. f (plus2 a b) = f a + f b)"

lemma additive_fst: "additive fst" and additive_snd: "additive snd"
  by (simp_all add: additive_def plus2_def)

lemma additive_simps: "additive f \<Longrightarrow> f (0, 0) = 0" "additive f \<Longrightarrow> f (plus2 a b) = f a + f b"
  unfolding additive_def by blast+

text \<open>The total of the rows whose key is picked, and of the rows of a batch.\<close>

definition row_total :: "(bytes2 \<Rightarrow> int) \<Rightarrow> (int \<times> 'k \<Rightarrow> bool) \<Rightarrow> 'k table \<Rightarrow> int" where
  "row_total f P t = (\<Sum>r\<leftarrow>t. if P (fst r) then f (snd r) else 0)"

definition batch_total :: "(bytes2 \<Rightarrow> int) \<Rightarrow> (int \<times> 'k \<Rightarrow> bool) \<Rightarrow> 'k traffic_row list \<Rightarrow> int" where
  "batch_total f P rows = (\<Sum>(b, k, d)\<leftarrow>rows. if P (b, k) then f d else 0)"

lemma row_total_simps [simp]:
  "row_total f P [] = 0" "row_total f P (r # t) = (if P (fst r) then f (snd r) else 0) + row_total f P t"
  "row_total f P (t @ u) = row_total f P t + row_total f P u"
  by (simp_all add: row_total_def)

lemma row_total_update:
  "additive f \<Longrightarrow> row_total f P (AList.update k (plus2 (hash_value t k (0, 0)) d) t) = row_total f P t + (if P k then f d else 0)"
  by (induction t) (simp_all add: additive_simps split: prod.split)

lemma row_total_upsert_row:
  "additive f \<Longrightarrow> row_total f P (upsert_row (b, k, d) t) = row_total f P t + (if P (b, k) then f d else 0)"
  by (simp add: upsert_row_def Let_def row_total_update)

lemma row_total_upsert_batch: "additive f \<Longrightarrow> row_total f P (upsert_batch rows t) = row_total f P t + batch_total f P rows"
proof (induction rows arbitrary: t)
  case (Cons r rows)
  obtain b k d where "r = (b, k, d)" by (cases r)
  with Cons show ?case by (simp add: upsert_batch_def batch_total_def row_total_upsert_row)
qed (simp add: upsert_batch_def batch_total_def)

lemma row_total_partition: "row_total f P (older l t) + row_total f P (not_older l t) = row_total f P t"
  by (induction t) (auto simp: older_def not_older_def)

lemma additive_sum2: "additive f \<Longrightarrow> f (sum2 ds) = (\<Sum>d\<leftarrow>ds. f d)"
  by (induction ds) (simp_all add: sum2_def additive_simps)

lemma sum_groups:
  assumes "finite G" "key ` set t \<subseteq> G"
  shows "(\<Sum>g\<in>G. \<Sum>r\<leftarrow>filter (\<lambda>r. key r = g) t. w r) = (\<Sum>r\<leftarrow>t. w r :: int)"
  using assms(2)
proof (induction t)
  case (Cons r t)
  have "(\<Sum>g\<in>G. \<Sum>r\<leftarrow>filter (\<lambda>r. key r = g) (r # t). w r) =
    (\<Sum>g\<in>G. (if key r = g then w r else 0) + (\<Sum>r\<leftarrow>filter (\<lambda>r. key r = g) t. w r))"
    by (intro sum.cong) auto
  also have "\<dots> = (\<Sum>g\<in>G. if key r = g then w r else 0) + (\<Sum>r\<leftarrow>t. w r)"
    using Cons by (simp add: sum.distrib)
  also have "(\<Sum>g\<in>G. if key r = g then w r else 0) = w r" using Cons.prems assms(1) by (simp add: sum.delta)
  finally show ?case by simp
qed simp

lemma group_sums_total:
  assumes "additive f"
  shows "(\<Sum>(g, d)\<leftarrow>group_sums key t. if P g then f d else 0) = (\<Sum>r\<leftarrow>t. if P (key (fst r)) then f (snd r) else 0)"
proof -
  have own: "(if P g then f (sum2 (map snd (filter (\<lambda>r. key (fst r) = g) t))) else 0) =
    (\<Sum>r\<leftarrow>filter (\<lambda>r. key (fst r) = g) t. if P (key (fst r)) then f (snd r) else 0)" for g
  proof -
    have "(\<Sum>r\<leftarrow>filter (\<lambda>r. key (fst r) = g) t. if P (key (fst r)) then f (snd r) else 0) =
      (\<Sum>r\<leftarrow>filter (\<lambda>r. key (fst r) = g) t. if P g then f (snd r) else 0)"
      by (rule arg_cong [of _ _ sum_list]) (rule map_cong, auto)
    then show ?thesis by (simp add: additive_sum2 [OF assms] comp_def)
  qed
  have "(\<Sum>(g, d)\<leftarrow>group_sums key t. if P g then f d else 0) =
    (\<Sum>g\<leftarrow>remdups (map (\<lambda>r. key (fst r)) t). \<Sum>r\<leftarrow>filter (\<lambda>r. key (fst r) = g) t. if P (key (fst r)) then f (snd r) else 0)"
    by (simp add: group_sums_def comp_def own)
  also have "\<dots> = (\<Sum>g\<in>(\<lambda>r. key (fst r)) ` set t. \<Sum>r\<leftarrow>filter (\<lambda>r. key (fst r) = g) t. if P (key (fst r)) then f (snd r) else 0)"
    by (simp add: sum_list_distinct_conv_sum_set)
  also have "\<dots> = (\<Sum>r\<leftarrow>t. if P (key (fst r)) then f (snd r) else 0)"
    by (rule sum_groups) auto
  finally show ?thesis .
qed

definition hourly :: "(int \<times> 'k \<Rightarrow> bool) \<Rightarrow> bool" where
  "hourly P \<longleftrightarrow> (\<forall>k. P (hour_key k) = P k)"

lemma row_total_rollup:
  assumes "additive f" "hourly P" "rollup_tables l (m, h) = (m', h')"
  shows "row_total f P m' + row_total f P h' = row_total f P m + row_total f P h"
proof -
  have "batch_total f P (map (\<lambda>(bk, d). (fst bk, snd bk, d)) (group_sums hour_key (older l m))) =
    (\<Sum>(g, d)\<leftarrow>group_sums hour_key (older l m). if P g then f d else 0)"
    by (auto simp: batch_total_def comp_def case_prod_unfold intro!: arg_cong [of _ _ sum_list])
  also have "\<dots> = row_total f P (older l m)"
    unfolding group_sums_total [OF assms(1)] row_total_def using assms(2) by (simp only: hourly_def)
  finally show ?thesis using assms(1,3) row_total_partition [of f P l m]
    by (auto simp: rollup_tables_def Let_def row_total_upsert_batch)
qed

section \<open>Totals of the accumulators\<close>

definition accum_total :: "(bytes2 \<Rightarrow> int) \<Rightarrow> (int \<times> 'k \<Rightarrow> bool) \<Rightarrow> int \<Rightarrow> ('k, bytes2) qhash \<Rightarrow> int" where
  "accum_total f P b acc = (\<Sum>(k, d)\<leftarrow>acc. if P (b, k) then f d else 0)"

lemma accum_total_Nil [simp]: "accum_total f P b [] = 0"
  by (simp add: accum_total_def)

lemma accum_total_accumulate:
  "additive f \<Longrightarrow> accum_total f P b (accumulate k d acc) = accum_total f P b acc + (if P (b, k) then f d else 0)"
  unfolding accumulate_def by (induction acc) (simp_all add: accum_total_def additive_simps split: prod.split)

lemma batch_total_rows: "additive f \<Longrightarrow> batch_total f P (rows_of b acc) = accum_total f P b acc"
  by (induction acc) (simp_all add: rows_of_def batch_total_def accum_total_def split: prod.split, auto simp: additive_simps)

section \<open>Events\<close>

text \<open>One call each, in the order the lock of the manager gives them; the time, the setting and the faults are arguments.\<close>

datatype stats_event =
    ConfigDelta bool fault fault int int bytes2
  | AppDelta bool fault fault fault int int qstring qstring qstring bytes2
  | FlushAll bool fault fault
  | RollupNow bool fault fault int int
  | ConfigSnapshot bool fault int int config_meta

primrec stats_step :: "stats_event \<Rightarrow> stats \<Rightarrow> stats" where
  "stats_step (ConfigDelta dis fc fa now pid d) s = AddConfigDelta dis fc fa now pid d s"
| "stats_step (AppDelta dis fc fa fm now later p path o1 d) s = AddAppDelta dis fc fa fm now later p path o1 d s"
| "stats_step (FlushAll dis fc fa) s = Flush dis fc fa s"
| "stats_step (RollupNow dis fr fp now days) s = runRollupOnce dis fr fp now days s"
| "stats_step (ConfigSnapshot dis f now pid m) s = SnapshotConfigMeta dis f now pid m s"

definition empty_repo :: repo where
  "empty_repo = \<lparr>config_minute = [], config_hour = [], app_minute = [], app_hour = [], config_metas = [], app_metas = [],
     tripped = False, failures = 0\<rparr>"

definition empty_stats :: "repo \<Rightarrow> stats" where
  "empty_stats r = \<lparr>configAccum = [], appAccum = [], appMetaSeen = [], currentBucket = 0, stats_repo = r\<rparr>"

section \<open>One row per key, and the breaker\<close>

definition repo_inv :: "repo \<Rightarrow> bool" where
  "repo_inv r \<longleftrightarrow> hash_ok (config_minute r) \<and> hash_ok (config_hour r) \<and> hash_ok (app_minute r) \<and> hash_ok (app_hour r) \<and>
     hash_ok (config_metas r) \<and> hash_ok (app_metas r) \<and> (failures r < kMaxConsecutiveFailures \<or> tripped r)"

definition stats_inv :: "stats \<Rightarrow> bool" where
  "stats_inv s \<longleftrightarrow> hash_ok (configAccum s) \<and> hash_ok (appAccum s) \<and> repo_inv (stats_repo s)"

lemma hash_ok_filter: "hash_ok t \<Longrightarrow> hash_ok (filter P t)"
  by (simp add: distinct_map_filter)

lemma hash_ok_upsert: "hash_ok t \<Longrightarrow> hash_ok (upsert_batch rows t)"
proof (induction rows arbitrary: t)
  case (Cons r rows)
  then show ?case by (simp add: upsert_batch_def upsert_row_def Let_def)
qed (simp add: upsert_batch_def)

lemma hash_ok_rollup: "rollup_tables l (m, h) = (m', h') \<Longrightarrow> hash_ok m \<Longrightarrow> hash_ok h \<Longrightarrow> hash_ok m' \<and> hash_ok h'"
  by (auto simp: rollup_tables_def not_older_def Let_def hash_ok_upsert hash_ok_filter)

lemma guarded_inv:
  assumes "repo_inv r" "repo_inv ((body r)\<lparr>failures := 0\<rparr>)"
  shows "repo_inv (guarded fault body r)"
  using assms by (auto simp: guarded_def repo_inv_def kMaxConsecutiveFailures_def Let_def split: option.split)

lemma repo_inv_ops:
  assumes "repo_inv r"
  shows "repo_inv (UpsertConfigMinuteBatch f rows r)" "repo_inv (UpsertAppMinuteBatch f rows' r)"
    "repo_inv (UpsertConfigMeta f pid m r)" "repo_inv (UpsertAppMeta f p path now r)"
    "repo_inv (RollupMinuteToHour f l r)" "repo_inv (PruneHour f l r)"
proof -
  note parts = assms [unfolded repo_inv_def]
  have "repo_inv (guarded f (\<lambda>r. r\<lparr>config_minute := upsert_batch rows (config_minute r)\<rparr>) r)"
    "repo_inv (guarded f (\<lambda>r. r\<lparr>app_minute := upsert_batch rows' (app_minute r)\<rparr>) r)"
    using parts by (intro guarded_inv [OF assms]; simp add: repo_inv_def hash_ok_upsert kMaxConsecutiveFailures_def)+
  then show "repo_inv (UpsertConfigMinuteBatch f rows r)" "repo_inv (UpsertAppMinuteBatch f rows' r)"
    using assms by (simp_all add: UpsertConfigMinuteBatch_def UpsertAppMinuteBatch_def)
  show "repo_inv (UpsertConfigMeta f pid m r)" "repo_inv (UpsertAppMeta f p path now r)"
    unfolding UpsertConfigMeta_def UpsertAppMeta_def
    using assms parts by (intro guarded_inv; simp add: repo_inv_def kMaxConsecutiveFailures_def)+
  show "repo_inv (PruneHour f l r)"
    unfolding PruneHour_def
    using assms parts by (intro guarded_inv) (simp_all add: repo_inv_def not_older_def hash_ok_filter kMaxConsecutiveFailures_def)
  obtain cm ch am ah where "rollup_tables l (config_minute r, config_hour r) = (cm, ch)"
    "rollup_tables l (app_minute r, app_hour r) = (am, ah)" by fastforce
  moreover from this have "hash_ok cm" "hash_ok ch" "hash_ok am" "hash_ok ah" using parts hash_ok_rollup by blast+
  ultimately show "repo_inv (RollupMinuteToHour f l r)"
    unfolding RollupMinuteToHour_def
    using assms parts by (intro guarded_inv) (simp_all add: repo_inv_def kMaxConsecutiveFailures_def)
qed

lemma hash_ok_accumulate: "hash_ok acc \<Longrightarrow> hash_ok (accumulate k d acc)"
  by (simp add: accumulate_def)

lemma stats_inv_step: "stats_inv s \<Longrightarrow> stats_inv (stats_step e s)"
proof (cases e)
  case (ConfigDelta dis fc fa now pid d)
  assume "stats_inv s"
  then show ?thesis using ConfigDelta
    by (auto simp: stats_inv_def AddConfigDelta_def enter_bucket_def drainLocked_def writeRows_def Let_def
        repo_inv_ops hash_ok_accumulate)
next
  case (AppDelta dis fc fa fm now later p path o1 d)
  assume "stats_inv s"
  then show ?thesis using AppDelta
    by (auto simp: stats_inv_def AddAppDelta_def enter_bucket_def drainLocked_def writeRows_def Let_def
        repo_inv_ops hash_ok_accumulate)
qed (auto simp: stats_inv_def Flush_def drainLocked_def writeRows_def runRollupOnce_def SnapshotConfigMeta_def Let_def repo_inv_ops)

lemma stats_inv_empty: "repo_inv r \<Longrightarrow> stats_inv (empty_stats r)"
  by (simp add: stats_inv_def empty_stats_def)

interpretation statistics: invariant_system "empty_stats empty_repo" "\<lambda>s e. stats_step e s" stats_inv
  by unfold_locales
    (auto simp: stats_inv_step intro!: stats_inv_empty simp: repo_inv_def empty_repo_def kMaxConsecutiveFailures_def)

text \<open>A tripped repository never changes again.\<close>

lemma guarded_tripped [simp]: "tripped r \<Longrightarrow> guarded f body r = r"
  by (simp add: guarded_def)

lemma tripped_step: "tripped (stats_repo s) \<Longrightarrow> stats_repo (stats_step e s) = stats_repo s"
  by (cases e) (auto simp: AddConfigDelta_def AddAppDelta_def Flush_def runRollupOnce_def SnapshotConfigMeta_def enter_bucket_def
      drainLocked_def writeRows_def UpsertConfigMinuteBatch_def UpsertAppMinuteBatch_def UpsertConfigMeta_def UpsertAppMeta_def
      RollupMinuteToHour_def PruneHour_def Let_def)

section \<open>The ledger\<close>

definition fresh_stats :: "stats \<Rightarrow> bool" where
  "fresh_stats s \<longleftrightarrow> \<not> tripped (stats_repo s) \<and> (currentBucket s = 0 \<longrightarrow> configAccum s = [] \<and> appAccum s = [])"

definition in_hour :: "int \<Rightarrow> 'k \<Rightarrow> int \<times> 'k \<Rightarrow> bool" where
  "in_hour h k bk \<longleftrightarrow> fst bk div 3600 = h \<and> snd bk = k"

definition config_hour_total :: "(bytes2 \<Rightarrow> int) \<Rightarrow> int \<Rightarrow> int \<Rightarrow> stats \<Rightarrow> int" where
  "config_hour_total f h pid s =
     row_total f (in_hour h pid) (config_minute (stats_repo s)) + row_total f (in_hour h pid) (config_hour (stats_repo s)) +
     accum_total f (in_hour h pid) (currentBucket s) (configAccum s)"

primrec clean_event :: "stats_event \<Rightarrow> bool" where
  "clean_event (ConfigDelta dis fc fa now pid d) \<longleftrightarrow> fc = None \<and> fa = None \<and> 60 \<le> now"
| "clean_event (AppDelta dis fc fa fm now later p path o1 d) \<longleftrightarrow> fc = None \<and> fa = None \<and> fm = None \<and> 60 \<le> now"
| "clean_event (FlushAll dis fc fa) \<longleftrightarrow> fc = None \<and> fa = None"
| "clean_event (RollupNow dis fr fp now days) \<longleftrightarrow> fr = None \<and> fp = None"
| "clean_event (ConfigSnapshot dis f now pid m) \<longleftrightarrow> f = None"

text \<open>A rollup leaves the hour alone unless the retention ends after its start.\<close>

primrec retains :: "int \<Rightarrow> stats_event \<Rightarrow> bool" where
  "retains h (ConfigDelta dis fc fa now pid d) \<longleftrightarrow> True"
| "retains h (AppDelta dis fc fa fm now later p path o1 d) \<longleftrightarrow> True"
| "retains h (FlushAll dis fc fa) \<longleftrightarrow> True"
| "retains h (RollupNow dis fr fp now days) \<longleftrightarrow> now - max 1 days * 86400 \<le> h * 3600"
| "retains h (ConfigSnapshot dis f now pid m) \<longleftrightarrow> True"

primrec credited :: "int \<Rightarrow> int \<Rightarrow> stats_event \<Rightarrow> bytes2" where
  "credited h k (ConfigDelta dis fc fa now pid d) = (if \<not> dis \<and> now div 3600 = h \<and> pid = k then d else (0, 0))"
| "credited h k (AppDelta dis fc fa fm now later p path o1 d) = (0, 0)"
| "credited h k (FlushAll dis fc fa) = (0, 0)"
| "credited h k (RollupNow dis fr fp now days) = (0, 0)"
| "credited h k (ConfigSnapshot dis f now pid m) = (0, 0)"

lemma hourly_in_hour: "hourly (in_hour h k)"
  by (auto simp: hourly_def in_hour_def hour_key_def)

lemma in_hour_minute: "in_hour h k (alignMinute now, pid) \<longleftrightarrow> now div 3600 = h \<and> pid = k"
proof -
  have "now div 60 * 60 div 3600 = now div 60 div 60" using div_mult_mult2 [of 60 "now div 60" 60] by simp
  also have "\<dots> = now div 3600" using zdiv_zmult2_eq [of 60 now 60] by simp
  finally show ?thesis by (simp add: in_hour_def alignMinute_def)
qed

lemma alignMinute_pos: "60 \<le> now \<Longrightarrow> alignMinute now \<noteq> 0"
  unfolding alignMinute_def by presburger


text \<open>What the writes of a drained bucket do to the tables.\<close>

lemma guarded_ok: "\<not> tripped r \<Longrightarrow> guarded None body r = (body r)\<lparr>failures := 0\<rparr>"
  by (simp add: guarded_def)

lemma tripped_upserts [simp]:
  "\<not> tripped r \<Longrightarrow> \<not> tripped (UpsertConfigMinuteBatch None rows r)"
  "\<not> tripped r \<Longrightarrow> \<not> tripped (UpsertAppMinuteBatch None rows' r)"
  by (simp_all add: UpsertConfigMinuteBatch_def UpsertAppMinuteBatch_def guarded_ok)

lemma upsert_tables:
  assumes "\<not> tripped r"
  shows "config_minute (UpsertConfigMinuteBatch None rows r) = upsert_batch rows (config_minute r)"
    "config_hour (UpsertConfigMinuteBatch None rows r) = config_hour r"
    "config_minute (UpsertAppMinuteBatch None rows' r) = config_minute r"
    "config_hour (UpsertAppMinuteBatch None rows' r) = config_hour r"
  using assms by (simp_all add: UpsertConfigMinuteBatch_def UpsertAppMinuteBatch_def guarded_ok upsert_batch_def)

lemma write_total:
  assumes "additive f" "\<not> tripped (stats_repo s)"
  shows "row_total f P (config_minute (stats_repo (writeRows None None (rows_of b acc) app s))) =
      row_total f P (config_minute (stats_repo s)) + accum_total f P b acc"
    "config_hour (stats_repo (writeRows None None cfg app s)) = config_hour (stats_repo s)"
    "\<not> tripped (stats_repo (writeRows None None cfg app s))"
  using assms by (simp_all add: writeRows_def upsert_tables row_total_upsert_batch batch_total_rows)

text \<open>Entering a bucket and writing what it drained moves bytes from the accumulator to the table.\<close>

lemma enter_bucket_total:
  assumes "additive f" "fresh_stats s" "b \<noteq> 0" "enter_bucket b s = (cfg, app, s')"
  shows "row_total f P (config_minute (stats_repo (writeRows None None cfg app s'))) + accum_total f P b (configAccum s') =
      row_total f P (config_minute (stats_repo s)) + accum_total f P (currentBucket s) (configAccum s)"
    "stats_repo s' = stats_repo s" "currentBucket s' = b"
proof -
  have nt: "\<not> tripped (stats_repo s)" using assms(2) by (simp add: fresh_stats_def)
  consider "currentBucket s = 0" | "currentBucket s = b" | "currentBucket s \<noteq> 0" "currentBucket s \<noteq> b" by blast
  then have "row_total f P (config_minute (stats_repo (writeRows None None cfg app s'))) + accum_total f P b (configAccum s') =
      row_total f P (config_minute (stats_repo s)) + accum_total f P (currentBucket s) (configAccum s) \<and>
    stats_repo s' = stats_repo s \<and> currentBucket s' = b"
  proof cases
    case 1
    then have "configAccum s = []" using assms(2) by (simp add: fresh_stats_def)
    with 1 show ?thesis using assms(4)
      by (auto simp: enter_bucket_def writeRows_def UpsertConfigMinuteBatch_def UpsertAppMinuteBatch_def)
  next
    case 2
    then show ?thesis using assms(4)
      by (auto simp: enter_bucket_def writeRows_def UpsertConfigMinuteBatch_def UpsertAppMinuteBatch_def)
  next
    case 3
    then show ?thesis using assms(4) nt assms(1)
      by (auto simp: enter_bucket_def drainLocked_def write_total)
  qed
  then show "row_total f P (config_minute (stats_repo (writeRows None None cfg app s'))) + accum_total f P b (configAccum s') =
      row_total f P (config_minute (stats_repo s)) + accum_total f P (currentBucket s) (configAccum s)"
    "stats_repo s' = stats_repo s" "currentBucket s' = b" by blast+
qed

lemma writeRows_parts [simp]:
  "configAccum (writeRows fc fa cfg app s) = configAccum s" "appAccum (writeRows fc fa cfg app s) = appAccum s"
  "currentBucket (writeRows fc fa cfg app s) = currentBucket s"
  "stats_repo (writeRows fc fa cfg app (s\<lparr>configAccum := x\<rparr>)) = stats_repo (writeRows fc fa cfg app s)"
  "stats_repo (writeRows fc fa cfg app (s\<lparr>appAccum := y\<rparr>)) = stats_repo (writeRows fc fa cfg app s)"
  "stats_repo (writeRows fc fa cfg app (s\<lparr>appMetaSeen := z\<rparr>)) = stats_repo (writeRows fc fa cfg app s)"
  by (simp_all add: writeRows_def)

lemma ledger_config_delta:
  assumes "additive f" "fresh_stats s" "60 \<le> now"
  shows "config_hour_total f h k (AddConfigDelta dis None None now pid d s) =
      config_hour_total f h k s + f (credited h k (ConfigDelta dis None None now pid d))"
    "fresh_stats (AddConfigDelta dis None None now pid d s)"
proof -
  obtain cfg app s' where e: "enter_bucket (alignMinute now) s = (cfg, app, s')" by (cases "enter_bucket (alignMinute now) s")
  note b = enter_bucket_total [OF assms(1,2) alignMinute_pos [OF assms(3)] e]
  have nt: "\<not> tripped (stats_repo s)" using assms(2) by (simp add: fresh_stats_def)
  have hour: "config_hour (stats_repo (writeRows None None cfg app s')) = config_hour (stats_repo s)"
    using write_total(2) [OF assms(1), of s'] nt b(2) by simp
  have z: "f (0, 0) = 0" by (rule additive_simps(1) [OF assms(1)])
  show "config_hour_total f h k (AddConfigDelta dis None None now pid d s) =
      config_hour_total f h k s + f (credited h k (ConfigDelta dis None None now pid d))"
  proof (cases "dis \<or> d = (0, 0)")
    case True
    then show ?thesis using z by (auto simp: AddConfigDelta_def)
  next
    case False
    then have "AddConfigDelta dis None None now pid d s =
      writeRows None None cfg app (s'\<lparr>configAccum := accumulate pid d (configAccum s')\<rparr>)"
      using e by (simp add: AddConfigDelta_def)
    moreover have "f (credited h k (ConfigDelta dis None None now pid d)) = (if in_hour h k (alignMinute now, pid) then f d else 0)"
      using False z by (simp add: in_hour_minute)
    ultimately show ?thesis
      using b(1) [of "in_hour h k"] b(3) hour accum_total_accumulate [OF assms(1), of "in_hour h k" "alignMinute now" pid d "configAccum s'"]
      by (simp add: config_hour_total_def)
  qed
  show "fresh_stats (AddConfigDelta dis None None now pid d s)"
  proof (cases "dis \<or> d = (0, 0)")
    case False
    then show ?thesis using e b(2,3) nt alignMinute_pos [OF assms(3)] write_total(3) [OF assms(1), of s' cfg app]
      by (simp add: AddConfigDelta_def fresh_stats_def)
  qed (use assms(2) in \<open>auto simp: AddConfigDelta_def\<close>)
qed

lemma ledger_app_delta:
  assumes "additive f" "fresh_stats s" "60 \<le> now"
  shows "config_hour_total f h k (AddAppDelta dis None None None now later p path o1 d s) = config_hour_total f h k s"
    "fresh_stats (AddAppDelta dis None None None now later p path o1 d s)"
proof -
  obtain cfg app s' where e: "enter_bucket (alignMinute now) s = (cfg, app, s')" by (cases "enter_bucket (alignMinute now) s")
  note b = enter_bucket_total [OF assms(1,2) alignMinute_pos [OF assms(3)] e]
  have nt: "\<not> tripped (stats_repo s)" using assms(2) by (simp add: fresh_stats_def)
  have hour: "config_hour (stats_repo (writeRows None None cfg app s')) = config_hour (stats_repo s)"
    using write_total(2) [OF assms(1), of s'] nt b(2) by simp
  have t: "\<not> tripped (stats_repo (writeRows None None cfg app s'))" using write_total(3) [OF assms(1), of s'] nt b(2) by simp
  have meta: "config_minute (UpsertAppMeta None p path later r) = config_minute r" "config_hour (UpsertAppMeta None p path later r) = config_hour r"
    "tripped (UpsertAppMeta None p path later r) = tripped r" for r
    by (simp_all add: UpsertAppMeta_def guarded_def)
  show "config_hour_total f h k (AddAppDelta dis None None None now later p path o1 d s) = config_hour_total f h k s"
    using b(1) [of "in_hour h k"] b(3) hour e meta by (auto simp: AddAppDelta_def config_hour_total_def Let_def)
  show "fresh_stats (AddAppDelta dis None None None now later p path o1 d s)"
    using b(3) e meta t assms(2) alignMinute_pos [OF assms(3)] by (auto simp: AddAppDelta_def fresh_stats_def Let_def)
qed

lemma ledger_flush:
  assumes "additive f" "fresh_stats s"
  shows "config_hour_total f h k (Flush dis None None s) = config_hour_total f h k s" "fresh_stats (Flush dis None None s)"
proof -
  have nt: "\<not> tripped (stats_repo s)" using assms(2) by (simp add: fresh_stats_def)
  let ?s = "s\<lparr>configAccum := [], appAccum := []\<rparr>"
  let ?w = "writeRows None None (rows_of (currentBucket s) (configAccum s)) (rows_of (currentBucket s) (appAccum s)) ?s"
  have "row_total f (in_hour h k) (config_minute (stats_repo ?w)) =
    row_total f (in_hour h k) (config_minute (stats_repo s)) + accum_total f (in_hour h k) (currentBucket s) (configAccum s)"
    using write_total(1) [OF assms(1), of ?s] nt by simp
  moreover have "config_hour (stats_repo ?w) = config_hour (stats_repo s)" "\<not> tripped (stats_repo ?w)"
    using write_total(2,3) [OF assms(1), of ?s] nt by simp_all
  ultimately show "config_hour_total f h k (Flush dis None None s) = config_hour_total f h k s" "fresh_stats (Flush dis None None s)"
    using assms(2) by (simp_all add: Flush_def drainLocked_def config_hour_total_def fresh_stats_def)
qed

lemma not_older_hour:
  assumes "l \<le> h * 3600"
  shows "row_total f (in_hour h k) (not_older l t) = row_total f (in_hour h k) t"
proof -
  have "in_hour h k (b, j) \<Longrightarrow> \<not> b < l" for b and j :: 'a
  proof -
    assume "in_hour h k (b, j)"
    then have "b div 3600 = h" by (simp add: in_hour_def)
    then have "h * 3600 \<le> b" by presburger
    then show ?thesis using assms by simp
  qed
  then show ?thesis by (induction t) (auto simp: not_older_def)
qed

lemma ledger_rollup:
  assumes "additive f" "fresh_stats s" "now - max 1 days * 86400 \<le> h * 3600"
  shows "config_hour_total f h k (runRollupOnce dis None None now days s) = config_hour_total f h k s"
    "fresh_stats (runRollupOnce dis None None now days s)"
proof -
  have nt: "\<not> tripped (stats_repo s)" using assms(2) by (simp add: fresh_stats_def)
  let ?r = "stats_repo s" and ?l = "now - kMinuteWindowSecs"
  obtain cm ch am ah where t: "rollup_tables ?l (config_minute ?r, config_hour ?r) = (cm, ch)"
    "rollup_tables ?l (app_minute ?r, app_hour ?r) = (am, ah)" by fastforce
  have keep: "now - (if days < 1 then 1 else days) * 86400 \<le> h * 3600" using assms(3) by (simp add: max_def split: if_splits)
  have "row_total f (in_hour h k) cm + row_total f (in_hour h k) (not_older (now - (if days < 1 then 1 else days) * 86400) ch) =
    row_total f (in_hour h k) (config_minute ?r) + row_total f (in_hour h k) (config_hour ?r)"
    unfolding not_older_hour [OF keep] by (rule row_total_rollup [OF assms(1) hourly_in_hour t(1)])
  then show "config_hour_total f h k (runRollupOnce dis None None now days s) = config_hour_total f h k s"
    using nt t by (simp add: runRollupOnce_def RollupMinuteToHour_def PruneHour_def guarded_ok config_hour_total_def Let_def)
  show "fresh_stats (runRollupOnce dis None None now days s)"
    using nt t assms(2) by (simp add: runRollupOnce_def RollupMinuteToHour_def PruneHour_def guarded_ok fresh_stats_def Let_def)
qed

lemma ledger_snapshot:
  assumes "fresh_stats s"
  shows "config_hour_total f h k (SnapshotConfigMeta dis None now pid m s) = config_hour_total f h k s"
    "fresh_stats (SnapshotConfigMeta dis None now pid m s)"
  using assms by (simp_all add: SnapshotConfigMeta_def UpsertConfigMeta_def guarded_ok config_hour_total_def fresh_stats_def)

lemma hour_ledger_step:
  assumes "additive f" "fresh_stats s" "clean_event e" "retains h e"
  shows "config_hour_total f h k (stats_step e s) = config_hour_total f h k s + f (credited h k e) \<and> fresh_stats (stats_step e s)"
  using assms
  by (cases e) (simp_all add: ledger_config_delta ledger_app_delta ledger_flush ledger_rollup ledger_snapshot additive_simps)

lemma hour_ledger_run:
  assumes "additive f" "fresh_stats s" "list_all clean_event es" "list_all (retains h) es"
  shows "config_hour_total f h k (run (\<lambda>s e. stats_step e s) s es) = config_hour_total f h k s + (\<Sum>e\<leftarrow>es. f (credited h k e))"
  using assms(2-4)
proof (induction es arbitrary: s)
  case (Cons e es)
  then show ?case using hour_ledger_step [OF assms(1), of s e h k] by simp
qed simp

definition config_bytes :: "int \<Rightarrow> int \<Rightarrow> stats \<Rightarrow> bytes2" where
  "config_bytes h pid s = (config_hour_total fst h pid s, config_hour_total snd h pid s)"

text \<open>
  C17. The bytes of a profile in an hour are what was there plus what was credited in that hour, whatever deltas,
  flushes, snapshots and rollups followed without an error, as long as the retention reaches the hour.
\<close>

theorem traffic_ledger:
  assumes "list_all clean_event es" "list_all (retains h) es" "\<not> tripped r"
  shows "config_bytes h pid (run (\<lambda>s e. stats_step e s) (empty_stats r) es) =
    plus2 (config_bytes h pid (empty_stats r)) (sum2 (map (credited h pid) es))"
proof -
  have fr: "fresh_stats (empty_stats r)" using assms(3) by (simp add: fresh_stats_def empty_stats_def)
  show ?thesis
    using hour_ledger_run [OF additive_fst fr assms(1,2), of pid] hour_ledger_run [OF additive_snd fr assms(1,2), of pid]
      additive_sum2 [OF additive_fst, of "map (credited h pid) es"] additive_sum2 [OF additive_snd, of "map (credited h pid) es"]
    by (intro prod_eqI) (simp_all add: config_bytes_def plus2_def comp_def)
qed

theorem traffic_ledger_witness:
  "config_bytes 2 1 (run (\<lambda>s e. stats_step e s) (empty_stats empty_repo)
     [ConfigDelta False None None 7205 1 (10, 20), ConfigDelta False None None 7300 1 (1, 2), FlushAll False None None,
      RollupNow False None None 200000 3]) = (11, 22)"
  using traffic_ledger [of "[ConfigDelta False None None 7205 1 (10, 20), ConfigDelta False None None 7300 1 (1, 2),
      FlushAll False None None, RollupNow False None None 200000 3]" 2 empty_repo 1]
  by (simp add: empty_repo_def empty_stats_def config_bytes_def config_hour_total_def sum2_def plus2_def)

end
