(* ===== verification/TrafficRollup.thy ===== *)
theory TrafficRollup
  imports TrafficLedger
begin

text \<open>
  A rollup is invisible to the queries: a window that starts and ends on the hour shows the same usage before and
  after the minutes were folded into their hours, and the migration of an old application table loses no byte.
\<close>

section \<open>Queries and rollups\<close>

lemma set_group_sums:
  "set (group_sums key t) = {(g, sum2 (map snd (filter (\<lambda>r. key (fst r) = g) t))) | g. g \<in> key ` fst ` set t}"
  by (auto simp: group_sums_def image_image)

lemma filter_total: "additive f \<Longrightarrow> f (sum2 (map snd (filter (\<lambda>r. P (fst r)) t))) = row_total f P t"
  by (induction t) (simp_all add: sum2_def additive_simps)

lemma sum2_by_totals:
  assumes "\<And>f. additive f \<Longrightarrow> row_total f P t = row_total f P u"
  shows "sum2 (map snd (filter (\<lambda>r. P (fst r)) t)) = sum2 (map snd (filter (\<lambda>r. P (fst r)) u))"
proof (intro prod_eqI)
  show "fst (sum2 (map snd (filter (\<lambda>r. P (fst r)) t))) = fst (sum2 (map snd (filter (\<lambda>r. P (fst r)) u)))"
    unfolding filter_total [OF additive_fst] by (rule assms [OF additive_fst])
  show "snd (sum2 (map snd (filter (\<lambda>r. P (fst r)) t))) = snd (sum2 (map snd (filter (\<lambda>r. P (fst r)) u)))"
    unfolding filter_total [OF additive_snd] by (rule assms [OF additive_snd])
qed

lemma keys_upsert_row: "fst ` set (upsert_row (b, k, d) t) = insert (b, k) (fst ` set t)"
  by (simp add: upsert_row_def Let_def dom_update)

lemma keys_upsert: "fst ` set (upsert_batch rows t) = fst ` set t \<union> (\<lambda>(b, k, d). (b, k)) ` set rows"
proof (induction rows arbitrary: t)
  case (Cons r rows)
  obtain b k d where "r = (b, k, d)" by (cases r)
  with Cons show ?case by (auto simp: upsert_batch_def keys_upsert_row)
qed (simp add: upsert_batch_def)

lemma keys_sums:
  "(\<lambda>(b, k, d). (b, k)) ` set (map (\<lambda>(bk, d). (fst bk, snd bk, d)) (group_sums key t)) = key ` fst ` set t"
proof -
  have "(\<lambda>(b, k, d). (b, k)) ` set (map (\<lambda>(bk, d). (fst bk, snd bk, d)) (group_sums key t)) = fst ` set (group_sums key t)"
    by (simp add: image_image case_prod_unfold)
  then show ?thesis by (simp add: group_sums_def image_image)
qed

lemma keys_rollup:
  assumes "rollup_tables l (m, h) = (m', h')"
  shows "fst ` set m' \<union> fst ` set h' = fst ` set (not_older l m) \<union> fst ` set h \<union> hour_key ` fst ` set (older l m)"
proof -
  let ?sums = "map (\<lambda>(bk, d). (fst bk, snd bk, d)) (group_sums hour_key (older l m))"
  have "m' = not_older l m" "h' = upsert_batch ?sums h" using assms by (simp_all add: rollup_tables_def Let_def)
  then have "fst ` set m' \<union> fst ` set h' =
    fst ` set (not_older l m) \<union> (fst ` set h \<union> (\<lambda>(b, k, d). (b, k)) ` set ?sums)"
    by (simp only: keys_upsert)
  then show ?thesis unfolding keys_sums Un_assoc .
qed

definition window :: "int \<Rightarrow> int \<Rightarrow> int \<times> 'k \<Rightarrow> bool" where
  "window a b k \<longleftrightarrow> a \<le> fst k \<and> fst k < b"

lemma window_hour:
  assumes "a mod 3600 = 0" "b mod 3600 = 0"
  shows "window a b (hour_key k) = window a b k"
proof -
  obtain x y where xy: "a = x * 3600" "b = y * 3600" using assms by (metis dvd_def mod_0_imp_dvd mult.commute)
  obtain q r where qr: "fst k div 3600 = q" "fst k = 3600 * q + r" "0 \<le> r" "r < 3600"
    using mult_div_mod_eq [of 3600 "fst k"] by (metis pos_mod_bound pos_mod_sign zero_less_numeral)
  have "(x * 3600 \<le> q * 3600) = (x * 3600 \<le> 3600 * q + r)" using qr(3,4) by (cases "x \<le> q"; linarith)
  moreover have "(q * 3600 < y * 3600) = (3600 * q + r < y * 3600)" using qr(3,4) by (cases "q < y"; linarith)
  ultimately have "(x * 3600 \<le> fst k div 3600 * 3600) = (x * 3600 \<le> fst k)" "(fst k div 3600 * 3600 < y * 3600) = (fst k < y * 3600)"
    unfolding qr(1) unfolding qr(2) by blast+
  then have "(a \<le> fst k div 3600 * 3600) = (a \<le> fst k)" "(fst k div 3600 * 3600 < b) = (fst k < b)" unfolding xy .
  then show ?thesis by (simp add: window_def hour_key_def)
qed

lemma image_window:
  assumes "\<And>k. w (hour k) = w k" "\<And>k. key (hour k) = key k"
  shows "key ` {k \<in> A \<union> H \<union> hour ` B. w k} = key ` {k \<in> A \<union> B \<union> H. w k}"
proof -
  have "key ` {k \<in> hour ` B. w k} = key ` {k \<in> B. w k}"
  proof -
    have "{k \<in> hour ` B. w k} = hour ` {k \<in> B. w k}" using assms(1) by auto
    then show ?thesis by (simp add: image_image assms(2))
  qed
  moreover have "{k \<in> C \<union> D. w k} = {k \<in> C. w k} \<union> {k \<in> D. w k}" for C D by blast
  ultimately show ?thesis by (simp only: image_Un Un_ac)
qed

lemma rollup_group_sums:
  assumes "rollup_tables l (m, h) = (m', h')" "a mod 3600 = 0" "b mod 3600 = 0" "\<And>k. key (hour_key k) = key k"
  shows "set (group_sums key (within a b m' @ within a b h')) = set (group_sums key (within a b m @ within a b h))"
proof -
  let ?old = "within a b m @ within a b h" and ?new = "within a b m' @ within a b h'"
  have w: "filter (\<lambda>r. key (fst r) = g) (within a b t) = filter (\<lambda>r. (\<lambda>k. window a b k \<and> key k = g) (fst r)) t" for g t
    by (simp add: within_def window_def conj_commute)
  have sums: "sum2 (map snd (filter (\<lambda>r. key (fst r) = g) ?new)) = sum2 (map snd (filter (\<lambda>r. key (fst r) = g) ?old))" for g
  proof -
    have "sum2 (map snd (filter (\<lambda>r. (\<lambda>k. window a b k \<and> key k = g) (fst r)) (m' @ h'))) =
      sum2 (map snd (filter (\<lambda>r. (\<lambda>k. window a b k \<and> key k = g) (fst r)) (m @ h)))"
    proof (rule sum2_by_totals)
      fix f assume "additive f"
      moreover have "hourly (\<lambda>k. window a b k \<and> key k = g)"
        unfolding hourly_def window_hour [OF assms(2,3)] assms(4) by blast
      ultimately show "row_total f (\<lambda>k. window a b k \<and> key k = g) (m' @ h') = row_total f (\<lambda>k. window a b k \<and> key k = g) (m @ h)"
        using row_total_rollup [OF _ _ assms(1)] by simp
    qed
    then show ?thesis using w by simp
  qed
  have in_win: "fst ` set (within a b t) = {k \<in> fst ` set t. window a b k}" for t :: "'a table"
    by (auto simp: within_def window_def)
  have split: "fst ` set m = fst ` set (not_older l m) \<union> fst ` set (older l m)"
    by (auto simp: not_older_def older_def)
  have "fst ` set ?new = {k \<in> fst ` set m' \<union> fst ` set h'. window a b k}" by (auto simp: image_Un in_win)
  also have "key ` \<dots> = key ` {k \<in> fst ` set m \<union> fst ` set h. window a b k}"
    unfolding keys_rollup [OF assms(1)] split by (rule image_window) (rule window_hour [OF assms(2,3)], rule assms(4))
  also have "{k \<in> fst ` set m \<union> fst ` set h. window a b k} = fst ` set ?old" by (auto simp: image_Un in_win)
  finally have "key ` fst ` set ?new = key ` fst ` set ?old" .
  then show ?thesis unfolding set_group_sums sums by simp
qed

text \<open>
  C20. The usage of a window of whole hours is the same before and after a rollup, whether it succeeds or fails.
\<close>

theorem rollup_keeps_usage:
  assumes "a mod 3600 = 0" "b mod 3600 = 0"
  shows "set (config_usage a b (RollupMinuteToHour fault limit r)) = set (config_usage a b r)"
proof -
  obtain cm ch am ah where t: "rollup_tables limit (config_minute r, config_hour r) = (cm, ch)"
    "rollup_tables limit (app_minute r, app_hour r) = (am, ah)" by fastforce
  have "snd (hour_key k) = snd k" for k :: "int \<times> int" by (simp add: hour_key_def)
  then have "set (group_sums snd (within a b cm @ within a b ch)) =
    set (group_sums snd (within a b (config_minute r) @ within a b (config_hour r)))"
    using rollup_group_sums [OF t(1) assms, of snd] by blast
  then show ?thesis using t
    by (auto simp: config_usage_def RollupMinuteToHour_def guarded_def Let_def split: option.split)
qed

theorem rollup_keeps_usage_witness:
  "set (config_usage 3600 7200 (RollupMinuteToHour None 7000
     (empty_repo\<lparr>config_minute := [((3600, 1), (5, 6)), ((3660, 1), (1, 1))]\<rparr>))) = {(1, (6, 7))}"
  unfolding rollup_keeps_usage [of 3600 7200, simplified]
  by (simp add: config_usage_def within_def group_sums_def sum2_def plus2_def empty_repo_def)

lemma app_usage_rollup:
  assumes "a mod 3600 = 0" "b mod 3600 = 0"
  shows "set (group_sums (\<lambda>k. fst (snd k)) (within a b (app_minute (RollupMinuteToHour fault limit r)) @
      within a b (app_hour (RollupMinuteToHour fault limit r)))) =
    set (group_sums (\<lambda>k. fst (snd k)) (within a b (app_minute r) @ within a b (app_hour r)))"
proof -
  obtain cm ch am ah where t: "rollup_tables limit (config_minute r, config_hour r) = (cm, ch)"
    "rollup_tables limit (app_minute r, app_hour r) = (am, ah)" by fastforce
  have "set (group_sums (\<lambda>k. fst (snd k)) (within a b am @ within a b ah)) =
    set (group_sums (\<lambda>k. fst (snd k)) (within a b (app_minute r) @ within a b (app_hour r)))"
    by (rule rollup_group_sums [OF t(2) assms]) (simp add: hour_key_def)
  then show ?thesis using t by (simp add: RollupMinuteToHour_def guarded_def Let_def split: option.split)
qed

lemma migrate_total:
  "row_total f (\<lambda>k. P (fst k, fst (snd k))) (migrateAppOutbound (PreOutbound rows)) = row_total f P rows"
  by (induction rows) (simp_all add: migrateAppOutbound_def split: prod.split)

lemma migrate_ok: "hash_ok rows \<Longrightarrow> hash_ok (migrateAppOutbound (PreOutbound rows))"
  by (induction rows) (auto simp: migrateAppOutbound_def image_iff)

end
