(* ===== verification/TrafficLooper.thy ===== *)
theory TrafficLooper
  imports Complex_Main TrafficStats "HOL-Library.Monad_Syntax"
begin

text \<open>
  The poller of \<^verbatim>\<open>src/stats/traffic/TrafficLooper.cpp\<close>, which reads the byte counters of the core every half second,
  credits them to the profiles and to the statistics and draws one graph line per outbound, and the step of
  \<^verbatim>\<open>src/configs/generate.cpp\<close> that gives an auto selector its groups. A profile is an object (\<open>cp_ref\<close>) with an id, and
  \<open>counters\<close> holds the byte counters of the objects. \<open>None\<close> is the crash of a null pointer, an index out of range or
  \<^verbatim>\<open>std::map::at\<close>; rates are exact rationals, with \<open>None\<close> for the not-a-number of the source.
\<close>

section \<open>Groups and lines\<close>

record credit_profile =
  cp_ref :: nat
  cp_id :: int

datatype chain_kind = ChainMain | ChainRoute | ChainAux

record chain_group =
  watchTag :: qstring
  cg_profiles :: "credit_profile option list"
  cg_kind :: chain_kind
  cg_profileId :: int
  cg_name :: qstring

datatype line_kind = LineProxy | LineRoute | LineAux | LineOther | LineDirect

record traffic_line =
  tl_key :: qstring
  tl_name :: qstring
  tl_kind :: line_kind

record looper_group =
  lg_tag :: qstring
  lg_profiles :: "credit_profile option list"
  lg_line :: nat
  lg_dirty :: bool

record rate_probe =
  durationMs :: int
  probe_bytes :: "int list"

record looper =
  looper_groups :: "looper_group list"
  lines :: "traffic_line list"
  creditedIds :: "int list"
  rateWindow :: "rate_probe list"
  lastProbeMs :: int
  counters :: "(nat, bytes2) qhash"

definition kTrafficLooperProbeIntervalMs :: int where "kTrafficLooperProbeIntervalMs = 500"
definition kTrafficLooperEmitIntervalMs :: int where "kTrafficLooperEmitIntervalMs = 1000"
definition kTrafficLooperSaveIntervalMs :: int where "kTrafficLooperSaveIntervalMs = 10000"
definition kTrafficLooperGapMs :: int where "kTrafficLooperGapMs = 2000"
definition kTrafficLooperRateWindowProbes :: nat where "kTrafficLooperRateWindowProbes = 3"
definition kTrafficLooperMaxExtraLines :: nat where "kTrafficLooperMaxExtraLines = 4"

definition lineKey :: "chain_group \<Rightarrow> qstring" where
  "lineKey g =
     (if cg_profileId g < 0 then []
      else case cg_kind g of
             ChainRoute \<Rightarrow> lit ''route:'' @ lit (show_int (cg_profileId g))
           | ChainAux \<Rightarrow> lit ''aux:'' @ lit (show_int (cg_profileId g))
           | ChainMain \<Rightarrow> [])"

text \<open>The first loop of \<^verbatim>\<open>SetChainGroups\<close>: the groups, their keys and the extra lines in order of appearance.\<close>

record collected =
  newGroups :: "looper_group list"
  groupKeys :: "qstring list"
  extras :: "traffic_line list"
  extraKeys :: "qstring list"

definition collect_group :: "chain_group \<Rightarrow> collected \<Rightarrow> collected" where
  "collect_group g c =
     (if watchTag g = [] \<or> cg_profiles g = [] then c
      else
        (let key = lineKey g;
             c = c\<lparr>newGroups := newGroups c @
                     [\<lparr>lg_tag = watchTag g, lg_profiles = cg_profiles g, lg_line = 0, lg_dirty = False\<rparr>],
                   groupKeys := groupKeys c @ [key]\<rparr>
         in if key = [] \<or> key \<in> set (extraKeys c) then c
            else c\<lparr>extraKeys := key # extraKeys c,
                   extras := extras c @
                     [\<lparr>tl_key = key, tl_name = cg_name g, tl_kind = (if cg_kind g = ChainRoute then LineRoute else LineAux)\<rparr>]\<rparr>))"

definition collect_groups :: "chain_group list \<Rightarrow> collected" where
  "collect_groups gs = foldl (\<lambda>c g. collect_group g c) \<lparr>newGroups = [], groupKeys = [], extras = [], extraKeys = []\<rparr> gs"

definition own_lines :: "traffic_line list \<Rightarrow> nat" where
  "own_lines extra =
     (if length extra \<le> kTrafficLooperMaxExtraLines then length extra else kTrafficLooperMaxExtraLines - 1)"

text \<open>The second loop: the first extras get lines of their own, the rest share the line of the others. \<open>tr\<close> translates.\<close>

definition place_line ::
  "(qstring \<Rightarrow> qstring) \<Rightarrow> nat \<Rightarrow> nat \<times> traffic_line \<Rightarrow> traffic_line list \<times> (qstring, nat) qhash
     \<Rightarrow> traffic_line list \<times> (qstring, nat) qhash" where
  "place_line tr own ie st =
     (let (i, e) = ie; (ls, lineOf) = st
      in if i < own then (ls @ [e], AList.update (tl_key e) (length ls) lineOf)
         else
           (let ls = (if i = own
                      then ls @ [\<lparr>tl_key = lit ''other'', tl_name = tr (lit ''Other outbounds''), tl_kind = LineOther\<rparr>]
                      else ls)
            in (ls, AList.update (tl_key e) (length ls - 1) lineOf)))"

definition place_lines :: "(qstring \<Rightarrow> qstring) \<Rightarrow> traffic_line list \<Rightarrow> traffic_line list \<times> (qstring, nat) qhash" where
  "place_lines tr extra =
     foldl (\<lambda>st ie. place_line tr (own_lines extra) ie st)
       ([\<lparr>tl_key = lit ''proxy'', tl_name = tr (lit ''Proxy''), tl_kind = LineProxy\<rparr>], []) (enumerate 0 extra)"

text \<open>The profiles that are not null and have an id, each id once: the loop the source writes three times.\<close>

fun first_profiles :: "int list \<Rightarrow> credit_profile option list \<Rightarrow> credit_profile list" where
  "first_profiles seen [] = []"
| "first_profiles seen (None # ps) = first_profiles seen ps"
| "first_profiles seen (Some p # ps) =
     (if cp_id p < 0 \<or> cp_id p \<in> set seen then first_profiles seen ps
      else p # first_profiles (cp_id p # seen) ps)"

definition group_profiles :: "looper_group list \<Rightarrow> credit_profile list" where
  "group_profiles gs = first_profiles [] (concat (map lg_profiles gs))"

definition SetChainGroups :: "(qstring \<Rightarrow> qstring) \<Rightarrow> int \<Rightarrow> chain_group list \<Rightarrow> looper \<Rightarrow> looper" where
  "SetChainGroups tr now configGroups s =
     (let c = collect_groups configGroups;
          (ls, lineOf) = place_lines tr (extras c);
          newLines = ls @ [\<lparr>tl_key = lit ''direct'', tl_name = tr (lit ''Direct''), tl_kind = LineDirect\<rparr>];
          gs = map2 (\<lambda>g key. g\<lparr>lg_line := hash_value lineOf key 0\<rparr>) (newGroups c) (groupKeys c)
      in s\<lparr>looper_groups := gs, lines := newLines, creditedIds := map cp_id (group_profiles gs),
           rateWindow := [], lastProbeMs := now\<rparr>)"

text \<open>The calls of the statistics that follow \<^verbatim>\<open>SetChainGroups\<close>: the metadata of the direct egress and of every profile, \<open>meta\<close>.\<close>

definition snapshot_calls ::
  "bool \<Rightarrow> (int \<Rightarrow> fault) \<Rightarrow> int \<Rightarrow> (credit_profile \<Rightarrow> config_meta) \<Rightarrow> looper \<Rightarrow> stats \<Rightarrow> stats" where
  "snapshot_calls disabled fault now meta s st =
     foldl (\<lambda>st p. SnapshotConfigMeta disabled (fault (cp_id p)) now (cp_id p) (meta p) st)
       (EnsureDirectMeta disabled (fault kDirectStatProfileId) now st) (group_profiles (looper_groups s))"

section \<open>A probe\<close>

record stats_resp =
  ups :: "(qstring, int) qhash"
  downs :: "(qstring, int) qhash"

text \<open>The calls of \<^verbatim>\<open>AddConfigDelta\<close> that a probe makes, in order.\<close>

type_synonym delta_calls = "(int \<times> bytes2) list"

definition add_at :: "nat \<Rightarrow> int \<Rightarrow> int list \<Rightarrow> int list option" where
  "add_at i v bs = (if i < length bs then Some (bs[i := bs ! i + v]) else None)"

fun credit_all ::
  "bytes2 \<Rightarrow> credit_profile option list \<Rightarrow> (nat, bytes2) qhash \<Rightarrow> ((nat, bytes2) qhash \<times> delta_calls) option" where
  "credit_all d [] cs = Some (cs, [])"
| "credit_all d (None # ps) cs = None"
| "credit_all d (Some p # ps) cs =
     do { (cs', calls) \<leftarrow> credit_all d ps (AList.update (cp_ref p) (plus2 (hash_value cs (cp_ref p) (0, 0)) d) cs);
          Some (cs', (cp_id p, d) # calls) }"

definition update_group ::
  "stats_resp \<Rightarrow> looper_group \<Rightarrow> int list \<Rightarrow> (nat, bytes2) qhash
     \<Rightarrow> (looper_group \<times> int list \<times> (nat, bytes2) qhash \<times> delta_calls) option" where
  "update_group resp g bs cs =
     (case map_of (ups resp) (lg_tag g) of
        None \<Rightarrow> Some (g, bs, cs, [])
      | Some up \<Rightarrow>
          do { down \<leftarrow> map_of (downs resp) (lg_tag g);
               (g, cs, calls) \<leftarrow>
                 (if up \<noteq> 0 \<or> down \<noteq> 0
                  then do { (cs', calls) \<leftarrow> credit_all (up, down) (lg_profiles g) cs; Some (g\<lparr>lg_dirty := True\<rparr>, cs', calls) }
                  else Some (g, cs, []));
               bs \<leftarrow> add_at (lg_line g * 2) down bs;
               bs \<leftarrow> add_at (lg_line g * 2 + 1) up bs;
               Some (g, bs, cs, calls) })"

fun update_groups ::
  "stats_resp \<Rightarrow> looper_group list \<Rightarrow> int list \<Rightarrow> (nat, bytes2) qhash
     \<Rightarrow> (looper_group list \<times> int list \<times> (nat, bytes2) qhash \<times> delta_calls) option" where
  "update_groups resp [] bs cs = Some ([], bs, cs, [])"
| "update_groups resp (g # gs) bs cs =
     do { (g, bs, cs, calls) \<leftarrow> update_group resp g bs cs;
          (gs, bs, cs, more) \<leftarrow> update_groups resp gs bs cs;
          Some (g # gs, bs, cs, calls @ more) }"

text \<open>The direct egress: its call, and the last two bytes of the probe.\<close>

definition update_direct :: "stats_resp \<Rightarrow> int list \<Rightarrow> (int list \<times> delta_calls) option" where
  "update_direct resp bs =
     (case map_of (ups resp) (lit ''direct'') of
        None \<Rightarrow> Some (bs, [])
      | Some up \<Rightarrow>
          do { down \<leftarrow> map_of (downs resp) (lit ''direct'');
               bs \<leftarrow> (if bs = [] then Some bs
                     else do { bs \<leftarrow> add_at (length bs - 2) down bs; add_at (length bs - 1) up bs });
               Some (bs, [(kDirectStatProfileId, (up, down))]) })"

text \<open>\<open>disabled\<close> is the setting that turns the traffic display off; \<open>now\<close> is the monotonic clock.\<close>

definition UpdateAll :: "bool \<Rightarrow> stats_resp \<Rightarrow> int \<Rightarrow> looper \<Rightarrow> (looper \<times> delta_calls) option" where
  "UpdateAll disabled resp now s =
     (if disabled then Some (s, [])
      else
        (let duration = (if 0 < lastProbeMs s then now - lastProbeMs s else 0);
             window = (if kTrafficLooperGapMs < duration then [] else rateWindow s)
         in do { (gs, bs, cs, calls) \<leftarrow> update_groups resp (looper_groups s) (replicate (length (lines s) * 2) 0) (counters s);
                 (bs, more) \<leftarrow> update_direct resp bs;
                 let window' = (if duration \<le> 0 \<or> kTrafficLooperGapMs < duration then window
                                else (let w = window @ [\<lparr>durationMs = duration, probe_bytes = bs\<rparr>]
                                      in drop (length w - kTrafficLooperRateWindowProbes) w));
                 Some (s\<lparr>looper_groups := gs, counters := cs, lastProbeMs := now, rateWindow := window'\<rparr>, calls @ more) }))"

section \<open>Rates\<close>

type_synonym rate = "rat option"

text \<open>One probe is added to the acc by index; an index past its bytes is a crash.\<close>

definition add_probe :: "int list \<Rightarrow> rate_probe \<Rightarrow> int list option" where
  "add_probe acc p = (if length acc \<le> length (probe_bytes p) then Some (map2 (+) acc (probe_bytes p)) else None)"

fun window_sums :: "int list \<Rightarrow> rate_probe list \<Rightarrow> int list option" where
  "window_sums acc [] = Some acc"
| "window_sums acc (p # ps) = do { acc \<leftarrow> add_probe acc p; window_sums acc ps }"

definition WindowRates :: "looper \<Rightarrow> rate list option" where
  "WindowRates s =
     do { acc \<leftarrow> window_sums (replicate (length (lines s) * 2) 0) (rateWindow s);
          let windowMs = sum_list (map durationMs (rateWindow s));
          Some (if windowMs \<le> 0 then replicate (length (lines s) * 2) None
                else map (\<lambda>b. Some (of_int b * 1000 / of_int windowMs)) acc) }"

text \<open>The rates of the proxied lines together and of the direct line, lines without a rate left out.\<close>

definition line_rate :: "rate list \<Rightarrow> nat \<Rightarrow> rat \<times> rat" where
  "line_rate values line =
     (case (values ! (line * 2), values ! (line * 2 + 1)) of (Some d, Some u) \<Rightarrow> (d, u) | _ \<Rightarrow> (0, 0))"

definition display_rates :: "rate list \<Rightarrow> nat \<Rightarrow> (rat \<times> rat) \<times> (rat \<times> rat)" where
  "display_rates values n =
     ((sum_list (map (\<lambda>l. fst (line_rate values l)) [0..<n - 1]), sum_list (map (\<lambda>l. snd (line_rate values l)) [0..<n - 1])),
      line_rate values (n - 1))"

section \<open>Saving\<close>

text \<open>The profiles handed to the database, and the groups clean again.\<close>

definition PersistTraffic :: "looper \<Rightarrow> credit_profile list \<times> looper" where
  "PersistTraffic s =
     (group_profiles (filter lg_dirty (looper_groups s)),
      s\<lparr>looper_groups := map (\<lambda>g. g\<lparr>lg_dirty := False\<rparr>) (looper_groups s)\<rparr>)"

section \<open>The loop\<close>

text \<open>The entries \<^verbatim>\<open>proxy\<close> and \<^verbatim>\<open>direct\<close>, null until the first configuration.\<close>

record looper_entry =
  entry_tag :: qstring
  downlink_rate :: rat
  uplink_rate :: rat

record loop_state =
  the_looper :: looper
  proxy_entry :: "looper_entry option"
  direct_entry :: "looper_entry option"
  looping :: bool
  lastEmitMs :: int
  lastPersistMs :: int

datatype sink_call =
    onTrafficStopped
  | EmptySample int
  | TrafficSample int "rate list" "rat \<times> rat" "rat \<times> rat" "int list"

definition restart_groups :: "(qstring \<Rightarrow> qstring) \<Rightarrow> int \<Rightarrow> chain_group list \<Rightarrow> loop_state \<Rightarrow> loop_state" where
  "restart_groups tr now gs ls =
     ls\<lparr>the_looper := SetChainGroups tr now gs (the_looper ls),
        proxy_entry := Some \<lparr>entry_tag = lit ''proxy'', downlink_rate = 0, uplink_rate = 0\<rparr>,
        direct_entry := Some \<lparr>entry_tag = lit ''direct'', downlink_rate = 0, uplink_rate = 0\<rparr>\<rparr>"

definition set_rates :: "rat \<times> rat \<Rightarrow> looper_entry \<Rightarrow> looper_entry" where
  "set_rates r e = e\<lparr>downlink_rate := fst r, uplink_rate := snd r\<rparr>"

definition emitDue :: "int \<Rightarrow> loop_state \<Rightarrow> bool \<times> loop_state" where
  "emitDue now ls =
     (if now - lastEmitMs ls < kTrafficLooperEmitIntervalMs - kTrafficLooperProbeIntervalMs div 2 then (False, ls)
      else (True, ls\<lparr>lastEmitMs := now\<rparr>))"

text \<open>
  One pass of the endless loop after its sleep: \<open>t1\<close> is the clock of the probe, \<open>t2\<close> the clock after it. The result is
  the calls of the sink, the calls of the statistics and the profiles saved.
\<close>

definition loop_pass ::
  "bool \<Rightarrow> bool \<Rightarrow> stats_resp \<Rightarrow> int \<Rightarrow> int \<Rightarrow> loop_state
     \<Rightarrow> (sink_call list \<times> delta_calls \<times> credit_profile list \<times> loop_state) option" where
  "loop_pass disabled enabled resp t1 t2 ls =
     (if disabled then Some ([], [], [], ls)
      else if \<not> enabled then
        (let stopped = (if looping ls then [onTrafficStopped] else []);
             ls = ls\<lparr>the_looper := (the_looper ls)\<lparr>rateWindow := []\<rparr>, looping := False,
                     proxy_entry := map_option (set_rates (0, 0)) (proxy_entry ls),
                     direct_entry := map_option (set_rates (0, 0)) (direct_entry ls)\<rparr>;
             (due, ls) = emitDue t2 ls
         in Some (stopped @ (if due then [EmptySample t2] else []), [], [], ls))
      else
        do { (lp, calls) \<leftarrow> UpdateAll disabled resp t1 (the_looper ls);
             let (due, ls) = (if lines lp = [] then (False, ls) else emitDue t2 ls);
             (ls, samples) \<leftarrow>
               (if due then do { values \<leftarrow> WindowRates lp;
                                 let (proxied, direct) = display_rates values (length (lines lp));
                                 p \<leftarrow> proxy_entry ls;
                                 d \<leftarrow> direct_entry ls;
                                 Some (ls\<lparr>proxy_entry := Some (set_rates proxied p), direct_entry := Some (set_rates direct d)\<rparr>,
                                       [TrafficSample t2 values proxied direct (creditedIds lp)]) }
                else Some (ls, []));
             let (saved, lp, persistedMs) =
               (if kTrafficLooperSaveIntervalMs \<le> t2 - lastPersistMs ls
                then (let (saved, lp) = PersistTraffic lp in (saved, lp, t2)) else ([], lp, lastPersistMs ls));
             Some (samples, calls, saved, ls\<lparr>the_looper := lp, looping := True, lastPersistMs := persistedMs\<rparr>) })"

section \<open>The groups of an auto selector\<close>

text \<open>
  One member of the pool: the group of its chain, if it has one, and then the selector joins the last group. With a
  wrapper in front the groups of the members become one, watched at the tag of the proxy.
\<close>

definition append_last :: "credit_profile \<Rightarrow> chain_group list \<Rightarrow> chain_group list" where
  "append_last p gs =
     (if gs = [] then [] else butlast gs @ [(last gs)\<lparr>cg_profiles := cg_profiles (last gs) @ [Some p]\<rparr>])"

definition member_group :: "credit_profile \<Rightarrow> chain_group option \<Rightarrow> chain_group list \<Rightarrow> chain_group list" where
  "member_group selector g gs = append_last selector (gs @ (case g of None \<Rightarrow> [] | Some g \<Rightarrow> [g]))"

definition wrap_groups :: "nat \<Rightarrow> chain_group list \<Rightarrow> chain_group list" where
  "wrap_groups before gs =
     take before gs @
       [\<lparr>watchTag = lit ''proxy'', cg_profiles = concat (map cg_profiles (rev (drop before gs))), cg_kind = ChainMain,
         cg_profileId = - 1, cg_name = []\<rparr>]"

definition selector_groups :: "bool \<Rightarrow> credit_profile \<Rightarrow> chain_group option list \<Rightarrow> chain_group list \<Rightarrow> chain_group list" where
  "selector_groups warpWrap selector members gs =
     (let gs' = foldl (\<lambda>gs g. member_group selector g gs) gs members
      in if warpWrap then wrap_groups (length gs) gs' else gs')"

end
