(* ===== verification/TrafficLines.thy ===== *)
theory TrafficLines
  imports TrafficLooper
begin

text \<open>
  The layout of the graph: the lines are the proxy, at most four extras (or three and a shared one) and the direct
  egress, and every group is drawn on the line of its key.
\<close>

section \<open>The layout of the lines\<close>

text \<open>What \<open>place_lines\<close> computes: the own lines in order, then the shared line, when there are more.\<close>

definition line_number :: "nat \<Rightarrow> nat \<Rightarrow> nat" where
  "line_number own i = (if i < own then Suc i else Suc own)"

lemma place_lines_prefix:
  assumes "distinct (map tl_key extra)"
  shows "\<exists>ls lineOf.
    foldl (\<lambda>st ie. place_line tr own ie st) ([p], []) (enumerate 0 extra) = (ls, lineOf) \<and>
    map tl_key ls = tl_key p # map tl_key (take own extra) @ (if own < length extra then [lit ''other''] else []) \<and>
    (\<forall>i < length extra. map_of lineOf (tl_key (extra ! i)) = Some (line_number own i)) \<and>
    fst ` set lineOf = tl_key ` set extra"
  using assms
proof (induction extra rule: rev_induct)
  case Nil
  then show ?case by simp
next
  case (snoc e es)
  then obtain ls lineOf where ih:
    "foldl (\<lambda>st ie. place_line tr own ie st) ([p], []) (enumerate 0 es) = (ls, lineOf)"
    "map tl_key ls = tl_key p # map tl_key (take own es) @ (if own < length es then [lit ''other''] else [])"
    "\<forall>i < length es. map_of lineOf (tl_key (es ! i)) = Some (line_number own i)"
    "fst ` set lineOf = tl_key ` set es" by auto
  have len: "length ls = Suc (min (length es) own) + (if own < length es then 1 else 0)"
    using arg_cong [OF ih(2), of length] by simp
  obtain ls' lineOf' where step: "place_line tr own (length es, e) (ls, lineOf) = (ls', lineOf')" by fastforce
  have "map tl_key ls' = tl_key p # map tl_key (take own (es @ [e])) @ (if own < length (es @ [e]) then [lit ''other''] else [])"
    using step ih(2) by (auto simp: place_line_def Let_def split: if_splits)
  moreover have new: "lineOf' = AList.update (tl_key e) (line_number own (length es)) lineOf"
    using step len by (auto simp: place_line_def Let_def line_number_def split: if_splits)
  moreover have "map_of lineOf' (tl_key ((es @ [e]) ! i)) = Some (line_number own i)" if "i < length (es @ [e])" for i
  proof (cases "i = length es")
    case False
    then have i: "i < length es" using that by simp
    have "tl_key (es ! i) \<in> tl_key ` set es" "tl_key e \<notin> tl_key ` set es" using snoc.prems imageI [OF nth_mem [OF i]] by simp_all
    then have "tl_key (es ! i) \<noteq> tl_key e" by metis
    then show ?thesis using ih(3) i by (simp add: new nth_append)
  qed (simp add: new nth_append)
  moreover have "fst ` set lineOf' = tl_key ` set (es @ [e])" by (simp add: new dom_update ih(4))
  ultimately show ?case using ih(1) step by (simp add: enumerate_append_eq)
qed


section \<open>The groups collected\<close>

definition collected_ok :: "collected \<Rightarrow> bool" where
  "collected_ok c \<longleftrightarrow> length (groupKeys c) = length (newGroups c) \<and> distinct (map tl_key (extras c)) \<and>
     set (extraKeys c) = tl_key ` set (extras c) \<and> set (groupKeys c) - {[]} = tl_key ` set (extras c) \<and> [] \<notin> tl_key ` set (extras c)"

lemma collect_group_ok:
  assumes "collected_ok c"
  shows "collected_ok (collect_group g c)"
proof -
  note ok = assms [unfolded collected_ok_def]
  consider "watchTag g = [] \<or> cg_profiles g = []"
    | "\<not> (watchTag g = [] \<or> cg_profiles g = [])" "lineKey g = [] \<or> lineKey g \<in> set (extraKeys c)"
    | "\<not> (watchTag g = [] \<or> cg_profiles g = [])" "lineKey g \<noteq> []" "lineKey g \<notin> set (extraKeys c)" by blast
  then show ?thesis
  proof cases
    case 1
    then show ?thesis using assms by (simp add: collect_group_def)
  next
    case 2
    then show ?thesis using ok by (auto simp: collect_group_def collected_ok_def Let_def)
  next
    case 3
    then show ?thesis using ok by (simp add: collect_group_def collected_ok_def Let_def insert_Diff_if)
  qed
qed

text \<open>The profiles of a group are those of one configured chain.\<close>

lemma collect_group_profiles:
  "lg_profiles ` set (newGroups (collect_group g c)) \<subseteq> insert (cg_profiles g) (lg_profiles ` set (newGroups c))"
  by (auto simp: collect_group_def Let_def)

lemma collect_groups_ok:
  "collected_ok (collect_groups gs)" "lg_profiles ` set (newGroups (collect_groups gs)) \<subseteq> cg_profiles ` set gs"
proof -
  have "collected_ok c \<Longrightarrow> collected_ok (foldl (\<lambda>c g. collect_group g c) c gs)" for c
    by (induction gs arbitrary: c) (simp_all add: collect_group_ok)
  then show "collected_ok (collect_groups gs)" by (simp add: collect_groups_def collected_ok_def)
  have f: "lg_profiles ` set (newGroups (foldl (\<lambda>c g. collect_group g c) c gs)) \<subseteq>
    cg_profiles ` set gs \<union> lg_profiles ` set (newGroups c)" for c
  proof (induction gs arbitrary: c)
    case (Cons g gs)
    from order_trans [OF Cons.IH [of "collect_group g c"] Un_mono [OF subset_refl collect_group_profiles [of g c]]]
    show ?case by simp
  qed simp
  then show "lg_profiles ` set (newGroups (collect_groups gs)) \<subseteq> cg_profiles ` set gs"
    using f [of "\<lparr>newGroups = [], groupKeys = [], extras = [], extraKeys = []\<rparr>"] by (simp add: collect_groups_def)
qed

section \<open>Where the groups are drawn\<close>

definition line_of_key :: "traffic_line list \<Rightarrow> qstring \<Rightarrow> qstring" where
  "line_of_key extra key =
     (if key = [] then lit ''proxy'' else if key \<in> tl_key ` set (take (own_lines extra) extra) then key else lit ''other'')"

lemma place_lines_key:
  assumes "distinct (map tl_key extra)" "[] \<notin> tl_key ` set extra" "key = [] \<or> key \<in> tl_key ` set extra"
    "place_lines tr extra = (ls, lineOf)"
  shows "hash_value lineOf key 0 < length ls" "tl_key (ls ! hash_value lineOf key 0) = line_of_key extra key" "length ls \<le> 5"
proof -
  let ?own = "own_lines extra"
  have keys: "map tl_key ls = lit ''proxy'' # map tl_key (take ?own extra) @ (if ?own < length extra then [lit ''other''] else [])"
    and at: "\<And>i. i < length extra \<Longrightarrow> map_of lineOf (tl_key (extra ! i)) = Some (line_number ?own i)"
    and dom: "fst ` set lineOf = tl_key ` set extra"
    using place_lines_prefix [OF assms(1), of tr ?own "\<lparr>tl_key = lit ''proxy'', tl_name = tr (lit ''Proxy''), tl_kind = LineProxy\<rparr>"]
      assms(4) by (auto simp: place_lines_def)
  have own: "?own \<le> length extra" "?own \<le> 4" "?own < length extra \<Longrightarrow> ?own = 3"
    by (auto simp: own_lines_def kTrafficLooperMaxExtraLines_def)
  have len: "length ls = Suc ?own + (if ?own < length extra then 1 else 0)"
    using arg_cong [OF keys, of length] own(1) by simp
  show "length ls \<le> 5" using len own by (cases "?own < length extra") simp_all
  have "hash_value lineOf key 0 < length ls \<and> map tl_key ls ! hash_value lineOf key 0 = line_of_key extra key"
  proof (cases "key = []")
    case True
    then have "map_of lineOf key = None" using assms(2) dom by (simp add: map_of_eq_None_iff)
    then show ?thesis using True len by (simp add: keys line_of_key_def)
  next
    case False
    then obtain i where i: "i < length extra" "key = tl_key (extra ! i)" using assms(3) by (auto simp: in_set_conv_nth)
    have own_key: "key \<in> tl_key ` set (take ?own extra) \<longleftrightarrow> i < ?own"
    proof
      assume "key \<in> tl_key ` set (take ?own extra)"
      then obtain j where j: "j < ?own" "j < length extra" "tl_key (extra ! j) = key" by (auto simp: in_set_conv_nth)
      then have "i = j" using assms(1) i by (auto simp: distinct_conv_nth)
      then show "i < ?own" using j by simp
    next
      assume "i < ?own"
      then have "extra ! i \<in> set (take ?own extra)" using i by (auto simp: in_set_conv_nth intro!: exI [of _ i])
      then show "key \<in> tl_key ` set (take ?own extra)" using i by simp
    qed
    show ?thesis using at [OF i(1)] i False own_key len own
      by (auto simp: keys line_of_key_def line_number_def nth_append)
  qed
  then show "hash_value lineOf key 0 < length ls" "tl_key (ls ! hash_value lineOf key 0) = line_of_key extra key"
    by (blast, metis nth_map)
qed

text \<open>
  Every group is drawn on a line of the graph that is not the direct one: the line of its own key when there is
  room for it, the shared line otherwise, and the proxy line when it has no key; there are at most six lines.
\<close>

theorem groups_on_their_lines:
  "list_all2 (\<lambda>g key. lg_line g + 1 < length (lines (SetChainGroups tr now cfg s)) \<and>
       tl_key (lines (SetChainGroups tr now cfg s) ! lg_line g) = line_of_key (extras (collect_groups cfg)) key)
     (looper_groups (SetChainGroups tr now cfg s)) (groupKeys (collect_groups cfg)) \<and>
   length (lines (SetChainGroups tr now cfg s)) \<le> 6"
proof -
  let ?c = "collect_groups cfg"
  note ok = collect_groups_ok(1) [of cfg, unfolded collected_ok_def]
  obtain ls lineOf where p: "place_lines tr (extras ?c) = (ls, lineOf)" by fastforce
  let ?s = "SetChainGroups tr now cfg s"
  have parts: "lines ?s = ls @ [\<lparr>tl_key = lit ''direct'', tl_name = tr (lit ''Direct''), tl_kind = LineDirect\<rparr>]"
    "looper_groups ?s = map2 (\<lambda>g key. g\<lparr>lg_line := hash_value lineOf key 0\<rparr>) (newGroups ?c) (groupKeys ?c)"
    using p by (simp_all add: SetChainGroups_def Let_def del: lit_simps)
  have dist: "distinct (map tl_key (extras ?c))" and ne: "[] \<notin> tl_key ` set (extras ?c)" using ok by blast+
  have key: "k = [] \<or> k \<in> tl_key ` set (extras ?c)" if "k \<in> set (groupKeys ?c)" for k using ok that by blast
  note at = place_lines_key [OF dist ne _ p]
  have "length (lines ?s) \<le> 6" using at(3) [of "[]"] by (simp add: parts(1))
  moreover have on: "lg_line g + 1 < length (lines ?s) \<and> tl_key (lines ?s ! lg_line g) = line_of_key (extras ?c) k"
    if "lg_line g = hash_value lineOf k 0" "k \<in> set (groupKeys ?c)" for g k
    using at(1,2) [OF key [OF that(2)]] that(1) by (simp add: parts(1) nth_append)
  moreover have "list_all2 (\<lambda>g k. lg_line g + 1 < length (lines ?s) \<and> tl_key (lines ?s ! lg_line g) = line_of_key (extras ?c) k)
    (looper_groups ?s) (groupKeys ?c)"
  proof (rule list_all2_all_nthI)
    fix i assume "i < length (looper_groups ?s)"
    then have "i < length (groupKeys ?c)" "i < length (newGroups ?c)" using ok by (simp_all add: parts(2))
    then show "lg_line (looper_groups ?s ! i) + 1 < length (lines ?s) \<and>
      tl_key (lines ?s ! lg_line (looper_groups ?s ! i)) = line_of_key (extras ?c) (groupKeys ?c ! i)"
      by (intro on) (simp_all add: parts(2))
  qed (use ok in \<open>simp add: parts(2)\<close>)
  ultimately show ?thesis by blast
qed

section \<open>Each profile once\<close>

lemma first_profiles_ids:
  "distinct (map cp_id (first_profiles seen ps)) \<and>
   cp_id ` set (first_profiles seen ps) = {i. 0 \<le> i \<and> (\<exists>p. Some p \<in> set ps \<and> cp_id p = i)} - set seen"
proof (induction seen ps rule: first_profiles.induct)
  case (3 seen p ps)
  show ?case
  proof (cases "cp_id p < 0 \<or> cp_id p \<in> set seen")
    case True
    then have "{i. 0 \<le> i \<and> (\<exists>q. Some q \<in> set (Some p # ps) \<and> cp_id q = i)} - set seen =
      {i. 0 \<le> i \<and> (\<exists>q. Some q \<in> set ps \<and> cp_id q = i)} - set seen" by auto
    then show ?thesis using "3.IH"(1) True by (simp only: first_profiles.simps if_True)
  next
    case False
    then have "{i. 0 \<le> i \<and> (\<exists>q. Some q \<in> set (Some p # ps) \<and> cp_id q = i)} - set seen =
      insert (cp_id p) ({i. 0 \<le> i \<and> (\<exists>q. Some q \<in> set ps \<and> cp_id q = i)} - set (cp_id p # seen))" by auto
    moreover have "cp_id p \<notin> cp_id ` set (first_profiles (cp_id p # seen) ps)" using "3.IH"(2) False by simp
    ultimately show ?thesis using "3.IH"(2) False by (simp only: first_profiles.simps if_False list.map distinct.simps list.set image_insert) simp
  qed
qed auto

lemma credited_once: "distinct (creditedIds (SetChainGroups tr now cfg s))"
proof -
  obtain ls lineOf where "place_lines tr (extras (collect_groups cfg)) = (ls, lineOf)" by fastforce
  then show ?thesis
    using first_profiles_ids [of "[]"] by (simp add: SetChainGroups_def group_profiles_def Let_def del: lit_simps)
qed

text \<open>What is saved: the profiles of the groups that credited something, each id once; a second save writes nothing.\<close>

lemma saved_once:
  "distinct (map cp_id (fst (PersistTraffic s)))"
  "cp_id ` set (fst (PersistTraffic s)) =
     {i. 0 \<le> i \<and> (\<exists>g \<in> set (looper_groups s). lg_dirty g \<and> (\<exists>p. Some p \<in> set (lg_profiles g) \<and> cp_id p = i))}"
  "fst (PersistTraffic (snd (PersistTraffic s))) = []"
proof -
  note ids = first_profiles_ids [of "[]" "concat (map lg_profiles (filter lg_dirty (looper_groups s)))"]
  show "distinct (map cp_id (fst (PersistTraffic s)))" using ids by (simp add: PersistTraffic_def group_profiles_def)
  show "cp_id ` set (fst (PersistTraffic s)) =
    {i. 0 \<le> i \<and> (\<exists>g \<in> set (looper_groups s). lg_dirty g \<and> (\<exists>p. Some p \<in> set (lg_profiles g) \<and> cp_id p = i))}"
    using ids by (simp add: PersistTraffic_def group_profiles_def) blast
  have "filter lg_dirty (map (\<lambda>g. g\<lparr>lg_dirty := False\<rparr>) gs) = []" for gs by (induction gs) simp_all
  then show "fst (PersistTraffic (snd (PersistTraffic s))) = []" by (simp add: PersistTraffic_def group_profiles_def)
qed

text \<open>Two samples are at least three quarters of a second apart.\<close>

lemma emitDue_apart: "emitDue now ls = (True, ls') \<Longrightarrow> lastEmitMs ls + 750 \<le> now \<and> lastEmitMs ls' = now"
  by (simp add: emitDue_def kTrafficLooperEmitIntervalMs_def kTrafficLooperProbeIntervalMs_def split: if_splits) auto

end
