(* ===== verification/TrafficLooperSafety.thy ===== *)
theory TrafficLooperSafety
  imports TrafficLines
begin

text \<open>
  When the loop of the traffic looper crashes. The invariant of the looper (every group has a line that is not the last,
  every probe has as many bytes as the lines need, the two entries exist once there are lines) is kept by a new
  configuration, a probe and a save, so no index is out of range and no entry is null; what is left are the answers of the
  core that miss a counter and the null profiles of a configuration.
\<close>

section \<open>The invariant of the looper\<close>






section \<open>When a probe crashes\<close>
















section \<open>When the loop crashes\<close>















end
