(* ===== verification/TrafficCredit.thy ===== *)
theory TrafficCredit
  imports TrafficLooperSafety TrafficLedger
begin

text \<open>
  Where the bytes go: a probe credits the counters of a profile and the statistics with the same bytes, and an auto
  selector behind a wrapper is credited once for each of its members.
\<close>

section \<open>The counters and the statistics agree\<close>

definition calls_for :: "int \<Rightarrow> delta_calls \<Rightarrow> bytes2" where
  "calls_for i calls = sum2 (map snd (filter (\<lambda>c. fst c = i) calls))"

lemma plus2_assoc: "plus2 (plus2 a b) c = plus2 a (plus2 b c)"
  and plus2_0 [simp]: "plus2 (0, 0) a = a" "plus2 a (0, 0) = a"
  by (simp_all add: plus2_def)

lemma calls_for_simps [simp]:
  "calls_for i [] = (0, 0)" "calls_for i (c # cs) = (if fst c = i then plus2 (snd c) (calls_for i cs) else calls_for i cs)"
  "calls_for i (cs @ ds) = plus2 (calls_for i cs) (calls_for i ds)"
proof -
  show nil: "calls_for i [] = (0, 0)" by (simp add: calls_for_def sum2_def)
  show cons: "calls_for i (c # cs) = (if fst c = i then plus2 (snd c) (calls_for i cs) else calls_for i cs)" for c cs
    by (simp add: calls_for_def sum2_def)
  show "calls_for i (cs @ ds) = plus2 (calls_for i cs) (calls_for i ds)"
    by (induction cs) (simp_all add: nil cons plus2_assoc)
qed

text \<open>Within a group the object of a profile and its id say the same.\<close>

definition identified :: "credit_profile \<Rightarrow> credit_profile option list \<Rightarrow> bool" where
  "identified q ps \<longleftrightarrow> (\<forall>p. Some p \<in> set ps \<longrightarrow> (cp_id p = cp_id q \<longleftrightarrow> cp_ref p = cp_ref q))"

lemma identified_simps [simp]:
  "identified q []" "identified q (None # ps) = identified q ps"
  "identified q (Some p # ps) \<longleftrightarrow> (cp_id p = cp_id q \<longleftrightarrow> cp_ref p = cp_ref q) \<and> identified q ps"
  by (auto simp: identified_def)

abbreviation counter_of :: "(nat, bytes2) qhash \<Rightarrow> credit_profile \<Rightarrow> bytes2" where
  "counter_of cs q \<equiv> hash_value cs (cp_ref q) (0, 0)"

lemma credit_all_counter:
  "credit_all d ps cs = Some (cs', calls) \<Longrightarrow> identified q ps \<Longrightarrow> counter_of cs' q = plus2 (counter_of cs q) (calls_for (cp_id q) calls)"
proof (induction ps arbitrary: cs calls)
  case (Cons p ps)
  then obtain p' calls' where p: "p = Some p'" "calls = (cp_id p', d) # calls'"
    and rest: "credit_all d ps (AList.update (cp_ref p') (plus2 (hash_value cs (cp_ref p') (0, 0)) d) cs) = Some (cs', calls')"
    by (cases p) (auto split: Option.bind_splits)
  have "counter_of cs' q =
    plus2 (counter_of (AList.update (cp_ref p') (plus2 (hash_value cs (cp_ref p') (0, 0)) d) cs) q) (calls_for (cp_id q) calls')"
    using Cons.IH [OF rest] Cons.prems(2) p(1) by simp
  then show ?case using Cons.prems(2) p by (auto simp: plus2_assoc)
qed simp

lemma update_group_credits:
  "update_group resp g bs cs = Some (g', bs', cs', calls) \<Longrightarrow>
   cs' = cs \<and> calls = [] \<or> (\<exists>d. credit_all d (lg_profiles g) cs = Some (cs', calls))"
  by (auto simp: update_group_def split: option.splits if_splits Option.bind_splits)

lemma update_group_counter:
  assumes "update_group resp g bs cs = Some (g', bs', cs', calls)" "identified q (lg_profiles g)"
  shows "counter_of cs' q = plus2 (counter_of cs q) (calls_for (cp_id q) calls)"
  using update_group_credits [OF assms(1)]
proof (elim disjE exE conjE)
  fix d assume "credit_all d (lg_profiles g) cs = Some (cs', calls)"
  then show ?thesis using credit_all_counter assms(2) by blast
qed simp

lemma update_groups_counter:
  "update_groups resp gs bs cs = Some (gs', bs', cs', calls) \<Longrightarrow> list_all (\<lambda>g. identified q (lg_profiles g)) gs \<Longrightarrow>
   counter_of cs' q = plus2 (counter_of cs q) (calls_for (cp_id q) calls)"
proof (induction gs arbitrary: bs cs gs' calls)
  case (Cons g gs)
  from Cons.prems(1) obtain g1 bs1 cs1 c1 gs1 c2 where
    s: "update_group resp g bs cs = Some (g1, bs1, cs1, c1)" "update_groups resp gs bs1 cs1 = Some (gs1, bs', cs', c2)" "calls = c1 @ c2"
    by (auto split: Option.bind_splits)
  show ?case
    using update_group_counter [OF s(1), of q] Cons.IH [OF s(2)] Cons.prems(2) by (simp add: s(3) plus2_assoc)
qed simp

lemma update_direct_calls:
  "update_direct resp bs = Some (bs', calls) \<Longrightarrow> i \<noteq> kDirectStatProfileId \<Longrightarrow> calls_for i calls = (0, 0)"
  by (auto simp: update_direct_def split: option.splits Option.bind_splits if_splits)

lemma UpdateAll_counter:
  assumes "UpdateAll disabled resp now s = Some (s', calls)" "list_all (\<lambda>g. identified q (lg_profiles g)) (looper_groups s)"
    "cp_id q \<noteq> kDirectStatProfileId"
  shows "counter_of (counters s') q = plus2 (counter_of (counters s) q) (calls_for (cp_id q) calls)"
proof (cases disabled)
  case False
  then obtain gs bs cs c1 bs' c2 where
    u: "update_groups resp (looper_groups s) (replicate (length (lines s) * 2) 0) (counters s) = Some (gs, bs, cs, c1)"
    "update_direct resp bs = Some (bs', c2)" "calls = c1 @ c2" "counters s' = cs"
    using assms(1) by (auto simp: UpdateAll_def Let_def split: Option.bind_splits)
  show ?thesis
    using update_groups_counter [OF u(1) assms(2)] update_direct_calls [OF u(2) assms(3)] by (simp add: u(3,4))
qed (use assms(1) in \<open>simp add: UpdateAll_def\<close>)

definition delta_events :: "int \<Rightarrow> delta_calls \<Rightarrow> stats_event list" where
  "delta_events secs calls = map (\<lambda>(i, d). ConfigDelta False None None secs i d) calls"

lemma delta_events_credited:
  "sum2 (map (credited (secs div 3600) i) (delta_events secs calls)) = calls_for i calls"
  by (induction calls) (auto simp: delta_events_def sum2_def plus2_def calls_for_def)

lemma config_bytes_run:
  assumes "fresh_stats st" "list_all clean_event es" "list_all (retains h) es"
  shows "config_bytes h i (run (\<lambda>s e. stats_step e s) st es) = plus2 (config_bytes h i st) (sum2 (map (credited h i) es))"
  using hour_ledger_run [OF additive_fst assms, of i] hour_ledger_run [OF additive_snd assms, of i]
    additive_sum2 [OF additive_fst, of "map (credited h i) es"] additive_sum2 [OF additive_snd, of "map (credited h i) es"]
  by (intro prod_eqI) (simp_all add: config_bytes_def plus2_def comp_def)

text \<open>
  C19. The bytes that a probe adds to the counters of a profile are those that its calls add to the statistics of the hour.
\<close>

theorem probe_reaches_statistics:
  assumes "UpdateAll disabled resp now s = Some (s', calls)" "list_all (\<lambda>g. identified q (lg_profiles g)) (looper_groups s)"
    "cp_id q \<noteq> kDirectStatProfileId" "fresh_stats st" "60 \<le> secs"
  shows "plus2 (config_bytes (secs div 3600) (cp_id q) (run (\<lambda>s e. stats_step e s) st (delta_events secs calls)))
      (counter_of (counters s) q) =
    plus2 (config_bytes (secs div 3600) (cp_id q) st) (counter_of (counters s') q)"
proof -
  have ok: "list_all clean_event (delta_events secs calls)" "list_all (retains (secs div 3600)) (delta_events secs calls)"
    using assms(5) by (auto simp: delta_events_def list_all_iff)
  show ?thesis
    unfolding config_bytes_run [OF assms(4) ok] delta_events_credited UpdateAll_counter [OF assms(1-3)]
    by (simp add: plus2_def)
qed

theorem probe_reaches_statistics_witness:
  "config_bytes 2 7 (run (\<lambda>s e. stats_step e s) (empty_stats empty_repo) (delta_events 7200 [(7, (5, 9))])) = (5, 9)"
proof -
  let ?q = "\<lparr>cp_ref = 0, cp_id = 7\<rparr>"
  let ?l = "\<lparr>tl_key = [], tl_name = [], tl_kind = LineProxy\<rparr>"
  let ?g = "\<lparr>lg_tag = [1], lg_profiles = [Some ?q], lg_line = 0, lg_dirty = False\<rparr>"
  let ?s = "\<lparr>looper_groups = [?g], lines = [?l, ?l], creditedIds = [7], rateWindow = [], lastProbeMs = 0, counters = []\<rparr>"
  have u: "UpdateAll False \<lparr>ups = [([1], 5)], downs = [([1], 9)]\<rparr> 100 ?s =
    Some (?s\<lparr>looper_groups := [?g\<lparr>lg_dirty := True\<rparr>], counters := [(0, (5, 9))], lastProbeMs := 100\<rparr>, [(7, (5, 9))])"
    by (simp add: UpdateAll_def update_group_def add_at_def update_direct_def plus2_def kTrafficLooperGapMs_def Let_def)
  show ?thesis
    using probe_reaches_statistics [OF u, of ?q "empty_stats empty_repo" 7200]
    by (simp add: kDirectStatProfileId_def fresh_stats_def empty_stats_def empty_repo_def config_bytes_def config_hour_total_def
        plus2_def)
qed

section \<open>An auto selector behind a wrapper\<close>

lemma selector_groups_members:
  "foldl (\<lambda>gs g. member_group sel g gs) gs (map Some ms) =
    gs @ map (\<lambda>g. g\<lparr>cg_profiles := cg_profiles g @ [Some sel]\<rparr>) ms"
proof (induction ms arbitrary: gs)
  case (Cons m ms)
  then show ?case by (simp add: member_group_def append_last_def butlast_append)
qed simp

lemma calls_for_credit:
  "credit_all d ps cs = Some (cs', calls) \<Longrightarrow>
   calls_for i calls = (of_nat (length (filter (\<lambda>p. \<exists>q. p = Some q \<and> cp_id q = i) ps)) * fst d,
                        of_nat (length (filter (\<lambda>p. \<exists>q. p = Some q \<and> cp_id q = i) ps)) * snd d)"
proof (induction ps arbitrary: cs calls)
  case (Cons p ps)
  then obtain p' calls' where p: "p = Some p'" "calls = (cp_id p', d) # calls'"
    and rest: "credit_all d ps (AList.update (cp_ref p') (plus2 (hash_value cs (cp_ref p') (0, 0)) d) cs) = Some (cs', calls')"
    by (cases p) (auto split: Option.bind_splits)
  show ?case using Cons.IH [OF rest] by (simp add: p plus2_def algebra_simps)
qed simp

definition multiplied :: "nat \<Rightarrow> bytes2 \<Rightarrow> bytes2" where
  "multiplied n d = (of_nat n * fst d, of_nat n * snd d)"

text \<open>
  C40. With a wrapper in front of an auto selector of n members, every probe of the merged group credits the selector
  with n times the bytes that passed: the group lists it once per member and the probe does not look for repeats.
\<close>

theorem wrapped_selector_overcounted:
  assumes "list_all (\<lambda>m. list_all (\<lambda>p. \<forall>q. p = Some q \<longrightarrow> cp_id q \<noteq> cp_id sel) (cg_profiles m)) ms"
    "credit_all d (cg_profiles (last (selector_groups True sel (map Some ms) gs))) cs = Some (cs', calls)"
  shows "calls_for (cp_id sel) calls = multiplied (length ms) d"
proof -
  have last: "cg_profiles (last (selector_groups True sel (map Some ms) gs)) =
    concat (map (\<lambda>g. cg_profiles g @ [Some sel]) (rev ms))"
    by (simp add: selector_groups_def selector_groups_members wrap_groups_def rev_map comp_def)
  have one: "filter (\<lambda>p. \<exists>q. p = Some q \<and> cp_id q = cp_id sel) (cg_profiles m @ [Some sel]) = [Some sel]" if "m \<in> set ms" for m
  proof -
    have "filter (\<lambda>p. \<exists>q. p = Some q \<and> cp_id q = cp_id sel) (cg_profiles m) = []"
      using assms(1) that by (auto simp: filter_empty_conv list_all_iff)
    then show ?thesis by simp
  qed
  have "length (filter (\<lambda>p. \<exists>q. p = Some q \<and> cp_id q = cp_id sel) (concat (map (\<lambda>g. cg_profiles g @ [Some sel]) ns))) = length ns"
    if "set ns \<subseteq> set ms" for ns
    using that
  proof (induction ns)
    case (Cons n ns)
    then show ?case using one [of n] by (simp only: concat.simps list.map filter_append length_append) simp
  qed simp
  from this [of "rev ms"] show ?thesis
    using calls_for_credit [OF assms(2), of "cp_id sel"] by (simp add: last multiplied_def)
qed

theorem wrapped_selector_overcounted_witness:
  "calls_for 9 [(7, (5, 6)), (9, (5, 6)), (8, (5, 6)), (9, (5, 6))] = (10, 12)"
proof -
  let ?m = "\<lambda>i. \<lparr>watchTag = [1], cg_profiles = [Some \<lparr>cp_ref = nat i, cp_id = i\<rparr>], cg_kind = ChainMain, cg_profileId = - 1, cg_name = []\<rparr>"
  have c: "\<exists>cs'. credit_all (5, 6) (cg_profiles (last (selector_groups True \<lparr>cp_ref = 9, cp_id = 9\<rparr> (map Some [?m 8, ?m 7]) []))) [] =
    Some (cs', [(7, (5, 6)), (9, (5, 6)), (8, (5, 6)), (9, (5, 6))])"
    by (simp add: selector_groups_def member_group_def append_last_def wrap_groups_def)
  then obtain cs' where "credit_all (5, 6) (cg_profiles (last (selector_groups True \<lparr>cp_ref = 9, cp_id = 9\<rparr> (map Some [?m 8, ?m 7]) []))) [] =
    Some (cs', [(7, (5, 6)), (9, (5, 6)), (8, (5, 6)), (9, (5, 6))])" by blast
  from wrapped_selector_overcounted [OF _ this] show ?thesis by (simp add: multiplied_def)
qed

end
