(* ===== verification/Spec2Isabelle.thy ===== *)
theory Spec2Isabelle
  imports
    LogBuffer EditLocks RunningProfiles PeriodicRunner ResumeGuard StderrTail
    KillSwitchHandover CoreSupervisorRecovery
    AutoSelectorPlan AutoSelectorMonitor
    IpListProps SubscriptionReconcile Validate
    RemoteServerProps OtpForms
    ConnectionAnswers ConnectionFlag
    FieldRegexCounts FieldDurationText FieldAddressText FieldUuid
    TrafficRollup TrafficCredit
begin

text \<open>
  A verification development for the core logic of Throned, a Qt front end that drives a proxy core
  (\<^verbatim>\<open>src/\<close>, \<^verbatim>\<open>include/\<close>; paths below are relative to the repository).

  \<^bold>\<open>The program.\<close> A profile is started by a core process. The core supervisor launches that
  process, accepts its connection, restarts it with backoff when it dies and decides which profile to
  resume; the connection manager turns requests to start, stop or switch a profile, and changes of mode, into
  work for two worker threads; the resume guard keeps a profile that crashes every boot from being resumed for ever. The
  kill switch runs guard processes that block traffic outside the tunnel; the supervisor asks it before
  every start and tells it when the core cannot take the guard's identity. The auto selector ranks a
  pool of profiles, builds a part of it into the configuration, and its monitor reads the pool's health
  back from the core. A subscription refresh is a diff between the rows of a group and what arrived. The
  scanner reads lists of addresses. The remote control API lets other programs drive the application over
  encrypted connections. One-time passwords for VPN logins are generated and
  exchanged with other apps. Small services are shared: the user log ring, locks of open
  editors, the set of running profiles, a periodic runner, the check of a generated configuration, and the checks of
  what is typed into forms. While a profile runs, the traffic looper reads the byte counters of the core and credits them
  to the profiles and to the statistics, which keep them by minute and later by hour.

  \<^bold>\<open>Theories.\<close>
  \<^item> \<open>Prelude\<close>: Qt strings as lists of UTF-16 units, \<^verbatim>\<open>QHash\<close> as association lists, text operations,
    digits, \<^verbatim>\<open>std::stable_sort\<close>, runs of a machine; the locales \<open>invariant_system\<close> (an invariant every
    operation keeps, interpreted by each stateful component) and \<open>strict_weak_order\<close> (a comparator, with
    sortedness and stability of the sort). \<open>Json\<close>: \<^verbatim>\<open>QJsonValue\<close> and its conversions.
  \<^item> \<open>LogBuffer\<close> (\<^verbatim>\<open>src/global/LogBuffer.cpp\<close>), \<open>EditLocks\<close>, \<open>RunningProfiles\<close>, \<open>PeriodicRunner\<close>: one
    record each, one definition per function; bounds of the ring and what a reader sees, locks refining the
    set of open editors, nesting of scoped routes, which tasks a tick runs.
  \<^item> \<open>ResumeGuard\<close>: the saved record, its loading and its strikes over any sequence of boots; crash loops
    end, a saved record is restored by loading it.
  \<^item> \<open>StderrTail\<close>: the cause of a core failure out of its stderr. An unfinished line of more than 4096 bytes is
    dropped at the end of a chunk; apart from that the result does not depend on how the bytes were cut.
  \<^item> \<open>KillSwitch\<close> (\<^verbatim>\<open>src/sys/KillSwitch.cpp\<close>): the switch, its waiters and a heap of guard processes as
    one record; calls, guard signals and timers are events of \<open>ks_step\<close>. \<open>KillSwitchSafety\<close>: the
    invariant of every reachable state, starts only while a guard blocks, no caller left waiting.
    \<open>KillSwitchHandover\<close>: replacement of a guard without a gap, and a guard that is not ready in time (the switch
    fails when no older guard is in force, which otherwise stays).
  \<^item> \<open>CoreSupervisor\<close> (\<^verbatim>\<open>src/engine/supervisor/CoreSupervisor.cpp\<close> with the process class): the supervisor
    record holds the kill switch, the task queue of the core thread and the process; events of \<open>sup_step\<close>.
    \<open>CoreSupervisorSafety\<close>: exits are counted once, backoff is bounded and its timer runs, shutdown is
    final (a restart that was queued before it still spawns a core, which is then killed). \<open>CoreSupervisorRecovery\<close>: giving up, the identity exit (through the locale \<open>identity_latch\<close>
    interpreted on the kill switch), delivery of a waiting start, profiles that crash the core.
  \<^item> \<open>ConnectionManager\<close> (\<^verbatim>\<open>src/engine/connection\<close>): the manager as one record over the supervisor, the kill
    switch and the running set; the operations of the main thread. \<open>ConnectionRun\<close>: the start and the stop
    worker, the closures they post and the events of \<open>conn_step\<close>, so a sequence of events is an
    interleaving. \<open>ConnectionProps\<close>: no request is lost or answered twice (a ledger of serial
    numbers). \<open>ConnectionSafety\<close>, \<open>ConnectionLife\<close>: the invariant of locks, guard and announced state, and the
    progress of the workers. \<open>ConnectionAnswers\<close>: the reports that empty every place a request waits in, so each is
    answered. \<open>ConnectionFlag\<close>: the closure of one start takes back the connecting flag of the next.
  \<^item> \<open>AutoSelector\<close> (settings, JSON, history, checks), \<open>AutoSelectorPlan\<close> (eligible members, ranking, the
    plan of a build), \<open>AutoSelectorMonitor\<close> (polling, persisted health, and exhaustion
    over histories of builds, clears and polls).
  \<^item> \<open>IpAddr\<close>, \<open>IpAddrText\<close>, \<open>IpRange\<close>, \<open>IpListParse\<close>, \<open>IpListProps\<close> (\<^verbatim>\<open>src/scanner/IpListParse.cpp\<close>):
    addresses as two 64-bit words with the code's shifts and masks; what is printed is read back, networks
    have a normal form, the cover of a range is exact and short, a file yields only proper entries, and a
    written list of distinct entries in normal form reads back as itself but for latencies, which are not written.
  \<^item> \<open>SubscriptionReconcile\<close> (\<^verbatim>\<open>src/configs/sub/SubscriptionReconcile.cpp\<close> and \<^verbatim>\<open>ImportSink\<close> of
    \<^verbatim>\<open>GroupUpdater.cpp\<close>): the sink as an inductive reachability, the plan as a partition of all rows.
  \<^item> \<open>RemoteProtocol\<close> (\<^verbatim>\<open>src/api/remote/Protocol.cpp\<close>, \<^verbatim>\<open>Message.cpp\<close>): frames, requests and responses over
    parameters for cipher, HMAC and JSON text. \<open>RemoteServer\<close> (\<^verbatim>\<open>src/api/remote/Server.cpp\<close>): the worker with its
    connections as one record, sockets, timers, answers and settings as events of \<open>srv_step\<close>; the loop that reads
    input is a total function, since every pass consumes bytes. \<open>RemoteServerSafety\<close>: who is connected
    (\<open>Counters\<close> holds the tables of counters it shares with the edit locks). \<open>RemoteServerFrames\<close>: the frames of
    each connection. \<open>RemoteServerProps\<close>: nonces never repeat, one answer for each request, a request in pieces is
    handed over once, a peer that keeps failing is refused.
  \<^item> \<open>OtpCodec\<close>, \<open>Otp\<close> (\<^verbatim>\<open>src/global/OTP.cpp\<close>): base32 with its 32-bit register and the protobuf wire format as
    formats read from the front (locale \<open>prefix_format\<close> of \<open>Bytes\<close>), then entries, codes and the forms they are imported
    from. \<open>OtpProps\<close>: secrets keep their bytes, codes are those of RFC 4226, a code lasts as long as announced.
    \<open>OtpMigration\<close>, \<open>OtpForms\<close>: migration links, JSON and otpauth links are read back, with what each form loses. Of \<^verbatim>\<open>QUrl\<close> it is
    assumed only that a URL of printable characters without a percent sign is read back (\<open>url_law\<close>).
  \<^item> \<open>Validate\<close> (\<^verbatim>\<open>src/configs/validate.cpp\<close>): complaints equal the references, of those it reads, that do not resolve.

  \<^item> \<open>FieldChecks\<close>, \<open>FieldDuration\<close>, \<open>FieldAddress\<close>, \<open>FieldSecrets\<close>, \<open>FieldRegex\<close>, \<open>FieldPcre\<close>
    (\<^verbatim>\<open>src/global/Validation.cpp\<close>): the checks of form fields, a message or none for a text. \<open>FieldNumbers\<close>: the
    readers of integers and ports are exact on machine words. \<open>FieldDurationText\<close>: durations are read back as printed,
    sizes are accepted exactly when they fit. \<open>FieldAddressText\<close>: the address reader agrees with the scanner's, whose
    networks all pass. \<open>FieldUuid\<close>: the six forms of a UUID. \<open>FieldRegexCounts\<close>: nested repeats of a regular expression
    are refused by the product of their counts.
  \<^item> \<open>TrafficStats\<close> (\<^verbatim>\<open>src/stats/traffic/TrafficStatsManager.cpp\<close>, \<^verbatim>\<open>src/database/TrafficStatsRepo.cpp\<close>): the
    accumulators of the running minute over tables of minutes and hours; a statement is a function on tables, the answer
    of SQLite an argument. \<open>TrafficLedger\<close>: no byte of an hour is lost or counted twice. \<open>TrafficRollup\<close>: folding
    minutes into hours does not show in the queries. \<open>TrafficLooper\<close> (\<^verbatim>\<open>src/stats/traffic/TrafficLooper.cpp\<close>): groups,
    lines, probes and the loop, with \<open>None\<close> for a crash. \<open>TrafficLines\<close>: which line a group is drawn on.
    \<open>TrafficLooperSafety\<close>: the loop crashes on answers of the core that miss a counter and on null profiles, and on
    nothing else. \<open>TrafficCredit\<close>: profiles and statistics get the same bytes, except that an auto
    selector behind a wrapper is credited once per member.

  \<^bold>\<open>Reading the model.\<close> A class is a record, a method a function from state to state; calls on other
  threads are entries of a queue in the state; the clock, random numbers, answers of the database and of the
  operating system are arguments. Errors are options or values of the state. Loops are structural
  recursion, except the cover of a range, whose termination rests on the distance to the last address modulo
  \<open>2 ^ 128\<close>, and loops over the rest of a text. The one use of fuel is the search for a group name that is
  not taken (\<open>fresh_name\<close>): with one candidate more than there are names it always finds one (\<open>fresh_name_fresh\<close>).
  Integers are words where overflow matters (addresses, durations, sizes), natural numbers with the wrap-around written out in the readers of digits, and
  unbounded where the code's own bounds exclude overflow.

  \<^bold>\<open>Not modelled.\<close> The configuration builder (\<^verbatim>\<open>generate.cpp\<close>: a large JSON value out of all
  repositories; only its tunnel name and the traffic groups of an auto selector are here), the outbound classes other than the auto selector (field
  mappings), downloads and document parsing (network and third-party parsers), SQLite repositories, RPC, the
  endpoints of the remote control API, VPN authentication, widgets and dialogs, platform services, the Go core
  and vendored code.
\<close>

section \<open>The tunnel interface\<close>

text \<open>
  The kill switch exempts the tunnel by the name of its interface, which must be the name the generated
  configuration gives it (\<^verbatim>\<open>genTunName\<close> in \<^verbatim>\<open>src/configs/generate.cpp\<close>).
\<close>

definition genTunName :: "platform \<Rightarrow> string" where
  "genTunName p = (case p of MacOS \<Rightarrow> [] | _ \<Rightarrow> ''throned-tun'')"

text \<open>
  The two names agree on macOS only, where both are empty.
\<close>

theorem tun_name_mismatch: "tunName p = genTunName p \<longleftrightarrow> p = MacOS"
  by (cases p) (simp_all add: tunName_def genTunName_def)

end
